(* ===== verification/Comms_Prelude.thy ===== *)
theory Comms_Prelude
  imports Main "HOL-Library.Word" "HOL-Library.Sublist"
begin

text \<open>
  Shared ground of the development: the C integer conversions the sources rely on, memory
  blocks as character lists, the null terminator of C strings, and the generic lemmas on
  lists, options and maps that the component theories use. A byte is a \<^typ>\<open>char\<close> and a
  \<open>std::string\<close> a \<^typ>\<open>string\<close>, which may hold any byte, the null byte included.
\<close>

named_theorems comms_defs \<open>definitions the component proofs unfold together\<close>
named_theorems wf_intros \<open>preservation facts of the well-formedness invariants\<close>

type_synonym bytes = string
type_synonym DBID = nat

abbreviation NUL :: char where
  "NUL \<equiv> CHR 0x00"

abbreviation CR :: char where
  "CR \<equiv> CHR 0x0D"

abbreviation LF :: char where
  "LF \<equiv> CHR 0x0A"

abbreviation CRLF :: string where
  "CRLF \<equiv> [CHR 0x0D, CHR 0x0A]"

section \<open>C integer conversions\<close>

text \<open>
  Conversion to a signed type of \<open>w\<close> bits keeps the value modulo \<open>2 ^ w\<close> in two's complement;
  conversion to an unsigned type keeps it modulo \<open>2 ^ w\<close>.
\<close>

definition c_int :: "int \<Rightarrow> int" where
  "c_int x = (x + 2 ^ 31) mod 2 ^ 32 - 2 ^ 31"

definition c_int64 :: "int \<Rightarrow> int" where
  "c_int64 x = (x + 2 ^ 63) mod 2 ^ 64 - 2 ^ 63"

definition c_size :: "int \<Rightarrow> nat" where
  "c_size x = nat (x mod 2 ^ 64)"

definition c_uint32 :: "int \<Rightarrow> nat" where
  "c_uint32 x = nat (x mod 2 ^ 32)"

text \<open>
  \<open>size_add i step\<close> is \<open>i += step\<close> for a \<open>size_t\<close> index and an \<open>int\<close> step: it wraps below zero. Above,
  no index of an allocated block comes near \<open>2 ^ 64\<close>, so the sum is taken as it is.
\<close>

definition size_add :: "nat \<Rightarrow> int \<Rightarrow> nat" where
  "size_add i step = (let x = int i + step in nat (if x < 0 then x + 2 ^ 64 else x))"

lemma size_add_nat [simp]: "size_add i (int n) = i + n"
  by (simp add: size_add_def Let_def nat_add_distrib)

lemma size_add_numeral [simp]: "size_add i (numeral n) = i + numeral n" "size_add i 1 = Suc i"
  using size_add_nat [of i "numeral n"] size_add_nat [of i 1] by simp_all

lemma size_add_minus [simp]: "n \<le> i \<Longrightarrow> size_add i (- int n) = i - n"
  by (simp add: size_add_def Let_def)

lemma size_add_pred [simp]: "0 < i \<Longrightarrow> size_add i (- 1) = i - 1"
  using size_add_minus [of 1 i] by simp

lemma c_int_id [simp]: "- (2 ^ 31) \<le> x \<Longrightarrow> x < 2 ^ 31 \<Longrightarrow> c_int x = x"
  by (simp add: c_int_def)

lemma c_int_nat [simp]: "n < 2 ^ 31 \<Longrightarrow> c_int (int n) = int n"
  by (rule c_int_id) auto

lemma c_int_range: "- (2 ^ 31) \<le> c_int x \<and> c_int x < 2 ^ 31"
  by (simp add: c_int_def)

lemma c_int64_id [simp]: "- (2 ^ 63) \<le> x \<Longrightarrow> x < 2 ^ 63 \<Longrightarrow> c_int64 x = x"
  by (simp add: c_int64_def)

lemma c_int64_range: "- (2 ^ 63) \<le> c_int64 x \<and> c_int64 x < 2 ^ 63"
  by (simp add: c_int64_def)

lemma c_size_id [simp]: "0 \<le> x \<Longrightarrow> x < 2 ^ 64 \<Longrightarrow> c_size x = nat x"
  by (simp add: c_size_def)

lemma c_uint32_id [simp]: "0 \<le> x \<Longrightarrow> x < 2 ^ 32 \<Longrightarrow> c_uint32 x = nat x"
  by (simp add: c_uint32_def)

section \<open>Memory blocks\<close>

text \<open>
  A block of memory is a character list. \<open>mem_put\<close> is \<open>memcpy\<close> into a block at an offset,
  \<open>region\<close> the bytes of a block between two offsets.
\<close>

definition mem_put :: "bytes \<Rightarrow> nat \<Rightarrow> bytes \<Rightarrow> bytes" where
  "mem_put m i d = take i m @ d @ drop (i + length d) m"

definition region :: "bytes \<Rightarrow> nat \<Rightarrow> nat \<Rightarrow> bytes" where
  "region m s e = take (e - s) (drop s m)"

lemma length_mem_put [simp]:
  "i + length d \<le> length m \<Longrightarrow> length (mem_put m i d) = length m"
  by (simp add: mem_put_def)

lemma length_region [simp]: "e \<le> length m \<Longrightarrow> length (region m s e) = e - s"
  by (simp add: region_def)

lemma region_empty [simp]: "e \<le> s \<Longrightarrow> region m s e = []"
  by (simp add: region_def)

lemma region_nth [simp]: "s + i < e \<Longrightarrow> e \<le> length m \<Longrightarrow> region m s e ! i = m ! (s + i)"
  by (simp add: region_def)

lemma region_split: "s \<le> k \<Longrightarrow> k \<le> e \<Longrightarrow> region m s e = region m s k @ region m k e"
proof -
  assume "s \<le> k" "k \<le> e"
  then have "e - s = (k - s) + (e - k)" and "drop (k - s) (drop s m) = drop k m"
    by auto
  then show ?thesis
    by (simp add: region_def take_add)
qed

lemma region_mem_put_before [simp]:
  "e \<le> i \<Longrightarrow> i \<le> length m \<Longrightarrow> region (mem_put m i d) s e = region m s e"
  by (cases "s \<le> e") (auto simp: region_def mem_put_def take_drop min_absorb1)

lemma region_mem_put_at [simp]:
  "i \<le> length m \<Longrightarrow> region (mem_put m i d) i (i + length d) = d"
  by (simp add: region_def mem_put_def)

lemma region_mem_put_append:
  assumes "s \<le> i" "i \<le> length m"
  shows "region (mem_put m i d) s (i + length d) = region m s i @ d"
  using assms region_split [of s i "i + length d" "mem_put m i d"] by simp

lemma region_drop: "n \<le> e - s \<Longrightarrow> drop n (region m s e) = region m (s + n) e"
  by (simp add: region_def drop_take add.commute)

lemma take_region: "n \<le> e - s \<Longrightarrow> take n (region m s e) = region m s (s + n)"
  by (simp add: region_def min_absorb1)

lemma drop_eq_region: "length m = e \<Longrightarrow> drop s m = region m s e"
  by (simp add: region_def)

section \<open>C strings and searches\<close>

text \<open>\<open>c_str s\<close> is what a C function sees of \<open>s.c_str()\<close>: the bytes before the first null.\<close>

definition c_str :: "string \<Rightarrow> string" where
  "c_str s = takeWhile (\<lambda>c. c \<noteq> NUL) s"

lemma c_str_id [simp]: "NUL \<notin> set s \<Longrightarrow> c_str s = s"
  unfolding c_str_def by (subst takeWhile_eq_all_conv) auto

fun memchr :: "char \<Rightarrow> bytes \<Rightarrow> nat option" where
  "memchr c [] = None"
| "memchr c (x # xs) = (if x = c then Some 0 else map_option Suc (memchr c xs))"

lemma memchr_None: "memchr c xs = None \<longleftrightarrow> c \<notin> set xs"
  by (induction xs) auto

lemma memchr_Some:
  "memchr c xs = Some k \<longleftrightarrow> k < length xs \<and> xs ! k = c \<and> c \<notin> set (take k xs)"
proof (induction xs arbitrary: k)
  case Nil
  then show ?case by simp
next
  case (Cons x xs)
  show ?case by (cases k) (auto simp: Cons.IH)
qed

lemma memchr_append [simp]:
  "c \<notin> set xs \<Longrightarrow> memchr c (xs @ c # ys) = Some (length xs)"
  by (simp add: memchr_Some)

section \<open>Lists and folds\<close>

lemma foldl_invariant:
  assumes "P s" and "\<And>s x. P s \<Longrightarrow> x \<in> set xs \<Longrightarrow> P (f s x)"
  shows "P (foldl f s xs)"
  using assms by (induction xs arbitrary: s) auto

lemma takeWhile_append_stop:
  "\<forall>x \<in> set xs. P x \<Longrightarrow> \<not> P y \<Longrightarrow> takeWhile P (xs @ y # ys) = xs"
  by (induction xs) auto

end
