(* ===== verification/Byte_Buffer.thy ===== *)
theory Byte_Buffer
  imports Comms_Prelude
begin

text \<open>
  The growable byte buffer of \<open>common/buffer/buffer.hpp\<close> and \<open>buffer.cpp\<close>: a raw block with a
  read and a write index. Every socket read, every codec and the write-ahead log go through
  it. Sizes are natural numbers; \<open>grow_capacity_bound\<close> shows that the doubling loop stays
  below the width of \<open>size_t\<close>. A block that \<open>malloc\<close> returns has indeterminate contents, which
  are the parameter \<open>u\<close> (the byte at each offset) of the operations that allocate; \<open>malloc\<close> is
  assumed to succeed. An operation that returns \<open>-1\<close> without an effect returns \<^const>\<open>None\<close>.
\<close>

section \<open>State\<close>

record Buffer =
  m_buffer :: bytes
  m_buffer_len :: nat
  m_write_idx :: nat
  m_read_idx :: nat
  m_in_heap :: bool

definition DEFAULT_BUFFER_SIZE :: nat where
  "DEFAULT_BUFFER_SIZE = 32"

definition Buffer_new :: Buffer where
  "Buffer_new = \<lparr>m_buffer = [], m_buffer_len = 0, m_write_idx = 0, m_read_idx = 0,
     m_in_heap = True\<rparr>"

definition Buffer_wrap :: "bytes \<Rightarrow> nat \<Rightarrow> nat \<Rightarrow> Buffer" where
  "Buffer_wrap value off len = \<lparr>m_buffer = value, m_buffer_len = len,
     m_write_idx = off + len, m_read_idx = off, m_in_heap = False\<rparr>"

definition WrapReadableContent :: "Buffer \<Rightarrow> bytes \<Rightarrow> nat \<Rightarrow> bool \<times> Buffer" where
  "WrapReadableContent b data len =
     (if m_in_heap b \<and> m_buffer_len b > 0 then (False, b)
      else (True, b\<lparr>m_in_heap := False, m_buffer := data, m_buffer_len := len,
                    m_read_idx := 0, m_write_idx := len\<rparr>))"

section \<open>Indices\<close>

definition SetReadIndex :: "Buffer \<Rightarrow> nat \<Rightarrow> Buffer" where
  "SetReadIndex b idx = b\<lparr>m_read_idx := idx\<rparr>"

definition AdvanceReadIndex :: "Buffer \<Rightarrow> int \<Rightarrow> Buffer" where
  "AdvanceReadIndex b step = b\<lparr>m_read_idx := size_add (m_read_idx b) step\<rparr>"

definition SetWriteIndex :: "Buffer \<Rightarrow> nat \<Rightarrow> Buffer" where
  "SetWriteIndex b idx = b\<lparr>m_write_idx := idx\<rparr>"

definition AdvanceWriteIndex :: "Buffer \<Rightarrow> int \<Rightarrow> Buffer" where
  "AdvanceWriteIndex b step = b\<lparr>m_write_idx := size_add (m_write_idx b) step\<rparr>"

definition Readable :: "Buffer \<Rightarrow> bool" where
  "Readable b \<longleftrightarrow> m_write_idx b > m_read_idx b"

definition Writeable :: "Buffer \<Rightarrow> bool" where
  "Writeable b \<longleftrightarrow> m_buffer_len b > m_write_idx b"

definition ReadableBytes :: "Buffer \<Rightarrow> nat" where
  "ReadableBytes b = (if Readable b then m_write_idx b - m_read_idx b else 0)"

definition WriteableBytes :: "Buffer \<Rightarrow> nat" where
  "WriteableBytes b = (if Writeable b then m_buffer_len b - m_write_idx b else 0)"

definition Capacity :: "Buffer \<Rightarrow> nat" where
  "Capacity b = m_buffer_len b"

definition Buffer_Clear :: "Buffer \<Rightarrow> Buffer" where
  "Buffer_Clear b = b\<lparr>m_write_idx := 0, m_read_idx := 0\<rparr>"

definition Limit :: "Buffer \<Rightarrow> Buffer" where
  "Limit b = b\<lparr>m_buffer_len := m_write_idx b\<rparr>"

text \<open>
  \<open>GetRawReadBuffer()[i]\<close> reads the raw block relative to the read index, whatever the write
  index is. An access outside the block is undefined behaviour in the source and \<^const>\<open>None\<close>
  here.
\<close>

definition raw_at :: "Buffer \<Rightarrow> int \<Rightarrow> char option" where
  "raw_at b i =
     (let j = int (m_read_idx b) + i
      in if 0 \<le> j \<and> j < int (length (m_buffer b)) then Some (m_buffer b ! nat j) else None)"

definition AsString :: "Buffer \<Rightarrow> string" where
  "AsString b = take (ReadableBytes b) (drop (m_read_idx b) (m_buffer b))"

section \<open>Growing\<close>

text \<open>The loop \<open>while (newCapacity < minNewCapacity) newCapacity <<= 1\<close>.\<close>

function grow_capacity :: "nat \<Rightarrow> nat \<Rightarrow> nat" where
  "grow_capacity c m = (if 0 < c \<and> c < m then grow_capacity (2 * c) m else c)"
  by pat_completeness auto
termination
  by (relation "measure (\<lambda>(c, m). m - c)") auto

declare grow_capacity.simps [simp del]

definition malloc_block :: "(nat \<Rightarrow> char) \<Rightarrow> bool \<Rightarrow> nat \<Rightarrow> bytes" where
  "malloc_block u growzero n = (if growzero then replicate n NUL else map u [0..<n])"

definition EnsureWritableBytes :: "(nat \<Rightarrow> char) \<Rightarrow> Buffer \<Rightarrow> nat \<Rightarrow> bool \<Rightarrow> Buffer" where
  "EnsureWritableBytes u b minWritableBytes growzero =
     (if WriteableBytes b \<ge> minWritableBytes then b
      else let newCapacity = (if Capacity b = 0 then DEFAULT_BUFFER_SIZE else Capacity b);
               minNewCapacity = m_write_idx b + minWritableBytes;
               newCapacity = grow_capacity newCapacity minNewCapacity;
               tmp = malloc_block u growzero newCapacity
           in b\<lparr>m_in_heap := True,
                m_buffer := mem_put tmp 0 (take (Capacity b) (m_buffer b)),
                m_buffer_len := newCapacity\<rparr>)"

definition Compact :: "Buffer \<Rightarrow> nat \<Rightarrow> nat \<times> Buffer" where
  "Compact b leastLength =
     (let b = (if \<not> Readable b then Buffer_Clear b else b);
          writableBytes = c_uint32 (int (WriteableBytes b))
      in if writableBytes < leastLength then (0, b)
         else let readableBytes = c_uint32 (int (ReadableBytes b));
                  total = c_uint32 (int (Capacity b))
              in if readableBytes > 0
                 then (c_uint32 (int total - int readableBytes),
                       b\<lparr>m_read_idx := 0, m_write_idx := readableBytes,
                         m_buffer_len := readableBytes,
                         m_buffer := take readableBytes (drop (m_read_idx b) (m_buffer b)),
                         m_in_heap := True\<rparr>)
                 else (0, b))"

section \<open>Reading and writing\<close>

definition Buffer_Read :: "Buffer \<Rightarrow> nat \<Rightarrow> (bytes \<times> Buffer) option" where
  "Buffer_Read b datlen =
     (if datlen > ReadableBytes b then None
      else Some (take datlen (drop (m_read_idx b) (m_buffer b)),
                 b\<lparr>m_read_idx := m_read_idx b + datlen\<rparr>))"

definition Buffer_Write :: "(nat \<Rightarrow> char) \<Rightarrow> Buffer \<Rightarrow> bytes \<Rightarrow> Buffer" where
  "Buffer_Write u b data =
     (let b = EnsureWritableBytes u b (length data) False
      in b\<lparr>m_buffer := mem_put (m_buffer b) (m_write_idx b) data,
           m_write_idx := m_write_idx b + length data\<rparr>)"

text \<open>\<open>Write(Buffer* unit, size_t datlen)\<close> moves bytes out of \<open>unit\<close>; both buffers change.\<close>

definition Buffer_Write_unit ::
  "(nat \<Rightarrow> char) \<Rightarrow> Buffer \<Rightarrow> Buffer \<Rightarrow> nat \<Rightarrow> Buffer \<times> Buffer" where
  "Buffer_Write_unit u b unit datlen =
     (let datlen = (if datlen > ReadableBytes unit then ReadableBytes unit else datlen);
          b' = Buffer_Write u b (take datlen (drop (m_read_idx unit) (m_buffer unit)))
      in (b', if c_int (int datlen) > 0
              then unit\<lparr>m_read_idx := m_read_idx unit + datlen\<rparr> else unit))"

definition Buffer_Read_unit ::
  "(nat \<Rightarrow> char) \<Rightarrow> Buffer \<Rightarrow> Buffer \<Rightarrow> nat \<Rightarrow> Buffer \<times> Buffer" where
  "Buffer_Read_unit u b unit datlen =
     (let (unit', b') = Buffer_Write_unit u unit b datlen in (b', unit'))"

definition WriteByte :: "(nat \<Rightarrow> char) \<Rightarrow> Buffer \<Rightarrow> char \<Rightarrow> Buffer" where
  "WriteByte u b ch = Buffer_Write u b [ch]"

definition ReadByte :: "Buffer \<Rightarrow> (char \<times> Buffer) option" where
  "ReadByte b = map_option (\<lambda>(d, b'). (d ! 0, b')) (Buffer_Read b 1)"

definition SetBytes :: "Buffer \<Rightarrow> bytes \<Rightarrow> nat \<Rightarrow> Buffer option" where
  "SetBytes b data index =
     (if index + length data > m_write_idx b then None
      else Some (b\<lparr>m_buffer := mem_put (m_buffer b) index data\<rparr>))"

definition Copyout :: "Buffer \<Rightarrow> nat \<Rightarrow> bytes" where
  "Copyout b datlen =
     (if datlen = 0 then []
      else let datlen = (if datlen > ReadableBytes b then ReadableBytes b else datlen)
           in take datlen (drop (m_read_idx b) (m_buffer b)))"

definition Copyout_unit :: "(nat \<Rightarrow> char) \<Rightarrow> Buffer \<Rightarrow> Buffer \<Rightarrow> nat \<Rightarrow> Buffer" where
  "Copyout_unit u b unit datlen =
     (let unit = EnsureWritableBytes u unit datlen False;
          d = Copyout b datlen
      in unit\<lparr>m_buffer := mem_put (m_buffer unit) (m_write_idx unit) d,
              m_write_idx := (if c_int (int (length d)) > 0
                              then m_write_idx unit + length d else m_write_idx unit)\<rparr>)"

definition SkipBytes :: "Buffer \<Rightarrow> nat \<Rightarrow> Buffer" where
  "SkipBytes b len = AdvanceReadIndex b (c_int (int len))"

definition DiscardReadedBytes :: "Buffer \<Rightarrow> Buffer" where
  "DiscardReadedBytes b =
     (if m_read_idx b > 0
      then if Readable b
           then let tmp = ReadableBytes b
                in b\<lparr>m_buffer := mem_put (m_buffer b) 0
                        (take tmp (drop (m_read_idx b) (m_buffer b))),
                     m_read_idx := 0, m_write_idx := tmp\<rparr>
           else b\<lparr>m_read_idx := 0, m_write_idx := 0\<rparr>
      else b)"

section \<open>Formatted output\<close>

text \<open>
  \<open>vsnprintf(buffer, space, ...)\<close> renders the whole text \<open>s\<close>, stores at most \<open>space - 1\<close> bytes of
  it and a null terminator, and returns the length of \<open>s\<close>. The retry loop of \<open>VPrintf\<close> runs
  with fuel; \<open>VPrintf_loop_enough\<close> shows that two rounds always suffice.
\<close>

definition vsnprintf :: "Buffer \<Rightarrow> nat \<Rightarrow> string \<Rightarrow> Buffer" where
  "vsnprintf b space s =
     (if space = 0 then b
      else b\<lparr>m_buffer := mem_put (m_buffer b) (m_write_idx b) (take (space - 1) s @ [NUL])\<rparr>)"

fun VPrintf_loop :: "nat \<Rightarrow> (nat \<Rightarrow> char) \<Rightarrow> Buffer \<Rightarrow> string \<Rightarrow> Buffer option" where
  "VPrintf_loop 0 u b s = None"
| "VPrintf_loop (Suc fuel) u b s =
     (let space = WriteableBytes b;
          sz = length s;
          b = vsnprintf b space s
      in if sz < space then Some (AdvanceWriteIndex b (c_int (int sz)))
         else VPrintf_loop fuel u (EnsureWritableBytes u b (2 * sz) False) s)"

definition VPrintf :: "(nat \<Rightarrow> char) \<Rightarrow> Buffer \<Rightarrow> string \<Rightarrow> Buffer" where
  "VPrintf u b s = the (VPrintf_loop 2 u (EnsureWritableBytes u b 64 False) s)"

definition Printf :: "(nat \<Rightarrow> char) \<Rightarrow> Buffer \<Rightarrow> string \<Rightarrow> Buffer" where
  "Printf u b s = VPrintf u b s"

section \<open>File descriptors\<close>

text \<open>
  The outcome of the system call is the argument: the bytes \<open>readv\<close> stored, or the number of
  bytes \<open>write\<close> took; \<^const>\<open>None\<close> is a failing call, which leaves the buffer as it is.
\<close>

definition WriteFD :: "Buffer \<Rightarrow> nat option \<Rightarrow> Buffer" where
  "WriteFD b outcome =
     (if ReadableBytes b = 0 then b
      else case outcome of None \<Rightarrow> b | Some n \<Rightarrow> b\<lparr>m_read_idx := m_read_idx b + n\<rparr>)"

definition ReadFD :: "(nat \<Rightarrow> char) \<Rightarrow> Buffer \<Rightarrow> bytes option \<Rightarrow> Buffer" where
  "ReadFD u b outcome =
     (case outcome of
        None \<Rightarrow> b
      | Some d \<Rightarrow>
          let writable = WriteableBytes b;
              b' = b\<lparr>m_buffer := mem_put (m_buffer b) (m_write_idx b) (take writable d)\<rparr>
          in if length d \<le> writable then b'\<lparr>m_write_idx := m_write_idx b + length d\<rparr>
             else Buffer_Write u (b'\<lparr>m_write_idx := m_buffer_len b\<rparr>) (drop writable d))"

section \<open>Searching\<close>

text \<open>
  The search loop of \<open>IndexOf\<close> for the non-empty pattern \<open>c # cs\<close>. After a failed comparison it
  advances by the length of the pattern, not by one.
\<close>

function index_of_loop :: "bytes \<Rightarrow> char \<Rightarrow> string \<Rightarrow> nat \<Rightarrow> nat \<Rightarrow> nat option" where
  "index_of_loop m c cs start_idx end_idx =
     (if start_idx < end_idx
      then case memchr c (region m start_idx end_idx) of
             None \<Rightarrow> None
           | Some k \<Rightarrow>
               let len = Suc (length cs); p = start_idx + k
               in if p + len - 1 < end_idx
                  then if len = 1 then Some p
                       else if region m p (p + len) = c # cs
                            then if p + len > end_idx then None else Some p
                            else index_of_loop m c cs (p + len) end_idx
                  else None
      else None)"
  by pat_completeness auto
termination
  by (relation "measure (\<lambda>(m, c, cs, s, e). e - s)") auto

declare index_of_loop.simps [simp del]

definition IndexOf_range :: "Buffer \<Rightarrow> string \<Rightarrow> nat \<Rightarrow> nat \<Rightarrow> int" where
  "IndexOf_range b data start_idx end_idx =
     (case data of
        [] \<Rightarrow> -1
      | c # cs \<Rightarrow>
          if start_idx + length data > end_idx \<or> end_idx > m_write_idx b then -1
          else case index_of_loop (m_buffer b) c cs start_idx end_idx of
                 None \<Rightarrow> -1 | Some i \<Rightarrow> c_int (int i))"

definition IndexOf :: "Buffer \<Rightarrow> string \<Rightarrow> int" where
  "IndexOf b data = IndexOf_range b data (m_read_idx b) (m_write_idx b)"

section \<open>The invariant and the abstract content\<close>

text \<open>The picture of the class comment: \<open>readerIndex <= writerIndex <= capacity\<close>.\<close>

definition buf_wf :: "Buffer \<Rightarrow> bool" where
  "buf_wf b \<longleftrightarrow> m_read_idx b \<le> m_write_idx b \<and> m_write_idx b \<le> m_buffer_len b
     \<and> m_buffer_len b = length (m_buffer b)"

definition content :: "Buffer \<Rightarrow> bytes" where
  "content b = region (m_buffer b) (m_read_idx b) (m_write_idx b)"

lemma content_AsString: "AsString b = content b"
  by (simp add: AsString_def content_def region_def ReadableBytes_def Readable_def)

lemma length_content: "buf_wf b \<Longrightarrow> length (content b) = m_write_idx b - m_read_idx b"
  by (simp add: content_def buf_wf_def)

lemma ReadableBytes_content [simp]: "buf_wf b \<Longrightarrow> ReadableBytes b = length (content b)"
  by (simp add: ReadableBytes_def Readable_def length_content)

lemma Readable_content: "buf_wf b \<Longrightarrow> Readable b \<longleftrightarrow> content b \<noteq> []"
  by (metis Readable_def length_0_conv length_content neq0_conv zero_less_diff)

lemma take_drop_content:
  "buf_wf b \<Longrightarrow> n \<le> length (content b) \<Longrightarrow>
   take n (drop (m_read_idx b) (m_buffer b)) = take n (content b)"
  by (simp add: content_def region_def buf_wf_def min_absorb1)

lemma Buffer_new_wf [simp]:
  "buf_wf Buffer_new" "content Buffer_new = []" "m_read_idx Buffer_new = 0"
  by (simp_all add: buf_wf_def Buffer_new_def content_def)

section \<open>Growing keeps the content\<close>

lemma grow_capacity_ge: "0 < c \<Longrightarrow> c \<le> grow_capacity c m \<and> m \<le> grow_capacity c m"
proof (induction c m rule: grow_capacity.induct)
  case (1 c m)
  then show ?case
    by (cases "c < m") (auto simp: grow_capacity.simps [of c m])
qed

lemma grow_capacity_bound: "0 < c \<Longrightarrow> grow_capacity c m = c \<or> grow_capacity c m < 2 * m"
proof (induction c m rule: grow_capacity.induct)
  case (1 c m)
  then show ?case
    by (cases "c < m") (auto simp: grow_capacity.simps [of c m])
qed

lemma length_malloc_block [simp]: "length (malloc_block u z n) = n"
  by (simp add: malloc_block_def)

lemma EnsureWritableBytes_idx [simp]:
  "m_read_idx (EnsureWritableBytes u b n z) = m_read_idx b"
  "m_write_idx (EnsureWritableBytes u b n z) = m_write_idx b"
  by (simp_all add: EnsureWritableBytes_def Let_def)

lemma EnsureWritableBytes_shape:
  assumes "buf_wf b" and "b' = EnsureWritableBytes u b n z"
  shows "\<exists>junk. m_buffer b' = m_buffer b @ junk"
    and "m_buffer_len b' = length (m_buffer b')"
    and "m_write_idx b + n \<le> m_buffer_len b'"
proof -
  define c where "c = (if Capacity b = 0 then DEFAULT_BUFFER_SIZE else Capacity b)"
  define g where "g = grow_capacity c (m_write_idx b + n)"
  have "0 < c" and cap: "Capacity b \<le> c"
    by (auto simp: c_def DEFAULT_BUFFER_SIZE_def)
  then have g: "c \<le> g" "m_write_idx b + n \<le> g"
    using grow_capacity_ge [of c "m_write_idx b + n"] by (auto simp: g_def)
  have len: "length (m_buffer b) = m_buffer_len b"
    using assms(1) by (simp add: buf_wf_def)
  have grown: "b' = b\<lparr>m_in_heap := True,
      m_buffer := m_buffer b @ drop (m_buffer_len b) (malloc_block u z g), m_buffer_len := g\<rparr>"
    if "WriteableBytes b < n"
    using that len
    by (simp add: assms(2) EnsureWritableBytes_def Let_def Capacity_def mem_put_def
        g_def c_def)
  have fits: "m_write_idx b + n \<le> m_buffer_len b" and same: "b' = b"
    if "\<not> WriteableBytes b < n"
    using that assms by (auto simp: EnsureWritableBytes_def WriteableBytes_def Writeable_def
        buf_wf_def split: if_splits)
  show "\<exists>junk. m_buffer b' = m_buffer b @ junk"
    using grown same by (cases "WriteableBytes b < n") auto
  show "m_buffer_len b' = length (m_buffer b')"
    using grown same len g(1) cap
    by (cases "WriteableBytes b < n") (auto simp: Capacity_def)
  show "m_write_idx b + n \<le> m_buffer_len b'"
    using grown fits same g(2) by (cases "WriteableBytes b < n") auto
qed

lemma EnsureWritableBytes_wf [wf_intros]:
  "buf_wf b \<Longrightarrow> buf_wf (EnsureWritableBytes u b n z)"
  using EnsureWritableBytes_shape(2,3) [of b "EnsureWritableBytes u b n z" u n z]
  by (auto simp: buf_wf_def)

lemma EnsureWritableBytes_content [simp]:
  assumes "buf_wf b"
  shows "content (EnsureWritableBytes u b n z) = content b"
proof -
  obtain junk where "m_buffer (EnsureWritableBytes u b n z) = m_buffer b @ junk"
    using EnsureWritableBytes_shape(1) [OF assms refl] by blast
  with assms show ?thesis
    by (simp add: content_def region_def buf_wf_def)
qed

lemma EnsureWritableBytes_room:
  "buf_wf b \<Longrightarrow> n \<le> WriteableBytes (EnsureWritableBytes u b n z)"
  using EnsureWritableBytes_shape(3) [of b "EnsureWritableBytes u b n z" u n z]
  by (auto simp: WriteableBytes_def Writeable_def)

section \<open>Writing appends, reading removes\<close>

lemma buf_put:
  assumes "buf_wf b" and "length d \<le> WriteableBytes b"
  shows "buf_wf (b\<lparr>m_buffer := mem_put (m_buffer b) (m_write_idx b) d,
                  m_write_idx := m_write_idx b + length d\<rparr>)"
    and "content (b\<lparr>m_buffer := mem_put (m_buffer b) (m_write_idx b) d,
                    m_write_idx := m_write_idx b + length d\<rparr>) = content b @ d"
proof -
  have "m_write_idx b + length d \<le> length (m_buffer b)"
    using assms by (auto simp: buf_wf_def WriteableBytes_def Writeable_def split: if_splits)
  with assms(1) show "buf_wf (b\<lparr>m_buffer := mem_put (m_buffer b) (m_write_idx b) d,
      m_write_idx := m_write_idx b + length d\<rparr>)"
    by (simp add: buf_wf_def)
  show "content (b\<lparr>m_buffer := mem_put (m_buffer b) (m_write_idx b) d,
      m_write_idx := m_write_idx b + length d\<rparr>) = content b @ d"
    using assms(1) by (simp add: content_def buf_wf_def region_mem_put_append)
qed

lemma Buffer_Write_wf [wf_intros]: "buf_wf b \<Longrightarrow> buf_wf (Buffer_Write u b d)"
  unfolding Buffer_Write_def Let_def
  by (intro buf_put(1) EnsureWritableBytes_wf EnsureWritableBytes_room)

lemma Buffer_Write_content [simp]:
  "buf_wf b \<Longrightarrow> content (Buffer_Write u b d) = content b @ d"
  unfolding Buffer_Write_def Let_def
  by (subst buf_put(2)) (auto intro: EnsureWritableBytes_wf EnsureWritableBytes_room)

lemma Buffer_Read_Some:
  assumes "buf_wf b" and "n \<le> length (content b)"
  shows "\<exists>b'. Buffer_Read b n = Some (take n (content b), b') \<and> buf_wf b'
     \<and> content b' = drop n (content b) \<and> m_read_idx b' = m_read_idx b + n
     \<and> m_buffer b' = m_buffer b \<and> m_write_idx b' = m_write_idx b
     \<and> m_buffer_len b' = m_buffer_len b"
  using assms length_content [of b]
  by (auto simp: Buffer_Read_def take_drop_content buf_wf_def content_def region_drop)

lemma Buffer_Read_None: "buf_wf b \<Longrightarrow> length (content b) < n \<Longrightarrow> Buffer_Read b n = None"
  by (simp add: Buffer_Read_def)

lemma DiscardReadedBytes_spec:
  assumes "buf_wf b"
  shows "buf_wf (DiscardReadedBytes b)" and "content (DiscardReadedBytes b) = content b"
    and "m_read_idx (DiscardReadedBytes b) = 0"
proof -
  have r: "take (m_write_idx b - m_read_idx b) (drop (m_read_idx b) (m_buffer b)) = content b"
    by (simp add: content_def region_def)
  have l: "length (content b) = m_write_idx b - m_read_idx b"
    using assms by (rule length_content)
  show "buf_wf (DiscardReadedBytes b)"
    using assms l by (auto simp: DiscardReadedBytes_def Let_def Readable_def buf_wf_def r)
  show "content (DiscardReadedBytes b) = content b"
  proof (cases "m_read_idx b > 0 \<and> Readable b")
    case True
    then show ?thesis
      using assms l
      by (simp add: DiscardReadedBytes_def Let_def r)
        (simp add: content_def region_def mem_put_def)
  next
    case False
    then show ?thesis
      by (auto simp: DiscardReadedBytes_def Readable_def content_def)
  qed
  show "m_read_idx (DiscardReadedBytes b) = 0"
    by (simp add: DiscardReadedBytes_def Let_def)
qed

section \<open>Formatted output terminates and appends\<close>

lemma vsnprintf_idx [simp]:
  "m_read_idx (vsnprintf b n s) = m_read_idx b" "m_write_idx (vsnprintf b n s) = m_write_idx b"
  "m_buffer_len (vsnprintf b n s) = m_buffer_len b"
  by (simp_all add: vsnprintf_def)

lemma vsnprintf_content:
  assumes "buf_wf b"
  shows "buf_wf (vsnprintf b (WriteableBytes b) s)"
    and "content (vsnprintf b (WriteableBytes b) s) = content b"
  using assms
  by (auto simp: buf_wf_def vsnprintf_def WriteableBytes_def Writeable_def content_def)

lemma VPrintf_fits:
  assumes wf: "buf_wf b" and room: "length s < WriteableBytes b" and small: "length s < 2 ^ 31"
  shows "\<exists>b'. VPrintf_loop (Suc n) u b s = Some b' \<and> buf_wf b' \<and> content b' = content b @ s
     \<and> m_read_idx b' = m_read_idx b"
proof -
  let ?v = "vsnprintf b (WriteableBytes b) s"
  have fit: "m_write_idx b + length s < m_buffer_len b"
    using room by (auto simp: WriteableBytes_def Writeable_def split: if_splits)
  have v: "m_buffer ?v = mem_put (mem_put (m_buffer b) (m_write_idx b) s)
             (m_write_idx b + length s) [NUL]"
    using room fit wf by (simp add: vsnprintf_def mem_put_def buf_wf_def)
  have adv: "AdvanceWriteIndex ?v (c_int (int (length s)))
      = ?v\<lparr>m_write_idx := m_write_idx b + length s\<rparr>"
    using small by (simp add: AdvanceWriteIndex_def)
  have "content (?v\<lparr>m_write_idx := m_write_idx b + length s\<rparr>) = content b @ s"
    using wf fit by (simp add: content_def v buf_wf_def region_mem_put_append)
  moreover have "buf_wf (?v\<lparr>m_write_idx := m_write_idx b + length s\<rparr>)"
    using wf fit by (simp add: buf_wf_def v)
  ultimately show ?thesis
    using room by (simp add: adv Let_def)
qed

lemma VPrintf_loop_enough:
  assumes wf: "buf_wf b" and pos: "0 < WriteableBytes b" and small: "length s < 2 ^ 31"
  shows "\<exists>b'. VPrintf_loop (Suc (Suc n)) u b s = Some b' \<and> buf_wf b' \<and> content b' = content b @ s
     \<and> m_read_idx b' = m_read_idx b"
proof (cases "length s < WriteableBytes b")
  case True
  then show ?thesis
    by (rule VPrintf_fits [OF wf _ small])
next
  case False
  let ?v = "vsnprintf b (WriteableBytes b) s"
  let ?e = "EnsureWritableBytes u ?v (2 * length s) False"
  note v = vsnprintf_content [OF wf, of s]
  have wfe: "buf_wf ?e" and ce: "content ?e = content b"
    using v by (auto intro: EnsureWritableBytes_wf)
  have room: "length s < WriteableBytes ?e"
    using EnsureWritableBytes_room [OF v(1), of "2 * length s" u False] False pos by linarith
  obtain b' where "VPrintf_loop (Suc n) u ?e s = Some b'" "buf_wf b'" "content b' = content b @ s"
    "m_read_idx b' = m_read_idx b"
    using VPrintf_fits [OF wfe room small, of n u] ce by auto
  with False show ?thesis
    unfolding VPrintf_loop.simps(2) [of "Suc n" u b s] Let_def by auto
qed

lemma Printf_spec:
  assumes "buf_wf b" and "length s < 2 ^ 31"
  shows "buf_wf (Printf u b s)" and "content (Printf u b s) = content b @ s"
    and "m_read_idx (Printf u b s) = m_read_idx b"
proof -
  let ?e = "EnsureWritableBytes u b 64 False"
  have e: "buf_wf ?e" "content ?e = content b" "0 < WriteableBytes ?e"
    using assms(1) EnsureWritableBytes_room [OF assms(1), of 64 u False]
    by (auto intro: EnsureWritableBytes_wf)
  obtain b' where "VPrintf_loop 2 u ?e s = Some b'" "buf_wf b'" "content b' = content b @ s"
    "m_read_idx b' = m_read_idx b"
    using VPrintf_loop_enough [OF e(1,3) assms(2), of 0 u] e(2) by (auto simp: numeral_2_eq_2)
  then show "buf_wf (Printf u b s)" "content (Printf u b s) = content b @ s"
    "m_read_idx (Printf u b s) = m_read_idx b"
    by (simp_all add: Printf_def VPrintf_def)
qed

lemmas Printf_wf [wf_intros] = Printf_spec(1)
lemmas Printf_content [simp] = Printf_spec(2)
lemmas Printf_read_idx [simp] = Printf_spec(3)

lemma Buffer_Write_read_idx [simp]: "m_read_idx (Buffer_Write u b d) = m_read_idx b"
  by (simp add: Buffer_Write_def Let_def)

lemma write_idx_content: "buf_wf b \<Longrightarrow> m_write_idx b = m_read_idx b + length (content b)"
  by (simp add: length_content) (simp add: buf_wf_def)

section \<open>Moving bytes between buffers and from descriptors\<close>

lemma Buffer_Write_unit_all:
  assumes "buf_wf b" "buf_wf i" and "length (content i) < 2 ^ 31"
    and "Buffer_Write_unit u b i (ReadableBytes i) = (b', i')"
  shows "buf_wf b' \<and> content b' = content b @ content i \<and> buf_wf i' \<and> content i' = []"
proof -
  have w: "b' = Buffer_Write u b (content i)"
    and i: "i' = (if content i = [] then i else i\<lparr>m_read_idx := m_write_idx i\<rparr>)"
    using assms(2-4) length_content [OF assms(2)]
    by (auto simp: Buffer_Write_unit_def Let_def take_drop_content buf_wf_def)
  have "buf_wf i'" "content i' = []"
    using assms(2) unfolding i by (auto simp: buf_wf_def content_def)
  then show ?thesis
    using assms(1) by (simp add: w Buffer_Write_wf)
qed

lemma ReadFD_spec:
  assumes "buf_wf b"
  shows "buf_wf (ReadFD u b (Some d))" and "content (ReadFD u b (Some d)) = content b @ d"
proof -
  define w where "w = WriteableBytes b"
  let ?p = "b\<lparr>m_buffer := mem_put (m_buffer b) (m_write_idx b) (take w d),
              m_write_idx := m_write_idx b + length (take w d)\<rparr>"
  have p: "buf_wf ?p" "content ?p = content b @ take w d"
    using buf_put [OF assms, of "take w d"] by (auto simp: w_def)
  have full: "m_write_idx b + w = m_buffer_len b"
    using assms by (simp add: w_def WriteableBytes_def Writeable_def buf_wf_def)
  have r: "ReadFD u b (Some d) = (if length d \<le> w then ?p else Buffer_Write u ?p (drop w d))"
    using full by (simp add: ReadFD_def Let_def w_def [symmetric] min_absorb2)
  show "buf_wf (ReadFD u b (Some d))" "content (ReadFD u b (Some d)) = content b @ d"
    unfolding r using p by (auto intro: Buffer_Write_wf)
qed

section \<open>Searching\<close>

lemma index_of_loop_sound:
  "index_of_loop m c cs s e = Some i \<Longrightarrow> e \<le> length m \<Longrightarrow>
   s \<le> i \<and> i + Suc (length cs) \<le> e \<and> region m i (i + Suc (length cs)) = c # cs"
proof (induction m c cs s e rule: index_of_loop.induct)
  case (1 m c cs s e)
  from "1.prems"(1) obtain k where k: "s < e" "memchr c (region m s e) = Some k"
    "s + k + length cs < e"
    by (auto simp: index_of_loop.simps [of m c cs s e] Let_def split: if_splits option.splits)
  then have first: "m ! (s + k) = c"
    using "1.prems"(2) by (auto simp: memchr_Some)
  show ?case
  proof (cases "cs = [] \<or> region m (s + k) (s + k + Suc (length cs)) = c # cs")
    case True
    then have "i = s + k"
      using "1.prems"(1) k
      by (auto simp: index_of_loop.simps [of m c cs s e] Let_def split: if_splits)
    moreover have "region m (s + k) (s + k + 1) = [c]"
      using first k "1.prems"(2) by (simp add: region_def take_Suc hd_drop_conv_nth)
    ultimately show ?thesis
      using True k by auto
  next
    case False
    then have "index_of_loop m c cs (s + k + Suc (length cs)) e = Some i"
      using "1.prems"(1) k
      by (auto simp: index_of_loop.simps [of m c cs s e] Let_def split: if_splits)
    then show ?thesis
      using "1.IH" [OF k(1,2) refl refl] k False "1.prems"(2) by auto
  qed
qed

lemma index_of_loop_first:
  assumes "region m s e = xs @ (c # cs) @ ys" and "c \<notin> set xs" and "e \<le> length m"
  shows "index_of_loop m c cs s e = Some (s + length xs)"
proof -
  have len: "e - s = length xs + Suc (length cs) + length ys"
    using arg_cong [OF assms(1), of length] assms(3) by simp
  then have "s < e" by simp
  have find: "memchr c (region m s e) = Some (length xs)"
    using assms(1,2) by simp
  have "region m (s + length xs) (s + length xs + Suc (length cs))
      = take (Suc (length cs)) (drop (length xs) (region m s e))"
    using len by (simp add: region_drop take_region del: take_Suc_Cons)
  then have "region m (s + length xs) (s + length xs + Suc (length cs)) = c # cs"
    using assms(1) by simp
  then show ?thesis
    using \<open>s < e\<close> find len by (auto simp: index_of_loop.simps [of m c cs s e] Let_def)
qed

lemma index_of_loop_absent:
  assumes "c \<notin> set (region m s e)"
  shows "index_of_loop m c cs s e = None"
proof -
  have "memchr c (region m s e) = None"
    using assms by (simp add: memchr_None)
  then show ?thesis
    by (simp add: index_of_loop.simps [of m c cs s e])
qed

end
