(* ===== verification/Decimal.thy ===== *)
theory Decimal
  imports Comms_Prelude
begin

text \<open>
  Numbers and text: \<open>string2ll\<close>, \<open>stringfromll\<close>, \<open>ll2string\<close>, \<open>fast_itoa\<close> and the \<open>str_to*\<close> family of
  \<open>common/util/string_helper.cpp\<close> and \<open>.hpp\<close>, \<open>raw_toint64\<close> of \<open>helpers.hpp\<close> and \<open>digits10\<close> of
  \<open>math_helper.cpp\<close>. The accumulators that the overflow checks protect are 64-bit words. A
  parse that fails returns \<^const>\<open>None\<close>.
\<close>

section \<open>Digits\<close>

definition is_digit :: "char \<Rightarrow> bool" where
  "is_digit c \<longleftrightarrow> 48 \<le> (of_char c :: nat) \<and> of_char c \<le> (57 :: nat)"

definition digit_val :: "char \<Rightarrow> nat" where
  "digit_val c = of_char c - 48"

definition digit_char :: "nat \<Rightarrow> char" where
  "digit_char n = char_of (48 + n)"

lemma digit_char_simps [simp]:
  assumes "n < 10"
  shows "is_digit (digit_char n)" "digit_val (digit_char n) = n"
  using assms by (simp_all add: is_digit_def digit_char_def digit_val_def)

lemma digit_val_less: "is_digit c \<Longrightarrow> digit_val c < 10"
  by (auto simp: is_digit_def digit_val_def)

lemma digit_char_val [simp]: "is_digit c \<Longrightarrow> digit_char (digit_val c) = c"
  by (simp add: is_digit_def digit_val_def digit_char_def)

text \<open>The value a run of digits adds to an accumulator, and the decimal numeral of a number.\<close>

fun digits_value :: "nat \<Rightarrow> string \<Rightarrow> nat" where
  "digits_value a [] = a"
| "digits_value a (c # cs) = digits_value (10 * a + digit_val c) cs"

fun dec_str :: "nat \<Rightarrow> string" where
  "dec_str n = (if n < 10 then [digit_char n] else dec_str (n div 10) @ [digit_char (n mod 10)])"

declare dec_str.simps [simp del]

lemma digits_value_mono: "a \<le> digits_value a cs"
proof (induction cs arbitrary: a)
  case (Cons c cs)
  have "a \<le> 10 * a + digit_val c" by simp
  also have "\<dots> \<le> digits_value (10 * a + digit_val c) cs" by (rule Cons.IH)
  finally show ?case by simp
qed simp

lemma digits_value_snoc: "digits_value a (cs @ [c]) = 10 * digits_value a cs + digit_val c"
  by (induction cs arbitrary: a) auto

lemma dec_str_digits: "\<forall>c \<in> set (dec_str n). is_digit c"
proof (induction n rule: dec_str.induct)
  case (1 n)
  then show ?case
    by (cases "n < 10") (auto simp: dec_str.simps [of n])
qed

lemma dec_str_nonempty [simp]: "dec_str n \<noteq> []"
  by (subst dec_str.simps) simp

lemma dec_str_value [simp]: "digits_value 0 (dec_str n) = n"
proof (induction n rule: dec_str.induct)
  case (1 n)
  then show ?case
    by (cases "n < 10") (simp_all add: dec_str.simps [of n] digits_value_snoc)
qed

lemma dec_str_step: "0 < a \<Longrightarrow> is_digit c \<Longrightarrow> dec_str (10 * a + digit_val c) = dec_str a @ [c]"
  using digit_val_less [of c] by (simp add: dec_str.simps [of "10 * a + digit_val c"])

lemma dec_str_digits_value:
  "0 < a \<Longrightarrow> \<forall>c \<in> set cs. is_digit c \<Longrightarrow> dec_str (digits_value a cs) = dec_str a @ cs"
proof (induction cs arbitrary: a)
  case (Cons c cs)
  then show ?case by (simp add: dec_str_step)
qed simp

lemma dec_str_hd: "0 < n \<Longrightarrow> 0 < digit_val (hd (dec_str n))"
proof (induction n rule: dec_str.induct)
  case (1 n)
  then show ?case
    by (cases "n < 10") (auto simp: dec_str.simps [of n] hd_append)
qed

lemma dec_str_inject [simp]: "dec_str m = dec_str n \<longleftrightarrow> m = n"
  by (metis dec_str_value)

lemma dec_str_0 [simp]: "dec_str 0 = ''0''"
  by (simp add: dec_str.simps digit_char_def char_of_def bit_0)

section \<open>Printing\<close>

text \<open>
  \<open>stringfromll\<close> and \<open>ll2string\<close> take the magnitude as an unsigned 64-bit value and write its
  digits from the last to the first.
\<close>

function dec_loop :: "nat \<Rightarrow> string \<Rightarrow> string" where
  "dec_loop v acc =
     (let acc = digit_char (v mod 10) # acc; v = v div 10
      in if v = 0 then acc else dec_loop v acc)"
  by pat_completeness auto
termination
  by (relation "measure (\<lambda>(v, acc). v)") auto

declare dec_loop.simps [simp del]

definition stringfromll :: "int \<Rightarrow> string" where
  "stringfromll value =
     (let v = unat (word_of_int (if value < 0 then - value else value) :: 64 word);
          digits = dec_loop v []
      in if value < 0 then CHR ''-'' # digits else digits)"

definition ll2string :: "nat \<Rightarrow> int \<Rightarrow> string" where
  "ll2string len value =
     (if len = 0 then []
      else let v = unat (word_of_int (if value < 0 then - value else value) :: 64 word);
               p = (if value < 0 then CHR ''-'' # dec_loop v [] else dec_loop v []);
               l = length p
           in take (if l + 1 > len then len - 1 else l) p)"

text \<open>The conversion \<open>%d\<close> of \<open>printf\<close> reads its argument as an \<open>int\<close>.\<close>

definition printf_d :: "int \<Rightarrow> string" where
  "printf_d n = stringfromll (c_int n)"

lemma dec_loop_eq: "dec_loop v acc = dec_str v @ acc"
proof (induction v acc rule: dec_loop.induct)
  case (1 v acc)
  show ?case
  proof (cases "v < 10")
    case True
    then show ?thesis
      by (simp add: dec_loop.simps [of v acc] dec_str.simps [of v])
  next
    case False
    then have "v div 10 \<noteq> 0" by simp
    then show ?thesis
      using "1.IH" [OF refl refl] False
      by (simp add: dec_loop.simps [of v acc] dec_str.simps [of v])
  qed
qed

lemma unat_word_of_int64:
  assumes "0 \<le> x" and "x < 2 ^ 64"
  shows "unat (word_of_int x :: 64 word) = nat x"
proof -
  have "uint (word_of_int x :: 64 word) = x mod 2 ^ 64"
    by (simp add: uint_word_of_int)
  also have "\<dots> = x"
    using assms by (rule mod_pos_pos_trivial)
  finally show ?thesis
    by (simp only: unat_eq_nat_uint)
qed

lemma stringfromll_nonneg:
  "0 \<le> v \<Longrightarrow> v < 2 ^ 64 \<Longrightarrow> stringfromll v = dec_str (nat v)"
  unfolding stringfromll_def Let_def dec_loop_eq
  by (subst unat_word_of_int64) simp_all

lemma stringfromll_neg:
  "v < 0 \<Longrightarrow> - (2 ^ 64) < v \<Longrightarrow> stringfromll v = CHR ''-'' # dec_str (nat (- v))"
  unfolding stringfromll_def Let_def dec_loop_eq
  by (subst unat_word_of_int64) simp_all

lemma printf_d_nat [simp]: "n < 2 ^ 31 \<Longrightarrow> printf_d (int n) = dec_str n"
  by (simp add: printf_d_def stringfromll_nonneg)

section \<open>Parsing: \<open>string2ll\<close> and \<open>raw_toint64\<close>\<close>

fun s2ll_loop :: "64 word \<Rightarrow> string \<Rightarrow> (64 word \<times> string) option" where
  "s2ll_loop v [] = Some (v, [])"
| "s2ll_loop v (c # p) =
     (if is_digit c
      then if v > 18446744073709551615 div 10 then None
           else let v = v * 10
                in if v > 18446744073709551615 - of_nat (digit_val c) then None
                   else s2ll_loop (v + of_nat (digit_val c)) p
      else Some (v, c # p))"

definition string2ll :: "string \<Rightarrow> int option" where
  "string2ll s =
     (if s = [] then None
      else if s = ''0'' then Some 0
      else let negative = (hd s = CHR ''-''); p = (if negative then tl s else s)
           in if p = [] then None
              else if is_digit (hd p) \<and> hd p \<noteq> CHR ''0''
              then case s2ll_loop (of_nat (digit_val (hd p))) (tl p) of
                     None \<Rightarrow> None
                   | Some (v, rest) \<Rightarrow>
                       if rest \<noteq> [] then None
                       else if negative
                       then if v > 9223372036854775808 then None
                            else Some (sint (- v))
                       else if v > 9223372036854775807 then None
                            else Some (sint v)
              else None)"

definition raw_toint64 :: "string \<Rightarrow> int option" where
  "raw_toint64 raw = string2ll raw"

lemma ullong_div10: "v \<le> (18446744073709551615 div 10 :: 64 word) \<longleftrightarrow> 10 * unat v < 2 ^ 64"
proof -
  have "unat (18446744073709551615 div 10 :: 64 word) = 1844674407370955161"
    by (simp add: unat_div)
  then show ?thesis
    by (auto simp: word_le_nat_alt)
qed

lemma s2ll_loop_eq:
  "s2ll_loop v cs =
     (let n = digits_value (unat v) (takeWhile is_digit cs)
      in if n < 2 ^ 64 then Some (of_nat n, dropWhile is_digit cs) else None)"
proof (induction v cs rule: s2ll_loop.induct)
  case (1 v)
  then show ?case
    using unsigned_less [of v] by (simp add: Let_def)
next
  case (2 v c p)
  show ?case
  proof (cases "is_digit c")
    case False
    then show ?thesis
      using unsigned_less [of v] by (simp add: Let_def)
  next
    case True
    define d where "d = digit_val c"
    have d: "d < 10"
      using True digit_val_less by (simp add: d_def)
    have mono: "10 * unat v + d \<le> digits_value (10 * unat v + d) (takeWhile is_digit p)"
      by (rule digits_value_mono)
    show ?thesis
    proof (cases "10 * unat v + d < 2 ^ 64")
      case fits: True
      have le10: "v \<le> 18446744073709551615 div 10"
        using fits by (simp only: ullong_div10)
      have u10: "unat (v * 10) = 10 * unat v"
        using fits by (simp add: unat_word_ariths)
      have ud: "unat (of_nat d :: 64 word) = d"
        using d by (simp add: unat_of_nat)
      have udiff: "unat (18446744073709551615 - of_nat d :: 64 word) = 18446744073709551615 - d"
        using d ud by (subst unat_sub) (auto simp: word_le_nat_alt)
      have le2: "\<not> v * 10 > 18446744073709551615 - of_nat d"
        using fits udiff u10 by (simp add: word_less_nat_alt)
      have usum: "unat (v * 10 + of_nat d) = 10 * unat v + d"
        using fits u10 ud by (simp add: unat_word_ariths(1))
      show ?thesis
        using "2.IH" [OF True _ refl] True le10 le2 usum
        by (simp add: d_def [symmetric] Let_def not_less del: not_le flip: not_le)
    next
      case False
      have none: "s2ll_loop v (c # p) = None"
      proof (cases "v \<le> 18446744073709551615 div 10")
        case small: True
        have "10 * unat v < 2 ^ 64"
          using small by (simp only: ullong_div10)
        then have u10: "unat (v * 10) = 10 * unat v"
          by (simp add: unat_word_ariths)
        have ud: "unat (of_nat d :: 64 word) = d"
          using d by (simp add: unat_of_nat)
        have "unat (18446744073709551615 - of_nat d :: 64 word) = 18446744073709551615 - d"
          using d ud by (subst unat_sub) (auto simp: word_le_nat_alt)
        then have "v * 10 > 18446744073709551615 - of_nat d"
          using False u10 d unfolding word_less_nat_alt by simp
        then show ?thesis
          using True by (simp add: d_def Let_def)
      next
        case big: False
        then have "v > 18446744073709551615 div 10" by simp
        then show ?thesis
          using True by simp
      qed
      then show ?thesis
        using False mono True by (simp add: d_def Let_def)
    qed
  qed
qed

section \<open>What \<open>string2ll\<close> accepts\<close>

lemma sint_of_int64:
  assumes "- (2 ^ 63) \<le> x" and "x < 2 ^ 63"
  shows "sint (word_of_int x :: 64 word) = x"
proof -
  have "sint (word_of_int x :: 64 word) = signed_take_bit 63 x"
    by (simp add: signed_of_int)
  also have "\<dots> = x"
    using assms by (simp add: signed_take_bit_int_eq_self)
  finally show ?thesis .
qed

lemma sint_of_nat64: "n < 2 ^ 63 \<Longrightarrow> sint (of_nat n :: 64 word) = int n"
  using sint_of_int64 [of "int n"] by simp

lemma sint_minus_of_nat64: "n \<le> 2 ^ 63 \<Longrightarrow> sint (- of_nat n :: 64 word) = - int n"
  using sint_of_int64 [of "- int n"] by simp

text \<open>A non-empty run of digits that does not start with 0 is the numeral of its value.\<close>

definition canonical :: "string \<Rightarrow> bool" where
  "canonical p \<longleftrightarrow> p \<noteq> [] \<and> (\<forall>c \<in> set p. is_digit c) \<and> hd p \<noteq> CHR ''0''"

lemma is_digit_zero: "is_digit c \<Longrightarrow> digit_val c = 0 \<longleftrightarrow> c = CHR ''0''"
proof -
  assume "is_digit c"
  then have "digit_char (digit_val c) = c" by simp
  moreover have "digit_char 0 = CHR ''0''"
    using dec_str_0 by (simp add: dec_str.simps)
  ultimately show ?thesis
    by (auto simp: digit_val_def)
qed

lemma canonical_iff: "canonical p \<longleftrightarrow> (\<exists>n > 0. p = dec_str n)"
proof
  assume c: "canonical p"
  then obtain d ds where p: "p = d # ds" by (cases p) (auto simp: canonical_def)
  have d: "is_digit d" "0 < digit_val d" "digit_val d < 10"
    using c is_digit_zero [of d] digit_val_less [of d] by (auto simp: canonical_def p)
  have "dec_str (digits_value (digit_val d) ds) = dec_str (digit_val d) @ ds"
    using c d by (intro dec_str_digits_value) (auto simp: canonical_def p)
  also have "dec_str (digit_val d) = [d]"
    using d by (simp add: dec_str.simps)
  finally have "p = dec_str (digits_value (digit_val d) ds)"
    by (simp add: p)
  moreover have "0 < digits_value (digit_val d) ds"
    using digits_value_mono [of "digit_val d" ds] d by linarith
  ultimately show "\<exists>n > 0. p = dec_str n" by blast
next
  assume "\<exists>n > 0. p = dec_str n"
  then obtain n where n: "0 < n" "p = dec_str n" by blast
  have "hd p \<in> set p" by (simp add: n)
  then have "is_digit (hd p)" using dec_str_digits n by blast
  then show "canonical p"
    using n dec_str_digits [of n] dec_str_hd [of n] is_digit_zero [of "hd p"]
    by (simp add: canonical_def)
qed

lemma canonical_value: "canonical p \<Longrightarrow> p = dec_str (digits_value 0 p)"
  by (metis canonical_iff dec_str_value)

lemma s2ll_digits:
  assumes "p \<noteq> []" "is_digit (hd p)" "hd p \<noteq> CHR ''0''"
  shows "s2ll_loop (of_nat (digit_val (hd p))) (tl p) = Some (w, []) \<longleftrightarrow>
     canonical p \<and> digits_value 0 p < 2 ^ 64 \<and> w = of_nat (digits_value 0 p)"
proof -
  obtain d ds where p: "p = d # ds" using assms(1) by (cases p) auto
  have u: "unat (of_nat (digit_val d) :: 64 word) = digit_val d"
    using digit_val_less [of d] assms(2) by (simp add: p unat_of_nat)
  show ?thesis
    using assms(2,3)
    by (auto simp: s2ll_loop_eq Let_def p u canonical_def dropWhile_eq_Nil_conv
        takeWhile_eq_all_conv [THEN iffD2] split: if_splits)
qed

lemma string2ll_neg_iff:
  assumes "hd s = CHR ''-''" "s \<noteq> []"
  shows "string2ll s = Some v \<longleftrightarrow>
     canonical (tl s) \<and> digits_value 0 (tl s) \<le> 2 ^ 63 \<and> v = - int (digits_value 0 (tl s))"
proof (cases "tl s \<noteq> [] \<and> is_digit (hd (tl s)) \<and> hd (tl s) \<noteq> CHR ''0''")
  case True
  let ?n = "digits_value 0 (tl s)"
  have le: "?n < 2 ^ 64 \<Longrightarrow> (of_nat ?n :: 64 word) > 9223372036854775808 \<longleftrightarrow> ?n > 2 ^ 63"
    by (simp add: word_less_nat_alt unat_of_nat)
  have "string2ll s = Some v \<longleftrightarrow>
     (\<exists>w. s2ll_loop (of_nat (digit_val (hd (tl s)))) (tl (tl s)) = Some (w, [])
        \<and> \<not> w > 9223372036854775808 \<and> v = sint (- w))"
    using assms True by (auto simp: string2ll_def Let_def split: option.splits)
  also have "\<dots> \<longleftrightarrow> canonical (tl s) \<and> ?n < 2 ^ 64 \<and> \<not> (of_nat ?n :: 64 word) > 9223372036854775808
        \<and> v = sint (- of_nat ?n :: 64 word)"
    using True by (auto simp: s2ll_digits)
  also have "\<dots> \<longleftrightarrow> canonical (tl s) \<and> ?n \<le> 2 ^ 63 \<and> v = - int ?n"
    using le sint_minus_of_nat64 [of ?n] by auto
  finally show ?thesis .
next
  case False
  then have "string2ll s = None" "\<not> canonical (tl s)"
    using assms by (auto simp: string2ll_def Let_def canonical_def)
  then show ?thesis by simp
qed

lemma string2ll_pos_iff:
  assumes "hd s \<noteq> CHR ''-''" "s \<noteq> []" "s \<noteq> ''0''"
  shows "string2ll s = Some v \<longleftrightarrow>
     canonical s \<and> digits_value 0 s < 2 ^ 63 \<and> v = int (digits_value 0 s)"
proof (cases "is_digit (hd s) \<and> hd s \<noteq> CHR ''0''")
  case True
  let ?n = "digits_value 0 s"
  have le: "?n < 2 ^ 64 \<Longrightarrow> (of_nat ?n :: 64 word) > 9223372036854775807 \<longleftrightarrow> ?n \<ge> 2 ^ 63"
    by (auto simp: word_less_nat_alt unat_of_nat)
  have "string2ll s = Some v \<longleftrightarrow>
     (\<exists>w. s2ll_loop (of_nat (digit_val (hd s))) (tl s) = Some (w, [])
        \<and> \<not> w > 9223372036854775807 \<and> v = sint w)"
    using assms True by (auto simp: string2ll_def Let_def split: option.splits)
  also have "\<dots> \<longleftrightarrow> canonical s \<and> ?n < 2 ^ 64 \<and> \<not> (of_nat ?n :: 64 word) > 9223372036854775807
        \<and> v = sint (of_nat ?n :: 64 word)"
    using True assms by (auto simp: s2ll_digits)
  also have "\<dots> \<longleftrightarrow> canonical s \<and> ?n < 2 ^ 63 \<and> v = int ?n"
    using le sint_of_nat64 [of ?n] by auto
  finally show ?thesis .
next
  case False
  then have "string2ll s = None" "\<not> canonical s"
    using assms by (auto simp: string2ll_def Let_def canonical_def)
  then show ?thesis by simp
qed

lemma minus_not_digit [simp]: "\<not> is_digit (CHR ''-'')"
  by (simp add: is_digit_def)

lemma dec_str_hd_digit: "is_digit (hd (dec_str n))"
  using dec_str_digits [of n] hd_in_set [OF dec_str_nonempty] by blast

lemma string2ll_stringfromll:
  assumes "- (2 ^ 63) \<le> v" "v < 2 ^ 63"
  shows "string2ll (stringfromll v) = Some v"
proof -
  consider "v < 0" | "v = 0" | "0 < v" by linarith
  then show ?thesis
  proof cases
    case 1
    then have "stringfromll v = CHR ''-'' # dec_str (nat (- v))"
      using assms by (intro stringfromll_neg) auto
    moreover have "canonical (dec_str (nat (- v)))"
      using 1 canonical_iff by auto
    ultimately show ?thesis
      using 1 assms by (subst string2ll_neg_iff) auto
  next
    case 2
    then show ?thesis
      by (simp add: stringfromll_nonneg string2ll_def)
  next
    case 3
    have s: "stringfromll v = dec_str (nat v)"
      using 3 assms by (intro stringfromll_nonneg) auto
    have "canonical (dec_str (nat v))"
      using 3 canonical_iff by auto
    moreover have "dec_str (nat v) \<noteq> ''0''"
      using 3 dec_str_inject [of "nat v" 0] by simp
    moreover have "hd (dec_str (nat v)) \<noteq> CHR ''-''"
      using dec_str_hd_digit [of "nat v"] minus_not_digit by metis
    ultimately show ?thesis
      using 3 assms unfolding s by (subst string2ll_pos_iff) auto
  qed
qed

lemma string2ll_canonical:
  assumes "string2ll s = Some v"
  shows "- (2 ^ 63) \<le> v \<and> v < 2 ^ 63 \<and> s = stringfromll v"
proof -
  have ne: "s \<noteq> []" using assms by (auto simp: string2ll_def)
  consider "hd s = CHR ''-''" | "s = ''0''" | "hd s \<noteq> CHR ''-''" "s \<noteq> ''0''" by blast
  then show ?thesis
  proof cases
    case 1
    define n where "n = digits_value 0 (tl s)"
    have c: "canonical (tl s)" "n \<le> 2 ^ 63" "v = - int n"
      using assms 1 ne by (auto simp: string2ll_neg_iff n_def)
    have t: "tl s = dec_str n"
      using canonical_value [OF c(1)] by (simp add: n_def)
    then have "0 < n"
      using c(1) canonical_iff by (metis dec_str_inject)
    then have "stringfromll v = CHR ''-'' # dec_str n"
      using c by (subst stringfromll_neg) auto
    moreover have "s = CHR ''-'' # tl s"
      using 1 ne by (metis list.collapse)
    ultimately show ?thesis
      using c t by auto
  next
    case 2
    then show ?thesis
      using assms by (simp add: string2ll_def stringfromll_nonneg)
  next
    case 3
    define n where "n = digits_value 0 s"
    have "canonical s" "n < 2 ^ 63" "v = int n"
      using assms 3 ne by (auto simp: string2ll_pos_iff n_def)
    moreover from this(1) have "s = dec_str n"
      using canonical_value by (simp add: n_def)
    ultimately show ?thesis
      by (simp add: stringfromll_nonneg)
  qed
qed

section \<open>Sizes of numerals: \<open>digits10\<close> and \<open>fast_itoa\<close>\<close>

fun digits10 :: "nat \<Rightarrow> nat" where
  "digits10 v =
     (if v < 10 then 1
      else if v < 100 then 2
      else if v < 1000 then 3
      else if v < 1000000000000
      then if v < 100000000
           then if v < 1000000
                then if v < 10000 then 4 else 5 + of_bool (v \<ge> 100000)
                else 7 + of_bool (v \<ge> 10000000)
           else if v < 10000000000 then 9 + of_bool (v \<ge> 1000000000)
           else 11 + of_bool (v \<ge> 100000000000)
      else 12 + digits10 (v div 1000000000000))"

declare digits10.simps [simp del]

definition digit_pairs :: string where
  "digit_pairs =
     ''0001020304050607080910111213141516171819''
     @ ''2021222324252627282930313233343536373839''
     @ ''4041424344454647484950515253545556575859''
     @ ''6061626364656667686970717273747576777879''
     @ ''8081828384858687888990919293949596979899''"

text \<open>The loop of \<open>fast_itoa\<close> fills \<open>dst\<close> from the index \<open>next\<close> downwards, two digits a round.\<close>

function itoa_loop :: "nat \<Rightarrow> nat \<Rightarrow> string \<Rightarrow> string" where
  "itoa_loop value idx dst =
     (if value \<ge> 100
      then let i = (value mod 100) * 2
           in itoa_loop (value div 100) (idx - 2)
                (dst[idx := digit_pairs ! (i + 1), idx - 1 := digit_pairs ! i])
      else if value < 10 then dst[idx := digit_char value]
      else let i = value * 2
           in dst[idx := digit_pairs ! (i + 1), idx - 1 := digit_pairs ! i])"
  by pat_completeness auto
termination
  by (relation "measure (\<lambda>(v, i, d). v)") auto

declare itoa_loop.simps [simp del]

definition fast_itoa :: "string \<Rightarrow> nat \<Rightarrow> nat \<Rightarrow> (nat \<times> string) option" where
  "fast_itoa dst dstlen value =
     (let len = digits10 value
      in if len \<ge> dstlen then None else Some (len, itoa_loop value (len - 1) dst))"

lemma digit_pairs_eq:
  "digit_pairs = concat (map (\<lambda>i. [digit_char (i div 10), digit_char (i mod 10)]) [0..<100])"
  unfolding digit_pairs_def digit_char_def by code_simp

lemma concat_pairs_nth:
  "i < n \<Longrightarrow> concat (map (\<lambda>i. [f i, g i]) [0..<n]) ! (2 * i) = f i
     \<and> concat (map (\<lambda>i. [f i, g i]) [0..<n]) ! (2 * i + 1) = g i"
proof (induction n)
  case (Suc n)
  have len: "length (concat (map (\<lambda>i. [f i, g i]) [0..<n])) = 2 * n"
    by (induction n) auto
  show ?case
    using Suc by (cases "i = n") (auto simp: nth_append len less_Suc_eq)
qed simp

lemma digit_pairs_nth [simp]:
  assumes "i < 100"
  shows "digit_pairs ! (2 * i) = digit_char (i div 10)"
    and "digit_pairs ! Suc (2 * i) = digit_char (i mod 10)"
  using concat_pairs_nth [OF assms, of "\<lambda>i. digit_char (i div 10)" "\<lambda>i. digit_char (i mod 10)"]
  by (simp_all add: digit_pairs_eq)

lemma length_dec_str_le: "0 < k \<Longrightarrow> length (dec_str n) \<le> k \<longleftrightarrow> n < 10 ^ k"
proof (induction n arbitrary: k rule: dec_str.induct)
  case (1 n)
  show ?case
  proof (cases "n < 10")
    case True
    moreover have "(10::nat) \<le> 10 ^ k"
      using "1.prems" self_le_power [of "10::nat" k] by simp
    ultimately show ?thesis
      using "1.prems" by (auto simp: dec_str.simps [of n])
  next
    case False
    obtain j where k: "k = Suc j"
      using "1.prems" by (cases k) auto
    show ?thesis
    proof (cases "j = 0")
      case True
      then show ?thesis
        using False k by (simp add: dec_str.simps [of n])
    next
      case j: False
      have "length (dec_str n) \<le> k \<longleftrightarrow> length (dec_str (n div 10)) \<le> j"
        using False by (simp add: dec_str.simps [of n] k)
      also have "\<dots> \<longleftrightarrow> n div 10 < 10 ^ j"
        using "1.IH" [OF False] j by simp
      also have "\<dots> \<longleftrightarrow> n < 10 ^ k"
        by (simp add: k div_less_iff_less_mult mult.commute)
      finally show ?thesis .
    qed
  qed
qed

lemma length_dec_str_eq:
  assumes "10 ^ k \<le> n" "n < 10 ^ Suc k" "0 < k"
  shows "length (dec_str n) = Suc k"
  using length_dec_str_le [of k n] length_dec_str_le [of "Suc k" n] assms by linarith

lemma dec_str_split: "10 ^ k \<le> n \<Longrightarrow> length (dec_str n) = k + length (dec_str (n div 10 ^ k))"
proof (induction k arbitrary: n)
  case (Suc k)
  have "(10::nat) ^ 1 \<le> 10 ^ Suc k"
    by (intro power_increasing) auto
  then have "(10::nat) ^ 1 \<le> n"
    using Suc.prems by (rule order_trans)
  then have "10 \<le> n"
    by simp
  then have "length (dec_str n) = Suc (length (dec_str (n div 10)))"
    by (simp add: dec_str.simps [of n])
  moreover have "10 ^ k \<le> n div 10"
    using Suc.prems by (simp add: less_eq_div_iff_mult_less_eq mult.commute)
  ultimately show ?case
    using Suc.IH [of "n div 10"] by (simp add: div_mult2_eq)
qed simp

lemma digits10_length: "digits10 v = length (dec_str v)"
proof (induction v rule: digits10.induct)
  case (1 v)
  show ?case
  proof (cases "v < 10 ^ 12")
    case True
    then consider "v < 10 ^ 1" | "10 ^ 1 \<le> v" "v < 10 ^ Suc 1" | "10 ^ 2 \<le> v" "v < 10 ^ Suc 2"
      | "10 ^ 3 \<le> v" "v < 10 ^ Suc 3" | "10 ^ 4 \<le> v" "v < 10 ^ Suc 4"
      | "10 ^ 5 \<le> v" "v < 10 ^ Suc 5" | "10 ^ 6 \<le> v" "v < 10 ^ Suc 6"
      | "10 ^ 7 \<le> v" "v < 10 ^ Suc 7" | "10 ^ 8 \<le> v" "v < 10 ^ Suc 8"
      | "10 ^ 9 \<le> v" "v < 10 ^ Suc 9" | "10 ^ 10 \<le> v" "v < 10 ^ Suc 10"
      | "10 ^ 11 \<le> v" "v < 10 ^ Suc 11"
      by simp linarith
    then show ?thesis
    proof cases
      case 1
      then show ?thesis by (simp add: digits10.simps [of v] dec_str.simps [of v])
    qed (subst length_dec_str_eq; simp add: digits10.simps [of v])+
  next
    case False
    then have "digits10 v = 12 + digits10 (v div 10 ^ 12)"
      by (simp add: digits10.simps [of v])
    also have "digits10 (v div 10 ^ 12) = length (dec_str (v div 10 ^ 12))"
      using "1.IH" False by simp
    also have "12 + \<dots> = length (dec_str v)"
      using dec_str_split [of 12 v] False by simp
    finally show ?thesis .
  qed
qed

lemma dec_str_two: "10 \<le> v \<Longrightarrow> v < 100 \<Longrightarrow> dec_str v = [digit_char (v div 10), digit_char (v mod 10)]"
  by (simp add: dec_str.simps [of v] dec_str.simps [of "v div 10"])

lemma dec_str_pair:
  "100 \<le> v \<Longrightarrow> dec_str v = dec_str (v div 100)
     @ [digit_char (v mod 100 div 10), digit_char (v mod 100 mod 10)]"
proof -
  assume "100 \<le> v"
  then have "\<not> v < 10" "\<not> v div 10 < 10" by auto
  moreover have "v div 10 div 10 = v div 100" "v div 10 mod 10 = v mod 100 div 10"
    "v mod 100 mod 10 = v mod 10"
    using mod_mult2_eq [of v 10 10] mod_mod_cancel [of 10 100 v]
    by (simp_all add: div_mult2_eq [symmetric])
  ultimately show ?thesis
    by (simp add: dec_str.simps [of v] dec_str.simps [of "v div 10"])
qed

lemma list_update_two:
  "Suc i < length d \<Longrightarrow> d[Suc i := b, i := a] = take i d @ [a, b] @ drop (Suc (Suc i)) d"
  by (simp add: upd_conv_take_nth_drop take_Suc_conv_app_nth Cons_nth_drop_Suc [symmetric])

lemma itoa_loop_eq:
  "idx + 1 = length (dec_str v) \<Longrightarrow> idx < length d \<Longrightarrow>
   itoa_loop v idx d = dec_str v @ drop (idx + 1) d"
proof (induction v idx d rule: itoa_loop.induct)
  case (1 v idx d)
  consider (big) "100 \<le> v" | (one) "v < 10" | (two) "10 \<le> v" "v < 100" by linarith
  then show ?case
  proof cases
    case big
    then have len: "length (dec_str v) = Suc (Suc (length (dec_str (v div 100))))"
      by (simp add: dec_str_pair)
    moreover have "0 < length (dec_str (v div 100))" by simp
    ultimately obtain j where idx: "idx = Suc (Suc j)" and j: "j + 1 = length (dec_str (v div 100))"
      using "1.prems" by (metis Suc_eq_plus1 Suc_inject Suc_pred)
    let ?d = "d[idx := digit_char (v mod 100 mod 10), idx - 1 := digit_char (v mod 100 div 10)]"
    have upd: "?d = take (Suc j) d @ [digit_char (v mod 100 div 10), digit_char (v mod 100 mod 10)]
        @ drop (Suc (Suc (Suc j))) d"
      using list_update_two [of "Suc j" d] "1.prems" by (simp add: idx)
    have "itoa_loop v idx d = itoa_loop (v div 100) j ?d"
      using big digit_pairs_nth [of "v mod 100"]
      unfolding itoa_loop.simps [of v idx d] Let_def by (simp add: idx mult.commute)
    also have "\<dots> = dec_str (v div 100) @ drop (j + 1) ?d"
      using "1.IH" [OF big refl] big j "1.prems" idx
      by (simp add: Let_def mult.commute)
    also have "drop (j + 1) ?d = [digit_char (v mod 100 div 10), digit_char (v mod 100 mod 10)]
        @ drop (idx + 1) d"
      using "1.prems"(2) unfolding upd by (simp add: idx)
    finally show ?thesis
      using big by (simp add: dec_str_pair)
  next
    case one
    then show ?thesis
      using "1.prems" unfolding itoa_loop.simps [of v idx d]
      by (cases d) (auto simp: dec_str.simps [of v])
  next
    case two
    then have idx: "idx = 1"
      using "1.prems" by (simp add: dec_str_two)
    then show ?thesis
      using two "1.prems" list_update_two [of 0 d] digit_pairs_nth [of v, folded mult.commute [of v]]
      unfolding itoa_loop.simps [of v idx d]
      by (simp add: Let_def dec_str_two mult.commute)
  qed
qed

section \<open>The \<open>str_to*\<close> family\<close>

text \<open>
  \<open>strtoll\<close> and \<open>strtoull\<close> of the C library in base 10: leading white space, an optional sign, the
  longest run of digits. \<open>strto_scan\<close> gives the sign, the magnitude and how many bytes were
  consumed (none when there is no digit). Out-of-range values are clamped.
\<close>

definition is_space :: "char \<Rightarrow> bool" where
  "is_space c \<longleftrightarrow> c \<in> {CHR '' '', CHR 0x09, CHR 0x0A, CHR 0x0B, CHR 0x0C, CHR 0x0D}"

definition strto_scan :: "string \<Rightarrow> bool \<times> nat \<times> nat" where
  "strto_scan s =
     (let ws = length (takeWhile is_space s);
          r = drop ws s;
          neg = (r \<noteq> [] \<and> hd r = CHR ''-'');
          sg = (if r \<noteq> [] \<and> (hd r = CHR ''-'' \<or> hd r = CHR ''+'') then 1 else 0);
          ds = takeWhile is_digit (drop sg r)
      in if ds = [] then (False, 0, 0) else (neg, digits_value 0 ds, ws + sg + length ds))"

definition strtoll :: "string \<Rightarrow> int \<times> nat" where
  "strtoll s =
     (let (neg, v, n) = strto_scan s; x = (if neg then - int v else int v)
      in (max (- (2 ^ 63)) (min (2 ^ 63 - 1) x), n))"

definition strtoull :: "string \<Rightarrow> nat \<times> nat" where
  "strtoull s =
     (let (neg, v, n) = strto_scan s
      in (if v \<ge> 2 ^ 64 then 2 ^ 64 - 1 else if neg then (2 ^ 64 - v) mod 2 ^ 64 else v, n))"

definition str_toint64 :: "string \<Rightarrow> int option" where
  "str_toint64 str =
     (let str = c_str str; (val, n) = strtoll str
      in if n < length str then None else Some val)"

definition str_touint64 :: "string \<Rightarrow> nat option" where
  "str_touint64 str =
     (let str = c_str str; (val, n) = strtoull str
      in if n < length str then None else Some val)"

definition string_toint64 :: "string \<Rightarrow> int option" where
  "string_toint64 str = str_toint64 str"

definition string_touint64 :: "string \<Rightarrow> nat option" where
  "string_touint64 str = str_touint64 str"

definition str_toint32 :: "string \<Rightarrow> int option" where
  "str_toint32 str =
     (case str_toint64 str of
        Some temp \<Rightarrow> if temp > 2147483647 \<or> temp < - 2147483648 then None else Some temp
      | None \<Rightarrow> None)"

definition string_toint32 :: "string \<Rightarrow> int option" where
  "string_toint32 str = str_toint32 str"

definition str_touint32 :: "string \<Rightarrow> nat option" where
  "str_touint32 str =
     (case str_toint64 str of
        Some temp \<Rightarrow> if temp < 0 \<or> temp > 0xffffffff then None else Some (nat temp)
      | None \<Rightarrow> None)"

definition string_touint32 :: "string \<Rightarrow> nat option" where
  "string_touint32 str = str_touint32 str"

lemma digit_not_space: "is_digit c \<Longrightarrow> \<not> is_space c"
  by (auto simp: is_digit_def is_space_def)

lemma digit_not_sign: "is_digit c \<Longrightarrow> c \<noteq> CHR ''-'' \<and> c \<noteq> CHR ''+''"
  by (auto simp: is_digit_def)

lemma strto_scan_nat:
  assumes "\<And>c. rest \<noteq> [] \<Longrightarrow> c = hd rest \<Longrightarrow> \<not> is_digit c"
  shows "strto_scan (dec_str n @ rest) = (False, n, length (dec_str n))"
proof -
  obtain d ds where dd: "dec_str n = d # ds" by (cases "dec_str n") auto
  have d: "is_digit d" using dec_str_hd_digit [of n] by (simp add: dd)
  have "takeWhile is_digit (dec_str n @ rest) = dec_str n"
    using dec_str_digits [of n] assms by (cases rest) (auto simp: takeWhile_append_stop
        takeWhile_eq_all_conv)
  then show ?thesis
    using dec_str_value [of n] digit_not_space [OF d] digit_not_sign [OF d]
    by (simp add: strto_scan_def Let_def dd)
qed

lemma dec_str_no_nul: "NUL \<notin> set (dec_str n)"
  using dec_str_digits [of n] by (auto simp: is_digit_def)

text \<open>
  The text form of a 64-bit integer and the strict parser are inverse to each other:
  \<open>string2ll\<close> (and with it \<open>raw_toint64\<close>, which the reply decoder uses) accepts a text exactly when
  it is the canonical decimal form that \<open>stringfromll\<close> prints of a value in the signed 64-bit
  range, and returns that value. Leading zeros, signs without digits, \<open>-0\<close> and every value that
  overflows are rejected.
\<close>

theorem string2ll_exact:
  "string2ll s = Some v \<longleftrightarrow> - (2 ^ 63) \<le> v \<and> v < 2 ^ 63 \<and> s = stringfromll v"
  using string2ll_canonical string2ll_stringfromll by blast

text \<open>
  The two-digits-a-round routine \<open>fast_itoa\<close> writes exactly the decimal numeral of its
  argument at the front of the destination, leaves the bytes behind it alone, and returns its
  length, provided the destination is longer than the numeral; otherwise it refuses.
\<close>

theorem fast_itoa_decimal:
  assumes "dstlen \<le> length dst"
  shows "fast_itoa dst dstlen v =
     (if length (dec_str v) < dstlen
      then Some (length (dec_str v), dec_str v @ drop (length (dec_str v)) dst)
      else None)"
  using itoa_loop_eq [of "length (dec_str v) - 1" v dst] assms
  by (auto simp: fast_itoa_def Let_def digits10_length Suc_le_eq)

theorem fast_itoa_decimal_witness:
  "(4 :: nat) \<le> length ''abcd'' \<and> fast_itoa ''abcd'' 4 123 =
     (if length (dec_str 123) < 4
      then Some (length (dec_str 123), dec_str 123 @ drop (length (dec_str 123)) ''abcd'')
      else None)"
proof -
  have h: "(4 :: nat) \<le> length ''abcd''" by simp
  from fast_itoa_decimal [OF h, of 123] h show ?thesis by blast
qed

lemma string_toint64_dec: "string_toint64 (dec_str n) = Some (min (2 ^ 63 - 1) (int n))"
proof -
  have "strto_scan (dec_str n) = (False, n, length (dec_str n))"
    using strto_scan_nat [of "[]" n] by simp
  then show ?thesis
    by (simp add: string_toint64_def str_toint64_def strtoll_def dec_str_no_nul)
qed

lemma string_touint64_dec: "n < 2 ^ 64 \<Longrightarrow> string_touint64 (dec_str n) = Some n"
proof -
  assume n: "n < 2 ^ 64"
  have "strto_scan (dec_str n) = (False, n, length (dec_str n))"
    using strto_scan_nat [of "[]" n] by simp
  then show ?thesis
    using n by (simp add: string_touint64_def str_touint64_def strtoull_def dec_str_no_nul)
qed

text \<open>
  The lenient parser behind every integer argument of a command does not detect overflow:
  for a text that is a digit string, \<open>string_toint64\<close> always succeeds, and a value above the
  signed 64-bit range is clamped to its maximum instead of being refused.
\<close>

theorem string_toint64_clamps:
  "string_toint64 (dec_str n) = Some (min (2 ^ 63 - 1) (int n))"
  by (rule string_toint64_dec)

end
