(* ===== verification/Redis_Reply.thy ===== *)
theory Redis_Reply
  imports Byte_Buffer Decimal Complex_Main
begin

text \<open>
  Replies of the Redis protocol: the \<open>RedisReply\<close> structure of
  \<open>common/channel/codec/redis_reply.hpp\<close> and \<open>.cpp\<close>, the \<open>fill_*\<close> helpers of
  \<open>common/util/redis_helper.cpp\<close> and \<open>.hpp\<close>, and the encoder and decoder of
  \<open>redis_reply_codec.cpp\<close>. A reply is a value; the object pool that recycles the memory of array
  members is not part of it. The field \<open>type\<close> is an 8-bit bit-field, so every store into it keeps
  the value modulo 256. Floating-point values are real numbers and their rendering
  (\<open>fast_dtoa\<close>) is the parameter \<open>dtoa\<close> of the encoder.
\<close>

section \<open>Replies\<close>

datatype RedisReply =
  RedisReply (reply_type: nat) (reply_str: string) (reply_integer: int) (reply_double: real)
    (reply_elements: "RedisReply list option")

definition REDIS_REPLY_STRING :: nat where "REDIS_REPLY_STRING = 1"
definition REDIS_REPLY_ARRAY :: nat where "REDIS_REPLY_ARRAY = 2"
definition REDIS_REPLY_INTEGER :: nat where "REDIS_REPLY_INTEGER = 3"
definition REDIS_REPLY_NIL :: nat where "REDIS_REPLY_NIL = 4"
definition REDIS_REPLY_STATUS :: nat where "REDIS_REPLY_STATUS = 5"
definition REDIS_REPLY_ERROR :: nat where "REDIS_REPLY_ERROR = 6"
definition REDIS_REPLY_DOUBLE :: nat where "REDIS_REPLY_DOUBLE = 1001"
definition REDIS_REPLY_STATUS_OK :: int where "REDIS_REPLY_STATUS_OK = 2001"
definition REDIS_REPLY_STATUS_PONG :: int where "REDIS_REPLY_STATUS_PONG = 2002"

lemmas reply_consts [simp] =
  REDIS_REPLY_STRING_def REDIS_REPLY_ARRAY_def REDIS_REPLY_INTEGER_def REDIS_REPLY_NIL_def
  REDIS_REPLY_STATUS_def REDIS_REPLY_ERROR_def REDIS_REPLY_DOUBLE_def
  REDIS_REPLY_STATUS_OK_def REDIS_REPLY_STATUS_PONG_def

definition reply_new :: RedisReply where
  "reply_new = RedisReply 0 [] 0 0 None"

text \<open>An assignment to the 8-bit field \<open>type\<close>.\<close>

definition set_type :: "nat \<Rightarrow> RedisReply \<Rightarrow> RedisReply" where
  "set_type t r = RedisReply (t mod 256) (reply_str r) (reply_integer r) (reply_double r)
     (reply_elements r)"

definition set_str :: "string \<Rightarrow> RedisReply \<Rightarrow> RedisReply" where
  "set_str s r = RedisReply (reply_type r) s (reply_integer r) (reply_double r)
     (reply_elements r)"

definition set_integer :: "int \<Rightarrow> RedisReply \<Rightarrow> RedisReply" where
  "set_integer i r = RedisReply (reply_type r) (reply_str r) i (reply_double r)
     (reply_elements r)"

definition set_double :: "real \<Rightarrow> RedisReply \<Rightarrow> RedisReply" where
  "set_double d r = RedisReply (reply_type r) (reply_str r) (reply_integer r) d
     (reply_elements r)"

definition set_elements :: "RedisReply list option \<Rightarrow> RedisReply \<Rightarrow> RedisReply" where
  "set_elements es r = RedisReply (reply_type r) (reply_str r) (reply_integer r) (reply_double r) es"

lemmas reply_setters [simp] =
  set_type_def set_str_def set_integer_def set_double_def set_elements_def

definition RedisReply_Clear :: "RedisReply \<Rightarrow> RedisReply" where
  "RedisReply_Clear r = reply_new"

text \<open>\<open>AddMember\<close> hands out a reference to a fresh member; \<open>m\<close> is what the caller makes of it.\<close>

definition AddMember :: "bool \<Rightarrow> RedisReply \<Rightarrow> RedisReply \<Rightarrow> RedisReply" where
  "AddMember tail m r =
     (let r = set_type REDIS_REPLY_ARRAY r;
          es = (case reply_elements r of None \<Rightarrow> [] | Some es \<Rightarrow> es)
      in set_elements (Some (if tail then es @ [m] else m # es)) r)"

definition ReserveMember :: "nat \<Rightarrow> RedisReply \<Rightarrow> RedisReply" where
  "ReserveMember num r =
     (let r = set_type REDIS_REPLY_ARRAY r;
          es = (case reply_elements r of None \<Rightarrow> [] | Some es \<Rightarrow> es)
      in set_elements
           (Some (es @ replicate (num - length es) (set_type REDIS_REPLY_NIL reply_new))) r)"

definition MemberSize :: "RedisReply \<Rightarrow> nat" where
  "MemberSize r = (case reply_elements r of None \<Rightarrow> 0 | Some es \<Rightarrow> length es)"

definition MemberAt :: "RedisReply \<Rightarrow> nat \<Rightarrow> RedisReply option" where
  "MemberAt r i =
     (case reply_elements r of
        None \<Rightarrow> None
      | Some es \<Rightarrow> if i < length es then Some (es ! i) else None)"

text \<open>\<open>Clone\<close> appends copies of the members of \<open>r\<close> to those the target already has.\<close>

fun Clone :: "RedisReply \<Rightarrow> RedisReply \<Rightarrow> RedisReply" where
  "Clone t (RedisReply ty s i d el) =
     (let t = RedisReply (ty mod 256) s i d (reply_elements t)
      in case el of
           None \<Rightarrow> t
         | Some es \<Rightarrow> foldl (\<lambda>t m. AddMember True m t) t (map (Clone reply_new) es))"

section \<open>Filling replies\<close>

text \<open>The formatted text is cut to the 1018 bytes that fit behind the prefix \<open>ERR \<close>.\<close>

definition fill_error_reply :: "string \<Rightarrow> RedisReply \<Rightarrow> RedisReply" where
  "fill_error_reply text r =
     set_str (c_str (''ERR '' @ take 1018 (c_str text))) (set_type REDIS_REPLY_ERROR r)"

definition fill_fix_error_reply :: "string \<Rightarrow> RedisReply \<Rightarrow> RedisReply" where
  "fill_fix_error_reply err r = set_str err (set_type REDIS_REPLY_ERROR r)"

definition fill_status_reply :: "string \<Rightarrow> RedisReply \<Rightarrow> RedisReply" where
  "fill_status_reply s r = set_str (c_str s) (set_type REDIS_REPLY_STATUS r)"

definition fill_ok_reply :: "RedisReply \<Rightarrow> RedisReply" where
  "fill_ok_reply r = set_integer REDIS_REPLY_STATUS_OK (set_type REDIS_REPLY_STATUS r)"

definition fill_pong_reply :: "RedisReply \<Rightarrow> RedisReply" where
  "fill_pong_reply r = set_integer REDIS_REPLY_STATUS_PONG (set_type REDIS_REPLY_STATUS r)"

definition fill_int_reply :: "int \<Rightarrow> RedisReply \<Rightarrow> RedisReply" where
  "fill_int_reply v r = set_integer (c_int64 v) (set_type REDIS_REPLY_INTEGER r)"

definition fill_double_reply :: "real \<Rightarrow> RedisReply \<Rightarrow> RedisReply" where
  "fill_double_reply v r = set_double v (set_type REDIS_REPLY_DOUBLE r)"

definition fill_str_reply :: "string \<Rightarrow> RedisReply \<Rightarrow> RedisReply" where
  "fill_str_reply v r = set_str v (set_type REDIS_REPLY_STRING r)"

definition fill_str_array_reply :: "string list \<Rightarrow> RedisReply \<Rightarrow> RedisReply" where
  "fill_str_array_reply vs r =
     foldl (\<lambda>r v. AddMember True (fill_str_reply v reply_new) r) (set_type REDIS_REPLY_ARRAY r) vs"

definition fill_int_array_reply :: "int list \<Rightarrow> RedisReply \<Rightarrow> RedisReply" where
  "fill_int_array_reply vs r =
     foldl (\<lambda>r v. AddMember True (fill_int_reply v reply_new) r) (set_type REDIS_REPLY_ARRAY r) vs"

text \<open>The \<open>check_*\<close> helpers return the parsed value, or the reply with an error filled in.\<close>

definition check_uint32_arg :: "string \<Rightarrow> RedisReply \<Rightarrow> RedisReply + nat" where
  "check_uint32_arg arg r =
     (case string_touint32 arg of
        None \<Rightarrow> Inl (fill_error_reply ''value is not an integer or out of range.'' r)
      | Some v \<Rightarrow> Inr v)"

definition check_uint64_arg :: "string \<Rightarrow> RedisReply \<Rightarrow> RedisReply + nat" where
  "check_uint64_arg arg r =
     (case string_touint64 arg of
        None \<Rightarrow> Inl (fill_error_reply ''value is not an integer or out of range.'' r)
      | Some v \<Rightarrow> Inr v)"

lemmas fill_defs [comms_defs] =
  fill_error_reply_def fill_fix_error_reply_def fill_status_reply_def fill_ok_reply_def
  fill_pong_reply_def fill_int_reply_def fill_double_reply_def fill_str_reply_def

section \<open>The encoder\<close>

fun Reply_Encode ::
    "(nat \<Rightarrow> char) \<Rightarrow> (real \<Rightarrow> string) \<Rightarrow> Buffer \<Rightarrow> RedisReply \<Rightarrow> bool \<times> Buffer"
  and Reply_Encode_members ::
    "(nat \<Rightarrow> char) \<Rightarrow> (real \<Rightarrow> string) \<Rightarrow> Buffer \<Rightarrow> RedisReply list \<Rightarrow> bool \<times> Buffer" where
  "Reply_Encode u dtoa buf (RedisReply ty str i d el) =
     (if ty = REDIS_REPLY_NIL then (True, Printf u buf (''$-1'' @ CRLF))
      else if ty = REDIS_REPLY_STRING
      then if length str = 0 then (True, Printf u buf (''$0'' @ CRLF @ CRLF))
           else let buf = Printf u buf (''$'' @ printf_d (int (length str)) @ CRLF);
                    buf = Buffer_Write u buf str
                in (True, Printf u buf CRLF)
      else if ty = REDIS_REPLY_ERROR then (True, Printf u buf (''-'' @ c_str str @ CRLF))
      else if ty = REDIS_REPLY_INTEGER then (True, Printf u buf ('':'' @ stringfromll i @ CRLF))
      else if ty = REDIS_REPLY_DOUBLE
      then let s = dtoa d;
               buf = Printf u buf (''$'' @ printf_d (int (length s)) @ CRLF)
           in (True, Printf u buf (c_str s @ CRLF))
      else if ty = REDIS_REPLY_ARRAY
      then case el of
             None \<Rightarrow> (True, Printf u buf (''*0'' @ CRLF))
           | Some es \<Rightarrow>
               Reply_Encode_members u dtoa
                 (Printf u buf (''*'' @ printf_d (int (length es)) @ CRLF)) es
      else if ty = REDIS_REPLY_STATUS
      then if i = REDIS_REPLY_STATUS_OK then (True, Printf u buf (''+OK'' @ CRLF))
           else if i = REDIS_REPLY_STATUS_PONG then (True, Printf u buf (''+PONG'' @ CRLF))
           else (True, Printf u buf (''+'' @ c_str str @ CRLF))
      else (False, buf))"
| "Reply_Encode_members u dtoa buf [] = (True, buf)"
| "Reply_Encode_members u dtoa buf (e # es) =
     (let (ok, buf) = Reply_Encode u dtoa buf e
      in if ok then Reply_Encode_members u dtoa buf es else (False, buf))"

section \<open>The decoder\<close>

text \<open>
  What the C++ code leaves undefined or answers with an exception nobody catches: reading
  outside an allocated block, and constructing a string of an impossible length.
\<close>

datatype crash = OutOfBounds | LengthError

definition string_max_size :: int where
  "string_max_size = 2 ^ 62"

text \<open>\<open>std::string::assign(raw, len)\<close> of \<open>len\<close> bytes (a signed length converts to \<open>size_t\<close>).\<close>

definition read_raw :: "Buffer \<Rightarrow> int \<Rightarrow> crash + string" where
  "read_raw b len =
     (if int (c_size len) > string_max_size then Inl LengthError
      else if m_read_idx b + c_size len > length (m_buffer b) then Inl OutOfBounds
      else Inr (take (c_size len) (drop (m_read_idx b) (m_buffer b))))"

definition line_text :: "Buffer \<Rightarrow> int \<Rightarrow> string" where
  "line_text b crlf_index = region (m_buffer b) (m_read_idx b) (nat crlf_index)"

fun decode_reply ::
    "nat \<Rightarrow> Buffer \<Rightarrow> RedisReply \<Rightarrow> (crash + int \<times> Buffer \<times> RedisReply) option"
  and decode_members ::
    "nat \<Rightarrow> Buffer \<Rightarrow> RedisReply \<Rightarrow> int \<Rightarrow> (crash + int \<times> Buffer \<times> RedisReply) option" where
  "decode_reply 0 buffer msg = None"
| "decode_reply (Suc fuel) buffer msg =
     (let crlf_index = IndexOf buffer CRLF
      in if crlf_index = -1 then Some (Inr (0, buffer, msg))
         else case ReadByte buffer of
           None \<Rightarrow> Some (Inr (-1, buffer, msg))
         | Some (type, buffer) \<Rightarrow>
             let line = line_text buffer crlf_index;
                 after = SetReadIndex buffer (nat crlf_index + 2)
             in if type = CHR ''$''
                then case raw_toint64 line of
                       None \<Rightarrow> Some (Inr (-1, buffer, msg))
                     | Some len \<Rightarrow>
                         if len = -1 then Some (Inr (1, after, set_type REDIS_REPLY_NIL msg))
                         else case read_raw after len of
                                Inl e \<Rightarrow> Some (Inl e)
                              | Inr s \<Rightarrow>
                                  Some (Inr (1, SkipBytes after (c_size (len + 2)),
                                    set_str s (set_type REDIS_REPLY_STRING msg)))
                else if type = CHR ''+''
                then Some (Inr (1, after, set_str line (set_type REDIS_REPLY_STATUS msg)))
                else if type = CHR ''-''
                then Some (Inr (1, after, set_str line (set_type REDIS_REPLY_ERROR msg)))
                else if type = CHR '':''
                then case raw_toint64 line of
                       None \<Rightarrow> Some (Inr (-1, buffer, set_type REDIS_REPLY_INTEGER msg))
                     | Some i \<Rightarrow>
                         Some (Inr (1, after, set_integer i (set_type REDIS_REPLY_INTEGER msg)))
                else if type = CHR ''*''
                then case raw_toint64 line of
                       None \<Rightarrow> Some (Inr (-1, buffer, msg))
                     | Some len \<Rightarrow>
                         decode_members fuel after (set_type REDIS_REPLY_ARRAY msg) len
                else Some (Inr (-1, buffer, msg)))"
| "decode_members 0 buffer msg len = None"
| "decode_members (Suc fuel) buffer msg len =
     (if len \<le> 0 then Some (Inr (1, buffer, msg))
      else case decode_reply fuel buffer reply_new of
             None \<Rightarrow> None
           | Some (Inl e) \<Rightarrow> Some (Inl e)
           | Some (Inr (ret, buffer, r)) \<Rightarrow>
               let msg = AddMember True r msg
               in if ret < 0 then Some (Inr (ret, buffer, msg))
                  else if ret = 0 then Some (Inr (1, buffer, msg))
                  else decode_members fuel buffer msg (len - 1))"

text \<open>
  Leading \<open>\r\<close> and \<open>\n\<close> are skipped by looking at the raw block, not at the readable part of it;
  at the end of the block the loop reads outside it.
\<close>

function skip_crlf :: "Buffer \<Rightarrow> Buffer option" where
  "skip_crlf b =
     (if m_read_idx b < length (m_buffer b)
      then if m_buffer b ! m_read_idx b = CR \<or> m_buffer b ! m_read_idx b = LF
           then skip_crlf (AdvanceReadIndex b 1) else Some b
      else None)"
  by pat_completeness auto
termination
  by (relation "measure (\<lambda>b. length (m_buffer b) - m_read_idx b)")
    (auto simp: AdvanceReadIndex_def)

declare skip_crlf.simps [simp del]

text \<open>
  The result says whether a message was decoded, and whether the channel is closed. The fuel is
  one more than the readable bytes, which is enough by \<open>decode_reply_total\<close>.
\<close>

definition ReplyDecoder_Decode ::
    "Buffer \<Rightarrow> crash + bool \<times> bool \<times> Buffer \<times> RedisReply" where
  "ReplyDecoder_Decode buffer =
     (case skip_crlf buffer of
        None \<Rightarrow> Inl OutOfBounds
      | Some buffer \<Rightarrow>
          (case the (decode_reply (Suc (ReadableBytes buffer)) buffer reply_new) of
             Inr (ret, buffer, msg) \<Rightarrow> Inr (ret > 0, ret < 0, buffer, msg)
           | Inl e \<Rightarrow> Inl e))"

section \<open>What the encoder writes\<close>

fun render :: "RedisReply \<Rightarrow> string" where
  "render (RedisReply ty str i d el) =
     (if ty = REDIS_REPLY_NIL then ''$-1'' @ CRLF
      else if ty = REDIS_REPLY_STRING then ''$'' @ dec_str (length str) @ CRLF @ str @ CRLF
      else if ty = REDIS_REPLY_ERROR then ''-'' @ str @ CRLF
      else if ty = REDIS_REPLY_INTEGER then '':'' @ stringfromll i @ CRLF
      else if ty = REDIS_REPLY_ARRAY
      then case el of
             None \<Rightarrow> ''*0'' @ CRLF
           | Some es \<Rightarrow> ''*'' @ dec_str (length es) @ CRLF @ concat (map render es)
      else ''+'' @ (if i = REDIS_REPLY_STATUS_OK then ''OK''
                   else if i = REDIS_REPLY_STATUS_PONG then ''PONG'' else str) @ CRLF)"

text \<open>
  The replies the protocol can carry: sizes that fit the \<open>int\<close> of the length line, and error and
  status texts without a carriage return or a null byte.
\<close>

definition line_ok :: "string \<Rightarrow> bool" where
  "line_ok s \<longleftrightarrow> CR \<notin> set s \<and> NUL \<notin> set s \<and> length s < 2 ^ 30"

fun sendable :: "RedisReply \<Rightarrow> bool" where
  "sendable (RedisReply ty str i d el) =
     (if ty = REDIS_REPLY_NIL then True
      else if ty = REDIS_REPLY_STRING then length str < 2 ^ 31
      else if ty = REDIS_REPLY_ERROR then line_ok str
      else if ty = REDIS_REPLY_INTEGER then - (2 ^ 63) \<le> i \<and> i < 2 ^ 63
      else if ty = REDIS_REPLY_ARRAY
      then case el of
             None \<Rightarrow> True
           | Some es \<Rightarrow> length es < 2 ^ 31 \<and> (\<forall>e \<in> set es. sendable e)
      else if ty = REDIS_REPLY_STATUS
      then i = REDIS_REPLY_STATUS_OK \<or> i = REDIS_REPLY_STATUS_PONG \<or> line_ok str
      else False)"

lemma length_dec_str_small: "n < 10 ^ 10 \<Longrightarrow> length (dec_str n) \<le> 10"
  using length_dec_str_le [of 10 n] by simp

lemma length_stringfromll:
  assumes "- (2 ^ 63) \<le> i" "i < 2 ^ 63"
  shows "length (stringfromll i) \<le> 20"
proof -
  have "nat \<bar>i\<bar> < 10 ^ 19" using assms by auto
  then have "length (dec_str (nat \<bar>i\<bar>)) \<le> 19"
    using length_dec_str_le [of 19 "nat \<bar>i\<bar>"] by simp
  then show ?thesis
    using assms by (cases "i < 0") (auto simp: stringfromll_neg stringfromll_nonneg)
qed

lemma Encode_member_append:
  assumes "\<And>e buf. e \<in> set es \<Longrightarrow> buf_wf buf \<Longrightarrow> \<exists>buf'. Reply_Encode u dtoa buf e = (True, buf')
      \<and> buf_wf buf' \<and> content buf' = content buf @ render e \<and> m_read_idx buf' = m_read_idx buf"
    and "buf_wf buf"
  shows "\<exists>buf'. Reply_Encode_members u dtoa buf es = (True, buf')
      \<and> buf_wf buf' \<and> content buf' = content buf @ concat (map render es)
      \<and> m_read_idx buf' = m_read_idx buf"
  using assms
proof (induction es arbitrary: buf)
  case (Cons e es)
  obtain b1 where b1: "Reply_Encode u dtoa buf e = (True, b1)" "buf_wf b1"
    "content b1 = content buf @ render e" "m_read_idx b1 = m_read_idx buf"
    using Cons.prems by (meson list.set_intros(1))
  obtain b2 where "Reply_Encode_members u dtoa b1 es = (True, b2)" "buf_wf b2"
    "content b2 = content b1 @ concat (map render es)" "m_read_idx b2 = m_read_idx b1"
    using Cons.IH [OF Cons.prems(1) b1(2)] by auto
  with b1 show ?case by simp
qed simp

lemma Reply_Encode_append:
  "sendable r \<Longrightarrow> buf_wf buf \<Longrightarrow> \<exists>buf'. Reply_Encode u dtoa buf r = (True, buf')
     \<and> buf_wf buf' \<and> content buf' = content buf @ render r \<and> m_read_idx buf' = m_read_idx buf"
proof (induction r arbitrary: buf)
  case (RedisReply ty str i d el)
  note wf = Printf_wf [OF RedisReply.prems(2)]
  show ?case
  proof (cases "ty = REDIS_REPLY_ARRAY \<and> el \<noteq> None")
    case True
    then obtain es where es: "el = Some es" by auto
    let ?b = "Printf u buf (''*'' @ printf_d (int (length es)) @ CRLF)"
    have len: "length es < 2 ^ 31" and mem: "\<And>e. e \<in> set es \<Longrightarrow> sendable e"
      using RedisReply.prems(1) True es by auto
    have small: "length (''*'' @ dec_str (length es) @ CRLF) < 2 ^ 31"
      using length_dec_str_small [of "length es"] len by simp
    then have b: "buf_wf ?b" "content ?b = content buf @ ''*'' @ dec_str (length es) @ CRLF"
      "m_read_idx ?b = m_read_idx buf"
      using len RedisReply.prems(2) by (simp_all add: Printf_wf)
    obtain b' where "Reply_Encode_members u dtoa ?b es = (True, b')" "buf_wf b'"
      "content b' = content ?b @ concat (map render es)" "m_read_idx b' = m_read_idx ?b"
      using Encode_member_append [of es u dtoa ?b] RedisReply.IH [of es] mem es b(1) by auto
    then show ?thesis
      using True es b(2,3) by simp
  next
    case False
    have ds: "length (dec_str (length str)) \<le> 10" if "length str < 2 ^ 31"
      using that by (intro length_dec_str_small) simp
    have ll: "length (stringfromll i) \<le> 20" if "- (2 ^ 63) \<le> i" "i < 2 ^ 63"
      using that by (rule length_stringfromll)
    show ?thesis
      using False RedisReply.prems wf ds ll
      by (auto simp: line_ok_def Let_def Printf_wf Buffer_Write_wf split: if_splits)
  qed
qed

section \<open>What the decoder reads\<close>

text \<open>The reply as the peer sees it: the status codes become texts, an empty array has no list.\<close>

fun wire_view :: "RedisReply \<Rightarrow> RedisReply" where
  "wire_view (RedisReply ty str i d el) =
     (if ty = REDIS_REPLY_STRING \<or> ty = REDIS_REPLY_ERROR then RedisReply ty str 0 0 None
      else if ty = REDIS_REPLY_INTEGER then RedisReply ty [] i 0 None
      else if ty = REDIS_REPLY_ARRAY
      then RedisReply ty [] 0 0
             (case el of None \<Rightarrow> None
              | Some es \<Rightarrow> if es = [] then None else Some (map wire_view es))
      else if ty = REDIS_REPLY_STATUS
      then RedisReply ty
             (if i = REDIS_REPLY_STATUS_OK then ''OK''
              else if i = REDIS_REPLY_STATUS_PONG then ''PONG'' else str) 0 0 None
      else RedisReply ty [] 0 0 None)"

lemma ReadByte_Cons:
  assumes "buf_wf b" "content b = t # xs"
  shows "ReadByte b = Some (t, b\<lparr>m_read_idx := m_read_idx b + 1\<rparr>)"
  using assms take_drop_content [of b 1]
  by (simp add: ReadByte_def Buffer_Read_def)

lemma content_advance:
  assumes "buf_wf b" "content b = xs @ ys"
  shows "buf_wf (b\<lparr>m_read_idx := m_read_idx b + length xs\<rparr>)"
    and "content (b\<lparr>m_read_idx := m_read_idx b + length xs\<rparr>) = ys"
proof -
  have len: "m_write_idx b - m_read_idx b = length xs + length ys"
    using length_content [OF assms(1)] assms(2) by simp
  then have "region (m_buffer b) (m_read_idx b + length xs) (m_write_idx b)
      = drop (length xs) (content b)"
    by (simp add: content_def region_drop)
  then show "content (b\<lparr>m_read_idx := m_read_idx b + length xs\<rparr>) = ys"
    by (simp add: content_def [of "b\<lparr>m_read_idx := _\<rparr>"] assms(2))
  show "buf_wf (b\<lparr>m_read_idx := m_read_idx b + length xs\<rparr>)"
    using assms(1) len by (auto simp: buf_wf_def)
qed

lemma IndexOf_CRLF:
  assumes "buf_wf b" "m_write_idx b < 2 ^ 31" "content b = xs @ CRLF @ rest" "CR \<notin> set xs"
  shows "IndexOf b CRLF = int (m_read_idx b + length xs)"
proof -
  have "index_of_loop (m_buffer b) CR [LF] (m_read_idx b) (m_write_idx b)
      = Some (m_read_idx b + length xs)"
    using assms by (intro index_of_loop_first) (auto simp: content_def buf_wf_def)
  moreover have "m_read_idx b + length xs + 2 + length rest = m_write_idx b"
    using length_content [OF assms(1)] assms(1,3) by (auto simp: buf_wf_def)
  ultimately show ?thesis
    using assms(2) by (simp add: IndexOf_def IndexOf_range_def)
qed

lemma reply_line:
  assumes wf: "buf_wf b" and small: "m_write_idx b < 2 ^ 31"
    and c: "content b = t # line @ CRLF @ rest" and "CR \<notin> set line" "t \<noteq> CR"
    and b1: "b1 = b\<lparr>m_read_idx := m_read_idx b + 1\<rparr>"
    and k: "k = m_read_idx b + 1 + length line"
    and after: "after = SetReadIndex b1 (k + 2)"
  shows "IndexOf b CRLF = int k"
    and "line_text b1 (int k) = line"
    and "buf_wf after" and "content after = rest" and "m_write_idx after = m_write_idx b"
proof -
  show "IndexOf b CRLF = int k"
    using IndexOf_CRLF [OF wf small, of "t # line" rest] assms by simp
  have len: "m_read_idx b + 1 + length line + 2 + length rest = m_write_idx b"
    using length_content [OF wf] wf c by (auto simp: buf_wf_def)
  have "region (m_buffer b) (m_read_idx b + 1) (m_read_idx b + 1 + length line)
      = take (length line) (drop 1 (content b))"
    using len by (simp add: content_def region_drop take_region)
  then show "line_text b1 (int k) = line"
    using c unfolding line_text_def b1 nat_int k by simp
  have "after = b\<lparr>m_read_idx := m_read_idx b + length (t # line @ CRLF)\<rparr>"
    by (simp add: after b1 k SetReadIndex_def)
  then show "buf_wf after" "content after = rest" "m_write_idx after = m_write_idx b"
    using content_advance [OF wf, of "t # line @ CRLF" rest] c by simp_all
qed

lemma dec_str_no_cr: "CR \<notin> set (dec_str n)"
  using dec_str_digits [of n] by (auto simp: is_digit_def)

lemma stringfromll_no_cr: "CR \<notin> set (stringfromll i)"
  using dec_str_no_cr by (simp add: stringfromll_def Let_def dec_loop_eq)

lemma raw_toint64_dec: "n < 2 ^ 63 \<Longrightarrow> raw_toint64 (dec_str n) = Some (int n)"
  using string2ll_stringfromll [of "int n"] by (simp add: raw_toint64_def stringfromll_nonneg)

lemma raw_toint64_minus1: "raw_toint64 ''-1'' = Some (- 1)"
proof -
  have "digit_char 1 = CHR ''1''" by (simp add: digit_char_def char_of_def bit_0)
  then have "stringfromll (- 1) = ''-1''"
    by (simp add: stringfromll_neg dec_str.simps)
  then show ?thesis
    using string2ll_stringfromll [of "- 1"] by (simp add: raw_toint64_def)
qed

lemma read_raw_content:
  assumes "buf_wf b" "content b = s @ rest" "length s < 2 ^ 31"
  shows "read_raw b (int (length s)) = Inr s"
proof -
  have "m_read_idx b + length s \<le> length (m_buffer b)"
    using length_content [OF assms(1)] assms(1,2) by (auto simp: buf_wf_def)
  moreover have "take (length s) (drop (m_read_idx b) (m_buffer b)) = s"
    using take_drop_content [OF assms(1), of "length s"] assms(2) by simp
  ultimately show ?thesis
    using assms(3) by (simp add: read_raw_def string_max_size_def)
qed

text \<open>The five kinds of lines that are not arrays.\<close>

lemma decode_reply_line:
  assumes wf: "buf_wf b" and small: "m_write_idx b < 2 ^ 31"
    and c: "content b = t # line @ CRLF @ rest" and nocr: "CR \<notin> set line"
  shows "t = CHR ''+'' \<Longrightarrow> \<exists>b'. decode_reply (Suc n) b reply_new
      = Some (Inr (1, b', RedisReply REDIS_REPLY_STATUS line 0 0 None))
      \<and> buf_wf b' \<and> content b' = rest \<and> m_write_idx b' = m_write_idx b"
    and "t = CHR ''-'' \<Longrightarrow> \<exists>b'. decode_reply (Suc n) b reply_new
      = Some (Inr (1, b', RedisReply REDIS_REPLY_ERROR line 0 0 None))
      \<and> buf_wf b' \<and> content b' = rest \<and> m_write_idx b' = m_write_idx b"
    and "t = CHR '':'' \<Longrightarrow> raw_toint64 line = Some i \<Longrightarrow> \<exists>b'. decode_reply (Suc n) b reply_new
      = Some (Inr (1, b', RedisReply REDIS_REPLY_INTEGER [] i 0 None))
      \<and> buf_wf b' \<and> content b' = rest \<and> m_write_idx b' = m_write_idx b"
    and "t = CHR ''$'' \<Longrightarrow> raw_toint64 line = Some (- 1) \<Longrightarrow> \<exists>b'. decode_reply (Suc n) b reply_new
      = Some (Inr (1, b', RedisReply REDIS_REPLY_NIL [] 0 0 None))
      \<and> buf_wf b' \<and> content b' = rest \<and> m_write_idx b' = m_write_idx b"
    and "t = CHR ''$'' \<Longrightarrow> raw_toint64 line = Some (int (length s)) \<Longrightarrow> length s < 2 ^ 31 - 2 \<Longrightarrow>
      rest = s @ CRLF @ rest' \<Longrightarrow> \<exists>b'. decode_reply (Suc n) b reply_new
      = Some (Inr (1, b', RedisReply REDIS_REPLY_STRING s 0 0 None))
      \<and> buf_wf b' \<and> content b' = rest' \<and> m_write_idx b' = m_write_idx b"
    and "t = CHR ''*'' \<Longrightarrow> raw_toint64 line = Some len \<Longrightarrow> \<exists>b'. decode_reply (Suc n) b reply_new
      = decode_members n b' (RedisReply REDIS_REPLY_ARRAY [] 0 0 None) len
      \<and> buf_wf b' \<and> content b' = rest \<and> m_write_idx b' = m_write_idx b"
proof -
  define b1 where "b1 = b\<lparr>m_read_idx := m_read_idx b + 1\<rparr>"
  define k where "k = m_read_idx b + 1 + length line"
  define after where "after = SetReadIndex b1 (k + 2)"
  have rb: "ReadByte b = Some (t, b1)"
    using ReadByte_Cons [OF wf c] by (simp add: b1_def)
  note L = reply_line [OF wf small c nocr _ b1_def k_def after_def]
  note S = rb L after_def [symmetric, simplified] reply_new_def Let_def
  show "\<exists>b'. decode_reply (Suc n) b reply_new
      = Some (Inr (1, b', RedisReply REDIS_REPLY_STATUS line 0 0 None))
      \<and> buf_wf b' \<and> content b' = rest \<and> m_write_idx b' = m_write_idx b" if "t = CHR ''+''"
    using that by (intro exI [of _ after]) (simp add: S)
  show "\<exists>b'. decode_reply (Suc n) b reply_new
      = Some (Inr (1, b', RedisReply REDIS_REPLY_ERROR line 0 0 None))
      \<and> buf_wf b' \<and> content b' = rest \<and> m_write_idx b' = m_write_idx b" if "t = CHR ''-''"
    using that by (intro exI [of _ after]) (simp add: S)
  show "\<exists>b'. decode_reply (Suc n) b reply_new
      = Some (Inr (1, b', RedisReply REDIS_REPLY_INTEGER [] i 0 None))
      \<and> buf_wf b' \<and> content b' = rest \<and> m_write_idx b' = m_write_idx b"
    if "t = CHR '':''" "raw_toint64 line = Some i"
    using that by (intro exI [of _ after]) (simp add: S)
  show "\<exists>b'. decode_reply (Suc n) b reply_new
      = Some (Inr (1, b', RedisReply REDIS_REPLY_NIL [] 0 0 None))
      \<and> buf_wf b' \<and> content b' = rest \<and> m_write_idx b' = m_write_idx b"
    if "t = CHR ''$''" "raw_toint64 line = Some (- 1)"
    using that by (intro exI [of _ after]) (simp add: S)
  show "\<exists>b'. decode_reply (Suc n) b reply_new
      = decode_members n b' (RedisReply REDIS_REPLY_ARRAY [] 0 0 None) len
      \<and> buf_wf b' \<and> content b' = rest \<and> m_write_idx b' = m_write_idx b"
    if "t = CHR ''*''" "raw_toint64 line = Some len"
    using that by (intro exI [of _ after]) (simp add: S)
  show "\<exists>b'. decode_reply (Suc n) b reply_new
      = Some (Inr (1, b', RedisReply REDIS_REPLY_STRING s 0 0 None))
      \<and> buf_wf b' \<and> content b' = rest' \<and> m_write_idx b' = m_write_idx b"
    if t: "t = CHR ''$''" and len: "raw_toint64 line = Some (int (length s))"
      and s: "length s < 2 ^ 31 - 2" and rest: "rest = s @ CRLF @ rest'"
  proof -
    have a: "buf_wf after" "content after = s @ CRLF @ rest'" "m_write_idx after = m_write_idx b"
      using L t rest by auto
    have rr: "read_raw after (int (length s)) = Inr s"
      using read_raw_content [OF a(1,2)] s by simp
    have sk: "SkipBytes after (c_size (int (length s) + 2))
        = after\<lparr>m_read_idx := m_read_idx after + length (s @ CRLF)\<rparr>"
      using s c_int_nat [of "length s + 2"]
      by (simp add: SkipBytes_def AdvanceReadIndex_def nat_add_distrib size_add_nat [of _ "length s + 2", simplified])
    show ?thesis
      using content_advance [OF a(1), of "s @ CRLF" rest'] a(2,3) t len rr sk
      by (intro exI [of _ "after\<lparr>m_read_idx := m_read_idx after + length (s @ CRLF)\<rparr>"])
        (simp add: S)
  qed
qed

definition decodes :: "RedisReply \<Rightarrow> bool" where
  "decodes r \<longleftrightarrow> (\<forall>n b rest. buf_wf b \<and> m_write_idx b < 2 ^ 31 \<and> content b = render r @ rest
      \<and> length (render r) \<le> n \<longrightarrow>
     (\<exists>b'. decode_reply n b reply_new = Some (Inr (1, b', wire_view r))
        \<and> buf_wf b' \<and> content b' = rest \<and> m_write_idx b' = m_write_idx b))"

lemma render_length: "3 \<le> length (render r)"
  by (cases r) (simp split: option.splits)

lemma decode_members_render:
  assumes "\<forall>e \<in> set es. decodes e"
    and "buf_wf b" "m_write_idx b < 2 ^ 31" "content b = concat (map render es) @ rest"
    and "length (concat (map render es)) < n"
  shows "\<exists>b'. decode_members n b (RedisReply 2 [] 0 0 acc) (int (length es))
       = Some (Inr (1, b', RedisReply 2 [] 0 0
           (if es = [] then acc
            else Some ((case acc of None \<Rightarrow> [] | Some xs \<Rightarrow> xs) @ map wire_view es))))
       \<and> buf_wf b' \<and> content b' = rest \<and> m_write_idx b' = m_write_idx b"
  using assms
proof (induction es arbitrary: b n acc)
  case Nil
  then show ?case by (cases n) auto
next
  case (Cons e es)
  obtain m where n: "n = Suc m"
    using Cons.prems(5) by (cases n) auto
  have d: "decodes e" using Cons.prems(1) by simp
  have le: "length (render e) \<le> m" and le': "length (concat (map render es)) < m"
    using Cons.prems(5) render_length [of e] by (auto simp: n)
  obtain b1 where b1: "decode_reply m b reply_new = Some (Inr (1, b1, wire_view e))"
    "buf_wf b1" "content b1 = concat (map render es) @ rest" "m_write_idx b1 = m_write_idx b"
    using d [unfolded decodes_def, rule_format, of b "concat (map render es) @ rest" m]
      Cons.prems(2-4) le by auto
  let ?acc = "Some ((case acc of None \<Rightarrow> [] | Some xs \<Rightarrow> xs) @ [wire_view e])"
  obtain b2 where "decode_members m b1 (RedisReply 2 [] 0 0 ?acc) (int (length es))
       = Some (Inr (1, b2, RedisReply 2 [] 0 0
           (if es = [] then ?acc
            else Some ((case ?acc of None \<Rightarrow> [] | Some xs \<Rightarrow> xs) @ map wire_view es))))"
    "buf_wf b2" "content b2 = rest" "m_write_idx b2 = m_write_idx b1"
    using Cons.IH [of b1 m ?acc] b1(2-4) Cons.prems(1,3) le' by auto
  note m = this
  have "decode_members n b (RedisReply 2 [] 0 0 acc) (int (length (e # es)))
      = decode_members m b1 (RedisReply 2 [] 0 0 ?acc) (int (length es))"
    unfolding n decode_members.simps(2) b1(1) by (simp add: AddMember_def Let_def)
  with m b1(4) show ?case
    by (intro exI [of _ b2]) simp
qed

lemma decodes_array:
  assumes "\<forall>e \<in> set es. decodes e" "length es < 2 ^ 31"
  shows "decodes (RedisReply 2 str i d (Some es))"
  unfolding decodes_def
proof (intro allI impI, elim conjE)
  fix n b rest
  assume b: "buf_wf b" "m_write_idx b < 2 ^ 31"
    "content b = render (RedisReply 2 str i d (Some es)) @ rest"
    "length (render (RedisReply 2 str i d (Some es))) \<le> n"
  obtain m where n: "n = Suc m" using b(4) by (cases n) auto
  have c: "content b = CHR ''*'' # dec_str (length es) @ CRLF @ concat (map render es) @ rest"
    using b(3) by simp
  have len: "raw_toint64 (dec_str (length es)) = Some (int (length es))"
    using assms(2) by (intro raw_toint64_dec) simp
  obtain b1 where b1: "decode_reply (Suc m) b reply_new
      = decode_members m b1 (RedisReply REDIS_REPLY_ARRAY [] 0 0 None) (int (length es))"
    "buf_wf b1" "content b1 = concat (map render es) @ rest" "m_write_idx b1 = m_write_idx b"
    using decode_reply_line(6) [OF b(1,2) c dec_str_no_cr refl len, of m] by blast
  have "length (concat (map render es)) < m"
    using b(4) by (simp add: n)
  then show "\<exists>b'. decode_reply n b reply_new = Some (Inr (1, b', wire_view (RedisReply 2 str i d (Some es))))
      \<and> buf_wf b' \<and> content b' = rest \<and> m_write_idx b' = m_write_idx b"
    using decode_members_render [OF assms(1) b1(2) _ b1(3), of m None] b1 b(2) by (auto simp: n)
qed

lemma sendable_decodes: "sendable r \<Longrightarrow> decodes r"
proof (induction r)
  case (RedisReply ty str i d el)
  show ?case
  proof (cases "ty = 2 \<and> el \<noteq> None")
    case True
    then show ?thesis
      using RedisReply decodes_array by auto
  next
    case False
    show ?thesis
      unfolding decodes_def
    proof (intro allI impI, elim conjE)
      fix n b rest
      assume b: "buf_wf b" "m_write_idx b < 2 ^ 31"
        "content b = render (RedisReply ty str i d el) @ rest"
        "length (render (RedisReply ty str i d el)) \<le> n"
      obtain m where n: "n = Suc m"
        using b(4) render_length [of "RedisReply ty str i d el"] by (cases n) auto
      have str: "length str < 2 ^ 31 - 2" if "ty = 1"
        using b(2,3) that length_content [OF b(1)] by auto
      note L = decode_reply_line [OF b(1,2), where n = m]
      consider "ty = 1" | "ty = 2" "el = None" | "ty = 3" | "ty = 4" | "ty = 5" | "ty = 6"
        using False RedisReply.prems by (auto split: if_splits)
      then show "\<exists>b'. decode_reply n b reply_new
          = Some (Inr (1, b', wire_view (RedisReply ty str i d el)))
          \<and> buf_wf b' \<and> content b' = rest \<and> m_write_idx b' = m_write_idx b"
      proof cases
        case 1
        then show ?thesis
          using L(5) [where t = "CHR ''$''" and line = "dec_str (length str)" and s = str and rest' = rest] b(3) dec_str_no_cr str
            raw_toint64_dec [of "length str"]
          by (simp add: n)
      next
        case 2
        obtain b1 where "decode_reply (Suc m) b reply_new
            = decode_members m b1 (RedisReply REDIS_REPLY_ARRAY [] 0 0 None) 0"
          "buf_wf b1" "content b1 = rest" "m_write_idx b1 = m_write_idx b"
          using L(6) [where t = "CHR ''*''" and line = "''0''" and rest = rest and len = 0] b(3) 2 raw_toint64_dec [of 0] by auto
        moreover obtain k where "m = Suc k"
          using b(4) 2 n by (cases m) auto
        ultimately show ?thesis
          using 2 by (simp add: n)
      next
        case 3
        then show ?thesis
          using L(3) [where t = "CHR '':''" and line = "stringfromll i" and rest = rest and i = i] b(3) stringfromll_no_cr
            string2ll_stringfromll [of i] RedisReply.prems
          by (simp add: n raw_toint64_def)
      next
        case 4
        then show ?thesis
          using L(4) [where t = "CHR ''$''" and line = "''-1''" and rest = rest] b(3) raw_toint64_minus1
          by (simp add: n)
      next
        case 5
        then show ?thesis
          using L(1) [where t = "CHR ''+''" and rest = rest and line = "if i = 2001 then ''OK'' else if i = 2002 then ''PONG'' else str"]
            b(3) RedisReply.prems
          by (auto simp: n line_ok_def split: if_splits)
      next
        case 6
        then show ?thesis
          using L(2) [where t = "CHR ''-''" and line = str and rest = rest] b(3) RedisReply.prems
          by (auto simp: n line_ok_def)
      qed
    qed
  qed
qed

section \<open>The decoder returns\<close>

definition buf_small :: "Buffer \<Rightarrow> bool" where
  "buf_small b \<longleftrightarrow> m_write_idx b \<le> length (m_buffer b) \<and> length (m_buffer b) + 2 < 2 ^ 31"

definition shrinks :: "nat \<Rightarrow> Buffer \<Rightarrow> (crash + int \<times> Buffer \<times> RedisReply) option \<Rightarrow> bool" where
  "shrinks k b res \<longleftrightarrow> (case res of
       None \<Rightarrow> False
     | Some (Inl e) \<Rightarrow> True
     | Some (Inr (ret, b', m)) \<Rightarrow>
         ret \<ge> 0 \<longrightarrow> buf_small b'
           \<and> ReadableBytes b' + (if ret = 0 then 0 else k) \<le> ReadableBytes b)"

lemma shrinks_simps [simp]:
  "shrinks k b (Some (Inl e))" "\<not> shrinks k b None"
  "shrinks k b (Some (Inr (ret, b', m))) \<longleftrightarrow>
     (ret \<ge> 0 \<longrightarrow> buf_small b'
        \<and> ReadableBytes b' + (if ret = 0 then 0 else k) \<le> ReadableBytes b)"
  by (simp_all add: shrinks_def)

lemma IndexOf_found:
  assumes "buf_small b" "IndexOf b CRLF \<noteq> - 1"
  shows "int (m_read_idx b) \<le> IndexOf b CRLF \<and> IndexOf b CRLF + 2 \<le> int (m_write_idx b)"
proof -
  obtain i where i: "index_of_loop (m_buffer b) CR [LF] (m_read_idx b) (m_write_idx b) = Some i"
    "IndexOf b CRLF = c_int (int i)"
    using assms(2) by (auto simp: IndexOf_def IndexOf_range_def split: if_splits option.splits)
  have "m_read_idx b \<le> i \<and> i + 2 \<le> m_write_idx b"
    using index_of_loop_sound [OF i(1)] assms(1) by (auto simp: buf_small_def)
  then show ?thesis
    using assms(1) i(2) by (auto simp: buf_small_def)
qed

lemma after_line_shrinks:
  assumes "buf_small b" "IndexOf b CRLF \<noteq> - 1" "ReadByte b = Some (t, b1)"
    and "after = SetReadIndex b1 (nat (IndexOf b CRLF) + 2)"
  shows "buf_small after \<and> ReadableBytes after + 2 \<le> ReadableBytes b"
proof -
  have "m_buffer b1 = m_buffer b" "m_write_idx b1 = m_write_idx b"
    using assms(3) by (auto simp: ReadByte_def Buffer_Read_def split: if_splits)
  then show ?thesis
    using IndexOf_found [OF assms(1,2)] assms(1,4)
    by (auto simp: buf_small_def SetReadIndex_def ReadableBytes_def Readable_def)
qed

lemma skip_bulk_shrinks:
  assumes "buf_small after" "read_raw after len = Inr s"
  shows "buf_small (SkipBytes after (c_size (len + 2)))
     \<and> ReadableBytes (SkipBytes after (c_size (len + 2))) \<le> ReadableBytes after"
proof -
  have le: "m_read_idx after + c_size len \<le> length (m_buffer after)"
    using assms(2) by (auto simp: read_raw_def split: if_splits)
  have "int (c_size len) = len mod 2 ^ 64"
    by (simp add: c_size_def)
  moreover have "int (c_size len) + 2 < 2 ^ 31"
    using le assms(1) by (simp add: buf_small_def)
  moreover have "(len + 2) mod 2 ^ 64 = (len mod 2 ^ 64 + 2) mod 2 ^ 64"
    by (simp add: mod_simps)
  ultimately have "int (c_size (len + 2)) = int (c_size len) + 2"
    by (simp add: c_size_def)
  then have "c_size (len + 2) = c_size len + 2" by linarith
  moreover have "c_int (int (c_size len + 2)) = int (c_size len + 2)"
    using \<open>int (c_size len) + 2 < 2 ^ 31\<close> by (intro c_int_nat) simp
  ultimately have "SkipBytes after (c_size (len + 2))
      = after\<lparr>m_read_idx := m_read_idx after + (c_size len + 2)\<rparr>"
    unfolding SkipBytes_def AdvanceReadIndex_def by (simp only: size_add_nat)
  then show ?thesis
    using assms(1) by (auto simp: buf_small_def ReadableBytes_def Readable_def)
qed

lemma decode_reply_shrinks:
  "(buf_small b \<and> ReadableBytes b < n \<longrightarrow> shrinks 2 b (decode_reply n b msg))
   \<and> (buf_small b \<and> ReadableBytes b + 1 < n \<longrightarrow> shrinks 0 b (decode_members n b msg len))"
proof (induction n arbitrary: b msg len)
  case (Suc n)
  have one: "shrinks 2 b (decode_reply (Suc n) b msg)"
    if b: "buf_small b" "ReadableBytes b < Suc n"
  proof (cases "IndexOf b CRLF = - 1 \<or> ReadByte b = None")
    case True
    then show ?thesis using b(1) by (auto simp: Let_def)
  next
    case False
    then obtain t b1 where rb: "ReadByte b = Some (t, b1)" and idx: "IndexOf b CRLF \<noteq> - 1"
      by auto
    define after where "after = SetReadIndex b1 (nat (IndexOf b CRLF) + 2)"
    have a: "buf_small after" "ReadableBytes after + 2 \<le> ReadableBytes b"
      using after_line_shrinks [OF b(1) idx rb after_def] by auto
    have mem: "shrinks 2 b (decode_members n after m l)" for m l
    proof -
      have "shrinks 0 after (decode_members n after m l)"
        using Suc.IH [of after] a b(2) by simp
      then show ?thesis
        using a(2) by (auto simp: shrinks_def split: option.splits sum.splits prod.splits)
    qed
    have skip: "shrinks 2 b (Some (Inr (1, SkipBytes after (c_size (l + 2)), m)))"
      if "read_raw after l = Inr s" for l s m
      using skip_bulk_shrinks [OF a(1) that] a(2) by simp
    show ?thesis
      using rb idx a mem skip
      by (simp add: Let_def after_def [symmetric, simplified] split: option.splits sum.splits)
  qed
  have two: "shrinks 0 b (decode_members (Suc n) b msg len)"
    if b: "buf_small b" "ReadableBytes b + 1 < Suc n"
  proof -
    have d: "shrinks 2 b (decode_reply n b reply_new)"
      using Suc.IH [of b reply_new] b by simp
    have step: "shrinks 0 b (decode_members n b' m l)"
      if "buf_small b'" "ReadableBytes b' + 2 \<le> ReadableBytes b" for b' m l
    proof -
      have "shrinks 0 b' (decode_members n b' m l)"
        using Suc.IH [of b'] that b(2) by simp
      then show ?thesis
        using that(2) by (auto simp: shrinks_def split: option.splits sum.splits prod.splits)
    qed
    show ?thesis
      using d step b(1)
      by (auto simp: Let_def shrinks_def [of 2] split: option.splits sum.splits)
  qed
  show ?case using one two by blast
qed auto

lemma decode_reply_total:
  "buf_small b \<Longrightarrow> \<exists>res. decode_reply (Suc (ReadableBytes b)) b msg = Some res"
  using decode_reply_shrinks [of b "Suc (ReadableBytes b)" msg] by (auto simp: shrinks_def split: option.splits)

section \<open>Properties of the reply codec\<close>

lemma skip_crlf_stays:
  assumes "buf_wf b" "content b = c # xs" "c \<noteq> CR" "c \<noteq> LF"
  shows "skip_crlf b = Some b"
proof -
  have "m_read_idx b < length (m_buffer b)"
    using length_content [OF assms(1)] assms(1,2) by (auto simp: buf_wf_def)
  moreover have "m_buffer b ! m_read_idx b = c"
    using assms(1,2) take_drop_content [OF assms(1), of 1] calculation
    by (simp add: take_Suc hd_drop_conv_nth)
  ultimately show ?thesis
    using assms(3,4) by (simp add: skip_crlf.simps [of b])
qed

lemma render_hd: "\<exists>c xs. render r = c # xs \<and> c \<noteq> CR \<and> c \<noteq> LF"
  by (cases r) (auto split: option.splits)

text \<open>
  C15: Every reply the protocol can carry survives the wire: encoding it into an empty buffer and
  decoding the result gives back the reply as the peer is meant to see it (nested arrays, nil,
  bulk strings with arbitrary bytes, integers over the whole 64-bit range, status and error
  lines), consumes exactly the bytes written and keeps the channel open.
\<close>

theorem reply_roundtrip:
  assumes "sendable r" and "buf_wf buf" and "content buf = []"
    and "m_write_idx (snd (Reply_Encode u dtoa buf r)) < 2 ^ 31"
  shows "fst (Reply_Encode u dtoa buf r)
    \<and> (\<exists>b'. ReplyDecoder_Decode (snd (Reply_Encode u dtoa buf r))
             = Inr (True, False, b', wire_view r) \<and> buf_wf b' \<and> content b' = [])"
proof -
  obtain b where enc: "Reply_Encode u dtoa buf r = (True, b)" and b: "buf_wf b" "content b = render r"
    using Reply_Encode_append [OF assms(1,2), of u dtoa] assms(3) by auto
  have "length (render r) \<le> Suc (ReadableBytes b)"
    using b by simp
  moreover have "decodes r" using assms(1) by (rule sendable_decodes)
  ultimately obtain b' where
    "decode_reply (Suc (ReadableBytes b)) b reply_new = Some (Inr (1, b', wire_view r))"
    "buf_wf b'" "content b' = []"
    using b assms(4) unfolding decodes_def enc by fastforce
  moreover have "skip_crlf b = Some b"
    using render_hd [of r] b skip_crlf_stays by metis
  ultimately show ?thesis
    by (simp add: enc ReplyDecoder_Decode_def)
qed

text \<open>
  C33: The reply decoder always returns: on every buffer whose block is below 2 GiB it reaches a
  result (a reply, a request for more bytes, a protocol error or a crash) with as much recursion
  as there are readable bytes, and a decoded reply has consumed at least two of them.
\<close>

theorem decode_reply_returns:
  assumes "buf_small b"
  shows "\<exists>res. decode_reply (Suc (ReadableBytes b)) b msg = Some res
    \<and> (\<forall>ret b' m. res = Inr (ret, b', m) \<longrightarrow> ret > 0 \<longrightarrow> ReadableBytes b' + 2 \<le> ReadableBytes b)"
  using decode_reply_shrinks [of b "Suc (ReadableBytes b)" msg] assms
  by (auto simp: shrinks_def split: option.splits sum.splits)

text \<open>
  A floating-point reply is never sent. The code of the double type does not fit the 8-bit
  type field, so \<open>fill_double_reply\<close> stores another code and the encoder refuses the reply: nothing
  is appended to the buffer, whatever the value.
\<close>

theorem double_reply_not_encoded:
  "Reply_Encode u dtoa buf (fill_double_reply v r) = (False, buf)"
  by (simp add: fill_double_reply_def)

text \<open>
  The reply decoder does not wait for the members of an array. On the bytes of an array
  header alone it reports a decoded reply, an array with one empty member, although not one of
  the announced members has arrived.
\<close>

theorem truncated_array_accepted:
  assumes "buf_wf b" "m_write_idx b < 2 ^ 31" "0 < n" "n < 2 ^ 31"
    and "content b = ''*'' @ dec_str n @ CRLF"
  shows "\<exists>b'. ReplyDecoder_Decode b
    = Inr (True, False, b', RedisReply REDIS_REPLY_ARRAY [] 0 0 (Some [reply_new]))"
proof -
  have len: "raw_toint64 (dec_str n) = Some (int n)"
    using assms(4) by (intro raw_toint64_dec) simp
  have c: "content b = CHR ''*'' # dec_str n @ CRLF @ []"
    using assms(5) by simp
  define m where "m = ReadableBytes b"
  obtain k where k: "m = Suc (Suc k)"
    using assms(1,5) by (cases m; cases "m - 1") (auto simp: m_def)
  obtain b1 where b1: "decode_reply (Suc m) b reply_new
      = decode_members m b1 (RedisReply REDIS_REPLY_ARRAY [] 0 0 None) (int n)"
    "buf_wf b1" "content b1 = []"
    using decode_reply_line(6) [OF assms(1,2) c dec_str_no_cr refl len] by blast
  have "IndexOf b1 CRLF = - 1"
    using length_content [OF b1(2)] b1(3) by (simp add: IndexOf_def IndexOf_range_def)
  then have "decode_reply (Suc m) b reply_new
      = Some (Inr (1, b1, RedisReply REDIS_REPLY_ARRAY [] 0 0 (Some [reply_new])))"
    unfolding b1(1) unfolding k using assms(3) by (simp add: AddMember_def Let_def)
  moreover have "skip_crlf b = Some b"
    using assms(1,5) by (intro skip_crlf_stays [of b "CHR ''*''"]) auto
  ultimately show ?thesis
    by (simp add: ReplyDecoder_Decode_def m_def)
qed

section \<open>Witnesses\<close>

definition sample_reply :: RedisReply where
  "sample_reply = fill_str_array_reply [''a'', ''b''] reply_new"

lemma sample_reply_eq:
  "sample_reply = RedisReply 2 [] 0 0 (Some [RedisReply 1 ''a'' 0 0 None, RedisReply 1 ''b'' 0 0 None])"
  by (simp add: sample_reply_def fill_str_array_reply_def AddMember_def fill_str_reply_def
      reply_new_def)

definition text_buffer :: "string \<Rightarrow> Buffer" where
  "text_buffer s = Buffer_wrap s 0 (length s)"

lemma text_buffer [simp]:
  "buf_wf (text_buffer s)" "content (text_buffer s) = s" "m_write_idx (text_buffer s) = length s"
  "length (m_buffer (text_buffer s)) = length s" "m_read_idx (text_buffer s) = 0"
  by (simp_all add: text_buffer_def Buffer_wrap_def buf_wf_def content_def region_def)

lemma sample_reply_sendable: "sendable sample_reply"
  by (simp add: sample_reply_eq)

lemma sample_reply_size:
  "m_write_idx (snd (Reply_Encode u dtoa Buffer_new sample_reply)) < 2 ^ 31"
proof -
  obtain b where "Reply_Encode u dtoa Buffer_new sample_reply = (True, b)" "buf_wf b"
    "content b = render sample_reply" "m_read_idx b = 0"
    using Reply_Encode_append [OF sample_reply_sendable Buffer_new_wf(1), of u dtoa]
    by auto
  moreover have "length (dec_str (Suc 0)) \<le> 10" "length (dec_str (Suc (Suc 0))) \<le> 10"
    by (simp_all add: length_dec_str_small)
  ultimately show ?thesis
    using write_idx_content [of b] by (simp add: sample_reply_eq)
qed

theorem reply_roundtrip_witness:
  "sendable sample_reply
   \<and> (\<exists>b'. ReplyDecoder_Decode (snd (Reply_Encode (\<lambda>_. NUL) (\<lambda>_. []) Buffer_new sample_reply))
          = Inr (True, False, b', wire_view sample_reply))"
  using reply_roundtrip [OF sample_reply_sendable Buffer_new_wf(1,2), of "\<lambda>_. NUL" "\<lambda>_. []"]
    sample_reply_size [of "\<lambda>_. NUL" "\<lambda>_. []"] sample_reply_sendable by auto

theorem decode_reply_returns_witness:
  "\<exists>res. decode_reply (Suc (ReadableBytes (text_buffer ''+OK''))) (text_buffer ''+OK'') reply_new
     = Some res"
proof -
  have "buf_small (text_buffer ''+OK'')" by (simp add: buf_small_def)
  from decode_reply_returns [OF this, of reply_new] show ?thesis by blast
qed

theorem truncated_array_accepted_witness:
  "\<exists>b'. ReplyDecoder_Decode (text_buffer (''*'' @ dec_str 2 @ CRLF))
     = Inr (True, False, b', RedisReply REDIS_REPLY_ARRAY [] 0 0 (Some [reply_new]))"
proof (rule truncated_array_accepted [where n = 2])
  show "m_write_idx (text_buffer (''*'' @ dec_str 2 @ CRLF)) < 2 ^ 31"
    using length_dec_str_small [of 2] by simp
qed simp_all

end
