(* ===== verification/Command_Codec.thy ===== *)
theory Command_Codec
  imports Redis_Reply
begin

text \<open>
  The request side of the protocol: \<open>RedisCommandFrame\<close> of
  \<open>common/channel/codec/redis_command.hpp\<close> and the decoder and encoder of
  \<open>redis_command_codec.cpp\<close>. The decoder works on the raw block of the input buffer, so a length
  line is scanned by \<open>strtol\<close> without regard to the write index; an access outside the block and a
  string of an impossible length are the two ways it can crash. The main results are the round
  trip of a command, the behaviour on every strict prefix of one, and the crash on a bulk length
  of \<open>-2\<close>.
\<close>

section \<open>Frames\<close>

text \<open>
  \<open>m_raw_msg\<close> wraps the bytes of the request inside the input buffer without copying them; the
  record keeps the bytes it refers to at the moment of decoding.
\<close>

record RedisCommandFrame =
  frame_type :: nat
  m_is_inline :: bool
  m_cmd_seted :: bool
  m_cmd :: string
  m_args :: "string list"
  m_raw_msg :: Buffer

definition RedisCommandFrame_new :: "string \<Rightarrow> RedisCommandFrame" where
  "RedisCommandFrame_new cmd = \<lparr>frame_type = 0, m_is_inline = False, m_cmd_seted = False,
     m_cmd = cmd, m_args = [], m_raw_msg = Buffer_new\<rparr>"

text \<open>
  Construction from an argument array: the first element is the command. \<open>front\<close> of an empty
  array is undefined behaviour, so there is no frame for it.
\<close>

fun RedisCommandFrame_args :: "string list \<Rightarrow> RedisCommandFrame option" where
  "RedisCommandFrame_args [] = None"
| "RedisCommandFrame_args (c # cs) =
     Some (RedisCommandFrame_new []\<lparr>m_cmd := c, m_args := cs\<rparr>)"

definition FillNextArgument ::
    "RedisCommandFrame \<Rightarrow> Buffer \<Rightarrow> int \<Rightarrow> crash + RedisCommandFrame \<times> Buffer" where
  "FillNextArgument f buf len =
     (case read_raw buf len of
        Inl e \<Rightarrow> Inl e
      | Inr s \<Rightarrow>
          let buf = AdvanceReadIndex buf (c_int len)
          in if m_cmd_seted f then Inr (f\<lparr>m_args := m_args f @ [s]\<rparr>, buf)
             else Inr (f\<lparr>m_cmd := m_cmd f @ s, m_cmd_seted := True\<rparr>, buf))"

definition GetArgument :: "RedisCommandFrame \<Rightarrow> nat \<Rightarrow> string option" where
  "GetArgument f index =
     (if index \<ge> length (m_args f) then None else Some (m_args f ! index))"

definition AddArg :: "RedisCommandFrame \<Rightarrow> string \<Rightarrow> RedisCommandFrame" where
  "AddArg f arg = f\<lparr>m_args := m_args f @ [arg]\<rparr>"

definition SetType :: "RedisCommandFrame \<Rightarrow> nat \<Rightarrow> RedisCommandFrame" where
  "SetType f t = f\<lparr>frame_type := t\<rparr>"

definition SetCommand :: "RedisCommandFrame \<Rightarrow> string \<Rightarrow> RedisCommandFrame" where
  "SetCommand f cmd = f\<lparr>m_cmd := cmd, m_raw_msg := Buffer_Clear (m_raw_msg f)\<rparr>"

definition Frame_Clear :: "RedisCommandFrame \<Rightarrow> RedisCommandFrame" where
  "Frame_Clear f = f\<lparr>m_cmd_seted := False, m_cmd := [], m_args := []\<rparr>"

fun join_args :: "string list \<Rightarrow> string" where
  "join_args [] = []"
| "join_args [a] = a"
| "join_args (a # b # as) = a @ '' '' @ join_args (b # as)"

definition Frame_ToString :: "RedisCommandFrame \<Rightarrow> string" where
  "Frame_ToString f = m_cmd f @ '' '' @ join_args (m_args f)"

text \<open>
  \<open>SetFullCommand\<close> formats into a block of 1024 bytes (at most 1022 characters survive) and
  splits the text at spaces, except that a token that begins with a quote is merged with the
  following ones up to a token that ends with a quote.
\<close>

fun strtok_spaces :: "string \<Rightarrow> string \<Rightarrow> string list" where
  "strtok_spaces cur [] = (if cur = [] then [] else [cur])"
| "strtok_spaces cur (c # cs) =
     (if c = CHR '' '' then (if cur = [] then [] else [cur]) @ strtok_spaces [] cs
      else strtok_spaces (cur @ [c]) cs)"

fun merge_tokens :: "string \<Rightarrow> string list \<Rightarrow> string list" where
  "merge_tokens merge_str [] = []"
| "merge_tokens merge_str (pch # rest) =
     (if merge_str \<noteq> []
      then if last pch = CHR 0x22
           then (merge_str @ '' '' @ butlast pch) # merge_tokens [] rest
           else merge_tokens (merge_str @ '' '' @ pch) rest
      else if hd pch = CHR 0x22 then merge_tokens (tl pch) rest
      else pch # merge_tokens [] rest)"

definition SetFullCommand :: "RedisCommandFrame \<Rightarrow> string \<Rightarrow> RedisCommandFrame option" where
  "SetFullCommand f text =
     (case merge_tokens [] (strtok_spaces [] (take 1022 (c_str text))) of
        [] \<Rightarrow> None
      | c # cs \<Rightarrow> Some (f\<lparr>m_cmd := c, m_args := cs\<rparr>))"

section \<open>Inline requests\<close>

text \<open>
  The loop over the words of an inline request that ends at \<open>index\<close>. Each round consumes at
  least one byte, so as much fuel as readable bytes and one more is enough
  (\<open>inline_loop_total\<close>).
\<close>

fun inline_loop ::
    "nat \<Rightarrow> Buffer \<Rightarrow> RedisCommandFrame \<Rightarrow> int \<Rightarrow> (crash + Buffer \<times> RedisCommandFrame) option" where
  "inline_loop 0 buffer frame index = None"
| "inline_loop (Suc fuel) buffer frame index =
     (case ReadByte buffer of
        None \<Rightarrow> Some (Inr (buffer, frame))
      | Some (ch, buffer) \<Rightarrow>
          if ch = CHR '' '' then inline_loop fuel buffer frame index
          else
            let buffer = AdvanceReadIndex buffer (- 1);
                current = c_int (int (m_read_idx buffer))
            in if current = index then Some (Inr (AdvanceReadIndex buffer 2, frame))
               else
                 let space_index = IndexOf_range buffer '' '' (c_size current) (c_size index)
                 in if space_index = - 1 then Some (Inr (buffer, frame))
                    else case FillNextArgument frame buffer (c_int (space_index - current)) of
                           Inl e \<Rightarrow> Some (Inl e)
                         | Inr (frame, buffer) \<Rightarrow>
                             inline_loop fuel (AdvanceReadIndex buffer 1) frame index)"

definition ProcessInlineBuffer ::
    "Buffer \<Rightarrow> RedisCommandFrame \<Rightarrow> crash + int \<times> Buffer \<times> RedisCommandFrame" where
  "ProcessInlineBuffer buffer frame =
     (let index = IndexOf buffer CRLF
      in if index = - 1 then Inr (0, buffer, frame)
         else case the (inline_loop (Suc (ReadableBytes buffer)) buffer frame index) of
                Inl e \<Rightarrow> Inl e
              | Inr (buffer, frame) \<Rightarrow>
                  let current = c_int (int (m_read_idx buffer))
                  in if current < index
                     then case FillNextArgument frame buffer (c_int (index - current)) of
                            Inl e \<Rightarrow> Inl e
                          | Inr (frame, buffer) \<Rightarrow> Inr (1, AdvanceReadIndex buffer 2, frame)
                     else Inr (1, buffer, frame))"

section \<open>Multibulk requests\<close>

text \<open>
  \<open>scan_stop s\<close> is the first byte \<open>strtol\<close> does not take as part of a number: it has looked at
  every byte up to and including that one.
\<close>

definition scan_stop :: "string \<Rightarrow> nat" where
  "scan_stop s =
     (let ws = length (takeWhile is_space s);
          r = drop ws s;
          sg = (if r \<noteq> [] \<and> (hd r = CHR ''-'' \<or> hd r = CHR ''+'') then 1 else 0)
      in ws + sg + length (takeWhile is_digit (drop sg r)))"

definition strtol_raw :: "Buffer \<Rightarrow> crash + int \<times> nat" where
  "strtol_raw b =
     (let s = drop (m_read_idx b) (m_buffer b)
      in if scan_stop s < length s then Inr (strtoll s) else Inl OutOfBounds)"

definition readBulkLen :: "Buffer \<Rightarrow> crash + int \<times> int \<times> Buffer" where
  "readBulkLen buffer =
     (case strtol_raw buffer of
        Inl e \<Rightarrow> Inl e
      | Inr (tmp, eptr) \<Rightarrow>
          if eptr > c_size (int (ReadableBytes buffer) - 2) then Inr (0, 0, buffer)
          else case (raw_at buffer (int eptr), raw_at buffer (int eptr + 1)) of
                 (Some c, Some d) \<Rightarrow>
                   if c \<noteq> CR \<or> d \<noteq> LF then Inr (- 1, 0, buffer)
                   else Inr (1, c_int tmp, AdvanceReadIndex buffer (c_int (int eptr + 2)))
               | _ \<Rightarrow> Inl OutOfBounds)"

type_synonym decode_step = "crash + int \<times> Buffer \<times> RedisCommandFrame \<times> string"

text \<open>
  The loop over the announced arguments. An argument that is decoded consumes at least two
  bytes, so as much fuel as readable bytes and one more is enough (\<open>bulk_args_total\<close>), however many
  arguments the header announces.
\<close>

fun bulk_args :: "nat \<Rightarrow> Buffer \<Rightarrow> RedisCommandFrame \<Rightarrow> int \<Rightarrow> decode_step option" where
  "bulk_args 0 buffer frame remaining = None"
| "bulk_args (Suc fuel) buffer frame remaining =
     (if remaining \<le> 0 then Some (Inr (1, buffer, frame, []))
      else if ReadableBytes buffer < 4 then Some (Inr (0, buffer, frame, []))
      else case ReadByte buffer of
             None \<Rightarrow> None
           | Some (expected, buffer) \<Rightarrow>
               if expected \<noteq> CHR ''$''
               then case raw_at buffer 0 of
                      None \<Rightarrow> Some (Inl OutOfBounds)
                    | Some c \<Rightarrow> Some (Inr (- 1, buffer, frame,
                        c_str (''Protocol error: expected '' @ [CHR 0x27] @ ''$'' @ [CHR 0x27]
                               @ '', , got '' @ [CHR 0x27, c, CHR 0x27])))
               else case readBulkLen buffer of
                      Inl e \<Rightarrow> Some (Inl e)
                    | Inr (ret, arglen, buffer) \<Rightarrow>
                        if ret = 0 then Some (Inr (0, buffer, frame, []))
                        else if ret < 0
                        then Some (Inr (- 1, buffer, frame,
                               ''Protocol error: bulk length can not be negative''))
                        else if arglen > 512 * 1024 * 1024
                        then Some (Inr (- 1, buffer, frame,
                               ''Protocol error: invalid bulk length''))
                        else if ReadableBytes buffer < c_size (arglen + 2)
                        then Some (Inr (0, buffer, frame, []))
                        else case (raw_at buffer arglen, raw_at buffer (arglen + 1)) of
                               (Some c, Some d) \<Rightarrow>
                                 if c \<noteq> CR \<or> d \<noteq> LF
                                 then Some (Inr (- 1, buffer, frame,
                                   ''Protocol error: expected CRLF at bulk length end''))
                                 else (case FillNextArgument frame buffer arglen of
                                         Inl e \<Rightarrow> Some (Inl e)
                                       | Inr (frame, buffer) \<Rightarrow>
                                           bulk_args fuel (AdvanceReadIndex buffer 2) frame
                                             (remaining - 1))
                             | _ \<Rightarrow> Some (Inl OutOfBounds))"

definition ProcessMultibulkBuffer :: "Buffer \<Rightarrow> RedisCommandFrame \<Rightarrow> decode_step" where
  "ProcessMultibulkBuffer buffer frame =
     (if ReadableBytes buffer < 3 then Inr (0, buffer, frame, [])
      else case readBulkLen buffer of
             Inl e \<Rightarrow> Inl e
           | Inr (ret, multibulklen, buffer) \<Rightarrow>
               if ret = 0 then Inr (0, buffer, frame, [])
               else if ret < 0
               then Inr (- 1, buffer, frame, ''Protocol error: expected CRLF at bulk length end'')
               else if multibulklen > 512 * 1024 * 1024
               then Inr (- 1, buffer, frame, ''Protocol error: invalid multibulk length'')
               else the (bulk_args (Suc (ReadableBytes buffer)) buffer frame multibulklen))"

section \<open>The decoder and the encoder\<close>

definition Command_Decode ::
    "Buffer \<Rightarrow> RedisCommandFrame \<Rightarrow> crash + bool \<times> Buffer \<times> RedisCommandFrame \<times> string" where
  "Command_Decode buffer msg =
     (case skip_crlf buffer of
        None \<Rightarrow> Inl OutOfBounds
      | Some buffer \<Rightarrow>
          let mark_read_index = m_read_idx buffer
          in case ReadByte buffer of
               None \<Rightarrow> Inr (False, SetReadIndex buffer mark_read_index, msg, [])
             | Some (ch, buffer) \<Rightarrow>
                 let result =
                   (if ch = CHR ''*''
                    then ProcessMultibulkBuffer buffer (msg\<lparr>m_is_inline := False\<rparr>)
                    else case ProcessInlineBuffer (AdvanceReadIndex buffer (- 1))
                                (msg\<lparr>m_is_inline := True\<rparr>) of
                           Inl e \<Rightarrow> Inl e
                         | Inr (ret, buffer, msg) \<Rightarrow> Inr (ret, buffer, msg, []))
                 in case result of
                      Inl e \<Rightarrow> Inl e
                    | Inr (ret, buffer, msg, err) \<Rightarrow>
                        if ret > 0
                        then Inr (True, buffer,
                               msg\<lparr>m_raw_msg := snd (WrapReadableContent (m_raw_msg msg)
                                     (region (m_buffer buffer) mark_read_index (m_read_idx buffer))
                                     (m_read_idx buffer - mark_read_index))\<rparr>, err)
                        else Inr (False,
                               if ret = 0 then SetReadIndex buffer mark_read_index else buffer,
                               Frame_Clear msg, err))"

fun encode_args :: "(nat \<Rightarrow> char) \<Rightarrow> Buffer \<Rightarrow> string list \<Rightarrow> Buffer" where
  "encode_args u buf [] = buf"
| "encode_args u buf (arg # args) =
     encode_args u
       (Buffer_Write u
          (Buffer_Write u (Printf u buf (''$'' @ printf_d (int (length arg)) @ CRLF)) arg) CRLF)
       args"

definition Command_Encode :: "(nat \<Rightarrow> char) \<Rightarrow> Buffer \<Rightarrow> RedisCommandFrame \<Rightarrow> Buffer" where
  "Command_Encode u buf cmd =
     (let buf = Printf u buf (''*'' @ printf_d (int (length (m_args cmd) + 1)) @ CRLF);
          buf = Printf u buf (''$'' @ printf_d (int (length (m_cmd cmd))) @ CRLF);
          buf = Buffer_Write u buf (m_cmd cmd);
          buf = Buffer_Write u buf CRLF
      in encode_args u buf (m_args cmd))"

section \<open>What the encoder writes\<close>

definition render_bulk :: "string \<Rightarrow> string" where
  "render_bulk s = ''$'' @ dec_str (length s) @ CRLF @ s @ CRLF"

definition render_command :: "string \<Rightarrow> string list \<Rightarrow> string" where
  "render_command cmd args =
     ''*'' @ dec_str (length args + 1) @ CRLF @ concat (map render_bulk (cmd # args))"

text \<open>The requests the decoder accepts: at most 512 MiB an argument, at most 512 Mi arguments.\<close>

definition request_ok :: "string \<Rightarrow> string list \<Rightarrow> bool" where
  "request_ok cmd args \<longleftrightarrow> length args < 512 * 1024 * 1024
     \<and> (\<forall>a \<in> set (cmd # args). length a \<le> 512 * 1024 * 1024)"

lemma header_line:
  assumes "n < 2 ^ 31" "buf_wf b"
  shows "buf_wf (Printf u b ([c] @ printf_d (int n) @ CRLF))"
    and "content (Printf u b ([c] @ printf_d (int n) @ CRLF)) = content b @ [c] @ dec_str n @ CRLF"
    and "m_read_idx (Printf u b ([c] @ printf_d (int n) @ CRLF)) = m_read_idx b"
proof -
  have "length ([c] @ dec_str n @ CRLF) < 2 ^ 31"
    using length_dec_str_small [of n] assms(1) by simp
  then show "buf_wf (Printf u b ([c] @ printf_d (int n) @ CRLF))"
    "content (Printf u b ([c] @ printf_d (int n) @ CRLF)) = content b @ [c] @ dec_str n @ CRLF"
    "m_read_idx (Printf u b ([c] @ printf_d (int n) @ CRLF)) = m_read_idx b"
    using assms by (simp_all add: Printf_wf)
qed

lemma encode_args_append:
  assumes "buf_wf b" "\<forall>a \<in> set args. length a < 2 ^ 31"
  shows "buf_wf (encode_args u b args)
    \<and> content (encode_args u b args) = content b @ concat (map render_bulk args)
    \<and> m_read_idx (encode_args u b args) = m_read_idx b"
  using assms
proof (induction args arbitrary: b)
  case (Cons a args)
  note h = header_line [of "length a" b u "CHR ''$''"]
  show ?case
    using Cons.IH [of "Buffer_Write u (Buffer_Write u (Printf u b ([CHR ''$''] @ printf_d (int (length a)) @ CRLF)) a) CRLF"]
      h Cons.prems
    by (simp add: Buffer_Write_wf render_bulk_def)
qed simp

lemma Command_Encode_append:
  assumes "buf_wf b" "request_ok (m_cmd f) (m_args f)"
  shows "buf_wf (Command_Encode u b f)"
    and "content (Command_Encode u b f) = content b @ render_command (m_cmd f) (m_args f)"
proof -
  have len: "length (m_args f) + 1 < 2 ^ 31" "length (m_cmd f) < 2 ^ 31"
    "\<forall>a \<in> set (m_args f). length a < 2 ^ 31"
    using assms(2) by (auto simp: request_ok_def)
  let ?h = "Printf u b ([CHR ''*''] @ printf_d (int (length (m_args f) + 1)) @ CRLF)"
  let ?c = "Printf u ?h ([CHR ''$''] @ printf_d (int (length (m_cmd f))) @ CRLF)"
  note h = header_line [OF len(1) assms(1), of u "CHR ''*''"]
  note c = header_line [OF len(2) h(1), of u "CHR ''$''"]
  let ?w = "Buffer_Write u (Buffer_Write u ?c (m_cmd f)) CRLF"
  have w: "buf_wf ?w" "content ?w = content b @ [CHR ''*''] @ dec_str (length (m_args f) + 1) @ CRLF
      @ render_bulk (m_cmd f)"
    using h(2) c(1,2) by (simp_all add: Buffer_Write_wf render_bulk_def)
  have e: "Command_Encode u b f = encode_args u ?w (m_args f)"
    by (simp add: Command_Encode_def Let_def)
  show "buf_wf (Command_Encode u b f)"
    "content (Command_Encode u b f) = content b @ render_command (m_cmd f) (m_args f)"
    unfolding e using encode_args_append [OF w(1) len(3), of u] w(2)
    by (simp_all add: render_command_def)
qed

section \<open>Reading a length line\<close>

lemma raw_tail:
  "buf_wf b \<Longrightarrow> drop (m_read_idx b) (m_buffer b) = content b @ drop (m_write_idx b) (m_buffer b)"
  by (metis add_diff_inverse_nat append_take_drop_id buf_wf_def content_def drop_drop leD
      add.commute region_def)

lemma raw_at_content:
  assumes "buf_wf b" "i < length (content b)"
  shows "raw_at b (int i) = Some (content b ! i)"
proof -
  have "m_read_idx b + i < m_write_idx b" "m_write_idx b \<le> length (m_buffer b)"
    using assms length_content [of b] by (auto simp: buf_wf_def)
  moreover have "nat (int (m_read_idx b) + int i) = m_read_idx b + i" by simp
  ultimately show ?thesis
    by (simp add: raw_at_def Let_def content_def)
qed

lemma scan_stop_digits:
  assumes "ds \<noteq> []" "\<forall>c \<in> set ds. is_digit c"
  shows "scan_stop (ds @ rest) = length ds + length (takeWhile is_digit rest)"
proof -
  obtain d ds' where ds: "ds = d # ds'" using assms(1) by (cases ds) auto
  then have d: "is_digit d" using assms(2) by simp
  have "takeWhile is_digit (ds @ rest) = ds @ takeWhile is_digit rest"
    using assms(2) by (simp add: takeWhile_append2)
  then show ?thesis
    using digit_not_space [OF d] digit_not_sign [OF d]
    by (simp add: scan_stop_def Let_def ds)
qed

lemma strto_end: "snd (snd (strto_scan s)) \<noteq> 0 \<Longrightarrow> snd (snd (strto_scan s)) = scan_stop s"
  by (auto simp: strto_scan_def scan_stop_def Let_def split: if_splits)

lemma CR_not_digit [simp]: "\<not> is_digit CR" "\<not> is_digit LF"
  by (simp_all add: is_digit_def)

lemma readBulkLen_full:
  assumes "buf_wf b" "m_write_idx b < 2 ^ 31" "n < 2 ^ 31" "content b = dec_str n @ CRLF @ rest"
  shows "readBulkLen b = Inr (1, int n, b\<lparr>m_read_idx := m_read_idx b + length (dec_str n @ CRLF)\<rparr>)"
proof -
  let ?k = "length (dec_str n)"
  define s where "s = drop (m_read_idx b) (m_buffer b)"
  have s: "s = dec_str n @ CR # (LF # rest @ drop (m_write_idx b) (m_buffer b))"
    using raw_tail [OF assms(1)] assms(4) by (simp add: s_def)
  have scan: "strto_scan s = (False, n, ?k)"
    unfolding s by (rule strto_scan_nat) simp
  have stop: "scan_stop s = ?k"
    unfolding s using scan_stop_digits [OF dec_str_nonempty dec_str_digits] by simp
  have st: "strtol_raw b = Inr (int n, ?k)"
    using assms(3) stop scan
    unfolding strtol_raw_def s_def [symmetric] by (simp add: s strtoll_def del: dec_str.simps)
  have k: "?k \<le> 10" using length_dec_str_small [of n] assms(3) by simp
  have r: "raw_at b (int ?k) = Some CR" "raw_at b (int ?k + 1) = Some LF"
    using raw_at_content [OF assms(1), of ?k] raw_at_content [OF assms(1), of "Suc ?k"] assms(4)
    by (simp_all add: nth_append add.commute)
  have adv: "c_int (int ?k + 2) = int (?k + 2)"
    using k by (subst c_int_id) auto
  have room: "c_size (int (ReadableBytes b) - 2) = ?k + length rest"
    using assms(1,2,4) write_idx_content [OF assms(1)] by simp
  show ?thesis
    using st r assms(3) unfolding readBulkLen_def room
    by (simp add: adv AdvanceReadIndex_def size_add_nat [of _ "?k + 2", simplified])
qed

text \<open>
  On a strict prefix of a length line the decoder asks for more bytes. \<open>strtol\<close> may run past the
  received bytes, and past the block when the block ends inside a number.
\<close>

lemma takeWhile_all_last:
  assumes "xs \<noteq> []" "length xs \<le> length (takeWhile P xs)"
  shows "P (last xs)"
proof -
  have "takeWhile P xs = xs"
    using assms(2) by (metis length_takeWhile_le order_antisym takeWhile_eq_take take_all)
  then show ?thesis
    using assms(1) by (metis last_in_set set_takeWhileD)
qed

lemma readBulkLen_partial:
  assumes wf: "buf_wf b" and small: "m_write_idx b < 2 ^ 31"
    and p: "strict_prefix (content b) (dec_str n @ CRLF)" and ne: "2 \<le> length (content b)"
  shows "readBulkLen b = Inr (0, 0, b)
    \<or> readBulkLen b = Inl OutOfBounds \<and> is_digit (last (m_buffer b))"
proof -
  define s where "s = drop (m_read_idx b) (m_buffer b)"
  define junk where "junk = drop (m_write_idx b) (m_buffer b)"
  have s: "s = content b @ junk"
    using raw_tail [OF wf] by (simp add: s_def junk_def)
  obtain ds e where c: "content b = ds @ e" and ds: "ds \<noteq> []" "\<forall>c \<in> set ds. is_digit c"
    and e: "e = [] \<or> e = [CR]"
  proof -
    from p have "prefix (content b) (dec_str n) \<or> content b = dec_str n @ [CR]"
      by (auto simp: strict_prefix_def prefix_append prefix_Cons)
    then show thesis
    proof
      assume "prefix (content b) (dec_str n)"
      then have "\<forall>c \<in> set (content b). is_digit c"
        using dec_str_digits [of n] by (meson set_mono_prefix subset_iff)
      then show thesis
        using that [of "content b" "[]"] ne by (cases "content b") auto
    qed (use that [of "dec_str n" "[CR]"] dec_str_digits in auto)
  qed
  have stop: "scan_stop s = length ds + length (takeWhile is_digit (e @ junk))"
    using scan_stop_digits [OF ds, of "e @ junk"] by (simp add: s c)
  have num: "snd (snd (strto_scan s)) = scan_stop s"
  proof -
    obtain d ds' where d: "ds = d # ds'" "is_digit d" using ds by (cases ds) auto
    then have "snd (snd (strto_scan s)) \<noteq> 0"
      using digit_not_space [OF d(2)] digit_not_sign [OF d(2)]
      by (simp add: s c strto_scan_def Let_def)
    then show ?thesis by (rule strto_end)
  qed
  have far: "length (content b) - 2 < scan_stop s"
    using e stop c ne ds(1) by (cases ds) auto
  have room: "c_size (int (ReadableBytes b) - 2) = length (content b) - 2"
    using wf small ne write_idx_content [OF wf] by simp
  show ?thesis
  proof (cases "scan_stop s < length s")
    case True
    then obtain v where "strtol_raw b = Inr (v, scan_stop s)"
      using num by (simp add: strtol_raw_def s_def [symmetric] strtoll_def split_beta)
    then show ?thesis
      using far unfolding readBulkLen_def room by simp
  next
    case False
    then have "is_digit (last s)"
      using stop ds e takeWhile_all_last [of junk is_digit]
      by (cases "junk = []") (auto simp: s c)
    moreover have "m_buffer b \<noteq> []" "m_read_idx b < length (m_buffer b)"
      using ne length_content [OF wf] wf by (auto simp: buf_wf_def)
    ultimately have "is_digit (last (m_buffer b))"
      by (simp add: s_def last_drop)
    moreover have "strtol_raw b = Inl OutOfBounds"
      using False by (simp add: strtol_raw_def s_def)
    ultimately show ?thesis
      by (simp add: readBulkLen_def)
  qed
qed

section \<open>Reading the arguments\<close>

text \<open>\<open>fill f ss\<close> is the frame after the arguments \<open>ss\<close> were filled in one by one.\<close>

fun fill :: "RedisCommandFrame \<Rightarrow> string list \<Rightarrow> RedisCommandFrame" where
  "fill f [] = f"
| "fill f (s # ss) =
     fill (if m_cmd_seted f then f\<lparr>m_args := m_args f @ [s]\<rparr>
           else f\<lparr>m_cmd := m_cmd f @ s, m_cmd_seted := True\<rparr>) ss"

lemma fill_seted: "m_cmd_seted f \<Longrightarrow> fill f ss = f\<lparr>m_args := m_args f @ ss\<rparr>"
  by (induction ss arbitrary: f) auto

lemma FillNextArgument_content:
  assumes "buf_wf b" "content b = s @ rest" "length s < 2 ^ 31"
  shows "FillNextArgument f b (int (length s))
    = Inr (fill f [s], b\<lparr>m_read_idx := m_read_idx b + length s\<rparr>)"
  using read_raw_content [OF assms] assms(3)
  by (simp add: FillNextArgument_def AdvanceReadIndex_def)

lemma bulk_args_step:
  assumes wf: "buf_wf b" and small: "m_write_idx b < 2 ^ 31" and len: "length s \<le> 512 * 1024 * 1024"
    and c: "content b = render_bulk s @ rest" and pos: "0 < k"
  shows "bulk_args (Suc n) b f k = bulk_args n
     (b\<lparr>m_read_idx := m_read_idx b + length (render_bulk s)\<rparr>) (fill f [s]) (k - 1)"
proof -
  let ?d = "dec_str (length s)"
  define b1 where "b1 = b\<lparr>m_read_idx := m_read_idx b + 1\<rparr>"
  define b2 where "b2 = b1\<lparr>m_read_idx := m_read_idx b1 + length (?d @ CRLF)\<rparr>"
  define b3 where "b3 = b2\<lparr>m_read_idx := m_read_idx b2 + length s\<rparr>"
  have rb: "ReadByte b = Some (CHR ''$'', b1)"
    using ReadByte_Cons [OF wf] c by (simp add: render_bulk_def b1_def)
  have w1: "buf_wf b1" "content b1 = ?d @ CRLF @ s @ CRLF @ rest"
    using content_advance [OF wf, of "''$''"] c by (simp_all add: render_bulk_def b1_def)
  have rl: "readBulkLen b1 = Inr (1, int (length s), b2)"
    using readBulkLen_full [OF w1(1) _ _ w1(2)] small len by (simp add: b1_def b2_def)
  have w2: "buf_wf b2" "content b2 = s @ CRLF @ rest"
    using content_advance [OF w1(1), of "?d @ CRLF"] w1(2) by (simp_all add: b2_def)
  have crlf: "raw_at b2 (int (length s)) = Some CR" "raw_at b2 (int (length s) + 1) = Some LF"
    using raw_at_content [OF w2(1), of "length s"] raw_at_content [OF w2(1), of "Suc (length s)"]
    by (simp_all add: w2(2) nth_append add.commute)
  have fn: "FillNextArgument f b2 (int (length s)) = Inr (fill f [s], b3)"
    using FillNextArgument_content [OF w2] len by (simp add: b3_def)
  have room: "\<not> ReadableBytes b < 4" "\<not> ReadableBytes b2 < c_size (int (length s) + 2)"
    using wf w2 c len dec_str_nonempty [of "length s"]
    by (auto simp: render_bulk_def nat_add_distrib Suc_le_eq)
  have adv: "AdvanceReadIndex b3 2 = b\<lparr>m_read_idx := m_read_idx b + length (render_bulk s)\<rparr>"
    by (simp add: AdvanceReadIndex_def render_bulk_def b1_def b2_def b3_def)
  show ?thesis
    using pos len rb rl crlf fn room adv by simp
qed

lemma render_bulk_length: "5 < length (render_bulk s)"
  using dec_str_nonempty [of "length s"] by (cases "dec_str (length s)") (auto simp: render_bulk_def)

lemma bulk_args_full:
  assumes "buf_wf b" "m_write_idx b < 2 ^ 31" "\<forall>s \<in> set ss. length s \<le> 512 * 1024 * 1024"
    and "content b = concat (map render_bulk ss) @ rest"
    and "length (concat (map render_bulk ss)) < n"
  shows "bulk_args n b f (int (length ss)) = Some (Inr (1,
     b\<lparr>m_read_idx := m_read_idx b + length (concat (map render_bulk ss))\<rparr>, fill f ss, []))"
  using assms
proof (induction ss arbitrary: b f n)
  case Nil
  then show ?case by (cases n) auto
next
  case (Cons s ss)
  obtain m where n: "n = Suc m" using Cons.prems(5) by (cases n) auto
  define b1 where "b1 = b\<lparr>m_read_idx := m_read_idx b + length (render_bulk s)\<rparr>"
  have c: "content b = render_bulk s @ (concat (map render_bulk ss) @ rest)"
    using Cons.prems(4) by simp
  have b1: "buf_wf b1" "content b1 = concat (map render_bulk ss) @ rest"
    using content_advance [OF Cons.prems(1) c] by (simp_all add: b1_def)
  have "bulk_args n b f (int (length (s # ss))) = bulk_args m b1 (fill f [s]) (int (length ss))"
    using bulk_args_step [OF Cons.prems(1,2) _ c, of "int (length (s # ss))" m f] Cons.prems(3)
    by (simp add: n b1_def)
  also have "\<dots> = Some (Inr (1,
     b1\<lparr>m_read_idx := m_read_idx b1 + length (concat (map render_bulk ss))\<rparr>, fill (fill f [s]) ss, []))"
    using Cons.IH [OF b1(1) _ _ b1(2), of m] Cons.prems render_bulk_length [of s]
    by (simp add: n b1_def)
  finally show ?case by (simp add: b1_def add.assoc)
qed

text \<open>
  On a strict prefix of an argument list the loop asks for more bytes, or \<open>strtol\<close> runs off a block
  that ends in a digit.
\<close>

definition wants_more :: "bytes \<Rightarrow> decode_step \<Rightarrow> bool" where
  "wants_more blk r \<longleftrightarrow> (\<exists>b' f'. r = Inr (0, b', f', []) \<and> m_buffer b' = blk)
     \<or> r = Inl OutOfBounds \<and> is_digit (last blk)"

lemma strict_prefix_append_cases:
  "strict_prefix p (xs @ ys) \<Longrightarrow> strict_prefix p xs \<or> (\<exists>q. p = xs @ q \<and> strict_prefix q ys)"
  by (auto simp: strict_prefix_def prefix_append)

lemma bulk_prefix:
  assumes wf: "buf_wf b" and small: "m_write_idx b < 2 ^ 31" and len: "length s \<le> 512 * 1024 * 1024"
    and p: "strict_prefix (content b) (render_bulk s)" and pos: "0 < k"
  shows "\<exists>r. bulk_args (Suc n) b f k = Some r \<and> wants_more (m_buffer b) r
    \<and> (\<forall>ret b' f' e. r = Inr (ret, b', f', e) \<longrightarrow> b' = SetReadIndex b (m_read_idx b'))"
proof (cases "ReadableBytes b < 4")
  case True
  then show ?thesis
    using pos by (simp add: wants_more_def SetReadIndex_def)
next
  case False
  define b1 where "b1 = b\<lparr>m_read_idx := m_read_idx b + 1\<rparr>"
  obtain q where q: "content b = CHR ''$'' # q" "strict_prefix q (dec_str (length s) @ CRLF @ s @ CRLF)"
    using p False wf by (cases "content b") (auto simp: render_bulk_def strict_prefix_def)
  have rb: "ReadByte b = Some (CHR ''$'', b1)"
    using ReadByte_Cons [OF wf q(1)] by (simp add: b1_def)
  have w1: "buf_wf b1" "content b1 = q" "m_write_idx b1 < 2 ^ 31" "m_buffer b1 = m_buffer b"
    using content_advance [OF wf, of "''$''" q] q(1) small by (simp_all add: b1_def)
  consider (header) "strict_prefix q (dec_str (length s) @ CRLF)"
    | (body) r where "q = dec_str (length s) @ CRLF @ r" "strict_prefix r (s @ CRLF)"
    using strict_prefix_append_cases [of q "dec_str (length s) @ CRLF" "s @ CRLF"] q(2) by auto
  then show ?thesis
  proof cases
    case header
    have "2 \<le> length (content b1)" using False wf q(1) w1 by simp
    with readBulkLen_partial [OF w1(1,3)] header w1(2)
    have "readBulkLen b1 = Inr (0, 0, b1)
        \<or> readBulkLen b1 = Inl OutOfBounds \<and> is_digit (last (m_buffer b))"
      using w1(4) by metis
    then show ?thesis
      using pos False rb by (auto simp: wants_more_def SetReadIndex_def b1_def)
  next
    case body
    define b2 where "b2 = b1\<lparr>m_read_idx := m_read_idx b1 + length (dec_str (length s) @ CRLF)\<rparr>"
    have rl: "readBulkLen b1 = Inr (1, int (length s), b2)"
      using readBulkLen_full [OF w1(1,3), of "length s" r] w1(2) body(1) len by (simp add: b2_def)
    have "buf_wf b2" "content b2 = r"
      using content_advance [OF w1(1), of "dec_str (length s) @ CRLF" r] w1(2) body(1)
      by (simp_all add: b2_def)
    moreover have "length r < length s + 2"
      using body(2) prefix_length_less by fastforce
    ultimately have "ReadableBytes b2 < c_size (int (length s) + 2)"
      using len by (simp add: nat_add_distrib)
    then show ?thesis
      using pos len False rb rl by (auto simp: wants_more_def SetReadIndex_def b1_def b2_def)
  qed
qed

lemma bulk_args_prefix:
  assumes "buf_wf b" "m_write_idx b < 2 ^ 31" "\<forall>s \<in> set ss. length s \<le> 512 * 1024 * 1024"
    and "strict_prefix (content b) (concat (map render_bulk ss))" "length (content b) < n"
  shows "\<exists>r. bulk_args n b f (int (length ss)) = Some r \<and> wants_more (m_buffer b) r
    \<and> (\<forall>ret b' f' e. r = Inr (ret, b', f', e) \<longrightarrow> b' = SetReadIndex b (m_read_idx b'))"
  using assms
proof (induction ss arbitrary: b f n)
  case (Cons s ss)
  obtain m where n: "n = Suc m" using Cons.prems(5) by (cases n) auto
  consider (now) "strict_prefix (content b) (render_bulk s)"
    | (later) q where "content b = render_bulk s @ q" "strict_prefix q (concat (map render_bulk ss))"
    using strict_prefix_append_cases [of "content b" "render_bulk s"] Cons.prems(4) by auto
  then show ?case
  proof cases
    case now
    then show ?thesis
      using bulk_prefix [OF Cons.prems(1,2) _ now, of "int (length (s # ss))" m f] Cons.prems(3)
      by (simp add: n)
  next
    case later
    define b1 where "b1 = b\<lparr>m_read_idx := m_read_idx b + length (render_bulk s)\<rparr>"
    have b1: "buf_wf b1" "content b1 = q" "m_buffer b1 = m_buffer b" "m_write_idx b1 < 2 ^ 31"
      using content_advance [OF Cons.prems(1) later(1)] Cons.prems(2) by (simp_all add: b1_def)
    have "bulk_args n b f (int (length (s # ss))) = bulk_args m b1 (fill f [s]) (int (length ss))"
      using bulk_args_step [OF Cons.prems(1,2) _ later(1), of "int (length (s # ss))" m f] Cons.prems(3)
      by (simp add: n b1_def)
    moreover have "length (content b1) < m"
      using b1(2) later(1) Cons.prems(5) render_bulk_length [of s] by (simp add: n)
    ultimately show ?thesis
      using Cons.IH [OF b1(1,4), of m "fill f [s]"] Cons.prems(3) later(2) b1(2,3)
      by (auto simp: b1_def SetReadIndex_def)
  qed
qed simp

section \<open>Decoding a whole request and a part of one\<close>

lemma Command_Decode_multibulk:
  assumes "buf_wf b" "content b = CHR ''*'' # xs"
    and "b1 = b\<lparr>m_read_idx := m_read_idx b + 1\<rparr>"
  shows "Command_Decode b f =
    (case ProcessMultibulkBuffer b1 (f\<lparr>m_is_inline := False\<rparr>) of
       Inl e \<Rightarrow> Inl e
     | Inr (ret, buffer, msg, err) \<Rightarrow>
         if ret > 0
         then Inr (True, buffer,
                msg\<lparr>m_raw_msg := snd (WrapReadableContent (m_raw_msg msg)
                      (region (m_buffer buffer) (m_read_idx b) (m_read_idx buffer))
                      (m_read_idx buffer - m_read_idx b))\<rparr>, err)
         else Inr (False, if ret = 0 then SetReadIndex buffer (m_read_idx b) else buffer,
                Frame_Clear msg, err))"
  using skip_crlf_stays [OF assms(1,2)] ReadByte_Cons [OF assms(1,2)] assms(3)
  by (simp add: Command_Decode_def Let_def)

lemma Command_Decode_full:
  assumes wf: "buf_wf b" and small: "m_write_idx b < 2 ^ 31" and ok: "request_ok cmd args"
    and c: "content b = render_command cmd args @ rest"
  shows "\<exists>f. Command_Decode b (RedisCommandFrame_new []) =
      Inr (True, b\<lparr>m_read_idx := m_read_idx b + length (render_command cmd args)\<rparr>, f, [])
    \<and> m_cmd f = cmd \<and> m_args f = args \<and> \<not> m_is_inline f
    \<and> AsString (m_raw_msg f) = render_command cmd args"
proof -
  let ?n = "length args + 1"
  let ?ss = "cmd # args"
  let ?f = "RedisCommandFrame_new []"
  define b1 where "b1 = b\<lparr>m_read_idx := m_read_idx b + 1\<rparr>"
  define b2 where "b2 = b1\<lparr>m_read_idx := m_read_idx b1 + length (dec_str ?n @ CRLF)\<rparr>"
  define b3 where "b3 = b2\<lparr>m_read_idx := m_read_idx b2 + length (concat (map render_bulk ?ss))\<rparr>"
  have c': "content b = CHR ''*'' # dec_str ?n @ CRLF @ concat (map render_bulk ?ss) @ rest"
    using c by (simp add: render_command_def)
  have w1: "buf_wf b1" "content b1 = dec_str ?n @ CRLF @ concat (map render_bulk ?ss) @ rest"
    using content_advance [OF wf, of "''*''"] c' by (simp_all add: b1_def)
  have w2: "buf_wf b2" "content b2 = concat (map render_bulk ?ss) @ rest" "m_write_idx b2 < 2 ^ 31"
    using content_advance [OF w1(1), of "dec_str ?n @ CRLF"] w1(2) small
    by (simp_all add: b1_def b2_def)
  have n: "?n < 2 ^ 31" "int ?n \<le> 512 * 1024 * 1024"
    and ss: "\<forall>s \<in> set ?ss. length s \<le> 512 * 1024 * 1024"
    using ok by (auto simp: request_ok_def)
  have rl: "readBulkLen b1 = Inr (1, int ?n, b2)"
    using readBulkLen_full [OF w1(1) _ n(1) w1(2)] small by (simp add: b1_def b2_def)
  have "length (concat (map render_bulk ?ss)) < Suc (ReadableBytes b2)"
    using w2(1,2) by simp
  then have ba: "bulk_args (Suc (ReadableBytes b2)) b2 (?f\<lparr>m_is_inline := False\<rparr>) (int ?n)
      = Some (Inr (1, b3, fill (?f\<lparr>m_is_inline := False\<rparr>) ?ss, []))"
    using bulk_args_full [OF w2(1,3) ss w2(2), of "Suc (ReadableBytes b2)" "?f\<lparr>m_is_inline := False\<rparr>"]
    by (simp add: b3_def del: bulk_args.simps)
  have r3: "\<not> ReadableBytes b1 < 3"
    using w1 by (cases "dec_str ?n") auto
  have pm: "ProcessMultibulkBuffer b1 (?f\<lparr>m_is_inline := False\<rparr>)
      = Inr (1, b3, fill (?f\<lparr>m_is_inline := False\<rparr>) ?ss, [])"
    unfolding ProcessMultibulkBuffer_def rl using r3 n(2) ba by (simp del: bulk_args.simps)
  have idx: "m_read_idx b3 = m_read_idx b + length (render_command cmd args)"
    and blk: "m_buffer b3 = m_buffer b"
    by (simp_all add: b1_def b2_def b3_def render_command_def)
  have b3: "b3 = b\<lparr>m_read_idx := m_read_idx b + length (render_command cmd args)\<rparr>"
    by (simp add: b1_def b2_def b3_def render_command_def)
  have raw: "region (m_buffer b3) (m_read_idx b) (m_read_idx b3) = render_command cmd args"
    using take_drop_content [OF wf, of "length (render_command cmd args)"] c
    by (simp add: blk idx region_def)
  show ?thesis
    using Command_Decode_multibulk [OF wf c' b1_def, of ?f] pm raw
    by (simp add: b3 [symmetric] idx fill_seted RedisCommandFrame_new_def WrapReadableContent_def
        Buffer_new_def AsString_def ReadableBytes_def Readable_def)
qed

lemma Command_Decode_part:
  assumes wf: "buf_wf b" and small: "m_write_idx b < 2 ^ 31" and ok: "request_ok cmd args"
    and p: "strict_prefix (content b) (render_command cmd args)" and ne: "content b \<noteq> []"
  shows "(\<exists>f'. Command_Decode b f = Inr (False, b, f', []))
    \<or> Command_Decode b f = Inl OutOfBounds \<and> is_digit (last (m_buffer b))"
proof -
  let ?n = "length args + 1"
  let ?ss = "cmd # args"
  let ?g = "f\<lparr>m_is_inline := False\<rparr>"
  define b1 where "b1 = b\<lparr>m_read_idx := m_read_idx b + 1\<rparr>"
  obtain q where q: "content b = CHR ''*'' # q"
    "strict_prefix q ((dec_str ?n @ CRLF) @ concat (map render_bulk ?ss))"
    using p ne by (cases "content b") (auto simp: render_command_def strict_prefix_def)
  have w1: "buf_wf b1" "content b1 = q" "m_write_idx b1 < 2 ^ 31" "m_buffer b1 = m_buffer b"
    "SetReadIndex b1 (m_read_idx b) = b"
    using content_advance [OF wf, of "''*''" q] q(1) small by (simp_all add: b1_def SetReadIndex_def)
  have n: "?n < 2 ^ 31" "int ?n \<le> 512 * 1024 * 1024"
    and ss: "\<forall>s \<in> set ?ss. length s \<le> 512 * 1024 * 1024"
    using ok by (auto simp: request_ok_def)
  have "\<exists>r. ProcessMultibulkBuffer b1 ?g = r \<and> wants_more (m_buffer b) r
      \<and> (\<forall>ret b' f' e. r = Inr (ret, b', f', e) \<longrightarrow> SetReadIndex b' (m_read_idx b) = b)"
  proof (cases "ReadableBytes b1 < 3")
    case True
    then show ?thesis
      using w1(4,5) by (simp add: ProcessMultibulkBuffer_def wants_more_def)
  next
    case False
    consider (header) "strict_prefix q (dec_str ?n @ CRLF)"
      | (body) r where "q = (dec_str ?n @ CRLF) @ r" "strict_prefix r (concat (map render_bulk ?ss))"
      using strict_prefix_append_cases [OF q(2)] by auto
    then show ?thesis
    proof cases
      case header
      have "2 \<le> length (content b1)" using False w1(1) by simp
      with readBulkLen_partial [OF w1(1,3)] header w1(2)
      have "readBulkLen b1 = Inr (0, 0, b1)
          \<or> readBulkLen b1 = Inl OutOfBounds \<and> is_digit (last (m_buffer b))"
        using w1(4) by metis
      then show ?thesis
        using False w1(4,5) by (auto simp: ProcessMultibulkBuffer_def wants_more_def)
    next
      case body
      define b2 where "b2 = b1\<lparr>m_read_idx := m_read_idx b1 + length (dec_str ?n @ CRLF)\<rparr>"
      have rl: "readBulkLen b1 = Inr (1, int ?n, b2)"
        using readBulkLen_full [OF w1(1,3) n(1), of r] w1(2) body(1) by (simp add: b2_def)
      have w2: "buf_wf b2" "content b2 = r" "m_write_idx b2 < 2 ^ 31" "m_buffer b2 = m_buffer b"
        "\<And>i. SetReadIndex (SetReadIndex b2 i) (m_read_idx b) = b"
        using content_advance [OF w1(1), of "dec_str ?n @ CRLF" r] w1 body(1)
        by (simp_all add: b1_def b2_def SetReadIndex_def)
      obtain r' where r': "bulk_args (Suc (ReadableBytes b2)) b2 ?g (int ?n) = Some r'"
        "wants_more (m_buffer b2) r'"
        "\<forall>ret b' f' e. r' = Inr (ret, b', f', e) \<longrightarrow> b' = SetReadIndex b2 (m_read_idx b')"
        using bulk_args_prefix [OF w2(1,3) ss, of "Suc (ReadableBytes b2)" ?g] w2(1,2) body(2)
        by auto
      have "ProcessMultibulkBuffer b1 ?g = r'"
        unfolding ProcessMultibulkBuffer_def rl using False n(2) r'(1) by (simp del: bulk_args.simps)
      then show ?thesis
        using r'(2,3) w2(4,5) by metis
    qed
  qed
  then show ?thesis
    unfolding Command_Decode_multibulk [OF wf q(1) b1_def] wants_more_def by auto
qed

section \<open>The decoder returns and makes progress\<close>

text \<open>\<open>moved b b'\<close>: only the read index changed, and it did not move back.\<close>

definition moved :: "Buffer \<Rightarrow> Buffer \<Rightarrow> bool" where
  "moved b b' \<longleftrightarrow> b' = b\<lparr>m_read_idx := m_read_idx b'\<rparr> \<and> m_read_idx b \<le> m_read_idx b'"

lemma moved_refl [simp]: "moved b b"
  by (simp add: moved_def)

lemma moved_trans [trans]: "moved b c \<Longrightarrow> moved c d \<Longrightarrow> moved b d"
  by (cases b; cases c; cases d) (auto simp: moved_def)

lemma moved_keeps:
  assumes "moved b b'"
  shows "m_buffer b' = m_buffer b" "m_write_idx b' = m_write_idx b" "buf_small b' = buf_small b"
    and "m_read_idx b \<le> m_read_idx b'" and "ReadableBytes b' \<le> ReadableBytes b"
  using assms by (cases b; cases b'; auto simp: moved_def buf_small_def ReadableBytes_def Readable_def)+

lemma moved_advance: "0 \<le> k \<Longrightarrow> moved b (AdvanceReadIndex b k)"
  using size_add_nat [of "m_read_idx b" "nat k"] by (simp add: moved_def AdvanceReadIndex_def)

lemma ReadByte_moved:
  assumes "ReadByte b = Some (c, b')"
  shows "moved b b'" "m_read_idx b' = Suc (m_read_idx b)" "m_read_idx b < m_write_idx b"
  using assms by (auto simp: ReadByte_def Buffer_Read_def moved_def ReadableBytes_def Readable_def
      split: if_splits)

lemma FillNextArgument_moved:
  assumes "FillNextArgument f b len = Inr (f', b')" "- (2 ^ 31) \<le> len" "len < 2 ^ 31"
  shows "moved b b'" "0 \<le> len" "m_read_idx b' = m_read_idx b + nat len"
proof -
  obtain s where s: "read_raw b len = Inr s" and b': "b' = AdvanceReadIndex b len"
    using assms by (auto simp: FillNextArgument_def Let_def split: sum.splits if_splits)
  show nonneg: "0 \<le> len"
  proof (rule ccontr)
    assume "\<not> 0 \<le> len"
    then have "len mod 2 ^ 64 = len + 2 ^ 64"
      using assms(2) by (intro int_mod_pos_eq [of _ _ "- 1"]) auto
    then show False
      using s assms(2) by (auto simp: read_raw_def c_size_def string_max_size_def split: if_splits)
  qed
  then show "moved b b'" "m_read_idx b' = m_read_idx b + nat len"
    using moved_advance [of len b] size_add_nat [of "m_read_idx b" "nat len"]
    by (simp_all add: b' AdvanceReadIndex_def)
qed

lemma readBulkLen_moved:
  assumes "readBulkLen b = Inr (ret, len, b')" "buf_small b"
  shows "moved b b'" "- (2 ^ 31) \<le> len" "len < 2 ^ 31"
proof -
  have "moved b (AdvanceReadIndex b (c_int (int eptr + 2)))"
    if "raw_at b (int eptr + 1) = Some d" for eptr d
  proof -
    have "c_int (int (eptr + 2)) = int (eptr + 2)"
      using that assms(2)
      by (intro c_int_nat) (auto simp: raw_at_def Let_def buf_small_def split: if_splits)
    then show ?thesis
      using moved_advance [of "int (eptr + 2)" b] by (simp add: add.commute)
  qed
  then show "moved b b'"
    using assms(1) by (auto simp: readBulkLen_def split: sum.splits option.splits if_splits)
  show "- (2 ^ 31) \<le> len" "len < 2 ^ 31"
    using assms(1) c_int_range
    by (auto simp: readBulkLen_def split: sum.splits option.splits if_splits)
qed

lemma bulk_args_total:
  "buf_small b \<Longrightarrow> ReadableBytes b < n \<Longrightarrow>
   \<exists>r. bulk_args n b f k = Some r \<and> (\<forall>ret b' f' e. r = Inr (ret, b', f', e) \<longrightarrow> moved b b')"
proof (induction n arbitrary: b f k)
  case (Suc n)
  show ?case
  proof (cases "k \<le> 0 \<or> ReadableBytes b < 4")
    case True
    then show ?thesis by auto
  next
    case False
    then obtain c b1 where rb: "ReadByte b = Some (c, b1)"
      by (auto simp: ReadByte_def Buffer_Read_def)
    note m1 = ReadByte_moved [OF rb]
    have small1: "buf_small b1" using moved_keeps(3) [OF m1(1)] Suc.prems(1) by simp
    have more1: "ReadableBytes b1 < n"
      using m1 Suc.prems(2) moved_keeps(2) [OF m1(1)] by (auto simp: ReadableBytes_def Readable_def)
    show ?thesis
    proof (cases "readBulkLen b1")
      case (Inl e)
      then show ?thesis
        using False rb m1(1) by (auto split: option.splits)
    next
      case (Inr r)
      obtain ret len b2 where r: "r = (ret, len, b2)" by (cases r)
      note m2 = readBulkLen_moved [OF Inr [unfolded r] small1]
      have mb2: "moved b b2" using m1(1) m2(1) by (rule moved_trans)
      have rec: "\<exists>r. bulk_args n (AdvanceReadIndex b3 2) f3 (k - 1) = Some r
          \<and> (\<forall>ret b' f' e. r = Inr (ret, b', f', e) \<longrightarrow> moved b b')"
        if fn: "FillNextArgument f b2 len = Inr (f3, b3)" for f3 b3
      proof -
        have m4: "moved b2 (AdvanceReadIndex b3 2)"
          using FillNextArgument_moved(1) [OF fn m2(2,3)] moved_advance [of 2 b3]
          by (auto intro: moved_trans)
        then have "moved b1 (AdvanceReadIndex b3 2)" using m2(1) moved_trans by blast
        note k = moved_keeps [OF this]
        obtain r where "bulk_args n (AdvanceReadIndex b3 2) f3 (k - 1) = Some r"
          "\<forall>ret b' f' e. r = Inr (ret, b', f', e) \<longrightarrow> moved (AdvanceReadIndex b3 2) b'"
          using Suc.IH [of "AdvanceReadIndex b3 2" f3 "k - 1"] k(3,5) small1 more1 by auto
        moreover have "moved b (AdvanceReadIndex b3 2)" using mb2 m4 by (rule moved_trans)
        ultimately show ?thesis using moved_trans by blast
      qed
      show ?thesis
        using False rb Inr r m1(1) mb2 rec by (simp split: option.splits sum.splits)
    qed
  qed
qed simp

lemma IndexOf_range_found:
  assumes "buf_small b" "IndexOf_range b [c] s e \<noteq> - 1"
  shows "int s \<le> IndexOf_range b [c] s e \<and> IndexOf_range b [c] s e < int e
    \<and> IndexOf_range b [c] s e < 2 ^ 31"
proof -
  obtain i where i: "index_of_loop (m_buffer b) c [] s e = Some i" "e \<le> m_write_idx b"
    "IndexOf_range b [c] s e = c_int (int i)"
    using assms(2) by (auto simp: IndexOf_range_def split: if_splits option.splits)
  then have "s \<le> i \<and> i < e"
    using index_of_loop_sound [OF i(1)] assms(1) by (auto simp: buf_small_def)
  then show ?thesis
    using assms(1) i(2,3) by (auto simp: buf_small_def)
qed

lemma IndexOf_CR:
  assumes "buf_small b" "IndexOf b CRLF \<noteq> - 1"
  shows "m_buffer b ! nat (IndexOf b CRLF) = CR"
proof -
  obtain i where i: "index_of_loop (m_buffer b) CR [LF] (m_read_idx b) (m_write_idx b) = Some i"
    "IndexOf b CRLF = c_int (int i)"
    using assms(2) by (auto simp: IndexOf_def IndexOf_range_def split: if_splits option.splits)
  have "i + 2 \<le> m_write_idx b" "region (m_buffer b) i (i + 2) = CRLF"
    using index_of_loop_sound [OF i(1)] assms(1) by (auto simp: buf_small_def)
  moreover from this have "region (m_buffer b) i (i + 2) ! 0 = m_buffer b ! i"
    using assms(1) by (subst region_nth) (auto simp: buf_small_def)
  ultimately show ?thesis
    using assms(1) i(2) by (simp add: buf_small_def)
qed

lemma ReadByte_char: "ReadByte b = Some (c, b') \<Longrightarrow> buf_small b \<Longrightarrow> c = m_buffer b ! m_read_idx b"
  by (auto simp: ReadByte_def Buffer_Read_def ReadableBytes_def Readable_def buf_small_def
      split: if_splits)

lemma inline_loop_total:
  assumes "buf_small b" "ReadableBytes b < n" "m_read_idx b \<le> i" "i + 2 \<le> m_write_idx b"
    and "m_buffer b ! i = CR"
  shows "\<exists>r. inline_loop n b f (int i) = Some r \<and> (\<forall>b' f'. r = Inr (b', f') \<longrightarrow>
      moved b b' \<and> (m_read_idx b' < i \<or> m_read_idx b' = i + 2))"
  using assms
proof (induction n arbitrary: b f)
  case (Suc n)
  have "ReadByte b \<noteq> None"
    using Suc.prems(3,4) by (simp add: ReadByte_def Buffer_Read_def ReadableBytes_def Readable_def)
  then obtain c b1 where rb: "ReadByte b = Some (c, b1)" by auto
  note m1 = ReadByte_moved [OF rb] and k1 = moved_keeps [OF ReadByte_moved(1) [OF rb]]
  have c: "c = m_buffer b ! m_read_idx b" using rb Suc.prems(1) by (rule ReadByte_char)
  have unread: "AdvanceReadIndex b1 (- 1) = b"
    using m1 by (simp add: AdvanceReadIndex_def moved_def)
  have i31: "i + 2 < 2 ^ 31" using Suc.prems(1,4) by (simp add: buf_small_def)
  have cur: "c_int (int (m_read_idx b)) = int (m_read_idx b)"
    using Suc.prems(3) i31 by simp
  consider (space) "c = CHR '' ''" | (stop) "c \<noteq> CHR '' ''" "m_read_idx b = i"
    | (word) "c \<noteq> CHR '' ''" "m_read_idx b < i"
    using Suc.prems(3) by linarith
  then show ?case
  proof cases
    case space
    then have "m_read_idx b1 \<le> i" "ReadableBytes b1 < n"
      using c Suc.prems m1 k1(2) by (auto simp: le_less ReadableBytes_def Readable_def)
    then obtain r where "inline_loop n b1 f (int i) = Some r" "\<forall>b' f'. r = Inr (b', f') \<longrightarrow>
        moved b1 b' \<and> (m_read_idx b' < i \<or> m_read_idx b' = i + 2)"
      using Suc.IH [of b1 f] Suc.prems k1 by auto
    then show ?thesis
      using space rb m1(1) moved_trans by fastforce
  next
    case stop
    then have "inline_loop (Suc n) b f (int i) = Some (Inr (AdvanceReadIndex b 2, f))"
      using rb cur by (simp add: unread Let_def)
    then show ?thesis
      using stop(2) moved_advance [of 2 b] by (simp add: AdvanceReadIndex_def)
  next
    case word
    define si where "si = IndexOf_range b '' '' (m_read_idx b) i"
    have sz: "c_size (int (m_read_idx b)) = m_read_idx b" "c_size (int i) = i"
      using Suc.prems(3) i31 by simp_all
    have step: "inline_loop (Suc n) b f (int i) =
      (if si = - 1 then Some (Inr (b, f))
       else case FillNextArgument f b (c_int (si - int (m_read_idx b))) of
              Inl e \<Rightarrow> Some (Inl e)
            | Inr (f2, b2) \<Rightarrow> inline_loop n (AdvanceReadIndex b2 1) f2 (int i))"
      using word rb cur sz by (simp add: unread Let_def si_def)
    have found: "int (m_read_idx b) \<le> si \<and> si < int i" if "si \<noteq> - 1"
      using IndexOf_range_found [OF Suc.prems(1)] that by (simp add: si_def)
    have next_arg: "\<exists>r. inline_loop n (AdvanceReadIndex b2 1) f2 (int i) = Some r
        \<and> (\<forall>b' f'. r = Inr (b', f') \<longrightarrow> moved b b' \<and> (m_read_idx b' < i \<or> m_read_idx b' = i + 2))"
      if si: "si \<noteq> - 1" and fn: "FillNextArgument f b (c_int (si - int (m_read_idx b))) = Inr (f2, b2)"
      for f2 b2
    proof -
      have len: "c_int (si - int (m_read_idx b)) = si - int (m_read_idx b)"
        using found [OF si] i31 by (intro c_int_id) auto
      note fm = FillNextArgument_moved [OF fn [unfolded len]]
      have m2: "moved b b2" "m_read_idx b2 = nat si"
        using fm found [OF si] i31 by auto
      define b3 where "b3 = AdvanceReadIndex b2 1"
      have m3: "moved b b3" "m_read_idx b3 = Suc (nat si)"
        using moved_trans [OF m2(1) moved_advance [of 1 b2]] m2(2)
        by (simp_all add: b3_def AdvanceReadIndex_def)
      note k3 = moved_keeps [OF m3(1)]
      have "m_read_idx b3 \<le> i" "ReadableBytes b3 < n"
        using found [OF si] m3(2) k3(2) Suc.prems by (auto simp: ReadableBytes_def Readable_def)
      then obtain r where "inline_loop n b3 f2 (int i) = Some r" "\<forall>b' f'. r = Inr (b', f') \<longrightarrow>
          moved b3 b' \<and> (m_read_idx b' < i \<or> m_read_idx b' = i + 2)"
        using Suc.IH [of b3 f2] Suc.prems k3 by auto
      then show ?thesis
        using m3(1) moved_trans by (fastforce simp: b3_def)
    qed
    show ?thesis
      unfolding step using word(2) next_arg by (auto split: sum.splits)
  qed
qed simp

lemma ProcessInlineBuffer_progress:
  assumes "buf_small b" "ProcessInlineBuffer b f = Inr (ret, b', f')"
  shows "ret = 0 \<and> b' = b \<or> ret = 1 \<and> moved b b' \<and> m_read_idx b < m_read_idx b'"
proof (cases "IndexOf b CRLF = - 1")
  case True
  then show ?thesis using assms(2) by (simp add: ProcessInlineBuffer_def)
next
  case False
  define i where "i = nat (IndexOf b CRLF)"
  have i: "IndexOf b CRLF = int i" "m_read_idx b \<le> i" "i + 2 \<le> m_write_idx b" "i + 2 < 2 ^ 31"
    using IndexOf_found [OF assms(1) False] assms(1) by (auto simp: i_def buf_small_def)
  have cr: "m_buffer b ! i = CR"
    using IndexOf_CR [OF assms(1) False] by (simp add: i_def)
  obtain r where r: "inline_loop (Suc (ReadableBytes b)) b f (int i) = Some r"
    "\<forall>b' f'. r = Inr (b', f') \<longrightarrow> moved b b' \<and> (m_read_idx b' < i \<or> m_read_idx b' = i + 2)"
    using inline_loop_total [OF assms(1) _ i(2,3) cr] by blast
  obtain b1 f1 where b1: "r = Inr (b1, f1)"
    using assms(2) i(1) r(1) by (cases r) (auto simp: ProcessInlineBuffer_def simp del: inline_loop.simps)
  then have m1: "moved b b1" "m_read_idx b1 < i \<or> m_read_idx b1 = i + 2"
    using r(2) by auto
  have cur: "c_int (int (m_read_idx b1)) = int (m_read_idx b1)"
    using m1(2) i(4) by auto
  have res: "(if m_read_idx b1 < i
       then case FillNextArgument f1 b1 (c_int (int i - int (m_read_idx b1))) of
              Inl e \<Rightarrow> Inl e
            | Inr (f2, b2) \<Rightarrow> Inr (1, AdvanceReadIndex b2 2, f2)
       else Inr (1, b1, f1)) = Inr (ret, b', f')"
    using assms(2) r(1) unfolding ProcessInlineBuffer_def i(1) b1
    by (simp add: Let_def cur cong: if_cong del: inline_loop.simps)
  show ?thesis
  proof (cases "m_read_idx b1 < i")
    case True
    have len: "c_int (int i - int (m_read_idx b1)) = int i - int (m_read_idx b1)"
      using True i(4) by (intro c_int_id) auto
    obtain f2 b2 where fn: "FillNextArgument f1 b1 (int i - int (m_read_idx b1)) = Inr (f2, b2)"
      and b': "b' = AdvanceReadIndex b2 2" "ret = 1"
      using res True by (auto simp: len split: sum.splits)
    have "moved b1 b2" "m_read_idx b2 = i"
      using FillNextArgument_moved [OF fn] True i(4) by auto
    then have "moved b b'" "m_read_idx b' = i + 2"
      using m1(1) moved_advance [of 2 b2] moved_trans
      by (auto simp: b'(1)) (simp add: AdvanceReadIndex_def)
    then show ?thesis
      using b'(2) i(2) by simp
  next
    case False
    then show ?thesis
      using res m1 i(2) by auto
  qed
qed

lemma ProcessMultibulkBuffer_moved:
  assumes "buf_small b" "ProcessMultibulkBuffer b f = Inr (ret, b', f', e)"
  shows "moved b b'"
proof (cases "ReadableBytes b < 3")
  case True
  then show ?thesis using assms(2) by (simp add: ProcessMultibulkBuffer_def)
next
  case False
  then obtain rt len b1 where rl: "readBulkLen b = Inr (rt, len, b1)"
    using assms(2) by (auto simp: ProcessMultibulkBuffer_def split: sum.splits)
  note m1 = readBulkLen_moved [OF rl assms(1)]
  have small1: "buf_small b1" using moved_keeps(3) [OF m1(1)] assms(1) by simp
  obtain r where r: "bulk_args (Suc (ReadableBytes b1)) b1 f len = Some r"
    "\<forall>ret b' f' e. r = Inr (ret, b', f', e) \<longrightarrow> moved b1 b'"
    using bulk_args_total [OF small1, of "Suc (ReadableBytes b1)" f len] by auto
  show ?thesis
  proof (cases "rt = 0 \<or> rt < 0 \<or> len > 512 * 1024 * 1024")
    case True
    then show ?thesis
      using assms(2) \<open>\<not> ReadableBytes b < 3\<close> rl m1(1)
      by (auto simp: ProcessMultibulkBuffer_def split: if_splits)
  next
    case False
    then have "r = Inr (ret, b', f', e)"
      using assms(2) \<open>\<not> ReadableBytes b < 3\<close> rl r(1)
      by (simp add: ProcessMultibulkBuffer_def del: bulk_args.simps)
    then show ?thesis
      using r(2) m1(1) moved_trans by blast
  qed
qed

lemma skip_crlf_moved: "skip_crlf b = Some b' \<Longrightarrow> moved b b'"
proof (induction b rule: skip_crlf.induct)
  case (1 b)
  show ?case
  proof (cases "m_buffer b ! m_read_idx b = CR \<or> m_buffer b ! m_read_idx b = LF")
    case True
    then have "m_read_idx b < length (m_buffer b)" "skip_crlf (AdvanceReadIndex b 1) = Some b'"
      using "1.prems" by (auto simp: skip_crlf.simps [of b] split: if_splits)
    then have "moved (AdvanceReadIndex b 1) b'" using "1.IH" True by blast
    moreover have "moved b (AdvanceReadIndex b 1)" by (rule moved_advance) simp
    ultimately show ?thesis using moved_trans by blast
  next
    case False
    then show ?thesis
      using "1.prems" by (simp add: skip_crlf.simps [of b] split: if_splits)
  qed
qed

lemma moved_SetReadIndex: "moved b b' \<Longrightarrow> SetReadIndex b' (m_read_idx b) = b"
  by (cases b; cases b') (auto simp: moved_def SetReadIndex_def)

lemma Command_Decode_progress:
  assumes "buf_small b" "Command_Decode b f = Inr (ok, b', f', e)"
  shows "moved b b'" and "ok \<Longrightarrow> ReadableBytes b' < ReadableBytes b"
proof -
  obtain b0 where b0: "skip_crlf b = Some b0"
    using assms(2) by (auto simp: Command_Decode_def split: option.splits)
  note m0 = skip_crlf_moved [OF b0]
  have small0: "buf_small b0" using moved_keeps(3) [OF m0] assms(1) by simp
  have "moved b0 b' \<and> (ok \<longrightarrow> m_read_idx b0 < m_write_idx b0 \<and> m_read_idx b0 < m_read_idx b')"
  proof (cases "ReadByte b0")
    case None
    then show ?thesis
      using assms(2) b0 by (simp add: Command_Decode_def SetReadIndex_def)
  next
    case (Some r)
    then obtain c b1 where rb: "ReadByte b0 = Some (c, b1)" by (cases r) auto
    note m1 = ReadByte_moved [OF rb]
    have small1: "buf_small b1" using moved_keeps(3) [OF m1(1)] small0 by simp
    show ?thesis
    proof (cases "c = CHR ''*''")
      case True
      then obtain ret b2 f2 e2 where pm: "ProcessMultibulkBuffer b1 (f\<lparr>m_is_inline := False\<rparr>)
          = Inr (ret, b2, f2, e2)"
        using assms(2) b0 rb by (auto simp: Command_Decode_def Let_def split: sum.splits)
      have m2: "moved b1 b2" using ProcessMultibulkBuffer_moved [OF small1 pm] .
      then have m02: "moved b0 b2" using m1(1) moved_trans by blast
      show ?thesis
        using assms(2) b0 rb True pm m02 m1(2,3) moved_keeps(4) [OF m2] moved_SetReadIndex [OF m02]
        by (auto simp: Command_Decode_def Let_def split: if_splits)
    next
      case False
      have unread: "AdvanceReadIndex b1 (- 1) = b0"
        using m1 by (simp add: AdvanceReadIndex_def moved_def)
      obtain ret b2 f2 where pi: "ProcessInlineBuffer b0 (f\<lparr>m_is_inline := True\<rparr>)
          = Inr (ret, b2, f2)"
        using assms(2) b0 rb False unread
        by (auto simp: Command_Decode_def Let_def split: sum.splits)
      show ?thesis
        using assms(2) b0 rb False unread pi ProcessInlineBuffer_progress [OF small0 pi] m1(3)
        by (auto simp: Command_Decode_def Let_def SetReadIndex_def split: if_splits)
    qed
  qed
  then show "moved b b'" and "ok \<Longrightarrow> ReadableBytes b' < ReadableBytes b"
    using m0 moved_keeps(2,4) [OF m0] moved_trans moved_keeps(2) [of b0 b']
    by (blast, auto simp: ReadableBytes_def Readable_def)
qed

section \<open>Properties of the command codec\<close>

text \<open>
  C13: A request survives the wire. Encoding a command with any arguments (arbitrary bytes, empty
  ones included, within the protocol's limits) into an empty buffer and decoding the result gives
  back the command and its arguments, consumes exactly the bytes written, and keeps them as the
  raw message that replication forwards.
\<close>

theorem command_roundtrip:
  assumes "request_ok (m_cmd f) (m_args f)" and "buf_wf buf" and "content buf = []"
    and "m_write_idx (Command_Encode u buf f) < 2 ^ 31"
  shows "\<exists>b' f'. Command_Decode (Command_Encode u buf f) (RedisCommandFrame_new [])
      = Inr (True, b', f', []) \<and> content b' = [] \<and> buf_wf b'
    \<and> m_cmd f' = m_cmd f \<and> m_args f' = m_args f
    \<and> AsString (m_raw_msg f') = content (Command_Encode u buf f)"
proof -
  note e = Command_Encode_append [OF assms(2,1), of u]
  have c: "content (Command_Encode u buf f) = render_command (m_cmd f) (m_args f)"
    using e(2) assms(3) by simp
  then show ?thesis
    using Command_Decode_full [OF e(1) assms(4,1), of "[]"]
      content_advance [OF e(1), of "render_command (m_cmd f) (m_args f)" "[]"]
    by fastforce
qed

text \<open>
  A fragment of a request is never taken for a request. On any non-empty strict prefix of an
  encoded request the decoder reports that it needs more bytes, raises no protocol error and
  leaves the buffer exactly as it was, unless the block ends in a digit, when \<open>strtol\<close> may run
  past its end.
\<close>

theorem fragment_needs_more:
  assumes "buf_wf b" and "m_write_idx b < 2 ^ 31" and "request_ok cmd args"
    and "strict_prefix (content b) (render_command cmd args)" and "content b \<noteq> []"
    and "\<not> is_digit (last (m_buffer b))"
  shows "\<exists>f'. Command_Decode b f = Inr (False, b, f', [])"
  using Command_Decode_part [OF assms(1-5)] assms(6) by blast

text \<open>
  A bulk length of \<open>-2\<close> kills the server. The check of the bytes after the argument looks two
  bytes behind the length line, finds the line's own terminator there, and the decoder then asks
  for a string of \<open>2 ^ 64 - 2\<close> bytes, an exception that no caller catches. The request needs no
  authentication and may announce any number of arguments.
\<close>

theorem negative_bulk_crashes:
  assumes "buf_wf b" and "m_write_idx b < 2 ^ 31" and "0 < n" and "n \<le> 512 * 1024 * 1024"
    and "content b = ''*'' @ dec_str n @ CRLF @ ''$-2'' @ CRLF @ rest"
  shows "Command_Decode b f = Inl LengthError"
proof -
  let ?g = "f\<lparr>m_is_inline := False\<rparr>"
  define b1 where "b1 = b\<lparr>m_read_idx := m_read_idx b + 1\<rparr>"
  define b2 where "b2 = b1\<lparr>m_read_idx := m_read_idx b1 + length (dec_str n @ CRLF)\<rparr>"
  define b3 where "b3 = b2\<lparr>m_read_idx := m_read_idx b2 + 1\<rparr>"
  define b4 where "b4 = b3\<lparr>m_read_idx := m_read_idx b3 + 4\<rparr>"
  have c: "content b = CHR ''*'' # (dec_str n @ CRLF @ ''$-2'' @ CRLF @ rest)"
    using assms(5) by simp
  have w1: "buf_wf b1" "content b1 = dec_str n @ CRLF @ ''$-2'' @ CRLF @ rest"
    using content_advance [OF assms(1), of "''*''"] c by (simp_all add: b1_def)
  have w2: "buf_wf b2" "content b2 = CHR ''$'' # (''-2'' @ CRLF @ rest)"
    using content_advance [OF w1(1), of "dec_str n @ CRLF"] w1(2) by (simp_all add: b2_def)
  have w3: "buf_wf b3" "content b3 = ''-2'' @ CRLF @ rest"
    using content_advance [OF w2(1), of "''$''"] w2(2) by (simp_all add: b3_def)
  have w4: "buf_wf b4" "content b4 = rest"
    using content_advance [OF w3(1), of "''-2'' @ CRLF"] w3(2) by (simp_all add: b4_def eval_nat_numeral)
  have n: "n < 2 ^ 31" using assms(4) by simp
  have rl: "readBulkLen b1 = Inr (1, int n, b2)"
    using readBulkLen_full [OF w1(1) _ n w1(2)] assms(2) by (simp add: b1_def b2_def)
  have raw3: "drop (m_read_idx b3) (m_buffer b3) = ''-2'' @ CRLF @ rest @ drop (m_write_idx b3) (m_buffer b3)"
    using raw_tail [OF w3(1)] w3(2) by simp
  have st: "strtol_raw b3 = Inr (- 2, 2)"
    by (simp add: strtol_raw_def raw3 scan_stop_def strtoll_def strto_scan_def is_space_def
        is_digit_def digit_val_def Let_def)
  have room: "c_size (int (ReadableBytes b3) - 2) = length rest + 2"
    using w3 write_idx_content [OF w3(1)] assms(2) by (simp add: b1_def b2_def b3_def)
  have at3: "raw_at b3 2 = Some CR" "raw_at b3 3 = Some LF"
    using raw_at_content [OF w3(1), of 2] raw_at_content [OF w3(1), of 3] w3(2) by simp_all
  have rl3: "readBulkLen b3 = Inr (1, - 2, b4)"
    unfolding readBulkLen_def st room using at3
    by (simp add: AdvanceReadIndex_def b4_def)
  have at4: "raw_at b4 (- 2) = Some CR" "raw_at b4 (- 1) = Some LF"
    using at3 by (auto simp: b4_def raw_at_def Let_def add.commute split: if_splits)
  have fn: "FillNextArgument ?g b4 (- 2) = Inl LengthError"
    by (simp add: FillNextArgument_def read_raw_def c_size_def string_max_size_def)
  have rb: "ReadByte b2 = Some (CHR ''$'', b3)"
    using ReadByte_Cons [OF w2] by (simp add: b3_def)
  have "bulk_args (Suc (ReadableBytes b2)) b2 ?g (int n) = Some (Inl LengthError)"
    using w2 rb rl3 at4 fn assms(3) by (simp add: c_size_def)
  moreover have "\<not> ReadableBytes b1 < 3"
    using w1 by simp
  ultimately have "ProcessMultibulkBuffer b1 ?g = Inl LengthError"
    unfolding ProcessMultibulkBuffer_def rl using assms(4) by (simp del: bulk_args.simps)
  then show ?thesis
    using Command_Decode_multibulk [OF assms(1) c b1_def] by simp
qed

section \<open>Witnesses\<close>

definition sample_frame :: RedisCommandFrame where
  "sample_frame = RedisCommandFrame_new ''set''\<lparr>m_args := [''k'', ''v'']\<rparr>"

lemma sample_frame [simp]: "m_cmd sample_frame = ''set''" "m_args sample_frame = [''k'', ''v'']"
  by (simp_all add: sample_frame_def RedisCommandFrame_new_def)

lemma sample_request_ok: "request_ok ''set'' [''k'', ''v'']"
  by (simp add: request_ok_def)

lemma Command_Encode_small:
  assumes "request_ok (m_cmd f) (m_args f)" "length (render_command (m_cmd f) (m_args f)) < 2 ^ 31"
  shows "m_write_idx (Command_Encode u Buffer_new f) < 2 ^ 31"
proof -
  have "length (m_args f) + 1 < 2 ^ 31" "length (m_cmd f) < 2 ^ 31"
    "\<forall>a \<in> set (m_args f). length a < 2 ^ 31"
    using assms(1) by (auto simp: request_ok_def)
  note len = this
  note h = header_line [OF len(1) Buffer_new_wf(1), of u "CHR ''*''"]
  note c = header_line [OF len(2) h(1), of u "CHR ''$''"]
  have "m_read_idx (Command_Encode u Buffer_new f) = 0"
    using encode_args_append [OF _ len(3)] h(3) c(1,3)
    by (simp add: Command_Encode_def Let_def Buffer_Write_wf)
  then show ?thesis
    using Command_Encode_append [OF Buffer_new_wf(1) assms(1), of u] write_idx_content assms(2)
    by simp
qed

lemma sample_request_length: "length (render_command ''set'' [''k'', ''v'']) < 2 ^ 31"
  using length_dec_str_small [of 1] length_dec_str_small [of 3]
  by (simp add: render_command_def render_bulk_def numeral_3_eq_3)

theorem command_roundtrip_witness:
  "\<exists>b' f'. Command_Decode (Command_Encode (\<lambda>_. NUL) Buffer_new sample_frame) (RedisCommandFrame_new [])
     = Inr (True, b', f', []) \<and> m_cmd f' = ''set'' \<and> m_args f' = [''k'', ''v'']"
  using command_roundtrip [of sample_frame Buffer_new "\<lambda>_. NUL"] sample_request_ok
    Command_Encode_small [of sample_frame "\<lambda>_. NUL"] sample_request_length by auto

theorem fragment_needs_more_witness:
  "\<exists>f'. Command_Decode (text_buffer ''*'') (RedisCommandFrame_new []) = Inr (False, text_buffer ''*'', f', [])"
proof (rule fragment_needs_more [OF _ _ sample_request_ok])
  show "strict_prefix (content (text_buffer ''*'')) (render_command ''set'' [''k'', ''v''])"
    by (simp add: render_command_def strict_prefix_def)
  show "\<not> is_digit (last (m_buffer (text_buffer ''*'')))"
    by (simp add: text_buffer_def Buffer_wrap_def is_digit_def)
qed simp_all

theorem negative_bulk_crashes_witness:
  "Command_Decode (text_buffer (''*'' @ dec_str 1 @ CRLF @ ''$-2'' @ CRLF @ [])) (RedisCommandFrame_new [])
     = Inl LengthError"
proof (rule negative_bulk_crashes [where n = 1 and rest = "[]"])
  show "m_write_idx (text_buffer (''*'' @ dec_str 1 @ CRLF @ ''$-2'' @ CRLF @ [])) < 2 ^ 31"
    using length_dec_str_small [of 1] by simp
qed simp_all

end
