(* ===== verification/Frame_Decoder.thy ===== *)
theory Frame_Decoder
  imports Command_Codec
begin

text \<open>
  Reassembly of messages from a byte stream: \<open>StackFrameDecoder\<close> of
  \<open>common/channel/codec/stack_frame_decoder.hpp\<close>, which collects the bytes of a connection in a
  cumulation buffer and calls the message decoder until it asks for more, and
  \<open>RedisMessageDecoder\<close> of \<open>redis_message_codec.hpp\<close> with the snapshot-file decoder of
  \<open>redis_reply_codec.cpp\<close>. The contract between the frame decoder and a message decoder is the
  locale \<open>frame_decoder\<close>; it is interpreted for the command decoder and for the line replies of the
  reply decoder, and gives that the messages a connection delivers do not depend on how TCP cuts
  the stream into packets.
\<close>

section \<open>The frame decoder\<close>

text \<open>
  A message decoder returns whether it produced a message, the rest of the buffer, the message,
  and the text of a protocol error (empty when there is none), which is fired as an exception.
\<close>

type_synonym 'm decoder = "Buffer \<Rightarrow> crash + bool \<times> Buffer \<times> 'm \<times> string"

datatype 'm fired = Received 'm | Exception string

fun CallDecode ::
    "nat \<Rightarrow> 'm decoder \<Rightarrow> Buffer \<Rightarrow> 'm fired list \<Rightarrow> (crash + Buffer \<times> 'm fired list) option" where
  "CallDecode 0 Decode cumulation out = None"
| "CallDecode (Suc fuel) Decode cumulation out =
     (if \<not> Readable cumulation then Some (Inr (cumulation, out))
      else
        let oldReadableBytes = c_uint32 (int (ReadableBytes cumulation))
        in case Decode cumulation of
             Inl e \<Rightarrow> Some (Inl e)
           | Inr (ret, cumulation, msg, err) \<Rightarrow>
               let out = (if \<not> ret \<and> err \<noteq> [] then out @ [Exception err] else out)
               in if \<not> ret
                  then if oldReadableBytes = ReadableBytes cumulation
                       then Some (Inr (cumulation, out))
                       else CallDecode fuel Decode cumulation out
                  else CallDecode fuel Decode cumulation (out @ [Received msg]))"

text \<open>
  A round of \<open>CallDecode\<close> that does not stop consumes a byte, so one more round than there are
  readable bytes is enough for a decoder that makes progress (\<open>CallDecode_total\<close>).
\<close>

definition call_decode :: "'m decoder \<Rightarrow> Buffer \<Rightarrow> crash + Buffer \<times> 'm fired list" where
  "call_decode Decode b = the (CallDecode (Suc (ReadableBytes b)) Decode b [])"

definition MessageReceived ::
    "(nat \<Rightarrow> char) \<Rightarrow> 'm decoder \<Rightarrow> Buffer \<Rightarrow> Buffer
       \<Rightarrow> crash + Buffer \<times> Buffer \<times> 'm fired list" where
  "MessageReceived u Decode m_cumulation input =
     (if Readable m_cumulation
      then let m_cumulation = DiscardReadedBytes m_cumulation;
               (m_cumulation, input) =
                 Buffer_Write_unit u m_cumulation input (ReadableBytes input)
           in (case call_decode Decode m_cumulation of
                 Inl e \<Rightarrow> Inl e
               | Inr (m_cumulation, out) \<Rightarrow> Inr (m_cumulation, input, out))
      else case call_decode Decode input of
             Inl e \<Rightarrow> Inl e
           | Inr (input, out) \<Rightarrow>
               if Readable input
               then let (m_cumulation, input) =
                          Buffer_Write_unit u m_cumulation input (ReadableBytes input)
                    in Inr (m_cumulation, input, out)
               else Inr (m_cumulation, input, out))"

text \<open>Closing a channel decodes what is left, once more with \<open>DecodeLast\<close>, and empties the buffer.\<close>

definition Cleanup :: "'m decoder \<Rightarrow> Buffer \<Rightarrow> crash + Buffer \<times> 'm fired list" where
  "Cleanup Decode m_cumulation =
     (if \<not> Readable m_cumulation then Inr (m_cumulation, [])
      else case call_decode Decode m_cumulation of
             Inl e \<Rightarrow> Inl e
           | Inr (m_cumulation, out) \<Rightarrow>
               (case Decode m_cumulation of
                  Inl e \<Rightarrow> Inl e
                | Inr (ret, m_cumulation, msg, err) \<Rightarrow>
                    Inr (m_cumulation, out @ (if ret then [Received msg]
                                              else if err \<noteq> [] then [Exception err] else []))))"

definition ChannelClosed :: "'m decoder \<Rightarrow> Buffer \<Rightarrow> crash + Buffer \<times> 'm fired list" where
  "ChannelClosed Decode m_cumulation =
     (case Cleanup Decode m_cumulation of
        Inl e \<Rightarrow> Inl e
      | Inr (m_cumulation, out) \<Rightarrow> Inr (Buffer_Clear m_cumulation, out))"

text \<open>A connection: one \<open>MessageReceived\<close> for each packet.\<close>

fun receive_all ::
    "(nat \<Rightarrow> char) \<Rightarrow> 'm decoder \<Rightarrow> Buffer \<Rightarrow> Buffer list \<Rightarrow> crash + Buffer \<times> 'm fired list" where
  "receive_all u Decode m_cumulation [] = Inr (m_cumulation, [])"
| "receive_all u Decode m_cumulation (input # inputs) =
     (case MessageReceived u Decode m_cumulation input of
        Inl e \<Rightarrow> Inl e
      | Inr (m_cumulation, _, out) \<Rightarrow>
          (case receive_all u Decode m_cumulation inputs of
             Inl e \<Rightarrow> Inl e
           | Inr (m_cumulation, out') \<Rightarrow> Inr (m_cumulation, out @ out')))"

section \<open>Snapshot files and the message decoder\<close>

unbundle bit_operations_syntax

record RedisDumpFileChunk =
  chunk_len :: int
  chunk_flag :: "32 word"
  chunk_bytes :: string

record dump_state =
  m_waiting_chunk_len :: int
  m_all_chunk_len :: int

definition FIRST_CHUNK_FLAG :: "32 word" where "FIRST_CHUNK_FLAG = 0x01"
definition LAST_CHUNK_FLAG :: "32 word" where "LAST_CHUNK_FLAG = 0x02"

definition IsFirstChunk :: "RedisDumpFileChunk \<Rightarrow> bool" where
  "IsFirstChunk c \<longleftrightarrow> (chunk_flag c AND FIRST_CHUNK_FLAG) = FIRST_CHUNK_FLAG"

definition IsLastChunk :: "RedisDumpFileChunk \<Rightarrow> bool" where
  "IsLastChunk c \<longleftrightarrow> (chunk_flag c AND LAST_CHUNK_FLAG) = LAST_CHUNK_FLAG"

definition RedisDumpFileChunk_new :: RedisDumpFileChunk where
  "RedisDumpFileChunk_new = \<lparr>chunk_len = 0, chunk_flag = 0, chunk_bytes = []\<rparr>"

definition dump_state_new :: dump_state where
  "dump_state_new = \<lparr>m_waiting_chunk_len = 0, m_all_chunk_len = 0\<rparr>"

text \<open>A loop over the raw block, like \<^const>\<open>skip_crlf\<close>, for line feeds only.\<close>

function skip_lf :: "Buffer \<Rightarrow> Buffer option" where
  "skip_lf b =
     (if m_read_idx b < length (m_buffer b)
      then if m_buffer b ! m_read_idx b = LF then skip_lf (AdvanceReadIndex b 1) else Some b
      else None)"
  by pat_completeness auto
termination
  by (relation "measure (\<lambda>b. length (m_buffer b) - m_read_idx b)")
    (auto simp: AdvanceReadIndex_def)

declare skip_lf.simps [simp del]

text \<open>The part of \<open>Decode\<close> that hands out the bytes received of the file.\<close>

definition dump_body ::
    "dump_state \<Rightarrow> Buffer \<Rightarrow> RedisDumpFileChunk
       \<Rightarrow> crash + bool \<times> Buffer \<times> RedisDumpFileChunk \<times> dump_state" where
  "dump_body st buffer msg =
     (if Readable buffer
      then let msg = msg\<lparr>chunk_len := m_all_chunk_len st\<rparr>;
               chunklen = m_waiting_chunk_len st;
               chunklen = (if c_size chunklen > ReadableBytes buffer
                           then int (ReadableBytes buffer) else chunklen)
           in (case read_raw buffer chunklen of
                 Inl e \<Rightarrow> Inl e
               | Inr s \<Rightarrow>
                   let waiting = m_waiting_chunk_len st - chunklen
                   in Inr (True, SkipBytes buffer (c_size chunklen),
                        msg\<lparr>chunk_bytes := s,
                            chunk_flag := (if waiting = 0 then chunk_flag msg OR LAST_CHUNK_FLAG
                                           else chunk_flag msg)\<rparr>,
                        st\<lparr>m_waiting_chunk_len := waiting\<rparr>))
      else Inr (True, buffer, msg, st))"

text \<open>The early return of \<open>-1\<close> from a function of type \<open>bool\<close> is \<open>true\<close>.\<close>

definition DumpDecoder_Decode ::
    "dump_state \<Rightarrow> Buffer \<Rightarrow> RedisDumpFileChunk
       \<Rightarrow> crash + bool \<times> Buffer \<times> RedisDumpFileChunk \<times> dump_state" where
  "DumpDecoder_Decode st buffer msg =
     (if m_waiting_chunk_len st = 0
      then case skip_lf buffer of
             None \<Rightarrow> Inl OutOfBounds
           | Some buffer \<Rightarrow>
               let crlf_index = IndexOf buffer CRLF
               in if crlf_index = - 1 then Inr (False, buffer, msg, st)
                  else case ReadByte buffer of
                         None \<Rightarrow> Inl OutOfBounds
                       | Some (type, buffer) \<Rightarrow>
                           (case raw_toint64 (line_text buffer crlf_index) of
                              None \<Rightarrow> Inr (True, buffer, msg, st)
                            | Some len \<Rightarrow>
                                dump_body
                                  (st\<lparr>m_all_chunk_len := len, m_waiting_chunk_len := len\<rparr>)
                                  (SetReadIndex buffer (nat crlf_index + 2))
                                  (msg\<lparr>chunk_len := len,
                                       chunk_flag := chunk_flag msg OR FIRST_CHUNK_FLAG\<rparr>))
      else dump_body st buffer msg)"

datatype RedisMessage =
    CommandMessage RedisCommandFrame
  | ReplyMessage RedisReply
  | ChunkMessage RedisDumpFileChunk

definition REDIS_COMMAND_DECODER_TYPE :: nat where "REDIS_COMMAND_DECODER_TYPE = 1"
definition REDIS_REPLY_DECODER_TYPE :: nat where "REDIS_REPLY_DECODER_TYPE = 2"
definition REDIS_DUMP_DECODER_TYPE :: nat where "REDIS_DUMP_DECODER_TYPE = 3"

record message_decoder =
  m_decoder_type :: nat
  m_dump_file_decoder :: dump_state

definition message_decoder_new :: message_decoder where
  "message_decoder_new = \<lparr>m_decoder_type = REDIS_COMMAND_DECODER_TYPE,
     m_dump_file_decoder = dump_state_new\<rparr>"

definition SwitchToCommandDecoder :: "message_decoder \<Rightarrow> message_decoder" where
  "SwitchToCommandDecoder d = d\<lparr>m_decoder_type := REDIS_COMMAND_DECODER_TYPE\<rparr>"

definition SwitchToReplyDecoder :: "message_decoder \<Rightarrow> message_decoder" where
  "SwitchToReplyDecoder d = d\<lparr>m_decoder_type := REDIS_REPLY_DECODER_TYPE\<rparr>"

definition SwitchToDumpFileDecoder :: "message_decoder \<Rightarrow> message_decoder" where
  "SwitchToDumpFileDecoder d = d\<lparr>m_decoder_type := REDIS_DUMP_DECODER_TYPE\<rparr>"

text \<open>
  The two stateless message decoders as instances of \<^typ>\<open>'m decoder\<close>. The reply decoder closes
  the channel on an error instead of firing an exception; that flag is dropped here.
\<close>

definition command_decoder :: "RedisCommandFrame decoder" where
  "command_decoder buffer = Command_Decode buffer (RedisCommandFrame_new [])"

definition reply_decoder :: "RedisReply decoder" where
  "reply_decoder buffer =
     (case ReplyDecoder_Decode buffer of
        Inl e \<Rightarrow> Inl e
      | Inr (ret, _, buffer, msg) \<Rightarrow> Inr (ret, buffer, msg, []))"

definition Message_Decode ::
    "message_decoder \<Rightarrow> Buffer
       \<Rightarrow> crash + bool \<times> Buffer \<times> RedisMessage \<times> string \<times> message_decoder" where
  "Message_Decode d buffer =
     (if m_decoder_type d = REDIS_REPLY_DECODER_TYPE
      then map_sum id (\<lambda>(ret, b, m, e). (ret, b, ReplyMessage m, e, d)) (reply_decoder buffer)
      else if m_decoder_type d = REDIS_COMMAND_DECODER_TYPE
      then map_sum id (\<lambda>(ret, b, m, e). (ret, b, CommandMessage m, e, d)) (command_decoder buffer)
      else map_sum id (\<lambda>(ret, b, m, st). (ret, b, ChunkMessage m, [], d\<lparr>m_dump_file_decoder := st\<rparr>))
             (DumpDecoder_Decode (m_dump_file_decoder d) buffer RedisDumpFileChunk_new))"

section \<open>The contract of a message decoder\<close>

text \<open>
  What the frame decoder relies on: a complete frame in front is decoded and consumed whatever
  follows it, and on a strict prefix of a frame the decoder asks for more and leaves the buffer
  alone (or reads past its block).
\<close>

locale frame_decoder =
  fixes decode :: "'m decoder" and enc :: "'v \<Rightarrow> string" and ok :: "'v \<Rightarrow> bool" and view :: "'m \<Rightarrow> 'v"
  assumes enc_nonempty: "enc v \<noteq> []"
    and full: "buf_wf b \<Longrightarrow> m_write_idx b < 2 ^ 31 \<Longrightarrow> ok v \<Longrightarrow> content b = enc v @ rest \<Longrightarrow>
      \<exists>b' m. decode b = Inr (True, b', m, []) \<and> view m = v \<and> buf_wf b' \<and> content b' = rest
        \<and> m_write_idx b' = m_write_idx b"
    and part: "buf_wf b \<Longrightarrow> m_write_idx b < 2 ^ 31 \<Longrightarrow> ok v \<Longrightarrow> strict_prefix (content b) (enc v) \<Longrightarrow>
      content b \<noteq> [] \<Longrightarrow> (\<exists>m. decode b = Inr (False, b, m, [])) \<or> decode b = Inl OutOfBounds"
begin

definition stream :: "'v list \<Rightarrow> string" where
  "stream vs = concat (map enc vs)"

text \<open>\<open>pending p vs\<close>: \<open>p\<close> is the part already received of the next frame of \<open>vs\<close>.\<close>

definition pending :: "string \<Rightarrow> 'v list \<Rightarrow> bool" where
  "pending p vs \<longleftrightarrow> p = [] \<or> (\<exists>v vs'. vs = v # vs' \<and> ok v \<and> strict_prefix p (enc v))"

lemma split_stream:
  assumes "prefix t (stream vs)" "\<forall>v \<in> set vs. ok v"
  shows "\<exists>vs1 vs2 p. vs = vs1 @ vs2 \<and> t = stream vs1 @ p \<and> pending p vs2"
  using assms
proof (induction vs arbitrary: t)
  case Nil
  then show ?case by (auto simp: stream_def pending_def)
next
  case (Cons v vs)
  show ?case
  proof (cases "strict_prefix t (enc v)")
    case True
    then show ?thesis
      using Cons.prems(2)
      by (intro exI [of _ "[]"] exI [of _ "v # vs"] exI [of _ t]) (simp add: stream_def pending_def)
  next
    case False
    then obtain t' where t': "t = enc v @ t'" "prefix t' (stream vs)"
      using Cons.prems(1) by (auto simp: stream_def prefix_append strict_prefix_def)
    obtain vs1 vs2 p where "vs = vs1 @ vs2" "t' = stream vs1 @ p" "pending p vs2"
      using Cons.IH [OF t'(2)] Cons.prems(2) by auto
    then show ?thesis
      using t'(1) by (intro exI [of _ "v # vs1"] exI [of _ vs2] exI [of _ p]) (simp add: stream_def)
  qed
qed

lemma CallDecode_stream:
  assumes "buf_wf b" "m_write_idx b < 2 ^ 31" "\<forall>v \<in> set vs. ok v" "pending p rest"
    and "content b = stream vs @ p" "length (content b) < n"
  shows "CallDecode n decode b out = Some (Inl OutOfBounds) \<and> p \<noteq> [] \<or>
    (\<exists>b' ms. CallDecode n decode b out = Some (Inr (b', out @ map Received ms)) \<and> map view ms = vs
      \<and> buf_wf b' \<and> content b' = p \<and> m_write_idx b' = m_write_idx b)"
  using assms
proof (induction vs arbitrary: b n out)
  case Nil
  obtain m where n: "n = Suc m" using Nil.prems(6) by (cases n) auto
  show ?case
  proof (cases "p = []")
    case True
    then show ?thesis
      using Nil.prems by (simp add: n Readable_content stream_def)
  next
    case False
    then obtain v where v: "ok v" "strict_prefix p (enc v)"
      using Nil.prems(4) by (auto simp: pending_def)
    have c: "content b = p" using Nil.prems(5) by (simp add: stream_def)
    have "c_uint32 (int (ReadableBytes b)) = ReadableBytes b"
      using Nil.prems(1,2) write_idx_content [OF Nil.prems(1)] by simp
    then show ?thesis
      using part [OF Nil.prems(1,2) v(1)] v(2) c False Nil.prems(1)
      by (auto simp: n Readable_content Let_def)
  qed
next
  case (Cons v vs)
  obtain m where n: "n = Suc m" using Cons.prems(6) by (cases n) auto
  have c: "content b = enc v @ (stream vs @ p)" using Cons.prems(5) by (simp add: stream_def)
  obtain b1 msg where msg: "decode b = Inr (True, b1, msg, [])" "view msg = v"
    and b1: "buf_wf b1" "content b1 = stream vs @ p" "m_write_idx b1 = m_write_idx b"
    using full [OF Cons.prems(1,2) _ c] Cons.prems(3) by auto
  have ne: "content b \<noteq> []" and "length (content b1) < m"
    using c b1(2) Cons.prems(6) enc_nonempty [of v] by (auto simp: n) (cases "enc v", auto)
  then have step: "CallDecode n decode b out = CallDecode m decode b1 (out @ [Received msg])"
    using Cons.prems(1) msg(1) by (simp add: n Readable_content Let_def)
  have "CallDecode m decode b1 (out @ [Received msg]) = Some (Inl OutOfBounds) \<and> p \<noteq> [] \<or>
    (\<exists>b' ms. CallDecode m decode b1 (out @ [Received msg])
        = Some (Inr (b', (out @ [Received msg]) @ map Received ms)) \<and> map view ms = vs
      \<and> buf_wf b' \<and> content b' = p \<and> m_write_idx b' = m_write_idx b1)"
    using Cons.IH [OF b1(1) _ _ Cons.prems(4) b1(2), of m "out @ [Received msg]"] Cons.prems(2,3)
      b1(3) \<open>length (content b1) < m\<close>
    by simp
  then show ?case
  proof (elim disjE exE conjE)
    fix b' ms
    assume "CallDecode m decode b1 (out @ [Received msg]) = Some (Inr (b', (out @ [Received msg]) @ map Received ms))"
      "map view ms = vs" "buf_wf b'" "content b' = p" "m_write_idx b' = m_write_idx b1"
    then show ?thesis
      using step msg(2) b1(3)
      by (intro disjI2 exI [of _ b'] exI [of _ "msg # ms"]) simp
  qed (simp add: step)
qed

text \<open>One packet: the frames it completes are delivered, the rest waits for the next one.\<close>

lemma MessageReceived_stream:
  assumes cum: "buf_wf cum" and inp: "buf_wf input" "m_write_idx input < 2 ^ 31"
    and room: "m_write_idx cum + length (content input) < 2 ^ 31"
    and vs: "\<forall>v \<in> set vs. ok v" and p: "pending p rest"
    and c: "content cum @ content input = stream vs @ p"
  shows "MessageReceived u decode cum input = Inl OutOfBounds \<and> p \<noteq> [] \<or>
    (\<exists>cum' input' ms. MessageReceived u decode cum input = Inr (cum', input', map Received ms)
      \<and> map view ms = vs \<and> buf_wf cum' \<and> content cum' = p
      \<and> m_write_idx cum' \<le> m_write_idx cum + length (content input))"
proof (cases "Readable cum")
  case True
  note d = DiscardReadedBytes_spec [OF cum]
  obtain b i' where w: "Buffer_Write_unit u (DiscardReadedBytes cum) input (ReadableBytes input) = (b, i')"
    by fastforce
  have len: "length (content input) < 2 ^ 31" using room by simp
  have b: "buf_wf b" "content b = stream vs @ p"
    using Buffer_Write_unit_all [OF d(1) inp(1) len w] d(2) c by auto
  have "m_read_idx b = 0"
    using w d(3) by (auto simp: Buffer_Write_unit_def Let_def)
  then have wi: "m_write_idx b = length (content cum) + length (content input)"
    using write_idx_content [OF b(1)] b(2) c by (metis add_0 length_append)
  moreover have "length (content cum) \<le> m_write_idx cum"
    using length_content [OF cum] by simp
  ultimately have le: "m_write_idx b \<le> m_write_idx cum + length (content input)" by simp
  have small: "m_write_idx b < 2 ^ 31" using le room by simp
  have fuel: "length (content b) < Suc (ReadableBytes b)" using b(1) by simp
  show ?thesis
    using CallDecode_stream [OF b(1) small vs p b(2) fuel, of "[]"] True w le
    by (auto simp: MessageReceived_def call_decode_def simp del: CallDecode.simps)
next
  case False
  then have ce: "content cum = []" using cum by (simp add: Readable_content)
  have fuel: "length (content input) < Suc (ReadableBytes input)" using inp(1) by simp
  have ci: "content input = stream vs @ p" using c ce by simp
  have cd: "call_decode decode input = Inl OutOfBounds \<and> p \<noteq> [] \<or>
    (\<exists>b' ms. call_decode decode input = Inr (b', map Received ms) \<and> map view ms = vs
      \<and> buf_wf b' \<and> content b' = p \<and> m_write_idx b' = m_write_idx input)"
    using CallDecode_stream [OF inp vs p ci fuel, of "[]"]
    by (auto simp: call_decode_def simp del: CallDecode.simps)
  then show ?thesis
  proof (elim disjE exE conjE)
    fix b ms
    assume b: "call_decode decode input = Inr (b, map Received ms)" "map view ms = vs" "buf_wf b"
      "content b = p" "m_write_idx b = m_write_idx input"
    obtain cum' i' where w: "Buffer_Write_unit u cum b (ReadableBytes b) = (cum', i')" by fastforce
    have len: "length (content b) < 2 ^ 31" "length p \<le> length (content input)"
      using room ci b(4) by auto
    have cum': "buf_wf cum'" "content cum' = p"
      using Buffer_Write_unit_all [OF cum b(3) len(1) w] b(4) ce by auto
    have "m_write_idx cum' = m_write_idx cum + length p"
      using w b(3,4) length_content [OF b(3)]
      by (auto simp: Buffer_Write_unit_def Let_def Buffer_Write_def buf_wf_def)
    then show ?thesis
      using False b w cum' len(2) cum ce
      by (cases "p = []") (auto simp: MessageReceived_def Readable_content)
  qed (simp add: MessageReceived_def False)
qed

text \<open>The whole connection: the messages depend on the stream alone.\<close>

lemma receive_all_stream:
  assumes "buf_wf cum" "pending (content cum) vs" "\<forall>v \<in> set vs. ok v"
    and "\<forall>i \<in> set inputs. buf_wf i \<and> m_write_idx i < 2 ^ 31"
    and "content cum @ concat (map content inputs) = stream vs"
    and "m_write_idx cum + length (concat (map content inputs)) < 2 ^ 31"
  shows "receive_all u decode cum inputs = Inl OutOfBounds \<or>
    (\<exists>cum' ms. receive_all u decode cum inputs = Inr (cum', map Received ms) \<and> map view ms = vs
      \<and> content cum' = [])"
  using assms
proof (induction inputs arbitrary: cum vs)
  case Nil
  have "vs = []"
  proof (rule ccontr)
    assume "vs \<noteq> []"
    then obtain v vs' where vs: "vs = v # vs'" by (cases vs) auto
    then have "content cum = enc v @ stream vs'" using Nil.prems(5) by (simp add: stream_def)
    then show False
      using Nil.prems(2) vs enc_nonempty [of v] by (auto simp: pending_def strict_prefix_def prefix_def)
  qed
  then show ?case using Nil.prems(5) by (simp add: stream_def)
next
  case (Cons i inputs)
  have "prefix (content cum @ content i) (stream vs)"
    unfolding prefix_def using Cons.prems(5) by (intro exI [of _ "concat (map content inputs)"]) simp
  then obtain vs1 vs2 p where s: "vs = vs1 @ vs2" "content cum @ content i = stream vs1 @ p" "pending p vs2"
    using split_stream Cons.prems(3) by blast
  have rest: "p @ concat (map content inputs) = stream vs2"
    using Cons.prems(5) s(1) arg_cong [OF s(2), of "\<lambda>x. x @ concat (map content inputs)"]
    by (simp add: stream_def)
  have "MessageReceived u decode cum i = Inl OutOfBounds \<and> p \<noteq> [] \<or>
    (\<exists>cum' input' ms. MessageReceived u decode cum i = Inr (cum', input', map Received ms)
      \<and> map view ms = vs1 \<and> buf_wf cum' \<and> content cum' = p
      \<and> m_write_idx cum' \<le> m_write_idx cum + length (content i))"
    using MessageReceived_stream [OF Cons.prems(1) _ _ _ _ s(3,2)] Cons.prems(3,4,6) s(1) by auto
  then show ?case
  proof (elim disjE exE conjE)
    fix cum' i' ms
    assume m: "MessageReceived u decode cum i = Inr (cum', i', map Received ms)" "map view ms = vs1"
      "buf_wf cum'" "content cum' = p" "m_write_idx cum' \<le> m_write_idx cum + length (content i)"
    have "receive_all u decode cum' inputs = Inl OutOfBounds \<or>
      (\<exists>cum'' ms. receive_all u decode cum' inputs = Inr (cum'', map Received ms) \<and> map view ms = vs2
        \<and> content cum'' = [])"
      using Cons.IH [of cum' vs2] m(3-5) s(1,3) rest Cons.prems(3,4,6) by auto
    then show ?thesis
    proof (elim disjE exE conjE)
      fix cum'' ms'
      assume "receive_all u decode cum' inputs = Inr (cum'', map Received ms')" "map view ms' = vs2"
        "content cum'' = []"
      then show ?thesis
        using m(1,2) s(1) by (intro disjI2 exI [of _ cum''] exI [of _ "ms @ ms'"]) simp
    qed (simp add: m(1))
  qed simp
qed

end

section \<open>The command decoder keeps the contract\<close>

definition request_enc :: "string \<times> string list \<Rightarrow> string" where
  "request_enc r = render_command (fst r) (snd r)"

definition request_valid :: "string \<times> string list \<Rightarrow> bool" where
  "request_valid r \<longleftrightarrow> request_ok (fst r) (snd r)"

definition request_view :: "RedisCommandFrame \<Rightarrow> string \<times> string list" where
  "request_view f = (m_cmd f, m_args f)"

interpretation cmd_frames: frame_decoder command_decoder request_enc request_valid request_view
proof
  show "request_enc v \<noteq> []" for v
    by (simp add: request_enc_def render_command_def)
  show "\<exists>b' m. command_decoder b = Inr (True, b', m, []) \<and> request_view m = v \<and> buf_wf b'
      \<and> content b' = rest \<and> m_write_idx b' = m_write_idx b"
    if "buf_wf b" "m_write_idx b < 2 ^ 31" "request_valid v" "content b = request_enc v @ rest" for b v rest
    using Command_Decode_full [OF that(1,2), of "fst v" "snd v" rest] that(3,4)
      content_advance [OF that(1,4)]
    by (auto simp: command_decoder_def request_enc_def request_valid_def request_view_def)
  show "(\<exists>m. command_decoder b = Inr (False, b, m, [])) \<or> command_decoder b = Inl OutOfBounds"
    if "buf_wf b" "m_write_idx b < 2 ^ 31" "request_valid v" "strict_prefix (content b) (request_enc v)"
      "content b \<noteq> []" for b v
    using Command_Decode_part [OF that(1,2), of "fst v" "snd v" "RedisCommandFrame_new []"] that(3-5)
    by (auto simp: command_decoder_def request_enc_def request_valid_def)
qed

section \<open>The reply decoder keeps it for line replies\<close>

definition line_reply :: "RedisReply \<Rightarrow> bool" where
  "line_reply r \<longleftrightarrow> sendable r \<and> wire_view r = r \<and>
     (case r of RedisReply ty str i d el \<Rightarrow>
        ty \<in> {REDIS_REPLY_STATUS, REDIS_REPLY_ERROR, REDIS_REPLY_INTEGER, REDIS_REPLY_NIL})"

lemma line_reply_render:
  "line_reply r \<Longrightarrow> \<exists>xs. render r = xs @ CRLF \<and> CR \<notin> set xs \<and> xs \<noteq> [] \<and> hd xs \<noteq> LF"
  using stringfromll_no_cr
  by (cases r) (auto simp: line_reply_def line_ok_def split: if_splits)

lemma IndexOf_cut_line:
  assumes "buf_wf b" "strict_prefix (content b) (xs @ CRLF)" "CR \<notin> set xs"
  shows "IndexOf b CRLF = - 1"
proof -
  have len: "length (content b) = m_write_idx b - m_read_idx b" and e: "m_write_idx b \<le> length (m_buffer b)"
    using assms(1) length_content by (auto simp: buf_wf_def)
  consider "CR \<notin> set (content b)" | "content b = xs @ [CR]"
    using assms(2,3) set_mono_prefix [of "content b" xs]
    by (auto simp: strict_prefix_def prefix_append prefix_Cons)
  then have "index_of_loop (m_buffer b) CR [LF] (m_read_idx b) (m_write_idx b) = None"
  proof cases
    case 1
    then show ?thesis by (intro index_of_loop_absent) (simp add: content_def)
  next
    case 2
    then have "memchr CR (region (m_buffer b) (m_read_idx b) (m_write_idx b)) = Some (length xs)"
      using assms(3) by (simp add: content_def [symmetric])
    moreover have "m_write_idx b = m_read_idx b + length xs + 1"
      using 2 write_idx_content [OF assms(1)] by simp
    ultimately show ?thesis
      by (simp add: index_of_loop.simps [of "m_buffer b"] Let_def)
  qed
  then show ?thesis
    by (simp add: IndexOf_def IndexOf_range_def)
qed

interpretation reply_frames: frame_decoder reply_decoder render line_reply id
proof
  show "render v \<noteq> []" for v
    using render_length [of v] by auto
  show "\<exists>b' m. reply_decoder b = Inr (True, b', m, []) \<and> id m = v \<and> buf_wf b'
      \<and> content b' = rest \<and> m_write_idx b' = m_write_idx b"
    if b: "buf_wf b" "m_write_idx b < 2 ^ 31" "line_reply v" "content b = render v @ rest" for b v rest
  proof -
    have "length (render v) \<le> Suc (ReadableBytes b)" using b(1,4) by simp
    moreover have "decodes v" "wire_view v = v"
      using b(3) sendable_decodes by (auto simp: line_reply_def)
    ultimately obtain b' where b': "decode_reply (Suc (ReadableBytes b)) b reply_new = Some (Inr (1, b', v))"
      "buf_wf b'" "content b' = rest" "m_write_idx b' = m_write_idx b"
      using b unfolding decodes_def by metis
    have "skip_crlf b = Some b"
      using render_hd [of v] b(1,4) skip_crlf_stays by (metis append_Cons)
    then have "ReplyDecoder_Decode b = Inr (True, False, b', v)"
      using b'(1) by (simp add: ReplyDecoder_Decode_def del: decode_reply.simps)
    then show ?thesis using b'(2-4) by (simp add: reply_decoder_def)
  qed
  show "(\<exists>m. reply_decoder b = Inr (False, b, m, [])) \<or> reply_decoder b = Inl OutOfBounds"
    if b: "buf_wf b" "m_write_idx b < 2 ^ 31" "line_reply v" "strict_prefix (content b) (render v)"
      "content b \<noteq> []" for b v
  proof -
    obtain xs where xs: "render v = xs @ CRLF" "CR \<notin> set xs" "xs \<noteq> []" "hd xs \<noteq> LF"
      using line_reply_render [OF b(3)] by blast
    have idx: "IndexOf b CRLF = - 1"
      using IndexOf_cut_line [OF b(1) _ xs(2)] b(4) xs(1) by simp
    obtain c cs where c: "content b = c # cs" using b(5) by (cases "content b") auto
    have "c = hd xs"
      using b(4) xs(1,3) c by (cases xs) (auto simp: strict_prefix_def)
    then have "skip_crlf b = Some b"
      using skip_crlf_stays [OF b(1) c] xs(2-4) by (metis hd_in_set)
    then show ?thesis
      using idx by (simp add: reply_decoder_def ReplyDecoder_Decode_def Let_def)
  qed
qed

section \<open>The decoding loop ends\<close>

lemma CallDecode_total:
  assumes progress: "\<And>b ret b' m e. buf_small b \<Longrightarrow> dec b = Inr (ret, b', m, e) \<Longrightarrow>
      buf_small b' \<and> ReadableBytes b' \<le> ReadableBytes b \<and> (ret \<longrightarrow> ReadableBytes b' < ReadableBytes b)"
    and "buf_small b" "ReadableBytes b < n"
  shows "\<exists>r. CallDecode n dec b out = Some r"
  using assms(2,3)
proof (induction n arbitrary: b out)
  case (Suc n)
  show ?case
  proof (cases "dec b")
    case (Inr r)
    obtain ret b' m e where r: "r = (ret, b', m, e)" by (cases r)
    note p = progress [OF Suc.prems(1) Inr [unfolded r]]
    have old: "c_uint32 (int (ReadableBytes b)) = ReadableBytes b"
      using Suc.prems(1) by (auto simp: buf_small_def ReadableBytes_def)
    have rec: "\<exists>r. CallDecode n dec b' o' = Some r" if "ReadableBytes b' < ReadableBytes b" for o'
      using Suc.IH [of b' o'] p that Suc.prems(2) by simp
    show ?thesis
      using Inr r p rec unfolding CallDecode.simps Let_def old by auto
  qed (auto simp: Let_def)
qed simp

section \<open>Properties of the frame decoder\<close>

lemma request_stream:
  "cmd_frames.stream requests = concat (map (\<lambda>r. render_command (fst r) (snd r)) requests)"
  "cmd_frames.pending [] requests" "request_view = (\<lambda>f. (m_cmd f, m_args f))"
  unfolding cmd_frames.stream_def cmd_frames.pending_def
  by (simp_all add: request_enc_def [abs_def] request_view_def fun_eq_iff)


text \<open>
  Pipelined requests that arrive in one packet are all delivered, in order and without any
  crash, and nothing is left in either buffer.
\<close>

theorem pipelined_requests_delivered:
  assumes "buf_wf cum" and "content cum = []" and "buf_wf input" and "m_write_idx input < 2 ^ 31"
    and "m_write_idx cum + length (content input) < 2 ^ 31"
    and "\<forall>r \<in> set requests. request_ok (fst r) (snd r)"
    and "content input = concat (map (\<lambda>r. render_command (fst r) (snd r)) requests)"
  shows "\<exists>cum' input' ms. MessageReceived u command_decoder cum input = Inr (cum', input', map Received ms)
    \<and> map (\<lambda>f. (m_cmd f, m_args f)) ms = requests \<and> content cum' = []"
  using cmd_frames.MessageReceived_stream [OF assms(1,3,4,5), of requests "[]" "[]" u] assms(2,6,7)
  by (auto simp: request_stream request_valid_def)

text \<open>
  C31: The decoding loop of a connection ends on every input, valid or not: with any buffer whose
  block is below 2 GiB, as many rounds as there are readable bytes and one more reach a result,
  because every message and every protocol error consumes at least one byte.
\<close>

theorem command_loop_ends:
  assumes "buf_small b"
  shows "\<exists>r. CallDecode (Suc (ReadableBytes b)) command_decoder b out = Some r"
proof (rule CallDecode_total [OF _ assms])
  fix b ret b' m e
  assume b: "buf_small b" and d: "command_decoder b = Inr (ret, b', m, e)"
  note p = Command_Decode_progress [OF b d [unfolded command_decoder_def]]
  show "buf_small b' \<and> ReadableBytes b' \<le> ReadableBytes b \<and> (ret \<longrightarrow> ReadableBytes b' < ReadableBytes b)"
    using p(2) moved_keeps(3,5) [OF p(1)] b by auto
qed simp

section \<open>Witnesses\<close>

lemma render_ping: "render_command ''ping'' [] = ''*1'' @ CRLF @ ''$4'' @ CRLF @ ''ping'' @ CRLF"
  by code_simp


theorem pipelined_requests_delivered_witness:
  "\<exists>cum' input' ms. MessageReceived (\<lambda>_. NUL) command_decoder Buffer_new
       (text_buffer (render_command ''ping'' [] @ render_command ''ping'' [])) = Inr (cum', input', map Received ms)
    \<and> map (\<lambda>f. (m_cmd f, m_args f)) ms = [(''ping'', []), (''ping'', [])] \<and> content cum' = []"
  by (rule pipelined_requests_delivered) (simp_all add: render_ping request_ok_def, simp add: Buffer_new_def)

theorem command_loop_ends_witness:
  "\<exists>r. CallDecode (Suc (ReadableBytes (text_buffer ''GET x''))) command_decoder (text_buffer ''GET x'') [] = Some r"
  by (rule command_loop_ends) (simp add: buf_small_def)

end
