(* ===== verification/Tree_Map.thy ===== *)
theory Tree_Map
  imports Comms_Prelude "HOL-Library.List_Lexorder" "HOL-Library.Char_ord"
begin

text \<open>
  The ordered containers \<open>TreeMap\<close> and \<open>TreeSet\<close> of the sources as sorted lists (their iteration
  order is the key order), and the bookkeeping pattern that watched keys, subscriptions and
  blocked lists share: every client context keeps the set of keys it registered, and a global
  table maps a key to the contexts registered for it. The pattern is the locale \<open>registry\<close>; the
  server interprets it for its four tables.
\<close>

section \<open>Ordered sets and maps\<close>

type_synonym 'a tree_set = "'a list"
type_synonym ('k, 'v) tree_map = "('k \<times> 'v) list"

definition set_insert :: "'a :: linorder \<Rightarrow> 'a tree_set \<Rightarrow> 'a tree_set" where
  "set_insert x xs = insort_insert x xs"

definition set_erase :: "'a :: linorder \<Rightarrow> 'a tree_set \<Rightarrow> 'a tree_set" where
  "set_erase x xs = remove1 x xs"

definition set_ok :: "'a :: linorder tree_set \<Rightarrow> bool" where
  "set_ok xs \<longleftrightarrow> sorted xs \<and> distinct xs"

lemma set_set_insert [simp]: "set (set_insert x xs) = insert x (set xs)"
  by (auto simp: set_insert_def set_insort_insert)

lemma set_set_erase [simp]: "set_ok xs \<Longrightarrow> set (set_erase x xs) = set xs - {x}"
  by (simp add: set_erase_def set_ok_def)

lemma set_ok_insert [simp]: "set_ok xs \<Longrightarrow> set_ok (set_insert x xs)"
  by (simp add: set_ok_def set_insert_def sorted_insort_insert distinct_insort_insert)

lemma set_ok_erase [simp]: "set_ok xs \<Longrightarrow> set_ok (set_erase x xs)"
  by (simp add: set_ok_def set_erase_def sorted_remove1)

lemma set_ok_Nil [simp]: "set_ok []"
  by (simp add: set_ok_def)

lemma set_insert_nonempty [simp]: "set_insert x xs \<noteq> []"
  by (metis insert_not_empty list.set(1) set_set_insert)

fun map_find :: "'k \<Rightarrow> ('k, 'v) tree_map \<Rightarrow> 'v option" where
  "map_find k [] = None"
| "map_find k ((k', v) # m) = (if k = k' then Some v else map_find k m)"

fun map_put :: "'k :: linorder \<Rightarrow> 'v \<Rightarrow> ('k, 'v) tree_map \<Rightarrow> ('k, 'v) tree_map" where
  "map_put k v [] = [(k, v)]"
| "map_put k v ((k', v') # m) =
     (if k < k' then (k, v) # (k', v') # m
      else if k = k' then (k, v) # m
      else (k', v') # map_put k v m)"

fun map_erase :: "'k \<Rightarrow> ('k, 'v) tree_map \<Rightarrow> ('k, 'v) tree_map" where
  "map_erase k [] = []"
| "map_erase k ((k', v) # m) = (if k = k' then m else (k', v) # map_erase k m)"

definition map_ok :: "('k :: linorder, 'v) tree_map \<Rightarrow> bool" where
  "map_ok m \<longleftrightarrow> sorted_wrt (<) (map fst m)"

lemma map_ok_simps [simp]:
  "map_ok []" "map_ok (p # m) \<longleftrightarrow> (\<forall>q \<in> set m. fst p < fst q) \<and> map_ok m"
  by (auto simp: map_ok_def)

lemma keys_map_put [simp]: "fst ` set (map_put k v m) = insert k (fst ` set m)"
  by (induction k v m rule: map_put.induct) auto

lemma map_ok_put [simp]: "map_ok m \<Longrightarrow> map_ok (map_put k v m)"
proof (induction k v m rule: map_put.induct)
  case (2 k v k' v' m)
  have "\<forall>q \<in> set (map_put k v m). k' < fst q" if "k' < k" "\<forall>q \<in> set m. k' < fst q"
    using that keys_map_put [of k v m] by (metis imageE image_eqI insertE)
  then show ?case using 2 by (auto intro: less_trans)
qed simp

lemma map_find_None: "map_find k m = None \<longleftrightarrow> k \<notin> fst ` set m"
  by (induction k m rule: map_find.induct) auto

lemma map_find_put [simp]:
  "map_ok m \<Longrightarrow> map_find k' (map_put k v m) = (if k' = k then Some v else map_find k' m)"
proof (induction k v m rule: map_put.induct)
  case (2 k v k1 v1 m)
  then show ?case by auto
qed auto

lemma keys_map_erase: "map_ok m \<Longrightarrow> set (map_erase k m) = {p \<in> set m. fst p \<noteq> k}"
  by (induction k m rule: map_erase.induct) auto

lemma map_ok_erase [simp]: "map_ok m \<Longrightarrow> map_ok (map_erase k m)"
  by (induction k m rule: map_erase.induct) (auto simp: keys_map_erase)

lemma map_find_erase [simp]:
  "map_ok m \<Longrightarrow> map_find k' (map_erase k m) = (if k' = k then None else map_find k' m)"
proof (induction k m rule: map_erase.induct)
  case (2 k k1 v1 m)
  have "k1 \<notin> fst ` set m" using 2(2) by auto
  then have "map_find k1 m = None" by (simp add: map_find_None)
  then show ?case using 2 by auto
qed simp

lemma map_find_Some: "map_ok m \<Longrightarrow> map_find k m = Some v \<longleftrightarrow> (k, v) \<in> set m"
proof (induction k m rule: map_find.induct)
  case (2 k k1 v1 m)
  then show ?case by force
qed simp

section \<open>Tables of registered contexts\<close>

text \<open>
  \<open>table[key].insert(&ctx)\<close>, and its inverse as it is written four times in the sources: find,
  erase the context, erase the entry when no context is left.
\<close>

type_synonym ctxid = nat

definition table_lookup :: "('k, ctxid tree_set) tree_map \<Rightarrow> 'k \<Rightarrow> ctxid tree_set" where
  "table_lookup t k = (case map_find k t of None \<Rightarrow> [] | Some cs \<Rightarrow> cs)"

definition table_add :: "'k :: linorder \<Rightarrow> ctxid \<Rightarrow> ('k, ctxid tree_set) tree_map
    \<Rightarrow> ('k, ctxid tree_set) tree_map" where
  "table_add k c t = map_put k (set_insert c (table_lookup t k)) t"

definition table_del :: "'k :: linorder \<Rightarrow> ctxid \<Rightarrow> ('k, ctxid tree_set) tree_map
    \<Rightarrow> ('k, ctxid tree_set) tree_map" where
  "table_del k c t =
     (case map_find k t of
        None \<Rightarrow> t
      | Some cs \<Rightarrow> (let cs = set_erase c cs in if cs = [] then map_erase k t else map_put k cs t))"

definition table_ok :: "('k :: linorder, ctxid tree_set) tree_map \<Rightarrow> bool" where
  "table_ok t \<longleftrightarrow> map_ok t \<and> (\<forall>p \<in> set t. set_ok (snd p) \<and> snd p \<noteq> [])"

lemma table_ok_lookup:
  "table_ok t \<Longrightarrow> set_ok (table_lookup t k)"
  "table_ok t \<Longrightarrow> map_find k t = None \<longleftrightarrow> table_lookup t k = []"
  using map_find_Some [of t k] by (fastforce simp: table_ok_def table_lookup_def split: option.splits)+

lemma set_map_put: "map_ok m \<Longrightarrow> set (map_put k v m) = insert (k, v) {p \<in> set m. fst p \<noteq> k}"
proof (induction k v m rule: map_put.induct)
  case (2 k v k1 v1 m)
  then show ?case by (auto dest: less_trans)
qed simp

lemma table_ok_add [simp]: "table_ok t \<Longrightarrow> table_ok (table_add k c t)"
  using table_ok_lookup(1) [of t k] by (auto simp: table_ok_def table_add_def set_map_put)

lemma table_ok_del [simp]: "table_ok t \<Longrightarrow> table_ok (table_del k c t)"
  using map_find_Some [of t k]
  by (auto simp: table_ok_def table_del_def Let_def set_map_put keys_map_erase split: option.splits)

lemma table_lookup_add [simp]:
  "table_ok t \<Longrightarrow> set (table_lookup (table_add k c t) k') =
     (if k' = k then insert c (set (table_lookup t k)) else set (table_lookup t k'))"
  by (auto simp: table_ok_def table_add_def table_lookup_def)

lemma table_lookup_del [simp]:
  assumes "table_ok t"
  shows "set (table_lookup (table_del k c t) k') =
     (if k' = k then set (table_lookup t k) - {c} else set (table_lookup t k'))"
proof (cases "map_find k t")
  case None
  then show ?thesis by (auto simp: table_del_def table_lookup_def)
next
  case (Some cs)
  then have "set_ok cs" using assms map_find_Some [of t k cs] by (auto simp: table_ok_def)
  then have "set (set_erase c cs) = set cs - {c}" by simp
  then show ?thesis
    using Some assms by (auto simp: table_del_def table_lookup_def table_ok_def Let_def)
qed

text \<open>Removing one context under a list of keys.\<close>

definition table_clear :: "ctxid \<Rightarrow> 'k :: linorder list \<Rightarrow> ('k, ctxid tree_set) tree_map
    \<Rightarrow> ('k, ctxid tree_set) tree_map" where
  "table_clear c ks t = fold (\<lambda>k. table_del k c) ks t"

lemma table_clear_simps [simp]:
  "table_clear c [] t = t" "table_clear c (k # ks) t = table_clear c ks (table_del k c t)"
  by (simp_all add: table_clear_def)

lemma table_ok_clear [simp]: "table_ok t \<Longrightarrow> table_ok (table_clear c ks t)"
  by (induction ks arbitrary: t) auto

lemma table_lookup_clear [simp]:
  "table_ok t \<Longrightarrow> set (table_lookup (table_clear c ks t) k) =
     (if k \<in> set ks then set (table_lookup t k) - {c} else set (table_lookup t k))"
  by (induction ks arbitrary: t) auto

section \<open>The registry contracts\<close>

text \<open>
  A component that registers contexts under keys: \<open>keys\<close> is what a context remembers, \<open>table\<close> the
  global table, \<open>add\<close> one registration. The invariant of the server is that the two views agree;
  it is what makes freeing a context safe, since no table then keeps a pointer to it.
\<close>

locale registry =
  fixes keys :: "'s \<Rightarrow> ctxid \<Rightarrow> 'k :: linorder tree_set"
    and table :: "'s \<Rightarrow> ('k, ctxid tree_set) tree_map"
    and add :: "ctxid \<Rightarrow> 'k \<Rightarrow> 's \<Rightarrow> 's"
  assumes keys_add: "keys (add c k s) c' = (if c' = c then set_insert k (keys s c) else keys s c')"
    and table_add: "table (add c k s) = table_add k c (table s)"
begin

definition consistent :: "'s \<Rightarrow> bool" where
  "consistent s \<longleftrightarrow> table_ok (table s) \<and> (\<forall>c. set_ok (keys s c))
     \<and> (\<forall>c k. k \<in> set (keys s c) \<longleftrightarrow> c \<in> set (table_lookup (table s) k))"

lemma consistentD:
  "consistent s \<Longrightarrow> table_ok (table s)" "consistent s \<Longrightarrow> set_ok (keys s c)"
  "consistent s \<Longrightarrow> k \<in> set (keys s c) \<longleftrightarrow> c \<in> set (table_lookup (table s) k)"
  by (auto simp: consistent_def)

lemma consistent_same:
  "consistent s \<Longrightarrow> keys s' = keys s \<Longrightarrow> table s' = table s \<Longrightarrow> consistent s'"
  by (simp add: consistent_def)

lemma consistent_add: "consistent s \<Longrightarrow> consistent (add c k s)"
  by (auto simp: consistent_def keys_add table_add)

lemma consistent_fold_add: "consistent s \<Longrightarrow> consistent (fold (add c) ks s)"
  by (induction ks arbitrary: s) (auto simp: consistent_add)

lemma keys_fold_add: "set (keys (fold (add c) ks s) c') =
   (if c' = c then set ks \<union> set (keys s c) else set (keys s c'))"
  by (induction ks arbitrary: s) (auto simp: keys_add)

end

text \<open>Components that drop all registrations of a context at once.\<close>

locale registry_clear = registry +
  fixes clear :: "ctxid \<Rightarrow> 'a \<Rightarrow> 'a"
  assumes keys_clear: "keys (clear c s) c' = (if c' = c then [] else keys s c')"
    and table_clear: "table (clear c s) = table_clear c (keys s c) (table s)"
begin

lemma consistent_clear: "consistent s \<Longrightarrow> consistent (clear c s)"
  by (auto simp: consistent_def keys_clear table_clear)

lemma clear_gone: "consistent s \<Longrightarrow> c \<notin> set (table_lookup (table (clear c s)) k)"
  by (auto simp: consistent_def table_clear)

lemma clear_others:
  "consistent s \<Longrightarrow> c' \<noteq> c \<Longrightarrow>
   c' \<in> set (table_lookup (table (clear c s)) k) \<longleftrightarrow> c' \<in> set (table_lookup (table s) k)"
  by (auto simp: consistent_def table_clear)

end

text \<open>Components that drop registrations one by one; dropping each of them drops all.\<close>

locale registry_del = registry +
  fixes del :: "ctxid \<Rightarrow> 'b \<Rightarrow> 'a \<Rightarrow> 'a"
  assumes keys_del: "keys (del c k s) c' = (if c' = c then set_erase k (keys s c) else keys s c')"
    and table_del: "table (del c k s) = table_del k c (table s)"
begin

definition del_all :: "ctxid \<Rightarrow> 'a \<Rightarrow> 'a" where
  "del_all c s = fold (del c) (keys s c) s"

lemma consistent_del: "consistent s \<Longrightarrow> consistent (del c k s)"
  by (auto simp: consistent_def keys_del table_del)

lemma consistent_fold_del: "consistent s \<Longrightarrow> consistent (fold (del c) ks s)"
  by (induction ks arbitrary: s) (auto simp: consistent_del)

lemma keys_fold_del: "keys (fold (del c) ks s) c' =
   (if c' = c then fold set_erase ks (keys s c) else keys s c')"
  by (induction ks arbitrary: s) (auto simp: keys_del)

lemma table_fold_del: "table (fold (del c) ks s) = table_clear c ks (table s)"
  by (induction ks arbitrary: s) (auto simp: table_del)

lemma erase_all: "fold set_erase xs xs = []"
proof (induction xs)
  case (Cons x xs)
  then show ?case by (simp add: set_erase_def)
qed simp

end

sublocale registry_del < all: registry_clear keys table add del_all
  by unfold_locales (simp_all add: del_all_def keys_fold_del table_fold_del erase_all)

end
