(* ===== verification/Glob_Match.thy ===== *)
theory Glob_Match
  imports Comms_Prelude
begin

text \<open>
  The glob matcher \<open>stringmatchlen\<close> of \<open>common/util/string_helper.cpp\<close>, which \<open>PSUBSCRIBE\<close>, the
  trusted-address check and the configuration commands use. The C code moves two pointers
  through null-terminated texts and keeps the remaining lengths. Pointer and length always move
  together, so each pair is one list here: the bytes that remain, \<^emph>\<open>with\<close> the terminator; the
  remaining length is the length of the list less one, and the empty list is a pointer past the
  terminator (a length below zero). Reading through such a pointer is undefined behaviour in C
  and the result \<^const>\<open>None\<close> here.
\<close>

definition c_tolower :: "char \<Rightarrow> char" where
  "c_tolower c =
     (if 65 \<le> (of_char c :: nat) \<and> of_char c \<le> (90 :: nat) then char_of (of_char c + 32 :: nat)
      else c)"

definition c_toupper :: "char \<Rightarrow> char" where
  "c_toupper c =
     (if 97 \<le> (of_char c :: nat) \<and> of_char c \<le> (122 :: nat) then char_of (of_char c - 32 :: nat)
      else c)"

text \<open>The value of a (signed) \<open>char\<close> promoted to \<open>int\<close>.\<close>

definition schar :: "char \<Rightarrow> int" where
  "schar c = (let n = of_char c :: int in if n \<ge> 128 then n - 256 else n)"

text \<open>
  The loop over a character class. \<open>sc\<close> is \<open>string[0]\<close> if it may be read, \<open>m\<close> whether a member
  matched so far; the result holds the pattern behind the class.
\<close>

definition fold_case :: "bool \<Rightarrow> char \<Rightarrow> char" where
  "fold_case nocase c = (if nocase then c_tolower c else c)"

definition in_range :: "bool \<Rightarrow> char \<Rightarrow> char \<Rightarrow> char \<Rightarrow> bool" where
  "in_range nocase a b c =
     (let (start, stop) = (if schar a > schar b then (b, a) else (a, b))
      in schar (fold_case nocase c) \<ge> schar (fold_case nocase start)
         \<and> schar (fold_case nocase c) \<le> schar (fold_case nocase stop))"

fun class_loop :: "bool \<Rightarrow> char option \<Rightarrow> bool \<Rightarrow> string \<Rightarrow> (bool \<times> string) option" where
  "class_loop nocase sc m [] = None"
| "class_loop nocase sc m (p # ps) =
     (if p = CHR 0x5C
      then case (ps, sc) of
             (q # qs, Some c) \<Rightarrow> class_loop nocase sc (m \<or> q = c) qs
           | _ \<Rightarrow> None
      else if p = CHR '']'' then Some (m, ps)
      else if ps = [] then Some (m, [p])
      else case sc of
             None \<Rightarrow> None
           | Some c \<Rightarrow>
               if hd ps = CHR ''-'' \<and> length ps \<ge> 3
               then class_loop nocase sc (m \<or> in_range nocase p (ps ! 1) c) (drop 2 ps)
               else class_loop nocase sc (m \<or> fold_case nocase p = fold_case nocase c) ps)"

lemma class_loop_shorter:
  "class_loop nocase sc m ps = Some (m', ps') \<Longrightarrow> length ps' \<le> length ps"
proof (induction nocase sc m ps rule: class_loop.induct)
  case (2 nocase sc m p ps)
  show ?case
    using "2.prems" "2.IH"
    by (auto split: if_splits list.splits option.splits) fastforce+
qed simp

definition read0 :: "string \<Rightarrow> char option" where
  "read0 s = (case s of [] \<Rightarrow> None | c # _ \<Rightarrow> Some c)"

text \<open>
  The main loop. \<open>star_loop\<close> is the inner loop of the \<open>*\<close> case, which tries every suffix of the
  string while its length is not 0; \<open>after_step\<close> is the end of a round, which stops at the end of
  the string after skipping trailing stars.
\<close>

definition skip_stars :: "string \<Rightarrow> string" where
  "skip_stars ps = dropWhile (\<lambda>c. c = CHR ''*'') ps"

lemma skip_stars_length: "length (skip_stars ps) \<le> length ps"
  by (simp add: skip_stars_def length_dropWhile_le)

function (sequential) smatch :: "bool \<Rightarrow> string \<Rightarrow> string \<Rightarrow> bool option"
  and star_loop :: "bool \<Rightarrow> string \<Rightarrow> string \<Rightarrow> bool option"
  and after_step :: "bool \<Rightarrow> string \<Rightarrow> string \<Rightarrow> bool option" where
  "smatch nocase [] ss = None"
| "smatch nocase [t] ss = Some (length ss = 1)"
| "smatch nocase (p # ps) ss =
     (if p = CHR ''*''
      then case skip_stars ps of
             [] \<Rightarrow> None
           | [t] \<Rightarrow> Some True
           | rest \<Rightarrow> star_loop nocase rest ss
      else if p = CHR ''?''
      then if length ss = 1 then Some False else after_step nocase ps (tl ss)
      else if p = CHR ''[''
      then let not_match = (hd ps = CHR 0x5E)
           in case class_loop nocase (read0 ss) False (if not_match then tl ps else ps) of
                None \<Rightarrow> None
              | Some (m, rest) \<Rightarrow>
                  if (if not_match then \<not> m else m) then after_step nocase rest (tl ss)
                  else Some False
      else let qs = (if p = CHR 0x5C \<and> length ps \<ge> 2 then ps else p # ps)
           in case ss of
                [] \<Rightarrow> None
              | c # ss' \<Rightarrow>
                  if fold_case nocase (hd qs) \<noteq> fold_case nocase c then Some False
                  else after_step nocase (tl qs) ss')"
| "star_loop nocase ps ss =
     (if length ss = 1 then Some False
      else case smatch nocase ps ss of
             None \<Rightarrow> None
           | Some True \<Rightarrow> Some True
           | Some False \<Rightarrow> if ss = [] then None else star_loop nocase ps (tl ss))"
| "after_step nocase ps ss =
     (if length ss = 1
      then case skip_stars ps of
             [] \<Rightarrow> None
           | rest \<Rightarrow> Some (length rest = 1)
      else smatch nocase ps ss)"
  by pat_completeness auto
termination
proof (relation "measures
    [case_sum (\<lambda>(n, ps, ss). length ps)
       (case_sum (\<lambda>(n, ps, ss). length ps) (\<lambda>(n, ps, ss). length ps)),
     case_sum (\<lambda>(n, ps, ss). 0)
       (case_sum (\<lambda>(n, ps, ss). 2 + length ss) (\<lambda>(n, ps, ss). 1))]",
    goal_cases)
  case (2 n p q ps ss x21 y ys)
  then show ?case
    using skip_stars_length [of "q # ps"] by auto
next
  case (4 n p q ps ss x x2 m rest)
  then show ?case
    using class_loop_shorter [of n "read0 ss" False _ m rest] by (fastforce split: if_splits)
qed auto

declare smatch.simps [simp del] star_loop.simps [simp del] after_step.simps [simp del]

definition stringmatchlen :: "string \<Rightarrow> string \<Rightarrow> bool \<Rightarrow> bool option" where
  "stringmatchlen pattern str nocase = smatch nocase (pattern @ [NUL]) (str @ [NUL])"

definition stringmatch :: "string \<Rightarrow> string \<Rightarrow> bool \<Rightarrow> bool option" where
  "stringmatch pattern str nocase = stringmatchlen (c_str pattern) (c_str str) nocase"

section \<open>The reference semantics of plain patterns\<close>

text \<open>
  For a pattern of literals, \<open>?\<close> and \<open>*\<close> the reference matcher is the textbook definition: \<open>*\<close>
  stands for any sequence of bytes, \<open>?\<close> for one byte, anything else for itself.
\<close>

fun glob :: "bool \<Rightarrow> string \<Rightarrow> string \<Rightarrow> bool" where
  "glob nocase [] s = (s = [])"
| "glob nocase (p # ps) s =
     (if p = CHR ''*'' then \<exists>k \<le> length s. glob nocase ps (drop k s)
      else case s of
             [] \<Rightarrow> False
           | c # s' \<Rightarrow>
               (p = CHR ''?'' \<or> fold_case nocase p = fold_case nocase c) \<and> glob nocase ps s')"

definition plain :: "string \<Rightarrow> bool" where
  "plain p \<longleftrightarrow> CHR ''['' \<notin> set p \<and> CHR 0x5C \<notin> set p \<and> NUL \<notin> set p"

lemma skip_stars_Cons [simp]:
  "skip_stars (c # cs) = (if c = CHR ''*'' then skip_stars cs else c # cs)"
  "skip_stars [] = []"
  by (simp_all add: skip_stars_def)

lemma skip_stars_terminated: "skip_stars (p @ [NUL]) = skip_stars p @ [NUL]"
  by (induction p) auto

lemma skip_stars_hd: "skip_stars p = q # qs \<Longrightarrow> q \<noteq> CHR ''*''"
  by (induction p) (auto split: if_splits)

lemma glob_Nil: "glob n p [] \<longleftrightarrow> skip_stars p = []"
  by (induction p) auto

lemma ex_drop_drop: "(\<exists>k \<le> length s. \<exists>j \<le> length s - k. P (drop (j + k) s)) \<longleftrightarrow> (\<exists>k \<le> length s. P (drop k s))"
proof
  assume "\<exists>k \<le> length s. P (drop k s)"
  then obtain k where "k \<le> length s" "P (drop k s)" by blast
  then have "0 \<le> length s - k \<and> P (drop (0 + k) s)" by simp
  with \<open>k \<le> length s\<close> show "\<exists>k \<le> length s. \<exists>j \<le> length s - k. P (drop (j + k) s)" by blast
next
  assume "\<exists>k \<le> length s. \<exists>j \<le> length s - k. P (drop (j + k) s)"
  then obtain k j where "k \<le> length s" "j \<le> length s - k" "P (drop (j + k) s)" by blast
  then show "\<exists>k \<le> length s. P (drop k s)"
    by (intro exI [of _ "j + k"]) auto
qed

lemma glob_skip_stars: "glob n (CHR ''*'' # p) s \<longleftrightarrow> (\<exists>k \<le> length s. glob n (skip_stars p) (drop k s))"
proof (induction p arbitrary: s)
  case (Cons c p)
  show ?case
  proof (cases "c = CHR ''*''")
    case True
    have "glob n (CHR ''*'' # c # p) s \<longleftrightarrow> (\<exists>k \<le> length s. glob n (CHR ''*'' # p) (drop k s))"
      by (simp add: True)
    also have "\<dots> \<longleftrightarrow> (\<exists>k \<le> length s. \<exists>j \<le> length s - k. glob n (skip_stars p) (drop (j + k) s))"
      by (simp add: Cons.IH del: glob.simps)
    also have "\<dots> \<longleftrightarrow> (\<exists>k \<le> length s. glob n (skip_stars p) (drop k s))"
      by (rule ex_drop_drop)
    finally show ?thesis
      by (simp add: True)
  qed simp
qed simp

lemma ex_drop_Cons: "(\<exists>k \<le> length (c # s). P (drop k (c # s))) \<longleftrightarrow> P (c # s) \<or> (\<exists>k \<le> length s. P (drop k s))"
proof -
  have "(\<exists>k \<le> Suc (length s). P (drop k (c # s)))
      \<longleftrightarrow> P (c # s) \<or> (\<exists>k. Suc k \<le> Suc (length s) \<and> P (drop (Suc k) (c # s)))"
    by (metis drop0 le0 not0_implies_Suc)
  then show ?thesis by simp
qed

lemma star_loop_glob:
  assumes "\<And>s. smatch n (p @ [NUL]) (s @ [NUL]) = Some (glob n p s)"
    and "skip_stars p \<noteq> []"
  shows "star_loop n (p @ [NUL]) (s @ [NUL]) = Some (\<exists>k \<le> length s. glob n p (drop k s))"
proof (induction s)
  case Nil
  then show ?case
    using assms(2) by (simp add: star_loop.simps glob_Nil)
next
  case (Cons c s)
  show ?case
    using assms(1) [of "c # s"] Cons.IH unfolding ex_drop_Cons
    by (simp add: star_loop.simps [of n "p @ [NUL]" "c # s @ [NUL]"] split: bool.splits)
qed

lemma after_step_glob:
  assumes "\<And>s. smatch n (p @ [NUL]) (s @ [NUL]) = Some (glob n p s)"
  shows "after_step n (p @ [NUL]) (s @ [NUL]) = Some (glob n p s)"
proof (cases "s = []")
  case True
  then show ?thesis
    by (cases "skip_stars p") (simp_all add: after_step.simps skip_stars_terminated glob_Nil)
next
  case False
  then show ?thesis
    using assms by (simp add: after_step.simps)
qed

lemma fold_case_NUL [simp]: "fold_case n c = fold_case n NUL \<longleftrightarrow> c = NUL"
proof -
  have "c_tolower c = NUL \<longleftrightarrow> c = NUL"
  proof (cases "65 \<le> (of_char c :: nat) \<and> of_char c \<le> (90 :: nat)")
    case True
    then have "(of_char (c_tolower c) :: nat) = of_char c + 32"
      by (simp add: c_tolower_def)
    moreover have "(of_char NUL :: nat) = 0" by simp
    ultimately show ?thesis
      using True by (metis add_is_0 numeral_eq_iff zero_neq_numeral not_numeral_le_zero)
  next
    case False
    then show ?thesis
      unfolding c_tolower_def by (simp only: if_False)
  qed
  moreover have "c_tolower NUL = NUL"
    by (simp add: c_tolower_def)
  ultimately show ?thesis
    by (simp add: fold_case_def)
qed

lemma plain_Cons [simp]:
  "plain (c # p) \<longleftrightarrow> plain p \<and> c \<noteq> CHR ''['' \<and> c \<noteq> CHR 0x5C \<and> c \<noteq> NUL"
  by (auto simp: plain_def)

lemma plain_skip_stars: "plain p \<Longrightarrow> plain (skip_stars p)"
  by (induction p) auto

lemma smatch_glob: "plain p \<Longrightarrow> smatch n (p @ [NUL]) (s @ [NUL]) = Some (glob n p s)"
proof (induction "length p" arbitrary: p s rule: less_induct)
  case less
  show ?case
  proof (cases p)
    case Nil
    then show ?thesis by (simp add: smatch.simps)
  next
    case (Cons c q)
    obtain x xs where q: "q @ [NUL] = x # xs" by (cases q) auto
    have unf: "smatch n (p @ [NUL]) (s @ [NUL]) = smatch n (c # x # xs) (s @ [NUL])"
      by (simp add: Cons q)
    have IH: "smatch n (q @ [NUL]) (t @ [NUL]) = Some (glob n q t)" for t
      using less.hyps [of q t] less.prems by (simp add: Cons)
    show ?thesis
    proof (cases "c = CHR ''*''")
      case True
      have "smatch n (r @ [NUL]) (t @ [NUL]) = Some (glob n r t)" if "r = skip_stars q" for r t
        using less.hyps [of r t] less.prems skip_stars_length [of q] plain_skip_stars [of q]
        by (simp add: that Cons)
      note sl = star_loop_glob [OF this [OF refl], of s]
      have sk: "skip_stars (x # xs) = skip_stars q @ [NUL]"
        using skip_stars_terminated [of q] by (simp only: q)
      show ?thesis
      proof (cases "skip_stars q")
        case Nil
        have "glob n p s"
          unfolding Cons True glob_skip_stars Nil by (intro exI [of _ "length s"]) simp
        then show ?thesis
          unfolding unf smatch.simps(3) sk True Nil by simp
      next
        case sq: (Cons y ys)
        have "skip_stars (skip_stars q) \<noteq> []"
          using sq skip_stars_hd [OF sq] by simp
        from sl [OF this] have "star_loop n (y # ys @ [NUL]) (s @ [NUL]) = Some (glob n p s)"
          unfolding Cons True glob_skip_stars sq by simp
        moreover obtain z zs where "ys @ [NUL] = z # zs" by (cases ys) auto
        ultimately show ?thesis
          unfolding unf smatch.simps(3) sk True sq by simp
      qed
    next
      case nostar: False
      note as = after_step_glob [OF IH, unfolded q]
      show ?thesis
      proof (cases s)
        case Nil
        then show ?thesis
          using nostar less.prems unfolding unf smatch.simps(3)
          by (simp add: Cons glob_Nil Let_def)
      next
        case s: (Cons d t)
        then show ?thesis
          using nostar less.prems as [of t] unfolding unf smatch.simps(3)
          by (auto simp: Cons Let_def)
      qed
    qed
  qed
qed



end
