(* ===== verification/Server_State.thy ===== *)
theory Server_State
  imports Tree_Map Command_Codec Glob_Match
begin

text \<open>
  The state of the server: the client contexts of \<open>context.hpp\<close>, the tables of the class \<open>Comms\<close> of
  \<open>comms.hpp\<close>, and what the handlers do to the outside (messages written to channels, commands
  handed to the replication thread, timers, wake-ups). A \<open>Context*\<close> is an identifier into the
  store \<open>contexts\<close>, so aliasing is visible: a table entry that survives its context is an
  identifier whose context has been reset.

  The storage engine \<open>mmkv\<close> is not part of the sources. It is the parameter \<open>mmkv\<close>: one
  function from the name of the called method, the database, the arguments and the engine's
  state to the return code, the results and the next state, and the values of its error codes.
\<close>

section \<open>Keys\<close>

datatype WatchKey = WatchKey (wk_db: DBID) (wk_key: string)

text \<open>The order of \<open>WatchKey::operator<\<close>: the database first, then the key.\<close>

definition WatchKey_less :: "WatchKey \<Rightarrow> WatchKey \<Rightarrow> bool" where
  "WatchKey_less a b \<longleftrightarrow> (wk_db a < wk_db b \<or> (wk_db a = wk_db b \<and> wk_key a < wk_key b))"

instantiation WatchKey :: linorder
begin

definition less_WatchKey :: "WatchKey \<Rightarrow> WatchKey \<Rightarrow> bool" where
  "less_WatchKey = WatchKey_less"

definition less_eq_WatchKey :: "WatchKey \<Rightarrow> WatchKey \<Rightarrow> bool" where
  "less_eq_WatchKey a b \<longleftrightarrow> a = b \<or> a < b"

instance
proof
  fix x y z :: WatchKey
  show "x < y \<longleftrightarrow> x \<le> y \<and> \<not> y \<le> x"
    by (cases x; cases y) (auto simp: less_WatchKey_def WatchKey_less_def less_eq_WatchKey_def)
  show "x \<le> x" by (simp add: less_eq_WatchKey_def)
  show "x \<le> y \<Longrightarrow> y \<le> z \<Longrightarrow> x \<le> z"
    by (cases x; cases y; cases z) (auto simp: less_WatchKey_def WatchKey_less_def less_eq_WatchKey_def)
  show "x \<le> y \<Longrightarrow> y \<le> x \<Longrightarrow> x = y"
    by (cases x; cases y) (auto simp: less_WatchKey_def WatchKey_less_def less_eq_WatchKey_def)
  show "x \<le> y \<or> y \<le> x"
    by (cases x; cases y) (auto simp: less_WatchKey_def WatchKey_less_def less_eq_WatchKey_def)
qed

end

section \<open>Contexts\<close>

record ListBlockContext =
  block_keys :: "WatchKey tree_set"
  push_key :: string
  blocking_timer_task_id :: int
  lpop :: bool

record TranscContext =
  in_transc :: bool
  cached_cmds :: "RedisCommandFrame list"

record PubSubContext =
  pubsub_channels :: "string tree_set"
  pubsub_patterns :: "string tree_set"

text \<open>
  \<open>current_cmd\<close> points to the frame that is being executed; the field holds the frame itself, so a
  rewrite of the command through the pointer is an update of the field. The scripting state of a
  context is not modelled. \<open>client\<close> is the identifier of the channel.
\<close>

record Context =
  transc :: "TranscContext option"
  pubsub :: "PubSubContext option"
  block :: "ListBlockContext option"
  client :: "nat option"
  currentDB :: DBID
  reply :: RedisReply
  server_address :: string
  authenticated :: bool
  data_change :: bool
  write_success :: bool
  current_cmd :: "RedisCommandFrame option"
  current_cmd_type :: nat
  born_time :: nat
  last_interaction_ustime :: nat
  ctx_name :: string
  processing :: bool
  close_after_processed :: bool
  no_wal :: bool
  watch_keys :: "WatchKey tree_set option"
  sequence :: nat
  abort_exec :: bool

definition Context_new :: Context where
  "Context_new = \<lparr>transc = None, pubsub = None, block = None, client = None, currentDB = 0,
     reply = reply_new, server_address = [], authenticated = True, data_change = False,
     write_success = True, current_cmd = None, current_cmd_type = 0, born_time = 0,
     last_interaction_ustime = 0, ctx_name = [], processing = False, close_after_processed = False,
     no_wal = False, watch_keys = None, sequence = 0, abort_exec = False\<rparr>"

definition TranscContext_new :: TranscContext where
  "TranscContext_new = \<lparr>in_transc = True, cached_cmds = []\<rparr>"

definition PubSubContext_new :: PubSubContext where
  "PubSubContext_new = \<lparr>pubsub_channels = [], pubsub_patterns = []\<rparr>"

definition ListBlockContext_new :: ListBlockContext where
  "ListBlockContext_new = \<lparr>block_keys = [], push_key = [], blocking_timer_task_id = - 1,
     lpop = False\<rparr>"

text \<open>The accessors \<open>Get...\<close> allocate the part on first use.\<close>

definition GetTransc :: "Context \<Rightarrow> TranscContext" where
  "GetTransc x = (case transc x of None \<Rightarrow> TranscContext_new | Some t \<Rightarrow> t)"

definition GetPubsub :: "Context \<Rightarrow> PubSubContext" where
  "GetPubsub x = (case pubsub x of None \<Rightarrow> PubSubContext_new | Some p \<Rightarrow> p)"

definition GetBlockContext :: "Context \<Rightarrow> ListBlockContext" where
  "GetBlockContext x = (case block x of None \<Rightarrow> ListBlockContext_new | Some b \<Rightarrow> b)"

definition GetWatchKeySet :: "Context \<Rightarrow> WatchKey tree_set" where
  "GetWatchKeySet x = (case watch_keys x of None \<Rightarrow> [] | Some ks \<Rightarrow> ks)"

definition InTransc :: "Context \<Rightarrow> bool" where
  "InTransc x \<longleftrightarrow> (case transc x of None \<Rightarrow> False | Some t \<Rightarrow> in_transc t)"

definition IsSubscribedConn :: "Context \<Rightarrow> bool" where
  "IsSubscribedConn x \<longleftrightarrow> pubsub x \<noteq> None"

definition ClearWatchKeySet :: "Context \<Rightarrow> Context" where
  "ClearWatchKeySet x = x\<lparr>watch_keys := None, abort_exec := False\<rparr>"

definition ClearTransc :: "Context \<Rightarrow> Context" where
  "ClearTransc x = ClearWatchKeySet (x\<lparr>transc := None\<rparr>)"

definition ClearPubsub :: "Context \<Rightarrow> Context" where
  "ClearPubsub x = x\<lparr>pubsub := None\<rparr>"

definition ClearBlockContext :: "Context \<Rightarrow> Context" where
  "ClearBlockContext x = x\<lparr>block := None\<rparr>"

definition ClearState :: "Context \<Rightarrow> Context" where
  "ClearState x = x\<lparr>reply := RedisReply_Clear (reply x), data_change := False,
     write_success := True, current_cmd := None\<rparr>"

text \<open>\<open>Clear\<close>, which is also the destructor.\<close>

definition Context_Clear :: "Context \<Rightarrow> Context" where
  "Context_Clear x = (ClearBlockContext (ClearPubsub (ClearTransc (ClearState x))))\<lparr>watch_keys := None\<rparr>"

section \<open>The storage engine\<close>

datatype kv_arg =
    KStr string | KStrs "string list" | KPairs "(string \<times> string) list"
  | KInt int | KBool bool | KReal real | KReals "real list"

record kv_out =
  kv_err :: int
  kv_str :: string
  kv_strs :: "string list"
  kv_flags :: "bool list"
  kv_int :: int
  kv_dbl :: real

record 's mmkv =
  kv_exec :: "string \<Rightarrow> DBID \<Rightarrow> kv_arg list \<Rightarrow> 's \<Rightarrow> kv_out \<times> 's"
  ERR_INVALID_ARGS :: int
  ERR_INVALID_MIN_MAX :: int
  ERR_INVALID_COORD_TYPE :: int
  ERR_INVALID_TYPE :: int
  ERR_CORRUPTED_HLL_VALUE :: int
  ERR_NOT_HYPERLOGLOG_STR :: int
  ERR_SYNTAX_ERROR :: int
  ERR_ENTRY_NOT_EXIST :: int
  ERR_DB_NOT_EXIST :: int
  ERR_PERMISSION_DENIED :: int
  ERR_ENTRY_EXISTED :: int
  ERR_NOT_INTEGER :: int
  ERR_NOT_NUMBER :: int
  ERR_INVALID_NUMBER :: int
  ERR_BIT_OUTRANGE :: int
  ERR_ARGS_EXCEED_LIMIT :: int
  ERR_INVALID_COORD_VALUE :: int
  ERR_NOT_IMPLEMENTED :: int
  ERR_OFFSET_OUTRANGE :: int
  V_TYPE_SET :: int
  V_TYPE_LIST :: int
  V_TYPE_ZSET :: int
  V_TYPE_HASH :: int
  V_TYPE_STRING :: int
  V_TYPE_POD :: int

section \<open>The server\<close>

record CommsConfig =
  maxdb :: int
  requirepass :: string
  slowlog_log_slower_than :: int
  slowlog_max_len :: int
  master_host :: string
  master_port :: nat
  trusted_ip :: "string tree_set"
  rename_commands :: "(string, string) tree_map"

record SlowLogRecord =
  slow_id :: nat
  slow_ts :: nat
  slow_costs :: nat
  slow_cmd :: RedisCommandFrame

record ServerStatistics =
  stat_numcommands :: nat
  ops_sec_last_sample_ops :: nat
  ops_sec_idx :: nat
  connections_received :: nat
  ops_sec_samples :: "nat list"
  instantaneous_ops :: nat
  refused_connections :: nat
  ops_limit :: int

text \<open>
  An entry of the command table; \<open>setting_handler\<close> is the name of the member function.
\<close>

record RedisCommandHandlerSetting =
  setting_name :: string
  setting_type :: nat
  setting_handler :: string
  min_arity :: int
  max_arity :: int
  sflags :: string
  setting_flags :: nat
  microseconds :: nat
  calls :: nat
  max_latency :: nat

text \<open>
  What the server does to the outside: \<open>outbox\<close> the replies written to channels in order,
  \<open>wal_queue\<close> the commands handed to the replication thread, \<open>wake_queue\<close> the posted wake-ups of
  blocked clients, \<open>async_queue\<close> the messages posted to the threads of their channels,
  \<open>detached\<close> the channels whose input is suspended, \<open>timers\<close> the scheduled
  timeouts of blocked clients (identifier, context, seconds), \<open>resume_timers\<close> the channels
  suspended by the rate limit (channel, milliseconds), \<open>closing\<close> the channels closed and
  \<open>close_queue\<close> those whose closing is posted to their thread. \<open>remote_address\<close> and \<open>read_fd\<close> belong
  to the channels.
  \<open>clock n\<close> is the \<open>n\<close>-th reading of the microsecond clock and \<open>heap\<close> the indeterminate contents of
  fresh memory. \<open>fault\<close> records that an access outside an array happened.
\<close>

record 's server =
  m_kv_store :: 's
  contexts :: "ctxid \<Rightarrow> Context"
  m_watched_ctx :: "(WatchKey, ctxid tree_set) tree_map"
  m_pubsub_channels :: "(string, ctxid tree_set) tree_map"
  m_pubsub_patterns :: "(string, ctxid tree_set) tree_map"
  m_block_context_table :: "(WatchKey, ctxid tree_set) tree_map"
  m_clients :: "(nat, ctxid) tree_map"
  m_settings :: "(string \<times> RedisCommandHandlerSetting) list"
  m_stat :: "(string, ServerStatistics) tree_map"
  m_ops_sec_last_sample_time :: nat
  stat_expiredkeys :: nat
  m_cfg :: CommsConfig
  g_slowlog_queue :: "SlowLogRecord list"
  kSlowlogIDSeed :: nat
  outbox :: "(nat \<times> RedisReply) list"
  wal_queue :: "(DBID \<times> Buffer) list"
  wake_queue :: "(ctxid \<times> string) list"
  async_queue :: "(nat \<times> RedisReply) list"
  detached :: "nat tree_set"
  timers :: "(int \<times> ctxid \<times> nat) list"
  next_timer :: int
  resume_timers :: "(nat \<times> nat) list"
  closing :: "nat list"
  close_queue :: "nat list"
  remote_address :: "nat \<Rightarrow> string"
  read_fd :: "nat \<Rightarrow> int"
  clock :: "nat \<Rightarrow> nat"
  clock_reads :: nat
  heap :: "nat \<Rightarrow> char"
  fault :: bool

definition ctx :: "'s server \<Rightarrow> ctxid \<Rightarrow> Context" where
  "ctx s c = contexts s c"

definition upd_ctx :: "ctxid \<Rightarrow> (Context \<Rightarrow> Context) \<Rightarrow> 's server \<Rightarrow> 's server" where
  "upd_ctx c f s = s\<lparr>contexts := (contexts s)(c := f (contexts s c))\<rparr>"

definition on_reply :: "ctxid \<Rightarrow> (RedisReply \<Rightarrow> RedisReply) \<Rightarrow> 's server \<Rightarrow> 's server" where
  "on_reply c f s = upd_ctx c (\<lambda>x. x\<lparr>reply := f (reply x)\<rparr>) s"

definition client_write :: "ctxid \<Rightarrow> RedisReply \<Rightarrow> 's server \<Rightarrow> 's server" where
  "client_write c r s =
     (case client (ctx s c) of None \<Rightarrow> s | Some ch \<Rightarrow> s\<lparr>outbox := outbox s @ [(ch, r)]\<rparr>)"

definition read_clock :: "'s server \<Rightarrow> nat \<times> 's server" where
  "read_clock s = (clock s (clock_reads s), s\<lparr>clock_reads := Suc (clock_reads s)\<rparr>)"

lemma ctx_upd_ctx [simp]: "ctx (upd_ctx c f s) c' = (if c' = c then f (ctx s c) else ctx s c')"
  by (simp add: ctx_def upd_ctx_def)

lemma ctx_on_reply [simp]:
  "ctx (on_reply c f s) c' = (if c' = c then (ctx s c)\<lparr>reply := f (reply (ctx s c))\<rparr> else ctx s c')"
  by (simp add: on_reply_def)

lemma upd_ctx_fields [simp]:
  "m_kv_store (upd_ctx c f s) = m_kv_store s" "m_watched_ctx (upd_ctx c f s) = m_watched_ctx s"
  "m_pubsub_channels (upd_ctx c f s) = m_pubsub_channels s"
  "m_pubsub_patterns (upd_ctx c f s) = m_pubsub_patterns s"
  "m_block_context_table (upd_ctx c f s) = m_block_context_table s"
  "m_clients (upd_ctx c f s) = m_clients s" "m_stat (upd_ctx c f s) = m_stat s"
  "m_settings (upd_ctx c f s) = m_settings s" "m_cfg (upd_ctx c f s) = m_cfg s" "g_slowlog_queue (upd_ctx c f s) = g_slowlog_queue s"
  "kSlowlogIDSeed (upd_ctx c f s) = kSlowlogIDSeed s" "outbox (upd_ctx c f s) = outbox s"
  "wal_queue (upd_ctx c f s) = wal_queue s" "wake_queue (upd_ctx c f s) = wake_queue s"
  "async_queue (upd_ctx c f s) = async_queue s"
  "detached (upd_ctx c f s) = detached s" "timers (upd_ctx c f s) = timers s"
  "fault (upd_ctx c f s) = fault s" "heap (upd_ctx c f s) = heap s"
  by (simp_all add: upd_ctx_def)

lemma on_reply_fields [simp]:
  "m_kv_store (on_reply c f s) = m_kv_store s" "m_watched_ctx (on_reply c f s) = m_watched_ctx s"
  "m_pubsub_channels (on_reply c f s) = m_pubsub_channels s"
  "m_pubsub_patterns (on_reply c f s) = m_pubsub_patterns s"
  "m_block_context_table (on_reply c f s) = m_block_context_table s"
  "m_clients (on_reply c f s) = m_clients s" "m_stat (on_reply c f s) = m_stat s"
  "m_settings (on_reply c f s) = m_settings s" "m_cfg (on_reply c f s) = m_cfg s" "g_slowlog_queue (on_reply c f s) = g_slowlog_queue s"
  "kSlowlogIDSeed (on_reply c f s) = kSlowlogIDSeed s" "outbox (on_reply c f s) = outbox s"
  "wal_queue (on_reply c f s) = wal_queue s" "wake_queue (on_reply c f s) = wake_queue s"
  "async_queue (on_reply c f s) = async_queue s"
  "detached (on_reply c f s) = detached s" "timers (on_reply c f s) = timers s"
  "fault (on_reply c f s) = fault s" "heap (on_reply c f s) = heap s"
  by (simp_all add: on_reply_def)

lemma ctx_fields [simp]:
  "ctx (s\<lparr>m_kv_store := x1\<rparr>) c = ctx s c" "ctx (s\<lparr>m_watched_ctx := x2\<rparr>) c = ctx s c"
  "ctx (s\<lparr>m_pubsub_channels := x3\<rparr>) c = ctx s c" "ctx (s\<lparr>m_pubsub_patterns := x3\<rparr>) c = ctx s c"
  "ctx (s\<lparr>m_block_context_table := x2\<rparr>) c = ctx s c" "ctx (s\<lparr>outbox := x4\<rparr>) c = ctx s c"
  "ctx (s\<lparr>wal_queue := x5\<rparr>) c = ctx s c" "ctx (s\<lparr>wake_queue := x6\<rparr>) c = ctx s c"
  "ctx (s\<lparr>detached := x7\<rparr>) c = ctx s c" "ctx (s\<lparr>timers := x8\<rparr>) c = ctx s c"
  "ctx (s\<lparr>m_settings := x11\<rparr>) c = ctx s c" "ctx (s\<lparr>m_stat := x12\<rparr>) c = ctx s c"
  "ctx (s\<lparr>m_clients := x13\<rparr>) c = ctx s c" "ctx (s\<lparr>next_timer := x14\<rparr>) c = ctx s c"
  "ctx (s\<lparr>g_slowlog_queue := x15\<rparr>) c = ctx s c" "ctx (s\<lparr>kSlowlogIDSeed := x16\<rparr>) c = ctx s c"
  "ctx (s\<lparr>closing := x17\<rparr>) c = ctx s c" "ctx (s\<lparr>resume_timers := x22\<rparr>) c = ctx s c"
  "ctx (s\<lparr>close_queue := x24\<rparr>) c = ctx s c"
  "ctx (s\<lparr>m_ops_sec_last_sample_time := x23\<rparr>) c = ctx s c" "ctx (s\<lparr>stat_expiredkeys := x23\<rparr>) c = ctx s c"
  "ctx (s\<lparr>async_queue := x18\<rparr>) c = ctx s c" "ctx (s\<lparr>m_cfg := x19\<rparr>) c = ctx s c"
  "ctx (s\<lparr>clock_reads := x9\<rparr>) c = ctx s c" "ctx (s\<lparr>fault := x10\<rparr>) c = ctx s c"
  by (simp_all add: ctx_def)

section \<open>Helpers of the handlers\<close>

text \<open>\<open>strcasecmp(a.c_str(), b) == 0\<close>.\<close>

definition strcaseeq :: "string \<Rightarrow> string \<Rightarrow> bool" where
  "strcaseeq a b \<longleftrightarrow> map c_tolower (c_str a) = map c_tolower (c_str b)"

definition arg :: "RedisCommandFrame \<Rightarrow> nat \<Rightarrow> string" where
  "arg cmd i = m_args cmd ! i"

text \<open>A call of the engine on the current database of the context.\<close>

definition kv_call ::
    "'s mmkv \<Rightarrow> string \<Rightarrow> ctxid \<Rightarrow> kv_arg list \<Rightarrow> 's server \<Rightarrow> kv_out \<times> 's server" where
  "kv_call K op c args s =
     (let (r, st) = kv_exec K op (currentDB (ctx s c)) args (m_kv_store s)
      in (r, s\<lparr>m_kv_store := st\<rparr>))"

definition FillErrorReply :: "'s mmkv \<Rightarrow> ctxid \<Rightarrow> int \<Rightarrow> 's server \<Rightarrow> 's server" where
  "FillErrorReply K c err s =
     (if err \<in> {ERR_INVALID_ARGS K, ERR_INVALID_MIN_MAX K, ERR_INVALID_COORD_TYPE K}
      then on_reply c (fill_error_reply ''Invalid arguments.'') s
      else if err = ERR_INVALID_TYPE K
      then on_reply c (fill_error_reply
             ''Operation against a key holding the wrong kind of value.'') s
      else if err \<in> {ERR_CORRUPTED_HLL_VALUE K, ERR_NOT_HYPERLOGLOG_STR K}
      then on_reply c (fill_error_reply ''INVALIDOBJ Corrupted HLL object detected.'') s
      else if err = ERR_SYNTAX_ERROR K then on_reply c (fill_error_reply ''Syntax error'') s
      else if err \<in> {ERR_ENTRY_NOT_EXIST K, ERR_DB_NOT_EXIST K}
      then on_reply c (fill_error_reply ''Entry not exist'') s
      else if err = ERR_PERMISSION_DENIED K
      then on_reply c (fill_error_reply ''Permission denied'') s
      else if err = ERR_ENTRY_EXISTED K
      then on_reply c (fill_error_reply ''Entry already exist'') s
      else if err \<in> {ERR_NOT_INTEGER K, ERR_NOT_NUMBER K, ERR_INVALID_NUMBER K,
                     ERR_BIT_OUTRANGE K, ERR_ARGS_EXCEED_LIMIT K, ERR_INVALID_COORD_VALUE K}
      then on_reply c (fill_error_reply ''value is not a valid number or out of range'') s
      else if err = ERR_NOT_IMPLEMENTED K
      then on_reply c (fill_error_reply ''command not implemented'') s
      else if err = ERR_OFFSET_OUTRANGE K
      then on_reply c (fill_error_reply ''index out of range'') s
      else s)"

text \<open>Parsing an argument: the value, or the server with the error reply filled in.\<close>

definition GetInt64Value :: "ctxid \<Rightarrow> string \<Rightarrow> 's server \<Rightarrow> 's server + int" where
  "GetInt64Value c str s =
     (case string_toint64 str of
        None \<Rightarrow> Inl (on_reply c (fill_error_reply ''value is not a integer or out of range'') s)
      | Some v \<Rightarrow> Inr v)"

text \<open>\<open>strtold\<close> is the parameter \<open>todouble\<close>.\<close>

definition GetDoubleValue ::
    "(string \<Rightarrow> real option) \<Rightarrow> ctxid \<Rightarrow> string \<Rightarrow> 's server \<Rightarrow> 's server + real" where
  "GetDoubleValue todouble c str s =
     (case todouble str of
        None \<Rightarrow> Inl (on_reply c (fill_error_reply ''value is not a float or out of range'') s)
      | Some v \<Rightarrow> Inr v)"

definition RewriteClientCommand :: "ctxid \<Rightarrow> RedisCommandFrame \<Rightarrow> 's server \<Rightarrow> 's server" where
  "RewriteClientCommand c f s =
     upd_ctx c (\<lambda>x. case current_cmd x of None \<Rightarrow> x | Some _ \<Rightarrow> x\<lparr>current_cmd := Some f\<rparr>) s"

text \<open>
  \<open>ReplicationService::WriteWAL\<close> copies the raw request if the frame still has it and encodes the
  frame otherwise, and posts the result to the replication thread.
\<close>

definition WriteWAL :: "DBID \<Rightarrow> RedisCommandFrame \<Rightarrow> 's server \<Rightarrow> 's server" where
  "WriteWAL db f s =
     s\<lparr>wal_queue := wal_queue s @
        [(db, if Readable (m_raw_msg f)
              then Buffer_Write (heap s) Buffer_new (AsString (m_raw_msg f))
              else Command_Encode (heap s) Buffer_new f)]\<rparr>"

section \<open>Changed keys\<close>

text \<open>Every context that watches the key is marked.\<close>

definition AbortWatchKey :: "DBID \<Rightarrow> string \<Rightarrow> 's server \<Rightarrow> 's server" where
  "AbortWatchKey db key s =
     (case map_find (WatchKey db key) (m_watched_ctx s) of
        None \<Rightarrow> s
      | Some cs \<Rightarrow> fold (\<lambda>c. upd_ctx c (\<lambda>x. x\<lparr>abort_exec := True\<rparr>)) cs s)"

definition FireKeyChangedEvent_db :: "ctxid \<Rightarrow> DBID \<Rightarrow> string \<Rightarrow> 's server \<Rightarrow> 's server" where
  "FireKeyChangedEvent_db c db key s =
     (let s = upd_ctx c (\<lambda>x. x\<lparr>data_change := True\<rparr>) s
      in if key \<noteq> [] then AbortWatchKey db key s else s)"

definition FireKeyChangedEvent :: "ctxid \<Rightarrow> string \<Rightarrow> 's server \<Rightarrow> 's server" where
  "FireKeyChangedEvent c key s = FireKeyChangedEvent_db c (currentDB (ctx s c)) key s"

lemma ctx_mark_all:
  "ctx (fold (\<lambda>c. upd_ctx c (\<lambda>x. x\<lparr>abort_exec := True\<rparr>)) cs s) c =
     (if c \<in> set cs then (ctx s c)\<lparr>abort_exec := True\<rparr> else ctx s c)"
  by (induction cs arbitrary: s) auto

lemma mark_all_rest:
  "\<exists>ctxs. fold (\<lambda>c. upd_ctx c (\<lambda>x. x\<lparr>abort_exec := True\<rparr>)) cs s = s\<lparr>contexts := ctxs\<rparr>"
proof (induction cs arbitrary: s)
  case Nil
  have "s = s\<lparr>contexts := contexts s\<rparr>" by simp
  then show ?case by (metis fold_Nil id_apply)
next
  case (Cons c cs)
  obtain ctxs where "fold (\<lambda>c. upd_ctx c (\<lambda>x. x\<lparr>abort_exec := True\<rparr>)) cs
      (upd_ctx c (\<lambda>x. x\<lparr>abort_exec := True\<rparr>) s) = (upd_ctx c (\<lambda>x. x\<lparr>abort_exec := True\<rparr>) s)\<lparr>contexts := ctxs\<rparr>"
    using Cons.IH by blast
  also have "\<dots> = s\<lparr>contexts := ctxs\<rparr>" by (simp add: upd_ctx_def)
  finally show ?case by (intro exI [of _ ctxs]) simp
qed

lemma ctx_AbortWatchKey:
  "ctx (AbortWatchKey db key s) c =
     (if c \<in> set (table_lookup (m_watched_ctx s) (WatchKey db key))
      then (ctx s c)\<lparr>abort_exec := True\<rparr> else ctx s c)"
  by (simp add: AbortWatchKey_def table_lookup_def ctx_mark_all split: option.splits)

lemma AbortWatchKey_rest: "\<exists>ctxs. AbortWatchKey db key s = s\<lparr>contexts := ctxs\<rparr>"
proof (cases "map_find (WatchKey db key) (m_watched_ctx s)")
  case None
  have "s = s\<lparr>contexts := contexts s\<rparr>" by simp
  then show ?thesis unfolding AbortWatchKey_def None by (metis option.simps(4))
next
  case (Some cs)
  then show ?thesis using mark_all_rest [of cs s] by (simp add: AbortWatchKey_def)
qed

section \<open>Steps of data commands\<close>

text \<open>
  What a command on data may do to the server: it changes the engine, and of the contexts only
  the reply, the change flag and the current command of its own, and the abort marks, which it
  only sets. The tables, the other contexts and everything already sent stay as they are.
\<close>

definition mark_free :: "Context \<Rightarrow> Context" where
  "mark_free x = x\<lparr>abort_exec := False\<rparr>"

definition result_free :: "Context \<Rightarrow> Context" where
  "result_free x = x\<lparr>reply := reply_new, data_change := False, current_cmd := None, abort_exec := False\<rparr>"

definition data_step :: "ctxid \<Rightarrow> 's server \<Rightarrow> 's server \<Rightarrow> bool" where
  "data_step c s s' \<longleftrightarrow>
     m_watched_ctx s' = m_watched_ctx s \<and> m_pubsub_channels s' = m_pubsub_channels s
     \<and> m_pubsub_patterns s' = m_pubsub_patterns s
     \<and> m_block_context_table s' = m_block_context_table s \<and> m_clients s' = m_clients s
     \<and> m_settings s' = m_settings s \<and> m_cfg s' = m_cfg s
     \<and> outbox s' = outbox s \<and> wal_queue s' = wal_queue s
     \<and> (\<forall>c'. c' \<noteq> c \<longrightarrow> mark_free (ctx s' c') = mark_free (ctx s c'))
     \<and> result_free (ctx s' c) = result_free (ctx s c)
     \<and> (\<forall>c'. abort_exec (ctx s c') \<longrightarrow> abort_exec (ctx s' c'))
     \<and> (current_cmd (ctx s c) \<noteq> None \<longrightarrow> current_cmd (ctx s' c) \<noteq> None)"

named_theorems data_intros \<open>steps that keep within \<open>data_step\<close>\<close>

lemma data_stepD:
  assumes "data_step c s s'"
  shows "m_watched_ctx s' = m_watched_ctx s" "m_pubsub_channels s' = m_pubsub_channels s"
    "m_pubsub_patterns s' = m_pubsub_patterns s"
    "m_block_context_table s' = m_block_context_table s" "m_clients s' = m_clients s"
    "m_settings s' = m_settings s" "m_cfg s' = m_cfg s" "outbox s' = outbox s" "wal_queue s' = wal_queue s"
    "c' \<noteq> c \<Longrightarrow> mark_free (ctx s' c') = mark_free (ctx s c')"
    "result_free (ctx s' c) = result_free (ctx s c)"
    "abort_exec (ctx s c') \<Longrightarrow> abort_exec (ctx s' c')"
    "current_cmd (ctx s c) \<noteq> None \<Longrightarrow> current_cmd (ctx s' c) \<noteq> None"
  using assms unfolding data_step_def by blast+

lemma result_of_mark: "mark_free x = mark_free y \<Longrightarrow> result_free x = result_free y"
  by (cases x; cases y) (simp add: mark_free_def result_free_def)

lemma data_step_ctx:
  assumes "data_step c s s'"
  shows "watch_keys (ctx s' c') = watch_keys (ctx s c')" "transc (ctx s' c') = transc (ctx s c')"
    "pubsub (ctx s' c') = pubsub (ctx s c')" "block (ctx s' c') = block (ctx s c')"
    "client (ctx s' c') = client (ctx s c')" "currentDB (ctx s' c') = currentDB (ctx s c')"
    "authenticated (ctx s' c') = authenticated (ctx s c')" "no_wal (ctx s' c') = no_wal (ctx s c')"
    "c' \<noteq> c \<Longrightarrow> reply (ctx s' c') = reply (ctx s c')"
    "c' \<noteq> c \<Longrightarrow> data_change (ctx s' c') = data_change (ctx s c')"
proof -
  have r: "result_free (ctx s' c') = result_free (ctx s c')"
    using data_stepD(10,11) [OF assms] by (cases "c' = c") (auto intro: result_of_mark)
  show "watch_keys (ctx s' c') = watch_keys (ctx s c')" "transc (ctx s' c') = transc (ctx s c')"
    "pubsub (ctx s' c') = pubsub (ctx s c')" "block (ctx s' c') = block (ctx s c')"
    "client (ctx s' c') = client (ctx s c')" "currentDB (ctx s' c') = currentDB (ctx s c')"
    "authenticated (ctx s' c') = authenticated (ctx s c')" "no_wal (ctx s' c') = no_wal (ctx s c')"
    using arg_cong [OF r, of watch_keys] arg_cong [OF r, of transc] arg_cong [OF r, of pubsub]
      arg_cong [OF r, of block] arg_cong [OF r, of client] arg_cong [OF r, of currentDB]
      arg_cong [OF r, of authenticated] arg_cong [OF r, of no_wal]
    by (simp_all add: result_free_def)
  assume "c' \<noteq> c"
  note m = data_stepD(10) [OF assms this]
  show "reply (ctx s' c') = reply (ctx s c')" "data_change (ctx s' c') = data_change (ctx s c')"
    using arg_cong [OF m, of reply] arg_cong [OF m, of data_change] by (simp_all add: mark_free_def)
qed

lemma data_step_refl [data_intros]: "data_step c s s"
  by (simp add: data_step_def)

lemma data_step_trans: "data_step c s s1 \<Longrightarrow> data_step c s1 s2 \<Longrightarrow> data_step c s s2"
  by (auto simp: data_step_def)

lemma data_step_more:
  assumes "data_step c s s1"
    and "m_watched_ctx s2 = m_watched_ctx s1" "m_pubsub_channels s2 = m_pubsub_channels s1"
    "m_pubsub_patterns s2 = m_pubsub_patterns s1"
    "m_block_context_table s2 = m_block_context_table s1" "m_clients s2 = m_clients s1"
    "m_settings s2 = m_settings s1" "m_cfg s2 = m_cfg s1" "outbox s2 = outbox s1" "wal_queue s2 = wal_queue s1"
    and "\<And>c'. c' \<noteq> c \<Longrightarrow> mark_free (ctx s2 c') = mark_free (ctx s1 c')"
    and "result_free (ctx s2 c) = result_free (ctx s1 c)"
    and "\<And>c'. abort_exec (ctx s1 c') \<Longrightarrow> abort_exec (ctx s2 c')"
    and "current_cmd (ctx s1 c) \<noteq> None \<Longrightarrow> current_cmd (ctx s2 c) \<noteq> None"
  shows "data_step c s s2"
  by (rule data_step_trans [OF assms(1)]) (use assms(2-) in \<open>simp add: data_step_def\<close>)

lemma data_on_reply [data_intros]: "data_step c s s1 \<Longrightarrow> data_step c s (on_reply c f s1)"
  by (erule data_step_more) (auto simp: mark_free_def result_free_def)

lemma data_store [data_intros]: "data_step c s s1 \<Longrightarrow> data_step c s (s1\<lparr>m_kv_store := st\<rparr>)"
  by (erule data_step_more) (auto simp: mark_free_def result_free_def)

lemma data_fault [data_intros]: "data_step c s s1 \<Longrightarrow> data_step c s (s1\<lparr>fault := b\<rparr>)"
  by (erule data_step_more) (auto simp: mark_free_def result_free_def)

lemma data_kv_call [data_intros]:
  "data_step c s s1 \<Longrightarrow> data_step c s (snd (kv_call K op c args s1))"
  by (simp add: kv_call_def split_beta data_store)

lemma data_FillErrorReply [data_intros]:
  "data_step c s s1 \<Longrightarrow> data_step c s (FillErrorReply K c err s1)"
  by (simp add: FillErrorReply_def data_on_reply)

lemma data_Rewrite [data_intros]:
  "data_step c s s1 \<Longrightarrow> data_step c s (RewriteClientCommand c f s1)"
  by (erule data_step_more)
    (auto simp: RewriteClientCommand_def mark_free_def result_free_def split: option.splits)

lemma data_AbortWatchKey [data_intros]:
  assumes "data_step c s s1"
  shows "data_step c s (AbortWatchKey db key s1)"
proof -
  obtain ctxs where r: "AbortWatchKey db key s1 = s1\<lparr>contexts := ctxs\<rparr>"
    using AbortWatchKey_rest by blast
  have "data_step c s (s1\<lparr>contexts := ctxs\<rparr>)"
    using ctx_AbortWatchKey [of db key s1, unfolded r]
    by (intro data_step_more [OF assms]) (auto simp: mark_free_def result_free_def)
  then show ?thesis by (simp add: r)
qed

lemma data_FireKeyChangedEvent_db [data_intros]:
  "data_step c s s1 \<Longrightarrow> data_step c s (FireKeyChangedEvent_db c db key s1)"
  unfolding FireKeyChangedEvent_db_def Let_def
  by (auto intro!: data_AbortWatchKey elim!: data_step_more simp: mark_free_def result_free_def)

lemma data_FireKeyChangedEvent [data_intros]:
  "data_step c s s1 \<Longrightarrow> data_step c s (FireKeyChangedEvent c key s1)"
  by (simp add: FireKeyChangedEvent_def data_FireKeyChangedEvent_db)

lemma data_fold_Fire [data_intros]:
  "data_step c s s1 \<Longrightarrow> data_step c s (fold (FireKeyChangedEvent c) ks s1)"
  by (induction ks arbitrary: s1) (auto intro: data_FireKeyChangedEvent)

section \<open>The start of the server\<close>

text \<open>No connection and no entry in any table; \<open>clk\<close> and \<open>hp\<close> are the clock and fresh memory.\<close>

definition default_config :: CommsConfig where
  "default_config = \<lparr>maxdb = 16, requirepass = [], slowlog_log_slower_than = 10000,
     slowlog_max_len = 128, master_host = [], master_port = 0, trusted_ip = [], rename_commands = []\<rparr>"

definition initial_server :: "'s \<Rightarrow> CommsConfig \<Rightarrow> (string \<times> RedisCommandHandlerSetting) list
    \<Rightarrow> (nat \<Rightarrow> nat) \<Rightarrow> (nat \<Rightarrow> char) \<Rightarrow> 's server" where
  "initial_server st cfg settings clk hp = \<lparr>m_kv_store = st, contexts = (\<lambda>_. Context_new),
     m_watched_ctx = [], m_pubsub_channels = [], m_pubsub_patterns = [], m_block_context_table = [],
     m_clients = [], m_settings = settings, m_stat = [], m_ops_sec_last_sample_time = 0,
     stat_expiredkeys = 0, m_cfg = cfg, g_slowlog_queue = [], kSlowlogIDSeed = 0, outbox = [],
     wal_queue = [], wake_queue = [], async_queue = [], detached = [], timers = [], next_timer = 0,
     resume_timers = [], closing = [], close_queue = [], remote_address = (\<lambda>_. []),
     read_fd = (\<lambda>_. 0), clock = clk, clock_reads = 0, heap = hp, fault = False\<rparr>"

text \<open>A small server for examples.\<close>

definition demo_server :: "unit server" where
  "demo_server = initial_server () default_config [] (\<lambda>n. n) (\<lambda>_. NUL)"

lemma initial_fields [simp]:
  "ctx (initial_server st cfg settings clk hp) c = Context_new"
  "m_watched_ctx (initial_server st cfg settings clk hp) = []"
  "m_pubsub_channels (initial_server st cfg settings clk hp) = []"
  "m_pubsub_patterns (initial_server st cfg settings clk hp) = []"
  "m_block_context_table (initial_server st cfg settings clk hp) = []"
  "m_settings (initial_server st cfg settings clk hp) = settings"
  "m_kv_store (initial_server st cfg settings clk hp) = st"
  by (simp_all add: initial_server_def ctx_def)

text \<open>An engine for examples: it counts its calls and gives every call the same answer.\<close>

definition kv_answer :: "int \<Rightarrow> string \<Rightarrow> kv_out" where
  "kv_answer err v = \<lparr>kv_err = err, kv_str = v, kv_strs = [], kv_flags = [], kv_int = 0, kv_dbl = 0\<rparr>"

definition demo_mmkv :: "kv_out \<Rightarrow> nat mmkv" where
  "demo_mmkv r = \<lparr>kv_exec = (\<lambda>op db args st. (r, Suc st)), ERR_INVALID_ARGS = - 1001,
     ERR_INVALID_MIN_MAX = - 1002, ERR_INVALID_COORD_TYPE = - 1003, ERR_INVALID_TYPE = - 1004,
     ERR_CORRUPTED_HLL_VALUE = - 1005, ERR_NOT_HYPERLOGLOG_STR = - 1006, ERR_SYNTAX_ERROR = - 1007,
     ERR_ENTRY_NOT_EXIST = - 1008, ERR_DB_NOT_EXIST = - 1009, ERR_PERMISSION_DENIED = - 1010,
     ERR_ENTRY_EXISTED = - 1011, ERR_NOT_INTEGER = - 1012, ERR_NOT_NUMBER = - 1013,
     ERR_INVALID_NUMBER = - 1014, ERR_BIT_OUTRANGE = - 1015, ERR_ARGS_EXCEED_LIMIT = - 1016,
     ERR_INVALID_COORD_VALUE = - 1017, ERR_NOT_IMPLEMENTED = - 1018, ERR_OFFSET_OUTRANGE = - 1019,
     V_TYPE_SET = 1, V_TYPE_LIST = 2, V_TYPE_ZSET = 3, V_TYPE_HASH = 4, V_TYPE_STRING = 5,
     V_TYPE_POD = 6\<rparr>"

definition demo_nat_server :: "nat server" where
  "demo_nat_server = initial_server 0 default_config [] (\<lambda>n. n) (\<lambda>_. NUL)"

end
