(* ===== verification/Cmd_Keys.thy ===== *)
theory Cmd_Keys
  imports Server_State
begin

text \<open>
  The key commands of \<open>command/keys.cpp\<close> and the connection commands of \<open>command/connection.cpp\<close>,
  translated over the storage-engine parameter. A handler takes the engine, the context, the
  frame and the server; handlers that always return 0 return the server only.
\<close>

definition Randomkey :: "'s mmkv \<Rightarrow> ctxid \<Rightarrow> RedisCommandFrame \<Rightarrow> 's server \<Rightarrow> 's server" where
  "Randomkey K c cmd s =
     (let (r, s) = kv_call K ''RandomKey'' c [] s in on_reply c (fill_str_reply (kv_str r)) s)"

text \<open>Results of the engine are stored through a callback that adds a bulk member to the reply.\<close>

definition ReplyResultStringAlloc :: "string list \<Rightarrow> RedisReply \<Rightarrow> RedisReply" where
  "ReplyResultStringAlloc vs r =
     foldl (\<lambda>r v. AddMember True (set_str v (set_type REDIS_REPLY_STRING reply_new)) r) r vs"

text \<open>The loop over the options of \<open>SCAN\<close>: the pattern and the limit, or the error text.\<close>

fun scan_options :: "string list \<Rightarrow> string \<Rightarrow> nat \<Rightarrow> string + string \<times> nat" where
  "scan_options [] pattern limit = Inr (pattern, limit)"
| "scan_options (a # as) pattern limit =
     (if strcaseeq a ''count''
      then case as of
             [] \<Rightarrow> Inl ''value is not an integer or out of range''
           | v # as' \<Rightarrow>
               (case string_touint32 v of
                  None \<Rightarrow> Inl ''value is not an integer or out of range''
                | Some n \<Rightarrow> scan_options as' pattern n)
      else if strcaseeq a ''match''
      then case as of
             [] \<Rightarrow> Inl ([CHR 0x27] @ ''MATCH'' @ [CHR 0x27] @ '' need one args followed'')
           | v # as' \<Rightarrow> scan_options as' v limit
      else Inl ''Syntax error, try scan 0 '')"

definition REDIS_CMD_SCAN :: nat where "REDIS_CMD_SCAN = 162"
definition REDIS_CMD_SSCAN :: nat where "REDIS_CMD_SSCAN = 163"
definition REDIS_CMD_HSCAN :: nat where "REDIS_CMD_HSCAN = 164"
definition REDIS_CMD_ZSCAN :: nat where "REDIS_CMD_ZSCAN = 165"

definition Scan :: "'s mmkv \<Rightarrow> ctxid \<Rightarrow> RedisCommandFrame \<Rightarrow> 's server \<Rightarrow> 's server" where
  "Scan K c cmd s =
     (let arg_start = (if frame_type cmd \<noteq> REDIS_CMD_SCAN then 1 else 0)
      in case scan_options (drop (arg_start + 1) (m_args cmd)) [] 1000 of
           Inl err \<Rightarrow> on_reply c (fill_error_reply err) s
         | Inr (pattern, limit) \<Rightarrow>
             let scan_count_limit = c_uint32 (int limit * 10)
             in case string_touint32 (arg cmd arg_start) of
                  None \<Rightarrow> on_reply c (fill_error_reply ''value is not an integer or out of range'') s
                | Some cursor \<Rightarrow>
                    let args = [KInt (int cursor), KStr pattern, KInt (int scan_count_limit)];
                        (r, s) =
                          (if frame_type cmd = REDIS_CMD_SCAN then kv_call K ''Scan'' c args s
                           else if frame_type cmd = REDIS_CMD_SSCAN
                           then kv_call K ''SScan'' c (KStr (arg cmd 0) # args) s
                           else if frame_type cmd = REDIS_CMD_HSCAN
                           then kv_call K ''HScan'' c (KStr (arg cmd 0) # args) s
                           else if frame_type cmd = REDIS_CMD_ZSCAN
                           then kv_call K ''ZScan'' c (KStr (arg cmd 0) # args) s
                           else (\<lparr>kv_err = 0, kv_str = [], kv_strs = [], kv_flags = [],
                                  kv_int = 0, kv_dbl = 0\<rparr>, s))
                    in on_reply c
                         (\<lambda>rep. AddMember True
                            (ReplyResultStringAlloc (kv_strs r) (set_type REDIS_REPLY_ARRAY reply_new))
                            (AddMember True (fill_int_reply (kv_err r) reply_new) rep)) s)"

definition Keys :: "'s mmkv \<Rightarrow> ctxid \<Rightarrow> RedisCommandFrame \<Rightarrow> 's server \<Rightarrow> 's server" where
  "Keys K c cmd s =
     (let (r, s) = kv_call K ''Keys'' c [KStr (arg cmd 0)] s
      in on_reply c (fill_str_array_reply (kv_strs r)) s)"

definition Rename :: "'s mmkv \<Rightarrow> ctxid \<Rightarrow> RedisCommandFrame \<Rightarrow> 's server \<Rightarrow> 's server" where
  "Rename K c cmd s =
     (let (r, s) = kv_call K ''Rename'' c [KStr (arg cmd 0), KStr (arg cmd 1)] s
      in if kv_err r \<ge> 0
         then on_reply c fill_ok_reply
                (FireKeyChangedEvent c (arg cmd 1) (FireKeyChangedEvent c (arg cmd 0) s))
         else FillErrorReply K c (kv_err r) s)"

definition RenameNX :: "'s mmkv \<Rightarrow> ctxid \<Rightarrow> RedisCommandFrame \<Rightarrow> 's server \<Rightarrow> 's server" where
  "RenameNX K c cmd s =
     (let (r, s) = kv_call K ''RenameNX'' c [KStr (arg cmd 0), KStr (arg cmd 1)] s
      in if kv_err r \<ge> 0
         then let s = (if kv_err r > 0
                       then FireKeyChangedEvent c (arg cmd 1) (FireKeyChangedEvent c (arg cmd 0) s)
                       else s)
              in on_reply c (fill_int_reply (kv_err r)) s
         else FillErrorReply K c (kv_err r) s)"

definition Move :: "'s mmkv \<Rightarrow> ctxid \<Rightarrow> RedisCommandFrame \<Rightarrow> 's server \<Rightarrow> 's server" where
  "Move K c cmd s =
     (case string_touint32 (arg cmd 1) of
        None \<Rightarrow> on_reply c (fill_error_reply ''value is not an integer or out of range'') s
      | Some dst \<Rightarrow>
          let (r, s) = kv_call K ''Move'' c [KStr (arg cmd 0), KInt (int dst)] s
          in if kv_err r \<ge> 0
             then let s = (if kv_err r > 0
                           then FireKeyChangedEvent_db c dst (arg cmd 0)
                                  (FireKeyChangedEvent c (arg cmd 0) s)
                           else s)
                  in on_reply c (fill_int_reply (kv_err r)) s
             else FillErrorReply K c (kv_err r) s)"

definition Type :: "'s mmkv \<Rightarrow> ctxid \<Rightarrow> RedisCommandFrame \<Rightarrow> 's server \<Rightarrow> 's server" where
  "Type K c cmd s =
     (let (r, s) = kv_call K ''Type'' c [KStr (arg cmd 0)] s
      in on_reply c (fill_status_reply
           (if kv_err r = V_TYPE_SET K then ''set''
            else if kv_err r = V_TYPE_LIST K then ''list''
            else if kv_err r = V_TYPE_ZSET K then ''zset''
            else if kv_err r = V_TYPE_HASH K then ''hash''
            else if kv_err r = V_TYPE_STRING K then ''string''
            else if kv_err r = V_TYPE_POD K then ''pod''
            else ''none'')) s)"

definition Persist :: "'s mmkv \<Rightarrow> ctxid \<Rightarrow> RedisCommandFrame \<Rightarrow> 's server \<Rightarrow> 's server" where
  "Persist K c cmd s =
     (let (r, s) = kv_call K ''Persist'' c [KStr (arg cmd 0)] s
      in if kv_err r \<ge> 0
         then let s = (if kv_err r > 0 then FireKeyChangedEvent c (arg cmd 0) s else s)
              in on_reply c (fill_int_reply (kv_err r)) s
         else FillErrorReply K c (kv_err r) s)"

text \<open>The four commands that set an expiration differ in the engine's method and the unit.\<close>

definition expire_with ::
    "string \<Rightarrow> (nat \<Rightarrow> nat) \<Rightarrow> 's mmkv \<Rightarrow> ctxid \<Rightarrow> RedisCommandFrame \<Rightarrow> 's server \<Rightarrow> 's server" where
  "expire_with op scale K c cmd s =
     (case check_uint64_arg (arg cmd 1) (reply (ctx s c)) of
        Inl rep \<Rightarrow> on_reply c (\<lambda>_. rep) s
      | Inr v \<Rightarrow>
          let (r, s) = kv_call K op c [KStr (arg cmd 0), KInt (int (scale v))] s
          in if kv_err r \<ge> 0
             then let s = (if kv_err r > 0 then FireKeyChangedEvent c (arg cmd 0) s else s)
                  in on_reply c (fill_int_reply (kv_err r)) s
             else FillErrorReply K c (kv_err r) s)"

definition PExpire :: "'s mmkv \<Rightarrow> ctxid \<Rightarrow> RedisCommandFrame \<Rightarrow> 's server \<Rightarrow> 's server" where
  "PExpire = expire_with ''PExpire'' id"

definition PExpireat :: "'s mmkv \<Rightarrow> ctxid \<Rightarrow> RedisCommandFrame \<Rightarrow> 's server \<Rightarrow> 's server" where
  "PExpireat = expire_with ''PExpireat'' id"

definition Expire :: "'s mmkv \<Rightarrow> ctxid \<Rightarrow> RedisCommandFrame \<Rightarrow> 's server \<Rightarrow> 's server" where
  "Expire = expire_with ''Expire'' id"

definition Expireat :: "'s mmkv \<Rightarrow> ctxid \<Rightarrow> RedisCommandFrame \<Rightarrow> 's server \<Rightarrow> 's server" where
  "Expireat = expire_with ''PExpireat'' (\<lambda>v. (v * 1000) mod 2 ^ 64)"

definition PTTL :: "'s mmkv \<Rightarrow> ctxid \<Rightarrow> RedisCommandFrame \<Rightarrow> 's server \<Rightarrow> 's server" where
  "PTTL K c cmd s =
     (let (r, s) = kv_call K ''PTTL'' c [KStr (arg cmd 0)] s
      in on_reply c (fill_int_reply (kv_int r)) s)"

definition TTL :: "'s mmkv \<Rightarrow> ctxid \<Rightarrow> RedisCommandFrame \<Rightarrow> 's server \<Rightarrow> 's server" where
  "TTL K c cmd s =
     (let (r, s) = kv_call K ''TTL'' c [KStr (arg cmd 0)] s
      in on_reply c (fill_int_reply (kv_int r)) s)"

definition Exists :: "'s mmkv \<Rightarrow> ctxid \<Rightarrow> RedisCommandFrame \<Rightarrow> 's server \<Rightarrow> 's server" where
  "Exists K c cmd s =
     (let (r, s) = kv_call K ''Exists'' c [KStr (arg cmd 0)] s
      in if kv_err r \<ge> 0 then on_reply c (fill_int_reply (kv_err r)) s
         else FillErrorReply K c (kv_err r) s)"

definition Del :: "'s mmkv \<Rightarrow> ctxid \<Rightarrow> RedisCommandFrame \<Rightarrow> 's server \<Rightarrow> 's server" where
  "Del K c cmd s =
     (let (r, s) = kv_call K ''Del'' c [KStrs (m_args cmd)] s
      in if kv_err r \<ge> 0
         then let s = (if kv_err r > 0 then fold (FireKeyChangedEvent c) (m_args cmd) s else s)
              in on_reply c (fill_int_reply (kv_err r)) s
         else FillErrorReply K c (kv_err r) s)"

section \<open>Connection commands\<close>

definition Quit :: "ctxid \<Rightarrow> RedisCommandFrame \<Rightarrow> 's server \<Rightarrow> int \<times> 's server" where
  "Quit c cmd s = (- 1, on_reply c fill_ok_reply s)"

definition Ping :: "ctxid \<Rightarrow> RedisCommandFrame \<Rightarrow> 's server \<Rightarrow> 's server" where
  "Ping c cmd s = on_reply c fill_pong_reply s"

definition Echo :: "ctxid \<Rightarrow> RedisCommandFrame \<Rightarrow> 's server \<Rightarrow> 's server" where
  "Echo c cmd s = on_reply c (fill_str_reply (arg cmd 0)) s"

definition Select :: "ctxid \<Rightarrow> RedisCommandFrame \<Rightarrow> 's server \<Rightarrow> 's server" where
  "Select c cmd s =
     (case string_touint32 (arg cmd 0) of
        None \<Rightarrow> on_reply c (fill_error_reply ''invalid DB index'') s
      | Some newdb \<Rightarrow>
          if int newdb \<ge> maxdb (m_cfg s)
          then on_reply c (fill_error_reply ''invalid DB index'') s
          else on_reply c fill_ok_reply (upd_ctx c (\<lambda>x. x\<lparr>currentDB := newdb\<rparr>) s))"

definition Auth :: "ctxid \<Rightarrow> RedisCommandFrame \<Rightarrow> 's server \<Rightarrow> 's server" where
  "Auth c cmd s =
     (if requirepass (m_cfg s) = []
      then on_reply c (fill_error_reply ''Client sent AUTH, but no password is set'') s
      else if requirepass (m_cfg s) \<noteq> arg cmd 0
      then on_reply c (fill_error_reply ''invalid password'')
             (upd_ctx c (\<lambda>x. x\<lparr>authenticated := False\<rparr>) s)
      else on_reply c fill_ok_reply (upd_ctx c (\<lambda>x. x\<lparr>authenticated := True\<rparr>) s))"

section \<open>They keep to data steps\<close>

lemmas key_cmd_defs =
  Randomkey_def Scan_def Keys_def Rename_def RenameNX_def Move_def Type_def Persist_def
  PExpire_def PExpireat_def Expire_def Expireat_def expire_with_def PTTL_def TTL_def Exists_def
  Del_def Ping_def Echo_def

lemma key_cmds_data [data_intros]:
  "data_step c s (Randomkey K c cmd s)" "data_step c s (Scan K c cmd s)"
  "data_step c s (Keys K c cmd s)" "data_step c s (Rename K c cmd s)"
  "data_step c s (RenameNX K c cmd s)" "data_step c s (Move K c cmd s)"
  "data_step c s (Type K c cmd s)" "data_step c s (Persist K c cmd s)"
  "data_step c s (PExpire K c cmd s)" "data_step c s (PExpireat K c cmd s)"
  "data_step c s (Expire K c cmd s)" "data_step c s (Expireat K c cmd s)"
  "data_step c s (PTTL K c cmd s)" "data_step c s (TTL K c cmd s)"
  "data_step c s (Exists K c cmd s)" "data_step c s (Del K c cmd s)"
  "data_step c s (Ping c cmd s)" "data_step c s (Echo c cmd s)"
  by (simp_all add: key_cmd_defs split_beta Let_def data_intros split: option.split sum.split)

end
