(* ===== verification/Cmd_Strings.thy ===== *)
theory Cmd_Strings
  imports Cmd_Keys
begin

text \<open>
  The string and bit commands of \<open>command/t_string.cpp\<close>. \<open>todouble\<close> is the C library's conversion of
  a text to a floating-point number, \<open>dtoa\<close> the rendering \<open>fast_dtoa(val, 10, ...)\<close>. Two of the
  handlers read past the end of the argument array on some inputs; that access sets \<open>fault\<close>.
\<close>

definition Get :: "'s mmkv \<Rightarrow> ctxid \<Rightarrow> RedisCommandFrame \<Rightarrow> 's server \<Rightarrow> 's server" where
  "Get K c cmd s =
     (let s = on_reply c (set_type REDIS_REPLY_STRING) s;
          (r, s) = kv_call K ''Get'' c [KStr (arg cmd 0)] s;
          s = on_reply c (set_str (kv_str r)) s
      in if kv_err r = ERR_ENTRY_NOT_EXIST K \<or> kv_err r = ERR_DB_NOT_EXIST K
         then on_reply c (set_type REDIS_REPLY_NIL) s
         else if kv_err r < 0 then FillErrorReply K c (kv_err r) s
         else s)"

text \<open>The members whose flag is not set become nil.\<close>

definition nil_members :: "bool list \<Rightarrow> nat \<Rightarrow> RedisReply \<Rightarrow> RedisReply" where
  "nil_members flags n r =
     set_elements (map_option (\<lambda>es. map (\<lambda>i. if i < n \<and> \<not> flags ! i
        then set_type REDIS_REPLY_NIL (es ! i) else es ! i) [0..<length es]) (reply_elements r)) r"

definition MGet :: "'s mmkv \<Rightarrow> ctxid \<Rightarrow> RedisCommandFrame \<Rightarrow> 's server \<Rightarrow> 's server" where
  "MGet K c cmd s =
     (let s = on_reply c (set_type REDIS_REPLY_ARRAY) s;
          (r, s) = kv_call K ''MGet'' c [KStrs (m_args cmd)] s;
          s = on_reply c (ReplyResultStringAlloc (kv_strs r)) s
      in on_reply c (nil_members (kv_flags r) (length (m_args cmd))) s)"

definition Append :: "'s mmkv \<Rightarrow> ctxid \<Rightarrow> RedisCommandFrame \<Rightarrow> 's server \<Rightarrow> 's server" where
  "Append K c cmd s =
     (let (r, s) = kv_call K ''Append'' c [KStr (arg cmd 0), KStr (arg cmd 1)] s
      in if kv_err r \<ge> 0
         then FireKeyChangedEvent c (arg cmd 0) (on_reply c (fill_int_reply (kv_err r)) s)
         else FillErrorReply K c (kv_err r) s)"

definition PSetEX :: "'s mmkv \<Rightarrow> ctxid \<Rightarrow> RedisCommandFrame \<Rightarrow> 's server \<Rightarrow> 's server" where
  "PSetEX K c cmd s =
     (case string_touint32 (arg cmd 1) of
        None \<Rightarrow> on_reply c (fill_error_reply ''value is not an integer or out of range'') s
      | Some mills \<Rightarrow>
          let (r, s) = kv_call K ''Set'' c [KStr (arg cmd 0), KStr (arg cmd 2), KInt (- 1),
                         KInt (int mills), KInt (- 1)] s
          in if kv_err r = 0 then FireKeyChangedEvent c (arg cmd 0) (on_reply c fill_ok_reply s)
             else FillErrorReply K c (kv_err r) s)"

fun pairs_of :: "string list \<Rightarrow> (string \<times> string) list" where
  "pairs_of (k # v # rest) = (k, v) # pairs_of rest"
| "pairs_of _ = []"

definition REDIS_CMD_MSETNX :: nat where "REDIS_CMD_MSETNX = 59"

definition MSet :: "'s mmkv \<Rightarrow> ctxid \<Rightarrow> RedisCommandFrame \<Rightarrow> 's server \<Rightarrow> 's server" where
  "MSet K c cmd s =
     (if length (m_args cmd) mod 2 \<noteq> 0
      then on_reply c (fill_error_reply ''wrong number of arguments for MSET'') s
      else
        let kvs = pairs_of (m_args cmd)
        in if frame_type cmd = REDIS_CMD_MSETNX
           then let (r, s) = kv_call K ''MSetNX'' c [KPairs kvs] s;
                    s = on_reply c (fill_int_reply (if kv_err r = 0 then 1 else 0)) s
                in if kv_err r = 0 then fold (FireKeyChangedEvent c) (map fst kvs) s else s
           else let (r, s) = kv_call K ''MSet'' c [KPairs kvs] s
                in fold (FireKeyChangedEvent c) (map fst kvs) (on_reply c fill_ok_reply s))"

definition MSetNX :: "'s mmkv \<Rightarrow> ctxid \<Rightarrow> RedisCommandFrame \<Rightarrow> 's server \<Rightarrow> 's server" where
  "MSetNX = MSet"

text \<open>
  \<open>key\<close> is a reference into the arguments of the frame that the rewrite overwrites element by
  element, so after the rewrite it denotes the first argument of the new command.
\<close>

definition IncrbyFloat ::
    "(string \<Rightarrow> real option) \<Rightarrow> (real \<Rightarrow> string) \<Rightarrow> 's mmkv \<Rightarrow> ctxid \<Rightarrow> RedisCommandFrame
       \<Rightarrow> 's server \<Rightarrow> 's server" where
  "IncrbyFloat todouble dtoa K c cmd s =
     (case GetDoubleValue todouble c (arg cmd 1) s of
        Inl s \<Rightarrow> s
      | Inr increment \<Rightarrow>
          let (r, s) = kv_call K ''IncrByFloat'' c [KStr (arg cmd 0), KReal increment] s
          in if kv_err r = 0
             then let s = on_reply c (fill_double_reply (kv_dbl r)) s;
                      rewrite = AddArg (AddArg (RedisCommandFrame_new ''set'') (arg cmd 1))
                                  (dtoa (kv_dbl r));
                      rewritten = (\<not> no_wal (ctx s c) \<and> current_cmd (ctx s c) \<noteq> None);
                      s = (if \<not> no_wal (ctx s c) then RewriteClientCommand c rewrite s else s)
                  in FireKeyChangedEvent c (if rewritten then arg rewrite 0 else arg cmd 0) s
             else FillErrorReply K c (kv_err r) s)"

definition IncrDecrCommand :: "'s mmkv \<Rightarrow> ctxid \<Rightarrow> string \<Rightarrow> int \<Rightarrow> 's server \<Rightarrow> 's server" where
  "IncrDecrCommand K c key incr s =
     (let (r, s) = kv_call K ''IncrBy'' c [KStr key, KInt incr] s
      in if kv_err r = 0
         then FireKeyChangedEvent c key (on_reply c (fill_int_reply (kv_int r)) s)
         else FillErrorReply K c (kv_err r) s)"

definition Incrby :: "'s mmkv \<Rightarrow> ctxid \<Rightarrow> RedisCommandFrame \<Rightarrow> 's server \<Rightarrow> 's server" where
  "Incrby K c cmd s =
     (case GetInt64Value c (arg cmd 1) s of
        Inl s \<Rightarrow> s
      | Inr increment \<Rightarrow> IncrDecrCommand K c (arg cmd 0) increment s)"

definition Incr :: "'s mmkv \<Rightarrow> ctxid \<Rightarrow> RedisCommandFrame \<Rightarrow> 's server \<Rightarrow> 's server" where
  "Incr K c cmd s = IncrDecrCommand K c (arg cmd 0) 1 s"

definition Decrby :: "'s mmkv \<Rightarrow> ctxid \<Rightarrow> RedisCommandFrame \<Rightarrow> 's server \<Rightarrow> 's server" where
  "Decrby K c cmd s =
     (case GetInt64Value c (arg cmd 1) s of
        Inl s \<Rightarrow> s
      | Inr increment \<Rightarrow> IncrDecrCommand K c (arg cmd 0) (c_int64 (- increment)) s)"

definition Decr :: "'s mmkv \<Rightarrow> ctxid \<Rightarrow> RedisCommandFrame \<Rightarrow> 's server \<Rightarrow> 's server" where
  "Decr K c cmd s = IncrDecrCommand K c (arg cmd 0) (- 1) s"

definition GetSet :: "'s mmkv \<Rightarrow> ctxid \<Rightarrow> RedisCommandFrame \<Rightarrow> 's server \<Rightarrow> 's server" where
  "GetSet K c cmd s =
     (let (r, s) = kv_call K ''GetSet'' c [KStr (arg cmd 0), KStr (arg cmd 1)] s
      in if kv_err r < 0 then FillErrorReply K c (kv_err r) s
         else FireKeyChangedEvent c (arg cmd 0)
                (if kv_err r = 1 then on_reply c (set_type REDIS_REPLY_NIL) s
                 else on_reply c (fill_str_reply (kv_str r)) s))"

definition GetRange :: "'s mmkv \<Rightarrow> ctxid \<Rightarrow> RedisCommandFrame \<Rightarrow> 's server \<Rightarrow> 's server" where
  "GetRange K c cmd s =
     (case GetInt64Value c (arg cmd 1) s of
        Inl s \<Rightarrow> s
      | Inr start \<Rightarrow>
          (case GetInt64Value c (arg cmd 2) s of
             Inl s \<Rightarrow> s
           | Inr stop \<Rightarrow>
               let (r, s) = kv_call K ''GetRange'' c [KStr (arg cmd 0), KInt start, KInt stop] s
               in if kv_err r \<noteq> 0 then FillErrorReply K c (kv_err r) s
                  else on_reply c (fill_str_reply (kv_str r)) s))"

text \<open>
  The options of \<open>SET\<close>: \<open>ex\<close>, \<open>px\<close> and \<open>nx_xx\<close>, or an error text, or (\<open>Inl None\<close>) an access behind the
  last argument, when \<open>PX\<close> or \<open>EX\<close> comes last.
\<close>

fun set_options :: "string list \<Rightarrow> int \<Rightarrow> int \<Rightarrow> int \<Rightarrow> string option + int \<times> int \<times> int" where
  "set_options [] ex px nx_xx = Inr (ex, px, nx_xx)"
| "set_options (a # as) ex px nx_xx =
     (if strcaseeq a ''px'' \<or> strcaseeq a ''ex''
      then case as of
             [] \<Rightarrow> Inl None
           | v # as' \<Rightarrow>
               (case raw_toint64 v of
                  None \<Rightarrow> Inl (Some ''value is not an integer or out of range'')
                | Some iv \<Rightarrow>
                    if iv < 0 then Inl (Some ''value is not an integer or out of range'')
                    else if strcaseeq a ''px'' then set_options as' ex iv nx_xx
                    else set_options as' (c_int iv) px nx_xx)
      else if strcaseeq a ''xx'' then set_options as ex px 1
      else if strcaseeq a ''nx'' then set_options as ex px 0
      else Inl (Some ''syntax error''))"

definition Set :: "'s mmkv \<Rightarrow> ctxid \<Rightarrow> RedisCommandFrame \<Rightarrow> 's server \<Rightarrow> 's server" where
  "Set K c cmd s =
     (case set_options (drop 2 (m_args cmd)) (- 1) (- 1) (- 1) of
        Inl None \<Rightarrow> s\<lparr>fault := True\<rparr>
      | Inl (Some err) \<Rightarrow> on_reply c (fill_error_reply err) s
      | Inr (ex, px, nx_xx) \<Rightarrow>
          let (r, s) = kv_call K ''Set'' c [KStr (arg cmd 0), KStr (arg cmd 1), KInt ex, KInt px,
                         KInt nx_xx] s
          in if kv_err r = ERR_ENTRY_EXISTED K \<or> kv_err r = ERR_ENTRY_NOT_EXIST K
             then on_reply c (set_type REDIS_REPLY_NIL) s
             else if kv_err r \<noteq> 0 then FillErrorReply K c (kv_err r) s
             else on_reply c fill_ok_reply (FireKeyChangedEvent c (arg cmd 0) s))"

definition SetEX :: "'s mmkv \<Rightarrow> ctxid \<Rightarrow> RedisCommandFrame \<Rightarrow> 's server \<Rightarrow> 's server" where
  "SetEX K c cmd s =
     (case GetInt64Value c (arg cmd 1) s of
        Inl s \<Rightarrow> s
      | Inr secs \<Rightarrow>
          let (r, s) = kv_call K ''SetEX'' c [KStr (arg cmd 0), KInt secs, KStr (arg cmd 2)] s
          in if kv_err r \<noteq> 0 then FillErrorReply K c (kv_err r) s
             else FireKeyChangedEvent c (arg cmd 0) (on_reply c fill_ok_reply s))"

definition SetNX :: "'s mmkv \<Rightarrow> ctxid \<Rightarrow> RedisCommandFrame \<Rightarrow> 's server \<Rightarrow> 's server" where
  "SetNX K c cmd s =
     (let (r, s) = kv_call K ''SetNX'' c [KStr (arg cmd 0), KStr (arg cmd 1)] s
      in if kv_err r \<noteq> 0 \<and> kv_err r \<noteq> ERR_ENTRY_EXISTED K then FillErrorReply K c (kv_err r) s
         else let inserted = kv_err r = 0;
                  s = on_reply c (fill_int_reply (if inserted then 1 else 0)) s
              in if inserted then FireKeyChangedEvent c (arg cmd 0) s else s)"

definition SetRange :: "'s mmkv \<Rightarrow> ctxid \<Rightarrow> RedisCommandFrame \<Rightarrow> 's server \<Rightarrow> 's server" where
  "SetRange K c cmd s =
     (case GetInt64Value c (arg cmd 1) s of
        Inl s \<Rightarrow> s
      | Inr offset \<Rightarrow>
          let (r, s) = kv_call K ''SetRange'' c [KStr (arg cmd 0), KInt offset, KStr (arg cmd 2)] s;
              err = (if kv_err r = ERR_ENTRY_NOT_EXIST K \<or> kv_err r = ERR_DB_NOT_EXIST K then 0
                     else kv_err r)
          in if err < 0 then FillErrorReply K c err s
             else let s = on_reply c (fill_int_reply err) s
                  in if err > 0 then FireKeyChangedEvent c (arg cmd 0) s else s)"

definition Strlen :: "'s mmkv \<Rightarrow> ctxid \<Rightarrow> RedisCommandFrame \<Rightarrow> 's server \<Rightarrow> 's server" where
  "Strlen K c cmd s =
     (let (r, s) = kv_call K ''Strlen'' c [KStr (arg cmd 0)] s
      in if kv_err r < 0 then FillErrorReply K c (kv_err r) s
         else on_reply c (fill_int_reply (kv_err r)) s)"

section \<open>Bits\<close>

definition Bitcount :: "'s mmkv \<Rightarrow> ctxid \<Rightarrow> RedisCommandFrame \<Rightarrow> 's server \<Rightarrow> 's server" where
  "Bitcount K c cmd s =
     (if length (m_args cmd) = 2 then on_reply c (fill_error_reply ''syntax error'') s
      else case (if length (m_args cmd) = 1 then Inr (0, - 1)
                 else case GetInt64Value c (arg cmd 1) s of
                        Inl s \<Rightarrow> Inl s
                      | Inr start \<Rightarrow>
                          (case GetInt64Value c (arg cmd 2) s of
                             Inl s \<Rightarrow> Inl s
                           | Inr stop \<Rightarrow> Inr (start, stop))) of
             Inl s \<Rightarrow> s
           | Inr (start, stop) \<Rightarrow>
               let (r, s) = kv_call K ''BitCount'' c [KStr (arg cmd 0), KInt start, KInt stop] s
               in if kv_err r < 0 then FillErrorReply K c (kv_err r) s
                  else on_reply c (fill_int_reply (kv_err r)) s)"

definition Bitop :: "'s mmkv \<Rightarrow> ctxid \<Rightarrow> RedisCommandFrame \<Rightarrow> 's server \<Rightarrow> 's server" where
  "Bitop K c cmd s =
     (let (r, s) = kv_call K ''BitOP'' c [KStr (arg cmd 0), KStr (arg cmd 1),
                     KStrs (drop 2 (m_args cmd))] s
      in if kv_err r < 0 then FillErrorReply K c (kv_err r) s
         else FireKeyChangedEvent c (arg cmd 0) (on_reply c (fill_int_reply (kv_err r)) s))"

definition SetBit :: "'s mmkv \<Rightarrow> ctxid \<Rightarrow> RedisCommandFrame \<Rightarrow> 's server \<Rightarrow> 's server" where
  "SetBit K c cmd s =
     (case string_touint64 (arg cmd 1) of
        None \<Rightarrow> on_reply c (fill_error_reply ''value is not an integer or out of range'') s
      | Some offset \<Rightarrow>
          if arg cmd 2 \<noteq> ''1'' \<and> arg cmd 2 \<noteq> ''0''
          then on_reply c (fill_error_reply ''bit is not an integer or out of range'') s
          else
            let (r, s) = kv_call K ''SetBit'' c [KStr (arg cmd 0), KInt (int offset),
                           KInt (if arg cmd 2 \<noteq> ''0'' then 1 else 0)] s
            in if kv_err r < 0 then FillErrorReply K c (kv_err r) s
               else FireKeyChangedEvent c (arg cmd 0)
                      (on_reply c (fill_int_reply (if kv_err r \<noteq> 0 then 1 else 0)) s))"

text \<open>\<open>GETBIT\<close> has two arguments and the handler reads a third one.\<close>

definition GetBit :: "'s mmkv \<Rightarrow> ctxid \<Rightarrow> RedisCommandFrame \<Rightarrow> 's server \<Rightarrow> 's server" where
  "GetBit K c cmd s =
     (case string_touint64 (arg cmd 1) of
        None \<Rightarrow> on_reply c (fill_error_reply ''value is not an integer or out of range'') s
      | Some offset \<Rightarrow>
          let s = (if length (m_args cmd) \<le> 2 then s\<lparr>fault := True\<rparr> else s);
              (r, s) = kv_call K ''GetBit'' c [KStr (arg cmd 0), KInt (int offset)] s
          in if kv_err r < 0 then FillErrorReply K c (kv_err r) s
             else on_reply c (fill_int_reply (kv_err r)) s)"

definition Bitpos :: "'s mmkv \<Rightarrow> ctxid \<Rightarrow> RedisCommandFrame \<Rightarrow> 's server \<Rightarrow> 's server" where
  "Bitpos K c cmd s =
     (if arg cmd 1 \<noteq> ''1'' \<and> arg cmd 1 \<noteq> ''0''
      then on_reply c (fill_error_reply ''bit is not an integer or out of range'') s
      else case (if length (m_args cmd) \<ge> 3 then GetInt64Value c (arg cmd 2) s else Inr 0) of
             Inl s \<Rightarrow> s
           | Inr start \<Rightarrow>
               (case (if length (m_args cmd) = 4 then GetInt64Value c (arg cmd 3) s else Inr (- 1)) of
                  Inl s \<Rightarrow> s
                | Inr stop \<Rightarrow>
                    let (r, s) = kv_call K ''BitPos'' c [KStr (arg cmd 0),
                                   KInt (if arg cmd 1 \<noteq> ''0'' then 1 else 0), KInt start, KInt stop] s
                    in if kv_err r < - 1 then FillErrorReply K c (kv_err r) s
                       else on_reply c (fill_int_reply (kv_err r)) s))"

section \<open>They keep to data steps\<close>

lemmas string_cmd_defs =
  Get_def MGet_def Append_def PSetEX_def MSet_def MSetNX_def IncrbyFloat_def IncrDecrCommand_def
  Incrby_def Incr_def Decrby_def Decr_def GetSet_def GetRange_def Set_def SetEX_def SetNX_def
  SetRange_def Strlen_def Bitcount_def Bitop_def SetBit_def GetBit_def Bitpos_def
  GetInt64Value_def GetDoubleValue_def

lemma string_cmds_data [data_intros]:
  "data_step c s (Get K c cmd s)" "data_step c s (MGet K c cmd s)"
  "data_step c s (Append K c cmd s)" "data_step c s (PSetEX K c cmd s)"
  "data_step c s (MSet K c cmd s)" "data_step c s (MSetNX K c cmd s)"
  "data_step c s (IncrbyFloat td dt K c cmd s)" "data_step c s (IncrDecrCommand K c key i s)"
  "data_step c s (Incrby K c cmd s)" "data_step c s (Incr K c cmd s)"
  "data_step c s (Decrby K c cmd s)" "data_step c s (Decr K c cmd s)"
  "data_step c s (GetSet K c cmd s)" "data_step c s (GetRange K c cmd s)"
  "data_step c s (Set K c cmd s)" "data_step c s (SetEX K c cmd s)"
  "data_step c s (SetNX K c cmd s)" "data_step c s (SetRange K c cmd s)"
  "data_step c s (Strlen K c cmd s)" "data_step c s (Bitcount K c cmd s)"
  "data_step c s (Bitop K c cmd s)" "data_step c s (SetBit K c cmd s)"
  "data_step c s (GetBit K c cmd s)" "data_step c s (Bitpos K c cmd s)"
  by (simp_all add: string_cmd_defs split_beta Let_def data_intros split: option.split sum.split)

section \<open>Defects of single commands\<close>

text \<open>
  \<open>GETBIT\<close> with the two arguments its arity allows reads a third one: every call that parses its
  offset accesses the argument array out of bounds.
\<close>

theorem getbit_out_of_bounds:
  assumes "length (m_args cmd) = 2" "string_touint64 (arg cmd 1) = Some offset"
  shows "fault (GetBit K c cmd s)"
  using assms by (simp add: GetBit_def Let_def split_beta kv_call_def FillErrorReply_def)

theorem getbit_out_of_bounds_witness:
  "fault (GetBit (demo_mmkv (kv_answer 0 [])) 5
     ((RedisCommandFrame_new ''getbit'')\<lparr>m_args := [''k'', ''7'']\<rparr>) demo_nat_server)"
proof -
  have "string_touint64 ''7'' = Some 7"
    by (simp add: string_touint64_def str_touint64_def strtoull_def strto_scan_def is_space_def
        is_digit_def digit_val_def c_str_def Let_def)
  then show ?thesis by (intro getbit_out_of_bounds [where offset = 7]) (simp_all add: arg_def)
qed

text \<open>
  \<open>INCRBYFLOAT\<close> is logged as \<open>SET\<close> of the increment: the command that goes to the log names the
  increment as the key, and the change is reported for that name, so a client that watches the real
  key is not told of the change.
\<close>

theorem incrbyfloat_logs_wrong_key:
  assumes "todouble (arg cmd 1) = Some x" "arg cmd 1 \<noteq> []" "current_cmd (ctx s c) = Some f"
    "\<not> no_wal (ctx s c)"
    and "kv_exec K ''IncrByFloat'' (currentDB (ctx s c)) [KStr (arg cmd 0), KReal x] (m_kv_store s) = (r, st)"
    "kv_err r = 0"
  shows "let s' = IncrbyFloat todouble dtoa K c cmd s in
     m_kv_store s' = st \<and> data_change (ctx s' c)
     \<and> map_option (\<lambda>g. (m_cmd g, m_args g)) (current_cmd (ctx s' c))
         = Some (''set'', [arg cmd 1, dtoa (kv_dbl r)])
     \<and> (\<forall>c'. abort_exec (ctx s' c') \<longleftrightarrow> abort_exec (ctx s c')
          \<or> c' \<in> set (table_lookup (m_watched_ctx s) (WatchKey (currentDB (ctx s c)) (arg cmd 1))))"
proof -
  let ?f = "AddArg (AddArg (RedisCommandFrame_new ''set'') (arg cmd 1)) (dtoa (kv_dbl r))"
  define s1 where "s1 = RewriteClientCommand c ?f (on_reply c (fill_double_reply (kv_dbl r)) (s\<lparr>m_kv_store := st\<rparr>))"
  have a: "arg (AddArg (AddArg (RedisCommandFrame_new n) v) w) 0 = v" for n v w
    by (simp add: arg_def AddArg_def RedisCommandFrame_new_def)
  have e: "IncrbyFloat todouble dtoa K c cmd s = FireKeyChangedEvent c (arg cmd 1) s1"
    using assms by (simp add: IncrbyFloat_def GetDoubleValue_def kv_call_def s1_def a Let_def)
  have s1: "m_kv_store s1 = st" "current_cmd (ctx s1 c) = Some ?f" "currentDB (ctx s1 c) = currentDB (ctx s c)"
    "m_watched_ctx s1 = m_watched_ctx s" "abort_exec (ctx s1 c') = abort_exec (ctx s c')" for c'
    using assms(3) by (simp_all add: s1_def RewriteClientCommand_def)
  obtain ctxs where rest: "AbortWatchKey db k t = t\<lparr>contexts := ctxs db k t\<rparr>" for db k and t :: "'a server"
    using AbortWatchKey_rest by metis
  have "m_kv_store (AbortWatchKey db k t) = m_kv_store t" for db k and t :: "'a server"
    by (simp add: rest)
  then show ?thesis
    unfolding e Let_def FireKeyChangedEvent_def FireKeyChangedEvent_db_def
    using assms(2) by (auto simp: s1 ctx_AbortWatchKey AddArg_def RedisCommandFrame_new_def)
qed

theorem incrbyfloat_logs_wrong_key_witness:
  "let s = IncrbyFloat (\<lambda>_. Some 1) (\<lambda>_. ''2'') (demo_mmkv (kv_answer 0 [])) 5
     ((RedisCommandFrame_new ''incrbyfloat'')\<lparr>m_args := [''k'', ''1'']\<rparr>)
     (upd_ctx 5 (\<lambda>x. x\<lparr>current_cmd := Some (RedisCommandFrame_new ''incrbyfloat'')\<rparr>) demo_nat_server)
   in map_option (\<lambda>g. (m_cmd g, m_args g)) (current_cmd (ctx s 5)) = Some (''set'', [''1'', ''2''])"
  using incrbyfloat_logs_wrong_key [where todouble = "\<lambda>_. Some 1" and dtoa = "\<lambda>_. ''2''"
      and K = "demo_mmkv (kv_answer 0 [])" and c = 5 and x = 1 and f = "RedisCommandFrame_new ''incrbyfloat''"
      and cmd = "(RedisCommandFrame_new ''incrbyfloat'')\<lparr>m_args := [''k'', ''1'']\<rparr>"
      and s = "upd_ctx 5 (\<lambda>x. x\<lparr>current_cmd := Some (RedisCommandFrame_new ''incrbyfloat'')\<rparr>) demo_nat_server"
      and r = "kv_answer 0 []" and st = 1]
  by (simp add: arg_def demo_nat_server_def demo_mmkv_def kv_answer_def Context_new_def Let_def)

end
