(* ===== verification/Cmd_Hashes.thy ===== *)
theory Cmd_Hashes
  imports Cmd_Strings
begin

text \<open>
  The hash commands of \<open>command/t_hash.cpp\<close>, with the same parameters as the string commands.
\<close>

definition HDel :: "'s mmkv \<Rightarrow> ctxid \<Rightarrow> RedisCommandFrame \<Rightarrow> 's server \<Rightarrow> 's server" where
  "HDel K c cmd s =
     (let (r, s) = kv_call K ''HDel'' c [KStr (arg cmd 0), KStrs (drop 1 (m_args cmd))] s
      in if kv_err r \<ge> 0
         then let s = on_reply c (fill_int_reply (kv_err r)) s
              in if kv_err r > 0 then FireKeyChangedEvent c (arg cmd 0) s else s
         else FillErrorReply K c (kv_err r) s)"

definition HExists :: "'s mmkv \<Rightarrow> ctxid \<Rightarrow> RedisCommandFrame \<Rightarrow> 's server \<Rightarrow> 's server" where
  "HExists K c cmd s =
     (let (r, s) = kv_call K ''HExists'' c [KStr (arg cmd 0), KStr (arg cmd 1)] s
      in if kv_err r \<ge> 0 then on_reply c (fill_int_reply (kv_err r)) s
         else FillErrorReply K c (kv_err r) s)"

definition HGet :: "'s mmkv \<Rightarrow> ctxid \<Rightarrow> RedisCommandFrame \<Rightarrow> 's server \<Rightarrow> 's server" where
  "HGet K c cmd s =
     (let (r, s) = kv_call K ''HGet'' c [KStr (arg cmd 0), KStr (arg cmd 1)] s
      in if kv_err r = ERR_ENTRY_NOT_EXIST K \<or> kv_err r = ERR_DB_NOT_EXIST K
         then on_reply c (set_type REDIS_REPLY_NIL) s
         else if kv_err r \<noteq> 0 then FillErrorReply K c (kv_err r) s
         else on_reply c (fill_str_reply (kv_str r)) s)"

definition HGetAll :: "'s mmkv \<Rightarrow> ctxid \<Rightarrow> RedisCommandFrame \<Rightarrow> 's server \<Rightarrow> 's server" where
  "HGetAll K c cmd s =
     (let (r, s) = kv_call K ''HGetAll'' c [KStr (arg cmd 0)] s
      in if kv_err r \<ge> 0 then on_reply c (fill_str_array_reply (kv_strs r)) s
         else FillErrorReply K c (kv_err r) s)"

definition HIncrby :: "'s mmkv \<Rightarrow> ctxid \<Rightarrow> RedisCommandFrame \<Rightarrow> 's server \<Rightarrow> 's server" where
  "HIncrby K c cmd s =
     (case GetInt64Value c (arg cmd 2) s of
        Inl s \<Rightarrow> s
      | Inr increment \<Rightarrow>
          let (r, s) = kv_call K ''HIncrBy'' c [KStr (arg cmd 0), KStr (arg cmd 1), KInt increment] s
          in if kv_err r = 0
             then FireKeyChangedEvent c (arg cmd 0) (on_reply c (fill_int_reply (kv_int r)) s)
             else FillErrorReply K c (kv_err r) s)"

text \<open>The command written to the log has lost the field.\<close>

definition HIncrbyFloat :: "(string \<Rightarrow> real option) \<Rightarrow> (real \<Rightarrow> string) \<Rightarrow> 's mmkv \<Rightarrow> ctxid \<Rightarrow> RedisCommandFrame
    \<Rightarrow> 's server \<Rightarrow> 's server" where
  "HIncrbyFloat todouble dtoa K c cmd s =
     (case GetDoubleValue todouble c (arg cmd 2) s of
        Inl s \<Rightarrow> s
      | Inr increment \<Rightarrow>
          let (r, s) = kv_call K ''HIncrByFloat'' c [KStr (arg cmd 0), KStr (arg cmd 1), KReal increment] s
          in if kv_err r = 0
             then let s = FireKeyChangedEvent c (arg cmd 0) (on_reply c (fill_double_reply (kv_dbl r)) s);
                      rewrite = AddArg (AddArg (RedisCommandFrame_new ''hset'') (arg cmd 0))
                                  (dtoa (kv_dbl r))
                  in if \<not> no_wal (ctx s c) then RewriteClientCommand c rewrite s else s
             else FillErrorReply K c (kv_err r) s)"

definition HKeys :: "'s mmkv \<Rightarrow> ctxid \<Rightarrow> RedisCommandFrame \<Rightarrow> 's server \<Rightarrow> 's server" where
  "HKeys K c cmd s =
     (let s = on_reply c (set_type REDIS_REPLY_ARRAY) s;
          (r, s) = kv_call K ''HKeys'' c [KStr (arg cmd 0)] s;
          s = on_reply c (ReplyResultStringAlloc (kv_strs r)) s
      in if kv_err r < 0 then FillErrorReply K c (kv_err r) s else s)"

definition HLen :: "'s mmkv \<Rightarrow> ctxid \<Rightarrow> RedisCommandFrame \<Rightarrow> 's server \<Rightarrow> 's server" where
  "HLen K c cmd s =
     (let (r, s) = kv_call K ''HLen'' c [KStr (arg cmd 0)] s
      in if kv_err r \<ge> 0 then on_reply c (fill_int_reply (kv_err r)) s
         else FillErrorReply K c (kv_err r) s)"

definition HMGet :: "'s mmkv \<Rightarrow> ctxid \<Rightarrow> RedisCommandFrame \<Rightarrow> 's server \<Rightarrow> 's server" where
  "HMGet K c cmd s =
     (let s = on_reply c (set_type REDIS_REPLY_ARRAY) s;
          (r, s) = kv_call K ''HMGet'' c [KStr (arg cmd 0), KStrs (drop 1 (m_args cmd))] s;
          s = on_reply c (ReplyResultStringAlloc (kv_strs r)) s
      in if kv_err r < 0 then FillErrorReply K c (kv_err r) s
         else on_reply c (nil_members (kv_flags r) (length (m_args cmd) - 1)) s)"

definition HMSet :: "'s mmkv \<Rightarrow> ctxid \<Rightarrow> RedisCommandFrame \<Rightarrow> 's server \<Rightarrow> 's server" where
  "HMSet K c cmd s =
     (if (length (m_args cmd) - 1) mod 2 \<noteq> 0 then FillErrorReply K c (ERR_INVALID_ARGS K) s
      else
        let (r, s) = kv_call K ''HMSet'' c [KStr (arg cmd 0), KPairs (pairs_of (drop 1 (m_args cmd)))] s
        in if kv_err r \<ge> 0 then FireKeyChangedEvent c (arg cmd 0) (on_reply c fill_ok_reply s)
           else FillErrorReply K c (kv_err r) s)"

definition HSet :: "'s mmkv \<Rightarrow> ctxid \<Rightarrow> RedisCommandFrame \<Rightarrow> 's server \<Rightarrow> 's server" where
  "HSet K c cmd s =
     (let (r, s) = kv_call K ''HSet'' c [KStr (arg cmd 0), KStr (arg cmd 1), KStr (arg cmd 2), KBool False] s
      in if kv_err r \<ge> 0
         then FireKeyChangedEvent c (arg cmd 0) (on_reply c (fill_int_reply (kv_err r)) s)
         else FillErrorReply K c (kv_err r) s)"

definition HSetNX :: "'s mmkv \<Rightarrow> ctxid \<Rightarrow> RedisCommandFrame \<Rightarrow> 's server \<Rightarrow> 's server" where
  "HSetNX K c cmd s =
     (let (r, s) = kv_call K ''HSet'' c [KStr (arg cmd 0), KStr (arg cmd 1), KStr (arg cmd 2), KBool True] s
      in if kv_err r \<ge> 0
         then let s = on_reply c (fill_int_reply (kv_err r)) s
              in if kv_err r > 0 then FireKeyChangedEvent c (arg cmd 0) s else s
         else FillErrorReply K c (kv_err r) s)"

definition HVals :: "'s mmkv \<Rightarrow> ctxid \<Rightarrow> RedisCommandFrame \<Rightarrow> 's server \<Rightarrow> 's server" where
  "HVals K c cmd s =
     (let s = on_reply c (set_type REDIS_REPLY_ARRAY) s;
          (r, s) = kv_call K ''HVals'' c [KStr (arg cmd 0)] s;
          s = on_reply c (ReplyResultStringAlloc (kv_strs r)) s
      in if kv_err r < 0 then FillErrorReply K c (kv_err r) s else s)"

definition HStrlen :: "'s mmkv \<Rightarrow> ctxid \<Rightarrow> RedisCommandFrame \<Rightarrow> 's server \<Rightarrow> 's server" where
  "HStrlen K c cmd s =
     (let (r, s) = kv_call K ''HStrlen'' c [KStr (arg cmd 0), KStr (arg cmd 1)] s
      in if kv_err r \<ge> 0 then on_reply c (fill_int_reply (kv_err r)) s
         else FillErrorReply K c (kv_err r) s)"

definition HScan :: "'s mmkv \<Rightarrow> ctxid \<Rightarrow> RedisCommandFrame \<Rightarrow> 's server \<Rightarrow> 's server" where
  "HScan = Scan"

lemmas hash_cmd_defs =
  HDel_def HExists_def HGet_def HGetAll_def HIncrby_def HIncrbyFloat_def HKeys_def HLen_def
  HMGet_def HMSet_def HSet_def HSetNX_def HVals_def HStrlen_def HScan_def GetInt64Value_def
  GetDoubleValue_def

lemma hash_cmds_data [data_intros]:
  "data_step c s (HDel K c cmd s)" "data_step c s (HExists K c cmd s)"
  "data_step c s (HGet K c cmd s)" "data_step c s (HGetAll K c cmd s)"
  "data_step c s (HIncrby K c cmd s)" "data_step c s (HIncrbyFloat td dt K c cmd s)"
  "data_step c s (HKeys K c cmd s)" "data_step c s (HLen K c cmd s)"
  "data_step c s (HMGet K c cmd s)" "data_step c s (HMSet K c cmd s)"
  "data_step c s (HSet K c cmd s)" "data_step c s (HSetNX K c cmd s)"
  "data_step c s (HVals K c cmd s)" "data_step c s (HStrlen K c cmd s)"
  "data_step c s (HScan K c cmd s)"
  by (simp_all add: hash_cmd_defs split_beta Let_def data_intros split: option.split sum.split)

end
