(* ===== verification/Cmd_Sets.thy ===== *)
theory Cmd_Sets
  imports Cmd_Hashes
begin

text \<open>
  The set commands of \<open>command/t_set.cpp\<close>.
\<close>

definition SAdd :: "'s mmkv \<Rightarrow> ctxid \<Rightarrow> RedisCommandFrame \<Rightarrow> 's server \<Rightarrow> 's server" where
  "SAdd K c cmd s =
     (let (r, s) = kv_call K ''SAdd'' c [KStr (arg cmd 0), KStrs (drop 1 (m_args cmd))] s
      in if kv_err r \<ge> 0
         then let s = on_reply c (fill_int_reply (kv_err r)) s
              in if kv_err r > 0 then FireKeyChangedEvent c (arg cmd 0) s else s
         else FillErrorReply K c (kv_err r) s)"

definition SCard :: "'s mmkv \<Rightarrow> ctxid \<Rightarrow> RedisCommandFrame \<Rightarrow> 's server \<Rightarrow> 's server" where
  "SCard K c cmd s =
     (let (r, s) = kv_call K ''SCard'' c [KStr (arg cmd 0)] s
      in if kv_err r \<ge> 0 then on_reply c (fill_int_reply (kv_err r)) s
         else FillErrorReply K c (kv_err r) s)"

definition SDiff :: "'s mmkv \<Rightarrow> ctxid \<Rightarrow> RedisCommandFrame \<Rightarrow> 's server \<Rightarrow> 's server" where
  "SDiff K c cmd s =
     (let s = on_reply c (set_type REDIS_REPLY_ARRAY) s;
          (r, s) = kv_call K ''SDiff'' c [KStrs (m_args cmd)] s;
          s = on_reply c (ReplyResultStringAlloc (kv_strs r)) s
      in if kv_err r < 0 then FillErrorReply K c (kv_err r) s else s)"

definition SDiffStore :: "'s mmkv \<Rightarrow> ctxid \<Rightarrow> RedisCommandFrame \<Rightarrow> 's server \<Rightarrow> 's server" where
  "SDiffStore K c cmd s =
     (let (r, s) = kv_call K ''SDiffStore'' c [KStr (arg cmd 0), KStrs (drop 1 (m_args cmd))] s
      in if kv_err r \<ge> 0
         then let s = on_reply c (fill_int_reply (kv_err r)) s
              in if kv_err r > 0 then FireKeyChangedEvent c (arg cmd 0) s else s
         else FillErrorReply K c (kv_err r) s)"

definition SInter :: "'s mmkv \<Rightarrow> ctxid \<Rightarrow> RedisCommandFrame \<Rightarrow> 's server \<Rightarrow> 's server" where
  "SInter K c cmd s =
     (let s = on_reply c (set_type REDIS_REPLY_ARRAY) s;
          (r, s) = kv_call K ''SInter'' c [KStrs (m_args cmd)] s;
          s = on_reply c (ReplyResultStringAlloc (kv_strs r)) s
      in if kv_err r < 0 then FillErrorReply K c (kv_err r) s else s)"

definition SInterStore :: "'s mmkv \<Rightarrow> ctxid \<Rightarrow> RedisCommandFrame \<Rightarrow> 's server \<Rightarrow> 's server" where
  "SInterStore K c cmd s =
     (let (r, s) = kv_call K ''SInterStore'' c [KStr (arg cmd 0), KStrs (drop 1 (m_args cmd))] s
      in if kv_err r \<ge> 0
         then let s = on_reply c (fill_int_reply (kv_err r)) s
              in if kv_err r > 0 then FireKeyChangedEvent c (arg cmd 0) s else s
         else FillErrorReply K c (kv_err r) s)"

definition SIsMember :: "'s mmkv \<Rightarrow> ctxid \<Rightarrow> RedisCommandFrame \<Rightarrow> 's server \<Rightarrow> 's server" where
  "SIsMember K c cmd s =
     (let (r, s) = kv_call K ''SIsMember'' c [KStr (arg cmd 0), KStr (arg cmd 1)] s
      in if kv_err r \<ge> 0 then on_reply c (fill_int_reply (kv_err r)) s
         else FillErrorReply K c (kv_err r) s)"

definition SMembers :: "'s mmkv \<Rightarrow> ctxid \<Rightarrow> RedisCommandFrame \<Rightarrow> 's server \<Rightarrow> 's server" where
  "SMembers K c cmd s =
     (let s = on_reply c (set_type REDIS_REPLY_ARRAY) s;
          (r, s) = kv_call K ''SMembers'' c [KStr (arg cmd 0)] s;
          s = on_reply c (ReplyResultStringAlloc (kv_strs r)) s
      in if kv_err r < 0 then FillErrorReply K c (kv_err r) s else s)"

definition SMove :: "'s mmkv \<Rightarrow> ctxid \<Rightarrow> RedisCommandFrame \<Rightarrow> 's server \<Rightarrow> 's server" where
  "SMove K c cmd s =
     (let (r, s) = kv_call K ''SMove'' c [KStr (arg cmd 0), KStr (arg cmd 1), KStr (arg cmd 2)] s
      in if kv_err r \<ge> 0
         then let s = on_reply c (fill_int_reply (kv_err r)) s
              in if kv_err r > 0
                 then FireKeyChangedEvent c (arg cmd 1) (FireKeyChangedEvent c (arg cmd 0) s) else s
         else FillErrorReply K c (kv_err r) s)"

definition SPop :: "'s mmkv \<Rightarrow> ctxid \<Rightarrow> RedisCommandFrame \<Rightarrow> 's server \<Rightarrow> 's server" where
  "SPop K c cmd s =
     (case (if length (m_args cmd) > 1 then GetInt64Value c (arg cmd 1) s else Inr 1) of
        Inl s \<Rightarrow> s
      | Inr count \<Rightarrow>
          let (r, s) = kv_call K ''SPop'' c [KStr (arg cmd 0), KInt count] s
          in if kv_err r \<ge> 0
             then let s = (if length (m_args cmd) = 1
                     then on_reply c (fill_str_reply (case kv_strs r of [] \<Rightarrow> [] | v # vs \<Rightarrow> v)) s
                     else on_reply c (fill_str_array_reply (kv_strs r)) s);
                      srem = (RedisCommandFrame_new ''srem'')\<lparr>m_args := arg cmd 0 # kv_strs r\<rparr>
                  in if kv_err r > 0
                     then FireKeyChangedEvent c (arg cmd 0)
                            (if \<not> no_wal (ctx s c) then RewriteClientCommand c srem s else s)
                     else s
             else FillErrorReply K c (kv_err r) s)"

definition SRandMember :: "'s mmkv \<Rightarrow> ctxid \<Rightarrow> RedisCommandFrame \<Rightarrow> 's server \<Rightarrow> 's server" where
  "SRandMember K c cmd s =
     (case (if length (m_args cmd) > 1 then GetInt64Value c (arg cmd 1) s else Inr 1) of
        Inl s \<Rightarrow> s
      | Inr count \<Rightarrow>
          let (r, s) = kv_call K ''SRandMember'' c [KStr (arg cmd 0), KInt count] s
          in if kv_err r \<ge> 0
             then (if length (m_args cmd) = 1
                     then on_reply c (fill_str_reply (case kv_strs r of [] \<Rightarrow> [] | v # vs \<Rightarrow> v)) s
                     else on_reply c (fill_str_array_reply (kv_strs r)) s)
             else FillErrorReply K c (kv_err r) s)"

definition SRem :: "'s mmkv \<Rightarrow> ctxid \<Rightarrow> RedisCommandFrame \<Rightarrow> 's server \<Rightarrow> 's server" where
  "SRem K c cmd s =
     (let (r, s) = kv_call K ''SRem'' c [KStr (arg cmd 0), KStrs (drop 1 (m_args cmd))] s
      in if kv_err r \<ge> 0
         then let s = on_reply c (fill_int_reply (kv_err r)) s
              in if kv_err r > 0 then FireKeyChangedEvent c (arg cmd 0) s else s
         else FillErrorReply K c (kv_err r) s)"

definition SUnion :: "'s mmkv \<Rightarrow> ctxid \<Rightarrow> RedisCommandFrame \<Rightarrow> 's server \<Rightarrow> 's server" where
  "SUnion K c cmd s =
     (let s = on_reply c (set_type REDIS_REPLY_ARRAY) s;
          (r, s) = kv_call K ''SUnion'' c [KStrs (m_args cmd)] s;
          s = on_reply c (ReplyResultStringAlloc (kv_strs r)) s
      in if kv_err r < 0 then FillErrorReply K c (kv_err r) s else s)"

definition SUnionStore :: "'s mmkv \<Rightarrow> ctxid \<Rightarrow> RedisCommandFrame \<Rightarrow> 's server \<Rightarrow> 's server" where
  "SUnionStore K c cmd s =
     (let (r, s) = kv_call K ''SUnionStore'' c [KStr (arg cmd 0), KStrs (drop 1 (m_args cmd))] s
      in if kv_err r \<ge> 0
         then let s = on_reply c (fill_int_reply (kv_err r)) s
              in if kv_err r > 0 then FireKeyChangedEvent c (arg cmd 0) s else s
         else FillErrorReply K c (kv_err r) s)"

definition SScan :: "'s mmkv \<Rightarrow> ctxid \<Rightarrow> RedisCommandFrame \<Rightarrow> 's server \<Rightarrow> 's server" where
  "SScan = Scan"

lemmas set_cmd_defs =
  SAdd_def SCard_def SDiff_def SDiffStore_def SInter_def SInterStore_def SIsMember_def
  SMembers_def SMove_def SPop_def SRandMember_def SRem_def SUnion_def SUnionStore_def SScan_def
  GetInt64Value_def

lemma set_cmds_data [data_intros]:
  "data_step c s (SAdd K c cmd s)" "data_step c s (SCard K c cmd s)"
  "data_step c s (SDiff K c cmd s)" "data_step c s (SDiffStore K c cmd s)"
  "data_step c s (SInter K c cmd s)" "data_step c s (SInterStore K c cmd s)"
  "data_step c s (SIsMember K c cmd s)" "data_step c s (SMembers K c cmd s)"
  "data_step c s (SMove K c cmd s)" "data_step c s (SPop K c cmd s)"
  "data_step c s (SRandMember K c cmd s)" "data_step c s (SRem K c cmd s)"
  "data_step c s (SUnion K c cmd s)" "data_step c s (SUnionStore K c cmd s)"
  "data_step c s (SScan K c cmd s)"
  by (simp_all add: set_cmd_defs split_beta Let_def data_intros split: option.split sum.split)

end
