(* ===== verification/Cmd_Lists.thy ===== *)
theory Cmd_Lists
  imports Cmd_Sets
begin

text \<open>
  The list commands of \<open>command/t_list.cpp\<close>, and the blocking ones with the table of blocked
  contexts. A push posts a wake-up for every context blocked on the key; the wake-up runs later as
  \<open>WakeBlockedList\<close> on the thread of the blocked client, and a timer may fire before it as
  \<open>BlockListTimeout\<close>. The table of blocked contexts is an instance of the registry contract.
\<close>

definition REDIS_CMD_BLPOP :: nat where "REDIS_CMD_BLPOP = 137"
definition REDIS_CMD_BRPOPLPUSH :: nat where "REDIS_CMD_BRPOPLPUSH = 139"

section \<open>Commands that do not block\<close>

definition LIndex :: "'s mmkv \<Rightarrow> ctxid \<Rightarrow> RedisCommandFrame \<Rightarrow> 's server \<Rightarrow> 's server" where
  "LIndex K c cmd s =
     (case GetInt64Value c (arg cmd 1) s of
        Inl s \<Rightarrow> s
      | Inr index \<Rightarrow>
          let (r, s) = kv_call K ''LIndex'' c [KStr (arg cmd 0), KInt index] s
          in if kv_err r \<ge> 0 then on_reply c (fill_str_reply (kv_str r)) s
             else if kv_err r = ERR_OFFSET_OUTRANGE K then on_reply c (set_type REDIS_REPLY_NIL) s
             else FillErrorReply K c (kv_err r) s)"

definition LInsert :: "'s mmkv \<Rightarrow> ctxid \<Rightarrow> RedisCommandFrame \<Rightarrow> 's server \<Rightarrow> 's server" where
  "LInsert K c cmd s =
     (case if strcaseeq (arg cmd 1) ''before'' then Some True
           else if strcaseeq (arg cmd 1) ''after'' then Some False else None of
        None \<Rightarrow> on_reply c (fill_error_reply ''Syntax error'') s
      | Some before_or_after \<Rightarrow>
          let (r, s) = kv_call K ''LInsert'' c [KStr (arg cmd 0), KBool before_or_after,
                 KStr (arg cmd 2), KStr (arg cmd 3)] s
          in if kv_err r \<ge> 0 \<or> kv_err r = - 1
             then let s = on_reply c (fill_int_reply (kv_err r)) s
                  in if kv_err r > 0 then FireKeyChangedEvent c (arg cmd 0) s else s
             else FillErrorReply K c (kv_err r) s)"

definition LLen :: "'s mmkv \<Rightarrow> ctxid \<Rightarrow> RedisCommandFrame \<Rightarrow> 's server \<Rightarrow> 's server" where
  "LLen K c cmd s =
     (let (r, s) = kv_call K ''LLen'' c [KStr (arg cmd 0)] s
      in if kv_err r \<ge> 0 then on_reply c (fill_int_reply (kv_err r)) s
         else FillErrorReply K c (kv_err r) s)"

definition not_exist :: "'s mmkv \<Rightarrow> int \<Rightarrow> bool" where
  "not_exist K err \<longleftrightarrow> err = ERR_ENTRY_NOT_EXIST K \<or> err = ERR_DB_NOT_EXIST K"

definition LPop :: "'s mmkv \<Rightarrow> ctxid \<Rightarrow> RedisCommandFrame \<Rightarrow> 's server \<Rightarrow> 's server" where
  "LPop K c cmd s =
     (let (r, s) = kv_call K ''LPop'' c [KStr (arg cmd 0)] s
      in if kv_err r \<ge> 0
         then FireKeyChangedEvent c (arg cmd 0) (on_reply c (fill_str_reply (kv_str r)) s)
         else if not_exist K (kv_err r) then on_reply c (set_type REDIS_REPLY_NIL) s
         else FillErrorReply K c (kv_err r) s)"

text \<open>
  A wake-up is posted to the thread of every context blocked on the key. A blocked context without
  a client is a null dereference.
\<close>

definition post_wake :: "string \<Rightarrow> ctxid \<Rightarrow> 's server \<Rightarrow> 's server" where
  "post_wake key b s =
     (if client (ctx s b) = None then s\<lparr>fault := True\<rparr>
      else s\<lparr>wake_queue := wake_queue s @ [(b, key)]\<rparr>)"

definition WakeBlockingListsByKey :: "ctxid \<Rightarrow> string \<Rightarrow> 's server \<Rightarrow> 's server" where
  "WakeBlockingListsByKey c key s =
     (case map_find (WatchKey (currentDB (ctx s c)) key) (m_block_context_table s) of
        None \<Rightarrow> s
      | Some bs \<Rightarrow> fold (post_wake key) bs s)"

definition LPush :: "'s mmkv \<Rightarrow> ctxid \<Rightarrow> RedisCommandFrame \<Rightarrow> 's server \<Rightarrow> 's server" where
  "LPush K c cmd s =
     (let (r, s) = kv_call K ''LPush'' c [KStr (arg cmd 0), KStrs (drop 1 (m_args cmd))] s
      in if kv_err r \<ge> 0
         then WakeBlockingListsByKey c (arg cmd 0)
                (FireKeyChangedEvent c (arg cmd 0) (on_reply c (fill_int_reply (kv_err r)) s))
         else FillErrorReply K c (kv_err r) s)"

definition LPushx :: "'s mmkv \<Rightarrow> ctxid \<Rightarrow> RedisCommandFrame \<Rightarrow> 's server \<Rightarrow> 's server" where
  "LPushx K c cmd s =
     (let (r, s) = kv_call K ''LPush'' c
            [KStr (arg cmd 0), KStrs (drop 1 (m_args cmd)), KBool True] s
      in if kv_err r \<ge> 0
         then let s = on_reply c (fill_int_reply (kv_err r)) s
              in if kv_err r > 0
                 then WakeBlockingListsByKey c (arg cmd 0) (FireKeyChangedEvent c (arg cmd 0) s)
                 else s
         else FillErrorReply K c (kv_err r) s)"

definition LRange :: "'s mmkv \<Rightarrow> ctxid \<Rightarrow> RedisCommandFrame \<Rightarrow> 's server \<Rightarrow> 's server" where
  "LRange K c cmd s =
     (case GetInt64Value c (arg cmd 1) s of
        Inl s \<Rightarrow> s
      | Inr start \<Rightarrow>
          (case GetInt64Value c (arg cmd 2) s of
             Inl s \<Rightarrow> s
           | Inr end \<Rightarrow>
               let s = on_reply c (set_type REDIS_REPLY_ARRAY) s;
                   (r, s) = kv_call K ''LRange'' c [KStr (arg cmd 0), KInt start, KInt end] s;
                   s = on_reply c (ReplyResultStringAlloc (kv_strs r)) s
               in if kv_err r < 0 then FillErrorReply K c (kv_err r) s else s))"

definition LRem :: "'s mmkv \<Rightarrow> ctxid \<Rightarrow> RedisCommandFrame \<Rightarrow> 's server \<Rightarrow> 's server" where
  "LRem K c cmd s =
     (case GetInt64Value c (arg cmd 1) s of
        Inl s \<Rightarrow> s
      | Inr count \<Rightarrow>
          let (r, s) = kv_call K ''LRem'' c [KStr (arg cmd 0), KInt count, KStr (arg cmd 2)] s
          in if kv_err r \<ge> 0
             then let s = on_reply c (fill_int_reply (kv_err r)) s
                  in if kv_err r > 0 then FireKeyChangedEvent c (arg cmd 0) s else s
             else FillErrorReply K c (kv_err r) s)"

definition LSet :: "'s mmkv \<Rightarrow> ctxid \<Rightarrow> RedisCommandFrame \<Rightarrow> 's server \<Rightarrow> 's server" where
  "LSet K c cmd s =
     (case GetInt64Value c (arg cmd 1) s of
        Inl s \<Rightarrow> s
      | Inr index \<Rightarrow>
          let (r, s) = kv_call K ''LSet'' c [KStr (arg cmd 0), KInt index, KStr (arg cmd 2)] s
          in if kv_err r \<ge> 0
             then FireKeyChangedEvent c (arg cmd 0) (on_reply c fill_ok_reply s)
             else FillErrorReply K c (kv_err r) s)"

definition LTrim :: "'s mmkv \<Rightarrow> ctxid \<Rightarrow> RedisCommandFrame \<Rightarrow> 's server \<Rightarrow> 's server" where
  "LTrim K c cmd s =
     (case GetInt64Value c (arg cmd 1) s of
        Inl s \<Rightarrow> s
      | Inr start \<Rightarrow>
          (case GetInt64Value c (arg cmd 2) s of
             Inl s \<Rightarrow> s
           | Inr end \<Rightarrow>
               let (r, s) = kv_call K ''LTrim'' c [KStr (arg cmd 0), KInt start, KInt end] s
               in if kv_err r \<ge> 0
                  then FireKeyChangedEvent c (arg cmd 0) (on_reply c fill_ok_reply s)
                  else FillErrorReply K c (kv_err r) s))"

definition RPop :: "'s mmkv \<Rightarrow> ctxid \<Rightarrow> RedisCommandFrame \<Rightarrow> 's server \<Rightarrow> 's server" where
  "RPop K c cmd s =
     (let (r, s) = kv_call K ''RPop'' c [KStr (arg cmd 0)] s
      in if kv_err r \<ge> 0
         then FireKeyChangedEvent c (arg cmd 0) (on_reply c (fill_str_reply (kv_str r)) s)
         else if not_exist K (kv_err r) then on_reply c (set_type REDIS_REPLY_NIL) s
         else FillErrorReply K c (kv_err r) s)"

text \<open>\<open>ctx.current_cmd->SetCommand("rpoplpush")\<close>, a null dereference when there is no command.\<close>

definition rename_current :: "ctxid \<Rightarrow> string \<Rightarrow> 's server \<Rightarrow> 's server" where
  "rename_current c name s =
     (case current_cmd (ctx s c) of
        None \<Rightarrow> s\<lparr>fault := True\<rparr>
      | Some f \<Rightarrow> upd_ctx c (\<lambda>x. x\<lparr>current_cmd := Some (SetCommand f name)\<rparr>) s)"

definition RPopLPush :: "'s mmkv \<Rightarrow> ctxid \<Rightarrow> RedisCommandFrame \<Rightarrow> 's server \<Rightarrow> 's server" where
  "RPopLPush K c cmd s =
     (let (r, s) = kv_call K ''RPopLPush'' c [KStr (arg cmd 0), KStr (arg cmd 1)] s
      in if kv_err r \<ge> 0
         then let s = on_reply c (fill_str_reply (kv_str r)) s;
                  s = FireKeyChangedEvent c (arg cmd 0) s;
                  s = FireKeyChangedEvent c (arg cmd 1) s
              in if frame_type cmd = REDIS_CMD_BRPOPLPUSH then rename_current c ''rpoplpush'' s else s
         else if not_exist K (kv_err r) then on_reply c (set_type REDIS_REPLY_NIL) s
         else FillErrorReply K c (kv_err r) s)"

definition RPush :: "'s mmkv \<Rightarrow> ctxid \<Rightarrow> RedisCommandFrame \<Rightarrow> 's server \<Rightarrow> 's server" where
  "RPush K c cmd s =
     (let (r, s) = kv_call K ''RPush'' c [KStr (arg cmd 0), KStrs (drop 1 (m_args cmd))] s
      in if kv_err r \<ge> 0
         then WakeBlockingListsByKey c (arg cmd 0)
                (FireKeyChangedEvent c (arg cmd 0) (on_reply c (fill_int_reply (kv_err r)) s))
         else FillErrorReply K c (kv_err r) s)"

definition RPushx :: "'s mmkv \<Rightarrow> ctxid \<Rightarrow> RedisCommandFrame \<Rightarrow> 's server \<Rightarrow> 's server" where
  "RPushx K c cmd s =
     (let (r, s) = kv_call K ''RPush'' c
            [KStr (arg cmd 0), KStrs (drop 1 (m_args cmd)), KBool True] s
      in if kv_err r \<ge> 0
         then let s = on_reply c (fill_int_reply (kv_err r)) s
              in if kv_err r > 0
                 then WakeBlockingListsByKey c (arg cmd 0) (FireKeyChangedEvent c (arg cmd 0) s)
                 else s
         else FillErrorReply K c (kv_err r) s)"

lemma ctx_post_wake [simp]: "ctx (fold (post_wake key) bs s) c = ctx s c"
  by (induction bs arbitrary: s) (simp_all add: post_wake_def)

lemma data_wake_queue [data_intros]: "data_step c s s1 \<Longrightarrow> data_step c s (s1\<lparr>wake_queue := q\<rparr>)"
  by (erule data_step_more) (auto simp: mark_free_def result_free_def)

lemma data_post_wakes [data_intros]:
  "data_step c s s1 \<Longrightarrow> data_step c s (fold (post_wake key) bs s1)"
  by (induction bs arbitrary: s1) (simp_all add: post_wake_def data_fault data_wake_queue)

lemma data_Wake [data_intros]:
  "data_step c s s1 \<Longrightarrow> data_step c s (WakeBlockingListsByKey c key s1)"
  by (simp add: WakeBlockingListsByKey_def data_post_wakes split: option.split)

lemma data_rename [data_intros]: "data_step c s s1 \<Longrightarrow> data_step c s (rename_current c name s1)"
  unfolding rename_current_def
  by (auto simp: data_fault mark_free_def result_free_def split: option.split elim!: data_step_more)

lemmas list_cmd_defs =
  LIndex_def LInsert_def LLen_def LPop_def LPush_def LPushx_def LRange_def LRem_def LSet_def
  LTrim_def RPop_def RPopLPush_def RPush_def RPushx_def GetInt64Value_def

lemma list_cmds_data [data_intros]:
  "data_step c s (LIndex K c cmd s)" "data_step c s (LInsert K c cmd s)"
  "data_step c s (LLen K c cmd s)" "data_step c s (LPop K c cmd s)"
  "data_step c s (LPush K c cmd s)" "data_step c s (LPushx K c cmd s)"
  "data_step c s (LRange K c cmd s)" "data_step c s (LRem K c cmd s)"
  "data_step c s (LSet K c cmd s)" "data_step c s (LTrim K c cmd s)"
  "data_step c s (RPop K c cmd s)" "data_step c s (RPopLPush K c cmd s)"
  "data_step c s (RPush K c cmd s)" "data_step c s (RPushx K c cmd s)"
  by (simp_all add: list_cmd_defs split_beta Let_def data_intros split: option.split sum.split)

section \<open>Blocking commands\<close>

definition AddBlockKey_key :: "ctxid \<Rightarrow> WatchKey \<Rightarrow> 's server \<Rightarrow> 's server" where
  "AddBlockKey_key c k s =
     (let s = upd_ctx c (\<lambda>x. let b = GetBlockContext x
                             in x\<lparr>block := Some (b\<lparr>block_keys := set_insert k (block_keys b)\<rparr>)\<rparr>) s
      in s\<lparr>m_block_context_table := table_add k c (m_block_context_table s)\<rparr>)"

definition AddBlockKey :: "ctxid \<Rightarrow> string \<Rightarrow> 's server \<Rightarrow> 's server" where
  "AddBlockKey c keystr s = AddBlockKey_key c (WatchKey (currentDB (ctx s c)) keystr) s"

text \<open>\<open>DetachFD\<close> suspends the input of the channel, \<open>AttachFD\<close> resumes it.\<close>

definition DetachFD :: "nat \<Rightarrow> 's server \<Rightarrow> 's server" where
  "DetachFD ch s = s\<lparr>detached := set_insert ch (detached s)\<rparr>"

definition AttachFD :: "nat \<Rightarrow> 's server \<Rightarrow> 's server" where
  "AttachFD ch s = s\<lparr>detached := set_erase ch (detached s)\<rparr>"

text \<open>
  A timeout is scheduled on the client's thread; its identifier goes into the block context,
  which must exist by then.
\<close>

definition ScheduleTimeout :: "ctxid \<Rightarrow> nat \<Rightarrow> 's server \<Rightarrow> 's server" where
  "ScheduleTimeout c timeout s =
     (let t = next_timer s;
          s = s\<lparr>timers := timers s @ [(t, c, timeout)], next_timer := t + 1\<rparr>
      in upd_ctx c (\<lambda>x. x\<lparr>block := map_option (\<lambda>b. b\<lparr>blocking_timer_task_id := t\<rparr>) (block x)\<rparr>) s)"

definition ClearBlockKeys :: "ctxid \<Rightarrow> 's server \<Rightarrow> 's server" where
  "ClearBlockKeys c s =
     (case block (ctx s c) of
        None \<Rightarrow> s
      | Some b \<Rightarrow>
          let s = (if blocking_timer_task_id b \<noteq> - 1
                   then s\<lparr>timers := filter (\<lambda>t. fst t \<noteq> blocking_timer_task_id b) (timers s)\<rparr>
                   else s);
              s = s\<lparr>m_block_context_table :=
                      table_clear c (block_keys b) (m_block_context_table s)\<rparr>
          in upd_ctx c ClearBlockContext s)"

definition blocking_pop :: "bool \<Rightarrow> string" where
  "blocking_pop lp = (if lp then ''LPop'' else ''RPop'')"

text \<open>
  The first loop of \<open>BLPop\<close>: the lists are tried in order until one gives an element; \<open>True\<close> is
  an early return of the handler.
\<close>

fun blpop_loop ::
    "'s mmkv \<Rightarrow> ctxid \<Rightarrow> bool \<Rightarrow> string list \<Rightarrow> 's server \<Rightarrow> bool \<times> 's server" where
  "blpop_loop K c lp [] s = (False, s)"
| "blpop_loop K c lp (k # ks) s =
     (let (r, s) = kv_call K (blocking_pop lp) c [KStr k] s
      in if kv_err r = 0 \<and> kv_str r \<noteq> []
         then let s = on_reply c (\<lambda>rep. AddMember True (fill_str_reply (kv_str r) reply_new)
                        (AddMember True (fill_str_reply k reply_new) rep)) s;
                  s = FireKeyChangedEvent_db c (currentDB (ctx s c)) k s;
                  list_pop = AddArg (RedisCommandFrame_new (if lp then ''lpop'' else ''rpop'')) k
              in (True, RewriteClientCommand c list_pop s)
         else if kv_err r \<noteq> 0 \<and> \<not> not_exist K (kv_err r)
         then (True, FillErrorReply K c (kv_err r) s)
         else blpop_loop K c lp ks s)"

definition BLPop :: "'s mmkv \<Rightarrow> ctxid \<Rightarrow> RedisCommandFrame \<Rightarrow> 's server \<Rightarrow> 's server" where
  "BLPop K c cmd s =
     (case string_touint32 (last (m_args cmd)) of
        None \<Rightarrow> on_reply c (fill_error_reply ''timeout is not an integer or out of range'') s
      | Some timeout \<Rightarrow>
          let lp = (frame_type cmd = REDIS_CMD_BLPOP);
              (done, s) = blpop_loop K c lp (butlast (m_args cmd)) s
          in if done then s
             else
               let s = (case client (ctx s c) of
                          None \<Rightarrow> s
                        | Some ch \<Rightarrow>
                            let s = DetachFD ch s;
                                s = upd_ctx c (\<lambda>x. x\<lparr>block := Some ((GetBlockContext x)\<lparr>lpop := lp\<rparr>)\<rparr>) s
                            in if timeout > 0 then ScheduleTimeout c timeout s else s)
               in fold (AddBlockKey c) (butlast (m_args cmd)) s)"

definition BRPop :: "'s mmkv \<Rightarrow> ctxid \<Rightarrow> RedisCommandFrame \<Rightarrow> 's server \<Rightarrow> 's server" where
  "BRPop = BLPop"

definition BRPopLPush :: "'s mmkv \<Rightarrow> ctxid \<Rightarrow> RedisCommandFrame \<Rightarrow> 's server \<Rightarrow> 's server" where
  "BRPopLPush K c cmd s =
     (case string_touint32 (last (m_args cmd)) of
        None \<Rightarrow> on_reply c (fill_error_reply ''timeout is not an integer or out of range'') s
      | Some timeout \<Rightarrow>
          let s = RPopLPush K c cmd s
          in if reply_type (reply (ctx s c)) = REDIS_REPLY_NIL
             then
               let s = AddBlockKey c (arg cmd 0) s;
                   s = upd_ctx c (\<lambda>x. x\<lparr>block := Some ((GetBlockContext x)
                         \<lparr>lpop := False, push_key := arg cmd 1\<rparr>)\<rparr>) s;
                   s = (case client (ctx s c) of
                          None \<Rightarrow> s
                        | Some ch \<Rightarrow>
                            let s = DetachFD ch s
                            in if timeout > 0 then ScheduleTimeout c timeout s else s)
               in on_reply c (set_type 0) s
             else s)"

text \<open>The timer's task and the posted wake-up. A context without a client is a null dereference.\<close>

definition write_and_attach :: "ctxid \<Rightarrow> 's server \<Rightarrow> 's server" where
  "write_and_attach c s =
     (case client (ctx s c) of
        None \<Rightarrow> s\<lparr>fault := True\<rparr>
      | Some ch \<Rightarrow> AttachFD ch (client_write c (reply (ctx s c)) s))"

definition BlockListTimeout_Run :: "ctxid \<Rightarrow> 's server \<Rightarrow> 's server" where
  "BlockListTimeout_Run c s =
     write_and_attach c (on_reply c (set_type REDIS_REPLY_NIL) (ClearBlockKeys c s))"

definition WakeBlockedList :: "'s mmkv \<Rightarrow> ctxid \<Rightarrow> string \<Rightarrow> 's server \<Rightarrow> 's server" where
  "WakeBlockedList K c key s =
     (let s = upd_ctx c (\<lambda>x. x\<lparr>block := Some (GetBlockContext x)\<rparr>) s;
          b = GetBlockContext (ctx s c);
          (r, s) = kv_call K (blocking_pop (lpop b)) c [KStr key] s;
          v = kv_str r
      in if kv_err r = 0 \<and> v \<noteq> []
         then
           let s =
             (if push_key b = []
              then
                let s = on_reply c (\<lambda>rep. AddMember True (fill_str_reply v reply_new)
                          (AddMember True (fill_str_reply key reply_new) rep)) s
                in if \<not> no_wal (ctx s c)
                   then WriteWAL (currentDB (ctx s c))
                          (AddArg (RedisCommandFrame_new (if lpop b then ''lpop'' else ''rpop'')) key) s
                   else s
              else
                let (r2, s) = kv_call K ''RPush'' c [KStr (push_key b), KStr v] s
                in if kv_err r2 < 0
                   then let s = snd (kv_call K (if lpop b then ''LPush'' else ''RPush'') c
                                  [KStr key, KStr v] s)
                        in FillErrorReply K c (kv_err r2) s
                   else let s = on_reply c (fill_str_reply v) s
                        in if \<not> no_wal (ctx s c)
                           then WriteWAL (currentDB (ctx s c))
                                  (AddArg (RedisCommandFrame_new ''rpoplpush'') key) s
                           else s)
           in ClearBlockKeys c (write_and_attach c s)
         else s)"

section \<open>The table of blocked contexts is a registry\<close>

definition blocked :: "'s server \<Rightarrow> ctxid \<Rightarrow> WatchKey tree_set" where
  "blocked s c = block_keys (GetBlockContext (ctx s c))"

lemma GetBlockContext_simps [simp]:
  "GetBlockContext (x\<lparr>block := w\<rparr>) = (case w of None \<Rightarrow> ListBlockContext_new | Some b \<Rightarrow> b)"
  "GetBlockContext (x\<lparr>reply := r\<rparr>) = GetBlockContext x"
  "GetBlockContext (ClearBlockContext x) = ListBlockContext_new"
  by (simp_all add: GetBlockContext_def ClearBlockContext_def)

lemma block_keys_new [simp]: "block_keys ListBlockContext_new = []"
  by (simp add: ListBlockContext_new_def)

interpretation block_reg: registry_clear blocked m_block_context_table AddBlockKey_key ClearBlockKeys
proof
  show "blocked (AddBlockKey_key c k s) c' =
      (if c' = c then set_insert k (blocked s c) else blocked s c')" for c k c' and s :: "'a server"
    by (simp add: AddBlockKey_key_def Let_def blocked_def)
  show "m_block_context_table (AddBlockKey_key c k s) = table_add k c (m_block_context_table s)"
    for c k and s :: "'a server"
    by (simp add: AddBlockKey_key_def Let_def)
  show "blocked (ClearBlockKeys c s) c' = (if c' = c then [] else blocked s c')"
    for c c' and s :: "'a server"
    by (simp add: ClearBlockKeys_def blocked_def GetBlockContext_def ClearBlockContext_def Let_def
        split: option.splits)
  show "m_block_context_table (ClearBlockKeys c s) =
      table_clear c (blocked s c) (m_block_context_table s)" for c and s :: "'a server"
    by (simp add: ClearBlockKeys_def blocked_def GetBlockContext_def Let_def split: option.splits)
qed

section \<open>Waking blocked clients\<close>

lemma initial_block_ok: "block_reg.consistent (initial_server st cfg settings clk hp)"
  by (simp add: block_reg.consistent_def blocked_def GetBlockContext_def Context_new_def table_ok_def
      table_lookup_def)

definition popped_reply :: "string \<Rightarrow> string \<Rightarrow> RedisReply \<Rightarrow> RedisReply" where
  "popped_reply key v r = AddMember True (fill_str_reply v reply_new)
     (AddMember True (fill_str_reply key reply_new) r)"

lemma WriteWAL_fields [simp]:
  "ctx (WriteWAL db f s) c = ctx s c" "m_kv_store (WriteWAL db f s) = m_kv_store s"
  "outbox (WriteWAL db f s) = outbox s" "detached (WriteWAL db f s) = detached s"
  "timers (WriteWAL db f s) = timers s" "m_block_context_table (WriteWAL db f s) = m_block_context_table s"
  by (simp_all add: WriteWAL_def)

lemma kv_call_fields [simp]:
  "ctx (snd (kv_call K op c args s)) c' = ctx s c'"
  "m_kv_store (snd (kv_call K op c args s)) = snd (kv_exec K op (currentDB (ctx s c)) args (m_kv_store s))"
  "outbox (snd (kv_call K op c args s)) = outbox s" "detached (snd (kv_call K op c args s)) = detached s"
  "timers (snd (kv_call K op c args s)) = timers s" "wal_queue (snd (kv_call K op c args s)) = wal_queue s"
  "m_block_context_table (snd (kv_call K op c args s)) = m_block_context_table s"
  "fst (kv_call K op c args s) = fst (kv_exec K op (currentDB (ctx s c)) args (m_kv_store s))"
  by (simp_all add: kv_call_def split_beta)

lemma ClearBlockKeys_fields [simp]:
  "m_kv_store (ClearBlockKeys c s) = m_kv_store s" "outbox (ClearBlockKeys c s) = outbox s"
  "detached (ClearBlockKeys c s) = detached s" "wal_queue (ClearBlockKeys c s) = wal_queue s"
  "client (ctx (ClearBlockKeys c s) c') = client (ctx s c')"
  "reply (ctx (ClearBlockKeys c s) c') = reply (ctx s c')"
  "block (ctx (ClearBlockKeys c s) c) = None"
  by (simp_all add: ClearBlockKeys_def Let_def ClearBlockContext_def split: option.split)

lemma write_and_attach_Some:
  "client (ctx s c) = Some ch \<Longrightarrow> write_and_attach c s =
     s\<lparr>outbox := outbox s @ [(ch, reply (ctx s c))], detached := set_erase ch (detached s)\<rparr>"
  by (simp add: write_and_attach_def AttachFD_def client_write_def)

lemma timers_ClearBlockKeys:
  "block (ctx s c) = Some b \<Longrightarrow> blocking_timer_task_id b \<noteq> - 1 \<Longrightarrow>
   timers (ClearBlockKeys c s) = filter (\<lambda>t. fst t \<noteq> blocking_timer_task_id b) (timers s)"
  by (simp add: ClearBlockKeys_def Let_def)

text \<open>
  What a wake-up does when the engine has an element: the list is popped, the client gets the pair
  of key and element, is attached again and blocked no more.
\<close>

lemma WakeBlockedList_pops:
  assumes "client (ctx s c) = Some ch" "push_key (GetBlockContext (ctx s c)) = []"
    and "kv_exec K (blocking_pop (lpop (GetBlockContext (ctx s c)))) (currentDB (ctx s c)) [KStr key]
      (m_kv_store s) = (r, st)" "kv_err r = 0" "kv_str r \<noteq> []"
  shows "let s' = WakeBlockedList K c key s in
     outbox s' = outbox s @ [(ch, popped_reply key (kv_str r) (reply (ctx s c)))]
     \<and> m_kv_store s' = st \<and> detached s' = set_erase ch (detached s) \<and> block (ctx s' c) = None
     \<and> m_block_context_table s' = table_clear c (blocked s c) (m_block_context_table s)"
proof -
  let ?b = "GetBlockContext (ctx s c)"
  define s1 where "s1 = snd (kv_call K (blocking_pop (lpop ?b)) c [KStr key]
    (upd_ctx c (\<lambda>x. x\<lparr>block := Some (GetBlockContext x)\<rparr>) s))"
  define s2 where "s2 = on_reply c (popped_reply key (kv_str r)) s1"
  define s3 where "s3 = (if \<not> no_wal (ctx s2 c) then WriteWAL (currentDB (ctx s2 c))
    (AddArg (RedisCommandFrame_new (if lpop ?b then ''lpop'' else ''rpop'')) key) s2 else s2)"
  have w: "WakeBlockedList K c key s = ClearBlockKeys c (write_and_attach c s3)"
    using assms(2-5) unfolding WakeBlockedList_def Let_def split_beta s3_def s2_def s1_def popped_reply_def
    by (cases "lpop ?b") simp_all
  have f: "ctx s3 = ctx s2" "outbox s3 = outbox s" "m_kv_store s3 = st" "detached s3 = detached s"
    "m_block_context_table s3 = m_block_context_table s"
    using assms(3) by (auto simp: s3_def s2_def s1_def fun_eq_iff)
  have c3: "client (ctx s3 c) = Some ch" "reply (ctx s3 c) = popped_reply key (kv_str r) (reply (ctx s c))"
    "blocked s3 c = blocked s c"
    using assms(1) by (simp_all add: f s2_def s1_def blocked_def)
  have "blocked (write_and_attach c s3) c = blocked s c"
    using c3(3) by (simp add: write_and_attach_Some [OF c3(1)] blocked_def)
  then show ?thesis
    unfolding w Let_def
    by (simp add: block_reg.table_clear) (simp add: write_and_attach_Some [OF c3(1)] c3(2) f(2-5))
qed

text \<open>
  C24: A blocked client is served by its wake-up: when the list it waits for has an element, the
  element is popped, the client is sent the key and the element, its input resumes, and no table
  mentions it any more.
\<close>

theorem wake_serves_blocked_client:
  assumes "block_reg.consistent s" "client (ctx s c) = Some ch" "block (ctx s c) = Some b" "push_key b = []"
    and "kv_exec K (blocking_pop (lpop b)) (currentDB (ctx s c)) [KStr key] (m_kv_store s) = (r, st)"
    "kv_err r = 0" "kv_str r \<noteq> []"
  shows "let s' = WakeBlockedList K c key s in
     outbox s' = outbox s @ [(ch, popped_reply key (kv_str r) (reply (ctx s c)))]
     \<and> m_kv_store s' = st \<and> detached s' = set_erase ch (detached s) \<and> block (ctx s' c) = None
     \<and> (\<forall>k. c \<notin> set (table_lookup (m_block_context_table s') k))"
proof -
  have b: "GetBlockContext (ctx s c) = b" using assms(3) by (simp add: GetBlockContext_def)
  have "c \<notin> set (table_lookup (table_clear c (blocked s c) (m_block_context_table s)) k)" for k
    using block_reg.clear_gone [OF assms(1), of c k] by (simp add: block_reg.table_clear)
  then show ?thesis
    using WakeBlockedList_pops [OF assms(2), unfolded b, OF assms(4-7)] by (simp add: Let_def)
qed

text \<open>A client that waits for the list \<open>q\<close>.\<close>

definition blocked_demo :: "nat server" where
  "blocked_demo = AddBlockKey 5 ''q'' (DetachFD 50 (upd_ctx 5 (\<lambda>x. x\<lparr>client := Some 50\<rparr>) demo_nat_server))"

theorem wake_serves_blocked_client_witness:
  "outbox (WakeBlockedList (demo_mmkv (kv_answer 0 ''v'')) 5 ''q'' blocked_demo) =
     [(50, popped_reply ''q'' ''v'' (reply (ctx blocked_demo 5)))]"
proof -
  let ?s = "DetachFD 50 (upd_ctx 5 (\<lambda>x. x\<lparr>client := Some 50\<rparr>) demo_nat_server)"
  have "block_reg.consistent ?s"
    by (rule block_reg.consistent_same [OF initial_block_ok [of 0 default_config "[]" "\<lambda>n. n" "\<lambda>_. NUL"]])
      (auto simp: demo_nat_server_def DetachFD_def blocked_def GetBlockContext_def fun_eq_iff)
  then have ok: "block_reg.consistent blocked_demo"
    by (simp add: blocked_demo_def AddBlockKey_def block_reg.consistent_add)
  have "client (ctx blocked_demo 5) = Some 50" by code_simp
  moreover have "block (ctx blocked_demo 5) =
      Some \<lparr>block_keys = [WatchKey 0 ''q''], push_key = [], blocking_timer_task_id = - 1, lpop = False\<rparr>"
    by code_simp
  moreover have "outbox blocked_demo = []" by code_simp
  ultimately show ?thesis
    using wake_serves_blocked_client [OF ok, of 5 50 _ "demo_mmkv (kv_answer 0 ''v'')" "''q''"
        "kv_answer 0 ''v''" "Suc (m_kv_store blocked_demo)"]
    by (simp add: Let_def demo_mmkv_def kv_answer_def)
qed

text \<open>
  A wake-up that arrives late takes an element from a client that does not wait: every push
  posts its own wake-up, and the one that finds its client already served pops another element and
  sends it as a reply nobody asked for.
\<close>

theorem late_wake_steals_element:
  assumes "block (ctx s c) = None" "client (ctx s c) = Some ch"
    and "kv_exec K ''RPop'' (currentDB (ctx s c)) [KStr key] (m_kv_store s) = (r, st)"
    "kv_err r = 0" "kv_str r \<noteq> []"
  shows "outbox (WakeBlockedList K c key s) =
       outbox s @ [(ch, popped_reply key (kv_str r) (reply (ctx s c)))]
     \<and> m_kv_store (WakeBlockedList K c key s) = st"
  using WakeBlockedList_pops [OF assms(2), of K key r st] assms
  by (simp add: GetBlockContext_def ListBlockContext_new_def blocking_pop_def Let_def)

theorem late_wake_steals_element_witness:
  "outbox (WakeBlockedList (demo_mmkv (kv_answer 0 ''v'')) 5 ''q''
      (upd_ctx 5 (\<lambda>x. x\<lparr>client := Some 50\<rparr>) demo_nat_server)) = [(50, popped_reply ''q'' ''v'' reply_new)]"
  using late_wake_steals_element [of "upd_ctx 5 (\<lambda>x. x\<lparr>client := Some 50\<rparr>) demo_nat_server" 5 50
      "demo_mmkv (kv_answer 0 ''v'')" "''q''" "kv_answer 0 ''v''" 1]
  by (simp add: demo_nat_server_def demo_mmkv_def kv_answer_def Context_new_def initial_server_def ctx_def
      upd_ctx_def)

text \<open>
  \<open>BLPOP\<close> and \<open>BRPOP\<close> lose empty elements: when the engine pops an empty string, the engine has
  changed, yet no key change is reported and the client is not answered but blocked.
\<close>

theorem blocking_pop_loses_empty:
  assumes "m_args cmd = [k, t]" "string_touint32 t = Some timeout"
    and "kv_exec K (blocking_pop (frame_type cmd = REDIS_CMD_BLPOP)) (currentDB (ctx s c)) [KStr k]
      (m_kv_store s) = (r, st)" "kv_err r = 0" "kv_str r = []"
  shows "let s' = BLPop K c cmd s in m_kv_store s' = st \<and> reply (ctx s' c) = reply (ctx s c)
     \<and> data_change (ctx s' c) = data_change (ctx s c)
     \<and> WatchKey (currentDB (ctx s c)) k \<in> set (blocked s' c)"
proof -
  define s1 where "s1 = snd (kv_call K (blocking_pop (frame_type cmd = REDIS_CMD_BLPOP)) c [KStr k] s)"
  have l: "blpop_loop K c (frame_type cmd = REDIS_CMD_BLPOP) [k] s = (False, s1)"
    using assms(3-5) by (simp add: s1_def kv_call_def)
  define s2 where "s2 = (case client (ctx s1 c) of None \<Rightarrow> s1 | Some ch \<Rightarrow>
      let s = DetachFD ch s1;
          s = upd_ctx c (\<lambda>x. x\<lparr>block := Some ((GetBlockContext x)\<lparr>lpop := frame_type cmd = REDIS_CMD_BLPOP\<rparr>)\<rparr>) s
      in if timeout > 0 then ScheduleTimeout c timeout s else s)"
  have s2: "m_kv_store s2 = st" "reply (ctx s2 c) = reply (ctx s c)"
    "data_change (ctx s2 c) = data_change (ctx s c)" "currentDB (ctx s2 c) = currentDB (ctx s c)"
    using assms(3)
    by (simp_all add: s2_def s1_def Let_def DetachFD_def ScheduleTimeout_def split: option.split)
  have b: "BLPop K c cmd s = AddBlockKey c k s2"
    using assms(1,2) l by (simp add: BLPop_def Let_def s2_def)
  have "blocked (AddBlockKey c k s2) c = set_insert (WatchKey (currentDB (ctx s c)) k) (blocked s2 c)"
    by (simp add: AddBlockKey_def block_reg.keys_add s2)
  then show ?thesis
    unfolding b Let_def by (simp add: s2) (simp add: AddBlockKey_def AddBlockKey_key_def s2 Let_def)
qed

theorem blocking_pop_loses_empty_witness:
  "m_kv_store (BLPop (demo_mmkv (kv_answer 0 [])) 5
     ((RedisCommandFrame_new ''blpop'')\<lparr>m_args := [''q'', ''0'']\<rparr>) demo_nat_server) = 1"
proof -
  have "string_touint32 ''0'' = Some 0" by code_simp
  then show ?thesis
    using blocking_pop_loses_empty [of "(RedisCommandFrame_new ''blpop'')\<lparr>m_args := [''q'', ''0'']\<rparr>" "''q''"
        "''0''" 0 "demo_mmkv (kv_answer 0 [])" demo_nat_server 5 "kv_answer 0 []" 1]
    by (simp add: demo_nat_server_def demo_mmkv_def kv_answer_def Let_def)
qed

end
