(* ===== verification/Cmd_Zsets.thy ===== *)
theory Cmd_Zsets
  imports Cmd_Lists
begin

text \<open>
  The sorted set commands of \<open>command/t_zset.cpp\<close>, \<open>SORT\<close> (\<open>command/sort.cpp\<close>), the cardinality
  estimators (\<open>command/hyperloglog.cpp\<close>) and \<open>GEOADD\<close> (\<open>command/geo.cpp\<close>). Their argument loops index
  the argument array without checking its end; the outcome \<open>Inl None\<close> of a loop is such an access.
\<close>

section \<open>Argument loops\<close>

text \<open>
  The outcome of an argument loop: a value, or an early return with the server that has the error
  filled in, or an access past the last argument.
\<close>

type_synonym ('s, 'v) args_result = "'s server option + 'v"

text \<open>\<open>GetInt64Value(args[i + 1]) || GetInt64Value(args[i + 2])\<close> of the option \<open>LIMIT\<close>.\<close>

definition limit_values :: "ctxid \<Rightarrow> string list \<Rightarrow> 's server \<Rightarrow> ('s, int \<times> int) args_result" where
  "limit_values c as s =
     (case as of
        [] \<Rightarrow> Inl None
      | o1 # as \<Rightarrow>
          (case GetInt64Value c o1 s of
             Inl s \<Rightarrow> Inl (Some s)
           | Inr off \<Rightarrow>
               (case as of
                  [] \<Rightarrow> Inl None
                | o2 # _ \<Rightarrow>
                    (case GetInt64Value c o2 s of
                       Inl s \<Rightarrow> Inl (Some s)
                     | Inr cnt \<Rightarrow> Inr (off, cnt)))))"

fun range_options :: "'s mmkv \<Rightarrow> ctxid \<Rightarrow> bool \<Rightarrow> string list \<Rightarrow> bool \<Rightarrow> int \<Rightarrow> int \<Rightarrow> 's server
    \<Rightarrow> ('s, bool \<times> int \<times> int) args_result" where
  "range_options K c byscore [] withscores off cnt s = Inr (withscores, off, cnt)"
| "range_options K c byscore (a # as) withscores off cnt s =
     (if byscore \<and> strcaseeq a ''withscores'' then range_options K c byscore as True off cnt s
      else if strcaseeq a ''limit''
      then case limit_values c as s of
             Inl e \<Rightarrow> Inl e
           | Inr (off, cnt) \<Rightarrow> range_options K c byscore (drop 2 as) withscores off cnt s
      else Inl (Some (FillErrorReply K c (ERR_SYNTAX_ERROR K) s)))"

definition args_done :: "('v \<Rightarrow> 's server) \<Rightarrow> 's server \<Rightarrow> ('s, 'v) args_result \<Rightarrow> 's server" where
  "args_done k s res =
     (case res of Inl None \<Rightarrow> s\<lparr>fault := True\<rparr> | Inl (Some s') \<Rightarrow> s' | Inr v \<Rightarrow> k v)"

text \<open>The pairs of \<open>ZADD\<close>: a score, then its element.\<close>

fun score_pairs :: "(string \<Rightarrow> real option) \<Rightarrow> ctxid \<Rightarrow> string list \<Rightarrow> (real \<times> string) list \<Rightarrow> 's server
    \<Rightarrow> ('s, (real \<times> string) list) args_result" where
  "score_pairs todouble c [] svs s = Inr svs"
| "score_pairs todouble c (a # as) svs s =
     (case GetDoubleValue todouble c a s of
        Inl s \<Rightarrow> Inl (Some s)
      | Inr score \<Rightarrow>
          (case as of
             [] \<Rightarrow> Inl None
           | v # as \<Rightarrow> score_pairs todouble c as (svs @ [(score, v)]) s))"

section \<open>Sorted sets\<close>

definition ZAdd :: "(string \<Rightarrow> real option) \<Rightarrow> 's mmkv \<Rightarrow> ctxid \<Rightarrow> RedisCommandFrame \<Rightarrow> 's server \<Rightarrow> 's server" where
  "ZAdd todouble K c cmd s =
     args_done (\<lambda>svs.
        let (r, s) = kv_call K ''ZAdd'' c [KStr (arg cmd 0), KReals (map fst svs), KStrs (map snd svs)] s
        in if kv_err r \<ge> 0
           then FireKeyChangedEvent c (arg cmd 0) (on_reply c (fill_int_reply (kv_err r)) s)
           else FillErrorReply K c (kv_err r) s)
       s (score_pairs todouble c (drop 1 (m_args cmd)) [] s)"

definition ZCard :: "'s mmkv \<Rightarrow> ctxid \<Rightarrow> RedisCommandFrame \<Rightarrow> 's server \<Rightarrow> 's server" where
  "ZCard K c cmd s =
     (let (r, s) = kv_call K ''ZCard'' c [KStr (arg cmd 0)] s
      in if kv_err r \<ge> 0 then on_reply c (fill_int_reply (kv_err r)) s
         else FillErrorReply K c (kv_err r) s)"

definition ZCount :: "'s mmkv \<Rightarrow> ctxid \<Rightarrow> RedisCommandFrame \<Rightarrow> 's server \<Rightarrow> 's server" where
  "ZCount K c cmd s =
     (let (r, s) = kv_call K ''ZCount'' c [KStr (arg cmd 0), KStr (arg cmd 1), KStr (arg cmd 2)] s
      in if kv_err r \<ge> 0 then on_reply c (fill_int_reply (kv_err r)) s
         else FillErrorReply K c (kv_err r) s)"

definition ZIncrby :: "(string \<Rightarrow> real option) \<Rightarrow> 's mmkv \<Rightarrow> ctxid \<Rightarrow> RedisCommandFrame \<Rightarrow> 's server \<Rightarrow> 's server" where
  "ZIncrby todouble K c cmd s =
     (case GetDoubleValue todouble c (arg cmd 1) s of
        Inl s \<Rightarrow> s
      | Inr incr \<Rightarrow>
          let (r, s) = kv_call K ''ZIncrBy'' c [KStr (arg cmd 0), KReal incr, KStr (arg cmd 2)] s
          in if kv_err r \<ge> 0
             then FireKeyChangedEvent c (arg cmd 0) (on_reply c (fill_double_reply (kv_dbl r)) s)
             else FillErrorReply K c (kv_err r) s)"

definition ZRange :: "'s mmkv \<Rightarrow> ctxid \<Rightarrow> RedisCommandFrame \<Rightarrow> 's server \<Rightarrow> 's server" where
  "ZRange K c cmd s =
     (if length (m_args cmd) = 4 \<and> \<not> strcaseeq (arg cmd 3) ''withscores''
      then on_reply c (fill_error_reply ''syntax error'') s
      else
        case GetInt64Value c (arg cmd 1) s of
          Inl s \<Rightarrow> s
        | Inr start \<Rightarrow>
            (case GetInt64Value c (arg cmd 2) s of
               Inl s \<Rightarrow> s
             | Inr stop \<Rightarrow>
                 let (r, s) = kv_call K ''ZRange'' c [KStr (arg cmd 0), KInt start, KInt stop,
                                KBool (length (m_args cmd) = 4)] s
                 in if kv_err r \<ge> 0 then on_reply c (fill_str_array_reply (kv_strs r)) s
                    else FillErrorReply K c (kv_err r) s))"

definition ZRevRange :: "'s mmkv \<Rightarrow> ctxid \<Rightarrow> RedisCommandFrame \<Rightarrow> 's server \<Rightarrow> 's server" where
  "ZRevRange K c cmd s =
     (if length (m_args cmd) = 4 \<and> \<not> strcaseeq (arg cmd 3) ''withscores''
      then on_reply c (fill_error_reply ''syntax error'') s
      else
        case GetInt64Value c (arg cmd 1) s of
          Inl s \<Rightarrow> s
        | Inr start \<Rightarrow>
            (case GetInt64Value c (arg cmd 2) s of
               Inl s \<Rightarrow> s
             | Inr stop \<Rightarrow>
                 let (r, s) = kv_call K ''ZRevRange'' c [KStr (arg cmd 0), KInt start, KInt stop,
                                KBool (length (m_args cmd) = 4)] s
                 in if kv_err r \<ge> 0 then on_reply c (fill_str_array_reply (kv_strs r)) s
                    else FillErrorReply K c (kv_err r) s))"

definition ZRangeByScore :: "'s mmkv \<Rightarrow> ctxid \<Rightarrow> RedisCommandFrame \<Rightarrow> 's server \<Rightarrow> 's server" where
  "ZRangeByScore K c cmd s =
     args_done (\<lambda>(withscores, off, cnt).
        let (r, s) = kv_call K ''ZRangeByScore'' c [KStr (arg cmd 0), KStr (arg cmd 1), KStr (arg cmd 2),
                       KBool withscores, KInt off, KInt cnt] s
        in if kv_err r \<ge> 0 then on_reply c (fill_str_array_reply (kv_strs r)) s
           else FillErrorReply K c (kv_err r) s)
       s (range_options K c True (drop 3 (m_args cmd)) False 0 (- 1) s)"

definition ZRevRangeByScore :: "'s mmkv \<Rightarrow> ctxid \<Rightarrow> RedisCommandFrame \<Rightarrow> 's server \<Rightarrow> 's server" where
  "ZRevRangeByScore K c cmd s =
     args_done (\<lambda>(withscores, off, cnt).
        let (r, s) = kv_call K ''ZRevRangeByScore'' c [KStr (arg cmd 0), KStr (arg cmd 1), KStr (arg cmd 2),
                       KBool withscores, KInt off, KInt cnt] s
        in if kv_err r \<ge> 0 then on_reply c (fill_str_array_reply (kv_strs r)) s
           else FillErrorReply K c (kv_err r) s)
       s (range_options K c True (drop 3 (m_args cmd)) False 0 (- 1) s)"

definition ZRank :: "'s mmkv \<Rightarrow> ctxid \<Rightarrow> RedisCommandFrame \<Rightarrow> 's server \<Rightarrow> 's server" where
  "ZRank K c cmd s =
     (let (r, s) = kv_call K ''ZRank'' c [KStr (arg cmd 0), KStr (arg cmd 1)] s
      in if kv_err r \<ge> 0 then on_reply c (fill_int_reply (kv_err r)) s
         else if not_exist K (kv_err r) then on_reply c (set_type REDIS_REPLY_NIL) s
         else FillErrorReply K c (kv_err r) s)"

definition ZRevRank :: "'s mmkv \<Rightarrow> ctxid \<Rightarrow> RedisCommandFrame \<Rightarrow> 's server \<Rightarrow> 's server" where
  "ZRevRank K c cmd s =
     (let (r, s) = kv_call K ''ZRevRank'' c [KStr (arg cmd 0), KStr (arg cmd 1)] s
      in if kv_err r \<ge> 0 then on_reply c (fill_int_reply (kv_err r)) s
         else if not_exist K (kv_err r) then on_reply c (set_type REDIS_REPLY_NIL) s
         else FillErrorReply K c (kv_err r) s)"

definition ZRem :: "'s mmkv \<Rightarrow> ctxid \<Rightarrow> RedisCommandFrame \<Rightarrow> 's server \<Rightarrow> 's server" where
  "ZRem K c cmd s =
     (let (r, s) = kv_call K ''ZRem'' c [KStr (arg cmd 0), KStrs (drop 1 (m_args cmd))] s
      in if kv_err r \<ge> 0
         then let s = on_reply c (fill_int_reply (kv_err r)) s
              in if kv_err r > 0 then FireKeyChangedEvent c (arg cmd 0) s else s
         else FillErrorReply K c (kv_err r) s)"

definition ZRemRangeByRank :: "'s mmkv \<Rightarrow> ctxid \<Rightarrow> RedisCommandFrame \<Rightarrow> 's server \<Rightarrow> 's server" where
  "ZRemRangeByRank K c cmd s =
     (case GetInt64Value c (arg cmd 1) s of
        Inl s \<Rightarrow> s
      | Inr start \<Rightarrow>
          (case GetInt64Value c (arg cmd 2) s of
             Inl s \<Rightarrow> s
           | Inr stop \<Rightarrow>
               let (r, s) = kv_call K ''ZRemRangeByRank'' c [KStr (arg cmd 0), KInt start, KInt stop] s
               in if kv_err r \<ge> 0
                  then let s = on_reply c (fill_int_reply (kv_err r)) s
                       in if kv_err r > 0 then FireKeyChangedEvent c (arg cmd 0) s else s
                  else FillErrorReply K c (kv_err r) s))"

definition ZRemRangeByScore :: "'s mmkv \<Rightarrow> ctxid \<Rightarrow> RedisCommandFrame \<Rightarrow> 's server \<Rightarrow> 's server" where
  "ZRemRangeByScore K c cmd s =
     (let (r, s) = kv_call K ''ZRemRangeByScore'' c [KStr (arg cmd 0), KStr (arg cmd 1), KStr (arg cmd 2)] s
      in if kv_err r \<ge> 0
         then let s = on_reply c (fill_int_reply (kv_err r)) s
              in if kv_err r > 0 then FireKeyChangedEvent c (arg cmd 0) s else s
         else FillErrorReply K c (kv_err r) s)"

text \<open>
  \<open>ZINTERSTORE\<close> and \<open>ZUNIONSTORE\<close>: the loop over the options after the keys. \<open>Inl None\<close> is an access
  past the last argument, \<open>Inl (Some e)\<close> an error code. The position after the weights is computed
  from all weights read so far.
\<close>

fun store_weights :: "nat \<Rightarrow> string list \<Rightarrow> int \<Rightarrow> nat list \<Rightarrow> int option + nat list" where
  "store_weights 0 as e ws = Inr ws"
| "store_weights (Suc n) as e ws =
     (case as of
        [] \<Rightarrow> Inl None
      | a # as \<Rightarrow>
          (case string_touint32 a of
             None \<Rightarrow> Inl (Some e)
           | Some w \<Rightarrow> store_weights n as e (ws @ [w])))"

function (sequential) store_options :: "nat \<Rightarrow> int \<Rightarrow> string list \<Rightarrow> nat list \<Rightarrow> string
    \<Rightarrow> int option + nat list \<times> string" where
  "store_options n e [] ws aggregate = Inr (ws, aggregate)"
| "store_options n e (a # as) ws aggregate =
     (if strcaseeq a ''weights''
      then if Suc (length as) < n then Inl (Some e)
           else case store_weights n as e ws of
                  Inl x \<Rightarrow> Inl x
                | Inr ws \<Rightarrow> store_options n e (drop (length ws) as) ws aggregate
      else if strcaseeq a ''aggregate''
      then case as of
             [] \<Rightarrow> Inl None
           | v # as \<Rightarrow> store_options n e as ws v
      else Inl (Some e))"
  by pat_completeness auto
termination
  by (relation "measure (\<lambda>(n, e, as, ws, agg). length as)") auto

definition REDIS_CMD_ZINTERSTORE :: nat where "REDIS_CMD_ZINTERSTORE = 111"


definition ZInterStore :: "'s mmkv \<Rightarrow> ctxid \<Rightarrow> RedisCommandFrame \<Rightarrow> 's server \<Rightarrow> 's server" where
  "ZInterStore K c cmd s =
     (let e = ERR_INVALID_ARGS K; args = m_args cmd;
          fail = (\<lambda>err. if err < 0 then FillErrorReply K c err s else on_reply c (fill_int_reply err) s)
      in case string_toint32 (arg cmd 1) of
           None \<Rightarrow> fail e
         | Some numkeys \<Rightarrow>
             if numkeys \<le> 0 \<or> length args < nat numkeys + 1 then fail e
             else if length args < nat numkeys + 2 then s\<lparr>fault := True\<rparr>
             else
               let n = nat numkeys; keys = take n (drop 2 args)
               in case store_options n e (drop (n + 2) args) [] [] of
                    Inl None \<Rightarrow> s\<lparr>fault := True\<rparr>
                  | Inl (Some err) \<Rightarrow> fail err
                  | Inr (weights, aggregate) \<Rightarrow>
                      let (r, s) = kv_call K (if frame_type cmd = REDIS_CMD_ZINTERSTORE
                                              then ''ZInterStore'' else ''ZUnionStore'') c
                                     [KStr (arg cmd 0), KStrs keys, KReals (map real weights),
                                      KStr aggregate] s
                      in if kv_err r < 0 then FillErrorReply K c (kv_err r) s
                         else on_reply c (fill_int_reply (kv_err r)) s)"

definition ZUnionStore :: "'s mmkv \<Rightarrow> ctxid \<Rightarrow> RedisCommandFrame \<Rightarrow> 's server \<Rightarrow> 's server" where
  "ZUnionStore = ZInterStore"

definition ZScore :: "'s mmkv \<Rightarrow> ctxid \<Rightarrow> RedisCommandFrame \<Rightarrow> 's server \<Rightarrow> 's server" where
  "ZScore K c cmd s =
     (let (r, s) = kv_call K ''ZScore'' c [KStr (arg cmd 0), KStr (arg cmd 1)] s
      in if kv_err r \<ge> 0 then on_reply c (fill_double_reply (kv_dbl r)) s
         else if not_exist K (kv_err r) then on_reply c (set_type REDIS_REPLY_NIL) s
         else FillErrorReply K c (kv_err r) s)"

definition ZScan :: "'s mmkv \<Rightarrow> ctxid \<Rightarrow> RedisCommandFrame \<Rightarrow> 's server \<Rightarrow> 's server" where
  "ZScan = Scan"

definition ZLexCount :: "'s mmkv \<Rightarrow> ctxid \<Rightarrow> RedisCommandFrame \<Rightarrow> 's server \<Rightarrow> 's server" where
  "ZLexCount K c cmd s =
     (let (r, s) = kv_call K ''ZLexCount'' c [KStr (arg cmd 0), KStr (arg cmd 1), KStr (arg cmd 2)] s
      in if kv_err r \<ge> 0 then on_reply c (fill_int_reply (kv_err r)) s
         else FillErrorReply K c (kv_err r) s)"

definition ZRangeByLex :: "'s mmkv \<Rightarrow> ctxid \<Rightarrow> RedisCommandFrame \<Rightarrow> 's server \<Rightarrow> 's server" where
  "ZRangeByLex K c cmd s =
     args_done (\<lambda>(withscores, off, cnt).
        let (r, s) = kv_call K ''ZRangeByLex'' c [KStr (arg cmd 0), KStr (arg cmd 1), KStr (arg cmd 2),
                       KInt off, KInt cnt] s
        in if kv_err r \<ge> 0 then on_reply c (fill_str_array_reply (kv_strs r)) s
           else FillErrorReply K c (kv_err r) s)
       s (range_options K c False (drop 3 (m_args cmd)) False 0 (- 1) s)"

definition ZRemRangeByLex :: "'s mmkv \<Rightarrow> ctxid \<Rightarrow> RedisCommandFrame \<Rightarrow> 's server \<Rightarrow> 's server" where
  "ZRemRangeByLex K c cmd s =
     (let (r, s) = kv_call K ''ZRemRangeByLex'' c [KStr (arg cmd 0), KStr (arg cmd 1), KStr (arg cmd 2)] s
      in if kv_err r \<ge> 0
         then let s = on_reply c (fill_int_reply (kv_err r)) s
              in if kv_err r > 0 then FireKeyChangedEvent c (arg cmd 0) s else s
         else FillErrorReply K c (kv_err r) s)"

section \<open>Cardinality estimators, points and sorting\<close>

definition PFAdd :: "'s mmkv \<Rightarrow> ctxid \<Rightarrow> RedisCommandFrame \<Rightarrow> 's server \<Rightarrow> 's server" where
  "PFAdd K c cmd s =
     (let (r, s) = kv_call K ''PFAdd'' c [KStr (arg cmd 0), KStrs (drop 1 (m_args cmd))] s
      in if kv_err r \<ge> 0
         then on_reply c (fill_int_reply (kv_err r)) (FireKeyChangedEvent c (arg cmd 0) s)
         else FillErrorReply K c (kv_err r) s)"

definition PFCount :: "'s mmkv \<Rightarrow> ctxid \<Rightarrow> RedisCommandFrame \<Rightarrow> 's server \<Rightarrow> 's server" where
  "PFCount K c cmd s =
     (let (r, s) = kv_call K ''PFCount'' c [KStrs (m_args cmd)] s
      in if kv_err r \<ge> 0 then on_reply c (fill_int_reply (kv_err r)) s
         else FillErrorReply K c (kv_err r) s)"

definition PFMerge :: "'s mmkv \<Rightarrow> ctxid \<Rightarrow> RedisCommandFrame \<Rightarrow> 's server \<Rightarrow> 's server" where
  "PFMerge K c cmd s =
     (let (r, s) = kv_call K ''PFMerge'' c [KStr (arg cmd 0), KStrs (drop 1 (m_args cmd))] s
      in if kv_err r = 0 then on_reply c fill_ok_reply (FireKeyChangedEvent c (arg cmd 0) s)
         else FillErrorReply K c (kv_err r) s)"

text \<open>
  \<open>GEOADD\<close> parses triples of coordinates and value and never adds the point to the array it passes
  to the engine.
\<close>

fun geo_points :: "(string \<Rightarrow> real option) \<Rightarrow> ctxid \<Rightarrow> string list \<Rightarrow> 's server \<Rightarrow> ('s, unit) args_result" where
  "geo_points todouble c [] s = Inr ()"
| "geo_points todouble c (x # as) s =
     (case GetDoubleValue todouble c x s of
        Inl s \<Rightarrow> Inl (Some s)
      | Inr _ \<Rightarrow>
          (case as of
             [] \<Rightarrow> Inl None
           | y # as \<Rightarrow>
               (case GetDoubleValue todouble c y s of
                  Inl s \<Rightarrow> Inl (Some s)
                | Inr _ \<Rightarrow> (case as of [] \<Rightarrow> Inl None | v # as \<Rightarrow> geo_points todouble c as s))))"


definition GeoAdd :: "(string \<Rightarrow> real option) \<Rightarrow> 's mmkv \<Rightarrow> ctxid \<Rightarrow> RedisCommandFrame \<Rightarrow> 's server \<Rightarrow> 's server" where
  "GeoAdd todouble K c cmd s =
     args_done (\<lambda>_.
        let (r, s) = kv_call K ''GeoAdd'' c [KStr (arg cmd 0), KStr (arg cmd 1), KReals [], KStrs []] s
        in if kv_err r \<ge> 0
           then on_reply c (fill_int_reply (kv_err r))
                  (if kv_err r > 0 then FireKeyChangedEvent c (arg cmd 0) s else s)
           else FillErrorReply K c (kv_err r) s)
       s (geo_points todouble c (drop 2 (m_args cmd)) s)"

text \<open>The options of \<open>SORT\<close>; an invalid option ends the handler without a reply.\<close>

record sort_opts =
  is_desc :: bool
  with_alpha :: bool
  sort_by :: string
  store_dst :: string
  get_patterns :: "string list"
  limit_offset :: int
  limit_count :: int

function (sequential) sort_options :: "string list \<Rightarrow> sort_opts \<Rightarrow> sort_opts option" where
  "sort_options [] o1 = Some o1"
| "sort_options (a # as) o1 =
     (if strcaseeq a ''asc'' then sort_options as (o1\<lparr>is_desc := False\<rparr>)
      else if strcaseeq a ''desc'' then sort_options as (o1\<lparr>is_desc := True\<rparr>)
      else if strcaseeq a ''alpha'' then sort_options as (o1\<lparr>with_alpha := True\<rparr>)
      else if strcaseeq a ''limit'' \<and> length as \<ge> 2
      then case (string_toint32 (as ! 0), string_toint32 (as ! 1)) of
             (Some off, Some cnt) \<Rightarrow>
               sort_options (drop 2 as) (o1\<lparr>limit_offset := off, limit_count := cnt\<rparr>)
           | _ \<Rightarrow> None
      else if strcaseeq a ''store'' \<and> length as \<ge> 1
      then sort_options (drop 1 as) (o1\<lparr>store_dst := as ! 0\<rparr>)
      else if strcaseeq a ''by'' \<and> length as \<ge> 1
      then sort_options (drop 1 as) (o1\<lparr>sort_by := as ! 0\<rparr>)
      else if strcaseeq a ''get'' \<and> length as \<ge> 1
      then sort_options (drop 1 as) (o1\<lparr>get_patterns := get_patterns o1 @ [c_str (as ! 0)]\<rparr>)
      else None)"
  by pat_completeness auto
termination
  by (relation "measure (\<lambda>(as, o1). length as)") auto

definition sort_defaults :: sort_opts where
  "sort_defaults = \<lparr>is_desc = False, with_alpha = False, sort_by = [], store_dst = [],
     get_patterns = [], limit_offset = 0, limit_count = - 1\<rparr>"


definition Sort :: "'s mmkv \<Rightarrow> ctxid \<Rightarrow> RedisCommandFrame \<Rightarrow> 's server \<Rightarrow> 's server" where
  "Sort K c cmd s =
     (case sort_options (drop 1 (m_args cmd)) sort_defaults of
        None \<Rightarrow> s
      | Some o1 \<Rightarrow>
          let call = kv_call K ''Sort'' c [KStr (arg cmd 0), KStr (sort_by o1), KInt (limit_offset o1),
                 KInt (limit_count o1), KStrs (get_patterns o1), KBool (is_desc o1),
                 KBool (with_alpha o1), KStr (store_dst o1)]
          in if store_dst o1 = []
             then let (r, s) = call (on_reply c (set_type REDIS_REPLY_ARRAY) s);
                      s = on_reply c (ReplyResultStringAlloc (kv_strs r)) s
                  in if kv_err r < 0 then FillErrorReply K c (kv_err r) s else s
             else let (r, s) = call (on_reply c (set_type REDIS_REPLY_INTEGER) s);
                      s = on_reply c (set_integer (if kv_err r \<ge> 0 then kv_err r else 0)) s;
                      s = (if kv_err r > 0 then FireKeyChangedEvent c (store_dst o1) s else s)
                  in if kv_err r < 0 then FillErrorReply K c (kv_err r) s else s)"

section \<open>Their effect on the server\<close>

lemma data_limit_values: "limit_values c as s = Inl (Some s') \<Longrightarrow> data_step c s s'"
  by (auto simp: limit_values_def GetInt64Value_def data_intros split: list.splits option.splits)

lemma data_range_options:
  "range_options K c byscore as w off cnt s = Inl (Some s') \<Longrightarrow> data_step c s s'"
  by (induction K c byscore as w off cnt s rule: range_options.induct)
    (auto simp: data_intros split: if_splits sum.splits dest: data_limit_values)

lemma data_score_pairs: "score_pairs todouble c as svs s = Inl (Some s') \<Longrightarrow> data_step c s s'"
  by (induction todouble c as svs s rule: score_pairs.induct)
    (auto simp: GetDoubleValue_def data_intros split: if_splits sum.splits list.splits option.splits)

lemma data_geo_points: "geo_points todouble c as s = Inl (Some s') \<Longrightarrow> data_step c s s'"
  by (induction todouble c as s rule: geo_points.induct)
    (auto simp: GetDoubleValue_def data_intros split: if_splits sum.splits list.splits option.splits)

lemma data_args_done:
  "(\<And>s'. res = Inl (Some s') \<Longrightarrow> data_step c s s') \<Longrightarrow> (\<And>v. data_step c s (k v))
   \<Longrightarrow> data_step c s (args_done k s res)"
  by (auto simp: args_done_def data_intros split: sum.split option.split)

lemmas zset_cmd_defs =
  ZCard_def ZCount_def ZIncrby_def ZRange_def ZRank_def ZRem_def ZRemRangeByRank_def
  ZRemRangeByScore_def ZRevRange_def ZRevRank_def ZScore_def ZLexCount_def ZRemRangeByLex_def
  PFAdd_def PFCount_def PFMerge_def Sort_def ZScan_def ZUnionStore_def ZInterStore_def
  GetInt64Value_def GetDoubleValue_def

lemma zset_args_data [data_intros]:
  "data_step c s (ZAdd todouble K c cmd s)" "data_step c s (GeoAdd todouble K c cmd s)"
  "data_step c s (ZRangeByScore K c cmd s)" "data_step c s (ZRevRangeByScore K c cmd s)"
  "data_step c s (ZRangeByLex K c cmd s)"
  unfolding ZAdd_def GeoAdd_def ZRangeByScore_def ZRevRangeByScore_def ZRangeByLex_def
  by (rule data_args_done; auto simp: split_beta Let_def data_intros
      dest: data_score_pairs data_geo_points data_range_options)+

lemma zset_cmds_data [data_intros]:
  "data_step c s (ZCard K c cmd s)" "data_step c s (ZCount K c cmd s)"
  "data_step c s (ZIncrby todouble K c cmd s)" "data_step c s (ZRange K c cmd s)"
  "data_step c s (ZRank K c cmd s)" "data_step c s (ZRem K c cmd s)"
  "data_step c s (ZRemRangeByRank K c cmd s)" "data_step c s (ZRemRangeByScore K c cmd s)"
  "data_step c s (ZRevRange K c cmd s)" "data_step c s (ZRevRank K c cmd s)"
  "data_step c s (ZInterStore K c cmd s)" "data_step c s (ZUnionStore K c cmd s)"
  "data_step c s (ZScore K c cmd s)" "data_step c s (ZScan K c cmd s)"
  "data_step c s (ZLexCount K c cmd s)" "data_step c s (ZRemRangeByLex K c cmd s)"
  "data_step c s (PFAdd K c cmd s)" "data_step c s (PFCount K c cmd s)"
  "data_step c s (PFMerge K c cmd s)" "data_step c s (Sort K c cmd s)"
  by (simp_all add: zset_cmd_defs split_beta Let_def data_intros split: option.split sum.split)

end
