(* ===== verification/Pubsub.thy ===== *)
theory Pubsub
  imports Server_State
begin

text \<open>
  Publish and subscribe of \<open>command/pubsub.cpp\<close>. Channels and patterns are two instances of the
  registry contract with single removals; the removal of all registrations of a client comes from
  the sublocale.
\<close>

section \<open>Messages\<close>

definition members :: "RedisReply list \<Rightarrow> RedisReply" where
  "members ms = foldl (\<lambda>r m. AddMember True m r) reply_new ms"

definition text_member :: "string \<Rightarrow> RedisReply" where
  "text_member t = fill_str_reply t reply_new"

text \<open>
  The notification sent for a subscription: its kind, the name (none when there was nothing to
  unsubscribe from) and the number of subscriptions left.
\<close>

definition subscription_count :: "Context \<Rightarrow> int" where
  "subscription_count x =
     int (length (pubsub_channels (GetPubsub x)) + length (pubsub_patterns (GetPubsub x)))"

definition notify_client :: "ctxid \<Rightarrow> string \<Rightarrow> string option \<Rightarrow> 's server \<Rightarrow> 's server" where
  "notify_client c kind name s =
     client_write c (members [text_member kind,
       case name of None \<Rightarrow> set_type REDIS_REPLY_NIL reply_new | Some n \<Rightarrow> text_member n,
       fill_int_reply (subscription_count (ctx s c)) reply_new]) s"

section \<open>Subscriptions\<close>

definition on_pubsub :: "ctxid \<Rightarrow> (PubSubContext \<Rightarrow> PubSubContext) \<Rightarrow> 's server \<Rightarrow> 's server" where
  "on_pubsub c f s = upd_ctx c (\<lambda>x. x\<lparr>pubsub := Some (f (GetPubsub x))\<rparr>) s"

definition SubscribeChannel :: "bool \<Rightarrow> ctxid \<Rightarrow> string \<Rightarrow> 's server \<Rightarrow> 's server" where
  "SubscribeChannel notify c channel s =
     (let s = on_pubsub c (\<lambda>p. p\<lparr>pubsub_channels := set_insert channel (pubsub_channels p)\<rparr>) s;
          s = s\<lparr>m_pubsub_channels := table_add channel c (m_pubsub_channels s)\<rparr>
      in if notify then notify_client c ''subscribe'' (Some channel) s else s)"

definition PSubscribeChannel :: "bool \<Rightarrow> ctxid \<Rightarrow> string \<Rightarrow> 's server \<Rightarrow> 's server" where
  "PSubscribeChannel notify c pattern s =
     (let s = on_pubsub c (\<lambda>p. p\<lparr>pubsub_patterns := set_insert pattern (pubsub_patterns p)\<rparr>) s;
          s = s\<lparr>m_pubsub_patterns := table_add pattern c (m_pubsub_patterns s)\<rparr>
      in if notify then notify_client c ''psubscribe'' (Some pattern) s else s)"

text \<open>The result says whether the channel had an entry in the table.\<close>

definition UnsubscribeChannel ::
    "bool \<Rightarrow> ctxid \<Rightarrow> string \<Rightarrow> 's server \<Rightarrow> int \<times> 's server" where
  "UnsubscribeChannel notify c channel s =
     (let s = on_pubsub c (\<lambda>p. p\<lparr>pubsub_channels := set_erase channel (pubsub_channels p)\<rparr>) s;
          ret = (if map_find channel (m_pubsub_channels s) \<noteq> None then 1 else 0);
          s = s\<lparr>m_pubsub_channels := table_del channel c (m_pubsub_channels s)\<rparr>
      in (ret, if notify then notify_client c ''unsubscribe'' (Some channel) s else s))"

definition PUnsubscribeChannel ::
    "bool \<Rightarrow> ctxid \<Rightarrow> string \<Rightarrow> 's server \<Rightarrow> int \<times> 's server" where
  "PUnsubscribeChannel notify c pattern s =
     (let s = on_pubsub c (\<lambda>p. p\<lparr>pubsub_patterns := set_erase pattern (pubsub_patterns p)\<rparr>) s;
          ret = (if map_find pattern (m_pubsub_patterns s) \<noteq> None then 1 else 0);
          s = s\<lparr>m_pubsub_patterns := table_del pattern c (m_pubsub_patterns s)\<rparr>
      in (ret, if notify then notify_client c ''punsubscribe'' (Some pattern) s else s))"

fun unsubscribe_each ::
    "(string \<Rightarrow> 's server \<Rightarrow> int \<times> 's server) \<Rightarrow> string list \<Rightarrow> int \<Rightarrow> 's server \<Rightarrow> int \<times> 's server" where
  "unsubscribe_each one [] count s = (count, s)"
| "unsubscribe_each one (k # ks) count s =
     (let (n, s) = one k s in unsubscribe_each one ks (count + n) s)"

definition UnsubscribeAll :: "bool \<Rightarrow> ctxid \<Rightarrow> 's server \<Rightarrow> 's server" where
  "UnsubscribeAll notify c s =
     (if pubsub (ctx s c) = None then s
      else
        let tmp = pubsub_channels (GetPubsub (ctx s c));
            (count, s) = unsubscribe_each (UnsubscribeChannel notify c) tmp 0 s
        in if notify \<and> count = 0 then notify_client c ''unsubscribe'' None s else s)"

definition PUnsubscribeAll :: "bool \<Rightarrow> ctxid \<Rightarrow> 's server \<Rightarrow> 's server" where
  "PUnsubscribeAll notify c s =
     (if pubsub (ctx s c) = None then s
      else
        let tmp = pubsub_patterns (GetPubsub (ctx s c));
            (count, s) = unsubscribe_each (PUnsubscribeChannel notify c) tmp 0 s
        in if notify \<and> count = 0 then notify_client c ''punsubscribe'' None s else s)"

text \<open>
  The handlers. Subscribing sets an option of the client's channel, a null dereference for a
  context without a client.
\<close>

definition Subscribe :: "ctxid \<Rightarrow> RedisCommandFrame \<Rightarrow> 's server \<Rightarrow> 's server" where
  "Subscribe c cmd s =
     (if client (ctx s c) = None then s\<lparr>fault := True\<rparr>
      else fold (SubscribeChannel True c) (m_args cmd) s)"

definition PSubscribe :: "ctxid \<Rightarrow> RedisCommandFrame \<Rightarrow> 's server \<Rightarrow> 's server" where
  "PSubscribe c cmd s =
     (if client (ctx s c) = None then s\<lparr>fault := True\<rparr>
      else fold (PSubscribeChannel True c) (m_args cmd) s)"

definition UnSubscribe :: "ctxid \<Rightarrow> RedisCommandFrame \<Rightarrow> 's server \<Rightarrow> 's server" where
  "UnSubscribe c cmd s =
     (if m_args cmd = [] then UnsubscribeAll True c s
      else snd (unsubscribe_each (UnsubscribeChannel True c) (m_args cmd) 0 s))"

definition PUnSubscribe :: "ctxid \<Rightarrow> RedisCommandFrame \<Rightarrow> 's server \<Rightarrow> 's server" where
  "PUnSubscribe c cmd s =
     (if m_args cmd = [] then PUnsubscribeAll True c s
      else snd (unsubscribe_each (PUnsubscribeChannel True c) (m_args cmd) 0 s))"

section \<open>Publishing\<close>

text \<open>
  A message is posted to the thread of every receiver (\<open>AsyncIO\<close>); the receiver counter goes with
  the state.
\<close>

fun post_message :: "RedisReply \<Rightarrow> ctxid list \<Rightarrow> nat \<times> 's server \<Rightarrow> nat \<times> 's server" where
  "post_message m [] (n, s) = (n, s)"
| "post_message m (c # cs) (n, s) =
     post_message m cs
       (case client (ctx s c) of
          None \<Rightarrow> (n, s)
        | Some ch \<Rightarrow> (n + 1, s\<lparr>async_queue := async_queue s @ [(ch, m)]\<rparr>))"

fun post_patterns :: "string \<Rightarrow> string \<Rightarrow> (string \<times> ctxid tree_set) list \<Rightarrow> nat \<times> 's server
    \<Rightarrow> nat \<times> 's server" where
  "post_patterns channel message [] (n, s) = (n, s)"
| "post_patterns channel message ((pattern, cs) # rest) (n, s) =
     post_patterns channel message rest
       (case stringmatchlen pattern channel False of
          None \<Rightarrow> (n, s\<lparr>fault := True\<rparr>)
        | Some False \<Rightarrow> (n, s)
        | Some True \<Rightarrow>
            post_message (members [text_member ''pmessage'', text_member pattern,
              text_member channel, text_member message]) cs (n, s))"

definition PublishMessage :: "ctxid \<Rightarrow> string \<Rightarrow> string \<Rightarrow> 's server \<Rightarrow> nat \<times> 's server" where
  "PublishMessage c channel message s =
     (let ns = (case map_find channel (m_pubsub_channels s) of
                  None \<Rightarrow> (0, s)
                | Some cs \<Rightarrow> post_message (members [text_member ''message'', text_member channel,
                    text_member message]) cs (0, s))
      in post_patterns channel message (m_pubsub_patterns s) ns)"

definition Publish :: "ctxid \<Rightarrow> RedisCommandFrame \<Rightarrow> 's server \<Rightarrow> 's server" where
  "Publish c cmd s =
     (let (count, s) = PublishMessage c (arg cmd 0) (arg cmd 1) s
      in on_reply c (fill_int_reply (int count)) s)"

section \<open>Channels and patterns are registries\<close>

definition channels_of :: "'s server \<Rightarrow> ctxid \<Rightarrow> string tree_set" where
  "channels_of s c = pubsub_channels (GetPubsub (ctx s c))"

definition patterns_of :: "'s server \<Rightarrow> ctxid \<Rightarrow> string tree_set" where
  "patterns_of s c = pubsub_patterns (GetPubsub (ctx s c))"

lemma notify_client_fields [simp]:
  "ctx (notify_client c kind name s) c' = ctx s c'"
  "m_pubsub_channels (notify_client c kind name s) = m_pubsub_channels s"
  "m_pubsub_patterns (notify_client c kind name s) = m_pubsub_patterns s"
  "m_watched_ctx (notify_client c kind name s) = m_watched_ctx s"
  "m_block_context_table (notify_client c kind name s) = m_block_context_table s"
  "m_clients (notify_client c kind name s) = m_clients s"
  by (simp_all add: notify_client_def client_write_def split: option.split)

lemma GetPubsub_Some [simp]: "GetPubsub (x\<lparr>pubsub := Some p\<rparr>) = p"
  by (simp add: GetPubsub_def)

lemmas pubsub_defs = SubscribeChannel_def PSubscribeChannel_def UnsubscribeChannel_def
  PUnsubscribeChannel_def on_pubsub_def channels_of_def patterns_of_def

definition drop_channel :: "ctxid \<Rightarrow> string \<Rightarrow> 's server \<Rightarrow> 's server" where
  "drop_channel c k s = snd (UnsubscribeChannel False c k s)"

definition drop_pattern :: "ctxid \<Rightarrow> string \<Rightarrow> 's server \<Rightarrow> 's server" where
  "drop_pattern c k s = snd (PUnsubscribeChannel False c k s)"

interpretation chan_reg: registry_del channels_of m_pubsub_channels "SubscribeChannel False" drop_channel
  by unfold_locales (simp_all add: drop_channel_def pubsub_defs Let_def)

interpretation pat_reg: registry_del patterns_of m_pubsub_patterns "PSubscribeChannel False" drop_pattern
  by unfold_locales (simp_all add: drop_pattern_def pubsub_defs Let_def)

interpretation chan_note: registry_del channels_of m_pubsub_channels "SubscribeChannel True"
    "\<lambda>c k s. snd (UnsubscribeChannel True c k s)"
  by unfold_locales (simp_all add: pubsub_defs Let_def)

interpretation pat_note: registry_del patterns_of m_pubsub_patterns "PSubscribeChannel True"
    "\<lambda>c k s. snd (PUnsubscribeChannel True c k s)"
  by unfold_locales (simp_all add: pubsub_defs Let_def)

section \<open>Delivery\<close>

definition receivers :: "'s server \<Rightarrow> ctxid list \<Rightarrow> nat list" where
  "receivers s cs = List.map_filter (\<lambda>c. client (ctx s c)) cs"

definition message :: "string \<Rightarrow> string \<Rightarrow> RedisReply" where
  "message channel text = members [text_member ''message'', text_member channel, text_member text]"

definition pmessage :: "string \<Rightarrow> string \<Rightarrow> string \<Rightarrow> RedisReply" where
  "pmessage pattern channel text =
     members [text_member ''pmessage'', text_member pattern, text_member channel, text_member text]"

lemma ctx_async [simp]: "receivers (s\<lparr>async_queue := q\<rparr>) = receivers s"
  by (simp add: receivers_def fun_eq_iff)

lemma post_message_eq:
  "post_message m cs (n, s) = (n + length (receivers s cs),
     s\<lparr>async_queue := async_queue s @ map (\<lambda>ch. (ch, m)) (receivers s cs)\<rparr>)"
proof (induction cs arbitrary: n s)
  case (Cons c cs)
  show ?case
    by (cases "client (ctx s c)") (simp_all add: Cons, simp_all add: receivers_def map_filter_simps)
qed (simp add: receivers_def map_filter_simps)

definition posts_for ::
    "'s server \<Rightarrow> string \<Rightarrow> string \<Rightarrow> (string \<times> ctxid list) list \<Rightarrow> (nat \<times> RedisReply) list" where
  "posts_for s channel text ps = concat (map (\<lambda>p.
     if stringmatchlen (fst p) channel False = Some True
     then map (\<lambda>ch. (ch, pmessage (fst p) channel text)) (receivers s (snd p)) else []) ps)"

definition pattern_posts :: "'s server \<Rightarrow> string \<Rightarrow> string \<Rightarrow> (nat \<times> RedisReply) list" where
  "pattern_posts s channel text = posts_for s channel text (m_pubsub_patterns s)"

lemma posts_for_async [simp]: "posts_for (s\<lparr>async_queue := q\<rparr>) = posts_for s"
  by (simp add: posts_for_def fun_eq_iff cong: if_cong)

lemma in_receivers: "ch \<in> set (receivers s cs) \<longleftrightarrow> (\<exists>c \<in> set cs. client (ctx s c) = Some ch)"
  by (force simp: receivers_def map_filter_def)

lemma in_pattern_posts:
  "x \<in> set (pattern_posts s channel text) \<longleftrightarrow>
     (\<exists>p cs c ch. (p, cs) \<in> set (m_pubsub_patterns s) \<and> c \<in> set cs \<and> client (ctx s c) = Some ch
        \<and> stringmatchlen p channel False = Some True \<and> x = (ch, pmessage p channel text))"
proof -
  have "x \<in> set (pattern_posts s channel text) \<longleftrightarrow>
      (\<exists>p \<in> set (m_pubsub_patterns s). stringmatchlen (fst p) channel False = Some True
         \<and> (\<exists>ch \<in> set (receivers s (snd p)). x = (ch, pmessage (fst p) channel text)))"
    by (auto simp: pattern_posts_def posts_for_def)
  then show ?thesis unfolding in_receivers Bex_def split_paired_Ex fst_conv snd_conv by blast
qed

lemma post_patterns_eq:
  "\<forall>p \<in> set ps. stringmatchlen (fst p) channel False \<noteq> None \<Longrightarrow>
   post_patterns channel text ps (n, s) =
     (n + length (posts_for s channel text ps),
      s\<lparr>async_queue := async_queue s @ posts_for s channel text ps\<rparr>)"
proof (induction ps arbitrary: n s)
  case (Cons p ps)
  obtain pattern cs where p: "p = (pattern, cs)" by fastforce
  obtain b where b: "stringmatchlen pattern channel False = Some b" using Cons.prems by (auto simp: p)
  have ps: "\<forall>p \<in> set ps. stringmatchlen (fst p) channel False \<noteq> None" using Cons.prems by simp
  have "posts_for s channel text (p # ps) = (if b then map (\<lambda>ch. (ch, pmessage pattern channel text))
      (receivers s cs) else []) @ posts_for s channel text ps" for s :: "'a server"
    by (simp add: posts_for_def p b)
  then show ?case
    by (cases b) (simp_all add: p b post_message_eq Cons.IH [OF ps] pmessage_def [symmetric])
qed (simp add: posts_for_def)

text \<open>
  C22: Publishing posts one message to every client subscribed to the channel, in the order of the
  table, then one message per matching pattern to every client subscribed to that pattern, and
  nothing else, and the reply is the number of messages. (The patterns must be such that the
  matcher stays within them.)
\<close>

theorem publish_delivers:
  assumes "chan_reg.consistent s" "pat_reg.consistent s"
    "\<forall>p \<in> set (m_pubsub_patterns s). stringmatchlen (fst p) (arg cmd 0) False \<noteq> None"
  shows "\<exists>cs. sorted cs \<and> distinct cs \<and> (\<forall>c'. c' \<in> set cs \<longleftrightarrow> arg cmd 0 \<in> set (channels_of s c'))
    \<and> async_queue (Publish c cmd s) = async_queue s
        @ map (\<lambda>ch. (ch, message (arg cmd 0) (arg cmd 1))) (receivers s cs)
        @ pattern_posts s (arg cmd 0) (arg cmd 1)
    \<and> (\<forall>x. x \<in> set (pattern_posts s (arg cmd 0) (arg cmd 1)) \<longleftrightarrow>
          (\<exists>c' p ch. x = (ch, pmessage p (arg cmd 0) (arg cmd 1)) \<and> p \<in> set (patterns_of s c')
             \<and> stringmatchlen p (arg cmd 0) False = Some True \<and> client (ctx s c') = Some ch))
    \<and> reply (ctx (Publish c cmd s) c) = fill_int_reply
        (int (length (async_queue (Publish c cmd s)) - length (async_queue s))) (reply (ctx s c))"
proof -
  define cs where "cs = table_lookup (m_pubsub_channels s) (arg cmd 0)"
  have t: "table_ok (m_pubsub_channels s)" "table_ok (m_pubsub_patterns s)"
    using assms(1,2) by (simp_all add: chan_reg.consistentD(1) pat_reg.consistentD(1))
  have sd: "sorted cs" "distinct cs" using table_ok_lookup(1) [OF t(1)] by (simp_all add: cs_def set_ok_def)
  have mem: "c' \<in> set cs \<longleftrightarrow> arg cmd 0 \<in> set (channels_of s c')" for c'
    using chan_reg.consistentD(3) [OF assms(1)] by (simp add: cs_def)
  have posts: "x \<in> set (pattern_posts s (arg cmd 0) (arg cmd 1)) \<longleftrightarrow>
      (\<exists>c' p ch. x = (ch, pmessage p (arg cmd 0) (arg cmd 1)) \<and> p \<in> set (patterns_of s c')
         \<and> stringmatchlen p (arg cmd 0) False = Some True \<and> client (ctx s c') = Some ch)" for x
  proof -
    have "(p, ds) \<in> set (m_pubsub_patterns s) \<longleftrightarrow> map_find p (m_pubsub_patterns s) = Some ds" for p ds
      using t(2) map_find_Some [of "m_pubsub_patterns s" p ds] by (simp add: table_ok_def)
    then have "c' \<in> set (table_lookup (m_pubsub_patterns s) p)
        \<longleftrightarrow> (\<exists>ds. (p, ds) \<in> set (m_pubsub_patterns s) \<and> c' \<in> set ds)" for c' p
      by (cases "map_find p (m_pubsub_patterns s)") (auto simp: table_lookup_def)
    then have look: "p \<in> set (patterns_of s c')
        \<longleftrightarrow> (\<exists>ds. (p, ds) \<in> set (m_pubsub_patterns s) \<and> c' \<in> set ds)" for c' p
      using pat_reg.consistentD(3) [OF assms(2)] by simp
    show ?thesis
      unfolding look in_pattern_posts by blast
  qed
  have "PublishMessage c (arg cmd 0) (arg cmd 1) s =
    (let q = map (\<lambda>ch. (ch, message (arg cmd 0) (arg cmd 1))) (receivers s cs)
           @ pattern_posts s (arg cmd 0) (arg cmd 1)
     in (length q, s\<lparr>async_queue := async_queue s @ q\<rparr>))"
    by (cases "map_find (arg cmd 0) (m_pubsub_channels s)")
      (simp_all add: PublishMessage_def cs_def table_lookup_def message_def pattern_posts_def Let_def
        post_message_eq post_patterns_eq [OF assms(3)], simp add: receivers_def map_filter_simps)
  then have "async_queue (Publish c cmd s) = async_queue s
        @ map (\<lambda>ch. (ch, message (arg cmd 0) (arg cmd 1))) (receivers s cs)
        @ pattern_posts s (arg cmd 0) (arg cmd 1)
    \<and> reply (ctx (Publish c cmd s) c) = fill_int_reply
        (int (length (async_queue (Publish c cmd s)) - length (async_queue s))) (reply (ctx s c))"
    by (simp add: Publish_def Let_def)
  then show ?thesis using sd mem posts by blast
qed

text \<open>Two subscribers, one by name and one by pattern.\<close>

definition pubsub_demo :: "unit server" where
  "pubsub_demo =
     PSubscribeChannel False 6 ''n*'' (SubscribeChannel False 5 ''news''
       (upd_ctx 6 (\<lambda>x. x\<lparr>client := Some 60\<rparr>) (upd_ctx 5 (\<lambda>x. x\<lparr>client := Some 50\<rparr>) demo_server)))"

lemma initial_pubsub_ok:
  "chan_reg.consistent (initial_server st cfg settings clk hp)"
  "pat_reg.consistent (initial_server st cfg settings clk hp)"
  by (simp_all add: chan_reg.consistent_def pat_reg.consistent_def channels_of_def patterns_of_def
      GetPubsub_def Context_new_def PubSubContext_new_def table_ok_def table_lookup_def)

lemma pubsub_demo_ok: "chan_reg.consistent pubsub_demo" "pat_reg.consistent pubsub_demo"
proof -
  let ?s = "upd_ctx 6 (\<lambda>x. x\<lparr>client := Some 60\<rparr>) (upd_ctx 5 (\<lambda>x. x\<lparr>client := Some 50\<rparr>) demo_server)"
  have "chan_reg.consistent ?s" "pat_reg.consistent ?s"
    by (rule chan_reg.consistent_same [OF initial_pubsub_ok(1) [of "()" default_config "[]" "\<lambda>n. n" "\<lambda>_. NUL"]]
        pat_reg.consistent_same [OF initial_pubsub_ok(2) [of "()" default_config "[]" "\<lambda>n. n" "\<lambda>_. NUL"]];
      auto simp: demo_server_def channels_of_def patterns_of_def GetPubsub_def fun_eq_iff)+
  moreover have "channels_of (PSubscribeChannel False c k s) = channels_of s"
    "m_pubsub_channels (PSubscribeChannel False c k s) = m_pubsub_channels s"
    "patterns_of (SubscribeChannel False c k s) = patterns_of s"
    "m_pubsub_patterns (SubscribeChannel False c k s) = m_pubsub_patterns s" for c k and s :: "unit server"
    by (auto simp: pubsub_defs Let_def fun_eq_iff)
  ultimately show "chan_reg.consistent pubsub_demo" "pat_reg.consistent pubsub_demo"
    unfolding pubsub_demo_def
    by (metis chan_reg.consistent_add chan_reg.consistent_same)
      (metis \<open>pat_reg.consistent ?s\<close> pat_reg.consistent_add pat_reg.consistent_same
        \<open>\<And>s k c. patterns_of (SubscribeChannel False c k s) = patterns_of s\<close>
        \<open>\<And>s k c. m_pubsub_patterns (SubscribeChannel False c k s) = m_pubsub_patterns s\<close>)
qed

theorem publish_delivers_witness:
  "\<exists>cs. set cs = {5} \<and>
     async_queue (Publish 9 ((RedisCommandFrame_new ''publish'')\<lparr>m_args := [''news'', ''hi'']\<rparr>) pubsub_demo)
       = map (\<lambda>ch. (ch, message ''news'' ''hi'')) (receivers pubsub_demo cs)
         @ [(60, pmessage ''n*'' ''news'' ''hi'')]"
proof -
  let ?cmd = "(RedisCommandFrame_new ''publish'')\<lparr>m_args := [''news'', ''hi'']\<rparr>"
  have a: "arg ?cmd 0 = ''news''" "arg ?cmd 1 = ''hi''" by (simp_all add: arg_def)
  have "\<forall>p \<in> set (m_pubsub_patterns pubsub_demo). stringmatchlen (fst p) (arg ?cmd 0) False \<noteq> None"
    unfolding a by code_simp
  from publish_delivers [OF pubsub_demo_ok this, of 9] obtain cs where
    cs: "\<And>c'. c' \<in> set cs \<longleftrightarrow> ''news'' \<in> set (channels_of pubsub_demo c')"
    and q: "async_queue (Publish 9 ?cmd pubsub_demo) = async_queue pubsub_demo
        @ map (\<lambda>ch. (ch, message ''news'' ''hi'')) (receivers pubsub_demo cs)
        @ pattern_posts pubsub_demo ''news'' ''hi''"
    unfolding a by blast
  have "channels_of pubsub_demo c' = (if c' = 5 then [''news''] else [])" for c'
    by (auto simp: pubsub_demo_def pubsub_defs Let_def demo_server_def GetPubsub_def Context_new_def
        PubSubContext_new_def set_insert_def insort_insert_key_def)
  then have "set cs = {5}" using cs by auto
  moreover have "async_queue pubsub_demo = []" by code_simp
  moreover have "pattern_posts pubsub_demo ''news'' ''hi'' = [(60, pmessage ''n*'' ''news'' ''hi'')]"
    by code_simp
  ultimately show ?thesis using q by auto
qed

section \<open>Subscriptions as a relation\<close>

definition subscriptions :: "'s server \<Rightarrow> (ctxid \<times> string) set" where
  "subscriptions s = {(c, k). k \<in> set (channels_of s c)}"

lemma unsubscribe_each_fold:
  "snd (unsubscribe_each f ks n s) = fold (\<lambda>k s. snd (f k s)) ks s"
  by (induction ks arbitrary: n s) (simp_all add: split_beta)

lemma channels_notify [simp]: "channels_of (notify_client c kind nm s) = channels_of s"
  by (simp add: channels_of_def fun_eq_iff)

lemma unsubscribe_fold_channels:
  "channels_of (fold (\<lambda>k s. snd (UnsubscribeChannel n c k s)) (channels_of s c) s) c' =
     (if c' = c then [] else channels_of s c')"
  "m_pubsub_channels (fold (\<lambda>k s. snd (UnsubscribeChannel n c k s)) (channels_of s c) s) =
     table_clear c (channels_of s c) (m_pubsub_channels s)"
proof -
  have "fold (drop_channel c) ks s = fold (\<lambda>k s. snd (UnsubscribeChannel False c k s)) ks s" for ks
    by (rule fold_cong) (simp_all add: fun_eq_iff drop_channel_def)
  then have "fold (\<lambda>k s. snd (UnsubscribeChannel n c k s)) (channels_of s c) s =
      (if n then chan_note.del_all c s else chan_reg.del_all c s)"
    by (simp add: chan_note.del_all_def chan_reg.del_all_def)
  then show "channels_of (fold (\<lambda>k s. snd (UnsubscribeChannel n c k s)) (channels_of s c) s) c' =
      (if c' = c then [] else channels_of s c')"
    "m_pubsub_channels (fold (\<lambda>k s. snd (UnsubscribeChannel n c k s)) (channels_of s c) s) =
      table_clear c (channels_of s c) (m_pubsub_channels s)"
    by (simp_all only: chan_note.all.keys_clear chan_reg.all.keys_clear chan_note.all.table_clear
        chan_reg.all.table_clear if_True if_False split: if_split) simp_all
qed

lemma UnsubscribeAll_channels:
  "channels_of (UnsubscribeAll n c s) c' = (if c' = c then [] else channels_of s c')"
  "m_pubsub_channels (UnsubscribeAll n c s) = table_clear c (channels_of s c) (m_pubsub_channels s)"
proof -
  have none: "channels_of s c = []" if "pubsub (ctx s c) = None"
    using that by (simp add: channels_of_def GetPubsub_def PubSubContext_new_def)
  have "channels_of (UnsubscribeAll n c s) =
      channels_of (fold (\<lambda>k s. snd (UnsubscribeChannel n c k s)) (channels_of s c) s)
    \<and> m_pubsub_channels (UnsubscribeAll n c s) =
      m_pubsub_channels (fold (\<lambda>k s. snd (UnsubscribeChannel n c k s)) (channels_of s c) s)"
  proof (cases "pubsub (ctx s c) = None")
    case True
    then show ?thesis using none by (simp add: UnsubscribeAll_def)
  next
    case False
    then show ?thesis
      by (auto simp: UnsubscribeAll_def Let_def split_beta unsubscribe_each_fold
          channels_of_def [of s c, symmetric])
  qed
  then show "channels_of (UnsubscribeAll n c s) c' = (if c' = c then [] else channels_of s c')"
    "m_pubsub_channels (UnsubscribeAll n c s) = table_clear c (channels_of s c) (m_pubsub_channels s)"
    by (simp_all only: unsubscribe_fold_channels)
qed

text \<open>
  C23: The two-sided bookkeeping of subscriptions refines a plain relation between contexts and
  channels: subscribing adds the pair, unsubscribing removes it, unsubscribing from everything
  removes all pairs of the context, the table answers a lookup with exactly the related contexts,
  and the representation stays consistent.
\<close>

theorem subscriptions_refine_relation:
  assumes "chan_reg.consistent s"
  shows "subscriptions (SubscribeChannel n c k s) = insert (c, k) (subscriptions s)
    \<and> subscriptions (snd (UnsubscribeChannel n c k s)) = subscriptions s - {(c, k)}
    \<and> subscriptions (UnsubscribeAll n c s) = {p \<in> subscriptions s. fst p \<noteq> c}
    \<and> set (table_lookup (m_pubsub_channels s) k) = {c'. (c', k) \<in> subscriptions s}
    \<and> chan_reg.consistent (SubscribeChannel n c k s)
    \<and> chan_reg.consistent (snd (UnsubscribeChannel n c k s))
    \<and> chan_reg.consistent (UnsubscribeAll n c s)"
proof -
  have ok: "set_ok (channels_of s c)" by (rule chan_reg.consistentD(2) [OF assms])
  have add: "channels_of (SubscribeChannel n c k s) c' =
      (if c' = c then set_insert k (channels_of s c) else channels_of s c')" for c'
    by (cases n) (simp_all add: chan_reg.keys_add chan_note.keys_add)
  have del: "channels_of (snd (UnsubscribeChannel n c k s)) c' =
      (if c' = c then set_erase k (channels_of s c) else channels_of s c')" for c'
    using chan_reg.keys_del [of c k s c'] chan_note.keys_del [of c k s c']
    by (cases n) (simp_all add: drop_channel_def)
  have c1: "chan_reg.consistent (SubscribeChannel n c k s)"
    using assms by (cases n) (simp_all add: chan_reg.consistent_add chan_note.consistent_add)
  have c2: "chan_reg.consistent (snd (UnsubscribeChannel n c k s))"
    using chan_reg.consistent_del [OF assms, of c k] chan_note.consistent_del [OF assms, of c k]
    by (cases n) (simp_all add: drop_channel_def)
  have c3: "chan_reg.consistent (UnsubscribeAll n c s)"
    using assms by (auto simp: chan_reg.consistent_def UnsubscribeAll_channels)
  have "subscriptions (SubscribeChannel n c k s) = insert (c, k) (subscriptions s)"
    by (auto simp: subscriptions_def add split: if_splits)
  moreover have "subscriptions (snd (UnsubscribeChannel n c k s)) = subscriptions s - {(c, k)}"
    using ok by (auto simp: subscriptions_def del split: if_splits)
  moreover have "subscriptions (UnsubscribeAll n c s) = {p \<in> subscriptions s. fst p \<noteq> c}"
    by (auto simp: subscriptions_def UnsubscribeAll_channels split: if_splits)
  moreover have "set (table_lookup (m_pubsub_channels s) k) = {c'. (c', k) \<in> subscriptions s}"
    using chan_reg.consistentD(3) [OF assms] by (auto simp: subscriptions_def)
  ultimately show ?thesis using c1 c2 c3 by blast
qed

theorem subscriptions_refine_relation_witness:
  "subscriptions (snd (UnsubscribeChannel True 5 ''news'' pubsub_demo)) =
     subscriptions pubsub_demo - {(5, ''news'')}"
  using subscriptions_refine_relation [OF pubsub_demo_ok(1), of True 5 "''news''"] by blast

text \<open>
  A client never leaves subscriber mode: after \<open>UNSUBSCRIBE\<close>, with or without channels, a
  subscribed connection still counts as subscribed although no subscription is left, and a plain
  client that names a channel in \<open>UNSUBSCRIBE\<close> enters the mode. From then on the dispatcher refuses
  every ordinary command of the connection.
\<close>

theorem unsubscribe_stays_subscribed:
  assumes "IsSubscribedConn (ctx s c) \<or> m_args cmd \<noteq> []"
  shows "IsSubscribedConn (ctx (UnSubscribe c cmd s) c)
    \<and> (m_args cmd = [] \<longrightarrow> channels_of (UnSubscribe c cmd s) c = [])"
proof -
  have one: "IsSubscribedConn (ctx (snd (UnsubscribeChannel True c k s)) c)" for k and s :: "'a server"
    by (simp add: UnsubscribeChannel_def Let_def on_pubsub_def IsSubscribedConn_def)
  have each: "IsSubscribedConn (ctx (fold (\<lambda>k s. snd (UnsubscribeChannel True c k s)) ks s) c)"
    if "IsSubscribedConn (ctx s c)" for ks and s :: "'a server"
    using that one by (induction ks arbitrary: s) auto
  show ?thesis
  proof (cases "m_args cmd")
    case Nil
    then have "IsSubscribedConn (ctx s c)" using assms by simp
    then have "IsSubscribedConn (ctx (UnsubscribeAll True c s) c)"
      using each [of s "channels_of s c"]
      by (auto simp: UnsubscribeAll_def Let_def split_beta unsubscribe_each_fold channels_of_def)
    then show ?thesis using Nil by (simp add: UnSubscribe_def UnsubscribeAll_channels)
  next
    case (Cons k ks)
    have "IsSubscribedConn (ctx (fold (\<lambda>k s. snd (UnsubscribeChannel True c k s)) ks
        (snd (UnsubscribeChannel True c k s))) c)" by (rule each [OF one])
    then show ?thesis using Cons by (simp add: UnSubscribe_def split_beta unsubscribe_each_fold)
  qed
qed

theorem unsubscribe_stays_subscribed_witness:
  "IsSubscribedConn (ctx (UnSubscribe 5 (RedisCommandFrame_new ''unsubscribe'') pubsub_demo) 5)"
proof -
  have "IsSubscribedConn (ctx pubsub_demo 5)" by code_simp
  then show ?thesis using unsubscribe_stays_subscribed by blast
qed

end
