(* ===== verification/Slowlog_Stats.thy ===== *)
theory Slowlog_Stats
  imports Server_State
begin

text \<open>
  The log of slow commands (\<open>command/slowlog.cpp\<close>) and the counters of \<open>statistics.cpp\<close>, which also
  decide whether a connection is over its rate limit.
\<close>

section \<open>Slow commands\<close>

text \<open>
  The loop that drops old records. It stops below the limit, so a limit that the cast turns into
  zero drops everything and then pops from an empty queue.
\<close>

function slowlog_trim :: "nat \<Rightarrow> SlowLogRecord list \<Rightarrow> SlowLogRecord list option" where
  "slowlog_trim n q =
     (if length q < n then Some q else if q = [] then None else slowlog_trim n (butlast q))"
  by pat_completeness auto
termination
  by (relation "measure (\<lambda>(n, q). length q)") auto

declare slowlog_trim.simps [simp del]

definition TryPushSlowCommand :: "RedisCommandFrame \<Rightarrow> nat \<Rightarrow> 's server \<Rightarrow> 's server" where
  "TryPushSlowCommand cmd micros s =
     (if micros < c_size (slowlog_log_slower_than (m_cfg s)) then s
      else
        let (ts, s) = read_clock s;
            lg = \<lparr>slow_id = kSlowlogIDSeed s, slow_ts = ts, slow_costs = micros, slow_cmd = cmd\<rparr>;
            q = lg # g_slowlog_queue s;
            s = s\<lparr>kSlowlogIDSeed := c_size (int (kSlowlogIDSeed s) + 1)\<rparr>
        in if slowlog_max_len (m_cfg s) > 0
           then case slowlog_trim (c_uint32 (slowlog_max_len (m_cfg s))) q of
                  None \<Rightarrow> s\<lparr>g_slowlog_queue := [], fault := True\<rparr>
                | Some q \<Rightarrow> s\<lparr>g_slowlog_queue := q\<rparr>
           else s\<lparr>g_slowlog_queue := q\<rparr>)"

definition slowlog_entry :: "SlowLogRecord \<Rightarrow> RedisReply" where
  "slowlog_entry lg =
     foldl (\<lambda>r m. AddMember True m r) reply_new
       [fill_int_reply (int (slow_id lg)) reply_new, fill_int_reply (int (slow_ts lg)) reply_new,
        fill_int_reply (int (slow_costs lg)) reply_new,
        foldl (\<lambda>r a. AddMember True (fill_str_reply a reply_new) r)
          (set_type REDIS_REPLY_ARRAY reply_new)
          (m_cmd (slow_cmd lg) # m_args (slow_cmd lg))]"

definition GetSlowlog :: "ctxid \<Rightarrow> nat \<Rightarrow> 's server \<Rightarrow> 's server" where
  "GetSlowlog c len s =
     on_reply c (\<lambda>rep. foldl (\<lambda>r lg. AddMember True (slowlog_entry lg) r)
       (set_type REDIS_REPLY_ARRAY rep) (take len (g_slowlog_queue s))) s"

definition SlowLog :: "ctxid \<Rightarrow> RedisCommandFrame \<Rightarrow> 's server \<Rightarrow> 's server" where
  "SlowLog c cmd s =
     (let subcmd = arg cmd 0
      in if strcaseeq subcmd ''len''
         then on_reply c (fill_int_reply (int (length (g_slowlog_queue s)))) s
         else if strcaseeq subcmd ''reset''
         then (on_reply c (fill_status_reply ''OK'') s)\<lparr>g_slowlog_queue := []\<rparr>
         else if strcaseeq subcmd ''get''
         then if length (m_args cmd) > 3
              then on_reply c (fill_error_reply ''wrong number of arguments for SLOWLOG GET'') s
              else if length (m_args cmd) = 2
              then case string_touint32 (arg cmd 1) of
                     None \<Rightarrow> on_reply c (fill_error_reply ''value is not an integer or out of range.'') s
                   | Some len \<Rightarrow> GetSlowlog c len s
              else GetSlowlog c 10 s
         else on_reply c (fill_error_reply ''SLOWLOG subcommand must be one of GET, LEN, RESET'') s)"

section \<open>Counters\<close>

definition COMMS_OPS_SEC_SAMPLES :: nat where "COMMS_OPS_SEC_SAMPLES = 16"

definition ERR_OVERLOAD :: int where "ERR_OVERLOAD = - 100"

definition ServerStatistics_new :: ServerStatistics where
  "ServerStatistics_new = \<lparr>stat_numcommands = 0, ops_sec_last_sample_ops = 0, ops_sec_idx = 0,
     connections_received = 0, ops_sec_samples = replicate COMMS_OPS_SEC_SAMPLES 0,
     instantaneous_ops = 0, refused_connections = 0, ops_limit = 0\<rparr>"

definition GetOperationsPerSecond :: "ServerStatistics \<Rightarrow> nat" where
  "GetOperationsPerSecond st =
     c_size (int (sum_list (ops_sec_samples st))) div COMMS_OPS_SEC_SAMPLES"

definition ServerStatistics_Clear :: "ServerStatistics \<Rightarrow> ServerStatistics" where
  "ServerStatistics_Clear st = st\<lparr>stat_numcommands := 0, ops_sec_last_sample_ops := 0,
     ops_sec_idx := 0, connections_received := 0, instantaneous_ops := 0, refused_connections := 0,
     ops_sec_samples := replicate COMMS_OPS_SEC_SAMPLES 0\<rparr>"

text \<open>\<open>m_server_stats[server]\<close> creates the entry on first use.\<close>

definition server_stat :: "string \<Rightarrow> 's server \<Rightarrow> ServerStatistics" where
  "server_stat addr s =
     (case map_find addr (m_stat s) of None \<Rightarrow> ServerStatistics_new | Some st \<Rightarrow> st)"

definition on_stat :: "string \<Rightarrow> (ServerStatistics \<Rightarrow> ServerStatistics) \<Rightarrow> 's server \<Rightarrow> 's server" where
  "on_stat addr f s = s\<lparr>m_stat := map_put addr (f (server_stat addr s)) (m_stat s)\<rparr>"

definition Statistics_Clear :: "'s server \<Rightarrow> 's server" where
  "Statistics_Clear s =
     s\<lparr>stat_expiredkeys := 0, m_stat := map (\<lambda>(a, st). (a, ServerStatistics_Clear st)) (m_stat s)\<rparr>"

definition IncAcceptedClient :: "string \<Rightarrow> int \<Rightarrow> 's server \<Rightarrow> 's server" where
  "IncAcceptedClient addr v s =
     on_stat addr (\<lambda>st. st\<lparr>connections_received := c_size (int (connections_received st) + v)\<rparr>) s"

definition IncRefusedConnection :: "string \<Rightarrow> 's server \<Rightarrow> 's server" where
  "IncRefusedConnection addr s =
     on_stat addr (\<lambda>st. st\<lparr>refused_connections := c_size (int (refused_connections st) + 1)\<rparr>) s"

text \<open>The result code, the sequence number of the command and the next state.\<close>

definition IncRecvCommands :: "string \<Rightarrow> 's server \<Rightarrow> int \<times> nat \<times> 's server" where
  "IncRecvCommands addr s =
     (let s = on_stat addr (\<lambda>st. st\<lparr>stat_numcommands := c_size (int (stat_numcommands st) + 1),
                instantaneous_ops := c_size (int (instantaneous_ops st) + 1)\<rparr>) s;
          st = server_stat addr s
      in (if ops_limit st > 0 \<and> int (instantaneous_ops st) \<ge> ops_limit st then ERR_OVERLOAD else 0,
          stat_numcommands st, s))"

definition track_one :: "nat \<Rightarrow> ServerStatistics \<Rightarrow> ServerStatistics" where
  "track_one t st =
     (let ops = c_int64 (int (stat_numcommands st) - int (ops_sec_last_sample_ops st));
          ops_sec = (if t > 0 then c_size (ops * 1000) div t else 0)
      in st\<lparr>ops_sec_samples := (ops_sec_samples st)[ops_sec_idx st := ops_sec],
            ops_sec_idx := (ops_sec_idx st + 1) mod COMMS_OPS_SEC_SAMPLES,
            ops_sec_last_sample_ops := stat_numcommands st, instantaneous_ops := 0\<rparr>)"

text \<open>\<open>get_current_epoch_millis\<close>: the clock in milliseconds.\<close>

definition read_millis :: "'s server \<Rightarrow> nat \<times> 's server" where
  "read_millis s = (let (t, s) = read_clock s in (t div 1000, s))"

definition TrackOperationsPerSecond :: "'s server \<Rightarrow> 's server" where
  "TrackOperationsPerSecond s =
     (let (now, s) = read_millis s;
          t = c_size (int now - int (m_ops_sec_last_sample_time s));
          s = s\<lparr>m_stat := map (\<lambda>(a, st). (a, track_one t st)) (m_stat s)\<rparr>;
          (now, s) = read_millis s
      in s\<lparr>m_ops_sec_last_sample_time := now\<rparr>)"

definition stat_line :: "string \<times> ServerStatistics \<Rightarrow> string" where
  "stat_line p =
     (let (a, st) = p
      in if stat_numcommands st > 0
         then a @ '': '' @ ''connections_received='' @ stringfromll (c_int64 (int (connections_received st))) @ '' ''
           @ ''commands_processed='' @ stringfromll (c_int64 (int (stat_numcommands st))) @ '' ''
           @ ''ops_per_sec='' @ stringfromll (c_int64 (int (GetOperationsPerSecond st))) @ [CHR 0x0a]
           @ ''refused_client='' @ stringfromll (c_int64 (int (refused_connections st))) @ [CHR 0x0a]
         else [])"

text \<open>The total of refused clients is never summed up: the code prints the initial zero.\<close>

definition PrintStat :: "'s server \<Rightarrow> string" where
  "PrintStat s =
     (let live = filter (\<lambda>st. stat_numcommands st > 0) (map snd (m_stat s));
          total = (\<lambda>f. stringfromll (c_int64 (int (c_size (int (sum_list (map f live)))))))
      in ''total_connections_received:'' @ total connections_received @ [CHR 0x0a]
       @ ''total_commands_processed:'' @ total stat_numcommands @ [CHR 0x0a]
       @ ''expired_keys:'' @ stringfromll (c_int64 (int (stat_expiredkeys s))) @ [CHR 0x0a]
       @ ''instantaneous_ops_per_sec:'' @ total GetOperationsPerSecond @ [CHR 0x0a]
       @ ''refused_client:'' @ stringfromll 0 @ [CHR 0x0a]
       @ concat (map stat_line (m_stat s)))"

section \<open>Bounds\<close>

lemma slowlog_trim_some: "0 < n \<Longrightarrow> slowlog_trim n q = Some (take (n - 1) q)"
proof (induction q rule: rev_induct)
  case Nil
  then show ?case by (simp add: slowlog_trim.simps)
next
  case (snoc x q)
  show ?case
  proof (cases "length q + 1 < n")
    case True
    then show ?thesis by (simp add: slowlog_trim.simps)
  next
    case False
    then have "slowlog_trim n (q @ [x]) = slowlog_trim n q"
      by (subst slowlog_trim.simps) simp
    then show ?thesis using snoc False by simp
  qed
qed

definition stat_ok :: "ServerStatistics \<Rightarrow> bool" where
  "stat_ok st \<longleftrightarrow> length (ops_sec_samples st) = COMMS_OPS_SEC_SAMPLES
     \<and> ops_sec_idx st < COMMS_OPS_SEC_SAMPLES"

lemma stat_ok_steps [wf_intros]:
  "stat_ok ServerStatistics_new" "stat_ok (ServerStatistics_Clear st)"
  "stat_ok st \<Longrightarrow> stat_ok (track_one t st)"
  by (auto simp: stat_ok_def ServerStatistics_new_def ServerStatistics_Clear_def track_one_def
      COMMS_OPS_SEC_SAMPLES_def Let_def)

text \<open>
  C34: The slow log keeps the newest commands up to one less than its limit: a command at least as
  slow as the threshold enters at the front with the next identifier, and the queue is cut to
  \<open>slowlog_max_len - 1\<close> records (the loop compares with \<open>>=\<close>). A faster command leaves it alone.
\<close>

theorem slowlog_keeps_newest:
  assumes "0 < slowlog_max_len (m_cfg s)" "slowlog_max_len (m_cfg s) < 2 ^ 32"
    "0 \<le> slowlog_log_slower_than (m_cfg s)" "slowlog_log_slower_than (m_cfg s) < 2 ^ 63"
  shows "g_slowlog_queue (TryPushSlowCommand cmd micros s) =
     (if int micros < slowlog_log_slower_than (m_cfg s) then g_slowlog_queue s
      else take (nat (slowlog_max_len (m_cfg s)) - 1)
             (\<lparr>slow_id = kSlowlogIDSeed s, slow_ts = fst (read_clock s), slow_costs = micros,
               slow_cmd = cmd\<rparr> # g_slowlog_queue s))"
proof -
  have n: "c_uint32 (slowlog_max_len (m_cfg s)) = nat (slowlog_max_len (m_cfg s))"
    using assms(1,2) by (simp add: c_uint32_def)
  have t: "c_size (slowlog_log_slower_than (m_cfg s)) = nat (slowlog_log_slower_than (m_cfg s))"
    using assms(3,4) by (simp add: c_size_def)
  show ?thesis
    using assms(1) by (auto simp: TryPushSlowCommand_def Let_def read_clock_def n t slowlog_trim_some)
qed

theorem slowlog_keeps_newest_witness:
  "g_slowlog_queue (TryPushSlowCommand (RedisCommandFrame_new ''get'') 20000 demo_server)
     = [\<lparr>slow_id = 0, slow_ts = fst (read_clock demo_server), slow_costs = 20000,
         slow_cmd = RedisCommandFrame_new ''get''\<rparr>]"
  using slowlog_keeps_newest [of demo_server "RedisCommandFrame_new ''get''" 20000]
  by (simp add: demo_server_def initial_server_def default_config_def)

section \<open>Statistics\<close>

definition stats_ok :: "'s server \<Rightarrow> bool" where
  "stats_ok s \<longleftrightarrow> map_ok (m_stat s) \<and> list_all (\<lambda>(a, st). stat_ok st) (m_stat s)"

lemma server_stat_on [simp]: "map_ok (m_stat s) \<Longrightarrow> server_stat a (on_stat a f s) = f (server_stat a s)"
  by (simp add: server_stat_def on_stat_def)

lemma map_ok_on [simp]: "map_ok (m_stat s) \<Longrightarrow> map_ok (m_stat (on_stat a f s))"
  by (simp add: on_stat_def)

lemma stats_ok_server_stat: "stats_ok s \<Longrightarrow> stat_ok (server_stat a s)"
  by (auto simp: stats_ok_def server_stat_def list_all_iff map_find_Some wf_intros split: option.split)

lemma stats_ok_on: "stats_ok s \<Longrightarrow> stat_ok (f (server_stat a s)) \<Longrightarrow> stats_ok (on_stat a f s)"
  by (auto simp: stats_ok_def on_stat_def list_all_iff set_map_put)

lemma map_ok_values [simp]: "map_ok (map (\<lambda>(a, st). (a, f st)) m) = map_ok m"
  by (induction m) auto



definition recv_commands :: "nat \<Rightarrow> string \<Rightarrow> 's server \<Rightarrow> 's server" where
  "recv_commands n a s = ((\<lambda>s. snd (snd (IncRecvCommands a s))) ^^ n) s"

lemma recv_commands_stat:
  assumes "map_ok (m_stat s)" "instantaneous_ops (server_stat a s) = 0" "n < 2 ^ 64"
  shows "map_ok (m_stat (recv_commands n a s)) \<and> instantaneous_ops (server_stat a (recv_commands n a s)) = n
     \<and> ops_limit (server_stat a (recv_commands n a s)) = ops_limit (server_stat a s)"
  using assms(3)
proof (induction n)
  case (Suc n)
  then show ?case by (simp add: recv_commands_def IncRecvCommands_def Let_def c_size_def)
qed (use assms(1,2) in \<open>simp add: recv_commands_def\<close>)

text \<open>
  The rate limit counts exactly: with a limit on its address and a freshly reset counter, the n-th
  command since the last sampling is reported as an overload if and only if n has reached the limit.
\<close>

theorem overload_at_limit:
  assumes "map_ok (m_stat s)" "instantaneous_ops (server_stat a s) = 0" "0 < n" "n < 2 ^ 64"
  shows "fst (IncRecvCommands a (recv_commands (n - 1) a s)) =
     (if 0 < ops_limit (server_stat a s) \<and> ops_limit (server_stat a s) \<le> int n then ERR_OVERLOAD else 0)"
proof -
  have "n - 1 < 2 ^ 64" using assms(4) by simp
  from recv_commands_stat [OF assms(1,2) this] show ?thesis
    using assms(3,4) by (simp add: IncRecvCommands_def Let_def c_size_def)
qed

theorem overload_at_limit_witness:
  "let s = on_stat ''a'' (\<lambda>st. st\<lparr>ops_limit := 2\<rparr>) demo_server
   in fst (IncRecvCommands ''a'' (recv_commands 0 ''a'' s)) = 0
      \<and> fst (IncRecvCommands ''a'' (recv_commands 1 ''a'' s)) = ERR_OVERLOAD"
proof -
  let ?s = "on_stat ''a'' (\<lambda>st. st\<lparr>ops_limit := 2\<rparr>) demo_server"
  have ok: "map_ok (m_stat ?s)" "instantaneous_ops (server_stat ''a'' ?s) = 0" "ops_limit (server_stat ''a'' ?s) = 2"
    by (simp_all add: demo_server_def initial_server_def server_stat_def on_stat_def ServerStatistics_new_def)
  show ?thesis
    using overload_at_limit [OF ok(1,2), of 1] overload_at_limit [OF ok(1,2), of 2] by (simp add: ok(3) Let_def)
qed

end
