(* ===== verification/Cmd_Server.thy ===== *)
theory Cmd_Server
  imports Slowlog_Stats
begin

text \<open>
  The commands of \<open>command/server.cpp\<close> on databases, clients, time and the master address. \<open>INFO\<close>,
  \<open>CONFIG\<close>, the snapshot commands and the replication handshake are not modelled.
\<close>

definition string_tolower :: "string \<Rightarrow> string" where
  "string_tolower = map c_tolower"

definition DBSize :: "'s mmkv \<Rightarrow> ctxid \<Rightarrow> RedisCommandFrame \<Rightarrow> 's server \<Rightarrow> 's server" where
  "DBSize K c cmd s =
     (let (r, s) = kv_call K ''DBSize'' c [] s in on_reply c (fill_int_reply (kv_err r)) s)"

definition FlushDB :: "'s mmkv \<Rightarrow> ctxid \<Rightarrow> RedisCommandFrame \<Rightarrow> 's server \<Rightarrow> 's server" where
  "FlushDB K c cmd s =
     (let (r, s) = kv_call K ''FlushDB'' c [] s
      in if kv_err r \<ge> 0 then on_reply c fill_ok_reply s else FillErrorReply K c (kv_err r) s)"

text \<open>\<open>FlushAll\<close> takes no database; the engine is called on the first one.\<close>

definition FlushAll :: "'s mmkv \<Rightarrow> ctxid \<Rightarrow> RedisCommandFrame \<Rightarrow> 's server \<Rightarrow> 's server" where
  "FlushAll K c cmd s =
     (let (r, st) = kv_exec K ''FlushAll'' 0 [] (m_kv_store s);
          s = s\<lparr>m_kv_store := st\<rparr>
      in if kv_err r \<ge> 0 then on_reply c fill_ok_reply s else FillErrorReply K c (kv_err r) s)"

definition Time :: "ctxid \<Rightarrow> RedisCommandFrame \<Rightarrow> 's server \<Rightarrow> 's server" where
  "Time c cmd s =
     (let (micros, s) = read_clock s
      in on_reply c (\<lambda>rep. AddMember True (fill_int_reply (int (micros mod 1000000)) reply_new)
           (AddMember True (fill_int_reply (int (micros div 1000000)) reply_new) rep)) s)"

lemma database_cmds_data [data_intros]:
  "data_step c s (DBSize K c cmd s)" "data_step c s (FlushDB K c cmd s)"
  "data_step c s (FlushAll K c cmd s)"
  by (simp_all add: DBSize_def FlushDB_def FlushAll_def split_beta Let_def data_intros)

text \<open>The options after host and port are parsed and ignored.\<close>

definition Slaveof :: "ctxid \<Rightarrow> RedisCommandFrame \<Rightarrow> 's server \<Rightarrow> 's server" where
  "Slaveof c cmd s =
     (if length (m_args cmd) mod 2 \<noteq> 0
      then on_reply c (fill_error_reply ''not enough arguments for slaveof.'') s
      else
        case string_touint32 (arg cmd 1) of
          None \<Rightarrow>
            if strcaseeq (arg cmd 0) ''no'' \<and> strcaseeq (arg cmd 1) ''one''
            then (on_reply c (fill_status_reply ''OK'') s)
                   \<lparr>m_cfg := (m_cfg s)\<lparr>master_host := [], master_port := 0\<rparr>\<rparr>
            else on_reply c (fill_error_reply ''value is not an integer or out of range'') s
        | Some port \<Rightarrow>
            on_reply c (fill_status_reply ''OK'')
              (s\<lparr>m_cfg := (m_cfg s)\<lparr>master_host := arg cmd 0, master_port := port\<rparr>\<rparr>))"

section \<open>Clients\<close>

definition client_syntax :: string where
  "client_syntax = ''Syntax error, try CLIENT (LIST | KILL ip:port | GETNAME | SETNAME connection-name | PAUSE timeout)''"

text \<open>
  \<open>CLIENT KILL\<close>: the first client with the address is closed, after its command if it is executing
  one, and by a task on its thread otherwise.
\<close>

fun client_kill :: "string \<Rightarrow> (nat \<times> ctxid) list \<Rightarrow> 's server \<Rightarrow> 's server" where
  "client_kill addr [] s = s"
| "client_kill addr ((i, b) # rest) s =
     (case client (ctx s b) of
        None \<Rightarrow> s\<lparr>fault := True\<rparr>
      | Some ch \<Rightarrow>
          if remote_address s ch = addr
          then if processing (ctx s b) then upd_ctx b (\<lambda>x. x\<lparr>close_after_processed := True\<rparr>) s
               else s\<lparr>close_queue := close_queue s @ [ch]\<rparr>
          else client_kill addr rest s)"

fun command_of_type ::
    "nat \<Rightarrow> (string \<times> RedisCommandHandlerSetting) list \<Rightarrow> string" where
  "command_of_type t [] = []"
| "command_of_type t ((k, st) # rest) = (if setting_type st = t then k else command_of_type t rest)"

definition seconds_since :: "nat \<Rightarrow> nat \<Rightarrow> nat" where
  "seconds_since now t = (if now \<le> t then 0 else now - t) div 1000000"

definition client_line :: "nat \<Rightarrow> 's server \<Rightarrow> nat \<times> ctxid \<Rightarrow> string" where
  "client_line now s p =
     (let x = ctx s (snd p); ch = (case client x of None \<Rightarrow> 0 | Some ch \<Rightarrow> ch)
      in ''id='' @ stringfromll (int (fst p)) @ '' '' @ ''addr='' @ remote_address s ch @ '' ''
       @ ''fd='' @ stringfromll (read_fd s ch) @ '' '' @ ''name='' @ ctx_name x @ '' ''
       @ ''age='' @ stringfromll (int (seconds_since now (born_time x))) @ '' ''
       @ ''idle='' @ stringfromll (int (seconds_since now (last_interaction_ustime x))) @ '' ''
       @ ''db='' @ stringfromll (int (currentDB x)) @ '' ''
       @ ''cmd='' @ command_of_type (current_cmd_type x) (m_settings s))"

fun join_lines :: "string list \<Rightarrow> string" where
  "join_lines [] = []"
| "join_lines [l] = l"
| "join_lines (l # ls) = l @ [CHR 0x0a] @ join_lines ls"

definition client_list :: "nat \<Rightarrow> 's server \<Rightarrow> string" where
  "client_list now s =
     join_lines (map (client_line now s) (m_clients s))"

definition Client :: "ctxid \<Rightarrow> RedisCommandFrame \<Rightarrow> 's server \<Rightarrow> 's server" where
  "Client c cmd s =
     (let subcmd = string_tolower (arg cmd 0)
      in if subcmd = ''setname''
         then if length (m_args cmd) \<noteq> 2 then on_reply c (fill_error_reply client_syntax) s
              else on_reply c (fill_status_reply ''OK'') (upd_ctx c (\<lambda>x. x\<lparr>ctx_name := arg cmd 1\<rparr>) s)
         else if subcmd = ''getname''
         then if length (m_args cmd) \<noteq> 1 then on_reply c (fill_error_reply client_syntax) s
              else if ctx_name (ctx s c) = [] then on_reply c (set_type REDIS_REPLY_NIL) s
              else on_reply c (fill_str_reply (ctx_name (ctx s c))) s
         else if subcmd = ''pause'' then on_reply c (fill_error_reply ''NOT supported now'') s
         else if subcmd = ''kill''
         then if length (m_args cmd) \<noteq> 2 then on_reply c (fill_error_reply client_syntax) s
              else on_reply c (fill_status_reply ''OK'') (client_kill (arg cmd 1) (m_clients s) s)
         else if subcmd = ''list''
         then let (now, s) = read_clock s;
                  s = (if \<exists>p \<in> set (m_clients s). client (ctx s (snd p)) = None
                       then s\<lparr>fault := True\<rparr> else s)
              in on_reply c (\<lambda>r. set_type REDIS_REPLY_STRING (set_str (reply_str r @ client_list now s) r)) s
         else on_reply c (fill_error_reply
                ''CLIENT subcommand must be one of LIST, GETNAME, SETNAME, KILL, PAUSE'') s)"

end
