(* ===== verification/Dispatch.thy ===== *)
theory Dispatch
  imports Transactions Cmd_Zsets Pubsub Cmd_Server
begin

text \<open>
  The dispatcher of \<open>comms.cpp\<close>: the command table, \<open>DoCall\<close> and \<open>Call\<close>, and the life of a client
  context. The handlers that are not modelled (scripting, snapshots, replication handshake, \<open>INFO\<close>,
  \<open>CONFIG\<close>, \<open>SHUTDOWN\<close>, \<open>GEOSEARCH\<close>) are the parameter \<open>other_handler\<close>.
\<close>

section \<open>The command table\<close>

definition entry :: "string \<Rightarrow> nat \<Rightarrow> string \<Rightarrow> int \<Rightarrow> int \<Rightarrow> string \<Rightarrow> RedisCommandHandlerSetting" where
  "entry n t h mn mx fl = \<lparr>setting_name = n, setting_type = t, setting_handler = h, min_arity = mn,
     max_arity = mx, sflags = fl, setting_flags = 0, microseconds = 0, calls = 0, max_latency = 0\<rparr>"

definition settingTable1 :: "RedisCommandHandlerSetting list" where
  "settingTable1 =
   [entry ''ping'' 1 ''Ping'' 0 0 ''r'',
    entry ''multi'' 2 ''Multi'' 0 0 ''rs'',
    entry ''discard'' 148 ''Discard'' 0 0 ''r'',
    entry ''exec'' 3 ''Exec'' 0 0 ''r'',
    entry ''watch'' 4 ''Watch'' 0 (- 1) ''rs'',
    entry ''unwatch'' 5 ''UnWatch'' 0 0 ''rs'',
    entry ''subscribe'' 6 ''Subscribe'' 1 (- 1) ''pr'',
    entry ''psubscribe'' 9 ''PSubscribe'' 1 (- 1) ''pr'',
    entry ''unsubscribe'' 7 ''UnSubscribe'' 0 (- 1) ''pr'',
    entry ''punsubscribe'' 149 ''PUnSubscribe'' 0 (- 1) ''pr'',
    entry ''publish'' 10 ''Publish'' 2 2 ''pr'',
    entry ''info'' 11 ''Info'' 0 1 ''r'',
    entry ''save'' 12 ''Save'' 0 1 ''ars'',
    entry ''bgsave'' 13 ''BGSave'' 0 1 ''ar'',
    entry ''import'' 8 ''Import'' 0 1 ''ars'',
    entry ''lastsave'' 14 ''LastSave'' 0 0 ''r'',
    entry ''slowlog'' 15 ''SlowLog'' 1 2 ''r'',
    entry ''dbsize'' 16 ''DBSize'' 0 0 ''r'',
    entry ''config'' 17 ''Config'' 1 3 ''ar'',
    entry ''client'' 18 ''Client'' 1 3 ''ar'',
    entry ''flushdb'' 19 ''FlushDB'' 0 0 ''w'',
    entry ''flushall'' 20 ''FlushAll'' 0 0 ''w'',
    entry ''time'' 23 ''Time'' 0 0 ''ar'',
    entry ''echo'' 24 ''Echo'' 1 1 ''r'',
    entry ''quit'' 25 ''Quit'' 0 0 ''rs'',
    entry ''shutdown'' 26 ''Shutdown'' 0 1 ''ar'',
    entry ''slaveof'' 27 ''Slaveof'' 2 (- 1) ''as'',
    entry ''replconf'' 28 ''ReplConf'' 0 (- 1) ''ars'',
    entry ''sync'' 29 ''Sync'' 0 2 ''ars'',
    entry ''psync'' 30 ''PSync'' 2 4 ''ars'',
    entry ''apsync'' 30 ''PSync'' 2 (- 1) ''ars'',
    entry ''select'' 31 ''Select'' 1 1 ''r'',
    entry ''append'' 32 ''Append'' 2 2 ''w'',
    entry ''get'' 33 ''Get'' 1 1 ''r'',
    entry ''set'' 34 ''Set'' 2 7 ''w'',
    entry ''del'' 35 ''Del'' 1 (- 1) ''w'',
    entry ''exists'' 36 ''Exists'' 1 1 ''r'',
    entry ''expire'' 37 ''Expire'' 2 2 ''w'',
    entry ''pexpire'' 38 ''PExpire'' 2 2 ''w'',
    entry ''expireat'' 39 ''Expireat'' 2 2 ''w'']"

definition settingTable2 :: "RedisCommandHandlerSetting list" where
  "settingTable2 =
   [entry ''pexpireat'' 40 ''PExpireat'' 2 2 ''w'',
    entry ''persist'' 42 ''Persist'' 1 1 ''w'',
    entry ''ttl'' 43 ''TTL'' 1 1 ''r'',
    entry ''pttl'' 44 ''PTTL'' 1 1 ''r'',
    entry ''type'' 45 ''Type'' 1 1 ''r'',
    entry ''bitcount'' 46 ''Bitcount'' 1 3 ''r'',
    entry ''bitop'' 47 ''Bitop'' 3 (- 1) ''w'',
    entry ''decr'' 49 ''Decr'' 1 1 ''w'',
    entry ''decrby'' 50 ''Decrby'' 2 2 ''w'',
    entry ''getbit'' 51 ''GetBit'' 2 2 ''r'',
    entry ''getrange'' 52 ''GetRange'' 3 3 ''r'',
    entry ''substr'' 52 ''GetRange'' 3 3 ''r'',
    entry ''getset'' 53 ''GetSet'' 2 2 ''w'',
    entry ''incr'' 54 ''Incr'' 1 1 ''w'',
    entry ''incrby'' 55 ''Incrby'' 2 2 ''w'',
    entry ''incrbyfloat'' 56 ''IncrbyFloat'' 2 2 ''w'',
    entry ''mget'' 57 ''MGet'' 1 (- 1) ''w'',
    entry ''mset'' 58 ''MSet'' 2 (- 1) ''w'',
    entry ''msetnx'' 59 ''MSetNX'' 2 (- 1) ''w'',
    entry ''psetex'' 60 ''PSetEX'' 3 3 ''w'',
    entry ''setbit'' 61 ''SetBit'' 3 3 ''w'',
    entry ''bitpos'' 61 ''Bitpos'' 2 4 ''r'',
    entry ''setex'' 62 ''SetEX'' 3 3 ''w'',
    entry ''setnx'' 63 ''SetNX'' 2 2 ''w'',
    entry ''setrange'' 64 ''SetRange'' 3 3 ''w'',
    entry ''strlen'' 65 ''Strlen'' 1 1 ''r'',
    entry ''hdel'' 66 ''HDel'' 2 (- 1) ''w'',
    entry ''hexists'' 67 ''HExists'' 2 2 ''r'',
    entry ''hget'' 68 ''HGet'' 2 2 ''r'',
    entry ''hgetall'' 69 ''HGetAll'' 1 1 ''r'',
    entry ''hincrby'' 70 ''HIncrby'' 3 3 ''w'',
    entry ''hincrbyfloat'' 72 ''HIncrbyFloat'' 3 3 ''w'',
    entry ''hkeys'' 73 ''HKeys'' 1 1 ''r'',
    entry ''hlen'' 74 ''HLen'' 1 1 ''r'',
    entry ''hvals'' 75 ''HVals'' 1 1 ''r'',
    entry ''hmget'' 76 ''HMGet'' 2 (- 1) ''r'',
    entry ''hset'' 77 ''HSet'' 3 3 ''w'',
    entry ''hsetnx'' 78 ''HSetNX'' 3 3 ''w'',
    entry ''hmset'' 79 ''HMSet'' 3 (- 1) ''w'',
    entry ''hscan'' 164 ''HScan'' 2 6 ''r'']"

definition settingTable3 :: "RedisCommandHandlerSetting list" where
  "settingTable3 =
   [entry ''hstrlen'' 175 ''HStrlen'' 2 2 ''r'',
    entry ''scard'' 80 ''SCard'' 1 1 ''r'',
    entry ''sadd'' 150 ''SAdd'' 2 (- 1) ''w'',
    entry ''sdiff'' 81 ''SDiff'' 2 (- 1) ''r'',
    entry ''sdiffstore'' 83 ''SDiffStore'' 3 (- 1) ''w'',
    entry ''sinter'' 84 ''SInter'' 2 (- 1) ''r'',
    entry ''sinterstore'' 86 ''SInterStore'' 3 (- 1) ''r'',
    entry ''sismember'' 85 ''SIsMember'' 2 2 ''r'',
    entry ''smembers'' 87 ''SMembers'' 1 1 ''r'',
    entry ''smove'' 88 ''SMove'' 3 3 ''w'',
    entry ''spop'' 89 ''SPop'' 1 1 ''w'',
    entry ''srandmember'' 90 ''SRandMember'' 1 2 ''r'',
    entry ''srem'' 91 ''SRem'' 2 (- 1) ''w'',
    entry ''sunion'' 92 ''SUnion'' 2 (- 1) ''r'',
    entry ''sunionstore'' 93 ''SUnionStore'' 3 (- 1) ''r'',
    entry ''sscan'' 163 ''SScan'' 2 6 ''r'',
    entry ''zadd'' 97 ''ZAdd'' 3 (- 1) ''w'',
    entry ''zcard'' 98 ''ZCard'' 1 1 ''r'',
    entry ''zcount'' 99 ''ZCount'' 3 3 ''r'',
    entry ''zincrby'' 100 ''ZIncrby'' 3 3 ''w'',
    entry ''zrange'' 101 ''ZRange'' 3 4 ''r'',
    entry ''zrangebyscore'' 102 ''ZRangeByScore'' 3 7 ''r'',
    entry ''zrank'' 103 ''ZRank'' 2 2 ''r'',
    entry ''zrem'' 104 ''ZRem'' 2 (- 1) ''w'',
    entry ''zremrangebyrank'' 107 ''ZRemRangeByRank'' 3 3 ''w'',
    entry ''zremrangebyscore'' 108 ''ZRemRangeByScore'' 3 3 ''w'',
    entry ''zrevrange'' 109 ''ZRevRange'' 3 4 ''r'',
    entry ''zrevrangebyscore'' 110 ''ZRevRangeByScore'' 3 7 ''r'',
    entry ''zinterstore'' 111 ''ZInterStore'' 3 (- 1) ''w'',
    entry ''zunionstore'' 112 ''ZUnionStore'' 3 (- 1) ''w'',
    entry ''zrevrank'' 113 ''ZRevRank'' 2 2 ''r'',
    entry ''zscore'' 114 ''ZScore'' 2 2 ''r'',
    entry ''zscan'' 165 ''ZScan'' 2 6 ''r'',
    entry ''zlexcount'' 160 ''ZLexCount'' 3 3 ''r'',
    entry ''zrangebylex'' 161 ''ZRangeByLex'' 3 6 ''r'',
    entry ''zrevrangebylex'' 173 ''ZRangeByLex'' 3 6 ''r'',
    entry ''zremrangebylex'' 174 ''ZRemRangeByLex'' 3 3 ''w'',
    entry ''lindex'' 115 ''LIndex'' 2 2 ''r'',
    entry ''linsert'' 152 ''LInsert'' 4 4 ''w'',
    entry ''llen'' 116 ''LLen'' 1 1 ''r'']"

definition settingTable4 :: "RedisCommandHandlerSetting list" where
  "settingTable4 =
   [entry ''lpop'' 117 ''LPop'' 1 1 ''w'',
    entry ''lpush'' 118 ''LPush'' 2 (- 1) ''w'',
    entry ''lpushx'' 153 ''LPushx'' 2 2 ''w'',
    entry ''lrange'' 154 ''LRange'' 3 3 ''r'',
    entry ''lrem'' 119 ''LRem'' 3 3 ''w'',
    entry ''lset'' 155 ''LSet'' 3 3 ''w'',
    entry ''ltrim'' 120 ''LTrim'' 3 3 ''w'',
    entry ''rpop'' 121 ''RPop'' 1 1 ''w'',
    entry ''rpush'' 122 ''RPush'' 2 (- 1) ''w'',
    entry ''rpushx'' 123 ''RPushx'' 2 2 ''w'',
    entry ''rpoplpush'' 124 ''RPopLPush'' 2 2 ''w'',
    entry ''blpop'' 137 ''BLPop'' 2 (- 1) ''w'',
    entry ''brpop'' 138 ''BRPop'' 2 (- 1) ''w'',
    entry ''brpoplpush'' 139 ''BRPopLPush'' 3 3 ''w'',
    entry ''rpoplpush'' 124 ''RPopLPush'' 2 2 ''w'',
    entry ''rpoplpush'' 124 ''RPopLPush'' 2 2 ''w'',
    entry ''move'' 129 ''Move'' 2 2 ''w'',
    entry ''rename'' 130 ''Rename'' 2 2 ''w'',
    entry ''renamenx'' 132 ''RenameNX'' 2 2 ''w'',
    entry ''sort'' 133 ''Sort'' 1 (- 1) ''w'',
    entry ''keys'' 134 ''Keys'' 1 6 ''r'',
    entry ''eval'' 156 ''Eval'' 2 (- 1) ''s'',
    entry ''evalsha'' 157 ''EvalSHA'' 2 (- 1) ''s'',
    entry ''script'' 158 ''Script'' 1 (- 1) ''s'',
    entry ''randomkey'' 41 ''Randomkey'' 0 0 ''r'',
    entry ''scan'' 162 ''Scan'' 1 5 ''r'',
    entry ''geoadd'' 166 ''GeoAdd'' 5 (- 1) ''w'',
    entry ''geosearch'' 167 ''GeoSearch'' 5 (- 1) ''r'',
    entry ''auth'' 140 ''Auth'' 1 1 ''r'',
    entry ''pfadd'' 169 ''PFAdd'' 2 (- 1) ''w'',
    entry ''pfcount'' 170 ''PFCount'' 1 (- 1) ''w'',
    entry ''pfmerge'' 171 ''PFMerge'' 2 (- 1) ''w'']"

definition settingTable :: "RedisCommandHandlerSetting list" where
  "settingTable = settingTable1 @ settingTable2 @ settingTable3 @ settingTable4"

text \<open>The flags word, set from the letters of an entry.\<close>

definition COMMS_CMD_WRITE :: nat where "COMMS_CMD_WRITE = 1"
definition COMMS_CMD_READONLY :: nat where "COMMS_CMD_READONLY = 2"
definition COMMS_CMD_ADMIN :: nat where "COMMS_CMD_ADMIN = 16"
definition COMMS_CMD_PUBSUB :: nat where "COMMS_CMD_PUBSUB = 32"
definition COMMS_CMD_NOSCRIPT :: nat where "COMMS_CMD_NOSCRIPT = 64"
definition COMMS_CMD_RANDOM :: nat where "COMMS_CMD_RANDOM = 128"

definition flag_of :: "char \<Rightarrow> nat" where
  "flag_of f =
     (if f = CHR ''w'' then COMMS_CMD_WRITE else if f = CHR ''r'' then COMMS_CMD_READONLY
      else if f = CHR ''a'' then COMMS_CMD_ADMIN else if f = CHR ''p'' then COMMS_CMD_PUBSUB
      else if f = CHR ''s'' then COMMS_CMD_NOSCRIPT else if f = CHR ''R'' then COMMS_CMD_RANDOM
      else 0)"

fun parse_flags :: "string \<Rightarrow> nat \<Rightarrow> nat" where
  "parse_flags [] flags = flags"
| "parse_flags (f # fs) flags = parse_flags fs (or flags (flag_of f))"

text \<open>\<open>m_settings[key] = setting\<close>: the entry of an equal key is replaced.\<close>

fun settings_put :: "string \<Rightarrow> RedisCommandHandlerSetting
    \<Rightarrow> (string \<times> RedisCommandHandlerSetting) list \<Rightarrow> (string \<times> RedisCommandHandlerSetting) list" where
  "settings_put k st [] = [(k, st)]"
| "settings_put k st ((k', st') # rest) =
     (if RedisCommandHash k = RedisCommandHash k' \<and> RedisCommandEqual k k' then (k', st) # rest
      else (k', st') # settings_put k st rest)"

fun settings_erase :: "string \<Rightarrow> (string \<times> RedisCommandHandlerSetting) list
    \<Rightarrow> (string \<times> RedisCommandHandlerSetting) list" where
  "settings_erase k [] = []"
| "settings_erase k ((k', st') # rest) =
     (if RedisCommandHash k = RedisCommandHash k' \<and> RedisCommandEqual k k' then rest
      else (k', st') # settings_erase k rest)"

definition initial_settings :: "(string \<times> RedisCommandHandlerSetting) list" where
  "initial_settings =
     fold (\<lambda>st. settings_put (setting_name st) (st\<lparr>setting_flags := parse_flags (sflags st) 0\<rparr>))
       settingTable []"

fun rename_each :: "(string \<times> string) list \<Rightarrow> (string \<times> RedisCommandHandlerSetting) list
    \<Rightarrow> (string \<times> RedisCommandHandlerSetting) list" where
  "rename_each [] t = t"
| "rename_each ((old, new) # rest) t =
     (let cmd = string_tolower old
      in rename_each rest
           (case settings_find cmd t of
              None \<Rightarrow> t
            | Some st \<Rightarrow> settings_put new st (settings_erase cmd t)))"

definition RenameCommand :: "'s server \<Rightarrow> 's server" where
  "RenameCommand s = s\<lparr>m_settings := rename_each (rename_commands (m_cfg s)) (m_settings s)\<rparr>"

section \<open>Handlers by name\<close>

type_synonym 's handler = "ctxid \<Rightarrow> RedisCommandFrame \<Rightarrow> 's server \<Rightarrow> int \<times> 's server"

record 's libs =
  kv :: "'s mmkv"
  str_todouble :: "string \<Rightarrow> real option"
  double_str :: "real \<Rightarrow> string"
  other_handler :: "string \<Rightarrow> 's handler"

definition ret0 :: "(ctxid \<Rightarrow> RedisCommandFrame \<Rightarrow> 's server \<Rightarrow> 's server) \<Rightarrow> 's handler" where
  "ret0 f c cmd s = (0, f c cmd s)"

definition data_handlers :: "'s libs \<Rightarrow> (string \<times> 's handler) list" where
  "data_handlers E =
   [(''Ping'', ret0 Ping), (''DBSize'', ret0 (DBSize (kv E))),
    (''FlushDB'', ret0 (FlushDB (kv E))), (''FlushAll'', ret0 (FlushAll (kv E))),
    (''Echo'', ret0 Echo), (''Append'', ret0 (Append (kv E))), (''Get'', ret0 (Get (kv E))),
    (''Set'', ret0 (Set (kv E))), (''Del'', ret0 (Del (kv E))),
    (''Exists'', ret0 (Exists (kv E))), (''Expire'', ret0 (Expire (kv E))),
    (''PExpire'', ret0 (PExpire (kv E))), (''Expireat'', ret0 (Expireat (kv E))),
    (''PExpireat'', ret0 (PExpireat (kv E))), (''Persist'', ret0 (Persist (kv E))),
    (''TTL'', ret0 (TTL (kv E))), (''PTTL'', ret0 (PTTL (kv E))), (''Type'', ret0 (Type (kv E))),
    (''Bitcount'', ret0 (Bitcount (kv E))), (''Bitop'', ret0 (Bitop (kv E))),
    (''Decr'', ret0 (Decr (kv E))), (''Decrby'', ret0 (Decrby (kv E))),
    (''GetBit'', ret0 (GetBit (kv E))), (''GetRange'', ret0 (GetRange (kv E))),
    (''GetSet'', ret0 (GetSet (kv E))), (''Incr'', ret0 (Incr (kv E))),
    (''Incrby'', ret0 (Incrby (kv E))),
    (''IncrbyFloat'', ret0 (IncrbyFloat (str_todouble E) (double_str E) (kv E))),
    (''MGet'', ret0 (MGet (kv E))), (''MSet'', ret0 (MSet (kv E))),
    (''MSetNX'', ret0 (MSetNX (kv E))), (''PSetEX'', ret0 (PSetEX (kv E))),
    (''SetBit'', ret0 (SetBit (kv E))), (''Bitpos'', ret0 (Bitpos (kv E))),
    (''SetEX'', ret0 (SetEX (kv E))), (''SetNX'', ret0 (SetNX (kv E))),
    (''SetRange'', ret0 (SetRange (kv E))), (''Strlen'', ret0 (Strlen (kv E))),
    (''HDel'', ret0 (HDel (kv E))), (''HExists'', ret0 (HExists (kv E))),
    (''HGet'', ret0 (HGet (kv E))), (''HGetAll'', ret0 (HGetAll (kv E))),
    (''HIncrby'', ret0 (HIncrby (kv E))),
    (''HIncrbyFloat'', ret0 (HIncrbyFloat (str_todouble E) (double_str E) (kv E))),
    (''HKeys'', ret0 (HKeys (kv E))), (''HLen'', ret0 (HLen (kv E))),
    (''HVals'', ret0 (HVals (kv E))), (''HMGet'', ret0 (HMGet (kv E))),
    (''HSet'', ret0 (HSet (kv E))), (''HSetNX'', ret0 (HSetNX (kv E))),
    (''HMSet'', ret0 (HMSet (kv E))), (''HScan'', ret0 (HScan (kv E))),
    (''HStrlen'', ret0 (HStrlen (kv E))), (''SCard'', ret0 (SCard (kv E))),
    (''SAdd'', ret0 (SAdd (kv E))), (''SDiff'', ret0 (SDiff (kv E))),
    (''SDiffStore'', ret0 (SDiffStore (kv E))), (''SInter'', ret0 (SInter (kv E))),
    (''SInterStore'', ret0 (SInterStore (kv E))), (''SIsMember'', ret0 (SIsMember (kv E))),
    (''SMembers'', ret0 (SMembers (kv E))), (''SMove'', ret0 (SMove (kv E))),
    (''SPop'', ret0 (SPop (kv E))), (''SRandMember'', ret0 (SRandMember (kv E))),
    (''SRem'', ret0 (SRem (kv E))), (''SUnion'', ret0 (SUnion (kv E))),
    (''SUnionStore'', ret0 (SUnionStore (kv E))), (''SScan'', ret0 (SScan (kv E))),
    (''ZAdd'', ret0 (ZAdd (str_todouble E) (kv E))), (''ZCard'', ret0 (ZCard (kv E))),
    (''ZCount'', ret0 (ZCount (kv E))), (''ZIncrby'', ret0 (ZIncrby (str_todouble E) (kv E))),
    (''ZRange'', ret0 (ZRange (kv E))), (''ZRangeByScore'', ret0 (ZRangeByScore (kv E))),
    (''ZRank'', ret0 (ZRank (kv E))), (''ZRem'', ret0 (ZRem (kv E))),
    (''ZRemRangeByRank'', ret0 (ZRemRangeByRank (kv E))),
    (''ZRemRangeByScore'', ret0 (ZRemRangeByScore (kv E))),
    (''ZRevRange'', ret0 (ZRevRange (kv E))),
    (''ZRevRangeByScore'', ret0 (ZRevRangeByScore (kv E))),
    (''ZInterStore'', ret0 (ZInterStore (kv E))), (''ZUnionStore'', ret0 (ZUnionStore (kv E))),
    (''ZRevRank'', ret0 (ZRevRank (kv E))), (''ZScore'', ret0 (ZScore (kv E))),
    (''ZScan'', ret0 (ZScan (kv E))), (''ZLexCount'', ret0 (ZLexCount (kv E))),
    (''ZRangeByLex'', ret0 (ZRangeByLex (kv E))),
    (''ZRemRangeByLex'', ret0 (ZRemRangeByLex (kv E))), (''LIndex'', ret0 (LIndex (kv E))),
    (''LInsert'', ret0 (LInsert (kv E))), (''LLen'', ret0 (LLen (kv E))),
    (''LPop'', ret0 (LPop (kv E))), (''LPush'', ret0 (LPush (kv E))),
    (''LPushx'', ret0 (LPushx (kv E))), (''LRange'', ret0 (LRange (kv E))),
    (''LRem'', ret0 (LRem (kv E))), (''LSet'', ret0 (LSet (kv E))),
    (''LTrim'', ret0 (LTrim (kv E))), (''RPop'', ret0 (RPop (kv E))),
    (''RPush'', ret0 (RPush (kv E))), (''RPushx'', ret0 (RPushx (kv E))),
    (''RPopLPush'', ret0 (RPopLPush (kv E))), (''Move'', ret0 (Move (kv E))),
    (''Rename'', ret0 (Rename (kv E))), (''RenameNX'', ret0 (RenameNX (kv E))),
    (''Sort'', ret0 (Sort (kv E))), (''Keys'', ret0 (Keys (kv E))),
    (''Randomkey'', ret0 (Randomkey (kv E))), (''Scan'', ret0 (Scan (kv E))),
    (''GeoAdd'', ret0 (GeoAdd (str_todouble E) (kv E))), (''PFAdd'', ret0 (PFAdd (kv E))),
    (''PFCount'', ret0 (PFCount (kv E))), (''PFMerge'', ret0 (PFMerge (kv E)))]"

definition control_handlers :: "'s libs \<Rightarrow> 's docall \<Rightarrow> (string \<times> 's handler) list" where
  "control_handlers E docall =
   [(''Multi'', ret0 Multi), (''Discard'', ret0 Discard), (''Exec'', ret0 (Exec docall)),
    (''Watch'', ret0 Watch), (''UnWatch'', ret0 UnWatch), (''Subscribe'', ret0 Subscribe),
    (''PSubscribe'', ret0 PSubscribe), (''UnSubscribe'', ret0 UnSubscribe),
    (''PUnSubscribe'', ret0 PUnSubscribe), (''Publish'', ret0 Publish),
    (''SlowLog'', ret0 SlowLog), (''Client'', ret0 Client), (''Time'', ret0 Time),
    (''Quit'', Quit), (''Slaveof'', ret0 Slaveof), (''Select'', ret0 Select),
    (''BLPop'', ret0 (BLPop (kv E))), (''BRPop'', ret0 (BRPop (kv E))),
    (''BRPopLPush'', ret0 (BRPopLPush (kv E))), (''Auth'', ret0 Auth)]"

definition run_handler :: "'s libs \<Rightarrow> 's docall \<Rightarrow> string \<Rightarrow> 's handler" where
  "run_handler E docall h =
     (case map_of (control_handlers E docall) h of
        Some f \<Rightarrow> f
      | None \<Rightarrow> (case map_of (data_handlers E) h of Some f \<Rightarrow> f | None \<Rightarrow> other_handler E h))"

section \<open>Calling a handler\<close>

text \<open>
  The entry of the table is a reference in the code, so its counters are updated in the table.
\<close>

definition count_call :: "RedisCommandHandlerSetting \<Rightarrow> nat \<Rightarrow> 's server \<Rightarrow> 's server" where
  "count_call setting latency s =
     s\<lparr>m_settings := map (\<lambda>(k, st).
        (k, if setting_name st = setting_name setting
            then st\<lparr>calls := c_size (int (calls st) + 1),
                    microseconds := c_size (int (microseconds st) + int latency),
                    max_latency := max latency (max_latency st)\<rparr>
            else st)) (m_settings s)\<rparr>"

text \<open>
  \<open>DoCall\<close>. The frame \<open>args\<close> is the object \<open>current_cmd\<close> points to, so the slow log records the
  command as the handler left it.
\<close>

definition DoCall_with :: "'s libs \<Rightarrow> 's docall \<Rightarrow> 's docall" where
  "DoCall_with E docall c setting args s =
     (let (start_time, s) = read_clock s;
          s = upd_ctx c (\<lambda>x. x\<lparr>last_interaction_ustime := start_time\<rparr>) s;
          (ret, s) = run_handler E docall (setting_handler setting) c args s;
          (stop_time, s) = read_clock s;
          s = upd_ctx c (\<lambda>x. x\<lparr>last_interaction_ustime := stop_time\<rparr>) s;
          latency = c_size (int stop_time - int start_time);
          s = count_call setting latency s;
          s = TryPushSlowCommand (case current_cmd (ctx s c) of None \<Rightarrow> args | Some f \<Rightarrow> f) latency s
      in (ret, s))"

text \<open>
  \<open>EXEC\<close> calls \<open>DoCall\<close> for the queued commands. \<open>EXEC\<close> itself is never queued, so one level of
  nesting is enough; a deeper call is marked as a fault and shown not to happen.
\<close>

definition no_nesting :: "'s docall" where
  "no_nesting c setting args s = (0, s\<lparr>fault := True\<rparr>)"

fun DoCall :: "'s libs \<Rightarrow> nat \<Rightarrow> 's docall" where
  "DoCall E 0 = DoCall_with E no_nesting"
| "DoCall E (Suc d) = DoCall_with E (DoCall E d)"

definition REDIS_CMD_AUTH :: nat where "REDIS_CMD_AUTH = 140"
definition REDIS_CMD_QUIT :: nat where "REDIS_CMD_QUIT = 25"
definition REDIS_CMD_MULTI :: nat where "REDIS_CMD_MULTI = 2"
definition REDIS_CMD_EXEC :: nat where "REDIS_CMD_EXEC = 3"
definition REDIS_CMD_DISCARD :: nat where "REDIS_CMD_DISCARD = 148"
definition REDIS_CMD_SUBSCRIBE :: nat where "REDIS_CMD_SUBSCRIBE = 6"
definition REDIS_CMD_PSUBSCRIBE :: nat where "REDIS_CMD_PSUBSCRIBE = 9"
definition REDIS_CMD_UNSUBSCRIBE :: nat where "REDIS_CMD_UNSUBSCRIBE = 7"
definition REDIS_CMD_PUNSUBSCRIBE :: nat where "REDIS_CMD_PUNSUBSCRIBE = 149"

definition transc_types :: "nat list" where
  "transc_types = [REDIS_CMD_MULTI, REDIS_CMD_EXEC, REDIS_CMD_DISCARD, REDIS_CMD_QUIT]"

definition pubsub_types :: "nat list" where
  "pubsub_types = [REDIS_CMD_SUBSCRIBE, REDIS_CMD_PSUBSCRIBE, REDIS_CMD_UNSUBSCRIBE,
     REDIS_CMD_PUNSUBSCRIBE, REDIS_CMD_QUIT]"

definition valid_arity :: "RedisCommandHandlerSetting \<Rightarrow> nat \<Rightarrow> bool" where
  "valid_arity setting n \<longleftrightarrow>
     (min_arity setting > 0 \<longrightarrow> int n \<ge> min_arity setting)
     \<and> (max_arity setting \<ge> 0 \<longrightarrow> int n \<le> max_arity setting)"

definition suspend_overloaded :: "ctxid \<Rightarrow> 's server \<Rightarrow> 's server" where
  "suspend_overloaded c s =
     (case client (ctx s c) of
        None \<Rightarrow> s
      | Some ch \<Rightarrow>
          if ch \<in> set (detached s) then s
          else let s = DetachFD ch s;
                   (now, s) = read_millis s;
                   nxt = 1000 - now mod 1000
               in s\<lparr>resume_timers := resume_timers s @ [(ch, nxt)]\<rparr>)"

definition ResumeOverloadConnection_Run :: "nat \<Rightarrow> 's server \<Rightarrow> 's server" where
  "ResumeOverloadConnection_Run ch s = AttachFD ch s"

definition quoted :: "string \<Rightarrow> string" where
  "quoted t = [CHR 0x27] @ t @ [CHR 0x27]"

text \<open>The part of \<open>Call\<close> after the checks: queue the command, refuse it, or execute it.\<close>

definition admit :: "'s libs \<Rightarrow> bool \<Rightarrow> ctxid \<Rightarrow> RedisCommandHandlerSetting \<Rightarrow> RedisCommandFrame
    \<Rightarrow> 's server \<Rightarrow> int \<times> 's server" where
  "admit E nowal c setting args s =
     (if InTransc (ctx s c) \<and> setting_type setting \<notin> set transc_types
      then (0, on_reply c (fill_status_reply ''QUEUED'')
             (upd_ctx c (\<lambda>x. let t = GetTransc x
                             in x\<lparr>transc := Some (t\<lparr>cached_cmds := cached_cmds t @ [args]\<rparr>)\<rparr>) s))
      else if \<not> InTransc (ctx s c) \<and> IsSubscribedConn (ctx s c)
              \<and> setting_type setting \<notin> set pubsub_types
      then (0, on_reply c (fill_error_reply
              ''only (P)SUBSCRIBE / (P)UNSUBSCRIBE / QUIT allowed in this context'') s)
      else DoCall E 1 c setting args (upd_ctx c (\<lambda>x. x\<lparr>no_wal := nowal\<rparr>) s))"

text \<open>Entering a call: the state of the last command is cleared, the command counted.\<close>

definition begin_call :: "ctxid \<Rightarrow> RedisCommandFrame \<Rightarrow> 's server \<Rightarrow> 's server" where
  "begin_call c args s =
     (let s = upd_ctx c ClearState s;
          (err, seq, s) = IncRecvCommands (server_address (ctx s c)) s;
          s = upd_ctx c (\<lambda>x. x\<lparr>sequence := seq\<rparr>) s;
          s = (if err = ERR_OVERLOAD then suspend_overloaded c s else s)
      in upd_ctx c (\<lambda>x. x\<lparr>current_cmd := Some args, current_cmd_type := frame_type args\<rparr>) s)"

text \<open>Leaving it: a changed key puts the current command into the log.\<close>

definition log_change :: "bool \<Rightarrow> ctxid \<Rightarrow> 's server \<Rightarrow> 's server" where
  "log_change nowal c s =
     (if \<not> nowal \<and> data_change (ctx s c)
      then case current_cmd (ctx s c) of
             None \<Rightarrow> s\<lparr>fault := True\<rparr>
           | Some f \<Rightarrow> WriteWAL (currentDB (ctx s c)) f s
      else s)"

definition Call :: "'s libs \<Rightarrow> bool \<Rightarrow> ctxid \<Rightarrow> RedisCommandFrame \<Rightarrow> 's server \<Rightarrow> int \<times> 's server" where
  "Call E nowal c args s =
     (case FindRedisCommandHandlerSetting args s of
        None \<Rightarrow>
          (0, upd_ctx c (\<lambda>x. x\<lparr>close_after_processed := True\<rparr>)
                (on_reply c (fill_error_reply (''unknown command '' @ quoted (c_str (m_cmd args)))) s))
      | Some (setting, args) \<Rightarrow>
          let s = begin_call c args s
          in if \<not> authenticated (ctx s c) \<and> setting_type setting \<noteq> REDIS_CMD_AUTH
                \<and> setting_type setting \<noteq> REDIS_CMD_QUIT
             then (0, on_reply c (fill_fix_error_reply ''NOAUTH Authentication required'') s)
             else
               let (ret, s) =
                 (if \<not> valid_arity setting (length (m_args args))
                  then (0, on_reply c (fill_error_reply
                         (''wrong number of arguments for '' @ quoted (c_str (m_cmd args)) @ '' command'')) s)
                  else admit E nowal c setting args s)
               in (ret, log_change nowal c s))"

section \<open>Connections\<close>

definition FreeClientContext :: "ctxid \<Rightarrow> 's server \<Rightarrow> 's server" where
  "FreeClientContext c s =
     (let s = UnwatchKeys c s;
          s = UnsubscribeAll False c s;
          s = PUnsubscribeAll False c s;
          s = ClearBlockKeys c s
      in case client (ctx s c) of
           None \<Rightarrow> s\<lparr>fault := True\<rparr>
         | Some ch \<Rightarrow> s\<lparr>m_clients := map_erase ch (m_clients s)\<rparr>)"

definition AddClientContext :: "ctxid \<Rightarrow> 's server \<Rightarrow> 's server" where
  "AddClientContext c s =
     (case client (ctx s c) of
        None \<Rightarrow> s\<lparr>fault := True\<rparr>
      | Some ch \<Rightarrow> s\<lparr>m_clients := map_put ch c (m_clients s)\<rparr>)"

definition Channel_Close :: "nat \<Rightarrow> 's server \<Rightarrow> 's server" where
  "Channel_Close ch s = s\<lparr>closing := closing s @ [ch]\<rparr>"

text \<open>
  \<open>RedisRequestHandler::MessageReceived\<close>. The deletion of the handler while it is processing is not
  modelled.
\<close>

definition RequestReceived :: "'s libs \<Rightarrow> ctxid \<Rightarrow> nat \<Rightarrow> RedisCommandFrame \<Rightarrow> 's server \<Rightarrow> 's server" where
  "RequestReceived E c ch cmd s =
     (let s = upd_ctx c (\<lambda>x. x\<lparr>client := Some ch, processing := True, current_cmd := None\<rparr>) s;
          nowal = (master_host (m_cfg s) \<noteq> []);
          (ret, s) = Call E nowal c cmd s;
          s = (if ret \<ge> 0 \<and> reply_type (reply (ctx s c)) \<noteq> 0
               then client_write c (reply (ctx s c)) s else s)
      in if ret < 0 \<and> ch \<notin> set (closing s) then Channel_Close ch s
         else let s = upd_ctx c (\<lambda>x. x\<lparr>processing := False\<rparr>) s
              in if close_after_processed (ctx s c) then Channel_Close ch s else s)"

definition RequestChannelClosed :: "ctxid \<Rightarrow> 's server \<Rightarrow> 's server" where
  "RequestChannelClosed c s =
     (let s = FreeClientContext c s in IncAcceptedClient (server_address (ctx s c)) (- 1) s)"

text \<open>The address check: \<open>None\<close> is a read outside a pattern.\<close>

fun trusted :: "string \<Rightarrow> string list \<Rightarrow> bool option" where
  "trusted ip [] = Some False"
| "trusted ip (p # ps) =
     (case stringmatchlen p ip False of
        None \<Rightarrow> None
      | Some True \<Rightarrow> Some True
      | Some False \<Rightarrow> trusted ip ps)"

text \<open>
  \<open>RedisRequestHandler::ChannelConnected\<close> with the address of the listening socket and the remote host (none for a
  socket file).
\<close>

definition RequestChannelConnected ::
    "ctxid \<Rightarrow> nat \<Rightarrow> string \<Rightarrow> string option \<Rightarrow> 's server \<Rightarrow> 's server" where
  "RequestChannelConnected c ch addr remote s =
     (let (t1, s) = read_clock s;
          (t2, s) = read_clock s;
          s = upd_ctx c (\<lambda>x. x\<lparr>born_time := t1, last_interaction_ustime := t2, client := Some ch\<rparr>) s;
          s = (if requirepass (m_cfg s) \<noteq> [] then upd_ctx c (\<lambda>x. x\<lparr>authenticated := False\<rparr>) s else s);
          s = upd_ctx c (\<lambda>x. x\<lparr>server_address := addr\<rparr>) s;
          s = IncAcceptedClient addr 1 s;
          s = AddClientContext c s
      in case remote of
           None \<Rightarrow> s
         | Some ip \<Rightarrow>
             if trusted_ip (m_cfg s) = [] \<or> ip = ''127.0.0.1'' then s
             else case trusted ip (trusted_ip (m_cfg s)) of
                    None \<Rightarrow> s\<lparr>fault := True\<rparr>
                  | Some True \<Rightarrow> s
                  | Some False \<Rightarrow> Channel_Close ch s)"

end
