(* ===== verification/Server_Invariant.thy ===== *)
theory Server_Invariant
  imports Dispatch
begin

text \<open>
  The invariant of the whole server: the four tables and the contexts agree, the context \<open>EXEC\<close> runs
  on is registered nowhere, and no queued command registers its context. Every handler keeps it, so
  does every event, and a closed connection leaves no pointer behind.
\<close>

section \<open>The invariant\<close>

definition handler_of :: "'s server \<Rightarrow> RedisCommandFrame \<Rightarrow> string option" where
  "handler_of s f = map_option setting_handler (settings_find (m_cmd f) (m_settings s))"

definition registering :: "string list" where
  "registering = [''Watch'', ''Subscribe'', ''PSubscribe'', ''BLPop'', ''BRPop'', ''BRPopLPush'']"

definition queueable :: "string \<Rightarrow> bool" where
  "queueable h \<longleftrightarrow> h \<notin> set registering \<and> h \<noteq> ''Multi'' \<and> h \<noteq> ''Exec''"

definition queued :: "'s server \<Rightarrow> ctxid \<Rightarrow> RedisCommandFrame list" where
  "queued s c = cached_cmds (GetTransc (ctx s c))"

definition queues_ok :: "'s server \<Rightarrow> bool" where
  "queues_ok s \<longleftrightarrow> (\<forall>c. \<forall>f \<in> set (queued s c). \<forall>h. handler_of s f = Some h \<longrightarrow> queueable h)"

definition registries_ok :: "'s server \<Rightarrow> bool" where
  "registries_ok s \<longleftrightarrow> watch_reg.consistent s \<and> chan_reg.consistent s \<and> pat_reg.consistent s
     \<and> block_reg.consistent s"

definition unregistered :: "'s server \<Rightarrow> ctxid \<Rightarrow> bool" where
  "unregistered s c \<longleftrightarrow>
     watched s c = [] \<and> channels_of s c = [] \<and> patterns_of s c = [] \<and> blocked s c = []"

definition server_inv :: "'s server \<Rightarrow> bool" where
  "server_inv s \<longleftrightarrow> registries_ok s \<and> unregistered s TRANSC_CTX \<and> queues_ok s"

text \<open>What the invariant depends on.\<close>

definition view where
  "view s = (m_watched_ctx s, m_pubsub_channels s, m_pubsub_patterns s, m_block_context_table s,
     handler_of s, watched s, channels_of s, patterns_of s, blocked s, queued s)"

definition keeps :: "'s server \<Rightarrow> 's server \<Rightarrow> bool" where
  "keeps s s' \<longleftrightarrow> (server_inv s \<longrightarrow> server_inv s' \<and> handler_of s' = handler_of s)"

named_theorems keeps_intros \<open>steps that keep the invariant\<close>

lemma keepsD: "keeps s s' \<Longrightarrow> server_inv s \<Longrightarrow> server_inv s'"
  "keeps s s' \<Longrightarrow> server_inv s \<Longrightarrow> handler_of s' = handler_of s"
  by (simp_all add: keeps_def)

lemma keeps_refl [keeps_intros]: "keeps s s"
  by (simp add: keeps_def)

lemma keeps_if [keeps_intros]: "keeps s s1 \<Longrightarrow> keeps s s2 \<Longrightarrow> keeps s (if p then s1 else s2)"
  by simp

lemma keeps_option [keeps_intros]:
  "keeps s s1 \<Longrightarrow> (\<And>v. keeps s (g v)) \<Longrightarrow> keeps s (case m of None \<Rightarrow> s1 | Some v \<Rightarrow> g v)"
  by (cases m) simp_all

lemma keeps_bool [keeps_intros]:
  "keeps s s1 \<Longrightarrow> keeps s s2 \<Longrightarrow> keeps s (case b of True \<Rightarrow> s1 | False \<Rightarrow> s2)"
  by (cases b) simp_all

lemma keeps_trans: "keeps s s1 \<Longrightarrow> keeps s1 s2 \<Longrightarrow> keeps s s2"
  by (auto simp: keeps_def)

lemma view_eqD:
  assumes "view s' = view s"
  shows "m_watched_ctx s' = m_watched_ctx s" "m_pubsub_channels s' = m_pubsub_channels s"
    "m_pubsub_patterns s' = m_pubsub_patterns s" "m_block_context_table s' = m_block_context_table s"
    "handler_of s' = handler_of s" "watched s' = watched s" "channels_of s' = channels_of s"
    "patterns_of s' = patterns_of s" "blocked s' = blocked s" "queued s' = queued s"
  using assms by (simp_all add: view_def)

lemma keeps_view: "view s' = view s \<Longrightarrow> keeps s s'"
  using view_eqD [of s' s]
  by (simp add: keeps_def server_inv_def registries_ok_def unregistered_def queues_ok_def
      watch_reg.consistent_def chan_reg.consistent_def pat_reg.consistent_def
      block_reg.consistent_def)

text \<open>A context update that only drops queued commands.\<close>

lemma handler_of_ctx [simp]: "handler_of (upd_ctx c f s) = handler_of s"
  by (simp add: handler_of_def fun_eq_iff)

lemma keeps_upd:
  assumes "GetWatchKeySet (f (ctx s c)) = watched s c"
    "pubsub_channels (GetPubsub (f (ctx s c))) = channels_of s c"
    "pubsub_patterns (GetPubsub (f (ctx s c))) = patterns_of s c"
    "block_keys (GetBlockContext (f (ctx s c))) = blocked s c"
    "set (cached_cmds (GetTransc (f (ctx s c)))) \<subseteq> set (queued s c)"
  shows "keeps s (upd_ctx c f s)"
proof -
  have eq: "watched (upd_ctx c f s) = watched s" "channels_of (upd_ctx c f s) = channels_of s"
    "patterns_of (upd_ctx c f s) = patterns_of s" "blocked (upd_ctx c f s) = blocked s"
    using assms(1-4) by (auto simp: fun_eq_iff watched_def channels_of_def patterns_of_def blocked_def)
  have q: "set (queued (upd_ctx c f s) c') \<subseteq> set (queued s c')" for c'
    using assms(5) by (auto simp: queued_def)
  show ?thesis
    using q by (fastforce simp: keeps_def server_inv_def registries_ok_def unregistered_def queues_ok_def
        watch_reg.consistent_def chan_reg.consistent_def pat_reg.consistent_def
        block_reg.consistent_def eq)
qed

lemma keeps_data: "data_step c s s' \<Longrightarrow> keeps s s'"
proof (rule keeps_view)
  assume d: "data_step c s s'"
  note [simp] = data_stepD(1-4,6) [OF d] data_step_ctx(1-4) [OF d]
  show "view s' = view s"
    by (simp add: view_def fun_eq_iff handler_of_def watched_def channels_of_def patterns_of_def
        blocked_def queued_def GetWatchKeySet_def GetPubsub_def GetBlockContext_def GetTransc_def)
qed

section \<open>Registrations\<close>

text \<open>Each registering or unregistering step changes one table and the matching keys.\<close>

lemma upd_same_ctx:
  "(\<And>x. GetWatchKeySet (f x) = GetWatchKeySet x) \<Longrightarrow> watched (upd_ctx c f s) = watched s"
  "(\<And>x. GetPubsub (f x) = GetPubsub x) \<Longrightarrow> channels_of (upd_ctx c f s) = channels_of s"
  "(\<And>x. GetPubsub (f x) = GetPubsub x) \<Longrightarrow> patterns_of (upd_ctx c f s) = patterns_of s"
  "(\<And>x. block_keys (GetBlockContext (f x)) = block_keys (GetBlockContext x)) \<Longrightarrow>
     blocked (upd_ctx c f s) = blocked s"
  "(\<And>x. GetTransc (f x) = GetTransc x) \<Longrightarrow> queued (upd_ctx c f s) = queued s"
  by (auto simp: fun_eq_iff watched_def channels_of_def patterns_of_def blocked_def queued_def)

lemma table_upd_same [simp]:
  "watched (s\<lparr>m_watched_ctx := t1\<rparr>) = watched s" "watched (s\<lparr>m_pubsub_channels := t2\<rparr>) = watched s"
  "watched (s\<lparr>m_pubsub_patterns := t2\<rparr>) = watched s"
  "watched (s\<lparr>m_block_context_table := t1\<rparr>) = watched s" "watched (s\<lparr>timers := t3\<rparr>) = watched s"
  "channels_of (s\<lparr>m_watched_ctx := t1\<rparr>) = channels_of s"
  "channels_of (s\<lparr>m_pubsub_channels := t2\<rparr>) = channels_of s"
  "channels_of (s\<lparr>m_pubsub_patterns := t2\<rparr>) = channels_of s"
  "channels_of (s\<lparr>m_block_context_table := t1\<rparr>) = channels_of s" "channels_of (s\<lparr>timers := t3\<rparr>) = channels_of s"
  "patterns_of (s\<lparr>m_watched_ctx := t1\<rparr>) = patterns_of s"
  "patterns_of (s\<lparr>m_pubsub_channels := t2\<rparr>) = patterns_of s"
  "patterns_of (s\<lparr>m_pubsub_patterns := t2\<rparr>) = patterns_of s"
  "patterns_of (s\<lparr>m_block_context_table := t1\<rparr>) = patterns_of s" "patterns_of (s\<lparr>timers := t3\<rparr>) = patterns_of s"
  "blocked (s\<lparr>m_watched_ctx := t1\<rparr>) = blocked s" "blocked (s\<lparr>m_pubsub_channels := t2\<rparr>) = blocked s"
  "blocked (s\<lparr>m_pubsub_patterns := t2\<rparr>) = blocked s"
  "blocked (s\<lparr>m_block_context_table := t1\<rparr>) = blocked s" "blocked (s\<lparr>timers := t3\<rparr>) = blocked s"
  "queued (s\<lparr>m_watched_ctx := t1\<rparr>) = queued s" "queued (s\<lparr>m_pubsub_channels := t2\<rparr>) = queued s"
  "queued (s\<lparr>m_pubsub_patterns := t2\<rparr>) = queued s"
  "queued (s\<lparr>m_block_context_table := t1\<rparr>) = queued s" "queued (s\<lparr>timers := t3\<rparr>) = queued s"
  "handler_of (s\<lparr>m_watched_ctx := t1\<rparr>) = handler_of s"
  "handler_of (s\<lparr>m_pubsub_channels := t2\<rparr>) = handler_of s"
  "handler_of (s\<lparr>m_pubsub_patterns := t2\<rparr>) = handler_of s"
  "handler_of (s\<lparr>m_block_context_table := t1\<rparr>) = handler_of s" "handler_of (s\<lparr>timers := t3\<rparr>) = handler_of s"
  by (simp_all add: fun_eq_iff watched_def channels_of_def patterns_of_def blocked_def queued_def
      handler_of_def)

lemma getters_same [simp]:
  "GetPubsub (x\<lparr>watch_keys := w\<rparr>) = GetPubsub x" "GetPubsub (ClearWatchKeySet x) = GetPubsub x"
  "GetPubsub (x\<lparr>block := b\<rparr>) = GetPubsub x" "GetPubsub (ClearBlockContext x) = GetPubsub x"
  "GetBlockContext (x\<lparr>watch_keys := w\<rparr>) = GetBlockContext x"
  "GetBlockContext (ClearWatchKeySet x) = GetBlockContext x"
  "GetBlockContext (x\<lparr>pubsub := p\<rparr>) = GetBlockContext x"
  "GetTransc (x\<lparr>watch_keys := w\<rparr>) = GetTransc x" "GetTransc (ClearWatchKeySet x) = GetTransc x"
  "GetTransc (x\<lparr>block := b\<rparr>) = GetTransc x" "GetTransc (ClearBlockContext x) = GetTransc x"
  "GetTransc (x\<lparr>pubsub := p\<rparr>) = GetTransc x"
  "GetWatchKeySet (x\<lparr>block := b\<rparr>) = GetWatchKeySet x"
  "GetWatchKeySet (ClearBlockContext x) = GetWatchKeySet x"
  "GetWatchKeySet (x\<lparr>pubsub := p\<rparr>) = GetWatchKeySet x"
  by (simp_all add: GetPubsub_def GetBlockContext_def GetTransc_def GetWatchKeySet_def
      ClearWatchKeySet_def ClearBlockContext_def)

definition same_but_watch where
  "same_but_watch s' s \<longleftrightarrow> m_pubsub_channels s' = m_pubsub_channels s
     \<and> m_pubsub_patterns s' = m_pubsub_patterns s \<and> m_block_context_table s' = m_block_context_table s
     \<and> handler_of s' = handler_of s \<and> channels_of s' = channels_of s \<and> patterns_of s' = patterns_of s
     \<and> blocked s' = blocked s \<and> queued s' = queued s"

definition same_but_block where
  "same_but_block s' s \<longleftrightarrow> m_watched_ctx s' = m_watched_ctx s
     \<and> m_pubsub_channels s' = m_pubsub_channels s \<and> m_pubsub_patterns s' = m_pubsub_patterns s
     \<and> handler_of s' = handler_of s \<and> channels_of s' = channels_of s \<and> patterns_of s' = patterns_of s
     \<and> watched s' = watched s \<and> queued s' = queued s"

definition same_but_channels where
  "same_but_channels s' s \<longleftrightarrow> m_watched_ctx s' = m_watched_ctx s
     \<and> m_pubsub_patterns s' = m_pubsub_patterns s \<and> m_block_context_table s' = m_block_context_table s
     \<and> handler_of s' = handler_of s \<and> patterns_of s' = patterns_of s
     \<and> watched s' = watched s \<and> blocked s' = blocked s \<and> queued s' = queued s"

definition same_but_patterns where
  "same_but_patterns s' s \<longleftrightarrow> m_watched_ctx s' = m_watched_ctx s
     \<and> m_pubsub_channels s' = m_pubsub_channels s \<and> m_block_context_table s' = m_block_context_table s
     \<and> handler_of s' = handler_of s \<and> channels_of s' = channels_of s
     \<and> watched s' = watched s \<and> blocked s' = blocked s \<and> queued s' = queued s"

lemmas inv_defs = server_inv_def registries_ok_def unregistered_def queues_ok_def

lemma keeps_watch:
  "same_but_watch s' s \<Longrightarrow> (watch_reg.consistent s \<Longrightarrow> watch_reg.consistent s')
   \<Longrightarrow> (watched s TRANSC_CTX = [] \<Longrightarrow> watched s' TRANSC_CTX = []) \<Longrightarrow> keeps s s'"
  by (auto simp: keeps_def inv_defs same_but_watch_def chan_reg.consistent_def
      pat_reg.consistent_def block_reg.consistent_def)

lemma keeps_block:
  "same_but_block s' s \<Longrightarrow> (block_reg.consistent s \<Longrightarrow> block_reg.consistent s')
   \<Longrightarrow> (blocked s TRANSC_CTX = [] \<Longrightarrow> blocked s' TRANSC_CTX = []) \<Longrightarrow> keeps s s'"
  by (auto simp: keeps_def inv_defs same_but_block_def chan_reg.consistent_def
      pat_reg.consistent_def watch_reg.consistent_def)

lemma keeps_channels:
  "same_but_channels s' s \<Longrightarrow> (chan_reg.consistent s \<Longrightarrow> chan_reg.consistent s')
   \<Longrightarrow> (channels_of s TRANSC_CTX = [] \<Longrightarrow> channels_of s' TRANSC_CTX = []) \<Longrightarrow> keeps s s'"
  by (auto simp: keeps_def inv_defs same_but_channels_def block_reg.consistent_def
      pat_reg.consistent_def watch_reg.consistent_def)

lemma keeps_patterns:
  "same_but_patterns s' s \<Longrightarrow> (pat_reg.consistent s \<Longrightarrow> pat_reg.consistent s')
   \<Longrightarrow> (patterns_of s TRANSC_CTX = [] \<Longrightarrow> patterns_of s' TRANSC_CTX = []) \<Longrightarrow> keeps s s'"
  by (auto simp: keeps_def inv_defs same_but_patterns_def block_reg.consistent_def
      chan_reg.consistent_def watch_reg.consistent_def)

lemma same_watch_one: "same_but_watch (watch_one c k s) s"
  by (simp add: same_but_watch_def watch_one_def Let_def upd_same_ctx)

lemma same_UnwatchKeys: "same_but_watch (UnwatchKeys c s) s"
  by (simp add: same_but_watch_def UnwatchKeys_def Let_def upd_same_ctx split: option.split)

lemma same_AddBlockKey: "same_but_block (AddBlockKey_key c k s) s"
  by (simp add: same_but_block_def AddBlockKey_key_def Let_def upd_same_ctx)

lemma same_ClearBlockKeys: "same_but_block (ClearBlockKeys c s) s"
  by (simp add: same_but_block_def ClearBlockKeys_def Let_def upd_same_ctx split: option.split)

lemma notify_same [simp]:
  "watched (notify_client c kind n s) = watched s" "channels_of (notify_client c kind n s) = channels_of s"
  "patterns_of (notify_client c kind n s) = patterns_of s" "blocked (notify_client c kind n s) = blocked s"
  "queued (notify_client c kind n s) = queued s" "handler_of (notify_client c kind n s) = handler_of s"
  by (simp_all add: fun_eq_iff watched_def channels_of_def patterns_of_def blocked_def queued_def
      handler_of_def notify_client_def client_write_def split: option.split)

lemma pubsub_same:
  "(\<And>p. pubsub_patterns (g p) = pubsub_patterns p) \<Longrightarrow> patterns_of (on_pubsub c g s) = patterns_of s"
  "(\<And>p. pubsub_channels (g p) = pubsub_channels p) \<Longrightarrow> channels_of (on_pubsub c g s) = channels_of s"
  "watched (on_pubsub c g s) = watched s" "blocked (on_pubsub c g s) = blocked s"
  "queued (on_pubsub c g s) = queued s" "handler_of (on_pubsub c g s) = handler_of s"
  "m_watched_ctx (on_pubsub c g s) = m_watched_ctx s"
  "m_pubsub_channels (on_pubsub c g s) = m_pubsub_channels s"
  "m_pubsub_patterns (on_pubsub c g s) = m_pubsub_patterns s"
  "m_block_context_table (on_pubsub c g s) = m_block_context_table s"
  by (auto simp: on_pubsub_def upd_same_ctx channels_of_def patterns_of_def fun_eq_iff)

lemma same_channels:
  "same_but_channels (SubscribeChannel n c k s) s"
  "same_but_channels (snd (UnsubscribeChannel n c k s)) s"
  by (simp_all add: same_but_channels_def SubscribeChannel_def UnsubscribeChannel_def Let_def pubsub_same)

lemma same_patterns:
  "same_but_patterns (PSubscribeChannel n c k s) s"
  "same_but_patterns (snd (PUnsubscribeChannel n c k s)) s"
  by (simp_all add: same_but_patterns_def PSubscribeChannel_def PUnsubscribeChannel_def Let_def pubsub_same)

lemma keeps_register:
  assumes "c \<noteq> TRANSC_CTX"
  shows "keeps s (watch_one c wk s)" "keeps s (AddBlockKey_key c wk s)"
    "keeps s (SubscribeChannel n c k s)" "keeps s (PSubscribeChannel n c k s)"
proof -
  show "keeps s (watch_one c wk s)"
    using assms by (intro keeps_watch same_watch_one watch_reg.consistent_add) (auto simp: watch_reg.keys_add)
  show "keeps s (AddBlockKey_key c wk s)"
    using assms by (intro keeps_block same_AddBlockKey block_reg.consistent_add) (auto simp: block_reg.keys_add)
  show "keeps s (SubscribeChannel n c k s)"
    using assms by (cases n; intro keeps_channels same_channels; simp add: chan_reg.consistent_add
        chan_note.consistent_add chan_reg.keys_add chan_note.keys_add)
  show "keeps s (PSubscribeChannel n c k s)"
    using assms by (cases n; intro keeps_patterns same_patterns; simp add: pat_reg.consistent_add
        pat_note.consistent_add pat_reg.keys_add pat_note.keys_add)
qed

lemma keeps_unregister:
  "keeps s (UnwatchKeys c s)" "keeps s (ClearBlockKeys c s)"
  "keeps s (snd (UnsubscribeChannel n c k s))" "keeps s (snd (PUnsubscribeChannel n c k s))"
proof -
  show "keeps s (UnwatchKeys c s)"
    by (intro keeps_watch same_UnwatchKeys watch_reg.consistent_clear) (auto simp: watch_reg.keys_clear)
  show "keeps s (ClearBlockKeys c s)"
    by (intro keeps_block same_ClearBlockKeys block_reg.consistent_clear) (auto simp: block_reg.keys_clear)
  have e: "set_erase k [] = []" by (simp add: set_erase_def)
  note d = chan_reg.consistent_del [of s c k, unfolded drop_channel_def] chan_note.consistent_del [of s c k]
    pat_reg.consistent_del [of s c k, unfolded drop_pattern_def] pat_note.consistent_del [of s c k]
  note u = chan_reg.keys_del [of c k s TRANSC_CTX, unfolded drop_channel_def]
    chan_note.keys_del [of c k s TRANSC_CTX]
    pat_reg.keys_del [of c k s TRANSC_CTX, unfolded drop_pattern_def] pat_note.keys_del [of c k s TRANSC_CTX]
  show "keeps s (snd (UnsubscribeChannel n c k s))"
    by (cases n; rule keeps_channels [OF same_channels(2)]) (use d u e in auto)
  show "keeps s (snd (PUnsubscribeChannel n c k s))"
    by (cases n; rule keeps_patterns [OF same_patterns(2)]) (use d u e in auto)
qed

section \<open>Steps outside the registries\<close>

lemma keeps_upd_same:
  assumes "keeps s s1"
    and "\<And>x. GetWatchKeySet (f x) = GetWatchKeySet x" "\<And>x. GetPubsub (f x) = GetPubsub x"
    "\<And>x. block_keys (GetBlockContext (f x)) = block_keys (GetBlockContext x)"
    "\<And>x. GetTransc (f x) = GetTransc x"
  shows "keeps s (upd_ctx c f s1)"
  by (rule keeps_trans [OF assms(1)], rule keeps_upd)
    (simp_all add: assms(2-) watched_def channels_of_def patterns_of_def blocked_def queued_def)

lemmas getter_defs = GetWatchKeySet_def GetPubsub_def GetBlockContext_def GetTransc_def

lemma keeps_context_fields [keeps_intros]:
  assumes "keeps s s1"
  shows "keeps s (upd_ctx c (\<lambda>x. x\<lparr>last_interaction_ustime := t\<rparr>) s1)"
    "keeps s (upd_ctx c (\<lambda>x. x\<lparr>no_wal := b\<rparr>) s1)" "keeps s (upd_ctx c (\<lambda>x. x\<lparr>sequence := n\<rparr>) s1)"
    "keeps s (upd_ctx c (\<lambda>x. x\<lparr>close_after_processed := b\<rparr>) s1)"
    "keeps s (upd_ctx c (\<lambda>x. x\<lparr>processing := b\<rparr>) s1)" "keeps s (upd_ctx c ClearState s1)"
    "keeps s (upd_ctx c (\<lambda>x. x\<lparr>current_cmd := f, current_cmd_type := n\<rparr>) s1)"
    "keeps s (upd_ctx c (\<lambda>x. x\<lparr>client := ch, processing := b, current_cmd := f\<rparr>) s1)"
    "keeps s (upd_ctx c (\<lambda>x. x\<lparr>born_time := t, last_interaction_ustime := u, client := ch\<rparr>) s1)"
    "keeps s (upd_ctx c (\<lambda>x. x\<lparr>authenticated := b\<rparr>) s1)" "keeps s (upd_ctx c (\<lambda>x. x\<lparr>server_address := a\<rparr>) s1)"
    "keeps s (upd_ctx c (\<lambda>x. x\<lparr>currentDB := d\<rparr>) s1)" "keeps s (upd_ctx c (\<lambda>x. x\<lparr>ctx_name := a\<rparr>) s1)"
    "keeps s (upd_ctx c (\<lambda>x. x\<lparr>reply := g (reply x), data_change := b, current_cmd := f\<rparr>) s1)"
    "keeps s (on_reply c g s1)"
  by (auto intro!: keeps_upd_same [OF assms] simp: getter_defs ClearState_def on_reply_def)

lemma keeps_block_fields [keeps_intros]:
  assumes "keeps s s1"
  shows "keeps s (upd_ctx c (\<lambda>x. x\<lparr>block := Some ((GetBlockContext x)\<lparr>lpop := b\<rparr>)\<rparr>) s1)"
    "keeps s (upd_ctx c (\<lambda>x. x\<lparr>block := Some ((GetBlockContext x)\<lparr>lpop := b, push_key := k\<rparr>)\<rparr>) s1)"
    "keeps s (upd_ctx c (\<lambda>x. x\<lparr>block := Some (GetBlockContext x)\<rparr>) s1)"
    "keeps s (upd_ctx c (\<lambda>x. x\<lparr>block := map_option (\<lambda>b. b\<lparr>blocking_timer_task_id := t\<rparr>) (block x)\<rparr>) s1)"
  by (auto intro!: keeps_upd_same [OF assms] simp: getter_defs split: option.split)

lemma view_outside [simp]:
  "view (s\<lparr>outbox := x1\<rparr>) = view s" "view (s\<lparr>wal_queue := x2\<rparr>) = view s"
  "view (s\<lparr>wake_queue := x3\<rparr>) = view s" "view (s\<lparr>async_queue := x4\<rparr>) = view s"
  "view (s\<lparr>detached := x5\<rparr>) = view s" "view (s\<lparr>timers := x6\<rparr>) = view s"
  "view (s\<lparr>next_timer := x7\<rparr>) = view s" "view (s\<lparr>resume_timers := x8\<rparr>) = view s"
  "view (s\<lparr>closing := x9\<rparr>) = view s" "view (s\<lparr>close_queue := x10\<rparr>) = view s"
  "view (s\<lparr>clock_reads := x11\<rparr>) = view s" "view (s\<lparr>fault := x12\<rparr>) = view s"
  "view (s\<lparr>m_stat := x13\<rparr>) = view s" "view (s\<lparr>m_clients := x14\<rparr>) = view s"
  "view (s\<lparr>m_cfg := x15\<rparr>) = view s" "view (s\<lparr>g_slowlog_queue := x16\<rparr>) = view s"
  "view (s\<lparr>kSlowlogIDSeed := x17\<rparr>) = view s" "view (s\<lparr>m_kv_store := x18\<rparr>) = view s"
  "view (s\<lparr>m_ops_sec_last_sample_time := x19\<rparr>) = view s"
  by (simp_all add: view_def fun_eq_iff handler_of_def watched_def channels_of_def patterns_of_def
      blocked_def queued_def)

lemma keeps_same_view: "keeps s s1 \<Longrightarrow> view s2 = view s1 \<Longrightarrow> keeps s s2"
  by (erule keeps_trans) (rule keeps_view)

lemma settings_find_map:
  "(\<And>p. p \<in> set t \<Longrightarrow> fst (g p) = fst p \<and> setting_handler (snd (g p)) = setting_handler (snd p)) \<Longrightarrow>
   map_option setting_handler (settings_find n (map g t)) =
   map_option setting_handler (settings_find n t)"
proof (induction n t rule: settings_find.induct)
  case (2 cmd k st rest)
  then show ?case by (cases "g (k, st)") fastforce
qed simp

lemma view_count_call [simp]: "view (count_call setting l s) = view s"
proof -
  have "handler_of (count_call setting l s) = handler_of s"
    by (auto simp: fun_eq_iff handler_of_def count_call_def intro!: settings_find_map)
  moreover have "ctx (count_call setting l s) = ctx s" by (simp add: fun_eq_iff count_call_def)
  ultimately show ?thesis
    by (simp add: view_def fun_eq_iff watched_def channels_of_def patterns_of_def blocked_def queued_def)
      (simp add: count_call_def)
qed

lemma view_on_reply [simp]: "view (on_reply c g s) = view s"
  by (auto simp: view_def fun_eq_iff handler_of_def watched_def channels_of_def patterns_of_def
      blocked_def queued_def getter_defs)

lemma view_steps [simp]:
  "view (snd (read_clock s)) = view s" "view (WriteWAL db f s) = view s"
  "view (client_write c r s) = view s" "view (TryPushSlowCommand cmd l s) = view s"
  "view (DetachFD ch s) = view s" "view (AttachFD ch s) = view s" "view (snd (read_millis s)) = view s"
  "view (on_stat a g s) = view s" "view (Channel_Close ch s) = view s"
  "view (snd (kv_call K op c args s)) = view s" "view (FillErrorReply K c e s) = view s"
  "view (notify_client c kind nm s) = view s"
  by (simp_all add: kv_call_def FillErrorReply_def notify_client_def read_clock_def WriteWAL_def client_write_def TryPushSlowCommand_def Let_def
      DetachFD_def AttachFD_def read_millis_def on_stat_def Channel_Close_def split_beta
      split: option.split)

lemma keeps_outside [keeps_intros]:
  assumes "keeps s s1"
  shows "keeps s (s1\<lparr>outbox := x1\<rparr>)" "keeps s (s1\<lparr>wal_queue := x2\<rparr>)" "keeps s (s1\<lparr>wake_queue := x3\<rparr>)"
    "keeps s (s1\<lparr>async_queue := x4\<rparr>)" "keeps s (s1\<lparr>detached := x5\<rparr>)" "keeps s (s1\<lparr>timers := x6\<rparr>)"
    "keeps s (s1\<lparr>next_timer := x7\<rparr>)" "keeps s (s1\<lparr>resume_timers := x8\<rparr>)" "keeps s (s1\<lparr>closing := x9\<rparr>)"
    "keeps s (s1\<lparr>close_queue := x10\<rparr>)" "keeps s (s1\<lparr>fault := x12\<rparr>)" "keeps s (s1\<lparr>m_clients := x14\<rparr>)"
    "keeps s (s1\<lparr>m_cfg := x15\<rparr>)" "keeps s (s1\<lparr>g_slowlog_queue := x16\<rparr>)" "keeps s (s1\<lparr>m_kv_store := x17\<rparr>)"
    "keeps s (s1\<lparr>timers := x6, next_timer := x7\<rparr>)"
    "keeps s (snd (read_clock s1))" "keeps s (snd (read_millis s1))" "keeps s (WriteWAL db f s1)"
    "keeps s (client_write c r s1)" "keeps s (TryPushSlowCommand cmd l s1)" "keeps s (DetachFD ch s1)"
    "keeps s (AttachFD ch s1)" "keeps s (on_stat a g s1)" "keeps s (Channel_Close ch s1)"
    "keeps s (count_call setting l s1)" "keeps s (notify_client c kind nm s1)"
    "keeps s (snd (kv_call K op c args s1))" "keeps s (FillErrorReply K c e s1)"
  by (simp_all add: keeps_same_view [OF assms])

section \<open>Handlers\<close>

lemma keeps_fold: "(\<And>k s. keeps s (f k s)) \<Longrightarrow> keeps s (fold f ks s)"
proof (induction ks arbitrary: s)
  case (Cons k ks)
  then show ?case by (auto intro: keeps_trans)
qed (simp add: keeps_refl)

lemma keeps_chain [keeps_intros]:
  assumes "keeps s s1"
  shows "keeps s (UnwatchKeys c s1)" "keeps s (ClearBlockKeys c s1)"
    "keeps s (snd (UnsubscribeChannel n c k s1))" "keeps s (snd (PUnsubscribeChannel n c k s1))"
  using keeps_unregister keeps_trans [OF assms] by blast+

lemma keeps_unsubscribe_each:
  "(\<And>k s. keeps s (snd (f k s))) \<Longrightarrow> keeps s (snd (unsubscribe_each f ks n s))"
proof (induction f ks n s rule: unsubscribe_each.induct)
  case (2 f k ks n s)
  obtain m s1 where r: "f k s = (m, s1)" by fastforce
  have "keeps s s1" using 2(2) [of s k] by (simp add: r)
  then show ?case using 2 by (auto simp: r intro: keeps_trans)
qed (simp add: keeps_refl)

lemma keeps_UnsubscribeAll [keeps_intros]:
  assumes "keeps s s1"
  shows "keeps s (UnsubscribeAll n c s1)" "keeps s (PUnsubscribeAll n c s1)"
proof -
  have "keeps s1 (UnsubscribeAll n c s1)" "keeps s1 (PUnsubscribeAll n c s1)"
    unfolding UnsubscribeAll_def PUnsubscribeAll_def Let_def split_beta
    by (auto intro!: keeps_intros keeps_unsubscribe_each)
  then show "keeps s (UnsubscribeAll n c s1)" "keeps s (PUnsubscribeAll n c s1)"
    using keeps_trans [OF assms] by blast+
qed

lemma keeps_ClearTransc:
  assumes "watched s1 c = []"
  shows "keeps s1 (upd_ctx c ClearTransc s1)"
  by (rule keeps_upd) (use assms in \<open>simp_all add: channels_of_def patterns_of_def blocked_def
      queued_def getter_defs ClearTransc_def ClearWatchKeySet_def TranscContext_new_def watched_def\<close>)

lemma keeps_end_transc [keeps_intros]:
  assumes "keeps s s1"
  shows "keeps s (upd_ctx c ClearTransc (UnwatchKeys c s1))"
  by (rule keeps_trans [OF keeps_chain(1) [OF assms, of c] keeps_ClearTransc])
    (simp add: watch_reg.keys_clear)

lemma view_post_message [simp]: "view (snd (post_message m cs ns)) = view (snd ns)"
  by (induction m cs ns rule: post_message.induct) (simp_all split: option.split)

lemma view_post_patterns [simp]: "view (snd (post_patterns ch m ps ns)) = view (snd ns)"
  by (induction ch m ps ns rule: post_patterns.induct) (simp_all split: option.split bool.split)

lemma keeps_Publish: "keeps s (Publish c cmd s)"
  by (rule keeps_view) (simp add: Publish_def PublishMessage_def split_beta Let_def split: option.split)

lemma keeps_client_kill [keeps_intros]: "keeps s (client_kill a cs s)"
  by (induction a cs s rule: client_kill.induct) (auto intro: keeps_intros split: option.split)

lemma keeps_plain_handlers:
  "keeps s (SlowLog c cmd s)" "keeps s (Client c cmd s)" "keeps s (Time c cmd s)"
  "keeps s (snd (Quit c cmd s))" "keeps s (Slaveof c cmd s)" "keeps s (Select c cmd s)"
  "keeps s (Auth c cmd s)"
  unfolding SlowLog_def GetSlowlog_def Client_def Time_def Quit_def Slaveof_def Select_def Auth_def
    Let_def split_beta
  by (auto intro!: keeps_intros split: option.split)

lemma keeps_transc_handlers:
  "keeps s (Multi c cmd s)" "keeps s (Discard c cmd s)" "keeps s (UnWatch c cmd s)"
  "keeps s (UnSubscribe c cmd s)" "keeps s (PUnSubscribe c cmd s)"
proof -
  have "keeps s (upd_ctx c (\<lambda>x. x\<lparr>transc := Some ((GetTransc x)\<lparr>in_transc := True\<rparr>)\<rparr>) s)"
    by (rule keeps_upd) (simp_all add: watched_def channels_of_def patterns_of_def blocked_def
        queued_def getter_defs)
  then show "keeps s (Multi c cmd s)" by (simp add: Multi_def keeps_intros)
  show "keeps s (Discard c cmd s)" "keeps s (UnWatch c cmd s)"
    by (simp_all add: Discard_def UnWatch_def keeps_intros)
  show "keeps s (UnSubscribe c cmd s)" "keeps s (PUnSubscribe c cmd s)"
    by (simp_all add: UnSubscribe_def PUnSubscribe_def keeps_intros keeps_unsubscribe_each)
qed

lemma keeps_AddBlockKey: "c \<noteq> TRANSC_CTX \<Longrightarrow> keeps s (AddBlockKey c k s)"
  by (simp add: AddBlockKey_def keeps_register)

lemma keeps_ScheduleTimeout [keeps_intros]: "keeps s s1 \<Longrightarrow> keeps s (ScheduleTimeout c t s1)"
  unfolding ScheduleTimeout_def Let_def by (intro keeps_intros)

lemma data_blpop_loop: "data_step c s (snd (blpop_loop K c lp ks s))"
proof (induction K c lp ks s rule: blpop_loop.induct)
  case (2 K c lp k ks s)
  obtain r s1 where r: "kv_call K (blocking_pop lp) c [KStr k] s = (r, s1)" by fastforce
  have "data_step c s s1" using data_kv_call [OF data_step_refl, of c s K] by (metis r snd_conv)
  then show ?case using 2 by (auto simp: r Let_def data_intros intro: data_step_trans)
qed (simp add: data_intros)

lemma keeps_registering_handlers:
  assumes "c \<noteq> TRANSC_CTX"
  shows "keeps s (Watch c cmd s)" "keeps s (Subscribe c cmd s)" "keeps s (PSubscribe c cmd s)"
    "keeps s (BLPop K c cmd s)" "keeps s (BRPop K c cmd s)" "keeps s (BRPopLPush K c cmd s)"
proof -
  show "keeps s (Watch c cmd s)" "keeps s (Subscribe c cmd s)" "keeps s (PSubscribe c cmd s)"
    using keeps_register [OF assms]
    by (auto simp: Watch_def Subscribe_def PSubscribe_def intro!: keeps_intros keeps_fold)
  have l: "keeps s (snd (blpop_loop K c lp ks s))" for lp ks
    by (rule keeps_data [OF data_blpop_loop])
  have f: "keeps s1 s2 \<Longrightarrow> keeps s1 (fold (AddBlockKey c) ks s2)" for s1 s2 :: "'a server" and ks
    by (rule keeps_trans, assumption, rule keeps_fold) (rule keeps_AddBlockKey [OF assms])
  show "keeps s (BLPop K c cmd s)" for s :: "'a server"
    unfolding BLPop_def Let_def split_beta
    by (auto intro!: keeps_intros f keeps_data [OF data_blpop_loop] split: option.split)
  then show "keeps s (BRPop K c cmd s)" by (simp add: BRPop_def)
  have a: "keeps s1 s2 \<Longrightarrow> keeps s1 (AddBlockKey c k s2)" for s1 s2 :: "'a server" and k
    by (rule keeps_trans, assumption, rule keeps_AddBlockKey [OF assms])
  show "keeps s (BRPopLPush K c cmd s)"
    unfolding BRPopLPush_def Let_def
    by (auto intro!: keeps_intros a keeps_data [OF list_cmds_data(12)] split: option.split)
qed

section \<open>Execution of queued commands\<close>

lemma keeps_reset_transc:
  assumes "\<And>x. GetWatchKeySet (f x) = []" "\<And>x. GetPubsub (f x) = PubSubContext_new"
    "\<And>x. GetBlockContext (f x) = ListBlockContext_new" "\<And>x. cached_cmds (GetTransc (f x)) = []"
  shows "keeps s (upd_ctx TRANSC_CTX f s)"
proof -
  have "keeps s (upd_ctx TRANSC_CTX f s)" if "unregistered s TRANSC_CTX"
    by (rule keeps_upd) (use that assms in \<open>simp_all add: unregistered_def PubSubContext_new_def
        ListBlockContext_new_def\<close>)
  then show ?thesis by (auto simp: keeps_def server_inv_def)
qed

lemma keeps_transc_ctx:
  "keeps s (upd_ctx TRANSC_CTX (\<lambda>_. Context_new\<lparr>currentDB := d, no_wal := b\<rparr>) s)"
  "keeps s (upd_ctx TRANSC_CTX Context_Clear s)"
  by (rule keeps_reset_transc; simp add: getter_defs Context_new_def Context_Clear_def
      ClearBlockContext_def ClearPubsub_def ClearTransc_def ClearWatchKeySet_def ClearState_def
      TranscContext_new_def)+

definition docall_keeps :: "'s docall \<Rightarrow> bool" where
  "docall_keeps docall \<longleftrightarrow>
     (\<forall>setting args s. queueable (setting_handler setting) \<longrightarrow> keeps s (snd (docall TRANSC_CTX setting args s)))"

lemma keeps_exec_one:
  assumes "docall_keeps docall" "\<And>h. handler_of s it = Some h \<Longrightarrow> queueable h"
  shows "keeps s (exec_one docall c it s)"
proof (cases "settings_find (m_cmd it) (m_settings s)")
  case None
  then show ?thesis by (simp add: exec_one_def FindRedisCommandHandlerSetting_def keeps_intros)
next
  case (Some st)
  then have q: "queueable (setting_handler st)" using assms(2) by (simp add: handler_of_def)
  have d: "keeps s1 s2 \<Longrightarrow> keeps s1 (snd (docall TRANSC_CTX st f s2))" for s1 s2 f
    using q assms(1) keeps_trans unfolding docall_keeps_def by blast
  show ?thesis
    using Some by (auto simp: exec_one_def FindRedisCommandHandlerSetting_def Let_def
        intro!: keeps_intros d split: option.split)
qed

lemma keeps_exec_all:
  assumes "docall_keeps docall" "\<And>it h. it \<in> set its \<Longrightarrow> handler_of s it = Some h \<Longrightarrow> queueable h"
  shows "keeps s (fold (exec_one docall c) its s)"
  using assms(2)
proof (induction its arbitrary: s)
  case (Cons it its)
  have k: "keeps s (exec_one docall c it s)"
    by (rule keeps_exec_one [OF assms(1) Cons.prems [of it]]) simp_all
  have "keeps s (fold (exec_one docall c) its (exec_one docall c it s))"
  proof (cases "server_inv s")
    case True
    have "keeps (exec_one docall c it s) (fold (exec_one docall c) its (exec_one docall c it s))"
      using keepsD(2) [OF k True] by (intro Cons.IH Cons.prems) simp_all
    then show ?thesis by (rule keeps_trans [OF k])
  next
    case False
    then show ?thesis by (simp add: keeps_def)
  qed
  then show ?case by simp
qed (simp add: keeps_refl)

lemma keeps_Exec:
  assumes "docall_keeps docall" "c \<noteq> TRANSC_CTX"
  shows "keeps s (Exec docall c cmd s)"
proof (cases "server_inv s \<and> InTransc (ctx s c) \<and> \<not> abort_exec (ctx s c)")
  case False
  then consider "\<not> server_inv s" | "\<not> InTransc (ctx s c)" | "InTransc (ctx s c)" "abort_exec (ctx s c)"
    by blast
  then show ?thesis
  proof cases
    case 1
    then show ?thesis by (simp add: keeps_def)
  qed (simp_all add: Exec_def keeps_intros)
next
  case True
  define s1 where "s1 = upd_ctx TRANSC_CTX (\<lambda>_. Context_new\<lparr>currentDB := currentDB (ctx s c),
    no_wal := no_wal (ctx s c)\<rparr>) s"
  have k1: "keeps s s1" unfolding s1_def by (rule keeps_transc_ctx)
  have h: "handler_of s1 = handler_of s" using keepsD(2) [OF k1] True by blast
  define its where "its = cached_cmds (GetTransc (ctx s1 c))"
  have "its = queued s c" using assms(2) by (simp add: its_def s1_def queued_def)
  then have "queueable hd" if "it \<in> set its" "handler_of s1 it = Some hd" for it hd
    using True that h by (auto simp: server_inv_def queues_ok_def)
  then have k2: "keeps s (fold (exec_one docall c) its s1)"
    by (intro keeps_trans [OF k1] keeps_exec_all [OF assms(1)])
  have c: "keeps s1 s2 \<Longrightarrow> keeps s1 (upd_ctx TRANSC_CTX Context_Clear s2)" for s1 s2 :: "'a server"
    by (erule keeps_trans) (rule keeps_transc_ctx)
  show ?thesis
    using True unfolding Exec_def Let_def s1_def [symmetric] its_def [symmetric]
    by (auto intro!: c keeps_intros k2)
qed

section \<open>Every handler keeps the invariant\<close>

lemma data_handlers_data: "(h, f) \<in> set (data_handlers E) \<Longrightarrow> data_step c s (snd (f c cmd s))"
  by (auto simp: data_handlers_def ret0_def data_intros)

definition other_keeps :: "'s libs \<Rightarrow> bool" where
  "other_keeps E \<longleftrightarrow> (\<forall>h c cmd s. keeps s (snd (other_handler E h c cmd s)))"

lemma not_queueable [simp]:
  "\<not> queueable ''Multi''" "\<not> queueable ''Exec''" "\<not> queueable ''Watch''"
  "\<not> queueable ''Subscribe''" "\<not> queueable ''PSubscribe''" "\<not> queueable ''BLPop''"
  "\<not> queueable ''BRPop''" "\<not> queueable ''BRPopLPush''"
  by (simp_all add: queueable_def registering_def)

lemma control_handlers_keep:
  assumes "(h, f) \<in> set (control_handlers E docall)" "c \<noteq> TRANSC_CTX \<or> queueable h" "docall_keeps docall"
  shows "keeps s (snd (f c cmd s))"
proof (cases "c = TRANSC_CTX")
  case False
  then show ?thesis
    using assms(1) keeps_Exec [OF assms(3)] keeps_registering_handlers [of c]
    by (auto simp: control_handlers_def ret0_def keeps_Publish keeps_plain_handlers keeps_transc_handlers)
next
  case True
  then have q: "queueable h" using assms(2) by simp
  show ?thesis
    using assms(1) unfolding control_handlers_def list.set insert_iff empty_iff prod.inject
    by (elim disjE conjE) (use q in \<open>simp_all add: ret0_def keeps_Publish keeps_plain_handlers
        keeps_transc_handlers\<close>)
qed

lemma run_handler_keeps:
  assumes "c \<noteq> TRANSC_CTX \<or> queueable h" "docall_keeps docall" "other_keeps E"
  shows "keeps s (snd (run_handler E docall h c cmd s))"
  using control_handlers_keep [OF _ assms(1,2)] keeps_data [OF data_handlers_data] assms(3)
  by (auto simp: run_handler_def other_keeps_def split: option.split dest!: map_of_SomeD)

lemma DoCall_with_keeps:
  assumes "c \<noteq> TRANSC_CTX \<or> queueable (setting_handler setting)" "docall_keeps docall" "other_keeps E"
  shows "keeps s (snd (DoCall_with E docall c setting args s))"
proof -
  have r: "keeps s1 (snd (run_handler E docall (setting_handler setting) c args s2))"
    if "keeps s1 s2" for s1 s2
    by (rule keeps_trans [OF that run_handler_keeps [OF assms]])
  show ?thesis
    unfolding DoCall_with_def split_beta Let_def snd_conv by (intro keeps_intros r)
qed

lemma DoCall_keeps:
  "other_keeps E \<Longrightarrow> c \<noteq> TRANSC_CTX \<or> queueable (setting_handler setting)
   \<Longrightarrow> keeps s (snd (DoCall E d c setting args s))"
proof (induction d arbitrary: c setting args s)
  case 0
  have "docall_keeps (no_nesting :: 'a docall)"
    by (simp add: docall_keeps_def no_nesting_def keeps_intros)
  then show ?case using 0 by (simp add: DoCall_with_keeps)
next
  case (Suc d)
  then have "docall_keeps (DoCall E d)" by (simp add: docall_keeps_def)
  then show ?case using Suc by (simp add: DoCall_with_keeps)
qed

section \<open>Requests\<close>

text \<open>
  A client is orderly when it queues no command that registers its context. The code does not
  enforce this (see \<open>watch_in_transaction_dangles\<close>).
\<close>

definition orderly :: "ctxid \<Rightarrow> RedisCommandFrame \<Rightarrow> 's server \<Rightarrow> bool" where
  "orderly c cmd s \<longleftrightarrow>
     (InTransc (ctx s c) \<longrightarrow>
       (case settings_find (m_cmd cmd) (m_settings s) of
          None \<Rightarrow> True
        | Some st \<Rightarrow> setting_type st \<in> set transc_types \<or> queueable (setting_handler st)))"

lemma keeps_queue:
  assumes "\<And>h. handler_of s args = Some h \<Longrightarrow> queueable h"
  shows "keeps s (upd_ctx c (\<lambda>x. let t = GetTransc x
    in x\<lparr>transc := Some (t\<lparr>cached_cmds := cached_cmds t @ [args]\<rparr>)\<rparr>) s)" (is "keeps s ?s")
proof -
  have eq: "watched ?s = watched s" "channels_of ?s = channels_of s" "patterns_of ?s = patterns_of s"
    "blocked ?s = blocked s"
    by (auto simp: fun_eq_iff watched_def channels_of_def patterns_of_def blocked_def Let_def getter_defs)
  have q: "set (queued ?s c') \<subseteq> insert args (set (queued s c'))" for c'
    by (auto simp: queued_def Let_def getter_defs split: if_splits option.splits)
  have "queues_ok ?s" if "queues_ok s"
    using that q assms by (auto simp: queues_ok_def) blast
  then show ?thesis
    by (auto simp: keeps_def server_inv_def registries_ok_def unregistered_def
        watch_reg.consistent_def chan_reg.consistent_def pat_reg.consistent_def
        block_reg.consistent_def eq)
qed

lemma keeps_admit:
  assumes "other_keeps E" "c \<noteq> TRANSC_CTX"
    "InTransc (ctx s c) \<Longrightarrow> setting_type setting \<notin> set transc_types \<Longrightarrow>
       (\<And>h. handler_of s args = Some h \<Longrightarrow> queueable h)"
  shows "keeps s (snd (admit E nowal c setting args s))"
proof (cases "InTransc (ctx s c) \<and> setting_type setting \<notin> set transc_types")
  case True
  then have "keeps s (upd_ctx c (\<lambda>x. let t = GetTransc x
    in x\<lparr>transc := Some (t\<lparr>cached_cmds := cached_cmds t @ [args]\<rparr>)\<rparr>) s)"
    using assms(3) by (intro keeps_queue) blast
  then show ?thesis using True by (simp add: admit_def keeps_context_fields)
next
  case False
  have "keeps s (snd (DoCall E 1 c setting args (upd_ctx c (\<lambda>x. x\<lparr>no_wal := nowal\<rparr>) s)))"
    by (rule keeps_trans [OF keeps_context_fields(2) [OF keeps_refl] DoCall_keeps])
      (use assms(1,2) in auto)
  then show ?thesis using False by (auto simp: admit_def keeps_intros)
qed

lemma keeps_IncRecvCommands [keeps_intros]: "keeps s s1 \<Longrightarrow> keeps s (snd (snd (IncRecvCommands a s1)))"
  by (simp add: IncRecvCommands_def Let_def keeps_intros)

lemma keeps_suspend [keeps_intros]: "keeps s s1 \<Longrightarrow> keeps s (suspend_overloaded c s1)"
  by (simp add: suspend_overloaded_def Let_def split_beta keeps_intros split: option.split)

lemma ctx_IncRecv [simp]: "ctx (snd (snd (IncRecvCommands a s))) c = ctx s c"
  by (simp add: IncRecvCommands_def Let_def on_stat_def)

lemma ctx_suspend [simp]: "ctx (suspend_overloaded c s) c' = ctx s c'"
  by (simp add: suspend_overloaded_def Let_def split_beta read_millis_def read_clock_def DetachFD_def
      split: option.split)

lemma keeps_begin_call: "keeps s (begin_call c args s)"
  unfolding begin_call_def Let_def split_beta by (auto intro!: keeps_intros)

lemma ctx_begin_call: "\<exists>n. ctx (begin_call c args s) c' =
    (if c' = c then (ClearState (ctx s c))\<lparr>sequence := n, current_cmd := Some args,
       current_cmd_type := frame_type args\<rparr> else ctx s c')"
  by (auto simp: begin_call_def Let_def split_beta)

lemma InTransc_begin_call [simp]: "InTransc (ctx (begin_call c args s) c) = InTransc (ctx s c)"
  using ctx_begin_call [of c args s c] by (auto simp: InTransc_def ClearState_def)

lemma keeps_log_change [keeps_intros]: "keeps s s1 \<Longrightarrow> keeps s (log_change nowal c s1)"
  by (simp add: log_change_def keeps_intros split: option.split)

lemma keeps_Call:
  assumes "other_keeps E" "c \<noteq> TRANSC_CTX" "orderly c args s"
  shows "keeps s (snd (Call E nowal c args s))"
proof (cases "settings_find (m_cmd args) (m_settings s)")
  case None
  then show ?thesis by (simp add: Call_def FindRedisCommandHandlerSetting_def keeps_intros)
next
  case (Some st)
  let ?args = "SetType args (setting_type st)" let ?s = "begin_call c (SetType args (setting_type st)) s"
  have a: "keeps s (snd (admit E nowal c st ?args ?s))"
  proof (cases "server_inv s")
    case True
    have "handler_of ?s ?args = handler_of s args"
      using keepsD(2) [OF keeps_begin_call True] by (simp add: handler_of_def SetType_def)
    then have "handler_of ?s ?args = Some h \<Longrightarrow> queueable h"
      if "InTransc (ctx s c)" "setting_type st \<notin> set transc_types" for h
      using assms(3) that by (simp add: orderly_def handler_of_def [of s] Some)
    then show ?thesis
      by (intro keeps_trans [OF keeps_begin_call keeps_admit [OF assms(1,2)]]) auto
  qed (simp add: keeps_def)
  show ?thesis
    using Some a unfolding Call_def FindRedisCommandHandlerSetting_def Let_def split_beta
    by (simp add: keeps_intros keeps_begin_call)
qed

lemma view_InTransc: "orderly c cmd (upd_ctx c (\<lambda>x. x\<lparr>client := ch, processing := b, current_cmd := f\<rparr>) s)
    = orderly c cmd s"
  by (simp add: orderly_def InTransc_def)

lemma keeps_RequestReceived:
  assumes "other_keeps E" "c \<noteq> TRANSC_CTX" "orderly c cmd s"
  shows "keeps s (RequestReceived E c ch cmd s)"
proof -
  have r: "keeps s (snd (Call E nowal c cmd
     (upd_ctx c (\<lambda>x. x\<lparr>client := Some ch, processing := True, current_cmd := None\<rparr>) s)))" for nowal
    by (rule keeps_trans [OF keeps_context_fields(8) [OF keeps_refl] keeps_Call [OF assms(1,2)]])
      (simp add: view_InTransc assms(3))
  show ?thesis
    unfolding RequestReceived_def Let_def split_beta by (intro keeps_intros r)
qed

section \<open>Events\<close>

text \<open>
  The events of the server. A connection gets a fresh context; when it is closed its context is
  freed and the handler object that holds it deleted. Posted tasks run one at a time.
\<close>

definition DeleteHandler :: "ctxid \<Rightarrow> 's server \<Rightarrow> 's server" where
  "DeleteHandler c s = upd_ctx c (\<lambda>_. Context_new) s"

definition run_wake :: "'s mmkv \<Rightarrow> 's server \<Rightarrow> 's server" where
  "run_wake K s =
     (case wake_queue s of
        [] \<Rightarrow> s
      | (b, key) # q \<Rightarrow> WakeBlockedList K b key (s\<lparr>wake_queue := q\<rparr>))"

definition run_async :: "'s server \<Rightarrow> 's server" where
  "run_async s =
     (case async_queue s of
        [] \<Rightarrow> s
      | m # q \<Rightarrow> s\<lparr>async_queue := q, outbox := outbox s @ [m]\<rparr>)"

inductive event :: "'s libs \<Rightarrow> 's server \<Rightarrow> 's server \<Rightarrow> bool" for E where
  connect: "c \<noteq> TRANSC_CTX \<Longrightarrow> ctx s c = Context_new \<Longrightarrow> event E s (RequestChannelConnected c ch addr remote s)"
| request: "c \<noteq> TRANSC_CTX \<Longrightarrow> orderly c cmd s \<Longrightarrow> event E s (RequestReceived E c ch cmd s)"
| close: "c \<noteq> TRANSC_CTX \<Longrightarrow> event E s (DeleteHandler c (RequestChannelClosed c s))"
| timeout: "(t, c, d) \<in> set (timers s) \<Longrightarrow> event E s (BlockListTimeout_Run c s)"
| wake: "event E s (run_wake (kv E) s)"
| async: "event E s (run_async s)"
| resume: "event E s (ResumeOverloadConnection_Run ch s)"
| sample: "event E s (TrackOperationsPerSecond s)"

inductive reachable :: "'s libs \<Rightarrow> 's server \<Rightarrow> 's server \<Rightarrow> bool" for E where
  start: "reachable E s s"
| step: "reachable E s s1 \<Longrightarrow> event E s1 s2 \<Longrightarrow> reachable E s s2"

inductive_cases eventE: "event E s s'"

lemma keeps_IncAcceptedClient [keeps_intros]: "keeps s s1 \<Longrightarrow> keeps s (IncAcceptedClient a v s1)"
  by (simp add: IncAcceptedClient_def keeps_intros)

lemma keeps_FreeClientContext [keeps_intros]: "keeps s s1 \<Longrightarrow> keeps s (FreeClientContext c s1)"
  by (simp add: FreeClientContext_def Let_def keeps_intros split: option.split)

lemma keeps_RequestChannelConnected: "keeps s (RequestChannelConnected c ch addr remote s)"
  unfolding RequestChannelConnected_def AddClientContext_def Let_def split_beta
  by (intro keeps_intros)

lemma keeps_write_and_attach [keeps_intros]: "keeps s s1 \<Longrightarrow> keeps s (write_and_attach c s1)"
  by (simp add: write_and_attach_def keeps_intros split: option.split)

lemma keeps_WakeBlockedList: "keeps s (WakeBlockedList K c key s)"
  unfolding WakeBlockedList_def Let_def split_beta
  by (intro keeps_intros)

text \<open>What is left of a context after it has been freed.\<close>

lemma unsubscribe_each_channels:
  "snd (unsubscribe_each (UnsubscribeChannel False c) ks n s) = fold (drop_channel c) ks s"
  by (induction ks arbitrary: n s) (simp_all add: drop_channel_def split_beta)

lemma unsubscribe_each_patterns:
  "snd (unsubscribe_each (PUnsubscribeChannel False c) ks n s) = fold (drop_pattern c) ks s"
  by (induction ks arbitrary: n s) (simp_all add: drop_pattern_def split_beta)

lemma UnsubscribeAll_del: "UnsubscribeAll False c s = chan_reg.del_all c s"
  "PUnsubscribeAll False c s = pat_reg.del_all c s"
  by (simp_all add: UnsubscribeAll_def PUnsubscribeAll_def chan_reg.del_all_def pat_reg.del_all_def
      split_beta Let_def unsubscribe_each_channels unsubscribe_each_patterns channels_of_def
      patterns_of_def GetPubsub_def PubSubContext_new_def)

lemma same_but_trans:
  "same_but_channels s2 s1 \<Longrightarrow> same_but_channels s1 s \<Longrightarrow> same_but_channels s2 s"
  "same_but_patterns s2 s1 \<Longrightarrow> same_but_patterns s1 s \<Longrightarrow> same_but_patterns s2 s"
  by (simp_all add: same_but_channels_def same_but_patterns_def)

lemma same_but_fold:
  "same_but_channels (fold (drop_channel c) ks s) s" "same_but_patterns (fold (drop_pattern c) ks s) s"
proof -
  have one: "same_but_channels (drop_channel c k s) s" "same_but_patterns (drop_pattern c k s) s"
    for k and s :: "'a server"
    by (simp_all add: drop_channel_def drop_pattern_def same_channels same_patterns)
  have "same_but_channels (fold (drop_channel c) ks s) s \<and> same_but_patterns (fold (drop_pattern c) ks s) s"
  proof (induction ks arbitrary: s)
    case Nil
    then show ?case by (simp add: same_but_channels_def same_but_patterns_def)
  next
    case (Cons k ks)
    then show ?case using one same_but_trans by (metis fold_simps(2))
  qed
  then show "same_but_channels (fold (drop_channel c) ks s) s"
    "same_but_patterns (fold (drop_pattern c) ks s) s" by blast+
qed

lemma same_UnsubscribeAll:
  "same_but_channels (UnsubscribeAll False c s) s" "same_but_patterns (PUnsubscribeAll False c s) s"
  by (simp_all add: UnsubscribeAll_del chan_reg.del_all_def pat_reg.del_all_def same_but_fold)

lemma FreeClientContext_unregistered: "unregistered (FreeClientContext c s) c"
proof -
  let ?s1 = "UnwatchKeys c s" let ?s2 = "UnsubscribeAll False c ?s1"
  let ?s3 = "PUnsubscribeAll False c ?s2" let ?s4 = "ClearBlockKeys c ?s3"
  have "watched ?s1 c = []" by (simp add: watch_reg.keys_clear)
  moreover have "channels_of ?s2 c = []"
    using chan_reg.all.keys_clear [of c ?s1 c] by (simp add: UnsubscribeAll_del)
  moreover have "patterns_of ?s3 c = []"
    using pat_reg.all.keys_clear [of c ?s2 c] by (simp add: UnsubscribeAll_del)
  moreover have "blocked ?s4 c = []" by (simp add: block_reg.keys_clear)
  ultimately have "unregistered ?s4 c"
    using same_UnsubscribeAll(1) [of c ?s1] same_UnsubscribeAll(2) [of c ?s2] same_ClearBlockKeys [of c ?s3]
    by (simp add: unregistered_def same_but_channels_def same_but_patterns_def same_but_block_def)
  moreover have "FreeClientContext c s = ?s4\<lparr>fault := True\<rparr>
      \<or> (\<exists>m. FreeClientContext c s = ?s4\<lparr>m_clients := m\<rparr>)"
    by (auto simp: FreeClientContext_def Let_def split: option.split)
  ultimately show ?thesis
    by (auto simp: unregistered_def watched_def channels_of_def patterns_of_def blocked_def)
qed

lemma keeps_DeleteHandler: "unregistered s c \<Longrightarrow> keeps s (DeleteHandler c s)"
  unfolding DeleteHandler_def by (rule keeps_upd) (simp_all add: unregistered_def getter_defs
      Context_new_def PubSubContext_new_def ListBlockContext_new_def TranscContext_new_def)

lemma RequestChannelClosed_unregistered: "unregistered (RequestChannelClosed c s) c"
  using FreeClientContext_unregistered [of c s]
  by (auto simp: RequestChannelClosed_def Let_def IncAcceptedClient_def on_stat_def unregistered_def watched_def
      channels_of_def patterns_of_def blocked_def)

lemma event_keeps:
  assumes "other_keeps E" "event E s s'"
  shows "keeps s s'"
  using assms(2)
proof cases
  case (close c)
  have "keeps s (RequestChannelClosed c s)" by (simp add: RequestChannelClosed_def Let_def keeps_intros)
  then show ?thesis
    using close(1) keeps_trans [OF _ keeps_DeleteHandler [OF RequestChannelClosed_unregistered]] by blast
next
  case (timeout t c d)
  then show ?thesis by (auto simp: BlockListTimeout_Run_def intro!: keeps_intros)
next
  case wake
  then show ?thesis
    using keeps_trans [OF keeps_outside(3) [OF keeps_refl] keeps_WakeBlockedList]
    by (auto simp: run_wake_def keeps_refl split: list.split)
next
  case async
  then show ?thesis by (auto simp: run_async_def intro!: keeps_view split: list.split)
next
  case sample
  then show ?thesis
    by (auto simp: TrackOperationsPerSecond_def Let_def split_beta intro!: keeps_view)
qed (auto simp: ResumeOverloadConnection_Run_def intro: keeps_RequestChannelConnected keeps_intros
    keeps_RequestReceived [OF assms(1)])

lemma reachable_inv:
  "reachable E s s' \<Longrightarrow> other_keeps E \<Longrightarrow> server_inv s \<Longrightarrow> server_inv s'"
  by (induction rule: reachable.induct) (auto dest: event_keeps keepsD(1))

end
