(* ===== verification/Call_Properties.thy ===== *)
theory Call_Properties
  imports Server_Invariant
begin

text \<open>
  What a request may do: the gates of \<open>Call\<close> (password, arity, queueing, subscriber mode), the frame
  of the data commands, the log, and transactions from end to end.
\<close>

section \<open>Names of the handlers\<close>

definition data_names :: "string list" where
  "data_names =
   [''Ping'', ''DBSize'', ''FlushDB'', ''FlushAll'', ''Echo'', ''Append'', ''Get'', ''Set'',
    ''Del'', ''Exists'', ''Expire'', ''PExpire'', ''Expireat'', ''PExpireat'', ''Persist'',
    ''TTL'', ''PTTL'', ''Type'', ''Bitcount'', ''Bitop'', ''Decr'', ''Decrby'', ''GetBit'',
    ''GetRange'', ''GetSet'', ''Incr'', ''Incrby'', ''IncrbyFloat'', ''MGet'', ''MSet'',
    ''MSetNX'', ''PSetEX'', ''SetBit'', ''Bitpos'', ''SetEX'', ''SetNX'', ''SetRange'',
    ''Strlen'', ''HDel'', ''HExists'', ''HGet'', ''HGetAll'', ''HIncrby'', ''HIncrbyFloat'',
    ''HKeys'', ''HLen'', ''HVals'', ''HMGet'', ''HSet'', ''HSetNX'', ''HMSet'', ''HScan'',
    ''HStrlen'', ''SCard'', ''SAdd'', ''SDiff'', ''SDiffStore'', ''SInter'', ''SInterStore'',
    ''SIsMember'', ''SMembers'', ''SMove'', ''SPop'', ''SRandMember'', ''SRem'', ''SUnion'',
    ''SUnionStore'', ''SScan'', ''ZAdd'', ''ZCard'', ''ZCount'', ''ZIncrby'', ''ZRange'',
    ''ZRangeByScore'', ''ZRank'', ''ZRem'', ''ZRemRangeByRank'', ''ZRemRangeByScore'',
    ''ZRevRange'', ''ZRevRangeByScore'', ''ZInterStore'', ''ZUnionStore'', ''ZRevRank'',
    ''ZScore'', ''ZScan'', ''ZLexCount'', ''ZRangeByLex'', ''ZRemRangeByLex'', ''LIndex'',
    ''LInsert'', ''LLen'', ''LPop'', ''LPush'', ''LPushx'', ''LRange'', ''LRem'', ''LSet'',
    ''LTrim'', ''RPop'', ''RPush'', ''RPushx'', ''RPopLPush'', ''Move'', ''Rename'',
    ''RenameNX'', ''Sort'', ''Keys'', ''Randomkey'', ''Scan'', ''GeoAdd'', ''PFAdd'',
    ''PFCount'', ''PFMerge'']"

definition control_names :: "string list" where
  "control_names =
   [''Multi'', ''Discard'', ''Exec'', ''Watch'', ''UnWatch'', ''Subscribe'', ''PSubscribe'',
    ''UnSubscribe'', ''PUnSubscribe'', ''Publish'', ''SlowLog'', ''Client'', ''Time'',
    ''Quit'', ''Slaveof'', ''Select'', ''BLPop'', ''BRPop'', ''BRPopLPush'', ''Auth'']"

lemma handler_names:
  "map fst (data_handlers E) = data_names" "map fst (control_handlers E docall) = control_names"
  by (simp_all add: data_handlers_def data_names_def control_handlers_def control_names_def)

lemma names_disjoint: "list_all (\<lambda>h. h \<notin> set control_names) data_names"
  by code_simp

lemma run_data_handler:
  assumes "h \<in> set data_names"
  obtains f where "(h, f) \<in> set (data_handlers E)" "run_handler E docall h = f"
proof -
  have "map_of (control_handlers E docall) h = None"
    using assms names_disjoint handler_names(2) [of E docall]
    by (metis list_all_iff list.set_map map_of_eq_None_iff)
  moreover obtain f where "map_of (data_handlers E) h = Some f"
    using assms by (metis handler_names(1) list.set_map map_of_eq_None_iff not_None_eq)
  ultimately show thesis using that by (simp add: run_handler_def map_of_SomeD)
qed

lemma run_data_step:
  "h \<in> set data_names \<Longrightarrow> data_step c s (snd (run_handler E docall h c cmd s))"
  by (erule run_data_handler [where E = E and docall = docall]) (simp add: data_handlers_data)

section \<open>The gates of a call\<close>

lemma IncRecv_fields [simp]:
  "m_kv_store (snd (snd (IncRecvCommands a s))) = m_kv_store s"
  "wal_queue (snd (snd (IncRecvCommands a s))) = wal_queue s"
  "outbox (snd (snd (IncRecvCommands a s))) = outbox s"
  "m_settings (snd (snd (IncRecvCommands a s))) = m_settings s"
  "m_watched_ctx (snd (snd (IncRecvCommands a s))) = m_watched_ctx s"
  "m_cfg (snd (snd (IncRecvCommands a s))) = m_cfg s"
  "m_clients (snd (snd (IncRecvCommands a s))) = m_clients s"
  "fault (snd (snd (IncRecvCommands a s))) = fault s"
  by (simp_all add: IncRecvCommands_def Let_def on_stat_def)

lemma suspend_fields [simp]:
  "m_kv_store (suspend_overloaded c s) = m_kv_store s"
  "wal_queue (suspend_overloaded c s) = wal_queue s"
  "outbox (suspend_overloaded c s) = outbox s"
  "m_settings (suspend_overloaded c s) = m_settings s"
  "m_watched_ctx (suspend_overloaded c s) = m_watched_ctx s"
  "m_cfg (suspend_overloaded c s) = m_cfg s"
  "m_clients (suspend_overloaded c s) = m_clients s"
  "fault (suspend_overloaded c s) = fault s"
  by (simp_all add: suspend_overloaded_def DetachFD_def read_millis_def read_clock_def Let_def split_beta
      split: option.split)

lemma begin_call_fields [simp]:
  "m_kv_store (begin_call c args s) = m_kv_store s"
  "wal_queue (begin_call c args s) = wal_queue s"
  "outbox (begin_call c args s) = outbox s"
  "m_settings (begin_call c args s) = m_settings s"
  "m_watched_ctx (begin_call c args s) = m_watched_ctx s"
  "m_cfg (begin_call c args s) = m_cfg s"
  "m_clients (begin_call c args s) = m_clients s"
  "fault (begin_call c args s) = fault s"
  by (simp_all add: begin_call_def Let_def split_beta)

lemma begin_call_ctx:
  "authenticated (ctx (begin_call c args s) c') = authenticated (ctx s c')"
  "pubsub (ctx (begin_call c args s) c') = pubsub (ctx s c')"
  "transc (ctx (begin_call c args s) c') = transc (ctx s c')"
  "client (ctx (begin_call c args s) c') = client (ctx s c')"
  "abort_exec (ctx (begin_call c args s) c') = abort_exec (ctx s c')"
  "currentDB (ctx (begin_call c args s) c') = currentDB (ctx s c')"
  "watch_keys (ctx (begin_call c args s) c') = watch_keys (ctx s c')"
  "close_after_processed (ctx (begin_call c args s) c') = close_after_processed (ctx s c')"
  "\<not> data_change (ctx (begin_call c args s) c)"
  "current_cmd (ctx (begin_call c args s) c) = Some args"
  "reply (ctx (begin_call c args s) c) = RedisReply_Clear (reply (ctx s c))"
  "c' \<noteq> c \<Longrightarrow> ctx (begin_call c args s) c' = ctx s c'"
  using ctx_begin_call [of c args s c'] ctx_begin_call [of c args s c]
  by (auto simp: ClearState_def split: if_splits)

lemma Call_found:
  "settings_find (m_cmd args) (m_settings s) = Some st \<Longrightarrow> a = SetType args (setting_type st) \<Longrightarrow>
   Call E nowal c args s =
     (let s = begin_call c a s
      in if \<not> authenticated (ctx s c) \<and> setting_type st \<noteq> REDIS_CMD_AUTH \<and> setting_type st \<noteq> REDIS_CMD_QUIT
         then (0, on_reply c (fill_fix_error_reply ''NOAUTH Authentication required'') s)
         else
           let (ret, s) =
             (if \<not> valid_arity st (length (m_args args))
              then (0, on_reply c (fill_error_reply
                     (''wrong number of arguments for '' @ quoted (c_str (m_cmd args)) @ '' command'')) s)
              else admit E nowal c st a s)
           in (ret, log_change nowal c s))"
  by (simp add: Call_def FindRedisCommandHandlerSetting_def SetType_def Let_def split_beta cong: if_cong)

lemma no_change_no_log: "\<not> data_change (ctx s c) \<Longrightarrow> log_change nowal c s = s"
  by (simp add: log_change_def)

text \<open>
  C27: Before it has given the password a client can only authenticate or quit: any other command
  leaves the engine, the log and every other context as they were, whatever the command, and is
  answered with the error.
\<close>

theorem unauthenticated_refused:
  assumes "settings_find (m_cmd args) (m_settings s) = Some st" "\<not> authenticated (ctx s c)"
    "setting_type st \<noteq> REDIS_CMD_AUTH" "setting_type st \<noteq> REDIS_CMD_QUIT"
  shows "let s' = snd (Call E nowal c args s) in
     m_kv_store s' = m_kv_store s \<and> wal_queue s' = wal_queue s \<and> outbox s' = outbox s
     \<and> reply_type (reply (ctx s' c)) = REDIS_REPLY_ERROR
     \<and> reply_str (reply (ctx s' c)) = ''NOAUTH Authentication required''
     \<and> \<not> authenticated (ctx s' c) \<and> (\<forall>c'. c' \<noteq> c \<longrightarrow> ctx s' c' = ctx s c')"
  using assms by (simp add: Call_found Let_def begin_call_ctx fill_fix_error_reply_def set_str_def set_type_def)

definition demo_settings :: "(string \<times> RedisCommandHandlerSetting) list" where
  "demo_settings = [(''get'', entry ''get'' 33 ''Get'' 1 1 ''r''), (''exec'', entry ''exec'' 3 ''Exec'' 0 0 ''r''),
     (''watch'', entry ''watch'' 4 ''Watch'' 0 (- 1) ''rs''), (''del'', entry ''del'' 35 ''Del'' 1 (- 1) ''w'')]"

definition demo_libs :: "nat libs" where
  "demo_libs = \<lparr>kv = demo_mmkv (kv_answer 0 ''v''), str_todouble = (\<lambda>_. None), double_str = (\<lambda>_. []),
     other_handler = (\<lambda>h c cmd s. (0, s))\<rparr>"

definition demo_state :: "nat server" where
  "demo_state = initial_server 0 default_config demo_settings (\<lambda>n. n) (\<lambda>_. NUL)"

definition frame :: "string \<Rightarrow> string list \<Rightarrow> RedisCommandFrame" where
  "frame name args = (RedisCommandFrame_new name)\<lparr>m_args := args\<rparr>"

theorem unauthenticated_refused_witness:
  "m_kv_store (snd (Call demo_libs False 5 (frame ''GET'' [''k''])
     (upd_ctx 5 (\<lambda>x. x\<lparr>authenticated := False\<rparr>) demo_state))) = 0"
proof -
  let ?s = "upd_ctx 5 (\<lambda>x. x\<lparr>authenticated := False\<rparr>) demo_state"
  have "settings_find (m_cmd (frame ''GET'' [''k''])) (m_settings ?s) = Some (entry ''get'' 33 ''Get'' 1 1 ''r'')"
    by code_simp
  from unauthenticated_refused [OF this, of 5 demo_libs False] show ?thesis
    by (simp add: Let_def entry_def REDIS_CMD_AUTH_def REDIS_CMD_QUIT_def demo_state_def)
qed

text \<open>
  C25: Inside a transaction a command is only queued: unless it is \<open>MULTI\<close>, \<open>EXEC\<close>, \<open>DISCARD\<close> or \<open>QUIT\<close>,
  a well-formed command leaves the engine and the log alone, goes to the end of the queue with its
  arguments, and is answered \<open>QUEUED\<close>.
\<close>

theorem transaction_queues:
  assumes "settings_find (m_cmd args) (m_settings s) = Some st" "authenticated (ctx s c)"
    "valid_arity st (length (m_args args))" "InTransc (ctx s c)" "setting_type st \<notin> set transc_types"
  shows "let s' = snd (Call E nowal c args s) in
     m_kv_store s' = m_kv_store s \<and> wal_queue s' = wal_queue s
     \<and> queued s' c = queued s c @ [SetType args (setting_type st)] \<and> InTransc (ctx s' c)
     \<and> reply_type (reply (ctx s' c)) = REDIS_REPLY_STATUS \<and> reply_str (reply (ctx s' c)) = ''QUEUED''
     \<and> (\<forall>c'. c' \<noteq> c \<longrightarrow> ctx s' c' = ctx s c')"
proof -
  let ?a = "SetType args (setting_type st)" let ?s = "begin_call c ?a s"
  define s1 where "s1 = on_reply c (fill_status_reply ''QUEUED'')
    (upd_ctx c (\<lambda>x. let t = GetTransc x
       in x\<lparr>transc := Some (t\<lparr>cached_cmds := cached_cmds t @ [?a]\<rparr>)\<rparr>) ?s)"
  have "admit E nowal c st ?a ?s = (0, s1)" using assms(4,5) by (simp add: admit_def s1_def)
  moreover have "\<not> data_change (ctx s1 c)" by (simp add: s1_def Let_def begin_call_ctx)
  ultimately have r: "snd (Call E nowal c args s) = s1"
    using assms(2,3) by (simp add: Call_found [OF assms(1) refl] Let_def begin_call_ctx no_change_no_log)
  have "c_str ''QUEUED'' = ''QUEUED''" by code_simp
  moreover have "InTransc (ctx s1 c)"
    using assms(4) by (auto simp: s1_def InTransc_def Let_def GetTransc_def begin_call_ctx split: option.splits)
  ultimately show ?thesis
    unfolding r Let_def by (auto simp: s1_def queued_def GetTransc_def Let_def begin_call_ctx
        fill_status_reply_def set_str_def set_type_def)
qed

theorem transaction_queues_witness:
  "queued (snd (Call demo_libs False 5 (frame ''GET'' [''k''])
     (upd_ctx 5 (\<lambda>x. x\<lparr>transc := Some TranscContext_new\<rparr>) demo_state))) 5 = [SetType (frame ''GET'' [''k'']) 33]"
proof -
  let ?s = "upd_ctx 5 (\<lambda>x. x\<lparr>transc := Some TranscContext_new\<rparr>) demo_state"
  have f: "settings_find (m_cmd (frame ''GET'' [''k''])) (m_settings ?s) = Some (entry ''get'' 33 ''Get'' 1 1 ''r'')"
    by code_simp
  have "authenticated (ctx ?s 5)" "InTransc (ctx ?s 5)" "queued ?s 5 = []"
    by (simp_all add: demo_state_def Context_new_def InTransc_def TranscContext_new_def queued_def GetTransc_def)
  moreover have "valid_arity (entry ''get'' 33 ''Get'' 1 1 ''r'') (length (m_args (frame ''GET'' [''k''])))"
    "setting_type (entry ''get'' 33 ''Get'' 1 1 ''r'') \<notin> set transc_types" by code_simp+
  ultimately show ?thesis
    using transaction_queues [OF f, of 5 demo_libs False] by (simp add: Let_def entry_def)
qed

section \<open>Data commands\<close>

text \<open>The bookkeeping of \<open>DoCall\<close> around the handler.\<close>

lemma bookkeeping_fields [simp]:
  "ctx (snd (read_clock s)) c = ctx s c" "wal_queue (snd (read_clock s)) = wal_queue s"
  "outbox (snd (read_clock s)) = outbox s" "m_kv_store (snd (read_clock s)) = m_kv_store s"
  "ctx (count_call setting l s) c = ctx s c" "wal_queue (count_call setting l s) = wal_queue s"
  "outbox (count_call setting l s) = outbox s" "m_kv_store (count_call setting l s) = m_kv_store s"
  "ctx (TryPushSlowCommand f l s) c = ctx s c" "wal_queue (TryPushSlowCommand f l s) = wal_queue s"
  "outbox (TryPushSlowCommand f l s) = outbox s" "m_kv_store (TryPushSlowCommand f l s) = m_kv_store s"
  by (simp_all add: read_clock_def count_call_def TryPushSlowCommand_def Let_def split: option.split)

definition touched :: "Context \<Rightarrow> Context" where
  "touched x = x\<lparr>last_interaction_ustime := 0\<rparr>"

text \<open>
  Around a data command \<open>DoCall\<close> adds nothing to what the command does, up to the time of the last
  interaction and the counters.
\<close>

lemma DoCall_data:
  assumes "setting_handler st \<in> set data_names"
  shows "let s' = snd (DoCall_with E docall c st args s) in
     wal_queue s' = wal_queue s \<and> outbox s' = outbox s
     \<and> (\<forall>c'. c' \<noteq> c \<longrightarrow> mark_free (ctx s' c') = mark_free (ctx s c'))
     \<and> touched (result_free (ctx s' c)) = touched (result_free (ctx s c))
     \<and> (\<forall>c'. abort_exec (ctx s c') \<longrightarrow> abort_exec (ctx s' c'))
     \<and> (current_cmd (ctx s c) \<noteq> None \<longrightarrow> current_cmd (ctx s' c) \<noteq> None)"
proof -
  define s1 where "s1 = upd_ctx c (\<lambda>x. x\<lparr>last_interaction_ustime := fst (read_clock s)\<rparr>) (snd (read_clock s))"
  define s2 where "s2 = snd (run_handler E docall (setting_handler st) c args s1)"
  define s' where "s' = snd (DoCall_with E docall c st args s)"
  have d: "data_step c s1 s2" unfolding s2_def by (rule run_data_step [OF assms])
  have s': "wal_queue s' = wal_queue s2" "outbox s' = outbox s2"
    "ctx s' c' = (if c' = c then (ctx s2 c)\<lparr>last_interaction_ustime := fst (read_clock s2)\<rparr> else ctx s2 c')" for c'
    by (simp_all add: s'_def DoCall_with_def Let_def split_beta s1_def s2_def)
  have s1: "wal_queue s1 = wal_queue s" "outbox s1 = outbox s"
    "ctx s1 c' = (if c' = c then (ctx s c)\<lparr>last_interaction_ustime := fst (read_clock s)\<rparr> else ctx s c')" for c'
    by (simp_all add: s1_def)
  have "touched (result_free (ctx s' c)) = touched (result_free (ctx s2 c))"
    by (simp add: s' touched_def result_free_def)
  also have "\<dots> = touched (result_free (ctx s1 c))" by (simp add: data_stepD(11) [OF d])
  also have "\<dots> = touched (result_free (ctx s c))" by (simp add: s1 touched_def result_free_def)
  finally have t: "touched (result_free (ctx s' c)) = touched (result_free (ctx s c))" .
  have "mark_free (ctx s' c') = mark_free (ctx s c')" if "c' \<noteq> c" for c'
    using data_stepD(10) [OF d that] that by (simp add: s' s1)
  moreover have "abort_exec (ctx s' c')" if "abort_exec (ctx s c')" for c'
    using data_stepD(12) [OF d, of c'] that by (auto simp: s' s1)
  moreover have "current_cmd (ctx s' c) \<noteq> None" if "current_cmd (ctx s c) \<noteq> None"
    using data_stepD(13) [OF d] that by (simp add: s' s1)
  ultimately show ?thesis
    unfolding Let_def s'_def [symmetric] using t s'(1,2) s1(1,2) data_stepD(8,9) [OF d] by simp
qed

lemma touched_currentDB: "touched (result_free x) = touched (result_free y) \<Longrightarrow> currentDB x = currentDB y"
  by (cases x; cases y) (simp add: touched_def result_free_def)



section \<open>Executing a transaction\<close>

lemma handler_of_view: "view s' = view s \<Longrightarrow> handler_of s' = handler_of s"
  by (simp add: view_def)

lemma handler_of_settings: "m_settings s' = m_settings s \<Longrightarrow> handler_of s' = handler_of s"
  by (simp add: handler_of_def fun_eq_iff)

lemma DoCall_handler_of:
  assumes "setting_handler st \<in> set data_names"
  shows "handler_of (snd (DoCall_with E docall c st args s)) = handler_of s"
proof -
  define s1 where "s1 = upd_ctx c (\<lambda>x. x\<lparr>last_interaction_ustime := fst (read_clock s)\<rparr>) (snd (read_clock s))"
  define s2 where "s2 = snd (run_handler E docall (setting_handler st) c args s1)"
  have "handler_of s2 = handler_of s1"
    unfolding s2_def by (rule handler_of_settings [OF data_stepD(6) [OF run_data_step [OF assms]]])
  also have "\<dots> = handler_of s" by (rule handler_of_settings) (simp add: s1_def read_clock_def)
  finally have "handler_of s2 = handler_of s" .
  moreover have "handler_of (TryPushSlowCommand f l s') = handler_of s'"
    "handler_of (snd (read_clock s')) = handler_of s'" for f l and s' :: "'a server"
    by (rule handler_of_view, simp)+
  moreover have "handler_of (count_call st l s') = handler_of s'" for l and s' :: "'a server"
    by (rule handler_of_view) simp
  ultimately show ?thesis
    by (simp add: DoCall_with_def Let_def split_beta s1_def s2_def)
qed

definition is_data :: "'s server \<Rightarrow> RedisCommandFrame \<Rightarrow> bool" where
  "is_data s f \<longleftrightarrow> (case handler_of s f of None \<Rightarrow> True | Some h \<Rightarrow> h \<in> set data_names)"

definition exec_answer :: "'s server \<Rightarrow> RedisCommandFrame \<Rightarrow> 's server \<Rightarrow> RedisReply" where
  "exec_answer s f s' =
     (if handler_of s f = None then fill_error_reply (''unknown command '' @ quoted (c_str (m_cmd f))) reply_new
      else Clone reply_new (reply (ctx s' TRANSC_CTX)))"

lemma mark_free_fields:
  "mark_free x = mark_free y \<Longrightarrow> reply x = reply y" "mark_free x = mark_free y \<Longrightarrow> transc x = transc y"
  by (cases x; cases y; simp add: mark_free_def)+

lemma exec_one_data:
  assumes "is_data s f" "c \<noteq> TRANSC_CTX"
  shows "handler_of (exec_one (DoCall E 0) c f s) = handler_of s
     \<and> reply (ctx (exec_one (DoCall E 0) c f s) c)
         = AddMember True (exec_answer s f (exec_one (DoCall E 0) c f s)) (reply (ctx s c))"
proof (cases "settings_find (m_cmd f) (m_settings s)")
  case None
  then show ?thesis
    using assms(2) by (simp add: exec_one_def FindRedisCommandHandlerSetting_def exec_answer_def
        handler_of_def quoted_def fun_eq_iff on_reply_def)
next
  case (Some st)
  define s1 where "s1 = upd_ctx TRANSC_CTX (\<lambda>x. x\<lparr>reply := RedisReply_Clear (reply x),
      data_change := False, current_cmd := Some (SetType f (setting_type st))\<rparr>) s"
  define s2 where "s2 = snd (DoCall E 0 TRANSC_CTX st (SetType f (setting_type st)) s1)"
  define s3 where "s3 = on_reply c (AddMember True (Clone reply_new (reply (ctx s2 TRANSC_CTX)))) s2"
  have h: "setting_handler st \<in> set data_names"
    using assms(1) Some by (simp add: is_data_def handler_of_def)
  have e: "exec_one (DoCall E 0) c f s = s3
      \<or> (\<exists>d g. exec_one (DoCall E 0) c f s = WriteWAL d g s3)"
    unfolding exec_one_def FindRedisCommandHandlerSetting_def Some option.map option.case prod.case Let_def
      s1_def [symmetric] s2_def [symmetric] s3_def [symmetric]
    by (auto split: option.split)
  have "mark_free (ctx s2 c) = mark_free (ctx s1 c)"
    using DoCall_data [OF h] assms(2) unfolding s2_def DoCall.simps Let_def by blast
  from mark_free_fields(1) [OF this] have r: "reply (ctx s2 c) = reply (ctx s c)"
    using assms(2) by (simp add: s1_def)
  have hs: "handler_of s3 = handler_of s"
    unfolding s3_def s2_def DoCall.simps on_reply_def handler_of_ctx DoCall_handler_of [OF h]
    by (simp add: s1_def)
  have "reply (ctx s3 c) = AddMember True (exec_answer s f s3) (reply (ctx s c))"
    using assms(2) r by (simp add: s3_def exec_answer_def handler_of_def Some)
  moreover have "ctx (WriteWAL d g s3) = ctx s3" "handler_of (WriteWAL d g s3) = handler_of s3" for d g
    by (simp_all add: WriteWAL_def fun_eq_iff ctx_def handler_of_def)
  ultimately show ?thesis using e hs by (auto simp: exec_answer_def)
qed

lemma exec_all_data:
  assumes "\<And>f. f \<in> set q \<Longrightarrow> is_data s f" "c \<noteq> TRANSC_CTX"
  shows "let run = (\<lambda>i. fold (exec_one (DoCall E 0) c) (take i q) s) in
     handler_of (run (length q)) = handler_of s
     \<and> reply (ctx (run (length q)) c)
         = foldl (\<lambda>r i. AddMember True (exec_answer s (q ! i) (run (Suc i))) r) (reply (ctx s c)) [0..<length q]"
  using assms(1)
proof (induction q rule: rev_induct)
  case Nil
  then show ?case by simp
next
  case (snoc f q)
  let ?run = "\<lambda>q i. fold (exec_one (DoCall E 0) c) (take i q) s"
  have IH: "handler_of (?run q (length q)) = handler_of s"
    "reply (ctx (?run q (length q)) c)
      = foldl (\<lambda>r i. AddMember True (exec_answer s (q ! i) (?run q (Suc i))) r) (reply (ctx s c)) [0..<length q]"
    using snoc by (simp_all add: Let_def)
  have eq: "foldl (\<lambda>r i. AddMember True (exec_answer s ((q @ [f]) ! i) (?run (q @ [f]) (Suc i))) r)
       (reply (ctx s c)) [0..<length q]
      = foldl (\<lambda>r i. AddMember True (exec_answer s (q ! i) (?run q (Suc i))) r) (reply (ctx s c)) [0..<length q]"
    by (rule foldl_cong) (auto simp: nth_append)
  have "is_data (?run q (length q)) f" using snoc.prems [of f] IH(1) by (simp add: is_data_def)
  from exec_one_data [OF this assms(2), of E] show ?case
    using IH eq by (simp add: Let_def exec_answer_def)
qed

lemma foldl_AddMember:
  "reply_elements (foldl (\<lambda>r i. AddMember True (g i) r) r is)
     = (if is = [] then reply_elements r
        else Some ((case reply_elements r of None \<Rightarrow> [] | Some es \<Rightarrow> es) @ map g is))"
  "reply_type (foldl (\<lambda>r i. AddMember True (g i) r) r is)
     = (if is = [] then reply_type r else REDIS_REPLY_ARRAY)"
  by (induction "is" arbitrary: r)
    (auto simp: AddMember_def Let_def set_type_def set_elements_def REDIS_REPLY_ARRAY_def split: option.split)

text \<open>The state in which the queued commands start.\<close>

definition exec_start :: "ctxid \<Rightarrow> 's server \<Rightarrow> 's server" where
  "exec_start c s = upd_ctx TRANSC_CTX (\<lambda>_. Context_new\<lparr>currentDB := currentDB (ctx s c),
     no_wal := no_wal (ctx s c)\<rparr>) s"

lemma exec_start_ctx [simp]:
  "c \<noteq> TRANSC_CTX \<Longrightarrow> ctx (exec_start c s) c = ctx s c" "handler_of (exec_start c s) = handler_of s"
  by (simp_all add: exec_start_def)

lemma Exec_runs:
  assumes "InTransc (ctx s c)" "\<not> abort_exec (ctx s c)" "c \<noteq> TRANSC_CTX"
  shows "Exec docall c cmd s =
    (let s1 = fold (exec_one docall c) (queued s c) (exec_start c s);
         s1 = upd_ctx c (\<lambda>x. x\<lparr>currentDB := currentDB (ctx s1 TRANSC_CTX)\<rparr>) s1
     in upd_ctx TRANSC_CTX Context_Clear (upd_ctx c ClearTransc (UnwatchKeys c s1)))"
  using assms by (simp add: Exec_def Let_def exec_start_def queued_def)

text \<open>
  C6: A transaction runs whole and in order. \<open>EXEC\<close> of queued data commands answers an array with one
  member per queued command: the member of a command is the reply of running it after all the
  commands queued before it (or the error, if its name has been renamed away meanwhile); the engine
  ends in the state after the last one, the transaction is over and its mark is cleared.
\<close>

theorem exec_answers_in_order:
  assumes "c \<noteq> TRANSC_CTX" "InTransc (ctx s c)" "\<not> abort_exec (ctx s c)" "queued s c \<noteq> []"
    "reply_elements (reply (ctx s c)) = None" "\<forall>f\<in>set (queued s c). is_data s f"
  shows "let q = queued s c;
       run = (\<lambda>i. fold (exec_one (DoCall E 0) c) (take i q) (exec_start c s));
       s' = Exec (DoCall E 0) c cmd s
     in reply_type (reply (ctx s' c)) = REDIS_REPLY_ARRAY
        \<and> reply_elements (reply (ctx s' c)) = Some (map (\<lambda>i. exec_answer s (q ! i) (run (Suc i))) [0..<length q])
        \<and> m_kv_store s' = m_kv_store (run (length q)) \<and> wal_queue s' = wal_queue (run (length q))
        \<and> \<not> InTransc (ctx s' c) \<and> \<not> abort_exec (ctx s' c) \<and> watched s' c = []"
proof -
  let ?s0 = "exec_start c s" let ?q = "queued s c"
  let ?run = "\<lambda>i. fold (exec_one (DoCall E 0) c) (take i ?q) ?s0"
  define s1 where "s1 = ?run (length ?q)"
  define s' where "s' = Exec (DoCall E 0) c cmd s"
  have "is_data ?s0 f" if "f \<in> set ?q" for f using assms(6) that by (simp add: is_data_def)
  from exec_all_data [OF this assms(1), of ?q E]
  have r: "reply (ctx s1 c) = foldl (\<lambda>r i. AddMember True (exec_answer s (?q ! i) (?run (Suc i))) r)
      (reply (ctx s c)) [0..<length ?q]"
    using assms(1) by (simp add: Let_def s1_def exec_answer_def)
  have s': "s' = upd_ctx TRANSC_CTX Context_Clear (upd_ctx c ClearTransc (UnwatchKeys c
      (upd_ctx c (\<lambda>x. x\<lparr>currentDB := currentDB (ctx s1 TRANSC_CTX)\<rparr>) s1)))"
    unfolding s'_def s1_def Exec_runs [OF assms(2,3,1)] Let_def by simp
  have "reply (ctx s' c) = reply (ctx s1 c)" using assms(1) by (simp add: s')
  then have "reply_type (reply (ctx s' c)) = REDIS_REPLY_ARRAY"
    "reply_elements (reply (ctx s' c)) = Some (map (\<lambda>i. exec_answer s (?q ! i) (?run (Suc i))) [0..<length ?q])"
    using assms(4,5) by (simp_all add: r foldl_AddMember)
  moreover have "m_kv_store s' = m_kv_store s1" "wal_queue s' = wal_queue s1" by (simp_all add: s')
  moreover have "\<not> InTransc (ctx s' c)" "\<not> abort_exec (ctx s' c)" "watched s' c = []"
    using assms(1) by (simp_all add: s' InTransc_def)
  ultimately show ?thesis unfolding Let_def s'_def [symmetric] s1_def [symmetric] by blast
qed

definition exec_demo :: "nat server" where
  "exec_demo = upd_ctx 5 (\<lambda>x. x\<lparr>transc := Some (TranscContext_new\<lparr>in_transc := True,
     cached_cmds := [frame ''GET'' [''k''], frame ''NOSUCH'' []]\<rparr>)\<rparr>) demo_state"

theorem exec_answers_in_order_witness:
  "let s' = Exec (DoCall demo_libs 0) 5 (frame ''EXEC'' []) exec_demo
   in reply_type (reply (ctx s' 5)) = REDIS_REPLY_ARRAY
      \<and> length (the (reply_elements (reply (ctx s' 5)))) = 2"
proof -
  have q: "queued exec_demo 5 = [frame ''GET'' [''k''], frame ''NOSUCH'' []]"
    by (simp add: exec_demo_def queued_def GetTransc_def)
  have t: "InTransc (ctx exec_demo 5)" "\<not> abort_exec (ctx exec_demo 5)"
    "reply_elements (reply (ctx exec_demo 5)) = None" "5 \<noteq> TRANSC_CTX"
    by (simp_all add: exec_demo_def InTransc_def demo_state_def Context_new_def reply_new_def TRANSC_CTX_def)
  have "is_data exec_demo (frame ''GET'' [''k''])" "is_data exec_demo (frame ''NOSUCH'' [])"
    by code_simp+
  then have "\<forall>f\<in>set (queued exec_demo 5). is_data exec_demo f" by (simp add: q)
  from exec_answers_in_order [OF t(4) t(1) t(2) _ t(3) this, of demo_libs "frame ''EXEC'' []"] show ?thesis
    by (simp add: q Let_def)
qed

lemma run_Exec: "run_handler E docall ''Exec'' = ret0 (Exec docall)"
  by (simp add: run_handler_def control_handlers_def)

lemma DoCall_reply:
  assumes "setting_handler st = ''Exec''"
  shows "\<exists>t s1. s1 = upd_ctx c (\<lambda>x. x\<lparr>last_interaction_ustime := t\<rparr>) (snd (read_clock s))
     \<and> reply (ctx (snd (DoCall_with E docall c st args s)) c) = reply (ctx (Exec docall c args s1) c)
     \<and> data_change (ctx (snd (DoCall_with E docall c st args s)) c) = data_change (ctx (Exec docall c args s1) c)
     \<and> transc (ctx (snd (DoCall_with E docall c st args s)) c) = transc (ctx (Exec docall c args s1) c)
     \<and> outbox (snd (DoCall_with E docall c st args s)) = outbox (Exec docall c args s1)
     \<and> wal_queue (snd (DoCall_with E docall c st args s)) = wal_queue (Exec docall c args s1)
     \<and> fst (DoCall_with E docall c st args s) = 0"
  by (rule exI [of _ "fst (read_clock s)"])
    (simp add: DoCall_with_def Let_def split_beta assms run_Exec ret0_def)

text \<open>
  An empty transaction is never answered: \<open>EXEC\<close> right after \<open>MULTI\<close> leaves the reply without a type,
  and a reply without a type is not sent. The client, which expects an empty array, waits.
\<close>

theorem empty_exec_no_reply:
  assumes "settings_find (m_cmd args) (m_settings s) = Some st" "setting_handler st = ''Exec''"
    "setting_type st = REDIS_CMD_EXEC" "authenticated (ctx s c)" "valid_arity st (length (m_args args))"
    "c \<noteq> TRANSC_CTX" "InTransc (ctx s c)" "\<not> abort_exec (ctx s c)" "queued s c = []"
  shows "let s' = RequestReceived E c ch args s in outbox s' = outbox s \<and> \<not> InTransc (ctx s' c)"
proof -
  define s0 where "s0 = upd_ctx c (\<lambda>x. x\<lparr>client := Some ch, processing := True, current_cmd := None\<rparr>) s"
  define nowal where "nowal = (master_host (m_cfg s0) \<noteq> [])"
  let ?a = "SetType args (setting_type st)"
  define s1 where "s1 = upd_ctx c (\<lambda>x. x\<lparr>no_wal := nowal\<rparr>) (begin_call c ?a s0)"
  define s2 where "s2 = snd (DoCall E 1 c st ?a s1)"
  obtain t s3 where s3: "s3 = upd_ctx c (\<lambda>x. x\<lparr>last_interaction_ustime := t\<rparr>) (snd (read_clock s1))"
    and d: "reply (ctx s2 c) = reply (ctx (Exec (DoCall E 0) c ?a s3) c)"
      "data_change (ctx s2 c) = data_change (ctx (Exec (DoCall E 0) c ?a s3) c)"
      "transc (ctx s2 c) = transc (ctx (Exec (DoCall E 0) c ?a s3) c)"
      "outbox s2 = outbox (Exec (DoCall E 0) c ?a s3)" "fst (DoCall E 1 c st ?a s1) = 0"
    using DoCall_reply [OF assms(2), of c s1 E "DoCall E 0" ?a]
    unfolding s2_def One_nat_def DoCall.simps(2) by blast
  have k: "transc (ctx s3 c) = transc (ctx s c)" "abort_exec (ctx s3 c) = abort_exec (ctx s c)"
    "\<not> data_change (ctx s3 c)" "reply (ctx s3 c) = reply_new" "outbox s3 = outbox s"
    by (simp_all add: s3 s1_def begin_call_ctx s0_def RedisReply_Clear_def)
  have "InTransc (ctx s3 c)" "\<not> abort_exec (ctx s3 c)" "queued s3 c = []"
    using assms(7,8,9) k by (simp_all add: InTransc_def queued_def GetTransc_def)
  then have x: "Exec (DoCall E 0) c ?a s3 = upd_ctx TRANSC_CTX Context_Clear (upd_ctx c ClearTransc (UnwatchKeys c
      (upd_ctx c (\<lambda>x. x\<lparr>currentDB := currentDB (ctx (exec_start c s3) TRANSC_CTX)\<rparr>) (exec_start c s3))))"
    using assms(6) by (simp add: Exec_runs Let_def)
  have r: "reply (ctx s2 c) = reply_new" "\<not> data_change (ctx s2 c)" "transc (ctx s2 c) = None" "outbox s2 = outbox s"
    using assms(6) k unfolding d(1-4) x by (simp_all add: exec_start_def UnwatchKeys_def ClearWatchKeySet_def
        ClearTransc_def split: option.split)
  have f0: "settings_find (m_cmd args) (m_settings s0) = Some st" using assms(1) by (simp add: s0_def)
  have "InTransc (ctx (begin_call c ?a s0) c)" "authenticated (ctx s0 c)"
    using assms(4,7) by (simp_all add: s0_def InTransc_def begin_call_ctx)
  then have "admit E nowal c st ?a (begin_call c ?a s0) = DoCall E 1 c st ?a s1" "authenticated (ctx (begin_call c ?a s0) c)"
    using assms(3) by (simp_all add: admit_def transc_types_def s1_def begin_call_ctx del: DoCall.simps)
  moreover have "DoCall E 1 c st ?a s1 = (0, s2)" using d(5) by (simp add: prod_eq_iff s2_def)
  ultimately have "Call E nowal c args s0 = (0, s2)"
    using assms(5) r(2) unfolding Call_found [OF f0 refl] by (simp add: Let_def no_change_no_log del: DoCall.simps)
  then have "RequestReceived E c ch args s = (let s' = upd_ctx c (\<lambda>x. x\<lparr>processing := False\<rparr>) s2
      in if close_after_processed (ctx s' c) then Channel_Close ch s' else s')"
    using r(1) by (simp add: RequestReceived_def Let_def s0_def [symmetric] nowal_def [symmetric] reply_new_def)
  then show ?thesis
    using r(3,4) by (simp add: Let_def Channel_Close_def InTransc_def ctx_def upd_ctx_def)
qed

theorem empty_exec_no_reply_witness:
  "outbox (RequestReceived demo_libs 5 7 (frame ''EXEC'' [])
     (upd_ctx 5 (\<lambda>x. x\<lparr>transc := Some TranscContext_new\<rparr>) demo_state)) = []"
proof -
  let ?s = "upd_ctx 5 (\<lambda>x. x\<lparr>transc := Some TranscContext_new\<rparr>) demo_state"
  have f: "settings_find (m_cmd (frame ''EXEC'' [])) (m_settings ?s) = Some (entry ''exec'' 3 ''Exec'' 0 0 ''r'')"
    by code_simp
  have e: "setting_handler (entry ''exec'' 3 ''Exec'' 0 0 ''r'') = ''Exec''"
    "setting_type (entry ''exec'' 3 ''Exec'' 0 0 ''r'') = REDIS_CMD_EXEC"
    "valid_arity (entry ''exec'' 3 ''Exec'' 0 0 ''r'') (length (m_args (frame ''EXEC'' [])))" by code_simp+
  have "authenticated (ctx ?s 5)" "5 \<noteq> TRANSC_CTX" "InTransc (ctx ?s 5)" "\<not> abort_exec (ctx ?s 5)"
    "queued ?s 5 = []" "outbox ?s = []"
    by (simp_all add: demo_state_def Context_new_def InTransc_def TranscContext_new_def queued_def GetTransc_def
        TRANSC_CTX_def initial_server_def ctx_def upd_ctx_def)
  then show ?thesis using empty_exec_no_reply [OF f e(1,2) _ e(3), of 5 demo_libs 7] by (simp add: Let_def)
qed

lemma run_Watch: "run_handler E docall ''Watch'' = ret0 Watch"
  by (simp add: run_handler_def control_handlers_def)

lemma bookkeeping_watch [simp]:
  "m_watched_ctx (snd (read_clock s)) = m_watched_ctx s" "watched (snd (read_clock s)) = watched s"
  "m_watched_ctx (count_call setting l s) = m_watched_ctx s" "watched (count_call setting l s) = watched s"
  "m_watched_ctx (TryPushSlowCommand f l s) = m_watched_ctx s" "watched (TryPushSlowCommand f l s) = watched s"
  "m_watched_ctx (WriteWAL d g s) = m_watched_ctx s" "watched (WriteWAL d g s) = watched s"
  by (simp_all add: fun_eq_iff watched_def)
    (simp_all add: read_clock_def count_call_def TryPushSlowCommand_def WriteWAL_def ctx_def Let_def split: option.split)

lemma watched_on_reply [simp]: "watched (on_reply c f s) = watched s"
  by (simp add: fun_eq_iff on_reply_def) (simp add: watched_def)

lemma exec_one_Watch:
  assumes "settings_find (m_cmd f) (m_settings s) = Some st" "setting_handler st = ''Watch''" "c \<noteq> TRANSC_CTX"
    "watch_reg.consistent s" "k \<in> set (m_args f)"
  shows "watch_reg.consistent (exec_one (DoCall E 0) c f s)
     \<and> WatchKey (currentDB (ctx s TRANSC_CTX)) k \<in> set (watched (exec_one (DoCall E 0) c f s) TRANSC_CTX)"
proof -
  let ?a = "SetType f (setting_type st)"
  define s1 where "s1 = upd_ctx TRANSC_CTX (\<lambda>x. x\<lparr>reply := RedisReply_Clear (reply x),
      data_change := False, current_cmd := Some ?a\<rparr>) s"
  define s2 where "s2 = upd_ctx TRANSC_CTX (\<lambda>x. x\<lparr>last_interaction_ustime := fst (read_clock s1)\<rparr>) (snd (read_clock s1))"
  define ks where "ks = map (WatchKey (currentDB (ctx s TRANSC_CTX))) (m_args f)"
  define s3 where "s3 = fold (watch_one TRANSC_CTX) ks s2"
  have "watched s2 = watched s" "m_watched_ctx s2 = m_watched_ctx s"
    by (auto simp: s2_def s1_def watched_def GetWatchKeySet_def)
  then have s3: "watch_reg.consistent s3" "set ks \<subseteq> set (watched s3 TRANSC_CTX)"
    using watch_reg.consistent_same [OF assms(4)]
    by (simp_all add: s3_def watch_reg.consistent_fold_add watch_reg.keys_fold_add)
  have w: "snd (run_handler E no_nesting (setting_handler st) TRANSC_CTX ?a s2) = on_reply TRANSC_CTX fill_ok_reply s3"
    by (simp add: assms(2) run_Watch ret0_def Watch_def s3_def ks_def s2_def s1_def SetType_def)
  have "m_watched_ctx (snd (DoCall E 0 TRANSC_CTX st ?a s1)) = m_watched_ctx s3"
    "watched (snd (DoCall E 0 TRANSC_CTX st ?a s1)) = watched s3"
    unfolding DoCall.simps DoCall_with_def Let_def split_beta snd_conv s2_def [symmetric] w
    by (simp_all add: fun_eq_iff watched_def GetWatchKeySet_def)
  then have "m_watched_ctx (exec_one (DoCall E 0) c f s) = m_watched_ctx s3"
    "watched (exec_one (DoCall E 0) c f s) = watched s3"
    unfolding exec_one_def FindRedisCommandHandlerSetting_def assms(1) option.map option.case prod.case Let_def
      s1_def [symmetric] by (auto split: option.split)
  then show ?thesis
    using watch_reg.consistent_same [OF s3(1)] s3(2) assms(5) by (auto simp: ks_def)
qed

text \<open>
  C37: \<open>WATCH\<close> inside a transaction leaves a dangling pointer: \<open>EXEC\<close> runs it on a context that lives on
  its stack, and afterwards the watch table still lists that context for the key although it is gone
  and watches nothing; the next change of the key writes through the pointer.
\<close>

theorem watch_in_transaction_dangles:
  assumes "c \<noteq> TRANSC_CTX" "InTransc (ctx s c)" "\<not> abort_exec (ctx s c)" "queued s c = [f]"
    "settings_find (m_cmd f) (m_settings s) = Some st" "setting_handler st = ''Watch''"
    "k \<in> set (m_args f)" "watch_reg.consistent s" "watched s TRANSC_CTX = []"
  shows "let s' = Exec (DoCall E 0) c cmd s in
     TRANSC_CTX \<in> set (table_lookup (m_watched_ctx s') (WatchKey (currentDB (ctx s c)) k))
     \<and> watched s' TRANSC_CTX = []"
proof -
  let ?s0 = "exec_start c s" let ?k = "WatchKey (currentDB (ctx s c)) k"
  have "watch_reg.consistent ?s0"
    by (rule watch_reg.consistent_same [OF assms(8)])
      (use assms(9) in \<open>auto simp: exec_start_def fun_eq_iff watched_def GetWatchKeySet_def Context_new_def\<close>)
  moreover have "settings_find (m_cmd f) (m_settings ?s0) = Some st" using assms(5) by (simp add: exec_start_def)
  ultimately have e: "watch_reg.consistent (exec_one (DoCall E 0) c f ?s0)"
    "?k \<in> set (watched (exec_one (DoCall E 0) c f ?s0) TRANSC_CTX)"
    using exec_one_Watch [of f ?s0 st c k E] assms(1,6,7) by (simp_all add: exec_start_def)
  define s1 where "s1 = upd_ctx c (\<lambda>x. x\<lparr>currentDB := currentDB (ctx (exec_one (DoCall E 0) c f ?s0) TRANSC_CTX)\<rparr>)
      (exec_one (DoCall E 0) c f ?s0)"
  have "watch_reg.consistent s1" "?k \<in> set (watched s1 TRANSC_CTX)"
    using watch_reg.consistent_same [OF e(1), of s1] e(2) assms(1) by (auto simp: s1_def watched_def fun_eq_iff)
  then have "TRANSC_CTX \<in> set (table_lookup (m_watched_ctx (UnwatchKeys c s1)) ?k)"
    using assms(1) watch_reg.clear_others watch_reg.consistentD(3) by metis
  moreover have "Exec (DoCall E 0) c cmd s
      = upd_ctx TRANSC_CTX Context_Clear (upd_ctx c ClearTransc (UnwatchKeys c s1))"
    by (simp add: Exec_runs [OF assms(2,3,1)] Let_def assms(4) s1_def del: DoCall.simps)
  ultimately show ?thesis
    using assms(1) by (simp add: Let_def watched_def GetWatchKeySet_def Context_Clear_def)
qed

definition watch_demo :: "nat server" where
  "watch_demo = upd_ctx 5 (\<lambda>x. x\<lparr>transc := Some (TranscContext_new\<lparr>
     cached_cmds := [frame ''WATCH'' [''k'']]\<rparr>)\<rparr>) demo_state"

theorem watch_in_transaction_dangles_witness:
  "TRANSC_CTX \<in> set (table_lookup (m_watched_ctx (Exec (DoCall demo_libs 0) 5 (frame ''EXEC'' []) watch_demo))
     (WatchKey 0 ''k''))"
proof -
  have f: "settings_find (m_cmd (frame ''WATCH'' [''k''])) (m_settings watch_demo)
      = Some (entry ''watch'' 4 ''Watch'' 0 (- 1) ''rs'')" by code_simp
  have c: "5 \<noteq> TRANSC_CTX" "InTransc (ctx watch_demo 5)" "\<not> abort_exec (ctx watch_demo 5)"
    "queued watch_demo 5 = [frame ''WATCH'' [''k'']]" "watched watch_demo TRANSC_CTX = []"
    "currentDB (ctx watch_demo 5) = 0"
    by (simp_all add: watch_demo_def TRANSC_CTX_def InTransc_def TranscContext_new_def queued_def GetTransc_def
        demo_state_def initial_server_def ctx_def Context_new_def GetWatchKeySet_def watched_def upd_ctx_def)
  have "watch_reg.consistent demo_state" by (simp add: demo_state_def initial_watch_ok)
  then have "watch_reg.consistent watch_demo"
    by (rule watch_reg.consistent_same) (auto simp: watch_demo_def fun_eq_iff watched_def GetWatchKeySet_def)
  moreover have "setting_handler (entry ''watch'' 4 ''Watch'' 0 (- 1) ''rs'') = ''Watch''"
    "''k'' \<in> set (m_args (frame ''WATCH'' [''k'']))" by code_simp+
  ultimately show ?thesis
    using watch_in_transaction_dangles [OF c(1-4) f _ _ _ c(5), of "''k''" demo_libs "frame ''EXEC'' []"] c(6)
    by (simp add: Let_def)
qed

end
