(* ===== verification/Wal.thy ===== *)
theory Wal
  imports Comms_Prelude
begin

text \<open>
  The write-ahead log of \<open>replication/swal.c\<close>: a file used as a ring, a smaller ring in memory that
  caches its end, and the checksum of \<open>common/redis/crc64.c\<close>. The history of the log is an abstract
  byte sequence; appending extends it, replaying from the cache delivers a piece of it. The offsets
  are \<open>size_t\<close>: their differences are taken modulo \<open>2 ^ 64\<close>.
\<close>

unbundle bit_operations_syntax

section \<open>The checksum\<close>

definition crc64_tab :: "64 word list" where
  "crc64_tab =
   [0x0000000000000000, 0x7ad870c830358979, 0xf5b0e190606b12f2, 0x8f689158505e9b8b,
    0xc038e5739841b68f, 0xbae095bba8743ff6, 0x358804e3f82aa47d, 0x4f50742bc81f2d04,
    0xab28ecb46814fe75, 0xd1f09c7c5821770c, 0x5e980d24087fec87, 0x24407dec384a65fe,
    0x6b1009c7f05548fa, 0x11c8790fc060c183, 0x9ea0e857903e5a08, 0xe478989fa00bd371,
    0x7d08ff3b88be6f81, 0x07d08ff3b88be6f8, 0x88b81eabe8d57d73, 0xf2606e63d8e0f40a,
    0xbd301a4810ffd90e, 0xc7e86a8020ca5077, 0x4880fbd87094cbfc, 0x32588b1040a14285,
    0xd620138fe0aa91f4, 0xacf86347d09f188d, 0x2390f21f80c18306, 0x594882d7b0f40a7f,
    0x1618f6fc78eb277b, 0x6cc0863448deae02, 0xe3a8176c18803589, 0x997067a428b5bcf0,
    0xfa11fe77117cdf02, 0x80c98ebf2149567b, 0x0fa11fe77117cdf0, 0x75796f2f41224489,
    0x3a291b04893d698d, 0x40f16bccb908e0f4, 0xcf99fa94e9567b7f, 0xb5418a5cd963f206,
    0x513912c379682177, 0x2be1620b495da80e, 0xa489f35319033385, 0xde51839b2936bafc,
    0x9101f7b0e12997f8, 0xebd98778d11c1e81, 0x64b116208142850a, 0x1e6966e8b1770c73,
    0x8719014c99c2b083, 0xfdc17184a9f739fa, 0x72a9e0dcf9a9a271, 0x08719014c99c2b08,
    0x4721e43f0183060c, 0x3df994f731b68f75, 0xb29105af61e814fe, 0xc849756751dd9d87,
    0x2c31edf8f1d64ef6, 0x56e99d30c1e3c78f, 0xd9810c6891bd5c04, 0xa3597ca0a188d57d,
    0xec09088b6997f879, 0x96d1784359a27100, 0x19b9e91b09fcea8b, 0x636199d339c963f2,
    0xdf7adabd7a6e2d6f, 0xa5a2aa754a5ba416, 0x2aca3b2d1a053f9d, 0x50124be52a30b6e4,
    0x1f423fcee22f9be0, 0x659a4f06d21a1299, 0xeaf2de5e82448912, 0x902aae96b271006b,
    0x74523609127ad31a, 0x0e8a46c1224f5a63, 0x81e2d7997211c1e8, 0xfb3aa75142244891,
    0xb46ad37a8a3b6595, 0xceb2a3b2ba0eecec, 0x41da32eaea507767, 0x3b024222da65fe1e,
    0xa2722586f2d042ee, 0xd8aa554ec2e5cb97, 0x57c2c41692bb501c, 0x2d1ab4dea28ed965,
    0x624ac0f56a91f461, 0x1892b03d5aa47d18, 0x97fa21650afae693, 0xed2251ad3acf6fea,
    0x095ac9329ac4bc9b, 0x7382b9faaaf135e2, 0xfcea28a2faafae69, 0x8632586aca9a2710,
    0xc9622c4102850a14, 0xb3ba5c8932b0836d, 0x3cd2cdd162ee18e6, 0x460abd1952db919f,
    0x256b24ca6b12f26d, 0x5fb354025b277b14, 0xd0dbc55a0b79e09f, 0xaa03b5923b4c69e6,
    0xe553c1b9f35344e2, 0x9f8bb171c366cd9b, 0x10e3202993385610, 0x6a3b50e1a30ddf69,
    0x8e43c87e03060c18, 0xf49bb8b633338561, 0x7bf329ee636d1eea, 0x012b592653589793,
    0x4e7b2d0d9b47ba97, 0x34a35dc5ab7233ee, 0xbbcbcc9dfb2ca865, 0xc113bc55cb19211c,
    0x5863dbf1e3ac9dec, 0x22bbab39d3991495, 0xadd33a6183c78f1e, 0xd70b4aa9b3f20667,
    0x985b3e827bed2b63, 0xe2834e4a4bd8a21a, 0x6debdf121b863991, 0x1733afda2bb3b0e8,
    0xf34b37458bb86399, 0x8993478dbb8deae0, 0x06fbd6d5ebd3716b, 0x7c23a61ddbe6f812,
    0x3373d23613f9d516, 0x49aba2fe23cc5c6f, 0xc6c333a67392c7e4, 0xbc1b436e43a74e9d,
    0x95ac9329ac4bc9b5, 0xef74e3e19c7e40cc, 0x601c72b9cc20db47, 0x1ac40271fc15523e,
    0x5594765a340a7f3a, 0x2f4c0692043ff643, 0xa02497ca54616dc8, 0xdafce7026454e4b1,
    0x3e847f9dc45f37c0, 0x445c0f55f46abeb9, 0xcb349e0da4342532, 0xb1eceec59401ac4b,
    0xfebc9aee5c1e814f, 0x8464ea266c2b0836, 0x0b0c7b7e3c7593bd, 0x71d40bb60c401ac4,
    0xe8a46c1224f5a634, 0x927c1cda14c02f4d, 0x1d148d82449eb4c6, 0x67ccfd4a74ab3dbf,
    0x289c8961bcb410bb, 0x5244f9a98c8199c2, 0xdd2c68f1dcdf0249, 0xa7f41839ecea8b30,
    0x438c80a64ce15841, 0x3954f06e7cd4d138, 0xb63c61362c8a4ab3, 0xcce411fe1cbfc3ca,
    0x83b465d5d4a0eece, 0xf96c151de49567b7, 0x76048445b4cbfc3c, 0x0cdcf48d84fe7545,
    0x6fbd6d5ebd3716b7, 0x15651d968d029fce, 0x9a0d8ccedd5c0445, 0xe0d5fc06ed698d3c,
    0xaf85882d2576a038, 0xd55df8e515432941, 0x5a3569bd451db2ca, 0x20ed197575283bb3,
    0xc49581ead523e8c2, 0xbe4df122e51661bb, 0x3125607ab548fa30, 0x4bfd10b2857d7349,
    0x04ad64994d625e4d, 0x7e7514517d57d734, 0xf11d85092d094cbf, 0x8bc5f5c11d3cc5c6,
    0x12b5926535897936, 0x686de2ad05bcf04f, 0xe70573f555e26bc4, 0x9ddd033d65d7e2bd,
    0xd28d7716adc8cfb9, 0xa85507de9dfd46c0, 0x273d9686cda3dd4b, 0x5de5e64efd965432,
    0xb99d7ed15d9d8743, 0xc3450e196da80e3a, 0x4c2d9f413df695b1, 0x36f5ef890dc31cc8,
    0x79a59ba2c5dc31cc, 0x037deb6af5e9b8b5, 0x8c157a32a5b7233e, 0xf6cd0afa9582aa47,
    0x4ad64994d625e4da, 0x300e395ce6106da3, 0xbf66a804b64ef628, 0xc5bed8cc867b7f51,
    0x8aeeace74e645255, 0xf036dc2f7e51db2c, 0x7f5e4d772e0f40a7, 0x05863dbf1e3ac9de,
    0xe1fea520be311aaf, 0x9b26d5e88e0493d6, 0x144e44b0de5a085d, 0x6e963478ee6f8124,
    0x21c640532670ac20, 0x5b1e309b16452559, 0xd476a1c3461bbed2, 0xaeaed10b762e37ab,
    0x37deb6af5e9b8b5b, 0x4d06c6676eae0222, 0xc26e573f3ef099a9, 0xb8b627f70ec510d0,
    0xf7e653dcc6da3dd4, 0x8d3e2314f6efb4ad, 0x0256b24ca6b12f26, 0x788ec2849684a65f,
    0x9cf65a1b368f752e, 0xe62e2ad306bafc57, 0x6946bb8b56e467dc, 0x139ecb4366d1eea5,
    0x5ccebf68aecec3a1, 0x2616cfa09efb4ad8, 0xa97e5ef8cea5d153, 0xd3a62e30fe90582a,
    0xb0c7b7e3c7593bd8, 0xca1fc72bf76cb2a1, 0x45775673a732292a, 0x3faf26bb9707a053,
    0x70ff52905f188d57, 0x0a2722586f2d042e, 0x854fb3003f739fa5, 0xff97c3c80f4616dc,
    0x1bef5b57af4dc5ad, 0x61372b9f9f784cd4, 0xee5fbac7cf26d75f, 0x9487ca0fff135e26,
    0xdbd7be24370c7322, 0xa10fceec0739fa5b, 0x2e675fb4576761d0, 0x54bf2f7c6752e8a9,
    0xcdcf48d84fe75459, 0xb71738107fd2dd20, 0x387fa9482f8c46ab, 0x42a7d9801fb9cfd2,
    0x0df7adabd7a6e2d6, 0x772fdd63e7936baf, 0xf8474c3bb7cdf024, 0x829f3cf387f8795d,
    0x66e7a46c27f3aa2c, 0x1c3fd4a417c62355, 0x935745fc4798b8de, 0xe98f353477ad31a7,
    0xa6df411fbfb21ca3, 0xdc0731d78f8795da, 0x536fa08fdfd90e51, 0x29b7d047efec8728]"

definition crc64_step :: "64 word \<Rightarrow> char \<Rightarrow> 64 word" where
  "crc64_step crc byte = (crc64_tab ! unat (take_bit 8 crc XOR word_of_nat (of_char byte))) XOR drop_bit 8 crc"

fun crc64 :: "64 word \<Rightarrow> bytes \<Rightarrow> 64 word" where
  "crc64 crc [] = crc"
| "crc64 crc (byte # s) = crc64 (crc64_step crc byte) s"

section \<open>The log\<close>

definition sub_size :: "nat \<Rightarrow> nat \<Rightarrow> nat" where
  "sub_size a b = c_size (int a - int b)"

definition add_size :: "nat \<Rightarrow> nat \<Rightarrow> nat" where
  "add_size a b = c_size (int a + int b)"

text \<open>
  The metadata file and the log file are fields of the state, since both are read through shared
  mappings. \<open>write_fails\<close> says which of the calls of \<open>write\<close> fail; a call that succeeds writes all its
  bytes.
\<close>

record swal =
  log_start_offset :: nat
  log_end_offset :: nat
  log_file_pos :: nat
  cksm :: "64 word"
  max_file_size :: nat
  ring_cache_size :: nat
  cksm_func :: "(64 word \<Rightarrow> bytes \<Rightarrow> 64 word) option"
  log_file :: bytes
  fd_pos :: nat
  mmap_buf :: bool
  ring_cache :: "bytes option"
  ring_cache_start_offset :: nat
  ring_cache_idx :: nat
  write_fails :: "nat \<Rightarrow> bool"
  writes :: nat

text \<open>
  The loop that writes to the file. It does not end when the file has no space at all, so it is a
  partial function; the result is the code of \<open>write\<close> and the state.
\<close>

partial_function (option) append_loop :: "bytes \<Rightarrow> swal \<Rightarrow> (int \<times> swal) option" where
  "append_loop p w =
     (if p = [] then Some (0, w)
      else
        let thislen = min (sub_size (max_file_size w) (log_file_pos w)) (length p);
            fails = write_fails w (writes w);
            w = w\<lparr>writes := Suc (writes w)\<rparr>
        in if fails then Some (- 1, w)
           else
             let w = w\<lparr>log_file := mem_put (log_file w) (fd_pos w) (take thislen p),
                       log_file_pos := add_size (log_file_pos w) thislen, fd_pos := fd_pos w + thislen\<rparr>;
                 w = (if log_file_pos w = max_file_size w then w\<lparr>log_file_pos := 0, fd_pos := 0\<rparr> else w)
             in append_loop (drop thislen p) w)"

text \<open>The loop that copies to the cache.\<close>

partial_function (option) cache_loop :: "bytes \<Rightarrow> bytes \<Rightarrow> nat \<Rightarrow> nat \<Rightarrow> (bytes \<times> nat) option" where
  "cache_loop p r sz idx =
     (if p = [] then Some (r, idx)
      else
        let thislen = min (sub_size sz idx) (length p);
            r = mem_put r idx (take thislen p);
            idx = add_size idx thislen;
            idx = (if idx = sz then 0 else idx)
        in cache_loop (drop thislen p) r sz idx)"

definition swal_append :: "bytes \<Rightarrow> swal \<Rightarrow> (int \<times> swal) option" where
  "swal_append log w =
     (case append_loop log w of
        None \<Rightarrow> None
      | Some (err, w) \<Rightarrow>
          if err < 0 then Some (err, w)
          else
            let w = w\<lparr>log_end_offset := add_size (log_end_offset w) (length log)\<rparr>;
                w = (if sub_size (log_end_offset w) (log_start_offset w) \<ge> max_file_size w
                     then w\<lparr>log_start_offset := sub_size (log_end_offset w) (max_file_size w)\<rparr> else w);
                w = (case cksm_func w of None \<Rightarrow> w | Some f \<Rightarrow> w\<lparr>cksm := f (cksm w) log\<rparr>)
            in case ring_cache w of
                 None \<Rightarrow> Some (0, w)
               | Some r \<Rightarrow>
                   (case cache_loop log r (ring_cache_size w) (ring_cache_idx w) of
                      None \<Rightarrow> None
                    | Some (r, idx) \<Rightarrow>
                        let w = w\<lparr>ring_cache := Some r, ring_cache_idx := idx\<rparr>
                        in Some (0,
                             if sub_size (log_end_offset w) (ring_cache_start_offset w) \<ge> ring_cache_size w
                             then w\<lparr>ring_cache_start_offset := sub_size (log_end_offset w) (ring_cache_size w)\<rparr>
                             else w)))"

text \<open>
  Replaying hands pieces of a buffer to a callback. The result lists the pieces, or is \<open>None\<close> when a
  piece reaches past the buffer.
\<close>

definition piece :: "bytes \<Rightarrow> nat \<Rightarrow> nat \<Rightarrow> bytes list option" where
  "piece buf start len = (if start + len \<le> length buf then Some [region buf start (start + len)] else None)"

definition two_pieces :: "bytes list option \<Rightarrow> bytes list option \<Rightarrow> bytes list option" where
  "two_pieces p q = (case p of None \<Rightarrow> None | Some a \<Rightarrow> map_option ((@) a) q)"

definition wrapped_pieces :: "bytes \<Rightarrow> nat \<Rightarrow> nat \<Rightarrow> nat \<Rightarrow> bytes list option" where
  "wrapped_pieces buf sz start_pos len =
     (if len \<le> sub_size sz start_pos then piece buf start_pos len
      else two_pieces (piece buf start_pos (sub_size sz start_pos))
             (piece buf 0 (sub_size (add_size start_pos len) sz)))"

definition swal_replay :: "nat \<Rightarrow> int \<Rightarrow> swal \<Rightarrow> bytes list option \<times> swal" where
  "swal_replay offset limit_len w =
     (let total = sub_size (log_end_offset w) offset;
          total = (if limit_len > 0 \<and> nat limit_len < total then nat limit_len else total)
      in if ring_cache w \<noteq> None \<and> offset \<ge> ring_cache_start_offset w
         then
           let r = the (ring_cache w);
               cache_len = sub_size (log_end_offset w) offset
           in (if ring_cache_idx w \<ge> cache_len
               then piece r (ring_cache_idx w - cache_len) total
               else wrapped_pieces r (ring_cache_size w)
                      (add_size (sub_size (ring_cache_size w) cache_len) (ring_cache_idx w)) total, w)
         else
           let w = w\<lparr>mmap_buf := True\<rparr>;
               buf = take (max_file_size w) (log_file w)
           in if offset \<ge> log_start_offset w
              then
                let data_len = sub_size (log_end_offset w) offset
                in (if log_file_pos w \<ge> data_len
                    then piece buf (log_file_pos w - data_len) total
                    else wrapped_pieces buf (max_file_size w)
                           (add_size (sub_size (max_file_size w) total) (log_file_pos w)) total, w)
              else (Some [], w))"

definition swal_clear_replay_cache :: "swal \<Rightarrow> swal" where
  "swal_clear_replay_cache w = w\<lparr>mmap_buf := False\<rparr>"

definition swal_reset :: "nat \<Rightarrow> 64 word \<Rightarrow> swal \<Rightarrow> swal" where
  "swal_reset offset ck w =
     (let w = w\<lparr>log_start_offset := offset, log_end_offset := offset, log_file_pos := 0, cksm := ck\<rparr>;
          w = (if ring_cache w \<noteq> None then w\<lparr>ring_cache_start_offset := offset, ring_cache_idx := 0\<rparr> else w)
      in w\<lparr>fd_pos := log_file_pos w\<rparr>)"

definition swal_cksm :: "swal \<Rightarrow> 64 word" where "swal_cksm w = cksm w"
definition swal_start_offset :: "swal \<Rightarrow> nat" where "swal_start_offset w = log_start_offset w"
definition swal_end_offset :: "swal \<Rightarrow> nat" where "swal_end_offset w = log_end_offset w"

section \<open>Opening\<close>

record swal_options =
  opt_max_file_size :: nat
  opt_ring_cache_size :: nat
  opt_cksm_func :: "(64 word \<Rightarrow> bytes \<Rightarrow> 64 word) option"

text \<open>
  What the operating system provides: whether the files open, the metadata and the contents found
  in them, and the bytes of a fresh memory block. A new file holds zeros.
\<close>

record disk =
  meta_opens :: bool
  log_opens :: bool
  cache_malloc :: bool
  disk_start :: nat
  disk_end :: nat
  disk_pos :: nat
  disk_cksm :: "64 word"
  disk_log :: bytes
  fresh :: "nat \<Rightarrow> char"
  disk_fails :: "nat \<Rightarrow> bool"

definition SWAL_ERR_MALLOC_FAIL :: int where "SWAL_ERR_MALLOC_FAIL = - 100"
definition SWAL_ERR_META_OPEN_FAIL :: int where "SWAL_ERR_META_OPEN_FAIL = - 101"
definition SWAL_ERR_LOG_OPEN_FAIL :: int where "SWAL_ERR_LOG_OPEN_FAIL = - 102"

text \<open>\<open>ftruncate\<close> of a shorter file appends zeros; a longer file keeps its length.\<close>

definition open_wal_logfile :: "nat \<Rightarrow> disk \<Rightarrow> bytes option" where
  "open_wal_logfile sz d =
     (if \<not> log_opens d then None else Some (disk_log d @ replicate (sz - length (disk_log d)) NUL))"

definition swal_open :: "swal_options \<Rightarrow> disk \<Rightarrow> int + swal" where
  "swal_open opts d =
     (if \<not> meta_opens d then Inl SWAL_ERR_META_OPEN_FAIL
      else case open_wal_logfile (opt_max_file_size opts) d of
             None \<Rightarrow> Inl SWAL_ERR_LOG_OPEN_FAIL
           | Some file \<Rightarrow>
               let w = \<lparr>log_start_offset = disk_start d, log_end_offset = disk_end d,
                        log_file_pos = disk_pos d, cksm = disk_cksm d,
                        max_file_size = opt_max_file_size opts,
                        ring_cache_size = opt_ring_cache_size opts, cksm_func = opt_cksm_func opts,
                        log_file = file, fd_pos = disk_pos d, mmap_buf = False, ring_cache = None,
                        ring_cache_start_offset = 0, ring_cache_idx = 0,
                        write_fails = disk_fails d, writes = 0\<rparr>
               in if opt_ring_cache_size opts > 0
                  then if \<not> cache_malloc d then Inl SWAL_ERR_MALLOC_FAIL
                       else Inr (w\<lparr>ring_cache := Some (map (fresh d) [0..<opt_ring_cache_size opts]),
                                   ring_cache_idx := 0, ring_cache_start_offset := disk_start d\<rparr>)
                  else Inr w)"

text \<open>What is left on disk after \<open>swal_close\<close>.\<close>

definition swal_close :: "swal \<Rightarrow> disk \<Rightarrow> disk" where
  "swal_close w d = d\<lparr>disk_start := log_start_offset w, disk_end := log_end_offset w,
     disk_pos := log_file_pos w, disk_cksm := cksm w, disk_log := log_file w\<rparr>"

section \<open>Rings\<close>

text \<open>
  \<open>r\<close> holds the last \<open>m\<close> bytes of the history \<open>H\<close>, byte \<open>i\<close> at the index \<open>i mod m\<close>.
\<close>

definition ring_holds :: "nat \<Rightarrow> bytes \<Rightarrow> bytes \<Rightarrow> bool" where
  "ring_holds m r H \<longleftrightarrow> 0 < m \<and> m \<le> length r \<and> (\<forall>i < length H. length H \<le> i + m \<longrightarrow> r ! (i mod m) = H ! i)"

lemma sub_size_le [simp]: "b \<le> a \<Longrightarrow> a < 2 ^ 64 \<Longrightarrow> sub_size a b = a - b"
  by (simp add: sub_size_def nat_minus_as_int of_nat_diff)

lemma sub_size_less:
  assumes "a < b" "b < 2 ^ 64"
  shows "sub_size a b = 2 ^ 64 - (b - a)"
proof -
  have "(int a - int b) mod 2 ^ 64 = (int a - int b + 2 ^ 64) mod 2 ^ 64" by simp
  also have "\<dots> = int a - int b + 2 ^ 64" using assms by (intro mod_pos_pos_trivial) auto
  finally show ?thesis using assms by (simp add: sub_size_def c_size_def nat_eq_iff of_nat_diff)
qed

lemma add_size_small [simp]: "a + b < 2 ^ 64 \<Longrightarrow> add_size a b = a + b"
  by (simp add: add_size_def nat_int_add)

lemma nth_mem_put:
  "i + length q \<le> length r \<Longrightarrow> k < length r \<Longrightarrow>
   mem_put r i q ! k = (if k < i \<or> i + length q \<le> k then r ! k else q ! (k - i))"
  by (auto simp: mem_put_def nth_append)

lemma ring_put:
  assumes "ring_holds m r H" "length q \<le> m - length H mod m"
  shows "ring_holds m (mem_put r (length H mod m) q) (H @ q)"
proof -
  let ?p = "length H mod m"
  have m: "0 < m" "m \<le> length r" "?p < m" using assms(1) by (simp_all add: ring_holds_def)
  have fits: "?p + length q \<le> length r" using assms(2) m by linarith
  have "mem_put r ?p q ! (i mod m) = (H @ q) ! i" if i: "i < length (H @ q)" "length (H @ q) \<le> i + m" for i
  proof (cases "length H \<le> i")
    case True
    then obtain j where j: "i = length H + j" "j < length q" using i(1) le_iff_add by auto
    have "?p + j < m" using j(2) assms(2) m(3) by linarith
    then have "i mod m = ?p + j" unfolding j(1) by (metis mod_add_left_eq mod_less)
    then show ?thesis using j fits by (simp add: nth_mem_put)
  next
    case False
    define a where "a = length H div m"
    have H: "length H = m * a + ?p" by (simp add: a_def)
    have "i mod m < ?p \<or> ?p + length q \<le> i mod m"
    proof (cases "m * a \<le> i")
      case True
      then have "i mod m = i - m * a" using False H m(3)
        by (metis add_diff_inverse_nat le_add_diff_inverse mod_less mod_mult_self4 nat_add_left_cancel_less
            not_le order_less_trans)
      then show ?thesis using False H True by linarith
    next
      case lt: False
      then obtain b where b: "a = Suc b" by (cases a) auto
      have "m * b \<le> i" using i(2) H b lt by simp
      then obtain j where j: "i = m * b + j" using le_iff_add by blast
      have "j < m" using lt b j by simp
      then have "i mod m = j" by (simp add: j)
      then show ?thesis using i(2) H b j by simp
    qed
    moreover have "i mod m < length r" using m mod_less_divisor [of m i] by linarith
    ultimately have "mem_put r ?p q ! (i mod m) = r ! (i mod m)"
      using fits by (auto simp: nth_mem_put)
    then show ?thesis using assms(1) False i by (simp add: ring_holds_def nth_append)
  qed
  then show ?thesis using m fits by (simp add: ring_holds_def)
qed

text \<open>Where the byte \<open>k\<close> of the last \<open>n\<close> bytes is found.\<close>

lemma ring_index:
  assumes "ring_holds m r H" "n \<le> m" "n \<le> length H" "k < n"
  shows "r ! (if n \<le> length H mod m then length H mod m - n + k
              else if m - n + length H mod m + k < m then m - n + length H mod m + k
              else length H mod m + k - n) = H ! (length H - n + k)"
proof -
  let ?p = "length H mod m" let ?i = "length H - n + k"
  define a where "a = length H div m"
  have H: "length H = m * a + ?p" by (simp add: a_def)
  have m: "?p < m" using assms(1) by (simp add: ring_holds_def)
  have "?i mod m = (if n \<le> ?p + k then ?p + k - n else m + ?p + k - n)"
  proof (cases "n \<le> ?p + k")
    case True
    then obtain d where d: "?p + k = n + d" using le_iff_add by blast
    then have "?i = m * a + d" using H assms(3) by linarith
    moreover have "d < m" using m assms(4) d by linarith
    ultimately show ?thesis using True d by simp
  next
    case False
    then have "0 < a" using H assms(3) by (cases a) auto
    then obtain b where b: "a = Suc b" by (cases a) auto
    have "?i = m * b + (m + ?p + k - n)" using H b assms(2,3) False by simp
    moreover have "m + ?p + k - n < m" using False m by linarith
    ultimately show ?thesis using False by simp
  qed
  also have "\<dots> = (if n \<le> ?p then ?p - n + k else if m - n + ?p + k < m then m - n + ?p + k else ?p + k - n)"
    using assms(2,4) m by auto
  finally have e: "?i mod m = (if n \<le> ?p then ?p - n + k
      else if m - n + ?p + k < m then m - n + ?p + k else ?p + k - n)" .
  have "r ! (?i mod m) = H ! ?i" using assms unfolding ring_holds_def by simp
  then show ?thesis unfolding e .
qed

lemma ring_read_flat:
  assumes "ring_holds m r H" "n \<le> m" "n \<le> length H" "n \<le> length H mod m" "t \<le> n"
  shows "region r (length H mod m - n) (length H mod m - n + t) = take t (drop (length H - n) H)"
proof (rule nth_equalityI)
  have "length H mod m < m" "m \<le> length r" using assms(1) by (simp_all add: ring_holds_def)
  then have l: "length H mod m - n + t \<le> length r" using assms(4,5) by linarith
  then show "length (region r (length H mod m - n) (length H mod m - n + t)) = length (take t (drop (length H - n) H))"
    using assms(3,5) by simp
  fix k assume "k < length (region r (length H mod m - n) (length H mod m - n + t))"
  then have k: "k < t" using l by simp
  then show "region r (length H mod m - n) (length H mod m - n + t) ! k = take t (drop (length H - n) H) ! k"
    using ring_index [OF assms(1-3), of k] assms(3-5) l by simp
qed

text \<open>The two pieces of a read that wraps, of which only \<open>t\<close> bytes are wanted.\<close>

lemma ring_read_wrapped:
  assumes "ring_holds m r H" "n \<le> m" "n \<le> length H" "length H mod m < n" "t \<le> n"
  shows "let start = m - n + length H mod m in
     (if t \<le> m - start then region r start (start + t)
      else region r start m @ region r 0 (start + t - m)) = take t (drop (length H - n) H)"
proof -
  let ?p = "length H mod m"
  define start where "start = m - n + ?p"
  have m: "?p < m" "m \<le> length r" using assms(1) by (simp_all add: ring_holds_def)
  have st: "start < m" using assms(4) m(1) assms(2) by (simp add: start_def)
  have w: "start + t - m \<le> ?p" using assms(2,5) by (simp add: start_def)
  then have w2: "start + t - m \<le> length r" using m by linarith
  define out where "out = (if t \<le> m - start then region r start (start + t)
      else region r start m @ region r 0 (start + t - m))"
  have "out = take t (drop (length H - n) H)"
  proof (rule nth_equalityI)
    show len: "length out = length (take t (drop (length H - n) H))"
      using m st w2 assms(3,5) by (auto simp: out_def)
    fix k assume "k < length out"
    then have k: "k < t" "k < n" using len assms(3,5) by simp_all
    have "out ! k = r ! (if start + k < m then start + k else ?p + k - n)"
    proof (cases "start + k < m")
      case True
      then show ?thesis using k m st by (auto simp: out_def nth_append)
    next
      case False
      then have "start + k - m = ?p + k - n" using assms(2,4) by (simp add: start_def)
      then show ?thesis using k m st w2 False assms(2,4) by (auto simp: out_def nth_append start_def add.commute)
    qed
    also have "\<dots> = H ! (length H - n + k)"
      using ring_index [OF assms(1-3) k(2)] assms(4) unfolding start_def by auto
    finally show "out ! k = take t (drop (length H - n) H) ! k" using k assms(3) by simp
  qed
  then show ?thesis unfolding out_def Let_def start_def [symmetric] .
qed

section \<open>Appending\<close>

lemma mod_step:
  assumes "(n::nat) mod m + k \<le> m" "0 < m"
  shows "(n + k) mod m = (if n mod m + k = m then 0 else n mod m + k)"
  by (metis assms le_neq_implies_less mod_add_left_eq mod_less mod_self)

lemma append_loop_holds:
  assumes "ring_holds (max_file_size w) (log_file w) H" "max_file_size w < 2 ^ 64" "\<And>n. \<not> write_fails w n"
    "log_file_pos w = length H mod max_file_size w" "fd_pos w = log_file_pos w"
  shows "\<exists>f n. append_loop p w = Some (0, w\<lparr>log_file := f, log_file_pos := length (H @ p) mod max_file_size w,
       fd_pos := length (H @ p) mod max_file_size w, writes := n\<rparr>)
     \<and> ring_holds (max_file_size w) f (H @ p)"
  using assms
proof (induction "length p" arbitrary: p w H rule: less_induct)
  case less
  show ?case
  proof (cases "p = []")
    case True
    then show ?thesis using less.prems by (intro exI [of _ "log_file w"] exI [of _ "writes w"])
        (simp add: append_loop.simps)
  next
    case False
    let ?m = "max_file_size w" let ?p = "length H mod ?m"
    define k where "k = min (?m - ?p) (length p)"
    define q where "q = take k p"
    have m: "0 < ?m" "?p < ?m" using less.prems(1) by (simp_all add: ring_holds_def)
    then have k: "0 < k" "k \<le> length p" "?p + k \<le> ?m" using False by (auto simp: k_def)
    have q: "length q = k" using k(2) by (simp add: q_def)
    have sz: "sub_size ?m (log_file_pos w) = ?m - ?p" "add_size ?p k = ?p + k"
      using m k less.prems(2,4) by simp_all
    define w1 where "w1 = w\<lparr>writes := Suc (writes w), log_file := mem_put (log_file w) ?p q,
      log_file_pos := length (H @ q) mod ?m, fd_pos := length (H @ q) mod ?m\<rparr>"
    have pos: "length (H @ q) mod ?m = (if ?p + k = ?m then 0 else ?p + k)"
      using mod_step [OF k(3) m(1)] q by simp
    have "append_loop p w = append_loop (drop k p) w1"
      using False less.prems(3,4,5) sz pos
      by (subst append_loop.simps) (simp add: Let_def k_def [symmetric] q_def [symmetric] w1_def)
    moreover have e: "(H @ q) @ drop k p = H @ p" by (simp add: q_def)
    moreover have "\<exists>f n. append_loop (drop k p) w1 = Some (0, w1\<lparr>log_file := f,
        log_file_pos := length (H @ p) mod ?m, fd_pos := length (H @ p) mod ?m, writes := n\<rparr>)
        \<and> ring_holds ?m f (H @ p)"
      using less.hyps [of "drop k p" w1 "H @ q"] ring_put [OF less.prems(1), of q] less.prems(2,3) k q
      unfolding e by (simp add: w1_def)
    ultimately show ?thesis by (auto simp: w1_def)
  qed
qed

lemma cache_loop_holds:
  assumes "ring_holds m r H" "m < 2 ^ 64"
  shows "\<exists>r'. cache_loop p r m (length H mod m) = Some (r', length (H @ p) mod m)
     \<and> ring_holds m r' (H @ p) \<and> length r' = length r"
  using assms
proof (induction "length p" arbitrary: p r H rule: less_induct)
  case less
  show ?case
  proof (cases "p = []")
    case True
    then show ?thesis using less.prems by (simp add: cache_loop.simps)
  next
    case False
    let ?p = "length H mod m"
    define k where "k = min (m - ?p) (length p)"
    define q where "q = take k p"
    have m: "0 < m" "?p < m" "m \<le> length r" using less.prems(1) by (simp_all add: ring_holds_def)
    then have k: "0 < k" "k \<le> length p" "?p + k \<le> m" using False by (auto simp: k_def)
    have q: "length q = k" using k(2) by (simp add: q_def)
    have sz: "sub_size m ?p = m - ?p" "add_size ?p k = ?p + k" using m k less.prems(2) by simp_all
    have pos: "length (H @ q) mod m = (if ?p + k = m then 0 else ?p + k)"
      using mod_step [OF k(3) m(1)] q by simp
    have "cache_loop p r m ?p = cache_loop (drop k p) (mem_put r ?p q) m (length (H @ q) mod m)"
      using False sz pos by (subst cache_loop.simps) (simp add: Let_def k_def [symmetric] q_def [symmetric])
    moreover have e: "(H @ q) @ drop k p = H @ p" by (simp add: q_def)
    moreover have "\<exists>r'. cache_loop (drop k p) (mem_put r ?p q) m (length (H @ q) mod m)
        = Some (r', length (H @ p) mod m) \<and> ring_holds m r' (H @ p) \<and> length r' = length (mem_put r ?p q)"
      unfolding e [symmetric] using k q by (intro less.hyps ring_put less.prems) simp_all
    moreover have "length (mem_put r ?p q) = length r" using k m q by simp
    ultimately show ?thesis by auto
  qed
qed

text \<open>
  The invariant: the log was reset at offset \<open>b\<close> with checksum \<open>c\<close>, and \<open>H\<close> has been appended since.
\<close>

definition oldest :: "nat \<Rightarrow> nat \<Rightarrow> bytes \<Rightarrow> nat" where
  "oldest m b H = (if m \<le> length H then b + length H - m else b)"

definition cache_inv :: "swal \<Rightarrow> nat \<Rightarrow> bytes \<Rightarrow> bool" where
  "cache_inv w b H \<longleftrightarrow>
     (case ring_cache w of
        None \<Rightarrow> True
      | Some r \<Rightarrow> ring_holds (ring_cache_size w) r H \<and> ring_cache_size w < 2 ^ 64
          \<and> ring_cache_idx w = length H mod ring_cache_size w
          \<and> ring_cache_start_offset w = oldest (ring_cache_size w) b H)"

definition wal_inv :: "swal \<Rightarrow> nat \<Rightarrow> 64 word \<Rightarrow> bytes \<Rightarrow> bool" where
  "wal_inv w b c H \<longleftrightarrow>
     ring_holds (max_file_size w) (log_file w) H \<and> max_file_size w < 2 ^ 64
     \<and> log_file_pos w = length H mod max_file_size w \<and> fd_pos w = log_file_pos w
     \<and> log_start_offset w = oldest (max_file_size w) b H \<and> log_end_offset w = b + length H
     \<and> b + length H < 2 ^ 64 \<and> cksm_func w = Some crc64 \<and> cksm w = crc64 c H \<and> cache_inv w b H"

lemma crc64_append: "crc64 c (s @ t) = crc64 (crc64 c s) t"
  by (induction c s rule: crc64.induct) simp_all

lemma oldest_step:
  assumes "b + length (H @ p) < 2 ^ 64" "0 < m" "m < 2 ^ 64"
  shows "oldest m b (H @ p) =
     (if m \<le> sub_size (b + length (H @ p)) (oldest m b H) then sub_size (b + length (H @ p)) m else oldest m b H)"
  using assms by (auto simp: oldest_def)

lemma append_ok:
  assumes "wal_inv w b c H" "\<forall>n. \<not> write_fails w n" "b + length (H @ p) < 2 ^ 64"
  shows "\<exists>w'. swal_append p w = Some (0, w') \<and> wal_inv w' b c (H @ p) \<and> (\<forall>n. \<not> write_fails w' n)
     \<and> max_file_size w' = max_file_size w \<and> ring_cache_size w' = ring_cache_size w
     \<and> (ring_cache w' = None) = (ring_cache w = None)"
proof -
  have i: "ring_holds (max_file_size w) (log_file w) H" "max_file_size w < 2 ^ 64"
    "log_file_pos w = length H mod max_file_size w" "fd_pos w = log_file_pos w"
    "log_start_offset w = oldest (max_file_size w) b H" "log_end_offset w = b + length H"
    "cksm_func w = Some crc64" "cksm w = crc64 c H" "cache_inv w b H" "0 < max_file_size w"
    using assms(1) by (auto simp: wal_inv_def ring_holds_def)
  obtain f n where f: "append_loop p w = Some (0, w\<lparr>log_file := f, log_file_pos := length (H @ p) mod max_file_size w,
       fd_pos := length (H @ p) mod max_file_size w, writes := n\<rparr>)"
    "ring_holds (max_file_size w) f (H @ p)"
    using append_loop_holds [OF i(1,2) _ i(3,4)] assms(2) by blast
  have e: "add_size (b + length H) (length p) = b + length (H @ p)" using assms(3) by simp
  note st = oldest_step [OF assms(3)]
  show ?thesis
  proof (cases "ring_cache w")
    case None
    then show ?thesis
      using f i assms(2,3) st [of "max_file_size w"]
      by (simp add: swal_append_def Let_def wal_inv_def cache_inv_def e crc64_append)
  next
    case (Some r)
    let ?m = "ring_cache_size w"
    have r: "ring_holds ?m r H" "?m < 2 ^ 64" "ring_cache_idx w = length H mod ?m"
      "ring_cache_start_offset w = oldest ?m b H" "0 < ?m"
      using i(9) Some by (auto simp: cache_inv_def ring_holds_def)
    obtain r' where r': "cache_loop p r ?m (length H mod ?m) = Some (r', length (H @ p) mod ?m)"
      "ring_holds ?m r' (H @ p)"
      using cache_loop_holds [OF r(1,2)] by blast
    show ?thesis
      using f i assms(2,3) st [of "max_file_size w"] st [of ?m] r r' Some
      by (simp add: swal_append_def Let_def wal_inv_def cache_inv_def e crc64_append)
  qed
qed


section \<open>Replaying\<close>

definition cached :: "nat \<Rightarrow> swal \<Rightarrow> bool" where
  "cached offset w \<longleftrightarrow> ring_cache w \<noteq> None \<and> ring_cache_start_offset w \<le> offset"

text \<open>What a replay is meant to deliver: the bytes from the offset on, cut to a positive limit.\<close>

definition wanted :: "int \<Rightarrow> bytes \<Rightarrow> bytes" where
  "wanted lim d = (if 0 < lim then take (nat lim) d else d)"

definition cut :: "int \<Rightarrow> nat \<Rightarrow> nat" where
  "cut lim n = (if 0 < lim \<and> nat lim < n then nat lim else n)"

lemma cut_le [simp]: "cut lim n \<le> n"
  by (simp add: cut_def)

lemma wanted_cut: "length d = n \<Longrightarrow> wanted lim d = take (cut lim n) d"
  by (simp add: wanted_def cut_def)

lemma ring_holds_take: "ring_holds m r H \<Longrightarrow> ring_holds m (take m r) H"
  by (auto simp: ring_holds_def)

lemma flat_piece:
  assumes "ring_holds m r H" "n \<le> m" "n \<le> length H" "n \<le> length H mod m" "t \<le> n"
  shows "piece r (length H mod m - n) t = Some [take t (drop (length H - n) H)]"
proof -
  have "length H mod m < m" "m \<le> length r" using assms(1) by (simp_all add: ring_holds_def)
  then have "length H mod m - n + t \<le> length r" using assms(4,5) by linarith
  then show ?thesis using ring_read_flat [OF assms] by (simp add: piece_def)
qed

lemma wrapped_piece:
  assumes "ring_holds m r H" "m < 2 ^ 63" "n \<le> m" "n \<le> length H" "length H mod m < n" "t \<le> n"
  shows "\<exists>cs. wrapped_pieces r m (m - n + length H mod m) t = Some cs
     \<and> concat cs = take t (drop (length H - n) H)"
proof -
  let ?s = "m - n + length H mod m"
  have m: "length H mod m < m" "m \<le> length r" "?s < m" using assms(1,3,5) by (auto simp: ring_holds_def)
  note rd = ring_read_wrapped [OF assms(1,3-6), unfolded Let_def]
  show ?thesis
  proof (cases "t \<le> m - ?s")
    case True
    moreover have "sub_size m ?s = m - ?s" "?s + t \<le> length r" using True m assms(2) by simp_all
    ultimately show ?thesis using rd by (simp add: wrapped_pieces_def piece_def)
  next
    case False
    have "add_size ?s t = ?s + t" using m(3) assms(2,3,6) by (intro add_size_small) simp
    then have "sub_size (add_size ?s t) m = ?s + t - m" "?s + t - m \<le> length r" "sub_size m ?s = m - ?s"
      using False m assms(2,3,6) by simp_all
    then show ?thesis
      using rd False m by (simp add: wrapped_pieces_def piece_def two_pieces_def)
  qed
qed

text \<open>Both ways of reading the last \<open>n\<close> bytes, as the code chooses between them.\<close>

lemma read_pieces:
  assumes "ring_holds m r H" "m < 2 ^ 63" "n \<le> m" "n \<le> length H" "t \<le> n" "s = m - n + length H mod m"
  shows "\<exists>cs. (if n \<le> length H mod m then piece r (length H mod m - n) t else wrapped_pieces r m s t) = Some cs
     \<and> concat cs = take t (drop (length H - n) H)"
  using flat_piece [OF assms(1,3,4)] wrapped_piece [OF assms(1-4)] assms(5,6)
  by (cases "n \<le> length H mod m") simp_all

lemma oldest_range:
  assumes "oldest m b H \<le> off" "off \<le> b + length H"
  shows "b \<le> off" "b + length H - off \<le> m" "b + length H - off \<le> length H"
    "length H - (b + length H - off) = off - b"
  using assms by (auto simp: oldest_def split: if_splits)

lemma replay_total: "(if lim > 0 \<and> nat lim < n then nat lim else n) = cut lim n"
  by (simp add: cut_def)

lemma replay_ok:
  assumes "wal_inv w b c H" "max_file_size w < 2 ^ 63" "ring_cache_size w < 2 ^ 63"
    "log_start_offset w \<le> off \<or> cached off w" "off \<le> log_end_offset w"
    "lim \<le> 0 \<or> log_end_offset w - off \<le> nat lim \<or> cached off w"
  shows "\<exists>cs. fst (swal_replay off lim w) = Some cs \<and> concat cs = wanted lim (drop (off - b) H)"
proof -
  define n where "n = b + length H - off"
  have i: "ring_holds (max_file_size w) (log_file w) H" "log_file_pos w = length H mod max_file_size w"
    "log_start_offset w = oldest (max_file_size w) b H" "log_end_offset w = b + length H"
    "b + length H < 2 ^ 64" "cache_inv w b H"
    using assms(1) by (auto simp: wal_inv_def)
  have off: "off \<le> b + length H" using assms(5) i(4) by simp
  have tot: "sub_size (log_end_offset w) off = n" using off i(4,5) by (simp add: n_def)
  show ?thesis
  proof (cases "cached off w")
    case True
    let ?m = "ring_cache_size w"
    obtain r where r: "ring_cache w = Some r" using True by (auto simp: cached_def)
    have c: "ring_holds ?m r H" "ring_cache_idx w = length H mod ?m" "oldest ?m b H \<le> off"
      "ring_cache_start_offset w \<le> off"
      using i(6) r True by (auto simp: cache_inv_def cached_def)
    note rg = oldest_range [OF c(3) off, folded n_def]
    have "length (drop (off - b) H) = n" using rg(3,4) by simp
    note wt = wanted_cut [OF this, of lim]
    have "length H mod ?m < ?m" using c(1) by (simp add: ring_holds_def)
    then have "add_size (sub_size ?m n) (length H mod ?m) = ?m - n + length H mod ?m"
      using rg(2) assms(3) by simp
    note rp = read_pieces [OF c(1) assms(3) rg(2,3) cut_le this, of lim]
    have "fst (swal_replay off lim w) = (if n \<le> length H mod ?m then piece r (length H mod ?m - n) (cut lim n)
        else wrapped_pieces r ?m (add_size (sub_size ?m n) (length H mod ?m)) (cut lim n))"
      by (simp add: swal_replay_def Let_def tot replay_total r c(2,4) del: add_size_small)
    then show ?thesis using rp unfolding wt rg(4) by metis
  next
    case False
    let ?m = "max_file_size w"
    have o: "oldest ?m b H \<le> off" using assms(4) False i(3) by simp
    note rg = oldest_range [OF o off, folded n_def]
    have t: "cut lim n = n" using assms(6) False i(4) by (auto simp: cut_def n_def)
    have "length (drop (off - b) H) = n" using rg(3,4) by simp
    note wt = wanted_cut [OF this, of lim, unfolded t]
    have "length H mod ?m < ?m" using i(1) by (simp add: ring_holds_def)
    then have "add_size (sub_size ?m n) (length H mod ?m) = ?m - n + length H mod ?m"
      using rg(2) assms(2) by simp
    note rp = read_pieces [OF ring_holds_take [OF i(1)] assms(2) rg(2,3) order.refl this]
    have "fst (swal_replay off lim w) = (if n \<le> length H mod ?m then piece (take ?m (log_file w)) (length H mod ?m - n) n
        else wrapped_pieces (take ?m (log_file w)) ?m (add_size (sub_size ?m n) (length H mod ?m)) n)"
      using False o by (auto simp: swal_replay_def Let_def tot replay_total t i(2,3) cached_def)
    then show ?thesis using rp unfolding wt rg(4) by metis
  qed
qed

text \<open>
  C5: Replaying delivers the log: from any offset the log still holds, the pieces handed to the
  callback are, one after the other, exactly the bytes of the history from that offset on, and the
  read stays inside its buffer, whether it is served from the cache or from the file, and wherever
  it wraps. A limit cuts the bytes from the offset on to a prefix if the offset is in the cache.
\<close>

theorem replay_delivers:
  assumes "wal_inv w b c H" "max_file_size w < 2 ^ 63" "ring_cache_size w < 2 ^ 63"
    "log_start_offset w \<le> off \<or> cached off w" "off \<le> log_end_offset w"
    "lim \<le> 0 \<or> log_end_offset w - off \<le> nat lim \<or> cached off w"
  shows "\<exists>cs. fst (swal_replay off lim w) = Some cs \<and> concat cs = wanted lim (drop (off - b) H)"
  using replay_ok [OF assms] .

text \<open>
  A limited replay from the file is wrong when the range wraps: the start is computed from the
  limit instead of the distance to the end, so the callback gets the last bytes of the log instead
  of the bytes after the offset, and if less is asked for than lies after the wrap, the read starts
  behind the mapped file.
\<close>

theorem limited_file_replay_wrong:
  assumes "wal_inv w b c H" "max_file_size w < 2 ^ 63" "log_start_offset w \<le> off" "\<not> cached off w"
    "0 < lim" "off + nat lim < log_end_offset w" "log_file_pos w < log_end_offset w - off"
  shows "fst (swal_replay off lim w) = None \<and> nat lim < log_file_pos w
     \<or> (\<exists>cs. fst (swal_replay off lim w) = Some cs \<and> concat cs = drop (length H - nat lim) H)"
proof -
  let ?n = "b + length H - off" and ?m = "max_file_size w" and ?t = "nat lim" and ?p = "length H mod max_file_size w"
  have i: "ring_holds ?m (log_file w) H" "log_file_pos w = ?p"
    "log_start_offset w = oldest ?m b H" "log_end_offset w = b + length H" "b + length H < 2 ^ 64"
    using assms(1) by (auto simp: wal_inv_def)
  note f = ring_holds_take [OF i(1)]
  have off: "off \<le> b + length H" "?t < ?n" "?p < ?n" using assms(6,7) i(2,4) by simp_all
  have o: "oldest ?m b H \<le> off" using assms(3) i(3) by simp
  note rg = oldest_range [OF o off(1)]
  have m: "?p < ?m" "?m \<le> length (log_file w)" using i(1) by (simp_all add: ring_holds_def)
  have tot: "sub_size (log_end_offset w) off = ?n" using off i(4,5) by simp
  have "?m + ?m < 2 ^ 64" using assms(2) by simp
  have "?m - ?t + ?p < 2 ^ 64" using m(1) \<open>?m + ?m < 2 ^ 64\<close> by linarith
  moreover have "sub_size ?m ?t = ?m - ?t" using rg(2) off(2) assms(2) by simp
  ultimately have s: "add_size (sub_size ?m ?t) ?p = ?m - ?t + ?p" by simp
  have r: "fst (swal_replay off lim w) = wrapped_pieces (take ?m (log_file w)) ?m (?m - ?t + ?p) ?t"
    using assms(3,4,5) off(2,3) i(2)
    by (auto simp: swal_replay_def Let_def tot s cached_def)
  have le: "?t \<le> ?m" "?t \<le> length H" using off(2) rg(2,3) by linarith+
  consider "?p < ?t" | "?p = ?t" | "?t < ?p" by linarith
  then show ?thesis
  proof cases
    case 1
    from wrapped_piece [OF f assms(2) le 1 order.refl] show ?thesis using le(2) unfolding r by auto
  next
    case 2
    have "wrapped_pieces (take ?m (log_file w)) ?m ?m ?t = Some [[], region (take ?m (log_file w)) 0 ?t]"
      using assms(2,5) m le by (simp add: wrapped_pieces_def piece_def two_pieces_def)
    moreover have "region (take ?m (log_file w)) 0 ?t = drop (length H - ?t) H"
      using ring_read_flat [OF f le, of ?t] 2 le(2) by simp
    ultimately show ?thesis unfolding r using 2 le by simp
  next
    case 3
    have z: "?m < ?m - ?t + ?p" "?m - ?t + ?p < 2 ^ 64" "?m - ?t + ?p - ?m = ?p - ?t"
      using 3 le(1) m(1) \<open>?m + ?m < 2 ^ 64\<close> by linarith+
    have "sub_size ?m (?m - ?t + ?p) = 2 ^ 64 - (?p - ?t)" using sub_size_less [OF z(1,2)] unfolding z(3) .
    then have "?t \<le> sub_size ?m (?m - ?t + ?p)" using 3 m(1) le(1) \<open>?m + ?m < 2 ^ 64\<close> by linarith
    then have "wrapped_pieces (take ?m (log_file w)) ?m (?m - ?t + ?p) ?t = None"
      using 3 m assms(5) by (simp add: wrapped_pieces_def piece_def)
    then show ?thesis using 3 i(2) unfolding r by simp
  qed
qed

section \<open>The checksum is injective\<close>

text \<open>
  The high bytes of the table are pairwise distinct, so a step can be undone and different states of
  the checksum stay different under the same bytes.
\<close>

lemma crc64_tops:
  "map (\<lambda>x. uint x div 2 ^ 56) crc64_tab =
     [0, 122, 245, 143, 192, 186, 53, 79, 171, 209, 94, 36, 107, 17, 158, 228,
      125, 7, 136, 242, 189, 199, 72, 50, 214, 172, 35, 89, 22, 108, 227, 153,
      250, 128, 15, 117, 58, 64, 207, 181, 81, 43, 164, 222, 145, 235, 100, 30,
      135, 253, 114, 8, 71, 61, 178, 200, 44, 86, 217, 163, 236, 150, 25, 99,
      223, 165, 42, 80, 31, 101, 234, 144, 116, 14, 129, 251, 180, 206, 65, 59,
      162, 216, 87, 45, 98, 24, 151, 237, 9, 115, 252, 134, 201, 179, 60, 70,
      37, 95, 208, 170, 229, 159, 16, 106, 142, 244, 123, 1, 78, 52, 187, 193,
      88, 34, 173, 215, 152, 226, 109, 23, 243, 137, 6, 124, 51, 73, 198, 188,
      149, 239, 96, 26, 85, 47, 160, 218, 62, 68, 203, 177, 254, 132, 11, 113,
      232, 146, 29, 103, 40, 82, 221, 167, 67, 57, 182, 204, 131, 249, 118, 12,
      111, 21, 154, 224, 175, 213, 90, 32, 196, 190, 49, 75, 4, 126, 241, 139,
      18, 104, 231, 157, 210, 168, 39, 93, 185, 195, 76, 54, 121, 3, 140, 246,
      74, 48, 191, 197, 138, 240, 127, 5, 225, 155, 20, 110, 33, 91, 212, 174,
      55, 77, 194, 184, 247, 141, 2, 120, 156, 230, 105, 19, 92, 38, 169, 211,
      176, 202, 69, 63, 112, 10, 133, 255, 27, 97, 238, 148, 219, 161, 46, 84,
      205, 183, 56, 66, 13, 119, 248, 130, 102, 28, 147, 233, 166, 220, 83, 41]"
  by code_simp

lemma crc64_tab_length: "length crc64_tab = 256"
  using arg_cong [OF crc64_tops, of length] by simp

lemma crc64_tab_distinct: "distinct (map (\<lambda>x. uint x div 2 ^ 56) crc64_tab)"
  unfolding crc64_tops by simp

lemma crc64_tab_top:
  assumes "i < 256" "j < 256" "drop_bit 56 (crc64_tab ! i) = drop_bit 56 (crc64_tab ! j)"
  shows "i = j"
proof -
  have "uint (drop_bit 56 y) = uint y div 2 ^ 56" for y :: "64 word"
    unfolding drop_bit_eq_div [of 56 "uint y", symmetric] by (rule bit_eqI) (auto simp: bit_drop_bit_eq bit_unsigned_iff
        dest: bit_imp_le_length)
  then have "uint (crc64_tab ! i) div 2 ^ 56 = uint (crc64_tab ! j) div 2 ^ 56"
    using arg_cong [OF assms(3), of uint] by metis
  then show ?thesis
    using nth_eq_iff_index_eq [OF crc64_tab_distinct, of i j] crc64_tab_length assms(1,2) by simp
qed

lemma crc64_step_inj:
  assumes "crc64_step c x = crc64_step d x"
  shows "c = d"
proof -
  define i j where "i = unat (take_bit 8 c XOR word_of_nat (of_char x))"
    and "j = unat (take_bit 8 d XOR word_of_nat (of_char x))"
  define B :: "64 word" where "B = word_of_nat (of_char x)"
  have "(of_char x :: nat) < 2 ^ 8" using nat_of_char_less_256 [of x] by simp
  then have B: "take_bit 8 B = B" unfolding B_def take_bit_of_nat [symmetric]
    by (metis take_bit_nat_eq_self take_bit_of_nat)
  have ij: "i = unat (take_bit 8 (c XOR B))" "j = unat (take_bit 8 (d XOR B))"
    by (simp_all add: i_def j_def take_bit_xor B B_def [symmetric])
  have lt: "i < 256" "j < 256" unfolding ij unsigned_take_bit_eq using take_bit_nat_less_exp [of 8] by auto
  have eq: "crc64_tab ! i XOR drop_bit 8 c = crc64_tab ! j XOR drop_bit 8 d"
    using assms by (simp add: crc64_step_def i_def j_def)
  have "drop_bit 56 (drop_bit 8 y) = 0" for y :: "64 word"
    by (rule bit_eqI) (auto simp: bit_drop_bit_eq dest: bit_imp_le_length)
  then have "drop_bit 56 (crc64_tab ! i) = drop_bit 56 (crc64_tab ! j)"
    using arg_cong [OF eq, of "drop_bit 56"] by (simp add: drop_bit_xor)
  then have e: "i = j" by (rule crc64_tab_top [OF lt])
  have cancel: "x XOR (x XOR y) = y" for x y :: "64 word" by (simp add: xor.assoc [symmetric])
  have "drop_bit 8 c = drop_bit 8 d"
    using arg_cong [OF eq [unfolded e], of "\<lambda>y. crc64_tab ! j XOR y"] unfolding cancel .
  moreover have "take_bit 8 c = take_bit 8 d"
  proof -
    have "B XOR take_bit 8 c = B XOR take_bit 8 d"
      using e unfolding ij word_unat_eq_iff by (simp add: take_bit_xor B xor.commute)
    from arg_cong [OF this, of "\<lambda>y. B XOR y"] show ?thesis unfolding cancel .
  qed
  ultimately show "c = d" by (metis bits_ident)
qed

lemma crc64_inj: "crc64 c s = crc64 d s \<longleftrightarrow> c = d"
  by (induction s arbitrary: c d) (auto dest: crc64_step_inj)

section \<open>Resetting and reopening\<close>

lemma ring_holds_Nil: "ring_holds m r [] \<longleftrightarrow> 0 < m \<and> m \<le> length r"
  by (simp add: ring_holds_def)

lemma reset_inv:
  assumes "wal_inv w b c H" "off < 2 ^ 64"
  shows "wal_inv (swal_reset off ck w) off ck []"
  using assms by (auto simp: wal_inv_def swal_reset_def Let_def cache_inv_def ring_holds_def oldest_def
      split: option.splits)

text \<open>
  C30: Closing the log and opening it again without a cache loses nothing: the history, the offsets and
  the checksum are those of before.
\<close>

theorem reopen_keeps_log:
  assumes "wal_inv w b c H" "meta_opens d" "log_opens d" "opt_max_file_size opts = max_file_size w"
    "opt_ring_cache_size opts = 0" "opt_cksm_func opts = Some crc64"
  shows "\<exists>w'. swal_open opts (swal_close w d) = Inr w' \<and> wal_inv w' b c H"
proof -
  have "ring_holds (max_file_size w) (log_file w @ replicate (max_file_size w - length (log_file w)) NUL) H"
    using assms(1) by (simp add: wal_inv_def ring_holds_def)
  then show ?thesis
    using assms by (simp add: swal_open_def swal_close_def open_wal_logfile_def Let_def wal_inv_def cache_inv_def)
qed

text \<open>
  With a cache the reopened log is broken: the fresh cache claims to hold everything from the
  oldest offset on, so a replay from there delivers the bytes the allocator left in the cache (or
  reads outside it, if the log is longer than the cache), whatever was logged.
\<close>

theorem reopened_cache_garbage:
  assumes "wal_inv w b c H" "meta_opens d" "log_opens d" "cache_malloc d" "opt_max_file_size opts = max_file_size w"
    "m = opt_ring_cache_size opts" "0 < m" "m < 2 ^ 63" "max_file_size w < 2 ^ 63"
    "n = log_end_offset w - log_start_offset w" "0 < n"
  shows "\<exists>w'. swal_open opts (swal_close w d) = Inr w'
     \<and> fst (swal_replay (log_start_offset w) (- 1) w')
         = (if n \<le> m then Some [map (fresh d) [m - n..<m]] else None)"
proof -
  have i: "log_start_offset w = oldest (max_file_size w) b H" "log_end_offset w = b + length H"
    "b + length H < 2 ^ 64" "0 < max_file_size w"
    using assms(1) by (auto simp: wal_inv_def ring_holds_def)
  have le: "log_start_offset w \<le> log_end_offset w" "n \<le> max_file_size w"
    using i assms(10) by (auto simp: oldest_def)
  have tot: "sub_size (log_end_offset w) (log_start_offset w) = n" using le(1) i(2,3) assms(10) by simp
  let ?r = "map (fresh d) [0..<m]"
  obtain w' where w': "swal_open opts (swal_close w d) = Inr w'" "ring_cache w' = Some ?r" "ring_cache_idx w' = 0"
    "ring_cache_start_offset w' = log_start_offset w" "log_end_offset w' = log_end_offset w" "ring_cache_size w' = m"
    using assms(2-8) by (simp add: swal_open_def swal_close_def open_wal_logfile_def Let_def)
  have r: "fst (swal_replay (log_start_offset w) (- 1) w') = wrapped_pieces ?r m (add_size (sub_size m n) 0) n"
    using assms(11) by (simp add: swal_replay_def Let_def w' tot)
  have "wrapped_pieces ?r m (add_size (sub_size m n) 0) n = (if n \<le> m then Some [map (fresh d) [m - n..<m]] else None)"
  proof (cases "n \<le> m")
    case True
    have "region ?r (m - n) m = map (fresh d) [m - n..<m]"
      by (rule nth_equalityI) (use True in \<open>simp_all add: region_def\<close>)
    then show ?thesis using True assms(8) by (simp add: wrapped_pieces_def piece_def)
  next
    case False
    have z: "m < n" "n < 2 ^ 64" "n - m \<le> n" "m + n < 2 ^ 64" using False le(2) assms(8,9) by simp_all
    define s where "s = 2 ^ 64 - (n - m)"
    have s: "m < s" "s < 2 ^ 64" "2 ^ 64 - (s - m) = n" using z unfolding s_def by simp_all
    have "add_size (sub_size m n) 0 = s" using sub_size_less [OF z(1,2)] s(2) by (simp add: s_def)
    moreover have "sub_size m s = n" using sub_size_less [OF s(1,2)] s(3) by simp
    ultimately show ?thesis using False s(1) by (simp add: wrapped_pieces_def piece_def)
  qed
  then show ?thesis using w'(1) r by simp
qed

section \<open>A small log\<close>

text \<open>Five bytes in a file of four with a cache of two.\<close>

definition demo_wal :: swal where
  "demo_wal = \<lparr>log_start_offset = 1, log_end_offset = 5, log_file_pos = 1, cksm = crc64 0 ''abcde'',
     max_file_size = 4, ring_cache_size = 2, cksm_func = Some crc64, log_file = ''ebcd'', fd_pos = 1,
     mmap_buf = False, ring_cache = Some ''ed'', ring_cache_start_offset = 3, ring_cache_idx = 1,
     write_fails = (\<lambda>_. False), writes = 0\<rparr>"

lemma ring_holds_upt:
  "ring_holds m r H \<longleftrightarrow>
   0 < m \<and> m \<le> length r \<and> list_all (\<lambda>i. length H \<le> i + m \<longrightarrow> r ! (i mod m) = H ! i) [0..<length H]"
  by (auto simp: ring_holds_def list_all_iff)

lemma demo_rings: "ring_holds 4 ''ebcd'' ''abcde''" "ring_holds 2 ''ed'' ''abcde''"
  unfolding ring_holds_upt by code_simp+

declare crc64.simps [simp del]

lemma demo_wal_inv: "wal_inv demo_wal 0 0 ''abcde''"
  using demo_rings by (simp add: demo_wal_def wal_inv_def cache_inv_def oldest_def)


theorem replay_delivers_witness:
  "\<exists>cs. fst (swal_replay 1 0 demo_wal) = Some cs \<and> concat cs = ''bcde''"
  using replay_delivers [OF demo_wal_inv, of 1 0] by (simp add: demo_wal_def wanted_def)

theorem limited_file_replay_wrong_witness:
  "\<exists>cs. fst (swal_replay 1 2 demo_wal) = Some cs \<and> concat cs = ''de''"
  using limited_file_replay_wrong [OF demo_wal_inv, of 1 2] by (simp add: demo_wal_def cached_def)

definition demo_disk :: disk where
  "demo_disk = \<lparr>meta_opens = True, log_opens = True, cache_malloc = True, disk_start = 0, disk_end = 0,
     disk_pos = 0, disk_cksm = 0, disk_log = [], fresh = (\<lambda>_. CHR ''?''), disk_fails = (\<lambda>_. False)\<rparr>"

theorem reopen_keeps_log_witness:
  "\<exists>w'. swal_open \<lparr>opt_max_file_size = 4, opt_ring_cache_size = 0, opt_cksm_func = Some crc64\<rparr>
       (swal_close demo_wal demo_disk) = Inr w' \<and> wal_inv w' 0 0 ''abcde''"
  by (rule reopen_keeps_log [OF demo_wal_inv]) (simp_all add: demo_disk_def demo_wal_def)

theorem reopened_cache_garbage_witness:
  "\<exists>w'. swal_open \<lparr>opt_max_file_size = 4, opt_ring_cache_size = 8, opt_cksm_func = Some crc64\<rparr>
       (swal_close demo_wal demo_disk) = Inr w' \<and> fst (swal_replay 1 (- 1) w') = Some [''????'']"
proof -
  let ?o = "\<lparr>opt_max_file_size = 4, opt_ring_cache_size = 8, opt_cksm_func = Some crc64\<rparr>"
  have d: "meta_opens demo_disk" "log_opens demo_disk" "cache_malloc demo_disk"
    "opt_max_file_size ?o = max_file_size demo_wal" "8 = opt_ring_cache_size ?o" "0 < (8::nat)"
    "8 < (2::nat) ^ 63" "max_file_size demo_wal < 2 ^ 63"
    "4 = log_end_offset demo_wal - log_start_offset demo_wal" "0 < (4::nat)" "log_start_offset demo_wal = 1"
    by (simp_all add: demo_disk_def demo_wal_def)
  have "map (fresh demo_disk) [8 - 4..<8] = ''????''" by code_simp
  then show ?thesis using reopened_cache_garbage [OF demo_wal_inv d(1-10)] unfolding d(11) by simp
qed

section \<open>The contract of the log\<close>

text \<open>
  What a reader of the log relies on: the log holds a history, an append extends it, and a replay
  from an offset it keeps delivers the history from there, cut to the limit.
\<close>

locale log_store =
  fixes logged :: "'w \<Rightarrow> nat \<Rightarrow> bytes \<Rightarrow> bool"
    and extend :: "bytes \<Rightarrow> 'w \<Rightarrow> 'w"
    and replay :: "nat \<Rightarrow> int \<Rightarrow> 'w \<Rightarrow> bytes list option"
    and kept :: "nat \<Rightarrow> 'w \<Rightarrow> bool"
    and end_of :: "'w \<Rightarrow> nat"
  assumes logged_extend: "logged w b H \<Longrightarrow> b + length (H @ p) < 2 ^ 64 \<Longrightarrow> logged (extend p w) b (H @ p)"
    and logged_end: "logged w b H \<Longrightarrow> end_of w = b + length H"
    and logged_replay: "logged w b H \<Longrightarrow> kept off w \<Longrightarrow> off \<le> end_of w \<Longrightarrow>
      \<exists>cs. replay off lim w = Some cs \<and> concat cs = wanted lim (drop (off - b) H)"
    and kept_start: "logged w b H \<Longrightarrow> kept off w \<Longrightarrow> b \<le> off"
    and kept_later: "kept off w \<Longrightarrow> off \<le> off' \<Longrightarrow> kept off' w"
begin

definition slice :: "nat \<Rightarrow> int \<Rightarrow> 'w \<Rightarrow> bytes" where
  "slice off lim w = concat (the (replay off lim w))"

lemma slice_wanted: "logged w b H \<Longrightarrow> kept off w \<Longrightarrow> off \<le> end_of w \<Longrightarrow> slice off lim w = wanted lim (drop (off - b) H)"
  using logged_replay [of w b H off lim] by (auto simp: slice_def)

lemma slice_end: "logged w b H \<Longrightarrow> kept off w \<Longrightarrow> off \<le> end_of w \<Longrightarrow> off + length (slice off lim w) \<le> end_of w"
  using kept_start [of w b H off] by (auto simp: slice_wanted wanted_def logged_end min_def)

text \<open>A reader that takes one slice after the other.\<close>

fun slices :: "nat \<Rightarrow> int \<Rightarrow> nat \<Rightarrow> 'w \<Rightarrow> bytes" where
  "slices 0 lim off w = []"
| "slices (Suc n) lim off w = slice off lim w @ slices n lim (off + length (slice off lim w)) w"

lemma slices_prefix:
  assumes "logged w b H" "0 < lim"
  shows "kept off w \<Longrightarrow> off \<le> end_of w \<Longrightarrow> slices n lim off w = take (n * nat lim) (drop (off - b) H)"
proof (induction n arbitrary: off)
  case (Suc n)
  define s where "s = slice off lim w"
  have s: "s = take (nat lim) (drop (off - b) H)"
    using slice_wanted [OF assms(1) Suc.prems] assms(2) by (simp add: s_def wanted_def)
  have "off + length s \<le> end_of w" unfolding s_def by (rule slice_end [OF assms(1) Suc.prems])
  then have "slices n lim (off + length s) w = take (n * nat lim) (drop (off + length s - b) H)"
    using Suc.IH kept_later [OF Suc.prems(1)] by simp
  moreover have "drop (off + length s - b) H = drop (nat lim) (drop (off - b) H)"
    using kept_start [OF assms(1) Suc.prems(1)] by (simp add: s min_def add.commute)
  ultimately show ?case by (simp add: s_def [symmetric]) (simp add: s take_add)
qed simp

lemma slices_all:
  assumes "logged w b H" "0 < lim" "kept off w" "off \<le> end_of w" "end_of w - off \<le> n * nat lim"
  shows "slices n lim off w = drop (off - b) H"
  using slices_prefix [OF assms(1-4)] assms(5) kept_start [OF assms(1,3)] logged_end [OF assms(1)] by simp

lemma extend_all:
  "logged w b H \<Longrightarrow> b + length (H @ concat ps) < 2 ^ 64 \<Longrightarrow> logged (fold extend ps w) b (H @ concat ps)"
proof (induction ps arbitrary: w H)
  case (Cons p ps)
  have "logged (extend p w) b (H @ p)" using Cons.prems by (intro logged_extend) simp_all
  from Cons.IH [OF this] show ?case using Cons.prems(2) by simp
qed simp

end

text \<open>The log with a cache, on a disk that does not fail, is such a store for the offsets in the cache.\<close>

definition sound_log :: "swal \<Rightarrow> nat \<Rightarrow> bytes \<Rightarrow> bool" where
  "sound_log w b H \<longleftrightarrow> (\<exists>c. wal_inv w b c H) \<and> max_file_size w < 2 ^ 63 \<and> ring_cache_size w < 2 ^ 63
     \<and> (\<forall>n. \<not> write_fails w n)"

definition appended :: "bytes \<Rightarrow> swal \<Rightarrow> swal" where
  "appended p w = snd (the (swal_append p w))"

lemma sound_append:
  assumes "sound_log w b H" "b + length (H @ p) < 2 ^ 64"
  obtains w' where "swal_append p w = Some (0, w')" "sound_log w' b (H @ p)" "appended p w = w'"
    "(ring_cache w' = None) = (ring_cache w = None)"
proof -
  obtain c where c: "wal_inv w b c H" "\<forall>n. \<not> write_fails w n" using assms(1) by (auto simp: sound_log_def)
  from append_ok [OF c assms(2)] obtain w' where "swal_append p w = Some (0, w')" "sound_log w' b (H @ p)"
    "(ring_cache w' = None) = (ring_cache w = None)"
    using assms(1) unfolding sound_log_def by metis
  then show thesis using that by (simp add: appended_def)
qed

interpretation wal_log: log_store sound_log appended "\<lambda>off lim w. fst (swal_replay off lim w)" cached log_end_offset
proof
  fix w b H p off lim off'
  show "sound_log w b H \<Longrightarrow> b + length (H @ p) < 2 ^ 64 \<Longrightarrow> sound_log (appended p w) b (H @ p)"
    by (metis sound_append)
  show "sound_log w b H \<Longrightarrow> log_end_offset w = b + length H"
    by (auto simp: sound_log_def wal_inv_def)
  show "sound_log w b H \<Longrightarrow> cached off w \<Longrightarrow> off \<le> log_end_offset w \<Longrightarrow>
      \<exists>cs. fst (swal_replay off lim w) = Some cs \<and> concat cs = wanted lim (drop (off - b) H)"
    using replay_ok unfolding sound_log_def by blast
  show "sound_log w b H \<Longrightarrow> cached off w \<Longrightarrow> b \<le> off"
    by (auto simp: sound_log_def wal_inv_def cached_def cache_inv_def oldest_def split: if_splits)
  show "cached off w \<Longrightarrow> off \<le> off' \<Longrightarrow> cached off' w"
    by (auto simp: cached_def)
qed

lemma demo_sound: "sound_log demo_wal 0 ''abcde''"
  using demo_wal_inv by (auto simp: sound_log_def demo_wal_def)

end
