(* ===== verification/String_Helper.thy ===== *)
theory String_Helper
  imports Decimal
begin

text \<open>
  Splitting, trimming and searching strings (\<open>common/util/string_helper.cpp\<close>) and the comparison of
  version numbers (\<open>common/util/version_helper.hpp\<close>), which the replication handshake uses.
\<close>

section \<open>Searching\<close>

fun search :: "string \<Rightarrow> string \<Rightarrow> nat option" where
  "search pat [] = (if pat = [] then Some 0 else None)"
| "search pat (x # xs) = (if prefix pat (x # xs) then Some 0 else map_option Suc (search pat xs))"

text \<open>\<open>std::string::find\<close> from a position; \<open>None\<close> is \<open>npos\<close>.\<close>

definition str_find :: "string \<Rightarrow> string \<Rightarrow> nat \<Rightarrow> nat option" where
  "str_find s pat start =
     (if start \<le> length s then map_option (\<lambda>i. start + i) (search pat (drop start s)) else None)"

section \<open>Splitting and trimming\<close>

text \<open>With an empty separator the loop does not advance, so it is a partial function.\<close>

partial_function (option) split_loop ::
    "string \<Rightarrow> string \<Rightarrow> nat \<Rightarrow> string list \<Rightarrow> string list option" where
  "split_loop s sep start ret =
     (if start < length s
      then case str_find s sep start of
             Some found \<Rightarrow>
               split_loop s sep (found + length sep)
                 (if start < found then ret @ [take (found - start) (drop start s)] else ret)
           | None \<Rightarrow> Some (ret @ [drop start s])
      else Some ret)"

definition split_string :: "string \<Rightarrow> string \<Rightarrow> string list option" where
  "split_string s sep = split_loop s sep 0 []"

definition trim_set :: string where
  "trim_set = [CHR 0x20, CHR 0x09, CHR 0x0D, CHR 0x0A]"

function trim_end :: "string \<Rightarrow> string \<Rightarrow> nat \<Rightarrow> nat \<Rightarrow> nat" where
  "trim_end s cset start e =
     (if start < e \<and> e < length s \<and> s ! e \<in> set cset then trim_end s cset start (e - 1) else e)"
  by pat_completeness auto
termination
  by (relation "measure (\<lambda>(s, cset, start, e). e)") auto

declare trim_end.simps [simp del]

definition trim_string :: "string \<Rightarrow> string \<Rightarrow> string" where
  "trim_string s cset =
     (if s = [] then s
      else let start = length (takeWhile (\<lambda>c. c \<in> set cset) s);
               e = trim_end s cset start (length s - 1)
           in take (e + 1 - start) (drop start s))"

section \<open>Versions\<close>

text \<open>
  Extraction of an \<open>int\<close> from a stream in the classic locale: blanks are skipped, an overflowing number
  is clamped, and a failed extraction stores zero and makes every later one leave its target alone
  (\<open>None\<close>: the target is uninitialised here). The state of the stream is the rest and the fail flag.
\<close>

definition stream_int :: "string \<times> bool \<Rightarrow> int option \<times> string \<times> bool" where
  "stream_int st =
     (let (s, failed) = st in
      if failed then (None, s, True)
      else
        let s = dropWhile is_space s;
            neg = (s \<noteq> [] \<and> hd s = CHR ''-'');
            t = (if s \<noteq> [] \<and> hd s \<in> {CHR ''-'', CHR ''+''} then tl s else s);
            ds = takeWhile is_digit t;
            v = (if neg then - 1 else 1) * foldl (\<lambda>n d. 10 * n + int (of_char d) - 48) 0 ds
        in if s = [] then (None, s, True)
           else if ds = [] then (Some 0, t, True)
           else if v > 2147483647 then (Some 2147483647, drop (length ds) t, True)
           else if v < - 2147483648 then (Some (- 2147483648), drop (length ds) t, True)
           else (Some v, drop (length ds) t, False))"

definition stream_get :: "string \<times> bool \<Rightarrow> string \<times> bool" where
  "stream_get st = (let (s, failed) = st in if failed \<or> s = [] then (s, True) else (tl s, False))"

fun parse_version :: "nat \<Rightarrow> string \<times> bool \<Rightarrow> int option list" where
  "parse_version 0 st = []"
| "parse_version (Suc n) st =
     (let (v, st) = stream_int st in v # parse_version n (stream_get st))"

text \<open>\<open>None\<close>: the comparison reads a number that was never set.\<close>

fun compare_parts :: "int option list \<Rightarrow> int option list \<Rightarrow> int option" where
  "compare_parts (Some a # as) (Some b # bs) = (if a \<noteq> b then Some (a - b) else compare_parts as bs)"
| "compare_parts [] [] = Some 0"
| "compare_parts _ _ = None"

definition compare_version :: "nat \<Rightarrow> string \<Rightarrow> string \<Rightarrow> int option" where
  "compare_version n a b = compare_parts (parse_version n (a, False)) (parse_version n (b, False))"

section \<open>Splitting at a character\<close>

fun fields :: "char \<Rightarrow> string \<Rightarrow> string list" where
  "fields c [] = [[]]"
| "fields c (x # xs) =
     (if x = c then [] # fields c xs else (x # hd (fields c xs)) # tl (fields c xs))"

definition tokens :: "char \<Rightarrow> string \<Rightarrow> string list" where
  "tokens c s = filter (\<lambda>t. t \<noteq> []) (fields c s)"

lemma fields_nonempty [simp]: "fields c s \<noteq> []"
  by (cases s) simp_all

lemma fields_free: "c \<notin> set s \<Longrightarrow> fields c s = [s]"
  by (induction s) auto

lemma fields_split: "c \<notin> set s \<Longrightarrow> fields c (s @ c # t) = s # fields c t"
  by (induction s) auto

lemma tokens_simps:
  "c \<notin> set s \<Longrightarrow> tokens c s = (if s = [] then [] else [s])"
  "c \<notin> set s \<Longrightarrow> tokens c (s @ c # t) = (if s = [] then [] else [s]) @ tokens c t"
  by (simp_all add: tokens_def fields_free fields_split)

lemma search_char: "search [c] s = memchr c s"
  by (induction s) auto

lemma split_loop_tokens: "split_loop s [c] start ret = Some (ret @ tokens c (drop start s))"
proof (induction "length s - start" arbitrary: start ret rule: less_induct)
  case less
  show ?case
  proof (cases "start < length s")
    case False
    then show ?thesis by (simp add: split_loop.simps tokens_def)
  next
    case True
    let ?d = "drop start s"
    show ?thesis
    proof (cases "memchr c ?d")
      case None
      then have "c \<notin> set ?d" by (simp add: memchr_None)
      then have "tokens c ?d = [?d]" using True by (simp add: tokens_simps)
      then show ?thesis using True None by (simp add: split_loop.simps str_find_def search_char)
    next
      case (Some k)
      then have k: "k < length ?d" "?d ! k = c" "c \<notin> set (take k ?d)" by (simp_all add: memchr_Some)
      have "?d = take k ?d @ c # drop (start + k + 1) s"
        using k(1,2) id_take_nth_drop [of k ?d] by (simp add: add.commute)
      then have "tokens c ?d = (if take k ?d = [] then [] else [take k ?d]) @ tokens c (drop (start + k + 1) s)"
        by (subst \<open>?d = _\<close>) (rule tokens_simps(2) [OF k(3)])
      moreover have "take k ?d = [] \<longleftrightarrow> k = 0" using True by auto
      moreover have "split_loop s [c] (start + k + 1) r = Some (r @ tokens c (drop (start + k + 1) s))" for r
        using True k(1) by (intro less.hyps) simp
      ultimately show ?thesis
        using True Some by (subst split_loop.simps) (auto simp: str_find_def search_char)
    qed
  qed
qed

lemma split_string_tokens: "split_string s [c] = Some (tokens c s)"
  by (simp add: split_string_def split_loop_tokens)

end
