(* ===== verification/Repl_Service.thy ===== *)
theory Repl_Service
  imports Wal Dispatch Frame_Decoder String_Helper
begin

text \<open>
  The replication service of \<open>replication/repl.cpp\<close>: a node is the server with its write-ahead log, the
  metadata kept with the log, the slaves it feeds and the link to its own master. This theory holds
  the state and the operations of the service; \<open>Repl_Master\<close> and \<open>Repl_Slave\<close> hold the two roles.
\<close>

section \<open>The state of a node\<close>

datatype SyncState =
    SYNC_STATE_INVALID | SYNC_STATE_START | SYNC_STATE_WAITING_SNAPSHOT | SYNC_STATE_SYNCING_SNAPSHOT
  | SYNC_STATE_SYNCED

datatype SlaveState =
    SLAVE_STATE_INVALID | SLAVE_STATE_CONNECTING | SLAVE_STATE_WAITING_AUTH_REPLY
  | SLAVE_STATE_WAITING_INFO_REPLY | SLAVE_STATE_WAITING_REPLCONF_REPLY
  | SLAVE_STATE_WAITING_PSYNC_REPLY | SLAVE_STATE_WAITING_SNAPSHOT | SLAVE_STATE_LOADING_SNAPSHOT
  | SLAVE_STATE_SYNCED

record ReplMeta =
  data_cksm :: "64 word"
  data_offset :: nat
  select_db :: DBID
  serverkey :: bytes

text \<open>A slave as its master sees it. The object is attached to the channel of the slave.\<close>

record SlaveConn =
  server_key :: string
  sync_offset :: int
  ack_offset :: int
  sync_cksm :: "64 word"
  acktime :: nat
  slave_port :: nat
  isRedisSlave :: bool
  sync_state :: SyncState

definition SlaveConn_new :: SlaveConn where
  "SlaveConn_new = \<lparr>server_key = [], sync_offset = 0, ack_offset = 0, sync_cksm = 0, acktime = 0,
     slave_port = 0, isRedisSlave = False, sync_state = SYNC_STATE_INVALID\<rparr>"

text \<open>
  A channel of the replication thread: what has been written to it, whether it has been told to
  close, its write interest, the file being sent, the attached object and the remote host.
\<close>

record chan =
  ch_out :: bytes
  ch_closed :: bool
  auto_disable_writing :: bool
  ch_writing :: bool
  ch_file :: "bytes option"
  ch_attach :: "SlaveConn option"
  ch_host :: "string option"

text \<open>\<open>snapshot_bytes\<close> are the contents of the snapshot file, \<open>snapshot_open\<close> tells if it can be written.\<close>

record SlaveStatus =
  server_is_redis :: bool
  server_support_psync :: bool
  slave_state :: SlaveState
  cached_master_runid :: string
  cached_master_repl_offset :: int
  cached_master_repl_cksm :: "64 word"
  replaying_wal :: bool
  snapshot_open :: bool
  snapshot_bytes :: bytes

definition SlaveStatus_new :: SlaveStatus where
  "SlaveStatus_new = \<lparr>server_is_redis = False, server_support_psync = False,
     slave_state = SLAVE_STATE_INVALID, cached_master_runid = [], cached_master_repl_offset = 0,
     cached_master_repl_cksm = 0, replaying_wal = False, snapshot_open = False,
     snapshot_bytes = []\<rparr>"

definition SlaveStatus_Clear :: "SlaveStatus \<Rightarrow> SlaveStatus" where
  "SlaveStatus_Clear x = x\<lparr>server_is_redis := False, server_support_psync := False,
     slave_state := SLAVE_STATE_INVALID, cached_master_runid := [], cached_master_repl_offset := 0,
     cached_master_repl_cksm := 0, snapshot_open := False\<rparr>"

record ReplConfig =
  masterauth :: string
  primary_port :: nat
  repl_timeout :: nat
  slave_cleardb_before_fullresync :: bool

text \<open>
  \<open>m_slaves\<close> maps the identifier of a channel to the object attached to it, or to a null pointer
  (\<open>False\<close>) once the channel is closed. \<open>wall_time\<close> is the time in seconds; \<open>stuck\<close> records a read outside a buffer, an
  exception no one catches or a loop that does not end.
\<close>

record 's node =
  node_db :: "'s server"
  m_wal :: swal
  repl_meta :: ReplMeta
  repl_cfg :: ReplConfig
  m_slaves :: "(nat, bool) tree_map"
  m_repl_noslaves_since :: nat
  chans :: "nat \<Rightarrow> chan"
  m_client :: "nat option"
  m_cmd_recved_time :: nat
  m_master_link_down_time :: nat
  m_decoder :: message_decoder
  m_status :: SlaveStatus
  m_routine_ts :: nat
  m_lastinteraction :: nat
  wall_time :: nat
  stuck :: bool

definition upd_chan :: "nat \<Rightarrow> (chan \<Rightarrow> chan) \<Rightarrow> 's node \<Rightarrow> 's node" where
  "upd_chan ch f n = n\<lparr>chans := (chans n)(ch := f (chans n ch))\<rparr>"

definition chan_write :: "nat \<Rightarrow> bytes \<Rightarrow> 's node \<Rightarrow> 's node" where
  "chan_write ch b = upd_chan ch (\<lambda>x. x\<lparr>ch_out := ch_out x @ b\<rparr>)"

definition chan_close :: "nat \<Rightarrow> 's node \<Rightarrow> 's node" where
  "chan_close ch = upd_chan ch (\<lambda>x. x\<lparr>ch_closed := True\<rparr>)"

definition on_meta :: "(ReplMeta \<Rightarrow> ReplMeta) \<Rightarrow> 's node \<Rightarrow> 's node" where
  "on_meta f n = n\<lparr>repl_meta := f (repl_meta n)\<rparr>"

definition on_status :: "(SlaveStatus \<Rightarrow> SlaveStatus) \<Rightarrow> 's node \<Rightarrow> 's node" where
  "on_status f n = n\<lparr>m_status := f (m_status n)\<rparr>"

definition on_db :: "('s server \<Rightarrow> 's server) \<Rightarrow> 's node \<Rightarrow> 's node" where
  "on_db f n = n\<lparr>node_db := f (node_db n)\<rparr>"

lemma chans_upd [simp]:
  "chans (upd_chan ch f n) ch' = (if ch' = ch then f (chans n ch) else chans n ch')"
  by (simp add: upd_chan_def)

lemma node_fields [simp]:
  "m_wal (upd_chan ch f n) = m_wal n" "repl_meta (upd_chan ch f n) = repl_meta n"
  "node_db (upd_chan ch f n) = node_db n" "m_slaves (upd_chan ch f n) = m_slaves n"
  "m_status (upd_chan ch f n) = m_status n" "stuck (upd_chan ch f n) = stuck n"
  "m_client (upd_chan ch f n) = m_client n"
  "m_wal (on_meta g n) = m_wal n" "repl_meta (on_meta g n) = g (repl_meta n)"
  "node_db (on_meta g n) = node_db n" "chans (on_meta g n) = chans n" "m_status (on_meta g n) = m_status n"
  "stuck (on_meta g n) = stuck n" "m_client (on_meta g n) = m_client n"
  "m_wal (on_status h n) = m_wal n" "repl_meta (on_status h n) = repl_meta n"
  "node_db (on_status h n) = node_db n" "chans (on_status h n) = chans n"
  "m_status (on_status h n) = h (m_status n)" "stuck (on_status h n) = stuck n" "m_client (on_status h n) = m_client n"
  "m_wal (on_db k n) = m_wal n" "repl_meta (on_db k n) = repl_meta n" "node_db (on_db k n) = k (node_db n)"
  "chans (on_db k n) = chans n" "m_status (on_db k n) = m_status n" "stuck (on_db k n) = stuck n"
  "m_client (on_db k n) = m_client n"
  by (simp_all add: upd_chan_def on_meta_def on_status_def on_db_def)

section \<open>Metadata\<close>

definition SERVER_KEY_SIZE :: nat where "SERVER_KEY_SIZE = 40"

text \<open>The part of \<open>Init\<close> after the log is open, with the random key.\<close>

definition init_meta :: "string \<Rightarrow> ReplMeta \<Rightarrow> ReplMeta" where
  "init_meta randomkey m =
     (if serverkey m ! 0 = NUL
      then m\<lparr>serverkey := mem_put (mem_put (serverkey m) 0 (take SERVER_KEY_SIZE randomkey)) SERVER_KEY_SIZE [NUL],
             data_cksm := 0, data_offset := 0, select_db := 0\<rparr>
      else m)"

definition GetServerKey :: "'s node \<Rightarrow> string" where
  "GetServerKey n = c_str (serverkey (repl_meta n))"

definition SetServerKey :: "string \<Rightarrow> 's node \<Rightarrow> 's node" where
  "SetServerKey s = on_meta (\<lambda>m. m\<lparr>serverkey := mem_put (serverkey m) 0 (take SERVER_KEY_SIZE s)\<rparr>)"

section \<open>Writing the log\<close>

definition WAL_write :: "bytes \<Rightarrow> 's node \<Rightarrow> int \<times> 's node" where
  "WAL_write cmd n =
     (case swal_append cmd (m_wal n) of
        None \<Rightarrow> (0, n\<lparr>stuck := True\<rparr>)
      | Some (err, w) \<Rightarrow> (c_int (int (length cmd)), n\<lparr>m_wal := w\<rparr>))"

definition select_command :: "DBID \<Rightarrow> bytes" where
  "select_command db = ''select '' @ dec_str db @ CRLF"

definition WAL_write_db :: "DBID \<Rightarrow> bytes \<Rightarrow> 's node \<Rightarrow> int \<times> 's node" where
  "WAL_write_db db cmd n =
     (let (len, n) =
        (if select_db (repl_meta n) \<noteq> db \<and> master_host (m_cfg (node_db n)) = []
         then let (l, n) = WAL_write (select_command db) n
              in (l, on_meta (\<lambda>m. m\<lparr>select_db := db\<rparr>) n)
         else (0, n));
          (l, n) = WAL_write cmd n
      in (c_int (len + l), n))"

section \<open>Offsets and checksums\<close>

text \<open>\<open>None\<close>: the replay reads outside its buffer.\<close>

definition IsValidOffsetCksm :: "int \<Rightarrow> 64 word \<Rightarrow> 's node \<Rightarrow> bool option" where
  "IsValidOffsetCksm offset ck n =
     (if \<not> (offset > 0 \<and> nat offset \<le> swal_end_offset (m_wal n) \<and> nat offset \<ge> swal_start_offset (m_wal n))
      then Some False
      else if ck = 0 then Some True
      else
        let dest = swal_cksm (m_wal n);
            lim = c_int64 (int (swal_end_offset (m_wal n)) - offset)
        in map_option (\<lambda>cs. foldl crc64 ck cs = dest) (fst (swal_replay (nat offset) lim (m_wal n))))"

definition WALCksm :: "'s node \<Rightarrow> 64 word" where "WALCksm n = swal_cksm (m_wal n)"
definition WALStartOffset :: "'s node \<Rightarrow> nat" where "WALStartOffset n = swal_start_offset (m_wal n)"
definition WALEndOffset :: "'s node \<Rightarrow> nat" where "WALEndOffset n = swal_end_offset (m_wal n)"

definition ResetWALOffsetCksm :: "nat \<Rightarrow> 64 word \<Rightarrow> 's node \<Rightarrow> 's node" where
  "ResetWALOffsetCksm offset ck n = n\<lparr>m_wal := swal_reset offset ck (m_wal n)\<rparr>"

definition ResetDataOffsetCksm :: "nat \<Rightarrow> 64 word \<Rightarrow> 's node \<Rightarrow> 's node" where
  "ResetDataOffsetCksm offset ck = on_meta (\<lambda>m. m\<lparr>data_cksm := ck, data_offset := offset\<rparr>)"

definition DataOffset :: "'s node \<Rightarrow> nat" where "DataOffset n = data_offset (repl_meta n)"
definition DataCksm :: "'s node \<Rightarrow> 64 word" where "DataCksm n = data_cksm (repl_meta n)"

text \<open>The new checksum is seeded with the offset, not with the old checksum.\<close>

definition UpdateDataOffsetCksm :: "bytes \<Rightarrow> 's node \<Rightarrow> 's node" where
  "UpdateDataOffsetCksm d =
     on_meta (\<lambda>m. let off = c_size (int (data_offset m) + int (length d))
                  in m\<lparr>data_offset := off, data_cksm := crc64 (word_of_nat off) d\<rparr>)"

section \<open>A checksum identifies its offset's history\<close>

lemma foldl_crc64: "foldl crc64 ck cs = crc64 ck (concat cs)"
  by (induction cs arbitrary: ck) (simp_all add: crc64_append crc64.simps)

lemma valid_offset_rule:
  assumes "wal_inv (m_wal n) b c H" "max_file_size (m_wal n) < 2 ^ 63" "ring_cache_size (m_wal n) < 2 ^ 63"
    "b + length H < 2 ^ 63"
  shows "IsValidOffsetCksm off ck n = Some (0 < off \<and> WALStartOffset n \<le> nat off \<and> nat off \<le> WALEndOffset n
     \<and> (ck = 0 \<or> ck = crc64 c (take (nat off - b) H)))"
proof (cases "0 < off \<and> WALStartOffset n \<le> nat off \<and> nat off \<le> WALEndOffset n \<and> ck \<noteq> 0")
  case False
  then show ?thesis
    by (auto simp: IsValidOffsetCksm_def WALStartOffset_def WALEndOffset_def)
next
  case True
  let ?w = "m_wal n"
  have i: "log_end_offset ?w = b + length H" "cksm ?w = crc64 c H" using assms(1) by (auto simp: wal_inv_def)
  have off: "0 < off" "log_start_offset ?w \<le> nat off" "nat off \<le> log_end_offset ?w" "ck \<noteq> 0"
    using True by (simp_all add: WALStartOffset_def WALEndOffset_def swal_start_offset_def swal_end_offset_def)
  define lim where "lim = c_int64 (int (swal_end_offset ?w) - off)"
  have lim: "lim = int (b + length H) - off"
    using off(1,3) assms(4) unfolding lim_def i(1) swal_end_offset_def by (intro c_int64_id) auto
  have nl: "nat lim = b + length H - nat off"
    using nat_diff_distrib' [of "int (b + length H)" off] off(1) unfolding lim by (simp del: of_nat_add)
  have "lim \<le> 0 \<or> log_end_offset ?w - nat off \<le> nat lim \<or> cached (nat off) ?w"
    unfolding nl i(1) by simp
  from replay_ok [OF assms(1-3) _ off(3) this] off(2) obtain cs
    where cs: "fst (swal_replay (nat off) lim ?w) = Some cs" "concat cs = wanted lim (drop (nat off - b) H)"
    by blast
  have "b \<le> nat off" using off(2) assms(1) by (auto simp: wal_inv_def oldest_def split: if_splits)
  then have "length (drop (nat off - b) H) = nat lim" using off(1,3) unfolding nl by (simp add: i(1))
  then have "concat cs = drop (nat off - b) H" using cs(2) by (auto simp: wanted_def)
  moreover have "crc64 c H = crc64 (crc64 c (take (nat off - b) H)) (drop (nat off - b) H)"
    by (simp add: crc64_append [symmetric])
  ultimately have "IsValidOffsetCksm off ck n = Some (ck = crc64 c (take (nat off - b) H))"
    using off cs(1) unfolding IsValidOffsetCksm_def lim_def [symmetric]
    by (simp add: Let_def swal_start_offset_def swal_end_offset_def swal_cksm_def foldl_crc64 i(2) crc64_inj)
  then show ?thesis using True by simp
qed


section \<open>What is written to the log\<close>

lemma WAL_write_sound:
  assumes "sound_log (m_wal n) b H" "b + length (H @ p) < 2 ^ 64"
  shows "snd (WAL_write p n) = n\<lparr>m_wal := appended p (m_wal n)\<rparr>"
    "sound_log (appended p (m_wal n)) b (H @ p)"
    "(ring_cache (appended p (m_wal n)) = None) = (ring_cache (m_wal n) = None)"
proof -
  obtain w' where w': "swal_append p (m_wal n) = Some (0, w')" "sound_log w' b (H @ p)"
    "appended p (m_wal n) = w'" "(ring_cache w' = None) = (ring_cache (m_wal n) = None)"
    by (rule sound_append [OF assms])
  show "snd (WAL_write p n) = n\<lparr>m_wal := appended p (m_wal n)\<rparr>"
    "sound_log (appended p (m_wal n)) b (H @ p)"
    "(ring_cache (appended p (m_wal n)) = None) = (ring_cache (m_wal n) = None)"
    using w' by (simp_all add: WAL_write_def)
qed

text \<open>The bytes that a logged command adds: a change of the database goes in front.\<close>

definition log_record :: "'s node \<Rightarrow> DBID \<Rightarrow> bytes \<Rightarrow> bytes" where
  "log_record n db cmd =
     (if select_db (repl_meta n) \<noteq> db \<and> master_host (m_cfg (node_db n)) = []
      then select_command db @ cmd else cmd)"

lemma WAL_write_db_sound:
  assumes "sound_log (m_wal n) b H" "b + length (H @ log_record n db cmd) < 2 ^ 64"
  shows "\<exists>w'. sound_log w' b (H @ log_record n db cmd) \<and> (ring_cache w' = None) = (ring_cache (m_wal n) = None)
     \<and> snd (WAL_write_db db cmd n) = n\<lparr>m_wal := w', repl_meta := (repl_meta n)\<lparr>select_db :=
         (if master_host (m_cfg (node_db n)) = [] then db else select_db (repl_meta n))\<rparr>\<rparr>"
proof (cases "select_db (repl_meta n) \<noteq> db \<and> master_host (m_cfg (node_db n)) = []")
  case True
  then have r: "log_record n db cmd = select_command db @ cmd" by (simp add: log_record_def)
  have a: "b + length (H @ select_command db) < 2 ^ 64" using assms(2) by (simp add: r)
  let ?n1 = "on_meta (\<lambda>m. m\<lparr>select_db := db\<rparr>) (n\<lparr>m_wal := appended (select_command db) (m_wal n)\<rparr>)"
  note w1 = WAL_write_sound [OF assms(1) a]
  have w2: "sound_log (m_wal ?n1) b (H @ select_command db)" using w1(2) by simp
  have "b + length ((H @ select_command db) @ cmd) < 2 ^ 64" using assms(2) by (simp add: r)
  note w3 = WAL_write_sound [OF w2 this]
  show ?thesis
    by (rule exI [of _ "appended cmd (m_wal ?n1)"])
      (use True w1 w3 r in \<open>simp add: WAL_write_db_def Let_def split_beta on_meta_def\<close>)
next
  case False
  then have r: "log_record n db cmd = cmd" by (auto simp: log_record_def)
  note w = WAL_write_sound [OF assms(1) assms(2) [unfolded r]]
  have "n = n\<lparr>repl_meta := (repl_meta n)\<lparr>select_db :=
      (if master_host (m_cfg (node_db n)) = [] then db else select_db (repl_meta n))\<rparr>\<rparr>"
    using False by (cases "repl_meta n") auto
  then show ?thesis
    by (intro exI [of _ "appended cmd (m_wal n)"])
      (use False w r in \<open>auto simp: WAL_write_db_def Let_def split_beta\<close>)
qed

text \<open>A small node for examples: the log of \<open>demo_wal\<close>, and a slave in step at offset 3.\<close>

definition demo_node :: "unit node" where
  "demo_node = \<lparr>node_db = demo_server, m_wal = demo_wal,
     repl_meta = \<lparr>data_cksm = 0, data_offset = 0, select_db = 0, serverkey = replicate 41 NUL\<rparr>,
     repl_cfg = \<lparr>masterauth = [], primary_port = 6379, repl_timeout = 10,
       slave_cleardb_before_fullresync = False\<rparr>,
     m_slaves = [(0, True)], m_repl_noslaves_since = 0,
     chans = (\<lambda>_. \<lparr>ch_out = [], ch_closed = False, auto_disable_writing = False, ch_writing = False,
       ch_file = None, ch_attach = Some (SlaveConn_new\<lparr>sync_offset := 3, sync_state := SYNC_STATE_SYNCED\<rparr>),
       ch_host = None\<rparr>),
     m_client = None, m_cmd_recved_time = 0, m_master_link_down_time = 0, m_decoder = message_decoder_new,
     m_status = SlaveStatus_new, m_routine_ts = 0, m_lastinteraction = 0, wall_time = 0, stuck = False\<rparr>"


end
