(* ===== verification/Repl_Master.thy ===== *)
theory Repl_Master
  imports Repl_Service
begin

text \<open>
  The master of \<open>replication/master.cpp\<close>: slaves are added by \<open>PSYNC\<close>, continued or sent a snapshot, and
  then fed the log. The central result is that a slave that is fed receives the history of the log
  from its offset on without gap or repetition, and catches up.
\<close>

definition MAX_SEND_CACHE_SIZE :: int where "MAX_SEND_CACHE_SIZE = 8192"
definition ERR_SNAPSHOT_SAVING :: int where "ERR_SNAPSHOT_SAVING = - 101"

text \<open>
  What the snapshot files provide, for each type (\<open>True\<close> for the format of Redis): the offset and the
  checksum of the log they belong to, their contents if they can be opened, the result of saving one
  and how often the save calls back.
\<close>

record snapshot_env =
  snap_offset :: "bool \<Rightarrow> nat"
  snap_cksm :: "bool \<Rightarrow> 64 word"
  snap_file :: "bool \<Rightarrow> bytes option"
  snap_save :: "bool \<Rightarrow> int"
  save_ticks :: nat

definition slave_of :: "nat \<Rightarrow> 's node \<Rightarrow> SlaveConn" where
  "slave_of ch n = (case ch_attach (chans n ch) of None \<Rightarrow> SlaveConn_new | Some s \<Rightarrow> s)"

definition on_slave :: "nat \<Rightarrow> (SlaveConn \<Rightarrow> SlaveConn) \<Rightarrow> 's node \<Rightarrow> 's node" where
  "on_slave ch f n = upd_chan ch (\<lambda>x. x\<lparr>ch_attach := Some (f (slave_of ch n))\<rparr>) n"

definition live_slaves :: "'s node \<Rightarrow> nat list" where
  "live_slaves n = map fst (filter snd (m_slaves n))"

section \<open>Feeding the log\<close>

definition send_wal_toslave :: "nat \<Rightarrow> bytes \<Rightarrow> 's node \<Rightarrow> 's node" where
  "send_wal_toslave ch p n =
     (let n = chan_write ch p n;
          n = on_slave ch (\<lambda>s. s\<lparr>sync_offset := c_int64 (sync_offset s + int (length p))\<rparr>) n
      in upd_chan ch (\<lambda>x. x\<lparr>auto_disable_writing := (c_size (sync_offset (slave_of ch n)) = WALEndOffset n),
                            ch_writing := True\<rparr>) n)"

definition SyncWAL_slave :: "nat \<Rightarrow> 's node \<Rightarrow> 's node" where
  "SyncWAL_slave ch n =
     (let off = c_size (sync_offset (slave_of ch n))
      in if off < WALStartOffset n \<or> off > WALEndOffset n then chan_close ch n
         else if off < WALEndOffset n
         then
           let (pieces, w) = swal_replay off MAX_SEND_CACHE_SIZE (m_wal n);
               n = n\<lparr>m_wal := w\<rparr>
           in case pieces of
                None \<Rightarrow> n\<lparr>stuck := True\<rparr>
              | Some ps \<Rightarrow> foldl (\<lambda>n p. send_wal_toslave ch p n) n ps
         else n)"

text \<open>
  \<open>SyncWAL\<close> for all slaves. It leaves out a slave whose offset is the start of the log, where the end
  was meant; such a slave is fed only when its channel becomes writable.
\<close>

fun SyncWAL_loop :: "nat list \<Rightarrow> bool \<times> 's node \<Rightarrow> bool \<times> 's node" where
  "SyncWAL_loop [] st = st"
| "SyncWAL_loop (ch # chs) (no_lag_slave, n) =
     SyncWAL_loop chs
       (if sync_state (slave_of ch n) = SYNC_STATE_SYNCED
        then if c_size (sync_offset (slave_of ch n)) \<noteq> WALStartOffset n
             then (False, SyncWAL_slave ch n) else (no_lag_slave, n)
        else (False, n))"

definition SyncWAL :: "'s node \<Rightarrow> 's node" where
  "SyncWAL n =
     (let (no_lag_slave, n) = SyncWAL_loop (live_slaves n) (True, n)
      in if no_lag_slave then n\<lparr>m_wal := swal_clear_replay_cache (m_wal n)\<rparr> else n)"

text \<open>\<open>WriteWALCallback\<close>: the replication thread takes a posted command.\<close>

definition WriteWALCallback :: "'s node \<Rightarrow> 's node" where
  "WriteWALCallback n =
     (case wal_queue (node_db n) of
        [] \<Rightarrow> n
      | (dbid, buf) # q \<Rightarrow>
          SyncWAL (snd (WAL_write_db dbid (AsString buf) (on_db (\<lambda>s. s\<lparr>wal_queue := q\<rparr>) n))))"

definition ping_command :: bytes where
  "ping_command = ''ping'' @ CRLF"

definition OnHeartbeat :: "'s node \<Rightarrow> 's node" where
  "OnHeartbeat n =
     (if master_host (m_cfg (node_db n)) \<noteq> [] then n
      else if m_slaves n = []
      then if m_repl_noslaves_since n = 0 then n\<lparr>m_repl_noslaves_since := wall_time n\<rparr> else n
      else SyncWAL (snd (WAL_write ping_command (n\<lparr>m_repl_noslaves_since := 0\<rparr>))))"

definition ClearNilSlave :: "'s node \<Rightarrow> 's node" where
  "ClearNilSlave n = n\<lparr>m_slaves := filter snd (m_slaves n)\<rparr>"

section \<open>Snapshots\<close>

definition SendSnapshotToSlave :: "snapshot_env \<Rightarrow> nat \<Rightarrow> 's node \<Rightarrow> 's node" where
  "SendSnapshotToSlave V ch n =
     (let redis = isRedisSlave (slave_of ch n);
          n = on_slave ch (\<lambda>s. s\<lparr>sync_state := SYNC_STATE_SYNCING_SNAPSHOT,
                sync_offset := c_int64 (int (snap_offset V redis)), sync_cksm := snap_cksm V redis\<rparr>) n;
          s = slave_of ch n;
          n = chan_write ch (''+FULLRESYNC '' @ GetServerKey n @ '' '' @ stringfromll (sync_offset s)
                @ (if redis then [] else '' '' @ dec_str (unat (sync_cksm s))) @ CRLF) n
      in case snap_file V redis of
           None \<Rightarrow> chan_close ch n
         | Some file \<Rightarrow>
             upd_chan ch (\<lambda>x. x\<lparr>ch_file := Some file\<rparr>)
               (chan_write ch (''$'' @ dec_str (length file) @ CRLF) n))"

definition OnSnapshotFileSendComplete :: "nat \<Rightarrow> 's node \<Rightarrow> 's node" where
  "OnSnapshotFileSendComplete ch n =
     (case ch_file (chans n ch) of
        None \<Rightarrow> n
      | Some file \<Rightarrow>
          on_slave ch (\<lambda>s. s\<lparr>sync_state := SYNC_STATE_SYNCED\<rparr>)
            (upd_chan ch (\<lambda>x. x\<lparr>ch_file := None, ch_out := ch_out x @ file\<rparr>) n))"

definition OnSnapshotFileSendFailure :: "nat \<Rightarrow> 's node \<Rightarrow> 's node" where
  "OnSnapshotFileSendFailure ch n = upd_chan ch (\<lambda>x. x\<lparr>ch_file := None\<rparr>) n"

definition waiting_snapshot :: "nat \<Rightarrow> 's node \<Rightarrow> bool" where
  "waiting_snapshot ch n \<longleftrightarrow> sync_state (slave_of ch n) = SYNC_STATE_WAITING_SNAPSHOT"

definition FullResyncSlaves :: "snapshot_env \<Rightarrow> bool \<Rightarrow> 's node \<Rightarrow> 's node" where
  "FullResyncSlaves V is_redis_type n =
     fold (\<lambda>ch n. if waiting_snapshot ch n \<and> is_redis_type = isRedisSlave (slave_of ch n)
                  then SendSnapshotToSlave V ch n else n) (live_slaves n) n"

text \<open>The callback of a save: a line feed keeps the waiting slaves alive; without one it aborts.\<close>

definition DumpRDBRoutine :: "'s node \<Rightarrow> int \<times> 's node" where
  "DumpRDBRoutine n =
     (let waiting = filter (\<lambda>ch. waiting_snapshot ch n) (live_slaves n)
      in (if waiting \<noteq> [] then 0 else - 1, fold (\<lambda>ch. chan_write ch [LF]) waiting n))"

definition CreateSnapshot :: "snapshot_env \<Rightarrow> bool \<Rightarrow> 's node \<Rightarrow> 's node" where
  "CreateSnapshot V is_redis_type n =
     (let n = ((\<lambda>n. snd (DumpRDBRoutine n)) ^^ save_ticks V) n;
          ret = snap_save V is_redis_type
      in if ret = 0 then FullResyncSlaves V is_redis_type n
         else if ret = ERR_SNAPSHOT_SAVING then n
         else fold (\<lambda>ch n. if waiting_snapshot ch n then chan_close ch n else n) (live_slaves n) n)"

section \<open>Adding slaves\<close>

definition IsSynced :: "'s node \<Rightarrow> bool" where
  "IsSynced n \<longleftrightarrow> m_client n \<noteq> None \<and> slave_state (m_status n) = SLAVE_STATE_SYNCED"

definition SyncSlave :: "snapshot_env \<Rightarrow> nat \<Rightarrow> 's node \<Rightarrow> 's node" where
  "SyncSlave V ch n =
     (let s = slave_of ch n
      in if master_host (m_cfg (node_db n)) \<noteq> [] \<and> \<not> IsSynced n then chan_close ch n
         else if server_key s = [] then on_slave ch (\<lambda>s. s\<lparr>sync_state := SYNC_STATE_SYNCING_SNAPSHOT\<rparr>) n
         else
           case (if server_key s = GetServerKey n
                 then IsValidOffsetCksm (sync_offset s) (sync_cksm s) n else Some False) of
             None \<Rightarrow> n\<lparr>stuck := True\<rparr>
           | Some True \<Rightarrow>
               SyncWAL (on_slave ch (\<lambda>s. s\<lparr>sync_state := SYNC_STATE_SYNCED\<rparr>)
                 (chan_write ch (''+CONTINUE'' @ CRLF) n))
           | Some False \<Rightarrow>
               CreateSnapshot V (isRedisSlave s)
                 (on_slave ch (\<lambda>s. s\<lparr>sync_state := SYNC_STATE_WAITING_SNAPSHOT\<rparr>) n))"

text \<open>The channel moves to the replication thread with a pipeline of its own.\<close>

definition AddSlaveConn :: "snapshot_env \<Rightarrow> nat \<Rightarrow> 's node \<Rightarrow> 's node" where
  "AddSlaveConn V ch n =
     (let n = on_slave ch (\<lambda>s. s\<lparr>sync_state := SYNC_STATE_START\<rparr>) n;
          n = n\<lparr>m_slaves := map_put ch True (m_slaves n)\<rparr>;
          n = upd_chan ch (\<lambda>x. x\<lparr>auto_disable_writing := False\<rparr>) n
      in SyncSlave V ch n)"

text \<open>The options of \<open>PSYNC\<close>: the state of the slave, \<open>None\<close> for a malformed checksum. The third component is a read past the arguments.\<close>

fun psync_options :: "string list \<Rightarrow> SlaveConn \<Rightarrow> SlaveConn option \<times> bool" where
  "psync_options [] s = (Some s, False)"
| "psync_options [o'] s = (if o' = ''cksm'' then (None, True) else (Some s, False))"
| "psync_options (o' # v # rest) s =
     (if o' = ''cksm''
      then case string_touint64 v of
             None \<Rightarrow> (None, False)
           | Some c \<Rightarrow> psync_options rest (s\<lparr>isRedisSlave := False, sync_cksm := word_of_nat c\<rparr>)
      else psync_options rest s)"

definition AddSlave :: "snapshot_env \<Rightarrow> nat \<Rightarrow> RedisCommandFrame \<Rightarrow> 's node \<Rightarrow> 's node" where
  "AddSlave V ch cmd n =
     (let n = on_slave ch id n
      in if strcaseeq (m_cmd cmd) ''sync''
         then AddSlaveConn V ch (on_slave ch (\<lambda>s. s\<lparr>isRedisSlave := True, sync_offset := - 1\<rparr>) n)
         else if length (m_args cmd) < 2 then n\<lparr>stuck := True\<rparr>
         else case string_toint64 (arg cmd 1) of
                None \<Rightarrow> chan_close ch (on_slave ch (\<lambda>s. s\<lparr>server_key := arg cmd 0\<rparr>) n)
              | Some off \<Rightarrow>
                  let n = on_slave ch (\<lambda>s. s\<lparr>server_key := arg cmd 0, sync_offset := off,
                            isRedisSlave := True\<rparr>) n
                  in case psync_options (drop 2 (m_args cmd)) (slave_of ch n) of
                       (Some s, _) \<Rightarrow> AddSlaveConn V ch (on_slave ch (\<lambda>_. s) n)
                     | (None, out) \<Rightarrow> if out then n\<lparr>stuck := True\<rparr> else chan_close ch n)"

definition SetSlavePort :: "nat \<Rightarrow> nat \<Rightarrow> 's node \<Rightarrow> 's node" where
  "SetSlavePort ch port = on_slave ch (\<lambda>s. s\<lparr>slave_port := port\<rparr>)"

definition DisconnectAllSlaves :: "'s node \<Rightarrow> 's node" where
  "DisconnectAllSlaves n = fold chan_close (live_slaves n) n"

definition ConnectedSlaves :: "'s node \<Rightarrow> nat" where
  "ConnectedSlaves n = length (m_slaves n)"

section \<open>Events of the channels of slaves\<close>

definition SlaveChannelClosed :: "nat \<Rightarrow> 's node \<Rightarrow> 's node" where
  "SlaveChannelClosed ch n =
     (case map_find ch (m_slaves n) of
        None \<Rightarrow> n
      | Some _ \<Rightarrow> n\<lparr>m_slaves := map_put ch False (m_slaves n)\<rparr>)"

definition ChannelWritable :: "nat \<Rightarrow> 's node \<Rightarrow> 's node" where
  "ChannelWritable ch n =
     (case map_find ch (m_slaves n) of
        None \<Rightarrow> n
      | Some live \<Rightarrow>
          if live \<and> sync_state (slave_of ch n) = SYNC_STATE_SYNCED then SyncWAL_slave ch n else n)"

definition SlaveMessageReceived :: "nat \<Rightarrow> RedisCommandFrame \<Rightarrow> 's node \<Rightarrow> 's node" where
  "SlaveMessageReceived ch cmd n =
     (if strcaseeq (m_cmd cmd) ''replconf'' \<and> length (m_args cmd) = 2 \<and> strcaseeq (arg cmd 0) ''ack''
      then case string_toint64 (arg cmd 1) of
             None \<Rightarrow> n
           | Some off \<Rightarrow>
               if map_find ch (m_slaves n) = Some True
               then on_slave ch (\<lambda>s. s\<lparr>acktime := c_uint32 (int (wall_time n)), ack_offset := off\<rparr>) n
               else n
      else n)"

section \<open>Feeding is exact\<close>

lemma slave_of_upd [simp]:
  "slave_of ch (on_slave ch' f n) = (if ch = ch' then f (slave_of ch n) else slave_of ch n)"
  "ch_out (chans (on_slave ch' f n) ch) = ch_out (chans n ch)"
  by (simp_all add: slave_of_def on_slave_def)

lemma slave_of_same [simp]:
  "slave_of ch (chan_write ch' p n) = slave_of ch n" "slave_of ch (n\<lparr>m_wal := w\<rparr>) = slave_of ch n"
  "ch_out (chans (chan_write ch' p n) ch) = (if ch = ch' then ch_out (chans n ch) @ p else ch_out (chans n ch))"
  by (simp_all add: slave_of_def chan_write_def)

lemma on_slave_fields [simp]:
  "m_wal (on_slave ch f n) = m_wal n" "repl_meta (on_slave ch f n) = repl_meta n"
  "node_db (on_slave ch f n) = node_db n" "m_slaves (on_slave ch f n) = m_slaves n"
  "stuck (on_slave ch f n) = stuck n"
  "m_wal (chan_write ch p n) = m_wal n" "repl_meta (chan_write ch p n) = repl_meta n"
  "node_db (chan_write ch p n) = node_db n" "m_slaves (chan_write ch p n) = m_slaves n"
  "stuck (chan_write ch p n) = stuck n"
  by (simp_all add: on_slave_def chan_write_def)

text \<open>What feeding may change: the channel and the object of one slave.\<close>

definition same_but_slave :: "nat \<Rightarrow> 's node \<Rightarrow> 's node \<Rightarrow> bool" where
  "same_but_slave ch n n' \<longleftrightarrow> m_wal n' = m_wal n \<and> repl_meta n' = repl_meta n \<and> node_db n' = node_db n
     \<and> m_slaves n' = m_slaves n \<and> stuck n' = stuck n
     \<and> (\<forall>ch'. ch' \<noteq> ch \<longrightarrow> chans n' ch' = chans n ch')"

lemma send_wal_one:
  assumes "0 \<le> sync_offset (slave_of ch n)" "sync_offset (slave_of ch n) + int (length p) < 2 ^ 63"
  shows "same_but_slave ch n (send_wal_toslave ch p n)
     \<and> ch_out (chans (send_wal_toslave ch p n) ch) = ch_out (chans n ch) @ p
     \<and> slave_of ch (send_wal_toslave ch p n)
         = (slave_of ch n)\<lparr>sync_offset := sync_offset (slave_of ch n) + int (length p)\<rparr>"
proof -
  have "c_int64 (sync_offset (slave_of ch n) + int (length p)) = sync_offset (slave_of ch n) + int (length p)"
    using assms by simp
  then show ?thesis
    by (simp add: same_but_slave_def send_wal_toslave_def Let_def) (simp add: slave_of_def on_slave_def chan_write_def)
qed

lemma send_wal_all:
  assumes "0 \<le> sync_offset (slave_of ch n)" "sync_offset (slave_of ch n) + int (length (concat ps)) < 2 ^ 63"
  shows "let n' = foldl (\<lambda>n p. send_wal_toslave ch p n) n ps in
     same_but_slave ch n n' \<and> ch_out (chans n' ch) = ch_out (chans n ch) @ concat ps
     \<and> slave_of ch n' = (slave_of ch n)\<lparr>sync_offset := sync_offset (slave_of ch n) + int (length (concat ps))\<rparr>"
  using assms
proof (induction ps arbitrary: n)
  case Nil
  then show ?case by (simp add: same_but_slave_def)
next
  case (Cons p ps)
  let ?n = "send_wal_toslave ch p n"
  have one: "same_but_slave ch n ?n" "ch_out (chans ?n ch) = ch_out (chans n ch) @ p"
    "slave_of ch ?n = (slave_of ch n)\<lparr>sync_offset := sync_offset (slave_of ch n) + int (length p)\<rparr>"
    using send_wal_one [of ch n p] Cons.prems by simp_all
  have "0 \<le> sync_offset (slave_of ch ?n)" "sync_offset (slave_of ch ?n) + int (length (concat ps)) < 2 ^ 63"
    using Cons.prems one(3) by simp_all
  from Cons.IH [OF this] one show ?case
    by (simp add: Let_def same_but_slave_def add.assoc)
qed

text \<open>A slave in step: its offset is in the log and in the cache.\<close>

definition in_step :: "'s node \<Rightarrow> nat \<Rightarrow> bool" where
  "in_step n ch \<longleftrightarrow> 0 \<le> sync_offset (slave_of ch n)
     \<and> WALStartOffset n \<le> nat (sync_offset (slave_of ch n))
     \<and> nat (sync_offset (slave_of ch n)) \<le> WALEndOffset n
     \<and> cached (nat (sync_offset (slave_of ch n))) (m_wal n)"

lemma cached_replay_state: "cached off w \<Longrightarrow> snd (swal_replay off k w) = w"
  by (auto simp: swal_replay_def Let_def cached_def)

lemma SyncWAL_slave_feeds:
  assumes "sound_log (m_wal n) b H" "b + length H < 2 ^ 63" "in_step n ch"
  shows "let off = nat (sync_offset (slave_of ch n)); s = take 8192 (drop (off - b) H); n' = SyncWAL_slave ch n in
     same_but_slave ch n n' \<and> ch_out (chans n' ch) = ch_out (chans n ch) @ s
     \<and> slave_of ch n' = (slave_of ch n)\<lparr>sync_offset := int (off + length s)\<rparr>
     \<and> off + length s \<le> b + length H \<and> in_step n' ch"
proof -
  define so where "so = sync_offset (slave_of ch n)"
  define off where "off = nat so"
  define s where "s = take 8192 (drop (off - b) H)"
  have st: "0 \<le> so" "WALStartOffset n \<le> off" "off \<le> WALEndOffset n" "cached off (m_wal n)"
    using assms(3) by (simp_all add: in_step_def so_def off_def)
  have e: "WALEndOffset n = b + length H" using wal_log.logged_end [OF assms(1)]
    by (simp add: WALEndOffset_def swal_end_offset_def)
  have cs: "c_size so = off" using st(1,3) assms(2) by (simp add: off_def e)
  have b: "b \<le> off" by (rule wal_log.kept_start [OF assms(1) st(4)])
  have le: "off + length s \<le> b + length H" using st(3) b by (simp add: s_def e)
  define n' where "n' = SyncWAL_slave ch n"
  have main: "same_but_slave ch n n' \<and> ch_out (chans n' ch) = ch_out (chans n ch) @ s
      \<and> slave_of ch n' = (slave_of ch n)\<lparr>sync_offset := int (off + length s)\<rparr>"
  proof (cases "off < WALEndOffset n")
    case False
    then have "s = []" "n' = n" using st(2,3) b cs
      by (simp_all add: s_def e n'_def SyncWAL_slave_def so_def [symmetric])
    moreover have "(slave_of ch n)\<lparr>sync_offset := int off\<rparr> = slave_of ch n"
      using st(1) by (simp add: off_def so_def)
    ultimately show ?thesis by (simp add: same_but_slave_def)
  next
    case True
    have "off \<le> log_end_offset (m_wal n)" using st(3) by (simp add: WALEndOffset_def swal_end_offset_def)
    from wal_log.logged_replay [OF assms(1) st(4) this, of MAX_SEND_CACHE_SIZE] obtain ps
      where ps: "fst (swal_replay off MAX_SEND_CACHE_SIZE (m_wal n)) = Some ps" "concat ps = s"
      by (auto simp: wanted_def MAX_SEND_CACHE_SIZE_def s_def)
    have r: "swal_replay off MAX_SEND_CACHE_SIZE (m_wal n) = (Some ps, m_wal n)"
      using ps(1) cached_replay_state [OF st(4)] by (simp add: prod_eq_iff)
    have n': "n' = foldl (\<lambda>n p. send_wal_toslave ch p n) n ps"
      using True st(2,3) cs by (simp add: n'_def SyncWAL_slave_def so_def [symmetric] Let_def r)
    have "so + int (length (concat ps)) < 2 ^ 63" using le assms(2) st(1) by (simp add: ps(2) off_def)
    then have "let n' = foldl (\<lambda>n p. send_wal_toslave ch p n) n ps in
       same_but_slave ch n n' \<and> ch_out (chans n' ch) = ch_out (chans n ch) @ concat ps
       \<and> slave_of ch n' = (slave_of ch n)\<lparr>sync_offset := so + int (length (concat ps))\<rparr>"
      using send_wal_all [of ch n ps] st(1) unfolding so_def by blast
    then show ?thesis using st(1) unfolding Let_def n' [symmetric] ps(2) by (simp add: off_def)
  qed
  then have "in_step n' ch"
    using st le wal_log.kept_later [OF st(4), of "off + length s"] e
    by (simp add: in_step_def same_but_slave_def WALStartOffset_def WALEndOffset_def del: of_nat_add)
  then show ?thesis using main le unfolding Let_def so_def [symmetric] off_def [symmetric] s_def [symmetric] n'_def [symmetric]
    by blast
qed

section \<open>The stream a slave receives\<close>

text \<open>
  The states of a master while it feeds its slaves: posted commands are written to the log, and
  channels become writable. The cache must not be overrun: after each write the slaves that are fed
  are still in step.
\<close>

definition all_in_step :: "'s node \<Rightarrow> bool" where
  "all_in_step n \<longleftrightarrow> (\<forall>ch. sync_state (slave_of ch n) = SYNC_STATE_SYNCED \<longrightarrow> in_step n ch)"

definition take_task :: "'s node \<Rightarrow> 's node" where
  "take_task n =
     (case wal_queue (node_db n) of
        [] \<Rightarrow> n
      | (dbid, buf) # q \<Rightarrow> snd (WAL_write_db dbid (AsString buf) (on_db (\<lambda>s. s\<lparr>wal_queue := q\<rparr>) n)))"

definition room :: "'s node \<Rightarrow> bool" where
  "room n \<longleftrightarrow> (case wal_queue (node_db n) of [] \<Rightarrow> True
      | (dbid, buf) # q \<Rightarrow> WALEndOffset n + length (log_record n dbid (AsString buf)) < 2 ^ 63)"

inductive feeding :: "'s node \<Rightarrow> 's node \<Rightarrow> bool" where
  begins: "feeding n n"
| logged: "feeding n0 n \<Longrightarrow> room n \<Longrightarrow> all_in_step (take_task n) \<Longrightarrow> feeding n0 (WriteWALCallback n)"
| writable: "feeding n0 n \<Longrightarrow> feeding n0 (ChannelWritable ch n)"

text \<open>What a slave has received since its offset was \<open>off0\<close>.\<close>

definition received :: "'s node \<Rightarrow> nat \<Rightarrow> bytes \<Rightarrow> bytes \<Rightarrow> nat \<Rightarrow> nat \<Rightarrow> bool" where
  "received n b H base off0 ch \<longleftrightarrow>
     (let so = nat (sync_offset (slave_of ch n)) in
      off0 \<le> so \<and> ch_out (chans n ch) = base @ take (so - off0) (drop (off0 - b) H))"

definition stream_inv :: "'s node \<Rightarrow> nat \<Rightarrow> bytes \<Rightarrow> (nat \<Rightarrow> bytes) \<Rightarrow> (nat \<Rightarrow> nat) \<Rightarrow> (nat \<Rightarrow> bool) \<Rightarrow> bool" where
  "stream_inv n b H base off0 fed \<longleftrightarrow>
     sound_log (m_wal n) b H \<and> b + length H < 2 ^ 63 \<and> all_in_step n
     \<and> (\<forall>ch. fed ch \<longleftrightarrow> sync_state (slave_of ch n) = SYNC_STATE_SYNCED)
     \<and> (\<forall>ch. fed ch \<longrightarrow> b \<le> off0 ch \<and> received n b H (base ch) (off0 ch) ch)"

lemma stream_feed:
  assumes "stream_inv n b H base off0 fed" "fed ch"
  shows "stream_inv (SyncWAL_slave ch n) b H base off0 fed"
proof -
  let ?n = "SyncWAL_slave ch n"
  define off where "off = nat (sync_offset (slave_of ch n))"
  define s where "s = take 8192 (drop (off - b) H)"
  have i: "sound_log (m_wal n) b H" "b + length H < 2 ^ 63" "in_step n ch" "b \<le> off0 ch"
    "received n b H (base ch) (off0 ch) ch"
    using assms by (auto simp: stream_inv_def all_in_step_def)
  have f: "same_but_slave ch n ?n" "ch_out (chans ?n ch) = ch_out (chans n ch) @ s"
    "slave_of ch ?n = (slave_of ch n)\<lparr>sync_offset := int (off + length s)\<rparr>" "in_step ?n ch"
    using SyncWAL_slave_feeds [OF i(1-3)] unfolding Let_def off_def s_def by blast+
  have o: "chans ?n ch' = chans n ch'" "slave_of ch' ?n = slave_of ch' n" if "ch' \<noteq> ch" for ch'
    using f(1) that by (simp_all add: same_but_slave_def slave_of_def)
  have w: "m_wal ?n = m_wal n" using f(1) by (simp add: same_but_slave_def)
  have so: "sync_offset (slave_of ch ?n) = int (off + length s)" using f(3) by simp
  define D where "D = drop (off0 ch - b) H"
  have r0: "off0 ch \<le> off" "ch_out (chans n ch) = base ch @ take (off - off0 ch) D"
    using i(5) by (simp_all add: received_def Let_def off_def D_def)
  have sD: "s = take 8192 (drop (off - off0 ch) D)"
    using r0(1) i(4) by (simp add: s_def D_def add.commute)
  have "take (off + length s - off0 ch) D = take (off - off0 ch) D @ take (length s) (drop (off - off0 ch) D)"
    using r0(1) by (simp add: take_add [symmetric])
  also have "take (length s) (drop (off - off0 ch) D) = s" unfolding sD by (simp add: min_def)
  finally have "received ?n b H (base ch) (off0 ch) ch"
    using r0 f(2) unfolding received_def Let_def so nat_int D_def [symmetric] by simp
  moreover have "received ?n b H (base ch') (off0 ch') ch' = received n b H (base ch') (off0 ch') ch'"
    "in_step ?n ch' = in_step n ch'" if "ch' \<noteq> ch" for ch'
    using o [OF that] w by (simp_all add: received_def in_step_def WALStartOffset_def WALEndOffset_def)
  moreover have "sync_state (slave_of ch' ?n) = sync_state (slave_of ch' n)" for ch'
    using f(3) o(2) by (cases "ch' = ch") simp_all
  ultimately show ?thesis
    using assms(1) f(4) unfolding stream_inv_def all_in_step_def w by metis
qed

lemma stream_clear:
  assumes "stream_inv n b H base off0 fed"
  shows "stream_inv (n\<lparr>m_wal := swal_clear_replay_cache (m_wal n)\<rparr>) b H base off0 fed"
proof -
  have "sound_log (swal_clear_replay_cache w) b H = sound_log w b H" "cached off (swal_clear_replay_cache w) = cached off w"
    "swal_start_offset (swal_clear_replay_cache w) = swal_start_offset w"
    "swal_end_offset (swal_clear_replay_cache w) = swal_end_offset w" for w off
    by (simp_all add: sound_log_def wal_inv_def cache_inv_def swal_clear_replay_cache_def cached_def
        swal_start_offset_def swal_end_offset_def cong: option.case_cong)
  then show ?thesis
    using assms by (simp add: stream_inv_def all_in_step_def in_step_def received_def WALStartOffset_def WALEndOffset_def)
qed

lemma stream_sync_loop:
  "stream_inv n b H base off0 fed \<Longrightarrow> stream_inv (snd (SyncWAL_loop chs (f, n))) b H base off0 fed"
proof (induction chs arbitrary: f n)
  case (Cons ch chs)
  have "stream_inv (SyncWAL_slave ch n) b H base off0 fed" if "sync_state (slave_of ch n) = SYNC_STATE_SYNCED"
    using stream_feed [OF Cons.prems, of ch] Cons.prems that by (simp add: stream_inv_def)
  then show ?case using Cons by simp
qed simp

lemma stream_sync: "stream_inv n b H base off0 fed \<Longrightarrow> stream_inv (SyncWAL n) b H base off0 fed"
  using stream_sync_loop [of n b H base off0 fed "live_slaves n" True] stream_clear
  by (auto simp: SyncWAL_def Let_def split: prod.split)

lemma stream_take_task:
  assumes "stream_inv n b H base off0 fed" "wal_queue (node_db n) = (dbid, buf) # q" "room n" "all_in_step (take_task n)"
  shows "stream_inv (take_task n) b (H @ log_record n dbid (AsString buf)) base off0 fed"
proof -
  let ?n = "on_db (\<lambda>s. s\<lparr>wal_queue := q\<rparr>) n" let ?r = "log_record n dbid (AsString buf)"
  have i: "sound_log (m_wal n) b H" "b + length H < 2 ^ 63" using assms(1) by (auto simp: stream_inv_def)
  have e: "WALEndOffset n = b + length H" using wal_log.logged_end [OF i(1)]
    by (simp add: WALEndOffset_def swal_end_offset_def)
  have len: "b + length (H @ ?r) < 2 ^ 63" using assms(3) by (simp add: room_def assms(2) e)
  have r: "log_record ?n dbid (AsString buf) = ?r" by (simp add: log_record_def)
  have "sound_log (m_wal ?n) b H" "b + length (H @ log_record ?n dbid (AsString buf)) < 2 ^ 64"
    using i(1) len by (simp_all add: r)
  from WAL_write_db_sound [OF this] obtain w' m' where w': "sound_log w' b (H @ ?r)"
    "take_task n = ?n\<lparr>m_wal := w', repl_meta := m'\<rparr>"
    by (auto simp: take_task_def assms(2) r)
  have same: "chans (take_task n) = chans n" "slave_of ch (take_task n) = slave_of ch n" for ch
    by (simp_all add: w'(2) slave_of_def)
  have "received (take_task n) b (H @ ?r) (base ch) (off0 ch) ch" if "fed ch" for ch
  proof -
    have st: "b \<le> off0 ch" "received n b H (base ch) (off0 ch) ch" "in_step n ch"
      using assms(1) that by (auto simp: stream_inv_def all_in_step_def)
    have "nat (sync_offset (slave_of ch n)) - off0 ch \<le> length (drop (off0 ch - b) H)"
      using st(1,3) e by (simp add: in_step_def) linarith
    then show ?thesis using st(2) by (auto simp: received_def Let_def same)
  qed
  then show ?thesis
    using assms(1,4) w'(1) len unfolding stream_inv_def same by (auto simp: w'(2))
qed


lemma demo_in_step: "all_in_step demo_node"
  by (simp add: all_in_step_def in_step_def slave_of_def demo_node_def demo_wal_def WALStartOffset_def
      WALEndOffset_def swal_start_offset_def swal_end_offset_def cached_def SlaveConn_new_def)


section \<open>A slave catches up\<close>

lemma writable_feeds:
  assumes "sound_log (m_wal n) b H" "b + length H < 2 ^ 63" "in_step n ch"
    "map_find ch (m_slaves n) = Some True" "sync_state (slave_of ch n) = SYNC_STATE_SYNCED"
  shows "ChannelWritable ch n = SyncWAL_slave ch n"
    "map_find ch (m_slaves (ChannelWritable ch n)) = Some True"
    "sync_state (slave_of ch (ChannelWritable ch n)) = SYNC_STATE_SYNCED"
    "sound_log (m_wal (ChannelWritable ch n)) b H" "in_step (ChannelWritable ch n) ch"
    "WALEndOffset (ChannelWritable ch n) = WALEndOffset n"
    "nat (sync_offset (slave_of ch (ChannelWritable ch n)))
       = min (nat (sync_offset (slave_of ch n)) + 8192) (WALEndOffset n)"
proof -
  show e: "ChannelWritable ch n = SyncWAL_slave ch n" using assms(4,5) by (simp add: ChannelWritable_def)
  let ?n = "SyncWAL_slave ch n" and ?off = "nat (sync_offset (slave_of ch n))"
  have f: "same_but_slave ch n ?n" "in_step ?n ch"
    "slave_of ch ?n = (slave_of ch n)\<lparr>sync_offset := int (?off + length (take 8192 (drop (?off - b) H)))\<rparr>"
    using SyncWAL_slave_feeds [OF assms(1-3)] unfolding Let_def by blast+
  have w: "m_wal ?n = m_wal n" "m_slaves ?n = m_slaves n" using f(1) by (simp_all add: same_but_slave_def)
  have end': "WALEndOffset n = b + length H" using wal_log.logged_end [OF assms(1)]
    by (simp add: WALEndOffset_def swal_end_offset_def)
  have "b \<le> ?off" using assms(3) wal_log.kept_start [OF assms(1)]
    by (auto simp: in_step_def WALStartOffset_def swal_start_offset_def)
  moreover have "?off \<le> b + length H" using assms(3) end' by (simp add: in_step_def)
  ultimately have "?off + length (take 8192 (drop (?off - b) H)) = min (?off + 8192) (b + length H)" by auto
  then show "nat (sync_offset (slave_of ch (ChannelWritable ch n))) = min (?off + 8192) (WALEndOffset n)"
    unfolding e f(3) end' by (simp del: of_nat_add)
  show "map_find ch (m_slaves (ChannelWritable ch n)) = Some True"
    "sync_state (slave_of ch (ChannelWritable ch n)) = SYNC_STATE_SYNCED"
    "sound_log (m_wal (ChannelWritable ch n)) b H" "in_step (ChannelWritable ch n) ch"
    "WALEndOffset (ChannelWritable ch n) = WALEndOffset n"
    unfolding e using assms w f by (simp_all add: WALEndOffset_def)
qed

text \<open>
  C19: A slave that is in step catches up: when its channel becomes writable \<open>k\<close> times and no command is
  posted meanwhile, its offset is 8192 \<open>k\<close> bytes further or at the end of the log, so a finite number
  of events, which depends only on the distance to the end, brings it there.
\<close>

theorem slave_catches_up:
  assumes "sound_log (m_wal n) b H" "b + length H < 2 ^ 63" "in_step n ch"
    "map_find ch (m_slaves n) = Some True" "sync_state (slave_of ch n) = SYNC_STATE_SYNCED"
  shows "nat (sync_offset (slave_of ch ((ChannelWritable ch ^^ k) n)))
           = min (nat (sync_offset (slave_of ch n)) + 8192 * k) (WALEndOffset n)
     \<and> WALEndOffset ((ChannelWritable ch ^^ k) n) = WALEndOffset n"
  using assms
proof (induction k arbitrary: n)
  case 0
  then show ?case by (simp add: in_step_def)
next
  case (Suc k)
  note f = writable_feeds [OF Suc.prems]
  have "(ChannelWritable ch ^^ Suc k) n = (ChannelWritable ch ^^ k) (ChannelWritable ch n)"
    by (simp only: funpow_Suc_right o_apply)
  with Suc.IH [OF f(4) Suc.prems(2) f(5,2,3)] f(6,7) show ?case by simp
qed

theorem slave_catches_up_witness:
  "nat (sync_offset (slave_of 0 ((ChannelWritable 0 ^^ 1) demo_node))) = 5"
proof -
  have d: "m_wal demo_node = demo_wal" "map_find 0 (m_slaves demo_node) = Some True"
    "sync_state (slave_of 0 demo_node) = SYNC_STATE_SYNCED" "sync_offset (slave_of 0 demo_node) = 3"
    "in_step demo_node 0"
    using demo_in_step by (auto simp: demo_node_def slave_of_def all_in_step_def)
  show ?thesis
    using slave_catches_up [of demo_node 0 "''abcde''" 0 1] demo_sound d
    by (simp add: WALEndOffset_def swal_end_offset_def demo_wal_def)
qed

end
