(* ===== verification/Repl_Slave.thy ===== *)
theory Repl_Slave
  imports Repl_Master Call_Properties
begin

text \<open>
  The slave of \<open>replication/slave.cpp\<close>: the handshake with the master, the transfer of a snapshot, and
  the commands of the master, which are logged and executed in step or replayed from the log.
\<close>

section \<open>The environment\<close>

text \<open>
  What the slave takes from outside: whether output of the link is unsent when it is closed (the
  closing is then deferred), the identifier of a new channel, a random key, how often the loading of
  a snapshot calls back, what the event loop handles during such a call, and the loader, which
  learns whether a call told it to abort.
\<close>

record 's slave_env =
  close_deferred :: bool
  new_link :: nat
  random_key :: string
  load_calls :: nat
  on_continue :: "'s node \<Rightarrow> 's node"
  snap_reload :: "bytes \<Rightarrow> bool \<Rightarrow> 's server \<Rightarrow> int \<times> 's server"

text \<open>The context of the slave belongs to no client.\<close>

definition SLAVE_CTX :: ctxid where "SLAVE_CTX = 1"

definition with_state :: "SlaveState \<Rightarrow> 's node \<Rightarrow> 's node" where
  "with_state x = on_status (\<lambda>s. s\<lparr>slave_state := x\<rparr>)"

text \<open>\<open>m_client->Write\<close>: a null pointer when there is no link.\<close>

definition client_write_raw :: "bytes \<Rightarrow> 's node \<Rightarrow> 's node" where
  "client_write_raw p n =
     (case m_client n of None \<Rightarrow> n\<lparr>stuck := True\<rparr> | Some ch \<Rightarrow> chan_write ch p n)"

section \<open>The link\<close>

definition Slave_ChannelClosed :: "'s node \<Rightarrow> 's node" where
  "Slave_ChannelClosed n =
     on_status SlaveStatus_Clear
       (on_db (upd_ctx SLAVE_CTX Context_Clear)
         (n\<lparr>m_lastinteraction := wall_time n, m_master_link_down_time := c_uint32 (int (wall_time n)),
            m_client := None\<rparr>))"

definition close_link :: "'s slave_env \<Rightarrow> nat \<Rightarrow> 's node \<Rightarrow> 's node" where
  "close_link V ch n =
     (if close_deferred V then chan_close ch n else Slave_ChannelClosed (chan_close ch n))"

definition Slave_Close :: "'s slave_env \<Rightarrow> 's node \<Rightarrow> 's node" where
  "Slave_Close V n = (case m_client n of None \<Rightarrow> n | Some ch \<Rightarrow> close_link V ch n)"

definition Slave_Timeout :: "'s slave_env \<Rightarrow> 's node \<Rightarrow> 's node" where
  "Slave_Timeout V = Slave_Close V"

definition Slave_Stop :: "'s slave_env \<Rightarrow> 's node \<Rightarrow> 's node" where
  "Slave_Stop V n = Slave_Close V (with_state SLAVE_STATE_INVALID n)"

text \<open>Clearing the decoder drops the bytes it holds; the state of the snapshot decoder stays.\<close>

definition ConnectMaster :: "'s slave_env \<Rightarrow> 's node \<Rightarrow> int \<times> 's node" where
  "ConnectMaster V n =
     (if master_host (m_cfg (node_db n)) = [] then (- 1, n)
      else if m_client n \<noteq> None then (0, n)
      else (0, with_state SLAVE_STATE_CONNECTING
                 (n\<lparr>m_client := Some (new_link V), m_decoder := SwitchToReplyDecoder (m_decoder n)\<rparr>)))"

definition InfoMaster :: "'s node \<Rightarrow> 's node" where
  "InfoMaster n = with_state SLAVE_STATE_WAITING_INFO_REPLY (client_write_raw (''info Server'' @ CRLF) n)"

definition Slave_ChannelConnected :: "nat \<Rightarrow> 's node \<Rightarrow> 's node" where
  "Slave_ChannelConnected ch n =
     (let n = n\<lparr>m_lastinteraction := wall_time n, m_cmd_recved_time := c_uint32 (int (wall_time n)),
                m_master_link_down_time := 0\<rparr>
      in if masterauth (repl_cfg n) \<noteq> []
         then with_state SLAVE_STATE_WAITING_AUTH_REPLY
                (chan_write ch (''auth '' @ c_str (masterauth (repl_cfg n)) @ CRLF) n)
         else InfoMaster n)"

section \<open>Executing the commands of the master\<close>

text \<open>
  A command is executed without logging it. The handler gets the frame by reference, so the bytes
  counted afterwards are those of the frame as the call left it.
\<close>

definition called_frame :: "'s libs \<Rightarrow> RedisCommandFrame \<Rightarrow> 's server \<Rightarrow> RedisCommandFrame" where
  "called_frame E cmd s =
     (if FindRedisCommandHandlerSetting cmd s = None then cmd
      else case current_cmd (ctx (snd (Call E True SLAVE_CTX cmd s)) SLAVE_CTX) of None \<Rightarrow> cmd | Some f \<Rightarrow> f)"

definition slave_call :: "'s libs \<Rightarrow> RedisCommandFrame \<Rightarrow> 's node \<Rightarrow> bytes \<times> 's node" where
  "slave_call E cmd n =
     (AsString (m_raw_msg (called_frame E cmd (node_db n))),
      n\<lparr>node_db := snd (Call E True SLAVE_CTX cmd (node_db n))\<rparr>)"

definition call_and_count :: "'s libs \<Rightarrow> RedisCommandFrame \<Rightarrow> 's node \<Rightarrow> 's node" where
  "call_and_count E cmd n = (let (raw, n) = slave_call E cmd n in UpdateDataOffsetCksm raw n)"

text \<open>
  A piece of the log is decoded command by command, up to the first incomplete one. Yielding to the
  event loop between two commands is left out.
\<close>

partial_function (option) replay_piece :: "'s libs \<Rightarrow> Buffer \<Rightarrow> 's node \<Rightarrow> 's node option" where
  "replay_piece E logbuf n =
     (if Readable logbuf \<and> slave_state (m_status n) = SLAVE_STATE_SYNCED
      then case Command_Decode logbuf (RedisCommandFrame_new []) of
             Inl e \<Rightarrow> Some (n\<lparr>stuck := True\<rparr>)
           | Inr (ret, logbuf, msg, err) \<Rightarrow>
               if ret then replay_piece E logbuf (call_and_count E msg n) else Some n
      else Some n)"

fun replay_pieces :: "'s libs \<Rightarrow> bytes list \<Rightarrow> 's node \<Rightarrow> 's node" where
  "replay_pieces E [] n = n"
| "replay_pieces E (p # ps) n =
     replay_pieces E ps
       (case replay_piece E (Buffer_wrap p 0 (length p)) n of None \<Rightarrow> n\<lparr>stuck := True\<rparr> | Some n \<Rightarrow> n)"

definition ReplayWAL :: "'s libs \<Rightarrow> 's node \<Rightarrow> 's node" where
  "ReplayWAL E n =
     (if slave_state (m_status n) \<noteq> SLAVE_STATE_SYNCED then n
      else if DataOffset n = WALEndOffset n then n\<lparr>m_wal := swal_clear_replay_cache (m_wal n)\<rparr>
      else if replaying_wal (m_status n) then n
      else
        let n = on_status (\<lambda>s. s\<lparr>replaying_wal := True\<rparr>) n;
            (pieces, w) = swal_replay (DataOffset n) (- 1) (m_wal n);
            n = n\<lparr>m_wal := w\<rparr>;
            n = (case pieces of None \<Rightarrow> n\<lparr>stuck := True\<rparr> | Some ps \<Rightarrow> replay_pieces E ps n)
        in on_status (\<lambda>s. s\<lparr>replaying_wal := False\<rparr>) n)"

definition HandleRedisCommand :: "'s libs \<Rightarrow> RedisCommandFrame \<Rightarrow> 's node \<Rightarrow> 's node" where
  "HandleRedisCommand E cmd n =
     (let write_wal_only = (slave_state (m_status n) \<noteq> SLAVE_STATE_SYNCED);
          n = n\<lparr>m_cmd_recved_time := c_uint32 (int (wall_time n))\<rparr>;
          (len, n) = WAL_write (AsString (m_raw_msg cmd)) n
      in if \<not> write_wal_only \<and> c_size (int (DataOffset n) + len) = WALEndOffset n
         then call_and_count E cmd n
         else ReplayWAL E n)"

definition Slave_Routine :: "'s libs \<Rightarrow> 's slave_env \<Rightarrow> 's node \<Rightarrow> 's node" where
  "Slave_Routine E V n =
     (if master_host (m_cfg (node_db n)) = [] then n
      else
        let n = ReplayWAL E n;
            now = c_uint32 (int (wall_time n));
            st = slave_state (m_status n)
        in if m_client n = None then snd (ConnectMaster V n)
           else if st = SLAVE_STATE_SYNCED
                   \<and> m_cmd_recved_time n > 0
                   \<and> c_uint32 (int now - int (m_cmd_recved_time n)) \<ge> repl_timeout (repl_cfg n)
           then Slave_Timeout V n
           else
             (if (st = SLAVE_STATE_SYNCED \<or> st = SLAVE_STATE_LOADING_SNAPSHOT)
                 \<and> server_support_psync (m_status n)
              then client_write_raw (''REPLCONF ACK '' @ dec_str (DataOffset n) @ CRLF) n else n)
             \<lparr>m_routine_ts := now\<rparr>)"

section \<open>The handshake\<close>

definition redis_ver_key :: string where "redis_ver_key = ''redis_version:''"
definition comms_ver_key :: string where "comms_ver_key = ''comms_version:''"

text \<open>
  The version in the reply to \<open>INFO\<close>. \<open>None\<close>: the key is missing and \<open>substr\<close> starts past the end, which
  throws. When the key is missing, its position is the largest number, and adding the length of the
  key wraps around to 13.
\<close>

definition master_version :: "string \<Rightarrow> string option" where
  "master_version str =
     (case str_find str redis_ver_key 0 of
        None \<Rightarrow> (if length redis_ver_key - 1 \<le> length str then Some (drop (length redis_ver_key - 1) str) else None)
      | Some start \<Rightarrow>
          let t = drop (start + length redis_ver_key) str
          in Some (case str_find str [LF] start of
                     None \<Rightarrow> t
                   | Some e \<Rightarrow> take (e - start - length redis_ver_key) t))"

definition on_info_reply :: "nat \<Rightarrow> string \<Rightarrow> 's node \<Rightarrow> 's node" where
  "on_info_reply ch str n =
     (let redis = (str_find str comms_ver_key 0 = None);
          n = on_status (\<lambda>s. s\<lparr>server_is_redis := redis\<rparr>) n;
          next = (\<lambda>psync. with_state SLAVE_STATE_WAITING_REPLCONF_REPLY
                    (chan_write ch (''replconf listening-port '' @ dec_str (primary_port (repl_cfg n)) @ CRLF)
                      (on_status (\<lambda>s. s\<lparr>server_support_psync := psync\<rparr>) n)))
      in if \<not> redis then next True
         else case master_version str of
                None \<Rightarrow> n\<lparr>stuck := True\<rparr>
              | Some v \<Rightarrow>
                  (case compare_version 3 (trim_string v trim_set) ''2.7.0'' of
                     None \<Rightarrow> n\<lparr>stuck := True\<rparr>
                   | Some d \<Rightarrow> next (d \<ge> 0)))"

definition psync_request :: "'s node \<Rightarrow> string" where
  "psync_request n =
     ''psync '' @ GetServerKey n @ '' '' @ stringfromll (c_int64 (int (WALEndOffset n)))
       @ (if server_is_redis (m_status n) then [] else '' cksm '' @ dec_str (unat (WALCksm n))) @ CRLF"

definition on_replconf_reply :: "nat \<Rightarrow> 's node \<Rightarrow> 's node" where
  "on_replconf_reply ch n =
     (if server_support_psync (m_status n)
      then with_state SLAVE_STATE_WAITING_PSYNC_REPLY (chan_write ch (psync_request n) n)
      else with_state SLAVE_STATE_WAITING_SNAPSHOT (chan_write ch (''sync'' @ CRLF) n)
             \<lparr>m_decoder := SwitchToDumpFileDecoder (m_decoder n)\<rparr>)"

text \<open>The words of the reply are indexed without a check of their number.\<close>

definition on_fullresync :: "'s slave_env \<Rightarrow> nat \<Rightarrow> string list \<Rightarrow> 's node \<Rightarrow> 's node" where
  "on_fullresync V ch ss n =
     (if length ss \<le> 2 then n\<lparr>stuck := True\<rparr>
      else case string_toint64 (ss ! 2) of
             None \<Rightarrow> close_link V ch n
           | Some offset \<Rightarrow>
               let n = on_status (\<lambda>s. s\<lparr>cached_master_runid := ss ! 1, cached_master_repl_offset := offset\<rparr>) n;
                   ck = (if length ss > 3 then map_option Some (string_touint64 (ss ! 3)) else Some None)
               in case ck of
                    None \<Rightarrow> close_link V ch n
                  | Some ck \<Rightarrow>
                      (with_state SLAVE_STATE_WAITING_SNAPSHOT
                         (on_status (\<lambda>s. case ck of None \<Rightarrow> s
                             | Some c \<Rightarrow> s\<lparr>cached_master_repl_cksm := word_of_nat c\<rparr>) n))
                      \<lparr>m_decoder := SwitchToDumpFileDecoder (m_decoder n)\<rparr>)"

definition on_psync_reply :: "'s slave_env \<Rightarrow> nat \<Rightarrow> RedisReply \<Rightarrow> 's node \<Rightarrow> 's node" where
  "on_psync_reply V ch r n =
     (if reply_type r \<noteq> REDIS_REPLY_STATUS then close_link V ch n
      else case split_string (reply_str r) '' '' of
             None \<Rightarrow> n\<lparr>stuck := True\<rparr>
           | Some [] \<Rightarrow> n\<lparr>stuck := True\<rparr>
           | Some (w # ws) \<Rightarrow>
               if strcaseeq w ''FULLRESYNC'' then on_fullresync V ch (w # ws) n
               else if strcaseeq w ''CONTINUE''
               then with_state SLAVE_STATE_SYNCED (n\<lparr>m_decoder := SwitchToCommandDecoder (m_decoder n)\<rparr>)
               else close_link V ch n)"

definition HandleRedisReply :: "'s slave_env \<Rightarrow> nat \<Rightarrow> RedisReply \<Rightarrow> 's node \<Rightarrow> 's node" where
  "HandleRedisReply V ch r n =
     (let st = slave_state (m_status n)
      in if st = SLAVE_STATE_WAITING_AUTH_REPLY
         then InfoMaster (if reply_type r = REDIS_REPLY_ERROR then Slave_Close V n else n)
         else if st = SLAVE_STATE_WAITING_INFO_REPLY
         then if reply_type r = REDIS_REPLY_ERROR then Slave_Close V n else on_info_reply ch (reply_str r) n
         else if st = SLAVE_STATE_WAITING_REPLCONF_REPLY
         then if reply_type r = REDIS_REPLY_ERROR then close_link V ch n else on_replconf_reply ch n
         else if st = SLAVE_STATE_WAITING_PSYNC_REPLY then on_psync_reply V ch r n
         else Slave_Close V n)"

section \<open>The snapshot\<close>

definition LoadRDBRoutine :: "'s libs \<Rightarrow> 's slave_env \<Rightarrow> 's node \<Rightarrow> int \<times> 's node" where
  "LoadRDBRoutine E V n =
     (let n = on_continue V n
      in if slave_state (m_status n) \<noteq> SLAVE_STATE_LOADING_SNAPSHOT then (- 1, n)
         else (0, Slave_Routine E V n))"

fun load_routine :: "'s libs \<Rightarrow> 's slave_env \<Rightarrow> nat \<Rightarrow> bool \<times> 's node \<Rightarrow> bool \<times> 's node" where
  "load_routine E V 0 st = st"
| "load_routine E V (Suc k) (aborted, n) =
     (let (r, n) = LoadRDBRoutine E V n in load_routine E V k (aborted \<or> r \<noteq> 0, n))"

definition FlushAll_store :: "'s libs \<Rightarrow> 's node \<Rightarrow> 's node" where
  "FlushAll_store E n =
     on_db (\<lambda>s. s\<lparr>m_kv_store := snd (kv_exec (kv E) ''FlushAll'' 0 [] (m_kv_store s))\<rparr>) n"

text \<open>The end of the transfer: the snapshot is loaded, and the log takes over.\<close>

definition load_snapshot :: "'s libs \<Rightarrow> 's slave_env \<Rightarrow> 's node \<Rightarrow> 's node" where
  "load_snapshot E V n =
     (let n = on_status (\<lambda>s. s\<lparr>snapshot_open := False\<rparr>) n;
          n = with_state SLAVE_STATE_LOADING_SNAPSHOT (n\<lparr>m_decoder := SwitchToCommandDecoder (m_decoder n)\<rparr>);
          n = SetServerKey (random_key V) n;
          n = ResetWALOffsetCksm (c_size (cached_master_repl_offset (m_status n)))
                (cached_master_repl_cksm (m_status n)) n;
          n = (if slave_cleardb_before_fullresync (repl_cfg n) then FlushAll_store E n else n);
          n = n\<lparr>m_cmd_recved_time := c_uint32 (int (wall_time n))\<rparr>;
          (aborted, n) = load_routine E V (load_calls V) (False, n);
          (ret, db) = snap_reload V (snapshot_bytes (m_status n)) aborted (node_db n);
          n = n\<lparr>node_db := db\<rparr>
      in if ret \<noteq> 0 then Slave_Close V n
         else
           let n = SetServerKey (cached_master_runid (m_status n)) n;
               n = ResetDataOffsetCksm (c_size (cached_master_repl_offset (m_status n)))
                     (cached_master_repl_cksm (m_status n)) n;
               n = with_state SLAVE_STATE_SYNCED n
           in ReplayWAL E (DisconnectAllSlaves n))"

text \<open>Writing to a snapshot that is not open fails, and the failure is ignored.\<close>

definition HandleRedisDumpChunk :: "'s libs \<Rightarrow> 's slave_env \<Rightarrow> nat \<Rightarrow> RedisDumpFileChunk \<Rightarrow> 's node \<Rightarrow> 's node" where
  "HandleRedisDumpChunk E V ch c n =
     (if slave_state (m_status n) \<noteq> SLAVE_STATE_WAITING_SNAPSHOT then close_link V ch n
      else
        let n = (if IsFirstChunk c then on_status (\<lambda>s. s\<lparr>snapshot_open := True, snapshot_bytes := []\<rparr>) n
                 else n);
            n = on_status (\<lambda>s. if snapshot_open s then s\<lparr>snapshot_bytes := snapshot_bytes s @ chunk_bytes c\<rparr>
                  else s) n
        in if IsLastChunk c then load_snapshot E V n else n)"

definition Slave_MessageReceived :: "'s libs \<Rightarrow> 's slave_env \<Rightarrow> nat \<Rightarrow> RedisMessage \<Rightarrow> 's node \<Rightarrow> 's node" where
  "Slave_MessageReceived E V ch m n =
     (let n = n\<lparr>m_lastinteraction := wall_time n\<rparr>
      in case m of
           ReplyMessage r \<Rightarrow> HandleRedisReply V ch r n
         | CommandMessage f \<Rightarrow> HandleRedisCommand E f n
         | ChunkMessage c \<Rightarrow> HandleRedisDumpChunk E V ch c n)"

section \<open>Executing in step\<close>

lemma slave_call_fields [simp]:
  "m_wal (snd (slave_call E cmd n)) = m_wal n" "repl_meta (snd (slave_call E cmd n)) = repl_meta n"
  "m_status (snd (slave_call E cmd n)) = m_status n" "stuck (snd (slave_call E cmd n)) = stuck n"
  "node_db (snd (slave_call E cmd n)) = snd (Call E True SLAVE_CTX cmd (node_db n))"
  by (simp_all add: slave_call_def Let_def)

lemma UpdateDataOffsetCksm_fields [simp]:
  "m_wal (UpdateDataOffsetCksm d n) = m_wal n" "node_db (UpdateDataOffsetCksm d n) = node_db n"
  "m_status (UpdateDataOffsetCksm d n) = m_status n" "stuck (UpdateDataOffsetCksm d n) = stuck n"
  "DataOffset (UpdateDataOffsetCksm d n) = c_size (int (DataOffset n) + int (length d))"
  by (simp_all add: UpdateDataOffsetCksm_def DataOffset_def Let_def)

lemma call_and_count_fields [simp]:
  "m_wal (call_and_count E cmd n) = m_wal n" "m_status (call_and_count E cmd n) = m_status n"
  "stuck (call_and_count E cmd n) = stuck n"
  "node_db (call_and_count E cmd n) = snd (Call E True SLAVE_CTX cmd (node_db n))"
  "DataOffset (call_and_count E cmd n) = c_size (int (DataOffset n) + int (length (AsString (m_raw_msg (called_frame E cmd (node_db n))))))"
  by (simp_all add: call_and_count_def slave_call_def) (simp add: DataOffset_def)

lemma WAL_write_ok:
  assumes "sound_log (m_wal n) b H" "b + length (H @ p) < 2 ^ 63" "length p < 2 ^ 31"
  shows "WAL_write p n = (int (length p), n\<lparr>m_wal := appended p (m_wal n)\<rparr>)"
    "sound_log (appended p (m_wal n)) b (H @ p)"
    "WALEndOffset n = b + length H" "swal_end_offset (appended p (m_wal n)) = b + length (H @ p)"
proof -
  have s: "b + length (H @ p) < 2 ^ 64" using assms(2) by simp
  note w = WAL_write_sound [OF assms(1) s]
  obtain w' where "swal_append p (m_wal n) = Some (0, w')" by (rule sound_append [OF assms(1) s])
  then have "fst (WAL_write p n) = int (length p)" using assms(3) by (simp add: WAL_write_def)
  then show "WAL_write p n = (int (length p), n\<lparr>m_wal := appended p (m_wal n)\<rparr>)"
    using w(1) by (simp add: prod_eq_iff)
  show "sound_log (appended p (m_wal n)) b (H @ p)" by (rule w(2))
  show "WALEndOffset n = b + length H" "swal_end_offset (appended p (m_wal n)) = b + length (H @ p)"
    using wal_log.logged_end [OF assms(1)] wal_log.logged_end [OF w(2)]
    by (simp_all add: WALEndOffset_def swal_end_offset_def)
qed


text \<open>
  Before it is synchronised, in particular while it loads a snapshot, a slave only logs the commands
  of its master: the log grows by their bytes, the data and the offset of the data stay as they are.
\<close>

theorem unsynced_slave_only_logs:
  assumes "sound_log (m_wal n) b H" "b + length (H @ AsString (m_raw_msg cmd)) < 2 ^ 63"
    "length (AsString (m_raw_msg cmd)) < 2 ^ 31" "slave_state (m_status n) \<noteq> SLAVE_STATE_SYNCED"
  shows "let n' = HandleRedisCommand E cmd n in
     node_db n' = node_db n \<and> sound_log (m_wal n') b (H @ AsString (m_raw_msg cmd))
     \<and> DataOffset n' = DataOffset n \<and> m_status n' = m_status n \<and> stuck n' = stuck n"
proof -
  let ?n0 = "n\<lparr>m_cmd_recved_time := c_uint32 (int (wall_time n))\<rparr>"
  have s: "sound_log (m_wal ?n0) b H" using assms(1) by simp
  show ?thesis
    using WAL_write_ok [OF s assms(2,3)] assms(4)
    by (simp add: HandleRedisCommand_def ReplayWAL_def DataOffset_def)
qed

section \<open>Replaying the log\<close>

definition requests :: "(string \<times> string list) list \<Rightarrow> bytes" where
  "requests cs = concat (map request_enc cs)"

definition requests_ok :: "(string \<times> string list) list \<Rightarrow> bool" where
  "requests_ok cs \<longleftrightarrow> (\<forall>v \<in> set cs. request_valid v) \<and> length (requests cs) < 2 ^ 31"

text \<open>The frames of a sequence of requests: their words and their bytes.\<close>

definition frames_of :: "RedisCommandFrame list \<Rightarrow> (string \<times> string list) list \<Rightarrow> bool" where
  "frames_of fs cs \<longleftrightarrow> map request_view fs = cs \<and> map (\<lambda>f. AsString (m_raw_msg f)) fs = map request_enc cs"

lemma frames_append: "frames_of fs cs \<Longrightarrow> frames_of gs ds \<Longrightarrow> frames_of (fs @ gs) (cs @ ds)"
  by (simp add: frames_of_def)

lemma frames_bytes: "frames_of fs cs \<Longrightarrow> concat (map (\<lambda>f. AsString (m_raw_msg f)) fs) = requests cs"
  by (simp add: frames_of_def requests_def)

lemma requests_concat: "concat (map requests groups) = requests (concat groups)"
  by (induction groups) (simp_all add: requests_def)

lemma fold_count_fields [simp]:
  "m_wal (fold (call_and_count E) fs n) = m_wal n" "m_status (fold (call_and_count E) fs n) = m_status n"
  "stuck (fold (call_and_count E) fs n) = stuck n"
  "node_db (fold (call_and_count E) fs n) = fold (\<lambda>f s. snd (Call E True SLAVE_CTX f s)) fs (node_db n)"
  by (induction fs arbitrary: n) simp_all

lemma decode_request:
  assumes "buf_wf b" "m_write_idx b < 2 ^ 31" "request_valid v" "content b = request_enc v @ rest"
  shows "\<exists>f b'. Command_Decode b (RedisCommandFrame_new []) = Inr (True, b', f, [])
     \<and> request_view f = v \<and> AsString (m_raw_msg f) = request_enc v
     \<and> buf_wf b' \<and> content b' = rest \<and> m_write_idx b' = m_write_idx b"
  using Command_Decode_full [OF assms(1,2), of "fst v" "snd v" rest] assms(3,4)
    content_advance [OF assms(1,4)]
  by (auto simp: request_enc_def request_valid_def request_view_def)

lemma replay_piece_requests:
  assumes "buf_wf b" "m_write_idx b < 2 ^ 31" "\<forall>v \<in> set cs. request_valid v" "content b = requests cs"
    "slave_state (m_status n) = SLAVE_STATE_SYNCED"
  shows "\<exists>fs. frames_of fs cs \<and> replay_piece E b n = Some (fold (call_and_count E) fs n)"
  using assms
proof (induction cs arbitrary: b n)
  case Nil
  then have "\<not> Readable b" by (simp add: Readable_content requests_def)
  then show ?case by (intro exI [of _ "[]"]) (simp add: frames_of_def replay_piece.simps)
next
  case (Cons v cs)
  have cont: "content b = request_enc v @ requests cs" using Cons.prems(4) by (simp add: requests_def)
  then have rd: "Readable b" using Cons.prems(1) cmd_frames.enc_nonempty [of v] by (simp add: Readable_content)
  have ok: "request_valid v" using Cons.prems(3) by simp
  obtain f b' where f: "Command_Decode b (RedisCommandFrame_new []) = Inr (True, b', f, [])"
    "request_view f = v" "AsString (m_raw_msg f) = request_enc v"
    and b': "buf_wf b'" "content b' = requests cs" "m_write_idx b' = m_write_idx b"
    using decode_request [OF Cons.prems(1,2) ok cont] by blast
  obtain fs where fs: "frames_of fs cs"
    "replay_piece E b' (call_and_count E f n) = Some (fold (call_and_count E) fs (call_and_count E f n))"
    using Cons.IH [OF b'(1) _ _ b'(2), of "call_and_count E f n"] Cons.prems(2,3,5) b'(3) by auto
  have "replay_piece E b n = Some (fold (call_and_count E) (f # fs) n)"
    using rd Cons.prems(5) f(1) fs(2) by (subst replay_piece.simps) simp
  moreover have "frames_of (f # fs) (v # cs)" using fs(1) f(2,3) by (simp add: frames_of_def)
  ultimately show ?case by blast
qed

lemma replay_pieces_requests:
  assumes "\<forall>cs \<in> set groups. requests_ok cs" "slave_state (m_status n) = SLAVE_STATE_SYNCED"
  shows "\<exists>fs. frames_of fs (concat groups)
     \<and> replay_pieces E (map requests groups) n = fold (call_and_count E) fs n"
  using assms
proof (induction groups arbitrary: n)
  case Nil
  then show ?case by (intro exI [of _ "[]"]) (simp add: frames_of_def)
next
  case (Cons cs groups)
  let ?b = "Buffer_wrap (requests cs) 0 (length (requests cs))"
  have b: "buf_wf ?b" "m_write_idx ?b < 2 ^ 31" "content ?b = requests cs"
    using Cons.prems(1) by (simp_all add: Buffer_wrap_def buf_wf_def content_def region_def requests_ok_def)
  have v: "\<forall>v \<in> set cs. request_valid v" using Cons.prems(1) by (simp add: requests_ok_def)
  obtain fs where fs: "frames_of fs cs" "replay_piece E ?b n = Some (fold (call_and_count E) fs n)"
    using replay_piece_requests [OF b(1,2) v b(3) Cons.prems(2)] by blast
  obtain gs where gs: "frames_of gs (concat groups)"
    "replay_pieces E (map requests groups) (fold (call_and_count E) fs n)
       = fold (call_and_count E) gs (fold (call_and_count E) fs n)"
    using Cons.IH [of "fold (call_and_count E) fs n"] Cons.prems by auto
  show ?case
    using frames_append [OF fs(1) gs(1)] fs(2) gs(2) by (intro exI [of _ "fs @ gs"]) simp
qed

text \<open>The calls that leave the bytes of their frames alone move the offset of the data by them.\<close>

fun leaves_frames :: "'s libs \<Rightarrow> RedisCommandFrame list \<Rightarrow> 's server \<Rightarrow> bool" where
  "leaves_frames E [] s \<longleftrightarrow> True"
| "leaves_frames E (f # fs) s \<longleftrightarrow>
     AsString (m_raw_msg (called_frame E f s)) = AsString (m_raw_msg f)
     \<and> leaves_frames E fs (snd (Call E True SLAVE_CTX f s))"

lemma fold_count_offset:
  "leaves_frames E fs (node_db n) \<Longrightarrow>
   DataOffset n + length (concat (map (\<lambda>f. AsString (m_raw_msg f)) fs)) < 2 ^ 64 \<Longrightarrow>
   DataOffset (fold (call_and_count E) fs n) = DataOffset n + length (concat (map (\<lambda>f. AsString (m_raw_msg f)) fs))"
proof (induction fs arbitrary: n)
  case (Cons f fs)
  let ?n = "call_and_count E f n"
  have "DataOffset ?n = DataOffset n + length (AsString (m_raw_msg f))"
    using Cons.prems by (simp add: nat_add_distrib)
  then show ?case using Cons.IH [of ?n] Cons.prems by simp
qed simp


section \<open>Partial resynchronisation\<close>

lemma stringfromll_offset: "off < 2 ^ 63 \<Longrightarrow> string_toint64 (stringfromll (c_int64 (int off))) = Some (int off)"
  by (simp add: stringfromll_nonneg string_toint64_dec)

lemma no_blank_dec: "CHR '' '' \<notin> set (dec_str n)"
  using dec_str_digits [of n] by (auto simp: is_digit_def)

lemma map_find_put_same [simp]: "map_find k (map_put k v t) = Some v"
  by (induction k v t rule: map_put.induct) (auto)

lemma psync_words:
  assumes "CHR '' '' \<notin> set (GetServerKey s)" "GetServerKey s \<noteq> []" "\<not> server_is_redis (m_status s)"
    "WALEndOffset s < 2 ^ 63"
  shows "tokens (CHR '' '') (take (length (psync_request s) - 2) (psync_request s))
    = [''psync'', GetServerKey s, stringfromll (c_int64 (int (WALEndOffset s))), ''cksm'', dec_str (unat (WALCksm s))]"
proof -
  let ?o = "stringfromll (c_int64 (int (WALEndOffset s)))" and ?c = "dec_str (unat (WALCksm s))"
  have "psync_request s = (''psync'' @ CHR '' '' # GetServerKey s @ CHR '' '' # ?o @ CHR '' '' # ''cksm''
      @ CHR '' '' # ?c) @ CRLF"
    using assms(3) by (simp add: psync_request_def)
  moreover have "take (length (x @ CRLF) - 2) (x @ CRLF) = x" for x :: string by simp
  ultimately have line: "take (length (psync_request s) - 2) (psync_request s)
    = ''psync'' @ CHR '' '' # GetServerKey s @ CHR '' '' # ?o @ CHR '' '' # ''cksm'' @ CHR '' '' # ?c"
    by (simp only:)
  have o: "?o = dec_str (WALEndOffset s)" using assms(4) by (simp add: stringfromll_nonneg)
  have w: "CHR '' '' \<notin> set ''psync''" "CHR '' '' \<notin> set ''cksm''" by simp_all
  show ?thesis
    unfolding line tokens_simps(2) [OF w(1)] tokens_simps(2) [OF assms(1)]
    using tokens_simps(2) [OF no_blank_dec] tokens_simps(2) [OF w(2)] tokens_simps(1) [OF no_blank_dec] assms(2)
    by (simp add: o)
qed

text \<open>
  C16: Partial resynchronisation end to end: when the log of a slave is an older state of the log of its
  master, and the master still holds its end, then the words of the request the slave sends make
  the master answer \<open>+CONTINUE\<close> and feed the slave from exactly the end of its log, without a
  snapshot.
\<close>

theorem older_slave_is_continued:
  fixes m s :: "'s node"
  assumes "wal_inv (m_wal m) b c (Hs @ d)" "wal_inv (m_wal s) b c Hs" "b + length (Hs @ d) < 2 ^ 63"
    "max_file_size (m_wal m) < 2 ^ 63" "ring_cache_size (m_wal m) < 2 ^ 63"
    "0 < WALEndOffset s" "WALStartOffset m \<le> WALEndOffset s"
    "GetServerKey s = GetServerKey m" "GetServerKey s \<noteq> []" "CHR '' '' \<notin> set (GetServerKey s)"
    "\<not> server_is_redis (m_status s)" "master_host (m_cfg (node_db m)) = []"
    "m_cmd cmd # m_args cmd = tokens (CHR '' '') (take (length (psync_request s) - 2) (psync_request s))"
  shows "\<exists>m'. AddSlave V ch cmd m = SyncWAL m' \<and> m_wal m' = m_wal m \<and> node_db m' = node_db m
     \<and> ch_out (chans m' ch) = ch_out (chans m ch) @ ''+CONTINUE'' @ CRLF
     \<and> map_find ch (m_slaves m') = Some True
     \<and> sync_state (slave_of ch m') = SYNC_STATE_SYNCED
     \<and> sync_offset (slave_of ch m') = int (WALEndOffset s)"
proof -
  let ?off = "WALEndOffset s" and ?ck = "WALCksm s"
  have e: "?off = b + length Hs" "?ck = crc64 c Hs" "WALEndOffset m = b + length (Hs @ d)"
    using assms(1,2) by (auto simp: WALEndOffset_def WALCksm_def swal_end_offset_def swal_cksm_def wal_inv_def)
  have words: "m_cmd cmd = ''psync''"
    "m_args cmd = [GetServerKey s, stringfromll (c_int64 (int ?off)), ''cksm'', dec_str (unat ?ck)]"
    using assms(13) psync_words [OF assms(10,9,11)] e(1) assms(3) by simp_all
  have off: "string_toint64 (stringfromll (c_int64 (int ?off))) = Some (int ?off)"
    by (rule stringfromll_offset) (use e(1) assms(3) in simp)
  have ck: "string_touint64 (dec_str (unat ?ck)) = Some (unat ?ck)"
    using unsigned_less [of ?ck] by (intro string_touint64_dec) simp
  define m1 where "m1 = on_slave ch (\<lambda>s. s\<lparr>sync_state := SYNC_STATE_START\<rparr>)
     (on_slave ch (\<lambda>x. (slave_of ch m)\<lparr>server_key := GetServerKey s, sync_offset := int ?off,
        isRedisSlave := False, sync_cksm := ?ck\<rparr>) (on_slave ch (\<lambda>x. x\<lparr>server_key := GetServerKey s, sync_offset := int ?off,
        isRedisSlave := True\<rparr>) (on_slave ch id m)))"
  define m2 where "m2 = upd_chan ch (\<lambda>x. x\<lparr>auto_disable_writing := False\<rparr>) (m1\<lparr>m_slaves := map_put ch True (m_slaves m1)\<rparr>)"
  have add: "AddSlave V ch cmd m = SyncSlave V ch m2"
    using words off ck
    by (simp add: AddSlave_def AddSlaveConn_def arg_def strcaseeq_def m1_def m2_def)
  have m2: "m_wal m2 = m_wal m" "node_db m2 = node_db m" "repl_meta m2 = repl_meta m"
    "map_find ch (m_slaves m2) = Some True" "ch_out (chans m2 ch) = ch_out (chans m ch)"
    "slave_of ch m2 = (slave_of ch m)\<lparr>server_key := GetServerKey s, sync_offset := int ?off,
        isRedisSlave := False, sync_cksm := ?ck, sync_state := SYNC_STATE_START\<rparr>"
    by (simp_all add: m1_def m2_def slave_of_def on_slave_def)
  have "IsValidOffsetCksm (int ?off) ?ck m2 = Some True"
    using valid_offset_rule [of m2 b c "Hs @ d" "int ?off" ?ck] m2(1) assms(1,3-7) e
    by (simp add: WALStartOffset_def WALEndOffset_def)
  then have "AddSlave V ch cmd m = SyncWAL (on_slave ch (\<lambda>s. s\<lparr>sync_state := SYNC_STATE_SYNCED\<rparr>)
      (chan_write ch (''+CONTINUE'' @ CRLF) m2))"
    unfolding add using m2(2,3,6) assms(8,9,12) by (simp add: SyncSlave_def Let_def GetServerKey_def)
  then show ?thesis
    using m2 by (intro exI conjI) (assumption | simp)+
qed


section \<open>Errors of the link\<close>

text \<open>
  A refused password crashes the slave: the error reply to \<open>AUTH\<close> closes the link and then goes on
  to ask the master for its information, through the pointer to the link that closing has cleared.
\<close>

theorem refused_auth_crashes:
  assumes "slave_state (m_status n) = SLAVE_STATE_WAITING_AUTH_REPLY" "m_client n = Some ch"
    "reply_type r = REDIS_REPLY_ERROR" "\<not> close_deferred V"
  shows "stuck (Slave_MessageReceived E V ch (ReplyMessage r) n)"
  using assms
  by (simp add: Slave_MessageReceived_def HandleRedisReply_def Slave_Close_def close_link_def
      Slave_ChannelClosed_def InfoMaster_def client_write_raw_def with_state_def Let_def)

lemma fullresync_waits:
  assumes "n = on_fullresync V ch ss n1" "slave_state (m_status n) = SLAVE_STATE_WAITING_SNAPSHOT"
    "slave_state (m_status n1) \<noteq> SLAVE_STATE_WAITING_SNAPSHOT"
  shows "m_decoder n = SwitchToDumpFileDecoder (m_decoder n1)" "snapshot_open (m_status n) = snapshot_open (m_status n1)"
  using assms
  by (auto simp: on_fullresync_def Let_def with_state_def on_status_def close_link_def chan_close_def upd_chan_def
      Slave_ChannelClosed_def on_db_def SlaveStatus_Clear_def split: if_splits option.splits)

lemma wait_body:
  assumes "buf_wf b" "0 < length (content b)" "int (length (content b)) < m_waiting_chunk_len st"
    "m_waiting_chunk_len st < 2 ^ 63" "length (content b) < 2 ^ 31"
  shows "\<exists>c. DumpDecoder_Decode st b RedisDumpFileChunk_new
       = Inr (True, SkipBytes b (length (content b)), c,
           st\<lparr>m_waiting_chunk_len := m_waiting_chunk_len st - int (length (content b))\<rparr>)
     \<and> chunk_bytes c = content b \<and> chunk_flag c = 0"
proof -
  let ?k = "length (content b)"
  have rd: "Readable b" "ReadableBytes b = ?k" "m_waiting_chunk_len st \<noteq> 0"
    using assms(1-3) by (auto simp: Readable_content)
  have "?k < nat (m_waiting_chunk_len st)" using assms(3) by linarith
  moreover have "read_raw b (int ?k) = Inr (content b)"
    using assms(1,5) by (intro read_raw_content [of _ _ "[]"]) simp_all
  ultimately show ?thesis
    using rd assms(3-5)
    by (simp add: DumpDecoder_Decode_def dump_body_def Let_def RedisDumpFileChunk_new_def)
qed

text \<open>
  A snapshot whose transfer was cut off spoils the next one: closing the link and connecting again
  keeps the state of the snapshot decoder, so the head line of the next file is taken for the missing
  bytes of the old one, the file is never opened, and its bytes are lost.
\<close>

theorem cut_snapshot_spoils_the_next:
  fixes n0 :: "'s node"
  assumes "n = on_fullresync V ch ss (snd (ConnectMaster V (Slave_ChannelClosed n0)))"
    "slave_state (m_status n) = SLAVE_STATE_WAITING_SNAPSHOT"
    "w = m_waiting_chunk_len (m_dump_file_decoder (m_decoder n0))" "w < 2 ^ 63"
    "buf_wf b" "0 < length (content b)" "length (content b) < 2 ^ 31" "int (length (content b)) < w"
  shows "\<exists>b' c d. Message_Decode (m_decoder n) b = Inr (True, b', ChunkMessage c, [], d)
     \<and> chunk_bytes c = content b \<and> HandleRedisDumpChunk E V ch c n = n"
proof -
  let ?n1 = "snd (ConnectMaster V (Slave_ChannelClosed n0))"
  have n1: "m_dump_file_decoder (m_decoder ?n1) = m_dump_file_decoder (m_decoder n0)"
    "\<not> snapshot_open (m_status ?n1)" "slave_state (m_status ?n1) \<noteq> SLAVE_STATE_WAITING_SNAPSHOT"
    by (simp_all add: ConnectMaster_def Slave_ChannelClosed_def with_state_def on_status_def on_db_def
        SwitchToReplyDecoder_def SlaveStatus_Clear_def)
  have n: "m_dump_file_decoder (m_decoder n) = m_dump_file_decoder (m_decoder n0)"
    "m_decoder_type (m_decoder n) = REDIS_DUMP_DECODER_TYPE" "\<not> snapshot_open (m_status n)"
    using fullresync_waits [OF assms(1,2) n1(3)] n1(1,2) by (simp_all add: SwitchToDumpFileDecoder_def)
  obtain c st where c: "DumpDecoder_Decode (m_dump_file_decoder (m_decoder n)) b RedisDumpFileChunk_new
      = Inr (True, SkipBytes b (length (content b)), c, st)" "chunk_bytes c = content b" "chunk_flag c = 0"
    using wait_body [OF assms(5,6), of "m_dump_file_decoder (m_decoder n)"] assms(3,4,7,8) n(1) by auto
  have "Message_Decode (m_decoder n) b = Inr (True, SkipBytes b (length (content b)), ChunkMessage c, [],
      (m_decoder n)\<lparr>m_dump_file_decoder := st\<rparr>)"
    using c(1) n(2) by (simp add: Message_Decode_def REDIS_DUMP_DECODER_TYPE_def REDIS_REPLY_DECODER_TYPE_def
        REDIS_COMMAND_DECODER_TYPE_def)
  moreover have "HandleRedisDumpChunk E V ch c n = n"
    using c(3) n(3) assms(2)
    by (simp add: HandleRedisDumpChunk_def IsFirstChunk_def IsLastChunk_def FIRST_CHUNK_FLAG_def
        LAST_CHUNK_FLAG_def Let_def on_status_def)
  ultimately show ?thesis using c(2) by blast
qed

section \<open>Examples\<close>

definition demo_raw :: bytes where "demo_raw = request_enc (''del'', [''k''])"

definition demo_frame :: RedisCommandFrame where
  "demo_frame = (frame ''del'' [''k''])\<lparr>m_raw_msg := Buffer_wrap demo_raw 0 (length demo_raw)\<rparr>"

text \<open>A log that holds one command, and a slave that has that log and has executed all but the command.\<close>

definition demo_log :: swal where
  "demo_log = \<lparr>log_start_offset = 0, log_end_offset = 20, log_file_pos = 20, cksm = crc64 0 demo_raw,
     max_file_size = 32, ring_cache_size = 32, cksm_func = Some crc64, log_file = demo_raw @ replicate 12 NUL,
     fd_pos = 20, mmap_buf = False, ring_cache = Some (demo_raw @ replicate 12 NUL), ring_cache_start_offset = 0,
     ring_cache_idx = 20, write_fails = (\<lambda>_. False), writes = 0\<rparr>"

definition demo_slave :: "nat \<Rightarrow> SlaveState \<Rightarrow> nat node" where
  "demo_slave off st = \<lparr>node_db = demo_state, m_wal = demo_log,
     repl_meta = \<lparr>data_cksm = 0, data_offset = off, select_db = 0, serverkey = ''k'' @ replicate 40 NUL\<rparr>,
     repl_cfg = \<lparr>masterauth = ''p'', primary_port = 6379, repl_timeout = 10,
       slave_cleardb_before_fullresync = False\<rparr>,
     m_slaves = [], m_repl_noslaves_since = 0,
     chans = (\<lambda>_. \<lparr>ch_out = [], ch_closed = False, auto_disable_writing = False, ch_writing = False,
       ch_file = None, ch_attach = None, ch_host = None\<rparr>),
     m_client = Some 7, m_cmd_recved_time = 0, m_master_link_down_time = 0, m_decoder = message_decoder_new,
     m_status = SlaveStatus_new\<lparr>slave_state := st\<rparr>, m_routine_ts = 0, m_lastinteraction = 0,
     wall_time = 0, stuck = False\<rparr>"

definition demo_slave_env :: "nat slave_env" where
  "demo_slave_env = \<lparr>close_deferred = False, new_link = 8, random_key = replicate 40 CHR ''r'', load_calls = 0,
     on_continue = id, snap_reload = (\<lambda>_ _ s. (0, s))\<rparr>"

text \<open>\<open>DEL\<close> leaves its frame alone.\<close>

lemma mark_current_cmd [simp]: "current_cmd (ctx (FireKeyChangedEvent c k s) c') = current_cmd (ctx s c')"
  by (auto simp: FireKeyChangedEvent_def FireKeyChangedEvent_db_def AbortWatchKey_def ctx_mark_all Let_def split: option.split)

lemma marks_current_cmd [simp]:
  "current_cmd (ctx (fold (FireKeyChangedEvent c) ks s) c') = current_cmd (ctx s c')"
  by (induction ks arbitrary: s) simp_all

lemma Del_current_cmd: "current_cmd (ctx (Del K c cmd s) c) = current_cmd (ctx s c)"
proof -
  have "current_cmd (ctx (FillErrorReply K c e t) c) = current_cmd (ctx t c)" for e t
    unfolding FillErrorReply_def by simp
  then show ?thesis by (simp add: Del_def kv_call_def Let_def split_beta)
qed

lemma run_Del: "run_handler E docall ''Del'' = ret0 (Del (kv E))"
proof -
  have "''Del'' \<notin> set control_names" "distinct data_names" by code_simp+
  then have "map_of (control_handlers E docall) ''Del'' = None" "distinct (map fst (data_handlers E))"
    by (simp_all only: map_of_eq_None_iff handler_names list.set_map [symmetric] not_False_eq_True)
  moreover have "(''Del'', ret0 (Del (kv E))) \<in> set (data_handlers E)" by (simp add: data_handlers_def)
  ultimately show ?thesis by (simp add: run_handler_def)
qed

lemma Del_called_frame:
  assumes "settings_find (m_cmd cmd) (m_settings s) = Some st" "setting_handler st = ''Del''"
    "authenticated (ctx s SLAVE_CTX)" "valid_arity st (length (m_args cmd))" "\<not> InTransc (ctx s SLAVE_CTX)"
    "\<not> IsSubscribedConn (ctx s SLAVE_CTX)"
  shows "m_raw_msg (called_frame E cmd s) = m_raw_msg cmd"
proof -
  let ?a = "SetType cmd (setting_type st)" let ?s = "upd_ctx SLAVE_CTX (\<lambda>x. x\<lparr>no_wal := True\<rparr>) (begin_call SLAVE_CTX ?a s)"
  have d: "DoCall E (Suc 0) = DoCall_with E (DoCall E 0)" by (simp only: DoCall.simps)
  have "current_cmd (ctx (snd (DoCall E 1 SLAVE_CTX st ?a ?s)) SLAVE_CTX) = Some ?a"
    by (simp add: d DoCall_with_def Let_def split_beta assms(2) run_Del ret0_def Del_current_cmd begin_call_ctx
        del: DoCall.simps)
  moreover have "snd (Call E True SLAVE_CTX cmd s) = snd (DoCall E 1 SLAVE_CTX st ?a ?s)"
    using assms(3-6)
    by (simp add: Call_found [OF assms(1) refl] Let_def split_beta begin_call_ctx admit_def log_change_def
        InTransc_def IsSubscribedConn_def del: DoCall.simps One_nat_def)
  ultimately have "current_cmd (ctx (snd (Call E True SLAVE_CTX cmd s)) SLAVE_CTX) = Some ?a" by simp
  then show ?thesis using assms(1)
    by (simp add: called_frame_def FindRedisCommandHandlerSetting_def SetType_def)
qed

lemma demo_raw_text: "demo_raw = ''*2'' @ CRLF @ ''$3'' @ CRLF @ ''del'' @ CRLF @ ''$1'' @ CRLF @ ''k'' @ CRLF"
  by code_simp

lemma demo_raw_length: "length demo_raw = 20"
  by (simp add: demo_raw_text)

lemma demo_log_ring: "ring_holds 32 (demo_raw @ replicate 12 NUL) demo_raw"
  by (simp add: ring_holds_def demo_raw_length nth_append)

lemma demo_log_inv: "wal_inv demo_log 0 0 demo_raw"
  using demo_log_ring by (simp add: demo_log_def wal_inv_def cache_inv_def oldest_def demo_raw_length)

lemma demo_log_sound: "sound_log demo_log 0 demo_raw"
  using demo_log_inv by (auto simp: sound_log_def demo_log_def)

lemma demo_frame_kept: "AsString (m_raw_msg demo_frame) = demo_raw"
  "AsString (m_raw_msg (called_frame demo_libs demo_frame demo_state)) = demo_raw"
proof -
  show k: "AsString (m_raw_msg demo_frame) = demo_raw"
    by (simp add: demo_frame_def AsString_def Buffer_wrap_def ReadableBytes_def Readable_def demo_raw_length)
  have "settings_find (m_cmd demo_frame) (m_settings demo_state) = Some (entry ''del'' 35 ''Del'' 1 (- 1) ''w'')"
    "setting_handler (entry ''del'' 35 ''Del'' 1 (- 1) ''w'') = ''Del''"
    "valid_arity (entry ''del'' 35 ''Del'' 1 (- 1) ''w'') (length (m_args demo_frame))" by code_simp+
  moreover have "ctx demo_state SLAVE_CTX = Context_new" by (simp add: demo_state_def)
  ultimately have "m_raw_msg (called_frame demo_libs demo_frame demo_state) = m_raw_msg demo_frame"
    by (intro Del_called_frame) (simp_all add: Context_new_def InTransc_def IsSubscribedConn_def)
  then show "AsString (m_raw_msg (called_frame demo_libs demo_frame demo_state)) = demo_raw" by (simp add: k)
qed

lemma demo_slave_fields:
  "m_wal (demo_slave off st) = demo_log" "node_db (demo_slave off st) = demo_state"
  "slave_state (m_status (demo_slave off st)) = st" "DataOffset (demo_slave off st) = off"
  "WALEndOffset (demo_slave off st) = 20" "WALStartOffset (demo_slave off st) = 0"
  "m_client (demo_slave off st) = Some 7" "\<not> replaying_wal (m_status (demo_slave off st))"
  "\<not> server_is_redis (m_status (demo_slave off st))" "GetServerKey (demo_slave off st) = ''k''"
  by (simp_all add: demo_slave_def DataOffset_def WALEndOffset_def WALStartOffset_def demo_log_def
      swal_end_offset_def swal_start_offset_def SlaveStatus_new_def GetServerKey_def c_str_def)


theorem unsynced_slave_only_logs_witness:
  "node_db (HandleRedisCommand demo_libs demo_frame (demo_slave 20 SLAVE_STATE_LOADING_SNAPSHOT)) = demo_state"
  using unsynced_slave_only_logs [of "demo_slave 20 SLAVE_STATE_LOADING_SNAPSHOT" 0 demo_raw demo_frame demo_libs]
    demo_log_sound demo_frame_kept
  by (simp add: demo_slave_fields demo_raw_length Let_def)

lemma demo_requests: "demo_raw = requests [(''del'', [''k''])]" "requests_ok [(''del'', [''k''])]"
  using demo_raw_length by (simp_all add: requests_ok_def requests_def demo_raw_def request_valid_def request_ok_def)

lemma demo_replay: "fst (swal_replay 0 (- 1) demo_log) = Some [demo_raw]"
  by (simp add: swal_replay_def demo_log_def Let_def piece_def region_def demo_raw_length)


theorem refused_auth_crashes_witness:
  "stuck (Slave_MessageReceived demo_libs demo_slave_env 7 (ReplyMessage (fill_error_reply ''invalid password'' reply_new))
     (demo_slave 20 SLAVE_STATE_WAITING_AUTH_REPLY))"
  by (rule refused_auth_crashes)
    (simp_all add: demo_slave_fields demo_slave_env_def fill_error_reply_def set_str_def set_type_def)

theorem older_slave_is_continued_witness:
  "\<forall>V. \<exists>m'. AddSlave V 3 (frame ''psync'' [''k'', stringfromll 20, ''cksm'', dec_str (unat (WALCksm (demo_slave 20 SLAVE_STATE_SYNCED)))])
       (demo_slave 20 SLAVE_STATE_SYNCED) = SyncWAL m' \<and> sync_offset (slave_of 3 m') = 20"
proof
  fix V :: snapshot_env
  let ?n = "demo_slave 20 SLAVE_STATE_SYNCED"
  let ?f = "frame ''psync'' [''k'', stringfromll 20, ''cksm'', dec_str (unat (WALCksm ?n))]"
  have "tokens (CHR '' '') (take (length (psync_request ?n) - 2) (psync_request ?n)) = m_cmd ?f # m_args ?f"
    using psync_words [of ?n] by (simp add: demo_slave_fields frame_def RedisCommandFrame_new_def)
  moreover have "master_host (m_cfg (node_db ?n)) = []"
    by (simp add: demo_slave_fields demo_state_def initial_server_def default_config_def)
  moreover have "max_file_size demo_log < 2 ^ 63" "ring_cache_size demo_log < 2 ^ 63" by (simp_all add: demo_log_def)
  ultimately have "\<exists>m'. AddSlave V 3 ?f ?n = SyncWAL m' \<and> m_wal m' = m_wal ?n \<and> node_db m' = node_db ?n
     \<and> ch_out (chans m' 3) = ch_out (chans ?n 3) @ ''+CONTINUE'' @ CRLF
     \<and> map_find 3 (m_slaves m') = Some True
     \<and> sync_state (slave_of 3 m') = SYNC_STATE_SYNCED
     \<and> sync_offset (slave_of 3 m') = int (WALEndOffset ?n)"
    using demo_log_inv
    by (intro older_slave_is_continued [of ?n 0 0 demo_raw "[]" ?n ?f V 3])
      (simp_all only: demo_slave_fields demo_raw_length append_Nil2, simp_all)
  then show "\<exists>m'. AddSlave V 3 ?f ?n = SyncWAL m' \<and> sync_offset (slave_of 3 m') = 20"
    by (metis demo_slave_fields(5) of_nat_numeral)
qed

lemma demo_header_length:
  "0 < length (''$2'' @ CRLF @ ''hi'')" "length (''$2'' @ CRLF @ ''hi'') < 2 ^ 31"
  "int (length (''$2'' @ CRLF @ ''hi'')) < 100" "(100 :: int) < 2 ^ 63"
  by simp_all

theorem cut_snapshot_spoils_the_next_witness:
  "\<exists>n c. slave_state (m_status n) = SLAVE_STATE_WAITING_SNAPSHOT \<and> chunk_bytes c = ''$2'' @ CRLF @ ''hi''
     \<and> HandleRedisDumpChunk demo_libs demo_slave_env 7 c n = n"
proof -
  let ?s = "demo_slave 20 SLAVE_STATE_WAITING_SNAPSHOT"
  let ?old = "?s\<lparr>node_db := demo_state\<lparr>m_cfg := default_config\<lparr>master_host := ''m''\<rparr>\<rparr>,
      m_decoder := (m_decoder ?s)\<lparr>m_dump_file_decoder := \<lparr>m_waiting_chunk_len = 100, m_all_chunk_len = 200\<rparr>\<rparr>\<rparr>"
  let ?n = "on_fullresync demo_slave_env 7 [''FULLRESYNC'', ''k'', ''1''] (snd (ConnectMaster demo_slave_env (Slave_ChannelClosed ?old)))"
  let ?b = "Buffer_wrap (''$2'' @ CRLF @ ''hi'') 0 6"
  have "string_toint64 ''1'' = Some 1" by code_simp
  then have st: "slave_state (m_status ?n) = SLAVE_STATE_WAITING_SNAPSHOT"
    by (simp add: on_fullresync_def Let_def with_state_def)
  have b: "buf_wf ?b" "content ?b = ''$2'' @ CRLF @ ''hi''"
    by (simp_all add: Buffer_wrap_def buf_wf_def content_def region_def)
  have w: "(100 :: int) = m_waiting_chunk_len (m_dump_file_decoder (m_decoder ?old))" by simp
  show ?thesis
    using cut_snapshot_spoils_the_next [of ?n demo_slave_env 7 "[''FULLRESYNC'', ''k'', ''1'']" ?old 100 ?b demo_libs]
      b st w by (metis (no_types, lifting) demo_header_length)
qed

end
