(* ===== verification/Lzf.thy ===== *)
theory Lzf
  imports Comms_Prelude
begin

text \<open>
  The compression of strings in snapshot files: \<open>lzf_compress\<close> (\<open>common/redis/lzf_c.c\<close>) and
  \<open>lzf_decompress\<close> (\<open>common/redis/lzf_d.c\<close>), with the settings of \<open>lzfP.h\<close>. What is compressed is
  decompressed to itself, whatever the uninitialised table of the compressor holds.
\<close>

section \<open>Decompression\<close>

definition byte_at :: "bytes \<Rightarrow> nat \<Rightarrow> nat" where
  "byte_at d i = of_char (d ! i)"

text \<open>The bytes are copied one by one, so the source may overlap the target.\<close>

fun copy_back :: "nat \<Rightarrow> nat \<Rightarrow> bytes \<Rightarrow> bytes" where
  "copy_back 0 r out = out"
| "copy_back (Suc n) r out = copy_back n (r + 1) (out @ [out ! r])"

text \<open>One round of the loop: the next position and the output, or \<open>None\<close> for an early return of zero.\<close>

definition unlzf_step :: "bytes \<Rightarrow> nat \<Rightarrow> nat \<Rightarrow> bytes \<Rightarrow> (nat \<times> bytes) option" where
  "unlzf_step inp out_len ip out =
     (let ctrl = byte_at inp ip; ip = ip + 1
      in if ctrl < 32
         then
           let ctrl = ctrl + 1
           in if length out + ctrl > out_len then None
              else if ip + ctrl > length inp then None
              else Some (ip + ctrl, out @ take ctrl (drop ip inp))
         else
           let len = ctrl div 32; dist = (ctrl mod 32) * 256 + 1
           in if ip \<ge> length inp then None
              else
                let (len, ip) = (if len = 7 then (len + byte_at inp ip, ip + 1) else (len, ip))
                in if ip \<ge> length inp then None
                   else
                     let dist = dist + byte_at inp ip; ip = ip + 1
                     in if length out + len + 2 > out_len then None
                        else if dist > length out then None
                        else Some (ip, copy_back (len + 2) (length out - dist) out))"

lemma unlzf_step_moves: "unlzf_step inp out_len ip out = Some (ip', out') \<Longrightarrow> ip < ip'"
  by (auto simp: unlzf_step_def Let_def split: if_splits)

function unlzf_loop :: "bytes \<Rightarrow> nat \<Rightarrow> nat \<Rightarrow> bytes \<Rightarrow> bytes option" where
  "unlzf_loop inp out_len ip out =
     (case unlzf_step inp out_len ip out of
        None \<Rightarrow> None
      | Some (ip', out') \<Rightarrow> if ip' < length inp then unlzf_loop inp out_len ip' out' else Some out')"
  by pat_completeness auto
termination
  by (relation "measure (\<lambda>(inp, out_len, ip, out). length inp - ip)") (auto dest: unlzf_step_moves)

declare unlzf_loop.simps [simp del]

text \<open>The outer \<open>None\<close>: the first byte of an empty input is read. The inner one: the result is zero.\<close>

definition lzf_decompress :: "bytes \<Rightarrow> nat \<Rightarrow> bytes option option" where
  "lzf_decompress inp out_len = (if inp = [] then None else Some (unlzf_loop inp out_len 0 []))"

section \<open>Compression\<close>

definition HSIZE :: nat where "HSIZE = 65536"
definition MAX_LIT :: nat where "MAX_LIT = 32"
definition MAX_OFF :: int where "MAX_OFF = 8192"
definition MAX_REF :: nat where "MAX_REF = 264"

definition FRST :: "bytes \<Rightarrow> nat \<Rightarrow> nat" where
  "FRST d p = byte_at d p * 256 + byte_at d (p + 1)"

definition NEXT :: "nat \<Rightarrow> bytes \<Rightarrow> nat \<Rightarrow> nat" where
  "NEXT v d p = (v * 256) mod 2 ^ 32 + byte_at d (p + 2)"

definition IDX :: "nat \<Rightarrow> nat" where
  "IDX h = nat ((int (h div 256) - int (h * 5)) mod int HSIZE)"

text \<open>The length of a match: sixteen comparisons in a row if there is room, then a loop.\<close>

fun probe_len :: "bytes \<Rightarrow> nat \<Rightarrow> nat \<Rightarrow> nat \<Rightarrow> nat \<Rightarrow> nat + nat" where
  "probe_len d r ip 0 len = Inr len"
| "probe_len d r ip (Suc n) len =
     (let len = len + 1 in if d ! (r + len) \<noteq> d ! (ip + len) then Inl len else probe_len d r ip n len)"

function scan_len :: "bytes \<Rightarrow> nat \<Rightarrow> nat \<Rightarrow> nat \<Rightarrow> nat \<Rightarrow> nat" where
  "scan_len d r ip maxlen len =
     (if len + 1 < maxlen \<and> d ! (r + (len + 1)) = d ! (ip + (len + 1))
      then scan_len d r ip maxlen (len + 1) else len + 1)"
  by pat_completeness auto
termination
  by (relation "measure (\<lambda>(d, r, ip, maxlen, len). maxlen - len)") auto

declare scan_len.simps [simp del]

definition match_len :: "bytes \<Rightarrow> nat \<Rightarrow> nat \<Rightarrow> nat" where
  "match_len d r ip =
     (let maxlen = min (length d - ip - 2) MAX_REF
      in if maxlen > 16
         then case probe_len d r ip 16 2 of Inl len \<Rightarrow> len | Inr len \<Rightarrow> scan_len d r ip maxlen len
         else scan_len d r ip maxlen 2)"

text \<open>
  The state of the compressor: the position in the input, the hash value, the length of the current
  run of literals, the table, which holds positions relative to the input (at first whatever the
  stack held), and the output up to the write pointer. The first byte of a run is reserved and
  filled in when the run stops.
\<close>

record lzf_state =
  lz_ip :: nat
  lz_hval :: nat
  lz_lit :: nat
  lz_htab :: "nat \<Rightarrow> int"
  lz_out :: bytes

datatype 'a lzf_result = Overrun | GiveUp | Done 'a

definition bind_lzf :: "'a lzf_result \<Rightarrow> ('a \<Rightarrow> 'b lzf_result) \<Rightarrow> 'b lzf_result" where
  "bind_lzf r f = (case r of Overrun \<Rightarrow> Overrun | GiveUp \<Rightarrow> GiveUp | Done x \<Rightarrow> f x)"

text \<open>Writing past the \<open>cap\<close> bytes of the output is \<open>Overrun\<close>.\<close>

definition lz_put :: "nat \<Rightarrow> nat \<Rightarrow> bytes \<Rightarrow> bytes lzf_result" where
  "lz_put cap b out = (if length out < cap then Done (out @ [char_of (b mod 256)]) else Overrun)"

definition stop_run :: "nat \<Rightarrow> nat \<Rightarrow> bytes \<Rightarrow> bytes lzf_result" where
  "stop_run cap lit out =
     (if length out - lit - 1 < cap
      then Done (out[length out - lit - 1 := char_of ((lit + 255) mod 256)]) else Overrun)"

definition start_run :: "bytes \<Rightarrow> bytes" where "start_run out = out @ [NUL]"

definition undo_run :: "nat \<Rightarrow> bytes \<Rightarrow> bytes" where
  "undo_run lit out = (if lit = 0 then butlast out else out)"

definition add_literal :: "nat \<Rightarrow> bytes \<Rightarrow> lzf_state \<Rightarrow> lzf_state lzf_result" where
  "add_literal cap d s =
     bind_lzf (lz_put cap (byte_at d (lz_ip s)) (lz_out s)) (\<lambda>out.
       let s = s\<lparr>lz_lit := lz_lit s + 1, lz_out := out, lz_ip := lz_ip s + 1\<rparr>
       in if lz_lit s = MAX_LIT
          then bind_lzf (stop_run cap (lz_lit s) (lz_out s)) (\<lambda>out. Done (s\<lparr>lz_lit := 0, lz_out := start_run out\<rparr>))
          else Done s)"

definition match_at :: "bytes \<Rightarrow> int \<Rightarrow> nat \<Rightarrow> bool" where
  "match_at d ref ip \<longleftrightarrow>
     0 \<le> int ip - ref - 1 \<and> int ip - ref - 1 < MAX_OFF \<and> ip + 4 < length d \<and> ref > 0
     \<and> d ! nat ref = d ! ip \<and> d ! (nat ref + 1) = d ! (ip + 1) \<and> d ! (nat ref + 2) = d ! (ip + 2)"

definition put_ref :: "nat \<Rightarrow> nat \<Rightarrow> nat \<Rightarrow> bytes \<Rightarrow> bytes lzf_result" where
  "put_ref cap off len out =
     bind_lzf
       (if len < 7 then lz_put cap (off div 256 + len * 32) out
        else bind_lzf (lz_put cap (off div 256 + 7 * 32) out) (lz_put cap (len - 7)))
       (lz_put cap off)"

text \<open>After a match the table gets the last two positions before the new one.\<close>

definition rehash :: "bytes \<Rightarrow> lzf_state \<Rightarrow> lzf_state" where
  "rehash d s =
     (let p = lz_ip s - 2;
          h = NEXT (FRST d p) d p;
          t = (lz_htab s)(IDX h := int p);
          h = NEXT h d (p + 1)
      in s\<lparr>lz_hval := h, lz_htab := t(IDX h := int (p + 1))\<rparr>)"

definition add_match :: "nat \<Rightarrow> nat \<Rightarrow> bytes \<Rightarrow> nat \<Rightarrow> lzf_state \<Rightarrow> lzf_state lzf_result" where
  "add_match cap out_len d ref s =
     bind_lzf (stop_run cap (lz_lit s) (lz_out s)) (\<lambda>out.
       let out = undo_run (lz_lit s) out
       in if length out + 3 + 1 \<ge> out_len then GiveUp
          else
            let off = lz_ip s - ref - 1; len = match_len d ref (lz_ip s) - 2
            in bind_lzf (put_ref cap off len out) (\<lambda>out.
                 let s = s\<lparr>lz_lit := 0, lz_out := start_run out, lz_ip := lz_ip s + len + 2\<rparr>
                 in Done (if lz_ip s + 2 \<ge> length d then s else rehash d s)))"

definition lzf_step :: "nat \<Rightarrow> nat \<Rightarrow> bytes \<Rightarrow> lzf_state \<Rightarrow> lzf_state lzf_result" where
  "lzf_step cap out_len d s =
     (let h = NEXT (lz_hval s) d (lz_ip s);
          ref = lz_htab s (IDX h);
          s = s\<lparr>lz_hval := h, lz_htab := (lz_htab s)(IDX h := int (lz_ip s))\<rparr>
      in if match_at d ref (lz_ip s) then add_match cap out_len d (nat ref) s
         else if length (lz_out s) \<ge> out_len then GiveUp
         else add_literal cap d s)"

lemma bind_lzf_simps [simp]:
  "bind_lzf (Done x) f = f x" "bind_lzf Overrun f = Overrun" "bind_lzf GiveUp f = GiveUp"
  by (simp_all add: bind_lzf_def)

lemma bind_lzf_Done: "bind_lzf r f = Done y \<longleftrightarrow> (\<exists>x. r = Done x \<and> f x = Done y)"
  by (cases r) auto

lemma lzf_step_moves: "lzf_step cap out_len d s = Done s' \<Longrightarrow> lz_ip s < lz_ip s'"
  by (auto simp: lzf_step_def add_match_def add_literal_def rehash_def Let_def bind_lzf_Done split: if_splits)

function lzf_loop :: "nat \<Rightarrow> nat \<Rightarrow> bytes \<Rightarrow> lzf_state \<Rightarrow> lzf_state lzf_result" where
  "lzf_loop cap out_len d s =
     (if lz_ip s + 2 < length d
      then case lzf_step cap out_len d s of
             Overrun \<Rightarrow> Overrun
           | GiveUp \<Rightarrow> GiveUp
           | Done s' \<Rightarrow> lzf_loop cap out_len d s'
      else Done s)"
  by pat_completeness auto
termination
  by (relation "measure (\<lambda>(cap, out_len, d, s). length d - lz_ip s)") (auto dest: lzf_step_moves)

declare lzf_loop.simps [simp del]

function lzf_tail :: "nat \<Rightarrow> bytes \<Rightarrow> lzf_state \<Rightarrow> lzf_state lzf_result" where
  "lzf_tail cap d s =
     (if lz_ip s < length d
      then case add_literal cap d s of
             Overrun \<Rightarrow> Overrun
           | GiveUp \<Rightarrow> GiveUp
           | Done s' \<Rightarrow> lzf_tail cap d s'
      else Done s)"
  by pat_completeness auto
termination
  by (relation "measure (\<lambda>(cap, d, s). length d - lz_ip s)")
     (auto simp: add_literal_def Let_def bind_lzf_Done split: if_splits)

declare lzf_tail.simps [simp del]

text \<open>
  \<open>None\<close>: \<open>FRST\<close> reads past an input of one byte. Giving up is the result zero.
\<close>

definition lzf_compress :: "(nat \<Rightarrow> int) \<Rightarrow> bytes \<Rightarrow> nat \<Rightarrow> nat \<Rightarrow> bytes lzf_result option" where
  "lzf_compress htab d out_len cap =
     (if d = [] \<or> out_len = 0 then Some GiveUp
      else if length d = 1 then None
      else Some (
        bind_lzf (lzf_loop cap out_len d
          \<lparr>lz_ip = 0, lz_hval = FRST d 0, lz_lit = 0, lz_htab = htab, lz_out = start_run []\<rparr>) (\<lambda>s.
        if length (lz_out s) + 3 > out_len then GiveUp
        else
          bind_lzf (lzf_tail cap d s) (\<lambda>s.
          bind_lzf (stop_run cap (lz_lit s) (lz_out s)) (\<lambda>out. Done (undo_run (lz_lit s) out))))))"

section \<open>The format\<close>

datatype token = Literal bytes | Backref nat nat

fun encode_token :: "token \<Rightarrow> bytes" where
  "encode_token (Literal bs) = char_of (length bs - 1) # bs"
| "encode_token (Backref off len) =
     (if len < 7 then [char_of (off div 256 + len * 32)]
      else [char_of (off div 256 + 224), char_of (len - 7)]) @ [char_of off]"

fun apply_token :: "bytes \<Rightarrow> token \<Rightarrow> bytes" where
  "apply_token out (Literal bs) = out @ bs"
| "apply_token out (Backref off len) = copy_back (len + 2) (length out - (off + 1)) out"

fun token_ok :: "bytes \<Rightarrow> token \<Rightarrow> bool" where
  "token_ok out (Literal bs) \<longleftrightarrow> bs \<noteq> [] \<and> length bs \<le> 32"
| "token_ok out (Backref off len) \<longleftrightarrow> off < 8192 \<and> 0 < len \<and> len \<le> 262 \<and> off < length out"

fun tokens_ok :: "bytes \<Rightarrow> token list \<Rightarrow> bool" where
  "tokens_ok out [] \<longleftrightarrow> True"
| "tokens_ok out (t # ts) \<longleftrightarrow> token_ok out t \<and> tokens_ok (apply_token out t) ts"

definition encode_tokens :: "token list \<Rightarrow> bytes" where
  "encode_tokens ts = concat (map encode_token ts)"

lemma encode_tokens_simps [simp]:
  "encode_tokens [] = []"
  "encode_tokens (t # ts) = encode_token t @ encode_tokens ts"
  "encode_tokens (us @ ts) = encode_tokens us @ encode_tokens ts"
  by (simp_all add: encode_tokens_def)

lemma tokens_ok_append [simp]:
  "tokens_ok out (ts @ us) \<longleftrightarrow> tokens_ok out ts \<and> tokens_ok (foldl apply_token out ts) us"
  by (induction ts arbitrary: out) auto

lemma length_copy_back [simp]: "length (copy_back n r out) = length out + n"
  by (induction n r out rule: copy_back.induct) auto

lemma encode_token_length: "token_ok out t \<Longrightarrow> 2 \<le> length (encode_token t)"
  by (cases t) (auto simp: Suc_le_eq)

section \<open>Decompression undoes the encoding\<close>

lemma byte_at_append [simp]: "byte_at (xs @ y # ys) (length xs) = of_char y"
  by (simp add: byte_at_def)

lemma byte_at_append1 [simp]: "byte_at (xs @ x # y # ys) (Suc (length xs)) = of_char y"
  by (simp add: byte_at_def nth_append)

lemma byte_at_append2 [simp]: "byte_at (xs @ x # y # z # ys) (Suc (Suc (length xs))) = of_char z"
  by (simp add: byte_at_def nth_append)

lemma long_ref: "a < 32 \<Longrightarrow> (a + 224) mod 32 = a \<and> (a + 224) div 32 = (7 :: nat)"
  using mod_mult_self1 [of a 7 32] div_mult_self1 [of 32 a 7] by simp

lemma unlzf_step_token:
  assumes "token_ok out t" "length (apply_token out t) \<le> out_len"
  shows "unlzf_step (pre @ encode_token t @ post) out_len (length pre) out
    = Some (length pre + length (encode_token t), apply_token out t)"
proof (cases t)
  case (Literal bs)
  then have b: "length bs - 1 < 32" "bs \<noteq> []" "Suc (length bs - 1) = length bs" using assms by auto
  then show ?thesis using assms Literal by (simp add: unlzf_step_def)
next
  case (Backref off len)
  have o: "off div 256 < 32" "off div 256 * 256 + off mod 256 = off" "off < length out" "0 < len" "len \<le> 262"
    using assms Backref by auto
  have l: "length out + len + 2 \<le> out_len" using assms Backref by simp
  show ?thesis
  proof (cases "len < 7")
    case True
    show ?thesis using o l True Backref
      by (simp add: unlzf_step_def Let_def)
  next
    case False
    show ?thesis using o l False Backref long_ref [OF o(1)]
      by (simp add: unlzf_step_def Let_def)
  qed
qed


lemma encode_token_ne [simp]: "encode_token t \<noteq> []"
  by (cases t) simp_all

lemma foldl_apply_mono: "length out \<le> length (foldl apply_token out ts)"
proof (induction ts arbitrary: out)
  case (Cons t ts)
  have "length out \<le> length (apply_token out t)" by (cases t) simp_all
  then show ?case using Cons [of "apply_token out t"] by simp
qed simp

lemma unlzf_loop_tokens:
  "tokens_ok out (t # ts) \<Longrightarrow> length (foldl apply_token out (t # ts)) \<le> out_len
    \<Longrightarrow> unlzf_loop (pre @ encode_tokens (t # ts)) out_len (length pre) out
      = Some (foldl apply_token out (t # ts))"
proof (induction ts arbitrary: out t pre)
  case Nil
  then show ?case
    using unlzf_step_token [of out t out_len pre "[]"] by (simp add: unlzf_loop.simps [of "pre @ encode_token t"])
next
  case (Cons u ts)
  have "length (apply_token out t) \<le> out_len"
    using Cons.prems(2) foldl_apply_mono [of "apply_token out t" "u # ts"] by simp
  then have "unlzf_step (pre @ encode_tokens (t # u # ts)) out_len (length pre) out
      = Some (length (pre @ encode_token t), apply_token out t)"
    using unlzf_step_token [of out t out_len pre "encode_tokens (u # ts)"] Cons.prems(1) by simp
  then show ?case
    using Cons.IH [of "apply_token out t" u "pre @ encode_token t"] Cons.prems
    by (subst unlzf_loop.simps) simp
qed

lemma lzf_decompress_tokens:
  assumes "ts \<noteq> []" "tokens_ok [] ts" "length (foldl apply_token [] ts) \<le> out_len"
  shows "lzf_decompress (encode_tokens ts) out_len = Some (Some (foldl apply_token [] ts))"
  using assms unlzf_loop_tokens [where pre = "[]" and out = "[]"]
  by (cases ts) (simp_all add: lzf_decompress_def)

section \<open>Matches\<close>

abbreviation same_at :: "bytes \<Rightarrow> nat \<Rightarrow> nat \<Rightarrow> nat \<Rightarrow> bool" where
  "same_at d r ip i \<equiv> d ! (r + i) = d ! (ip + i)"

lemma probe_len_Inl:
  "probe_len d r ip n len = Inl k \<Longrightarrow> len < k \<and> k \<le> len + n \<and> (\<forall>i. len < i \<and> i < k \<longrightarrow> same_at d r ip i)"
proof (induction d r ip n len rule: probe_len.induct)
  case (2 d r ip n len)
  then show ?case
    by (auto simp: Let_def split: if_splits) (metis Suc_lessI add_Suc_right)
qed simp

lemma probe_len_Inr:
  "probe_len d r ip n len = Inr k \<Longrightarrow> k = len + n \<and> (\<forall>i. len < i \<and> i \<le> k \<longrightarrow> same_at d r ip i)"
proof (induction d r ip n len rule: probe_len.induct)
  case (2 d r ip n len)
  then show ?case
    by (auto simp: Let_def split: if_splits) (metis Suc_lessI add_Suc_right)
qed auto

lemma scan_len_bounds:
  "len < scan_len d r ip maxlen len \<and> scan_len d r ip maxlen len \<le> max (len + 1) maxlen
    \<and> (\<forall>i. len < i \<and> i < scan_len d r ip maxlen len \<longrightarrow> same_at d r ip i)"
proof (induction d r ip maxlen len rule: scan_len.induct)
  case (1 d r ip maxlen len)
  show ?case
  proof (cases "len + 1 < maxlen \<and> same_at d r ip (len + 1)")
    case True
    have "same_at d r ip i" if "len < i" "i < scan_len d r ip maxlen (len + 1)" for i
      using 1 [OF True] True that by (cases "i = len + 1") auto
    then show ?thesis using 1 [OF True] True by (simp add: scan_len.simps [of d r ip maxlen len])
  next
    case False
    then show ?thesis by (subst (1 2 3) scan_len.simps) auto
  qed
qed

lemma match_len_scan:
  "m > 16 \<Longrightarrow> match_len d r ip = (case probe_len d r ip 16 2 of Inl k \<Rightarrow> k | Inr k \<Rightarrow> scan_len d r ip m k)"
  "\<not> m > 16 \<Longrightarrow> match_len d r ip = scan_len d r ip m 2"
  if "m = min (length d - ip - 2) MAX_REF"
  unfolding that match_len_def Let_def by (simp_all only: if_P if_not_P if_False)

lemma match_len_bounds:
  assumes "match_at d (int r) ip"
  shows "3 \<le> match_len d r ip" "match_len d r ip \<le> MAX_REF" "ip + match_len d r ip \<le> length d"
    "\<forall>i < match_len d r ip. same_at d r ip i"
proof -
  define m n where "m = min (length d - ip - 2) MAX_REF" and n: "n = match_len d r ip"
  have m: "2 < m" "ip + m + 2 \<le> length d" "m \<le> MAX_REF"
    using assms by (auto simp: match_at_def m_def MAX_REF_def)
  have s: "same_at d r ip i" if "i \<le> 2" for i
    using assms that by (auto simp: match_at_def numeral_2_eq_2 le_Suc_eq)
  have *: "2 < n \<and> (n \<le> m \<or> m > 16 \<and> n \<le> 19) \<and> (\<forall>i. 2 < i \<and> i < n \<longrightarrow> same_at d r ip i)"
  proof (cases "m > 16")
    case big: True
    show ?thesis
    proof (cases "probe_len d r ip 16 2")
      case (Inl k)
      then show ?thesis using probe_len_Inl [OF Inl] match_len_scan(1) [OF m_def big] big by (simp add: n)
    next
      case (Inr k)
      have "same_at d r ip i" if "2 < i" "i < scan_len d r ip m k" for i
        using probe_len_Inr [OF Inr] scan_len_bounds [of k d r ip m] that by (cases "i \<le> k") simp_all
      then show ?thesis
        using probe_len_Inr [OF Inr] scan_len_bounds [of k d r ip m] match_len_scan(1) [OF m_def big] Inr big
        by (simp add: n max_def split: if_splits)
    qed
  next
    case False
    then show ?thesis
      using scan_len_bounds [of 2 d r ip m] match_len_scan(2) [OF m_def False] m(1)
      by (simp add: n max_def split: if_splits)
  qed
  show "3 \<le> match_len d r ip" "match_len d r ip \<le> MAX_REF" "ip + match_len d r ip \<le> length d"
    using * m unfolding n [symmetric] MAX_REF_def by auto
  show "\<forall>i < match_len d r ip. same_at d r ip i" using * s unfolding n [symmetric] by (metis not_less)
qed

lemma copy_back_match:
  "r < ip \<Longrightarrow> ip + n \<le> length d \<Longrightarrow> \<forall>i < n. same_at d r ip i
    \<Longrightarrow> copy_back n r (take ip d) = take (ip + n) d"
proof (induction n arbitrary: r ip)
  case (Suc n)
  have "take ip d @ [take ip d ! r] = take (Suc ip) d"
    using Suc.prems by (simp add: take_Suc_conv_app_nth) (metis add_0_right zero_less_Suc)
  moreover have "\<forall>i < n. same_at d (r + 1) (ip + 1) i"
    using Suc.prems(3) by (metis Suc_less_eq add.commute add_Suc_right plus_1_eq_Suc)
  ultimately show ?case using Suc.IH [of "r + 1" "ip + 1"] Suc.prems by simp
qed simp


section \<open>What is compressed is decompressed to itself\<close>

text \<open>
  The output so far: the encoding of tokens, a reserved byte, and the literals of the current run;
  tokens and literals make up the input so far.
\<close>

definition lzf_inv :: "bytes \<Rightarrow> lzf_state \<Rightarrow> bool" where
  "lzf_inv d s \<longleftrightarrow>
     (\<exists>ts lits. lz_out s = encode_tokens ts @ NUL # lits \<and> length lits = lz_lit s \<and> lz_lit s < MAX_LIT
       \<and> tokens_ok [] ts \<and> foldl apply_token [] ts @ lits = take (lz_ip s) d \<and> lz_ip s \<le> length d)"

lemma stop_run_eq:
  assumes "length lits = lit" "lit \<le> MAX_LIT" "length e < cap"
  shows "stop_run cap lit (e @ NUL # lits) = Done (e @ char_of (lit + 255) # lits)"
  using assms by (simp add: stop_run_def)

lemma char_of_pred: "0 < n \<Longrightarrow> (char_of (n + 255) :: char) = char_of (n - 1)" for n :: nat
proof (cases n)
  case (Suc k)
  have "(char_of (k + 256) :: char) = char_of k" by (metis char_of_mod_256 mod_add_self2)
  then show ?thesis using Suc by simp
qed simp

lemma stop_run_literal:
  assumes "length lits = lit" "lit \<le> MAX_LIT" "length (encode_tokens ts) < cap"
  shows "\<exists>e. stop_run cap lit (encode_tokens ts @ NUL # lits) = Done e
    \<and> undo_run lit e = encode_tokens (ts @ (if lits = [] then [] else [Literal lits]))
    \<and> (lit \<noteq> 0 \<longrightarrow> e = encode_tokens (ts @ [Literal lits])) \<and> length e = length (encode_tokens ts) + 1 + lit"
  using assms stop_run_eq [OF assms] char_of_pred [of lit]
  by (auto simp: undo_run_def MAX_LIT_def)

lemma add_literal_inv:
  assumes "lzf_inv d s" "lz_ip s < length d" "length (lz_out s) < cap"
  shows "\<exists>s'. add_literal cap d s = Done s' \<and> lzf_inv d s' \<and> lz_ip s' = lz_ip s + 1
     \<and> length (lz_out s') \<le> length (lz_out s) + 2"
proof -
  obtain ts lits where o: "lz_out s = encode_tokens ts @ NUL # lits" "length lits = lz_lit s" "lz_lit s < MAX_LIT"
      "tokens_ok [] ts" "foldl apply_token [] ts @ lits = take (lz_ip s) d"
    using assms(1) by (auto simp: lzf_inv_def)
  define l2 where "l2 = lits @ [d ! lz_ip s]"
  have b: "char_of (byte_at d (lz_ip s) mod 256) = d ! lz_ip s" by (simp add: byte_at_def)
  have p: "lz_put cap (byte_at d (lz_ip s)) (lz_out s) = Done (encode_tokens ts @ NUL # l2)"
    using assms(3) o(1) b by (simp add: lz_put_def l2_def)
  have t: "foldl apply_token [] ts @ l2 = take (lz_ip s + 1) d"
    using o(5) assms(2) by (simp add: l2_def take_Suc_conv_app_nth flip: append_assoc)
  show ?thesis
  proof (cases "lz_lit s + 1 = MAX_LIT")
    case True
    have l: "length l2 = MAX_LIT" using o(2) True by (simp add: l2_def)
    obtain e where e: "stop_run cap MAX_LIT (encode_tokens ts @ NUL # l2) = Done e"
        "e = encode_tokens (ts @ [Literal l2])"
      using stop_run_literal [of l2 MAX_LIT ts cap] l assms(3) o(1) by (auto simp: MAX_LIT_def)
    have "lzf_inv d (s\<lparr>lz_ip := lz_ip s + 1, lz_lit := 0, lz_out := start_run e\<rparr>)"
      unfolding lzf_inv_def
      by (rule exI [of _ "ts @ [Literal l2]"], rule exI [of _ "[]"])
        (use e o(4) t l assms(2) in \<open>auto simp: start_run_def MAX_LIT_def\<close>)
    then show ?thesis
      using p e True o(1) by (auto simp: add_literal_def Let_def start_run_def l2_def)
  next
    case False
    have "lzf_inv d (s\<lparr>lz_lit := lz_lit s + 1, lz_out := encode_tokens ts @ NUL # l2, lz_ip := lz_ip s + 1\<rparr>)"
      unfolding lzf_inv_def
      by (rule exI [of _ ts], rule exI [of _ l2])
        (use o t assms(2) False in \<open>auto simp: l2_def\<close>)
    then show ?thesis using p False o(1) by (auto simp: add_literal_def Let_def l2_def)
  qed
qed

lemma put_ref_token:
  assumes "length out + 3 \<le> cap"
  shows "put_ref cap off len out = Done (out @ encode_token (Backref off len))"
  using assms by (auto simp: put_ref_def lz_put_def)

lemma lzf_inv_more:
  "lzf_inv d (s\<lparr>lz_hval := h, lz_htab := t\<rparr>) \<longleftrightarrow> lzf_inv d s"
  "lzf_inv d (s\<lparr>lz_hval := h\<rparr>) \<longleftrightarrow> lzf_inv d s"
  "lzf_inv d (rehash d s) \<longleftrightarrow> lzf_inv d s"
  "lz_out (rehash d s) = lz_out s" "lz_ip (rehash d s) = lz_ip s"
  by (simp_all add: lzf_inv_def rehash_def Let_def)

lemma add_match_inv:
  assumes "lzf_inv d s" "match_at d (int ref) (lz_ip s)" "length (lz_out s) \<le> out_len + 1" "out_len < cap"
  shows "add_match cap out_len d ref s = GiveUp
    \<or> (\<exists>s'. add_match cap out_len d ref s = Done s' \<and> lzf_inv d s' \<and> length (lz_out s') \<le> out_len + 1)"
proof -
  obtain ts lits where o: "lz_out s = encode_tokens ts @ NUL # lits" "length lits = lz_lit s" "lz_lit s < MAX_LIT"
      "tokens_ok [] ts" "foldl apply_token [] ts @ lits = take (lz_ip s) d" "lz_ip s \<le> length d"
    using assms(1) by (auto simp: lzf_inv_def)
  define us where "us = ts @ (if lits = [] then [] else [Literal lits])"
  define n where "n = match_len d ref (lz_ip s)"
  define off where "off = lz_ip s - ref - 1"
  obtain e where e: "stop_run cap (lz_lit s) (lz_out s) = Done e" "undo_run (lz_lit s) e = encode_tokens us"
    using stop_run_literal [of lits "lz_lit s" ts cap] o assms(3,4) by (auto simp: us_def)
  have u: "tokens_ok [] us" "foldl apply_token [] us = take (lz_ip s) d"
    using o by (auto simp: us_def MAX_LIT_def)
  note b = match_len_bounds [OF assms(2), folded n_def]
  have m: "ref < lz_ip s" "off < 8192" "off < lz_ip s" "lz_ip s - Suc off = ref"
    using assms(2) by (auto simp: match_at_def MAX_OFF_def off_def)
  show ?thesis
  proof (cases "length (encode_tokens us) + 4 \<ge> out_len")
    case True
    then show ?thesis using e by (simp add: add_match_def Let_def)
  next
    case False
    let ?t = "Backref off (n - 2)"
    let ?s = "s\<lparr>lz_lit := 0, lz_out := start_run (encode_tokens (us @ [?t])), lz_ip := lz_ip s + n\<rparr>"
    have p: "put_ref cap off (n - 2) (encode_tokens us) = Done (encode_tokens (us @ [?t]))"
      using put_ref_token [of "encode_tokens us" cap off "n - 2"] False assms(4) by simp
    have ok: "tokens_ok [] (us @ [?t])" using u m b o(6) by (simp add: MAX_REF_def)
    have a: "foldl apply_token [] (us @ [?t]) = take (lz_ip s + n) d"
    proof -
      have "length (take (lz_ip s) d) - (off + 1) = ref" "n - 2 + 2 = n" using m(4) o(6) b(1) by simp_all
      then have "apply_token (take (lz_ip s) d) ?t = take (lz_ip s + n) d"
        using copy_back_match [OF m(1) b(3,4)] by (simp only: apply_token.simps)
      then show ?thesis using u(2) by (simp del: apply_token.simps)
    qed
    have i: "lzf_inv d ?s"
      unfolding lzf_inv_def
      by (rule exI [of _ "us @ [?t]"], rule exI [of _ "[]"])
        (use ok a b(3) in \<open>simp add: start_run_def MAX_LIT_def del: encode_tokens_simps foldl_append\<close>)
    have "length (encode_token ?t) \<le> 3" by simp
    then have l: "length (lz_out ?s) \<le> out_len + 1" using False by (simp add: start_run_def del: encode_token.simps)
    have "add_match cap out_len d ref s
        = Done (if lz_ip ?s + 2 \<ge> length d then ?s else rehash d ?s)"
    proof -
      have "lz_ip s - Suc ref = off" "lz_ip s + (n - 2) + 2 = lz_ip s + n" using b(1) by (simp_all add: off_def)
      then show ?thesis
        using e p False unfolding add_match_def Let_def n_def [symmetric]
        by (simp del: encode_tokens_simps add_2_eq_Suc')
    qed
    then show ?thesis using i l by (auto simp: lzf_inv_more)
  qed
qed

lemma lzf_step_inv:
  assumes "lzf_inv d s" "lz_ip s + 2 < length d" "length (lz_out s) \<le> out_len + 1" "out_len < cap"
  shows "lzf_step cap out_len d s = GiveUp
    \<or> (\<exists>s'. lzf_step cap out_len d s = Done s' \<and> lzf_inv d s' \<and> length (lz_out s') \<le> out_len + 1)"
proof -
  define h where "h = NEXT (lz_hval s) d (lz_ip s)"
  define ref where "ref = lz_htab s (IDX h)"
  define s1 where "s1 = s\<lparr>lz_hval := h, lz_htab := (lz_htab s)(IDX h := int (lz_ip s))\<rparr>"
  have s1: "lzf_inv d s1" "lz_ip s1 = lz_ip s" "lz_out s1 = lz_out s"
    using assms(1) by (simp_all add: s1_def lzf_inv_more)
  have step: "lzf_step cap out_len d s = (if match_at d ref (lz_ip s1) then add_match cap out_len d (nat ref) s1
      else if length (lz_out s1) \<ge> out_len then GiveUp else add_literal cap d s1)"
    by (simp add: lzf_step_def Let_def h_def ref_def s1_def)
  show ?thesis
  proof (cases "match_at d ref (lz_ip s1)")
    case True
    then have "match_at d (int (nat ref)) (lz_ip s1)" by (simp add: match_at_def)
    then show ?thesis using add_match_inv [OF s1(1)] True step assms s1 by simp
  next
    case False
    show ?thesis
    proof (cases "length (lz_out s1) \<ge> out_len")
      case False
      then show ?thesis
        using add_literal_inv [OF s1(1), of cap] \<open>\<not> match_at d ref (lz_ip s1)\<close> step assms s1 by auto
    qed (use False step in simp)
  qed
qed

lemma lzf_loop_inv:
  "lzf_inv d s \<Longrightarrow> length (lz_out s) \<le> out_len + 1 \<Longrightarrow> out_len < cap
   \<Longrightarrow> lzf_loop cap out_len d s = GiveUp
    \<or> (\<exists>s'. lzf_loop cap out_len d s = Done s' \<and> lzf_inv d s' \<and> length d \<le> lz_ip s' + 2)"
proof (induction cap out_len d s rule: lzf_loop.induct)
  case (1 cap out_len d s)
  show ?case
  proof (cases "lz_ip s + 2 < length d")
    case True
    then show ?thesis
      using lzf_step_inv [OF "1.prems"(1) True "1.prems"(2,3)] "1.IH" [OF True] "1.prems"(3)
      by (auto simp: lzf_loop.simps [of cap out_len d s])
  next
    case False
    then show ?thesis using "1.prems" by (simp add: lzf_loop.simps [of cap out_len d s])
  qed
qed

lemma lzf_tail_inv:
  "lzf_inv d s \<Longrightarrow> length (lz_out s) + 2 * (length d - lz_ip s) \<le> cap + 1
   \<Longrightarrow> \<exists>s'. lzf_tail cap d s = Done s' \<and> lzf_inv d s' \<and> lz_ip s' = length d
      \<and> length (lz_out s') \<le> length (lz_out s) + 2 * (length d - lz_ip s)"
proof (induction cap d s rule: lzf_tail.induct)
  case (1 cap d s)
  show ?case
  proof (cases "lz_ip s < length d")
    case True
    have "length (lz_out s) < cap" using "1.prems"(2) True by simp
    then obtain s' where "add_literal cap d s = Done s'" "lzf_inv d s'" "lz_ip s' = lz_ip s + 1"
        "length (lz_out s') \<le> length (lz_out s) + 2"
      using add_literal_inv [OF "1.prems"(1) True] by blast
    then show ?thesis
      using "1.IH" [OF True] "1.prems"(2) True by (force simp: lzf_tail.simps [of cap d s])
  next
    case False
    then show ?thesis using "1.prems" by (auto simp: lzf_tail.simps [of cap d s] lzf_inv_def)
  qed
qed

lemma length_undo_run: "length (undo_run lit out) \<le> length out"
  by (simp add: undo_run_def)

text \<open>
  C9: Compression is safe and loses nothing: with one byte more than the length it is given, the compressor
  never writes outside of its buffer, whatever its uninitialised table holds, and what it returns, if
  it does not give up, is decompressed to the input.
\<close>

theorem lzf_roundtrip:
  assumes "out_len < cap" "length d \<noteq> 1"
  shows "lzf_compress htab d out_len cap = Some GiveUp
    \<or> (\<exists>out. lzf_compress htab d out_len cap = Some (Done out) \<and> out \<noteq> [] \<and> length out \<le> out_len + 1
        \<and> lzf_decompress out (length d) = Some (Some d))"
proof (cases "d = [] \<or> out_len = 0")
  case False
  let ?s = "\<lparr>lz_ip = 0, lz_hval = FRST d 0, lz_lit = 0, lz_htab = htab, lz_out = start_run []\<rparr>"
  have "lzf_inv d ?s"
    unfolding lzf_inv_def
    by (rule exI [of _ "[]"], rule exI [of _ "[]"]) (simp add: start_run_def MAX_LIT_def)
  then consider "lzf_loop cap out_len d ?s = GiveUp"
    | s1 where "lzf_loop cap out_len d ?s = Done s1" "lzf_inv d s1" "length d \<le> lz_ip s1 + 2"
    using lzf_loop_inv [of d ?s out_len cap] assms(1) by (auto simp: start_run_def)
  then show ?thesis
  proof cases
    case 1
    then show ?thesis using False assms(2) by (simp add: lzf_compress_def)
  next
    case (2 s1)
    show ?thesis
    proof (cases "length (lz_out s1) + 3 > out_len")
      case True
      then show ?thesis using 2 False assms(2) by (simp add: lzf_compress_def)
    next
      case room: False
      obtain s2 where s2: "lzf_tail cap d s1 = Done s2" "lzf_inv d s2" "lz_ip s2 = length d"
          "length (lz_out s2) \<le> out_len + 1"
        using lzf_tail_inv [OF 2(2), of cap] 2(3) room assms(1) by force
      obtain ts lits where o: "lz_out s2 = encode_tokens ts @ NUL # lits" "length lits = lz_lit s2"
          "lz_lit s2 < MAX_LIT" "tokens_ok [] ts" "foldl apply_token [] ts @ lits = d"
        using s2(2,3) by (auto simp: lzf_inv_def)
      define us where "us = ts @ (if lits = [] then [] else [Literal lits])"
      obtain e where e: "stop_run cap (lz_lit s2) (lz_out s2) = Done e" "undo_run (lz_lit s2) e = encode_tokens us"
          "length e = length (lz_out s2)"
        using stop_run_literal [of lits "lz_lit s2" ts cap] o s2(4) assms(1) by (auto simp: us_def)
      have u: "tokens_ok [] us" "foldl apply_token [] us = d" "us \<noteq> []"
        using o False by (auto simp: us_def MAX_LIT_def)
      have "lzf_compress htab d out_len cap = Some (Done (encode_tokens us))"
        using 2(1) room s2(1) e False assms(2) by (simp add: lzf_compress_def)
      moreover have "encode_tokens us \<noteq> []" using u(3) by (cases us) simp_all
      moreover have "length (encode_tokens us) \<le> out_len + 1"
        using e s2(4) length_undo_run [of "lz_lit s2" e] by simp
      ultimately show ?thesis using lzf_decompress_tokens [OF u(3,1)] u(2) by simp
    qed
  qed
qed (simp add: lzf_compress_def)

lemma lzf_example:
  "lzf_compress (\<lambda>_. 0) ''aaaaaaa'' 9 10
    = Some (Done [char_of (1 :: nat), CHR ''a'', CHR ''a'', CHR '' '', NUL, char_of (1 :: nat), CHR ''a'', CHR ''a''])"
  by (simp add: lzf_compress_def lzf_loop.simps lzf_tail.simps lzf_step_def match_at_def add_match_def
      add_literal_def stop_run_def undo_run_def start_run_def rehash_def put_ref_def lz_put_def match_len_def
      scan_len.simps FRST_def NEXT_def IDX_def byte_at_def HSIZE_def MAX_LIT_def MAX_OFF_def MAX_REF_def Let_def)
    (simp add: char_of_def bit_0 bit_Suc)

theorem lzf_roundtrip_witness:
  "\<exists>out. lzf_compress (\<lambda>_. 0) ''aaaaaaa'' 9 10 = Some (Done out)
     \<and> lzf_decompress out 7 = Some (Some ''aaaaaaa'')"
  using lzf_roundtrip [of 9 10 "''aaaaaaa''" "\<lambda>_. 0"] lzf_example by (simp add: numeral_eq_Suc)

text \<open>The decompressor never writes more than the room it is given.\<close>

lemma unlzf_step_bound:
  "unlzf_step inp out_len ip out = Some (ip', out') \<Longrightarrow> length out' \<le> out_len"
  by (auto simp: unlzf_step_def Let_def split: if_splits)

theorem lzf_decompress_bounded:
  "lzf_decompress inp out_len = Some (Some out) \<Longrightarrow> length out \<le> out_len"
proof -
  have "unlzf_loop inp out_len ip o1 = Some out \<Longrightarrow> length out \<le> out_len" for ip o1
    by (induction inp out_len ip o1 rule: unlzf_loop.induct)
      (auto simp: unlzf_loop.simps dest: unlzf_step_bound split: option.splits if_splits)
  then show "lzf_decompress inp out_len = Some (Some out) \<Longrightarrow> length out \<le> out_len"
    by (auto simp: lzf_decompress_def split: if_splits)
qed

end
