(* ===== verification/Byte_Codec.thy ===== *)
theory Byte_Codec
  imports Comms_Prelude "HOL-Library.Monad_Syntax"
begin

text \<open>
  Fixed-width integers in memory and in files, least significant byte first, and pointers into a
  block: a pointer is the rest of the block from the place it points to, and a read past the end of
  the block is \<open>None\<close>.
\<close>

fun le_bytes :: "nat \<Rightarrow> nat \<Rightarrow> bytes" where
  "le_bytes 0 n = []"
| "le_bytes (Suc k) n = char_of (n mod 256) # le_bytes k (n div 256)"

fun le_val :: "bytes \<Rightarrow> nat" where
  "le_val [] = 0"
| "le_val (c # cs) = of_char c + 256 * le_val cs"

definition twos :: "nat \<Rightarrow> int \<Rightarrow> nat" where
  "twos k v = nat (v mod 256 ^ k)"

definition signed_of :: "nat \<Rightarrow> nat \<Rightarrow> int" where
  "signed_of k n = (if 2 * n < 256 ^ k then int n else int n - 256 ^ k)"

definition peek :: "bytes \<Rightarrow> nat \<Rightarrow> nat option" where
  "peek p i = (if i < length p then Some (of_char (p ! i)) else None)"

definition adv :: "nat \<Rightarrow> bytes \<Rightarrow> bytes option" where
  "adv n p = (if n \<le> length p then Some (drop n p) else None)"

definition peeks :: "bytes \<Rightarrow> nat \<Rightarrow> nat \<Rightarrow> bytes option" where
  "peeks p i n = (if i + n \<le> length p then Some (take n (drop i p)) else None)"

lemma length_le_bytes [simp]: "length (le_bytes k n) = k"
  by (induction k arbitrary: n) auto

lemma le_val_le_bytes: "le_val (le_bytes k n) = n mod 256 ^ k"
proof (induction k arbitrary: n)
  case (Suc k)
  then show ?case by (simp add: mod_mult2_eq add.commute)
qed simp

lemma le_val_le_bytes_id [simp]: "n < 256 ^ k \<Longrightarrow> le_val (le_bytes k n) = n"
  by (simp add: le_val_le_bytes)

lemma le_val_less: "le_val cs < 256 ^ length cs"
proof (induction cs)
  case (Cons c cs)
  have "of_char c < (256 :: nat)" by simp
  moreover have "256 * le_val cs + 256 \<le> 256 ^ length (c # cs)" using Cons by simp
  ultimately show ?case unfolding le_val.simps by linarith
qed simp

lemma twos_less [simp]: "twos k v < 256 ^ k"
  by (simp add: twos_def nat_less_iff)

lemma signed_of_twos:
  assumes "- (256 ^ k) \<le> 2 * v" "2 * v < 256 ^ k"
  shows "signed_of k (twos k v) = v"
proof (cases "v < 0")
  case True
  have "(v + 256 ^ k) mod 256 ^ k = v + 256 ^ k" using assms True by (intro mod_pos_pos_trivial) auto
  then have "v mod 256 ^ k = v + 256 ^ k" by simp
  moreover have "2 * nat (v + 256 ^ k) \<ge> 256 ^ k"
    using assms(1) by (simp add: le_nat_iff flip: of_nat_le_iff [where ?'a = int])
  ultimately show ?thesis using assms True by (simp add: signed_of_def twos_def)
next
  case False
  then have "v mod 256 ^ k = v" using assms by (intro mod_pos_pos_trivial) auto
  then show ?thesis using assms False by (simp add: signed_of_def twos_def flip: of_nat_less_iff [where ?'a = int])
qed

lemma peek_simps [simp]:
  "peek [] i = None" "peek (c # p) 0 = Some (of_char c)" "peek (c # p) (Suc i) = peek p i"
  "peek (c # p) (numeral n) = peek p (pred_numeral n)"
  by (simp_all add: peek_def numeral_eq_Suc)

lemma adv_simps [simp]: "adv 0 p = Some p" "adv (Suc n) (c # p) = adv n p"
  "adv (numeral k) (c # p) = adv (pred_numeral k) p"
  by (simp_all add: adv_def numeral_eq_Suc)

lemma adv_append [simp]: "n = length e \<Longrightarrow> adv n (e @ p) = Some p"
  by (simp add: adv_def)

lemma peeks_append [simp]: "n = length e \<Longrightarrow> peeks (e @ p) 0 n = Some e"
  by (simp add: peeks_def)

lemma peeks_Cons [simp]: "peeks (c # p) (Suc i) n = peeks p i n"
  "peeks (c # p) (numeral k) n = peeks p (pred_numeral k) n"
  by (simp_all add: peeks_def numeral_eq_Suc)

lemma peek_ne: "p \<noteq> [] \<Longrightarrow> peek p 0 = Some (of_char (hd p))"
  by (cases p) simp_all

end
