(* ===== verification/Rdb.thy ===== *)
theory Rdb
  imports Wal Lzf Byte_Codec Decimal
begin

text \<open>
  Reading and writing the parts of a redis snapshot file (\<open>replication/snapshot.cpp\<close>): lengths,
  integers, strings in their three encodings, and scores. What the write functions put into the file
  is what the read functions take from it.
\<close>

section \<open>The open file\<close>

text \<open>
  \<open>SnapshotStatus\<close>, with the open file as the bytes not yet read and the bytes written. \<open>sn_calls\<close>
  counts the calls of \<open>Read\<close> and \<open>Write\<close> and \<open>sn_writes\<close> those of \<open>fwrite\<close>.
\<close>

record snap =
  sn_fp :: bool
  file_path :: string
  open_readonly :: bool
  current_db :: DBID
  processed_bytes :: nat
  routine_mills :: nat
  sn_cksm :: "64 word"
  routine_cb :: bool
  sn_rest :: bytes
  sn_out :: bytes
  sn_calls :: nat
  sn_writes :: nat

text \<open>
  The world around it: the clock before and after the callback of the \<open>n\<close>-th call, the callback's
  result, how far the \<open>n\<close>-th \<open>fwrite\<close> gets if it fails, what a buffer holds that nothing was read
  into, and the compressor's uninitialised table.
\<close>

record snap_io =
  io_now :: "nat \<Rightarrow> nat"
  io_after :: "nat \<Rightarrow> nat"
  io_cb :: "nat \<Rightarrow> int"
  io_fwrite :: "nat \<Rightarrow> nat option"
  io_junk :: "nat \<Rightarrow> nat \<Rightarrow> bytes"
  io_htab :: "nat \<Rightarrow> int"

definition CHUNK :: nat where "CHUNK = 2097152"

function write_loop :: "snap_io \<Rightarrow> bytes \<Rightarrow> snap \<Rightarrow> int \<times> snap" where
  "write_loop E data s =
     (if data = [] then (0, s)
      else
        let chunk = take CHUNK data; s' = s\<lparr>sn_writes := sn_writes s + 1\<rparr>
        in case io_fwrite E (sn_writes s) of
             Some k \<Rightarrow> (- 1, s'\<lparr>sn_out := sn_out s @ take k chunk\<rparr>)
           | None \<Rightarrow> write_loop E (drop CHUNK data)
                      (s'\<lparr>sn_out := sn_out s @ chunk, sn_cksm := crc64 (sn_cksm s) chunk\<rparr>))"
  by pat_completeness auto
termination
  by (relation "measure (\<lambda>(E, data, s). length data)") (auto simp: CHUNK_def)

declare write_loop.simps [simp del]

text \<open>The count of processed bytes grows by what is left of the length, that is by nothing.\<close>

definition Write :: "snap_io \<Rightarrow> bytes \<Rightarrow> snap \<Rightarrow> int \<times> snap" where
  "Write E buf s =
     (let n = sn_calls s; now = io_now E n; s = s\<lparr>sn_calls := n + 1\<rparr>;
          due = (routine_cb s \<and> sub_size now (routine_mills s) \<ge> 100)
      in if due \<and> io_cb E n \<noteq> 0 then (io_cb E n, s)
         else
           let s = (if due then s\<lparr>routine_mills := now\<rparr> else s)
           in if \<not> sn_fp s then (- 1, s) else write_loop E buf s)"

function read_loop :: "bool \<Rightarrow> nat \<Rightarrow> bytes \<Rightarrow> snap \<Rightarrow> bytes option \<times> snap" where
  "read_loop ck n acc s =
     (if n = 0 then (Some acc, s)
      else
        let k = min CHUNK n; chunk = take k (sn_rest s)
        in if length (sn_rest s) < k then (None, s\<lparr>sn_rest := []\<rparr>)
           else read_loop ck (n - k) (acc @ chunk)
                  (s\<lparr>sn_rest := drop k (sn_rest s),
                     sn_cksm := (if ck then crc64 (sn_cksm s) chunk else sn_cksm s)\<rparr>))"
  by pat_completeness auto
termination
  by (relation "measure (\<lambda>(ck, n, acc, s). n)") (auto simp: CHUNK_def)

declare read_loop.simps [simp del]

text \<open>
  \<open>None\<close> is \<open>false\<close>. A callback that returns a code other than zero makes the result \<open>true\<close>, with nothing
  read into the buffer.
\<close>

definition Read :: "snap_io \<Rightarrow> nat \<Rightarrow> snap \<Rightarrow> bytes option \<times> snap" where
  "Read E n s =
     (let c = sn_calls s;
          s = s\<lparr>processed_bytes := processed_bytes s + n, sn_calls := c + 1\<rparr>;
          due = (routine_cb s \<and> sub_size (io_now E c) (routine_mills s) \<ge> 100)
      in if due \<and> io_cb E c \<noteq> 0 then (Some (io_junk E c n), s)
         else read_loop True n [] (if due then s\<lparr>routine_mills := io_after E c\<rparr> else s))"

section \<open>Reading\<close>

definition RDB_LENERR :: nat where "RDB_LENERR = 2 ^ 32 - 1"

definition RedisReadType :: "snap_io \<Rightarrow> snap \<Rightarrow> int \<times> snap" where
  "RedisReadType E s =
     (case Read E 1 s of (None, s) \<Rightarrow> (- 1, s) | (Some b, s) \<Rightarrow> (int (le_val b), s))"

definition RedisReadTime :: "snap_io \<Rightarrow> snap \<Rightarrow> int \<times> snap" where
  "RedisReadTime E s =
     (case Read E 4 s of (None, s) \<Rightarrow> (- 1, s) | (Some b, s) \<Rightarrow> (signed_of 4 (le_val b), s))"

definition RedisReadMillisecondTime :: "snap_io \<Rightarrow> snap \<Rightarrow> int \<times> snap" where
  "RedisReadMillisecondTime E s =
     (case Read E 8 s of (None, s) \<Rightarrow> (- 1, s) | (Some b, s) \<Rightarrow> (signed_of 8 (le_val b), s))"

text \<open>Whether the length is an encoding, and the length; the bytes are in network order.\<close>

definition RedisReadLen :: "snap_io \<Rightarrow> snap \<Rightarrow> (bool \<times> nat) \<times> snap" where
  "RedisReadLen E s =
     (case Read E 1 s of
        (None, s) \<Rightarrow> ((False, RDB_LENERR), s)
      | (Some b, s) \<Rightarrow>
          let b0 = le_val b; t = b0 div 64
          in if t = 3 then ((True, b0 mod 64), s)
             else if t = 0 then ((False, b0 mod 64), s)
             else if t = 1
             then case Read E 1 s of
                    (None, s) \<Rightarrow> ((False, RDB_LENERR), s)
                  | (Some c, s) \<Rightarrow> ((False, b0 mod 64 * 256 + le_val c), s)
             else case Read E 4 s of
                    (None, s) \<Rightarrow> ((False, RDB_LENERR), s)
                  | (Some c, s) \<Rightarrow> ((False, le_val (rev c)), s))"

text \<open>From here on the outer \<open>None\<close> is a crash, the inner one the result \<open>false\<close>.\<close>

definition RedisReadLzfStringObject :: "snap_io \<Rightarrow> snap \<Rightarrow> (bytes option \<times> snap) option" where
  "RedisReadLzfStringObject E s =
     (let ((_, clen), s) = RedisReadLen E s
      in if clen = RDB_LENERR then Some (None, s)
         else
           let ((_, n), s) = RedisReadLen E s
           in if n = RDB_LENERR then Some (None, s)
              else
                case Read E clen s of
                  (None, s) \<Rightarrow> Some (None, s)
                | (Some c, s) \<Rightarrow>
                    (case lzf_decompress c n of
                       None \<Rightarrow> None
                     | Some None \<Rightarrow> Some (None, s)
                     | Some (Some out) \<Rightarrow>
                         Some (if out = [] then None else Some (out @ replicate (n - length out) NUL), s)))"

definition RedisReadInteger :: "snap_io \<Rightarrow> nat \<Rightarrow> snap \<Rightarrow> (int option \<times> snap) option" where
  "RedisReadInteger E enctype s =
     (let k = (if enctype = 0 then 1 else if enctype = 1 then 2 else 4)
      in if enctype > 2 then None
         else case Read E k s of
                (None, s) \<Rightarrow> Some (None, s)
              | (Some b, s) \<Rightarrow> Some (Some (signed_of k (le_val b)), s))"

text \<open>An integer that cannot be read gives the empty string and \<open>true\<close>.\<close>

definition RedisReadString :: "snap_io \<Rightarrow> snap \<Rightarrow> (string option \<times> snap) option" where
  "RedisReadString E s =
     (let ((isencoded, n), s) = RedisReadLen E s
      in if isencoded
         then if n \<le> 2
              then do {
                (v, s) \<leftarrow> RedisReadInteger E n s;
                Some (Some (case v of Some v \<Rightarrow> stringfromll v | None \<Rightarrow> []), s) }
              else if n = 3 then RedisReadLzfStringObject E s
              else None
         else if n = RDB_LENERR then Some (None, s)
         else if n = 0 then Some (Some [], s)
         else Some (Read E n s))"

text \<open>
  Doubles are a parameter: the tests of the C library, the value as an integer if it is one of less
  than 52 bits, printing with \<open>%.17g\<close>, reading with \<open>%lg\<close> and \<open>strtod\<close>, and the conversion of integers.
\<close>

record 'd dbl =
  is_nan :: "'d \<Rightarrow> bool"
  is_finite :: "'d \<Rightarrow> bool"
  is_negative :: "'d \<Rightarrow> bool"
  as_llong :: "'d \<Rightarrow> int option"
  print_17g :: "'d \<Rightarrow> string"
  scan_lg :: "string \<Rightarrow> 'd option"
  c_strtod :: "string \<Rightarrow> 'd"
  of_llong :: "int \<Rightarrow> 'd"
  neg_inf :: 'd
  pos_inf :: 'd
  not_a_number :: 'd
  unset :: 'd

text \<open>The buffer has 128 bytes, but the length may be up to 252: beyond 127 the stack is overwritten.\<close>

definition RedisReadDoubleValue :: "'d dbl \<Rightarrow> snap_io \<Rightarrow> snap \<Rightarrow> ('d option \<times> snap) option" where
  "RedisReadDoubleValue D E s =
     (case Read E 1 s of
        (None, s) \<Rightarrow> Some (None, s)
      | (Some b, s) \<Rightarrow>
          let n = le_val b
          in if n = 255 then Some (Some (neg_inf D), s)
             else if n = 254 then Some (Some (pos_inf D), s)
             else if n = 253 then Some (Some (not_a_number D), s)
             else
               case Read E n s of
                 (None, s) \<Rightarrow> Some (None, s)
               | (Some t, s) \<Rightarrow>
                   if n \<ge> 128 then None
                   else Some (Some (case scan_lg D (c_str t) of Some v \<Rightarrow> v | None \<Rightarrow> unset D), s))"

section \<open>Writing\<close>

definition RedisWriteType :: "snap_io \<Rightarrow> nat \<Rightarrow> snap \<Rightarrow> int \<times> snap" where
  "RedisWriteType E t s = Write E [char_of t] s"

definition RedisWriteMillisecondTime :: "snap_io \<Rightarrow> nat \<Rightarrow> snap \<Rightarrow> int \<times> snap" where
  "RedisWriteMillisecondTime E ts s = Write E (le_bytes 8 ts) s"

definition RedisWriteTime :: "snap_io \<Rightarrow> int \<Rightarrow> snap \<Rightarrow> int \<times> snap" where
  "RedisWriteTime E t s = Write E (le_bytes 4 (twos 4 t)) s"

definition RedisWriteLen :: "snap_io \<Rightarrow> nat \<Rightarrow> snap \<Rightarrow> int \<times> snap" where
  "RedisWriteLen E n s =
     (let n = n mod 2 ^ 32
      in if n < 2 ^ 6
         then case Write E [char_of n] s of (r, s) \<Rightarrow> (if r = - 1 then - 1 else 1, s)
         else if n < 2 ^ 14
         then case Write E [char_of (0x40 + n div 256), char_of (n mod 256)] s of
                (r, s) \<Rightarrow> (if r = - 1 then - 1 else 2, s)
         else case Write E [char_of (0x80 :: nat)] s of
                (r, s) \<Rightarrow>
                  if r = - 1 then (- 1, s)
                  else case Write E (rev (le_bytes 4 n)) s of (r, s) \<Rightarrow> (if r = - 1 then - 1 else 5, s))"

definition EncodeInteger :: "int \<Rightarrow> bytes" where
  "EncodeInteger v =
     (if - (2 ^ 7) \<le> v \<and> v \<le> 2 ^ 7 - 1 then char_of (0xC0 :: nat) # le_bytes 1 (twos 1 v)
      else if - (2 ^ 15) \<le> v \<and> v \<le> 2 ^ 15 - 1 then char_of (0xC1 :: nat) # le_bytes 2 (twos 2 v)
      else if - (2 ^ 31) \<le> v \<and> v \<le> 2 ^ 31 - 1 then char_of (0xC2 :: nat) # le_bytes 4 (twos 4 v)
      else [])"

text \<open>The empty list is the result zero.\<close>

definition TryIntegerEncoding :: "string \<Rightarrow> bytes" where
  "TryIntegerEncoding t =
     (let z = c_str t; (v, n) = strtoll z
      in if n < length z then []
         else if ll2string 32 v \<noteq> t then []
         else EncodeInteger v)"

text \<open>\<open>None\<close> is a compressor that writes outside of its buffer.\<close>

definition RedisWriteLzfStringObject :: "snap_io \<Rightarrow> bytes \<Rightarrow> snap \<Rightarrow> (int \<times> snap) option" where
  "RedisWriteLzfStringObject E t s =
     (if length t \<le> 4 then Some (0, s)
      else
        let outlen = length t - 4
        in case lzf_compress (io_htab E) t outlen (outlen + 1) of
             None \<Rightarrow> None
           | Some Overrun \<Rightarrow> None
           | Some GiveUp \<Rightarrow> Some (0, s)
           | Some (Done out) \<Rightarrow>
               if out = [] then Some (0, s)
               else
                 let (n1, s) = Write E [char_of (0xC3 :: nat)] s
                 in if n1 = - 1 then Some (- 1, s)
                    else
                      let (n2, s) = RedisWriteLen E (length out) s
                      in if n2 = - 1 then Some (- 1, s)
                         else
                           let (n3, s) = RedisWriteLen E (length t) s
                           in if n3 = - 1 then Some (- 1, s)
                              else
                                let (n4, s) = Write E out s
                                in if n4 = - 1 then Some (- 1, s) else Some (n1 + n2 + n3 + n4, s))"

definition write_verbatim :: "snap_io \<Rightarrow> bytes \<Rightarrow> snap \<Rightarrow> int \<times> snap" where
  "write_verbatim E t s =
     (let (n, s) = RedisWriteLen E (length t) s
      in if n = - 1 then (- 1, s)
         else if t = [] then (n, s)
         else let (r, s) = Write E t s in (if r = - 1 then - 1 else n + int (length t), s))"

definition RedisWriteRawString :: "snap_io \<Rightarrow> bytes \<Rightarrow> snap \<Rightarrow> (int \<times> snap) option" where
  "RedisWriteRawString E t s =
     (let enc = (if 0 < length t \<and> length t \<le> 11 then TryIntegerEncoding t else [])
      in if enc \<noteq> []
         then let (r, s) = Write E enc s in Some (if r = - 1 then - 1 else int (length enc), s)
         else if length t > 20
         then do {
           (n, s) \<leftarrow> RedisWriteLzfStringObject E t s;
           if n = - 1 then Some (- 1, s)
           else if n > 0 then Some (n, s)
           else Some (write_verbatim E t s) }
         else Some (write_verbatim E t s))"

definition RedisWriteStringObject :: "snap_io \<Rightarrow> bytes \<Rightarrow> snap \<Rightarrow> (int \<times> snap) option" where
  "RedisWriteStringObject E t s = RedisWriteRawString E t s"

definition RedisWriteLongLongAsStringObject :: "snap_io \<Rightarrow> int \<Rightarrow> snap \<Rightarrow> int \<times> snap" where
  "RedisWriteLongLongAsStringObject E v s =
     (let enc = EncodeInteger v
      in if enc \<noteq> [] then Write E enc s
         else
           let t = ll2string 32 v; (n, s) = RedisWriteLen E (length t) s
           in if n = - 1 then (- 1, s)
              else let (r, s) = Write E t s in (if r = - 1 then - 1 else n + r, s))"

definition double_text :: "'d dbl \<Rightarrow> 'd \<Rightarrow> string" where
  "double_text D v = (case as_llong D v of Some n \<Rightarrow> ll2string 128 n | None \<Rightarrow> print_17g D v)"

definition RedisWriteDouble :: "'d dbl \<Rightarrow> snap_io \<Rightarrow> 'd \<Rightarrow> snap \<Rightarrow> int \<times> snap" where
  "RedisWriteDouble D E v s =
     Write E (if is_nan D v then [char_of (253 :: nat)]
              else if \<not> is_finite D v then [char_of (if is_negative D v then 255 else 254 :: nat)]
              else let t = double_text D v in char_of (length t) # t) s"

definition RedisWriteMagicHeader :: "snap_io \<Rightarrow> snap \<Rightarrow> int \<times> snap" where
  "RedisWriteMagicHeader E s = Write E ''REDIS0006'' s"

section \<open>What the calls leave behind\<close>

definition wrote :: "bytes \<Rightarrow> snap \<Rightarrow> snap \<Rightarrow> bool" where
  "wrote bs s s' \<longleftrightarrow> sn_out s' = sn_out s @ bs \<and> sn_cksm s' = crc64 (sn_cksm s) bs
     \<and> sn_fp s' = sn_fp s \<and> file_path s' = file_path s"

definition took :: "bytes \<Rightarrow> snap \<Rightarrow> snap \<Rightarrow> bool" where
  "took bs s s' \<longleftrightarrow> sn_rest s = bs @ sn_rest s' \<and> sn_cksm s' = crc64 (sn_cksm s) bs
     \<and> sn_fp s' = sn_fp s \<and> routine_cb s' = routine_cb s \<and> current_db s' = current_db s
     \<and> file_path s' = file_path s"

text \<open>Neither the callback nor the disk fails.\<close>

definition calm :: "snap_io \<Rightarrow> bool" where
  "calm E \<longleftrightarrow> (\<forall>n. io_cb E n = 0) \<and> (\<forall>n. io_fwrite E n = None)"

lemma wrote_trans: "wrote a s s1 \<Longrightarrow> wrote b s1 s2 \<Longrightarrow> wrote (a @ b) s s2"
  by (simp add: wrote_def crc64_append)

lemma wrote_fp: "wrote a s s' \<Longrightarrow> sn_fp s' = sn_fp s"
  by (simp add: wrote_def)

lemma took_trans: "took a s s1 \<Longrightarrow> took b s1 s2 \<Longrightarrow> took (a @ b) s s2"
  by (simp add: took_def crc64_append)

lemma write_loop_calm:
  "\<forall>n. io_fwrite E n = None \<Longrightarrow> \<exists>s'. write_loop E data s = (0, s') \<and> wrote data s s'"
proof (induction E data s rule: write_loop.induct)
  case (1 E data s)
  show ?case
  proof (cases "data = []")
    case True
    then show ?thesis by (simp add: write_loop.simps wrote_def crc64.simps)
  next
    case False
    let ?s = "s\<lparr>sn_writes := sn_writes s + 1, sn_out := sn_out s @ take CHUNK data,
                sn_cksm := crc64 (sn_cksm s) (take CHUNK data)\<rparr>"
    obtain s' where s': "write_loop E (drop CHUNK data) ?s = (0, s')" "wrote (drop CHUNK data) ?s s'"
      using "1.IH" [OF False refl refl] "1.prems" by fastforce
    have "wrote (take CHUNK data) s ?s" by (simp add: wrote_def)
    from wrote_trans [OF this s'(2)] show ?thesis
      using s'(1) False "1.prems" by (simp add: write_loop.simps [of E data s] Let_def)
  qed
qed

lemma Write_calm:
  assumes "calm E" "sn_fp s"
  shows "\<exists>s'. Write E bs s = (0, s') \<and> wrote bs s s'"
proof -
  have "\<exists>s'. write_loop E bs s1 = (0, s') \<and> wrote bs s s'" if "wrote [] s s1" for s1
    using write_loop_calm [of E bs s1] wrote_trans [OF that] assms(1) by (auto simp: calm_def)
  then show ?thesis
    using assms by (auto simp: Write_def Let_def calm_def wrote_def crc64.simps)
qed

lemma read_loop_take:
  "sn_rest s = bs @ q \<Longrightarrow> n = length bs
    \<Longrightarrow> \<exists>s'. read_loop True n acc s = (Some (acc @ bs), s') \<and> took bs s s'"
proof (induction "True" n acc s arbitrary: bs rule: read_loop.induct)
  case (1 n acc s)
  show ?case
  proof (cases "n = 0")
    case True
    then show ?thesis using "1.prems" by (simp add: read_loop.simps took_def crc64.simps)
  next
    case False
    let ?k = "min CHUNK n" and ?a = "take (min CHUNK n) bs" and ?b = "drop (min CHUNK n) bs"
    let ?s = "s\<lparr>sn_rest := drop ?k (sn_rest s), sn_cksm := crc64 (sn_cksm s) ?a\<rparr>"
    have k: "take ?k (sn_rest s) = ?a" "\<not> length (sn_rest s) < ?k" "drop ?k (sn_rest s) = ?b @ q"
      using "1.prems" by auto
    obtain s' where s': "read_loop True (n - ?k) (acc @ ?a) ?s = (Some ((acc @ ?a) @ ?b), s')" "took ?b ?s s'"
      using "1.hyps" [OF False refl refl, of ?b] k "1.prems" by fastforce
    have "took ?a s ?s" using k "1.prems"(1) by (simp add: took_def)
    from took_trans [OF this s'(2)] show ?thesis
      using s'(1) False k by (simp add: read_loop.simps [of True n acc s] Let_def)
  qed
qed

lemma Read_take:
  assumes "\<not> routine_cb s" "sn_rest s = bs @ q" "n = length bs"
  shows "\<exists>s'. Read E n s = (Some bs, s') \<and> took bs s s'"
  using assms read_loop_take [of "s\<lparr>processed_bytes := processed_bytes s + n, sn_calls := sn_calls s + 1\<rparr>" bs q n "[]"]
  by (auto simp: Read_def Let_def took_def)

lemma took_rest: "took bs s s' \<Longrightarrow> sn_rest s = bs @ q \<Longrightarrow> sn_rest s' = q"
  "took bs s s' \<Longrightarrow> \<not> routine_cb s \<Longrightarrow> \<not> routine_cb s'"
  by (simp_all add: took_def)

section \<open>Lengths\<close>

definition rdb_len :: "nat \<Rightarrow> bytes" where
  "rdb_len n =
     (if n < 64 then [char_of n]
      else if n < 16384 then [char_of (0x40 + n div 256), char_of (n mod 256)]
      else char_of (0x80 :: nat) # rev (le_bytes 4 n))"

lemma RedisWriteLen_calm:
  assumes "calm E" "sn_fp s" "n < 2 ^ 32"
  shows "\<exists>r s'. RedisWriteLen E n s = (r, s') \<and> 0 < r \<and> wrote (rdb_len n) s s'"
proof -
  obtain s1 where "Write E [char_of n] s = (0, s1)" "wrote [char_of n] s s1" using Write_calm [OF assms(1,2)] by blast
  moreover obtain s2 where "Write E [char_of (0x40 + n div 256), char_of (n mod 256)] s = (0, s2)"
      "wrote [char_of (0x40 + n div 256), char_of (n mod 256)] s s2" using Write_calm [OF assms(1,2)] by blast
  moreover obtain s3 where s3: "Write E [char_of (0x80 :: nat)] s = (0, s3)" "wrote [char_of (0x80 :: nat)] s s3"
    using Write_calm [OF assms(1,2)] by blast
  moreover obtain s4 where "Write E (rev (le_bytes 4 n)) s3 = (0, s4)" "wrote (rev (le_bytes 4 n)) s3 s4"
    using Write_calm [OF assms(1), of s3] s3 assms(2) by (auto simp: wrote_def)
  ultimately show ?thesis
    using assms(3) wrote_trans [OF s3(2)] by (auto simp: RedisWriteLen_def rdb_len_def)
qed

lemma RedisReadLen_len:
  assumes "\<not> routine_cb s" "sn_rest s = rdb_len n @ q" "n < 2 ^ 32"
  shows "\<exists>s'. RedisReadLen E s = ((False, n), s') \<and> took (rdb_len n) s s'"
proof -
  consider "n < 64" | "64 \<le> n" "n < 16384" | "16384 \<le> n" by linarith
  then show ?thesis
  proof cases
    case 1
    then have "n div 64 = 0" "n mod 64 = n" by simp_all
    then show ?thesis
      using Read_take [of s "[char_of n]" q 1 E] 1 assms by (auto simp: RedisReadLen_def rdb_len_def)
  next
    case 2
    define a where "a = n div 256"
    have a: "a < 64" "n = a * 256 + n mod 256" using 2 by (simp_all add: a_def)
    then have d: "(64 + a) div 64 = 1" "(64 + a) mod 64 = a" by simp_all
    obtain s1 where s1: "Read E 1 s = (Some [char_of (64 + a)], s1)" "took [char_of (64 + a)] s s1"
      using Read_take [of s "[char_of (64 + a)]" "char_of (n mod 256) # q" 1 E] 2 assms
      by (auto simp: rdb_len_def a_def)
    have "sn_rest s1 = [char_of (n mod 256)] @ q"
      using took_rest(1) [OF s1(2)] 2 assms by (auto simp: rdb_len_def a_def)
    then obtain s2 where "Read E 1 s1 = (Some [char_of (n mod 256)], s2)" "took [char_of (n mod 256)] s1 s2"
      using Read_take [of s1 "[char_of (n mod 256)]" q 1 E] took_rest(2) [OF s1(2)] assms by auto
    then show ?thesis
      using s1 d a 2 took_trans [OF s1(2)] by (auto simp: RedisReadLen_def rdb_len_def a_def [symmetric])
  next
    case 3
    obtain s1 where s1: "Read E 1 s = (Some [char_of (0x80 :: nat)], s1)" "took [char_of (0x80 :: nat)] s s1"
      using Read_take [of s "[char_of (0x80 :: nat)]" "rev (le_bytes 4 n) @ q" 1 E] 3 assms
      by (auto simp: rdb_len_def)
    have "sn_rest s1 = rev (le_bytes 4 n) @ q"
      using took_rest(1) [OF s1(2)] 3 assms by (auto simp: rdb_len_def)
    then obtain s2 where "Read E 4 s1 = (Some (rev (le_bytes 4 n)), s2)" "took (rev (le_bytes 4 n)) s1 s2"
      using Read_take [of s1 "rev (le_bytes 4 n)" q 4 E] took_rest(2) [OF s1(2)] assms by auto
    then show ?thesis
      using s1 3 took_trans [OF s1(2)] assms(3) by (auto simp: RedisReadLen_def rdb_len_def)
  qed
qed

section \<open>Strings\<close>

lemma ll2string_short: "length (stringfromll v) < n \<Longrightarrow> ll2string n v = stringfromll v"
  by (auto simp: ll2string_def stringfromll_def Let_def)

lemma stringfromll_length:
  assumes "- (2 ^ 31) \<le> v" "v < 2 ^ 31"
  shows "length (stringfromll v) < 32"
proof -
  have "length (dec_str n) \<le> 10" if "n \<le> 2 ^ 31" for n
    using length_dec_str_le [of 10 n] that by simp
  then have "length (dec_str (nat (if v < 0 then - v else v))) \<le> 10" using assms by simp
  moreover have "v < 0 \<Longrightarrow> stringfromll v = CHR ''-'' # dec_str (nat (- v))"
    using stringfromll_neg [of v] assms by simp
  moreover have "0 \<le> v \<Longrightarrow> stringfromll v = dec_str (nat v)"
    using stringfromll_nonneg [of v] assms by simp
  ultimately show ?thesis by (cases "v < 0") auto
qed

lemma RedisReadLen_enc:
  assumes "\<not> routine_cb s" "sn_rest s = char_of (0xC0 + k) # q" "k < 64"
  shows "\<exists>s'. RedisReadLen E s = ((True, k), s') \<and> took [char_of (0xC0 + k)] s s'"
proof -
  have "(192 + k) div 64 = 3" "(192 + k) mod 64 = k"
    using assms(3) mod_mult_self1 [of k 3 64] by (simp_all add: add.commute)
  then show ?thesis
    using Read_take [of s "[char_of (0xC0 + k)]" q 1 E] assms by (auto simp: RedisReadLen_def)
qed

text \<open>The bytes of a string, for a given table of the compressor.\<close>

definition rdb_string :: "(nat \<Rightarrow> int) \<Rightarrow> bytes \<Rightarrow> bytes" where
  "rdb_string h t =
     (let enc = (if 0 < length t \<and> length t \<le> 11 then TryIntegerEncoding t else [])
      in if enc \<noteq> [] then enc
         else case (if length t > 20 then lzf_compress h t (length t - 4) (length t - 4 + 1) else Some GiveUp) of
                Some (Done out) \<Rightarrow> char_of (0xC3 :: nat) # rdb_len (length out) @ rdb_len (length t) @ out
              | _ \<Rightarrow> rdb_len (length t) @ t)"

lemma try_integer_cases:
  assumes "TryIntegerEncoding t \<noteq> []"
  obtains k :: nat and e v where "k \<le> 2" "TryIntegerEncoding t = char_of (0xC0 + k) # e" "t = stringfromll v"
    "length e = (if k = 0 then 1 else if k = 1 then 2 else 4)" "signed_of (length e) (le_val e) = v"
proof -
  define v where "v = fst (strtoll (c_str t))"
  have e: "TryIntegerEncoding t = EncodeInteger v" "ll2string 32 v = t" "EncodeInteger v \<noteq> []"
    using assms by (auto simp: TryIntegerEncoding_def Let_def split_beta v_def split: if_splits)
  then have r: "- (2 ^ 31) \<le> v" "v < 2 ^ 31" by (auto simp: EncodeInteger_def split: if_splits)
  then have t: "t = stringfromll v" using e(2) ll2string_short [OF stringfromll_length] by simp
  have l: "le_val (le_bytes k (twos k v)) = twos k v" for k by (rule le_val_le_bytes_id) (rule twos_less)
  have "\<exists>(k :: nat) n. k \<le> 2 \<and> n = (if k = 0 then 1 else if k = 1 then 2 else 4)
      \<and> EncodeInteger v = char_of (0xC0 + k) # le_bytes n (twos n v) \<and> signed_of n (twos n v) = v"
  proof -
    consider "- (2 ^ 7) \<le> v \<and> v \<le> 2 ^ 7 - 1"
      | "\<not> (- (2 ^ 7) \<le> v \<and> v \<le> 2 ^ 7 - 1)" "- (2 ^ 15) \<le> v \<and> v \<le> 2 ^ 15 - 1"
      | "\<not> (- (2 ^ 7) \<le> v \<and> v \<le> 2 ^ 7 - 1)" "\<not> (- (2 ^ 15) \<le> v \<and> v \<le> 2 ^ 15 - 1)" by blast
    then show ?thesis
    proof cases
      case 1
      then show ?thesis
        by - (rule exI [of _ 0], rule exI [of _ 1], simp add: EncodeInteger_def signed_of_twos del: le_bytes.simps)
    next
      case 2
      then show ?thesis
        by - (rule exI [of _ 1], rule exI [of _ 2], auto simp: EncodeInteger_def signed_of_twos simp del: le_bytes.simps)
    next
      case 3
      then show ?thesis using r
        by - (rule exI [of _ 2], rule exI [of _ 4], auto simp: EncodeInteger_def signed_of_twos simp del: le_bytes.simps)
    qed
  qed
  then obtain k :: nat and n where k: "k \<le> 2" "n = (if k = 0 then 1 else if k = 1 then 2 else 4)"
      "EncodeInteger v = char_of (0xC0 + k) # le_bytes n (twos n v)" "signed_of n (twos n v) = v" by blast
  show thesis
    using that [of k "le_bytes n (twos n v)" v] k e(1) t l by simp
qed

lemma write_verbatim_calm:
  assumes "calm E" "sn_fp s" "length t < 2 ^ 32"
  shows "\<exists>r s'. write_verbatim E t s = (r, s') \<and> 0 < r \<and> wrote (rdb_len (length t) @ t) s s'"
proof -
  obtain r s1 where s1: "RedisWriteLen E (length t) s = (r, s1)" "0 < r" "wrote (rdb_len (length t)) s s1"
    using RedisWriteLen_calm [OF assms] by blast
  obtain s2 where "Write E t s1 = (0, s2)" "wrote t s1 s2"
    using Write_calm [OF assms(1), of s1] wrote_fp [OF s1(3)] assms(2) by auto
  then show ?thesis
    using s1 wrote_trans [OF s1(3)] by (auto simp: write_verbatim_def)
qed

lemma lzf_write_calm:
  assumes "calm E" "sn_fp s" "20 < length t" "length t < 2 ^ 32"
  shows "RedisWriteLzfStringObject E t s = Some (0, s)
      \<and> lzf_compress (io_htab E) t (length t - 4) (length t - 4 + 1) = Some GiveUp
    \<or> (\<exists>out r s'. RedisWriteLzfStringObject E t s = Some (r, s') \<and> 0 < r
        \<and> lzf_compress (io_htab E) t (length t - 4) (length t - 4 + 1) = Some (Done out)
        \<and> wrote (char_of (0xC3 :: nat) # rdb_len (length out) @ rdb_len (length t) @ out) s s')"
proof -
  let ?c = "lzf_compress (io_htab E) t (length t - 4) (length t - 4 + 1)"
  have "?c = Some GiveUp \<or> (\<exists>out. ?c = Some (Done out) \<and> out \<noteq> [] \<and> length out \<le> length t - 4 + 1)"
    using lzf_roundtrip [of "length t - 4" "length t - 4 + 1" t "io_htab E"] assms(3) by auto
  then show ?thesis
  proof (elim disjE exE conjE)
    fix out assume out: "?c = Some (Done out)" "out \<noteq> []" "length out \<le> length t - 4 + 1"
    have small: "length out < 2 ^ 32" using out(3) assms(3,4) by linarith
    obtain s1 where s1: "Write E [char_of (0xC3 :: nat)] s = (0, s1)" "wrote [char_of (0xC3 :: nat)] s s1"
      using Write_calm [OF assms(1,2)] by blast
    obtain r2 s2 where s2: "RedisWriteLen E (length out) s1 = (r2, s2)" "0 < r2" "wrote (rdb_len (length out)) s1 s2"
      using RedisWriteLen_calm [OF assms(1), of s1 "length out"] wrote_fp [OF s1(2)] assms(1,2) small by auto
    obtain r3 s3 where s3: "RedisWriteLen E (length t) s2 = (r3, s3)" "0 < r3" "wrote (rdb_len (length t)) s2 s3"
      using RedisWriteLen_calm [OF assms(1), of s2 "length t"] wrote_fp [OF s1(2)] wrote_fp [OF s2(3)] assms by auto
    obtain s4 where s4: "Write E out s3 = (0, s4)" "wrote out s3 s4"
      using Write_calm [OF assms(1), of s3 out] wrote_fp [OF s1(2)] wrote_fp [OF s2(3)] wrote_fp [OF s3(3)] assms by auto
    have "wrote (char_of (0xC3 :: nat) # rdb_len (length out) @ rdb_len (length t) @ out) s s4"
      using wrote_trans [OF s1(2) wrote_trans [OF s2(3) wrote_trans [OF s3(3) s4(2)]]] by simp
    then show ?thesis
      using out s1(1) s2(1,2) s3(1,2) s4(1) assms(3) by (simp add: RedisWriteLzfStringObject_def)
  qed (use assms(3) in \<open>simp add: RedisWriteLzfStringObject_def\<close>)
qed

lemma RedisWriteRawString_calm:
  assumes "calm E" "sn_fp s" "length t < 2 ^ 32"
  shows "\<exists>r s'. RedisWriteRawString E t s = Some (r, s') \<and> 0 < r \<and> wrote (rdb_string (io_htab E) t) s s'"
proof -
  define enc where "enc = (if 0 < length t \<and> length t \<le> 11 then TryIntegerEncoding t else [])"
  show ?thesis
  proof (cases "enc = []")
    case False
    then show ?thesis
      using Write_calm [OF assms(1,2), of enc] unfolding RedisWriteRawString_def rdb_string_def enc_def [symmetric]
      by auto
  next
    case True
    show ?thesis
    proof (cases "20 < length t")
      case False
      then show ?thesis
        using True write_verbatim_calm [OF assms] unfolding RedisWriteRawString_def rdb_string_def enc_def [symmetric]
        by auto
    next
      case long: True
      show ?thesis
        using lzf_write_calm [OF assms(1,2) long assms(3)] True long write_verbatim_calm [OF assms]
        unfolding RedisWriteRawString_def rdb_string_def enc_def [symmetric]
        by (auto simp: Let_def)
    qed
  qed
qed

lemma RedisReadInteger_le:
  assumes "\<not> routine_cb s" "sn_rest s = e @ q" "k \<le> 2" "length e = (if k = 0 then 1 else if k = 1 then 2 else 4)"
  shows "\<exists>s'. RedisReadInteger E k s = Some (Some (signed_of (length e) (le_val e)), s') \<and> took e s s'"
  using Read_take [OF assms(1,2) assms(4) [symmetric], of E] assms(3,4) by (auto simp: RedisReadInteger_def Let_def)

lemma RedisReadString_verbatim:
  assumes "\<not> routine_cb s" "sn_rest s = (rdb_len (length t) @ t) @ q" "length t < 2 ^ 32 - 1"
  shows "\<exists>s'. RedisReadString E s = Some (Some t, s') \<and> took (rdb_len (length t) @ t) s s'"
proof -
  obtain s1 where s1: "RedisReadLen E s = ((False, length t), s1)" "took (rdb_len (length t)) s s1"
    using RedisReadLen_len [of s "length t" "t @ q" E] assms by auto
  have "\<not> routine_cb s1" "sn_rest s1 = t @ q" using took_rest [OF s1(2)] assms(1,2) by auto
  then obtain s2 where "Read E (length t) s1 = (Some t, s2)" "took t s1 s2" using Read_take [of s1 t q] by blast
  then show ?thesis
    using s1 took_trans [OF s1(2)] assms(3) by (cases "t = []") (auto simp: RedisReadString_def RDB_LENERR_def)
qed

lemma RedisReadString_lzf:
  assumes "\<not> routine_cb s" "sn_rest s = (char_of (0xC3 :: nat) # rdb_len (length c) @ rdb_len (length t) @ c) @ q"
    "lzf_decompress c (length t) = Some (Some t)" "t \<noteq> []" "length c < 2 ^ 32 - 1" "length t < 2 ^ 32 - 1"
  shows "\<exists>s'. RedisReadString E s = Some (Some t, s')
    \<and> took (char_of (0xC3 :: nat) # rdb_len (length c) @ rdb_len (length t) @ c) s s'"
proof -
  obtain s1 where s1: "RedisReadLen E s = ((True, 3), s1)" "took [char_of (0xC3 :: nat)] s s1"
    using RedisReadLen_enc [of s 3 _ E] assms(1,2) by fastforce
  have r1: "\<not> routine_cb s1" "sn_rest s1 = rdb_len (length c) @ rdb_len (length t) @ c @ q"
    using took_rest [OF s1(2)] assms(1,2) by auto
  then obtain s2 where s2: "RedisReadLen E s1 = ((False, length c), s2)" "took (rdb_len (length c)) s1 s2"
    using RedisReadLen_len [of s1 "length c" _ E] assms(5) by fastforce
  have r2: "\<not> routine_cb s2" "sn_rest s2 = rdb_len (length t) @ c @ q" using took_rest [OF s2(2)] r1 by auto
  then obtain s3 where s3: "RedisReadLen E s2 = ((False, length t), s3)" "took (rdb_len (length t)) s2 s3"
    using RedisReadLen_len [of s2 "length t" _ E] assms(6) by fastforce
  have r3: "\<not> routine_cb s3" "sn_rest s3 = c @ q" using took_rest [OF s3(2)] r2 by auto
  then obtain s4 where s4: "Read E (length c) s3 = (Some c, s4)" "took c s3 s4" using Read_take by blast
  have "took (char_of (0xC3 :: nat) # rdb_len (length c) @ rdb_len (length t) @ c) s s4"
    using took_trans [OF s1(2) took_trans [OF s2(2) took_trans [OF s3(2) s4(2)]]] by simp
  then show ?thesis
    using s1(1) s2(1) s3(1) s4(1) assms(3-6)
    by (simp add: RedisReadString_def RedisReadLzfStringObject_def RDB_LENERR_def)
qed

lemma RedisReadString_rdb:
  assumes "\<not> routine_cb s" "sn_rest s = rdb_string h t @ q" "length t < 2 ^ 32 - 1"
  shows "\<exists>s'. RedisReadString E s = Some (Some t, s') \<and> took (rdb_string h t) s s'"
proof -
  define enc where "enc = (if 0 < length t \<and> length t \<le> 11 then TryIntegerEncoding t else [])"
  show ?thesis
  proof (cases "enc = []")
    case False
    then have enc: "rdb_string h t = enc" "enc = TryIntegerEncoding t" "TryIntegerEncoding t \<noteq> []"
      by (auto simp: rdb_string_def enc_def split: if_splits)
    obtain k :: nat and e v where k: "k \<le> 2" "TryIntegerEncoding t = char_of (0xC0 + k) # e" "t = stringfromll v"
        "length e = (if k = 0 then 1 else if k = 1 then 2 else 4)" "signed_of (length e) (le_val e) = v"
      using try_integer_cases [OF enc(3)] by blast
    obtain s1 where s1: "RedisReadLen E s = ((True, k), s1)" "took [char_of (0xC0 + k)] s s1"
      using RedisReadLen_enc [of s k "e @ q" E] assms(1,2) enc k(1,2) by fastforce
    have "\<not> routine_cb s1" "sn_rest s1 = e @ q" using took_rest [OF s1(2)] assms(1,2) enc k(2) by auto
    then obtain s2 where s2: "RedisReadInteger E k s1 = Some (Some v, s2)" "took e s1 s2"
      using RedisReadInteger_le [OF _ _ k(1,4), of s1 q E] k(5) by auto
    then show ?thesis
      using s1 k(1-3) enc took_trans [OF s1(2) s2(2)] by (simp add: RedisReadString_def)
  next
    case True
    then have r: "rdb_string h t = (case (if length t > 20 then lzf_compress h t (length t - 4) (length t - 4 + 1) else Some GiveUp) of
        Some (Done out) \<Rightarrow> char_of (0xC3 :: nat) # rdb_len (length out) @ rdb_len (length t) @ out
      | _ \<Rightarrow> rdb_len (length t) @ t)"
      by (simp only: rdb_string_def enc_def [symmetric] Let_def if_False simp_thms)
    have c: "20 < length t \<Longrightarrow> lzf_compress h t (length t - 4) (length t - 4 + 1) = Some GiveUp
        \<or> (\<exists>out. lzf_compress h t (length t - 4) (length t - 4 + 1) = Some (Done out)
            \<and> length out \<le> length t - 4 + 1 \<and> lzf_decompress out (length t) = Some (Some t))"
      using lzf_roundtrip [of "length t - 4" "length t - 4 + 1" t h] by fastforce
    consider "rdb_string h t = rdb_len (length t) @ t"
      | out where "rdb_string h t = char_of (0xC3 :: nat) # rdb_len (length out) @ rdb_len (length t) @ out"
          "20 < length t" "length out \<le> length t - 4 + 1" "lzf_decompress out (length t) = Some (Some t)"
      using c by (cases "20 < length t") (auto simp: r)
    then show ?thesis
    proof cases
      case 1
      then show ?thesis using RedisReadString_verbatim [OF assms(1) _ assms(3)] assms(2) by simp
    next
      case (2 out)
      then have "t \<noteq> []" by auto
      moreover have "length out < 2 ^ 32 - 1" using 2(2,3) assms(3) by linarith
      ultimately have "t \<noteq> []" "length out < 2 ^ 32 - 1" by simp_all
      then show ?thesis using RedisReadString_lzf [OF assms(1) _ 2(4), of q] assms(2,3) 2(1) by simp
    qed
  qed
qed

section \<open>Scores\<close>

definition rdb_double :: "'d dbl \<Rightarrow> 'd \<Rightarrow> bytes" where
  "rdb_double D v =
     (if is_nan D v then [char_of (253 :: nat)]
      else if \<not> is_finite D v then [char_of (if is_negative D v then 255 else 254 :: nat)]
      else char_of (length (double_text D v)) # double_text D v)"

text \<open>What the C library promises of a value: its text is short and reads back.\<close>

definition dbl_reads_back :: "'d dbl \<Rightarrow> 'd \<Rightarrow> bool" where
  "dbl_reads_back D v \<longleftrightarrow>
     (if is_nan D v then v = not_a_number D
      else if \<not> is_finite D v then v = (if is_negative D v then neg_inf D else pos_inf D)
      else length (double_text D v) < 128 \<and> NUL \<notin> set (double_text D v) \<and> scan_lg D (double_text D v) = Some v)"

lemma RedisWriteDouble_calm:
  assumes "calm E" "sn_fp s"
  shows "\<exists>s'. RedisWriteDouble D E v s = (0, s') \<and> wrote (rdb_double D v) s s'"
  using Write_calm [OF assms, of "rdb_double D v"]
  unfolding RedisWriteDouble_def Let_def rdb_double_def [symmetric] .

lemma RedisReadDouble_rdb:
  assumes "\<not> routine_cb s" "sn_rest s = rdb_double D v @ q" "dbl_reads_back D v"
  shows "\<exists>s'. RedisReadDoubleValue D E s = Some (Some v, s') \<and> took (rdb_double D v) s s'"
proof (cases "is_nan D v \<or> \<not> is_finite D v")
  case True
  then obtain b :: nat where b: "rdb_double D v = [char_of b]" "b = 253 \<or> b = 254 \<or> b = 255"
      "v = (if b = 255 then neg_inf D else if b = 254 then pos_inf D else not_a_number D)"
    using assms(3) that [of 253] that [of 254] that [of 255]
    by (auto simp: rdb_double_def dbl_reads_back_def split: if_splits)
  then obtain s1 where "Read E 1 s = (Some [char_of b], s1)" "took [char_of b] s s1"
    using Read_take [of s "[char_of b]" q 1 E] assms(1,2) by auto
  then show ?thesis using b by (auto simp: RedisReadDoubleValue_def)
next
  case False
  let ?t = "double_text D v"
  have t: "length ?t < 128" "NUL \<notin> set ?t" "scan_lg D ?t = Some v" "rdb_double D v = char_of (length ?t) # ?t"
    using False assms(3) by (auto simp: dbl_reads_back_def rdb_double_def)
  obtain s1 where s1: "Read E 1 s = (Some [char_of (length ?t)], s1)" "took [char_of (length ?t)] s s1"
    using Read_take [of s "[char_of (length ?t)]" "?t @ q" 1 E] assms(1,2) t(4) by auto
  have "\<not> routine_cb s1" "sn_rest s1 = ?t @ q" using took_rest [OF s1(2)] assms(1,2) t(4) by auto
  then obtain s2 where s2: "Read E (length ?t) s1 = (Some ?t, s2)" "took ?t s1 s2" using Read_take by blast
  then show ?thesis
    using s1 t took_trans [OF s1(2) s2(2)] by (simp add: RedisReadDoubleValue_def)
qed

end
