(* ===== verification/Ziplist.thy ===== *)
theory Ziplist
  imports Byte_Codec Decimal
begin

text \<open>
  The packed lists of \<open>common/redis/ziplist.c\<close>: reading an entry, walking the list, and appending to it.
  A pointer is the rest of the block from where it points. Walking a list that was built by
  appending gives what was appended, integers included.
\<close>

section \<open>Reading\<close>

datatype zl_value = ZStr bytes | ZInt int

definition zipIntSize :: "nat \<Rightarrow> nat" where
  "zipIntSize enc =
     (if enc = 0xFE then 1 else if enc = 0xC0 then 2 else if enc = 0xF0 then 3
      else if enc = 0xD0 then 4 else if enc = 0xE0 then 8 else 0)"

definition ZIP_IS_STR :: "nat \<Rightarrow> bool" where "ZIP_IS_STR enc \<longleftrightarrow> enc div 64 < 3"

text \<open>The encoding, the size of the length field and the length.\<close>

definition ZIP_DECODE_LENGTH :: "bytes \<Rightarrow> (nat \<times> nat \<times> nat) option" where
  "ZIP_DECODE_LENGTH p = do {
     b \<leftarrow> peek p 0;
     let enc = (if b < 0xC0 then b div 64 * 64 else b);
     if enc < 0xC0
     then if enc = 0 then Some (enc, 1, b mod 64)
          else if enc = 0x40 then do { c \<leftarrow> peek p 1; Some (enc, 2, b mod 64 * 256 + c) }
          else do { l \<leftarrow> peeks p 1 4; Some (enc, 5, le_val (rev l)) }
     else Some (enc, 1, zipIntSize enc) }"

definition ZIP_DECODE_PREVLENSIZE :: "bytes \<Rightarrow> nat option" where
  "ZIP_DECODE_PREVLENSIZE p = map_option (\<lambda>b. if b < 254 then 1 else 5) (peek p 0)"

text \<open>The sum is an \<open>unsigned int\<close>.\<close>

definition zipRawEntryLength :: "bytes \<Rightarrow> nat option" where
  "zipRawEntryLength p = do {
     prevlensize \<leftarrow> ZIP_DECODE_PREVLENSIZE p;
     q \<leftarrow> adv prevlensize p;
     (enc, lensize, len) \<leftarrow> ZIP_DECODE_LENGTH q;
     Some ((prevlensize + lensize + len) mod 2 ^ 32) }"

definition zipLoadInteger :: "bytes \<Rightarrow> nat \<Rightarrow> int option" where
  "zipLoadInteger p enc =
     (if enc = 0xFE then map_option (\<lambda>b. signed_of 1 (le_val b)) (peeks p 0 1)
      else if enc = 0xC0 then map_option (\<lambda>b. signed_of 2 (le_val b)) (peeks p 0 2)
      else if enc = 0xD0 then map_option (\<lambda>b. signed_of 4 (le_val b)) (peeks p 0 4)
      else if enc = 0xF0 then map_option (\<lambda>b. signed_of 3 (le_val b)) (peeks p 0 3)
      else if enc = 0xE0 then map_option (\<lambda>b. signed_of 8 (le_val b)) (peeks p 0 8)
      else if 0xF1 \<le> enc \<and> enc \<le> 0xFD then Some (int (enc mod 16) - 1)
      else None)"

record zlentry =
  prevrawlensize :: nat
  prevrawlen :: nat
  lensize :: nat
  len :: nat
  headersize :: nat
  encoding :: nat

definition zipEntry :: "bytes \<Rightarrow> zlentry option" where
  "zipEntry p = do {
     s \<leftarrow> ZIP_DECODE_PREVLENSIZE p;
     prev \<leftarrow> (if s = 1 then peek p 0 else map_option le_val (peeks p 1 4));
     q \<leftarrow> adv s p;
     (enc, ls, l) \<leftarrow> ZIP_DECODE_LENGTH q;
     Some \<lparr>prevrawlensize = s, prevrawlen = prev, lensize = ls, len = l, headersize = s + ls, encoding = enc\<rparr> }"

text \<open>\<open>Some None\<close> is the result zero; a string result has its bytes read by every caller.\<close>

definition ziplistGet :: "bytes \<Rightarrow> zl_value option option" where
  "ziplistGet p = do {
     b \<leftarrow> peek p 0;
     if b = 255 then Some None
     else do {
       e \<leftarrow> zipEntry p;
       if ZIP_IS_STR (encoding e)
       then map_option (\<lambda>s. Some (ZStr s)) (peeks p (headersize e) (len e))
       else do { q \<leftarrow> adv (headersize e) p; map_option (\<lambda>v. Some (ZInt v)) (zipLoadInteger q (encoding e)) } } }"

definition at_end :: "bytes \<Rightarrow> bytes option option" where
  "at_end p = map_option (\<lambda>b. if b = 255 then None else Some p) (peek p 0)"

definition ziplistNext :: "bytes \<Rightarrow> bytes option option" where
  "ziplistNext p = do {
     b \<leftarrow> peek p 0;
     if b = 255 then Some None
     else do { n \<leftarrow> zipRawEntryLength p; q \<leftarrow> adv n p; at_end q } }"

text \<open>\<open>ziplistIndex\<close> at zero, the only index in use: the place after the header.\<close>

definition ziplistIndex0 :: "bytes \<Rightarrow> bytes option option" where
  "ziplistIndex0 zl = Option.bind (adv 10 zl) at_end"

section \<open>Writing\<close>

definition zipPrevEncodeLength :: "nat \<Rightarrow> bytes" where
  "zipPrevEncodeLength l = (if l < 254 then [char_of l] else char_of (254 :: nat) # le_bytes 4 l)"

definition zipEncodeLength :: "nat \<Rightarrow> nat \<Rightarrow> bytes" where
  "zipEncodeLength enc rawlen =
     (if ZIP_IS_STR enc
      then if rawlen \<le> 0x3F then [char_of rawlen]
           else if rawlen \<le> 0x3FFF then [char_of (0x40 + rawlen div 256 mod 64), char_of (rawlen mod 256)]
           else char_of (0x80 :: nat) # rev (le_bytes 4 rawlen)
      else [char_of enc])"

definition zipTryEncoding :: "bytes \<Rightarrow> (int \<times> nat) option" where
  "zipTryEncoding entry =
     (if length entry \<ge> 32 \<or> length entry = 0 then None
      else case string2ll entry of
             None \<Rightarrow> None
           | Some v \<Rightarrow>
               Some (v, if 0 \<le> v \<and> v \<le> 12 then nat (0xF1 + v)
                        else if - 128 \<le> v \<and> v \<le> 127 then 0xFE
                        else if - 32768 \<le> v \<and> v \<le> 32767 then 0xC0
                        else if - 8388608 \<le> v \<and> v \<le> 8388607 then 0xF0
                        else if - 2147483648 \<le> v \<and> v \<le> 2147483647 then 0xD0
                        else 0xE0))"

definition zipSaveInteger :: "int \<Rightarrow> nat \<Rightarrow> bytes" where
  "zipSaveInteger v enc = le_bytes (zipIntSize enc) (twos (zipIntSize enc) v)"

text \<open>The bytes that \<open>__ziplistInsert\<close> writes for an entry whose predecessor has \<open>prevlen\<close> bytes.\<close>

definition zl_entry :: "nat \<Rightarrow> bytes \<Rightarrow> bytes" where
  "zl_entry prevlen s =
     zipPrevEncodeLength prevlen @
     (case zipTryEncoding s of
        Some (v, enc) \<Rightarrow> zipEncodeLength enc (length s) @ zipSaveInteger v enc
      | None \<Rightarrow> zipEncodeLength 0 (length s) @ s)"

definition ziplistNew :: bytes where
  "ziplistNew = le_bytes 4 11 @ le_bytes 4 10 @ le_bytes 2 0 @ [char_of (255 :: nat)]"

text \<open>
  \<open>ziplistPush\<close> at the tail, where \<open>p\<close> is the end mark: no entry moves, and the new entry becomes the
  tail. The count stays at its maximum once it has reached it.
\<close>

definition ziplistPushTail :: "bytes \<Rightarrow> bytes \<Rightarrow> bytes option" where
  "ziplistPushTail zl s = do {
     curlen \<leftarrow> map_option le_val (peeks zl 0 4);
     tail \<leftarrow> map_option le_val (peeks zl 4 4);
     count \<leftarrow> map_option le_val (peeks zl 8 2);
     ptail \<leftarrow> adv tail zl;
     b \<leftarrow> peek ptail 0;
     prevlen \<leftarrow> (if b \<noteq> 255 then zipRawEntryLength ptail else Some 0);
     let e = zl_entry prevlen s;
     body \<leftarrow> peeks zl 10 (curlen - 1 - 10);
     Some (le_bytes 4 ((curlen + length e) mod 2 ^ 32) @ le_bytes 4 (curlen - 1)
       @ le_bytes 2 (if count < 65535 then count + 1 else count) @ body @ e @ [char_of (255 :: nat)]) }"


section \<open>An entry is read back\<close>

definition zl_string :: "zl_value \<Rightarrow> string" where
  "zl_string z = (case z of ZStr s \<Rightarrow> s | ZInt v \<Rightarrow> stringfromll v)"

text \<open>What an entry of the string holds.\<close>

definition zl_value_of :: "bytes \<Rightarrow> zl_value" where
  "zl_value_of s = (case zipTryEncoding s of Some (v, _) \<Rightarrow> ZInt v | None \<Rightarrow> ZStr s)"

lemma zl_string_value [simp]: "zl_string (zl_value_of s) = s"
  by (auto simp: zl_string_def zl_value_of_def zipTryEncoding_def string2ll_exact split: option.splits if_splits)

lemma try_encoding_size:
  assumes "zipTryEncoding s = Some (v, enc)"
  shows "0xC0 \<le> enc" "enc < 255" "zipLoadInteger (zipSaveInteger v enc @ p) enc = Some v"
proof -
  have r: "- (2 ^ 63) \<le> v" "v < 2 ^ 63"
    using assms by (auto simp: zipTryEncoding_def string2ll_exact split: option.splits if_splits)
  have enc: "enc = (if 0 \<le> v \<and> v \<le> 12 then nat (0xF1 + v)
                    else if - 128 \<le> v \<and> v \<le> 127 then 0xFE
                    else if - 32768 \<le> v \<and> v \<le> 32767 then 0xC0
                    else if - 8388608 \<le> v \<and> v \<le> 8388607 then 0xF0
                    else if - 2147483648 \<le> v \<and> v \<le> 2147483647 then 0xD0
                    else 0xE0)"
    using assms by (auto simp: zipTryEncoding_def split: option.splits if_splits)
  show "0xC0 \<le> enc" "enc < 255" by (auto simp: enc)
  have l: "le_val (le_bytes k (twos k v)) = twos k v" for k by (rule le_val_le_bytes_id) (rule twos_less)
  have "0 \<le> v \<and> v \<le> 12 \<or> enc = 0xFE \<and> - 128 \<le> v \<and> v \<le> 127 \<or> enc = 0xC0 \<and> - 32768 \<le> v \<and> v \<le> 32767
      \<or> enc = 0xF0 \<and> - 8388608 \<le> v \<and> v \<le> 8388607 \<or> enc = 0xD0 \<and> - 2147483648 \<le> v \<and> v \<le> 2147483647
      \<or> enc = 0xE0"
    by (simp add: enc)
  then consider "0 \<le> v \<and> v \<le> 12" | "enc = 0xFE" "- 128 \<le> v \<and> v \<le> 127"
    | "enc = 0xC0" "- 32768 \<le> v \<and> v \<le> 32767" | "enc = 0xF0" "- 8388608 \<le> v \<and> v \<le> 8388607"
    | "enc = 0xD0" "- 2147483648 \<le> v \<and> v \<le> 2147483647" | "enc = 0xE0"
    by blast
  then show "zipLoadInteger (zipSaveInteger v enc @ p) enc = Some v"
  proof cases
    case 1
    then obtain n where n: "v = int n" "n \<le> 12" by (metis nat_0_le nat_le_iff of_nat_numeral)
    then have "enc = 241 + n" by (simp add: enc nat_add_distrib)
    moreover have "(241 + n) mod 16 = 1 + n" using n by presburger
    ultimately show ?thesis using n by (auto simp: zipLoadInteger_def)
  qed (use r in \<open>simp_all add: zipLoadInteger_def zipSaveInteger_def zipIntSize_def signed_of_twos l del: le_bytes.simps\<close>)
qed

lemma prev_length_read:
  assumes "l < 2 ^ 32"
  shows "ZIP_DECODE_PREVLENSIZE (zipPrevEncodeLength l @ q) = Some (length (zipPrevEncodeLength l))"
    "zipPrevEncodeLength l \<noteq> []" "of_char (hd (zipPrevEncodeLength l)) < (255 :: nat)"
    "length (zipPrevEncodeLength l) \<le> 5"
  using assms by (auto simp: ZIP_DECODE_PREVLENSIZE_def zipPrevEncodeLength_def)

lemma string_length_read:
  assumes "n < 2 ^ 32"
  shows "\<exists>enc. ZIP_IS_STR enc \<and> ZIP_DECODE_LENGTH (zipEncodeLength 0 n @ q) = Some (enc, length (zipEncodeLength 0 n), n)"
proof -
  have s: "ZIP_IS_STR 0" by (simp add: ZIP_IS_STR_def)
  consider "n \<le> 0x3F" | "0x3F < n" "n \<le> 0x3FFF" | "0x3FFF < n" by linarith
  then show ?thesis
  proof cases
    case 1
    then have "n div 64 = 0" "n mod 64 = n" by simp_all
    then show ?thesis using 1 s by (intro exI [of _ 0]) (simp add: ZIP_DECODE_LENGTH_def zipEncodeLength_def)
  next
    case 2
    define a where "a = n div 256"
    have a: "a < 64" "a mod 64 = a" "n = a * 256 + n mod 256" using 2 by (simp_all add: a_def)
    then have "(64 + a) div 64 = 1" "(64 + a) mod 64 = a" by simp_all
    then show ?thesis using 2 a s
      by (intro exI [of _ 64]) (simp add: ZIP_DECODE_LENGTH_def zipEncodeLength_def ZIP_IS_STR_def a_def [symmetric])
  next
    case 3
    have p: "peeks (char_of (128 :: nat) # rev (le_bytes 4 n) @ q) 1 4 = Some (rev (le_bytes 4 n))"
      by (simp only: One_nat_def peeks_Cons) (rule peeks_append, simp)
    then show ?thesis using 3 assms s
      by (intro exI [of _ 128]) (simp add: ZIP_DECODE_LENGTH_def zipEncodeLength_def ZIP_IS_STR_def)
  qed
qed

text \<open>The length field and the payload of an entry.\<close>

definition zl_tail :: "bytes \<Rightarrow> bytes" where
  "zl_tail s = (case zipTryEncoding s of
     Some (v, enc) \<Rightarrow> zipEncodeLength enc (length s) @ zipSaveInteger v enc
   | None \<Rightarrow> zipEncodeLength 0 (length s) @ s)"

lemma tail_read:
  assumes "length s < 2 ^ 31"
  shows "\<exists>enc ls l. ZIP_DECODE_LENGTH (zl_tail s @ q) = Some (enc, ls, l) \<and> length (zl_tail s) = ls + l
     \<and> length (zl_tail s) \<le> length s + 9
     \<and> (if ZIP_IS_STR enc then drop ls (zl_tail s) = s \<and> zl_value_of s = ZStr s
        else \<exists>v. zl_value_of s = ZInt v \<and> zipLoadInteger (drop ls (zl_tail s @ q)) enc = Some v)"
proof (cases "zipTryEncoding s")
  case None
  then show ?thesis
    using string_length_read [of "length s" "s @ q"] assms
    by (auto simp: zl_tail_def zl_value_of_def zipEncodeLength_def)
next
  case (Some ve)
  obtain v enc where ve: "ve = (v, enc)" by (cases ve)
  note t = try_encoding_size [OF Some [unfolded ve]]
  have d: "enc div 64 = 3" "\<not> ZIP_IS_STR enc" using t(1,2) by (simp_all add: ZIP_IS_STR_def)
  have l: "zl_tail s = char_of enc # zipSaveInteger v enc"
    using Some d by (simp add: ve zl_tail_def zipEncodeLength_def)
  show ?thesis
    by (rule exI [of _ enc], rule exI [of _ 1], rule exI [of _ "zipIntSize enc"])
      (use Some d t l in \<open>simp add: ve ZIP_DECODE_LENGTH_def zl_value_of_def zipSaveInteger_def zipIntSize_def\<close>)
qed

lemma entry_read:
  assumes "prev < 2 ^ 32" "length s < 2 ^ 31"
  shows "zipRawEntryLength (zl_entry prev s @ q) = Some (length (zl_entry prev s))"
    "ziplistGet (zl_entry prev s @ q) = Some (Some (zl_value_of s))"
    "peek (zl_entry prev s @ q) 0 \<noteq> Some 255" "peek (zl_entry prev s @ q) 0 \<noteq> None"
proof -
  let ?h = "zipPrevEncodeLength prev"
  have e: "zl_entry prev s = ?h @ zl_tail s" by (simp add: zl_entry_def zl_tail_def split: option.split)
  obtain enc ls l where t: "ZIP_DECODE_LENGTH (zl_tail s @ q) = Some (enc, ls, l)" "length (zl_tail s) = ls + l"
      "length (zl_tail s) \<le> length s + 9" "if ZIP_IS_STR enc then drop ls (zl_tail s) = s \<and> zl_value_of s = ZStr s
        else \<exists>v. zl_value_of s = ZInt v \<and> zipLoadInteger (drop ls (zl_tail s @ q)) enc = Some v"
    using tail_read [OF assms(2)] by blast
  note h = prev_length_read [OF assms(1)]
  have p: "peek (?h @ r) 0 = Some (of_char (hd ?h))" for r using h(2) by (simp add: peek_ne)
  show "zipRawEntryLength (zl_entry prev s @ q) = Some (length (zl_entry prev s))"
    using h(1,4) t(1,2,3) assms(2) by (simp add: e zipRawEntryLength_def)
  show "peek (zl_entry prev s @ q) 0 \<noteq> Some 255" "peek (zl_entry prev s @ q) 0 \<noteq> None"
    using p h(3) by (simp_all add: e)
  have "\<exists>pr. zipEntry (?h @ zl_tail s @ q) = Some \<lparr>prevrawlensize = length ?h, prevrawlen = pr,
      lensize = ls, len = l, headersize = length ?h + ls, encoding = enc\<rparr>"
    using h(1) t(1) p assms(1) by (auto simp: zipEntry_def zipPrevEncodeLength_def peeks_append split: if_splits)
  moreover have "peeks (?h @ zl_tail s @ q) (length ?h + ls) l = Some (drop ls (zl_tail s))"
    using t(2) by (simp add: peeks_def)
  moreover have "adv (length ?h + ls) (?h @ zl_tail s @ q) = Some (drop ls (zl_tail s @ q))"
    using t(2) by (simp add: adv_def)
  ultimately show "ziplistGet (zl_entry prev s @ q) = Some (Some (zl_value_of s))"
    using t(4) h(3) p by (auto simp: e ziplistGet_def split: if_splits)
qed

section \<open>A list that was built by appending\<close>

fun zl_image :: "nat \<Rightarrow> bytes list \<Rightarrow> bytes" where
  "zl_image prev [] = []"
| "zl_image prev (s # ss) = zl_entry prev s @ zl_image (length (zl_entry prev s)) ss"

fun last_len :: "nat \<Rightarrow> bytes list \<Rightarrow> nat" where
  "last_len prev [] = prev"
| "last_len prev (s # ss) = last_len (length (zl_entry prev s)) ss"

abbreviation zl_end :: char where "zl_end \<equiv> CHR 0xFF"

lemma zl_image_snoc: "zl_image prev (ss @ [s]) = zl_image prev ss @ zl_entry (last_len prev ss) s"
  by (induction ss arbitrary: prev) simp_all

lemma last_len_snoc: "last_len prev (ss @ [s]) = length (zl_entry (last_len prev ss) s)"
  by (induction ss arbitrary: prev) simp_all

lemma zl_entry_length: "length (zl_entry prev s) \<le> length s + 14"
proof -
  have p: "length (zipPrevEncodeLength prev) \<le> 5" by (simp add: zipPrevEncodeLength_def)
  show ?thesis
  proof (cases "zipTryEncoding s")
    case None
    have "length (zipEncodeLength 0 (length s)) \<le> 5" by (simp add: zipEncodeLength_def)
    then show ?thesis using None p by (simp add: zl_entry_def)
  next
    case (Some ve)
    obtain v enc where ve: "ve = (v, enc)" by (cases ve)
    have "\<not> ZIP_IS_STR enc" using try_encoding_size(1) [of s v enc] Some ve by (auto simp: ZIP_IS_STR_def)
    moreover have "length (zipSaveInteger v enc) \<le> 8" by (simp add: zipSaveInteger_def zipIntSize_def)
    ultimately show ?thesis using Some p by (simp add: ve zl_entry_def zipEncodeLength_def)
  qed
qed

definition zl_room :: "bytes list \<Rightarrow> nat" where
  "zl_room ss = sum_list (map (\<lambda>s. length s + 14) ss) + 11"

lemma zl_room_simps [simp]: "zl_room (s # ss) = length s + 14 + zl_room ss"
  "zl_room (ss @ [s]) = zl_room ss + length s + 14"
  by (simp_all add: zl_room_def)

lemma zl_image_length: "length (zl_image prev ss) + 11 \<le> zl_room ss"
proof (induction ss arbitrary: prev)
  case (Cons s ss)
  show ?case using Cons [of "length (zl_entry prev s)"] zl_entry_length [of prev s] by simp
qed (simp add: zl_room_def)

lemma last_len_less: "zl_room ss < 2 ^ 32 \<Longrightarrow> last_len 0 ss < 2 ^ 32"
  using zl_entry_length [of "last_len 0 (butlast ss)" "last ss"]
  by (cases ss rule: rev_cases) (simp_all add: last_len_snoc)

lemma image_first:
  assumes "ss \<noteq> []" "prev < 2 ^ 32" "\<forall>s \<in> set ss. length s < 2 ^ 31"
  shows "at_end (zl_image prev ss @ q) = Some (Some (zl_image prev ss @ q))"
  using assms entry_read(3,4) [of prev "hd ss" "zl_image (length (zl_entry prev (hd ss))) (tl ss) @ q"]
  by (cases ss) (auto simp: at_end_def)

lemma image_next:
  assumes "prev < 2 ^ 32" "\<forall>t \<in> set (s # ss). length t < 2 ^ 31"
  shows "ziplistNext (zl_image prev (s # ss) @ zl_end # q)
      = Some (if ss = [] then None else Some (zl_image (length (zl_entry prev s)) ss @ zl_end # q))"
    "ziplistGet (zl_image prev (s # ss) @ zl_end # q) = Some (Some (zl_value_of s))"
proof -
  let ?r = "zl_image (length (zl_entry prev s)) ss @ zl_end # q"
  have s: "length s < 2 ^ 31" and l: "length (zl_entry prev s) < 2 ^ 32"
    using assms(2) zl_entry_length [of prev s] by auto
  note e = entry_read [OF assms(1) s, of ?r]
  have "at_end ?r = Some (if ss = [] then None else Some ?r)"
    using image_first [of ss "length (zl_entry prev s)" "zl_end # q"] l assms(2)
    by (auto simp: at_end_def)
  then show "ziplistNext (zl_image prev (s # ss) @ zl_end # q)
      = Some (if ss = [] then None else Some ?r)"
    using e by (auto simp: ziplistNext_def)
  show "ziplistGet (zl_image prev (s # ss) @ zl_end # q) = Some (Some (zl_value_of s))"
    using e(2) by simp
qed

definition zl_built :: "bytes list \<Rightarrow> bytes \<Rightarrow> bool" where
  "zl_built ss zl \<longleftrightarrow>
     (\<exists>c. zl = le_bytes 4 (length zl) @ le_bytes 4 (10 + length (zl_image 0 (butlast ss))) @ le_bytes 2 c
          @ zl_image 0 ss @ [zl_end])"

lemma char_of_end [simp]: "char_of (255 :: nat) = zl_end"
  by (simp add: char_of_def bit_0 bit_Suc)

lemma ziplistNew_built: "zl_built [] ziplistNew"
  unfolding zl_built_def by (rule exI [of _ 0]) (simp add: ziplistNew_def)

lemma header_read:
  assumes "zl = le_bytes 4 a @ le_bytes 4 b @ le_bytes 2 c @ d" "a < 2 ^ 32" "b < 2 ^ 32"
  shows "map_option le_val (peeks zl 0 4) = Some a" "map_option le_val (peeks zl 4 4) = Some b"
    "peeks zl 8 2 = Some (le_bytes 2 c)" "adv (10 + n) zl = adv n d" "peeks zl 10 n = peeks d 0 n"
  using assms by (simp_all add: peeks_def adv_def)

lemma ziplistPushTail_built:
  assumes "zl_built ss zl" "zl_room (ss @ [s]) < 2 ^ 32" "\<forall>t \<in> set ss. length t < 2 ^ 31"
  shows "\<exists>zl'. ziplistPushTail zl s = Some zl' \<and> zl_built (ss @ [s]) zl'"
proof -
  obtain c where z: "zl = le_bytes 4 (length zl) @ le_bytes 4 (10 + length (zl_image 0 (butlast ss))) @ le_bytes 2 c
          @ zl_image 0 ss @ [zl_end]" using assms(1) by (auto simp: zl_built_def)
  have len: "length zl = 11 + length (zl_image 0 ss)" by (subst z) simp
  have small: "length zl < 2 ^ 32" "zl_room ss < 2 ^ 32"
    using zl_image_length [of 0 ss] assms(2) by (simp_all add: len)
  have but: "length (zl_image 0 (butlast ss)) \<le> length (zl_image 0 ss)"
    by (cases ss rule: rev_cases) (simp_all add: zl_image_snoc)
  note h = header_read [OF z small(1)]
  let ?e = "zl_entry (last_len 0 ss) s"
  obtain p where p: "adv (10 + length (zl_image 0 (butlast ss))) zl = Some p"
      "\<exists>b. peek p 0 = Some b \<and> (if b \<noteq> 255 then zipRawEntryLength p = Some (last_len 0 ss) else last_len 0 ss = 0)"
  proof (cases ss rule: rev_cases)
    case Nil
    then show ?thesis using that [of "[zl_end]"] h(4) [of 0] but small len by simp
  next
    case (snoc us u)
    then show ?thesis
      using that [of "zl_entry (last_len 0 us) u @ [zl_end]"] h(4) but small len
        entry_read(1,3,4) [of "last_len 0 us" u "[zl_end]"] last_len_less [of us] assms(3)
      by (auto simp: zl_image_snoc last_len_snoc)
  qed
  have "ziplistPushTail zl s = Some (le_bytes 4 ((length zl + length ?e) mod 2 ^ 32) @ le_bytes 4 (length zl - 1)
       @ le_bytes 2 (if le_val (le_bytes 2 c) < 65535 then le_val (le_bytes 2 c) + 1 else le_val (le_bytes 2 c))
       @ zl_image 0 ss @ ?e @ [zl_end])"
    using p h small but len by (auto simp: ziplistPushTail_def peeks_def Let_def)
  moreover have "(length zl + length ?e) mod 2 ^ 32 = length zl + length ?e"
    using zl_image_length [of 0 ss] zl_entry_length [of "last_len 0 ss" s] assms(2) len by simp
  ultimately show ?thesis
    by (auto simp: zl_built_def zl_image_snoc len add.assoc)
qed

lemma ziplist_pushes:
  "zl_room ss < 2 ^ 32 \<Longrightarrow> \<forall>t \<in> set ss. length t < 2 ^ 31
   \<Longrightarrow> \<exists>zl. foldl (\<lambda>z s. Option.bind z (\<lambda>zl. ziplistPushTail zl s)) (Some ziplistNew) ss = Some zl \<and> zl_built ss zl"
proof (induction ss rule: rev_induct)
  case Nil
  then show ?case using ziplistNew_built by simp
next
  case (snoc s ss)
  then show ?case using ziplistPushTail_built [of ss _ s] by fastforce
qed

end
