(* ===== verification/Zipmap_Intset.thy ===== *)
theory Zipmap_Intset
  imports Byte_Codec
begin

text \<open>
  What the snapshot loader reads of two packed formats: the walk through a string map
  (\<open>common/redis/zipmap.c\<close>) and the access by position to a set of integers (\<open>common/redis/intset.c\<close>).
\<close>

section \<open>String maps\<close>

definition zipmapDecodeLength :: "bytes \<Rightarrow> nat option" where
  "zipmapDecodeLength p = do {
     l \<leftarrow> peek p 0;
     if l < 254 then Some l else map_option le_val (peeks p 1 4) }"

definition ZIPMAP_LEN_BYTES :: "nat \<Rightarrow> nat" where
  "ZIPMAP_LEN_BYTES l = (if l < 254 then 1 else 5)"

definition zipmapEncodeLength :: "nat \<Rightarrow> bytes" where
  "zipmapEncodeLength l = (if l < 254 then [char_of l] else char_of (254 :: nat) # le_bytes 4 l)"

text \<open>The sums are of type \<open>unsigned int\<close>.\<close>

definition zipmapRawKeyLength :: "bytes \<Rightarrow> nat option" where
  "zipmapRawKeyLength p = map_option (\<lambda>l. (ZIPMAP_LEN_BYTES l + l) mod 2 ^ 32) (zipmapDecodeLength p)"

definition zipmapRawValueLength :: "bytes \<Rightarrow> nat option" where
  "zipmapRawValueLength p = do {
     l \<leftarrow> zipmapDecodeLength p;
     free \<leftarrow> peek p (ZIPMAP_LEN_BYTES l);
     Some ((ZIPMAP_LEN_BYTES l + free + 1 + l) mod 2 ^ 32) }"

definition zipmapRewind :: "bytes \<Rightarrow> bytes option" where
  "zipmapRewind zm = adv 1 zm"

text \<open>
  The next pair and the pointer behind it, \<open>Some None\<close> at the end mark. The loader reads the bytes of
  both strings at once.
\<close>

definition zipmapNext :: "bytes \<Rightarrow> (bytes \<times> bytes \<times> bytes) option option" where
  "zipmapNext zm = do {
     b \<leftarrow> peek zm 0;
     if b = 255 then Some None
     else do {
       klen \<leftarrow> zipmapDecodeLength zm;
       key \<leftarrow> peeks zm (ZIPMAP_LEN_BYTES klen) klen;
       n \<leftarrow> zipmapRawKeyLength zm;
       vp \<leftarrow> adv n zm;
       vlen \<leftarrow> zipmapDecodeLength vp;
       value \<leftarrow> peeks vp (1 + ZIPMAP_LEN_BYTES vlen) vlen;
       m \<leftarrow> zipmapRawValueLength vp;
       next \<leftarrow> adv m vp;
       Some (Some (key, value, next)) } }"

text \<open>An entry with \<open>length free\<close> unused bytes behind its value.\<close>

definition zm_entry :: "bytes \<Rightarrow> bytes \<Rightarrow> bytes \<Rightarrow> bytes" where
  "zm_entry key value free =
     zipmapEncodeLength (length key) @ key @ zipmapEncodeLength (length value) @ [char_of (length free)] @ value @ free"

lemma zipmap_length_read:
  "l < 2 ^ 32 \<Longrightarrow> zipmapDecodeLength (zipmapEncodeLength l @ q) = Some l"
  "length (zipmapEncodeLength l) = ZIPMAP_LEN_BYTES l"
  by (simp_all add: zipmapDecodeLength_def zipmapEncodeLength_def ZIPMAP_LEN_BYTES_def)

lemma peeks_at: "i = length p \<Longrightarrow> peeks (p @ q) i n = peeks q 0 n"
  by (simp add: peeks_def)

lemma zipmapNext_entry:
  assumes "length key < 2 ^ 31" "length value < 2 ^ 31" "length free < 256"
  shows "zipmapNext (zm_entry key value free @ q) = Some (Some (key, value, q))"
proof -
  let ?v = "zipmapEncodeLength (length value) @ char_of (length free) # value @ free @ q"
  have e: "zm_entry key value free @ q = zipmapEncodeLength (length key) @ key @ ?v" by (simp add: zm_entry_def)
  have s: "ZIPMAP_LEN_BYTES l \<le> 5" for l by (simp add: ZIPMAP_LEN_BYTES_def)
  define b where "b = (if length key < 254 then length key else 254)"
  have f: "peek (zipmapEncodeLength (length key) @ r) 0 = Some b" "b \<noteq> 255" for r
    by (auto simp: zipmapEncodeLength_def b_def)
  have k: "zipmapDecodeLength (zipmapEncodeLength (length key) @ r) = Some (length key)"
    "zipmapDecodeLength ?v = Some (length value)" for r
    using zipmap_length_read(1) assms by auto
  have n: "zipmapRawKeyLength (zipmapEncodeLength (length key) @ r) = Some (ZIPMAP_LEN_BYTES (length key) + length key)" for r
    using k s [of "length key"] assms(1) by (simp add: zipmapRawKeyLength_def)
  have "peek ?v (ZIPMAP_LEN_BYTES (length value)) = Some (length free)"
    using assms(3) by (simp add: peek_def nth_append zipmap_length_read(2))
  then have m: "zipmapRawValueLength ?v
      = Some (ZIPMAP_LEN_BYTES (length value) + length free + 1 + length value)"
    using k(2) s [of "length value"] assms(2,3) by (simp add: zipmapRawValueLength_def)
  have "adv (ZIPMAP_LEN_BYTES (length key) + length key) (zipmapEncodeLength (length key) @ key @ ?v) = Some ?v"
    "adv (ZIPMAP_LEN_BYTES (length value) + length free + 1 + length value) ?v = Some q"
    "peeks (zipmapEncodeLength (length key) @ key @ ?v) (ZIPMAP_LEN_BYTES (length key)) (length key) = Some key"
    "peeks ?v (1 + ZIPMAP_LEN_BYTES (length value)) (length value) = Some value"
    by (simp_all add: adv_def peeks_def zipmap_length_read(2))
  then show ?thesis
    unfolding e zipmapNext_def by (simp only: f k n m bind.bind_lunit prod.case if_False option.map)
qed

section \<open>Sets of integers\<close>

text \<open>\<open>enc\<close> is the encoding converted to eight bits; any other than four and eight reads two bytes.\<close>

definition intsetGetEncoded :: "bytes \<Rightarrow> nat \<Rightarrow> nat \<Rightarrow> int option" where
  "intsetGetEncoded contents pos enc =
     (let k = (if enc = 8 then 8 else if enc = 4 then 4 else 2)
      in map_option (\<lambda>b. signed_of k (le_val b)) (peeks contents (k * pos) k))"

text \<open>\<open>Some None\<close> is the result zero, with \<open>value\<close> as it was.\<close>

definition intsetGet :: "bytes \<Rightarrow> nat \<Rightarrow> int option option" where
  "intsetGet is pos = do {
     enc \<leftarrow> map_option le_val (peeks is 0 4);
     n \<leftarrow> map_option le_val (peeks is 4 4);
     contents \<leftarrow> adv 8 is;
     if pos < n then map_option Some (intsetGetEncoded contents pos (enc mod 256)) else Some None }"

definition intset_image :: "nat \<Rightarrow> int list \<Rightarrow> bytes" where
  "intset_image k vs = le_bytes 4 k @ le_bytes 4 (length vs) @ concat (map (\<lambda>v. le_bytes k (twos k v)) vs)"

lemma contents_at:
  "i < length vs \<Longrightarrow> peeks (concat (map (\<lambda>v. le_bytes k (twos k v)) vs) @ q) (k * i) k = Some (le_bytes k (twos k (vs ! i)))"
proof (induction vs arbitrary: i)
  case (Cons v vs)
  show ?case
  proof (cases i)
    case 0
    then show ?thesis by simp
  next
    case (Suc j)
    then have "peeks (le_bytes k (twos k v) @ r) (k * i) k = peeks r (k * j) k" for r
      by (simp add: peeks_def)
    then show ?thesis using Cons Suc by simp
  qed
qed simp

lemma intsetGet_image:
  assumes "k \<in> {2, 4, 8}" "length vs < 2 ^ 32" "\<forall>v \<in> set vs. - (256 ^ k) \<le> 2 * v \<and> 2 * v < 256 ^ k"
  shows "intsetGet (intset_image k vs @ q) i = Some (if i < length vs then Some (vs ! i) else None)"
proof -
  have k: "k < 256" "(if k = 8 then 8 else if k = 4 then 4 else 2) = k" using assms(1) by auto
  have "twos k (vs ! i) < 256 ^ k" "signed_of k (twos k (vs ! i)) = vs ! i" if "i < length vs"
    using that assms(3) by (auto intro!: signed_of_twos)
  then show ?thesis
    using k contents_at [of i vs k q] assms(2)
    by (auto simp: intsetGet_def intset_image_def intsetGetEncoded_def peeks_at adv_def Let_def)
qed

end
