(* ===== verification/Snapshot_Load.thy ===== *)
theory Snapshot_Load
  imports Rdb Ziplist Zipmap_Intset
begin

text \<open>
  Loading a redis snapshot (\<open>Snapshot::RedisLoad\<close> of \<open>replication/snapshot.cpp\<close>): the objects of the
  file become calls of the storage engine, whose results the loader ignores, so the model collects
  the calls in their order. \<open>None\<close> is a load that does not return: the process aborts, exits, reads
  outside of a block, or loops for ever.
\<close>

section \<open>Calls of the storage engine\<close>

datatype 'd kv_call =
    KvDel DBID string
  | KvSet DBID string string
  | KvRPush DBID string string
  | KvSAdd DBID string string
  | KvZAdd DBID string 'd string
  | KvHSet DBID string string string
  | KvPExpire DBID string int

section \<open>Packed objects\<close>

text \<open>\<open>ziplistGet\<close> fails at the end mark only, where \<open>iter\<close> never is.\<close>

partial_function (option) load_ziplist :: "bytes \<Rightarrow> string list \<Rightarrow> string list option" where
  "load_ziplist iter acc = do {
     z \<leftarrow> ziplistGet iter;
     let acc = (case z of Some z \<Rightarrow> acc @ [zl_string z] | None \<Rightarrow> acc);
     next \<leftarrow> ziplistNext iter;
     case next of None \<Rightarrow> Some acc | Some iter \<Rightarrow> load_ziplist iter acc }"

definition RedisLoadListZipList :: "DBID \<Rightarrow> string \<Rightarrow> bytes \<Rightarrow> 'd kv_call list option" where
  "RedisLoadListZipList db key data = do {
     iter \<leftarrow> ziplistIndex0 data;
     vs \<leftarrow> (case iter of None \<Rightarrow> Some [] | Some iter \<Rightarrow> load_ziplist iter []);
     Some (map (KvRPush db key) vs) }"

text \<open>A string score is copied into a buffer of 128 bytes with its terminator.\<close>

definition zzlGetScore :: "'d dbl \<Rightarrow> bytes \<Rightarrow> 'd option" where
  "zzlGetScore D sptr = do {
     z \<leftarrow> ziplistGet sptr;
     case z of
       None \<Rightarrow> None
     | Some (ZStr v) \<Rightarrow> if length v < 128 then Some (c_strtod D (c_str v)) else None
     | Some (ZInt n) \<Rightarrow> Some (of_llong D n) }"

partial_function (option) load_zset_ziplist ::
    "'d dbl \<Rightarrow> bytes \<Rightarrow> ('d \<times> string) list \<Rightarrow> ('d \<times> string) list option" where
  "load_zset_ziplist D iter acc = do {
     z \<leftarrow> ziplistGet iter;
     let value = (case z of Some z \<Rightarrow> zl_string z | None \<Rightarrow> []);
     next \<leftarrow> ziplistNext iter;
     case next of
       None \<Rightarrow> Some acc
     | Some iter \<Rightarrow> do {
         score \<leftarrow> zzlGetScore D iter;
         let acc = acc @ [(score, value)];
         next \<leftarrow> ziplistNext iter;
         case next of None \<Rightarrow> Some acc | Some iter \<Rightarrow> load_zset_ziplist D iter acc } }"

definition RedisLoadZSetZipList :: "'d dbl \<Rightarrow> DBID \<Rightarrow> string \<Rightarrow> bytes \<Rightarrow> 'd kv_call list option" where
  "RedisLoadZSetZipList D db key data = do {
     iter \<leftarrow> ziplistIndex0 data;
     vs \<leftarrow> (case iter of None \<Rightarrow> Some [] | Some iter \<Rightarrow> load_zset_ziplist D iter []);
     Some (map (\<lambda>(d, v). KvZAdd db key d v) vs) }"

partial_function (option) load_hash_ziplist ::
    "bytes \<Rightarrow> (string \<times> string) list \<Rightarrow> (string \<times> string) list option" where
  "load_hash_ziplist iter acc = do {
     f \<leftarrow> ziplistGet iter;
     case f of
       None \<Rightarrow> Some acc
     | Some f \<Rightarrow> do {
         next \<leftarrow> ziplistNext iter;
         case next of
           None \<Rightarrow> Some acc
         | Some iter \<Rightarrow> do {
             v \<leftarrow> ziplistGet iter;
             let acc = (case v of Some v \<Rightarrow> acc @ [(zl_string f, zl_string v)] | None \<Rightarrow> acc);
             next \<leftarrow> ziplistNext iter;
             case next of None \<Rightarrow> Some acc | Some iter \<Rightarrow> load_hash_ziplist iter acc } } }"

definition RedisLoadHashZipList :: "DBID \<Rightarrow> string \<Rightarrow> bytes \<Rightarrow> 'd kv_call list option" where
  "RedisLoadHashZipList db key data = do {
     iter \<leftarrow> ziplistIndex0 data;
     vs \<leftarrow> (case iter of None \<Rightarrow> Some [] | Some iter \<Rightarrow> load_hash_ziplist iter []);
     Some (map (\<lambda>(f, v). KvHSet db key f v) vs) }"

text \<open>
  The loop goes on while \<open>intsetGet\<close> returns zero, that is while there is no element at the position;
  the position is converted to 32 bits.
\<close>

partial_function (option) load_intset :: "bytes \<Rightarrow> nat \<Rightarrow> int list \<Rightarrow> int list option" where
  "load_intset data ii acc = do {
     r \<leftarrow> intsetGet data (ii mod 2 ^ 32);
     case r of Some _ \<Rightarrow> Some acc | None \<Rightarrow> load_intset data (ii + 1) (acc @ [0]) }"

definition RedisLoadSetIntSet :: "DBID \<Rightarrow> string \<Rightarrow> bytes \<Rightarrow> 'd kv_call list option" where
  "RedisLoadSetIntSet db key data =
     map_option (map (\<lambda>v. KvSAdd db key (stringfromll v))) (load_intset data 0 [])"

partial_function (option) load_zipmap :: "bytes \<Rightarrow> (string \<times> string) list \<Rightarrow> (string \<times> string) list option" where
  "load_zipmap zi acc = do {
     r \<leftarrow> zipmapNext zi;
     case r of None \<Rightarrow> Some acc | Some (f, v, zi) \<Rightarrow> load_zipmap zi (acc @ [(f, v)]) }"

definition RedisLoadHashZipMap :: "DBID \<Rightarrow> string \<Rightarrow> bytes \<Rightarrow> 'd kv_call list option" where
  "RedisLoadHashZipMap db key data = do {
     zi \<leftarrow> zipmapRewind data;
     vs \<leftarrow> load_zipmap zi [];
     Some (map (\<lambda>(f, v). KvHSet db key f v) vs) }"

section \<open>Objects\<close>

text \<open>
  The elements of an aggregate: \<open>elem\<close> reads one and gives its call, or \<open>None\<close> if a part of it cannot be
  read. The result says whether all were read, and holds the calls made.
\<close>

primrec load_elems ::
    "(snap \<Rightarrow> ('d kv_call option \<times> snap) option) \<Rightarrow> nat \<Rightarrow> snap \<Rightarrow> (bool \<times> 'd kv_call list \<times> snap) option" where
  "load_elems elem 0 s = Some (True, [], s)"
| "load_elems elem (Suc n) s = do {
     (c, s) \<leftarrow> elem s;
     case c of
       None \<Rightarrow> Some (False, [], s)
     | Some c \<Rightarrow> do { (ok, cs, s) \<leftarrow> load_elems elem n s; Some (ok, c # cs, s) } }"

definition read_member :: "snap_io \<Rightarrow> (string \<Rightarrow> 'd kv_call) \<Rightarrow> snap \<Rightarrow> ('d kv_call option \<times> snap) option" where
  "read_member E mk s = do { (v, s) \<leftarrow> RedisReadString E s; Some (map_option mk v, s) }"

definition read_scored ::
    "'d dbl \<Rightarrow> snap_io \<Rightarrow> DBID \<Rightarrow> string \<Rightarrow> snap \<Rightarrow> ('d kv_call option \<times> snap) option" where
  "read_scored D E db key s = do {
     (v, s) \<leftarrow> RedisReadString E s;
     case v of
       None \<Rightarrow> Some (None, s)
     | Some v \<Rightarrow> do {
         (d, s) \<leftarrow> RedisReadDoubleValue D E s;
         Some (map_option (\<lambda>d. KvZAdd db key d v) d, s) } }"

definition read_field :: "snap_io \<Rightarrow> DBID \<Rightarrow> string \<Rightarrow> snap \<Rightarrow> ('d kv_call option \<times> snap) option" where
  "read_field E db key s = do {
     (f, s) \<leftarrow> RedisReadString E s;
     case f of
       None \<Rightarrow> Some (None, s)
     | Some f \<Rightarrow> do { (v, s) \<leftarrow> RedisReadString E s; Some (map_option (KvHSet db key f) v, s) } }"

definition load_aggregate ::
    "snap_io \<Rightarrow> (snap \<Rightarrow> ('d kv_call option \<times> snap) option) \<Rightarrow> snap \<Rightarrow> (bool \<times> 'd kv_call list \<times> snap) option" where
  "load_aggregate E elem s =
     (let ((_, n), s) = RedisReadLen E s
      in if n = RDB_LENERR then Some (False, [], s) else load_elems elem n s)"

definition load_packed ::
    "snap_io \<Rightarrow> (bytes \<Rightarrow> 'd kv_call list option) \<Rightarrow> snap \<Rightarrow> (bool \<times> 'd kv_call list \<times> snap) option" where
  "load_packed E f s = do {
     (aux, s) \<leftarrow> RedisReadString E s;
     case aux of
       None \<Rightarrow> Some (False, [], s)
     | Some aux \<Rightarrow> do { cs \<leftarrow> f (aux @ [NUL]); Some (True, cs, s) } }"

text \<open>A type that is not known aborts the process.\<close>

definition RedisLoadObject ::
    "'d dbl \<Rightarrow> snap_io \<Rightarrow> int \<Rightarrow> string \<Rightarrow> snap \<Rightarrow> (bool \<times> 'd kv_call list \<times> snap) option" where
  "RedisLoadObject D E rdbtype key s =
     (let db = current_db s
      in if rdbtype = 0
         then do {
           (v, s) \<leftarrow> RedisReadString E s;
           Some (case v of Some v \<Rightarrow> (True, [KvSet db key v], s) | None \<Rightarrow> (False, [], s)) }
         else if rdbtype = 1 then load_aggregate E (read_member E (KvRPush db key)) s
         else if rdbtype = 2 then load_aggregate E (read_member E (KvSAdd db key)) s
         else if rdbtype = 3 then load_aggregate E (read_scored D E db key) s
         else if rdbtype = 4 then load_aggregate E (read_field E db key) s
         else if rdbtype = 9 then load_packed E (RedisLoadHashZipMap db key) s
         else if rdbtype = 10 then load_packed E (RedisLoadListZipList db key) s
         else if rdbtype = 11 then load_packed E (RedisLoadSetIntSet db key) s
         else if rdbtype = 12 then load_packed E (RedisLoadZSetZipList D db key) s
         else if rdbtype = 13 then load_packed E (RedisLoadHashZipList db key) s
         else None)"

section \<open>The file\<close>

definition snap_close :: "snap \<Rightarrow> snap" where
  "snap_close s = s\<lparr>sn_fp := False\<rparr>"

text \<open>One round of the loop: \<open>eoferr\<close>, the end of the file, or the next round with the calls made.\<close>

datatype 'd round_result = EofErr "'d kv_call list" snap | FileEnd snap | Again "'d kv_call list" snap

text \<open>The expire time, in milliseconds, and the type that follows it; \<open>None\<close> is \<open>eoferr\<close>.\<close>

definition read_expire :: "snap_io \<Rightarrow> snap \<Rightarrow> (int \<times> int) option \<times> snap" where
  "read_expire E s =
     (let (type, s) = RedisReadType E s
      in if type = - 1 then (None, s)
         else if type = 253
         then let (t, s) = RedisReadTime E s
              in if t = - 1 then (None, s)
                 else let (type, s) = RedisReadType E s
                      in (if type = - 1 then None else Some (c_int64 (t * 1000), type), s)
         else if type = 252
         then let (t, s) = RedisReadMillisecondTime E s
              in if t = - 1 then (None, s)
                 else let (type, s) = RedisReadType E s
                      in (if type = - 1 then None else Some (t, type), s)
         else (Some (- 1, type), s))"

definition load_round :: "'d dbl \<Rightarrow> snap_io \<Rightarrow> snap \<Rightarrow> 'd round_result option" where
  "load_round D E s =
     (case read_expire E s of
        (None, s) \<Rightarrow> Some (EofErr [] s)
      | (Some (expiretime, type), s) \<Rightarrow>
          if type = 255 then Some (FileEnd s)
          else if type = 254
          then let ((_, db), s) = RedisReadLen E s; s = s\<lparr>current_db := db\<rparr>
               in Some (if db = RDB_LENERR then EofErr [] s else Again [] s)
          else do {
            (key, s) \<leftarrow> RedisReadString E s;
            case key of
              None \<Rightarrow> Some (EofErr [] s)
            | Some key \<Rightarrow> do {
                let del = KvDel (current_db s) key;
                (ok, cs, s) \<leftarrow> RedisLoadObject D E type key s;
                Some (if \<not> ok then EofErr (del # cs) s
                      else Again (del # cs @ (if expiretime = - 1 then []
                             else [KvPExpire (current_db s) key expiretime])) s) } })"

partial_function (option) load_rounds ::
    "'d dbl \<Rightarrow> snap_io \<Rightarrow> 'd kv_call list \<Rightarrow> snap \<Rightarrow> (bool \<times> 'd kv_call list \<times> snap) option" where
  "load_rounds D E acc s = do {
     r \<leftarrow> load_round D E s;
     case r of
       EofErr cs s \<Rightarrow> Some (False, acc @ cs, s)
     | FileEnd s \<Rightarrow> Some (True, acc, s)
     | Again cs s \<Rightarrow> load_rounds D E (acc @ cs) s }"

text \<open>
  The result of \<open>RedisLoad\<close>, the calls made, and the status. A version that cannot be handled leaves
  the file open; a checksum that differs ends the process.
\<close>

definition RedisLoad :: "'d dbl \<Rightarrow> snap_io \<Rightarrow> snap \<Rightarrow> (int \<times> 'd kv_call list \<times> snap) option" where
  "RedisLoad D E s =
     (case Read E 9 (s\<lparr>current_db := 0\<rparr>) of
        (None, s) \<Rightarrow> Some (- 1, [], snap_close s)
      | (Some buf, s) \<Rightarrow>
          if take 5 buf \<noteq> ''REDIS'' then Some (- 1, [], snap_close s)
          else
            let rdbver = c_int (fst (strtoll (c_str (drop 5 buf))))
            in if rdbver < 1 \<or> rdbver > 6 then Some (- 1, [], s)
               else do {
                 (ok, cs, s) \<leftarrow> load_rounds D E [] s;
                 if \<not> ok then Some (- 1, cs, snap_close s)
                 else if rdbver \<ge> 5
                 then let expected = sn_cksm s
                      in case Read E 8 s of
                           (None, s) \<Rightarrow> Some (- 1, cs, snap_close s)
                         | (Some b, s) \<Rightarrow>
                             if le_val b \<noteq> 0 \<and> word_of_nat (le_val b) \<noteq> expected then None
                             else Some (0, cs, snap_close s)
                 else Some (0, cs, snap_close s) })"

end
