(* ===== verification/Snapshot_Save.thy ===== *)
theory Snapshot_Save
  imports Snapshot_Load
begin

text \<open>
  Saving a redis snapshot (\<open>Snapshot::RedisSave\<close>). The storage engine's iterator is a parameter: the
  list of what it yields for each key. A snapshot that was saved without a failure loads back as
  exactly the calls that rebuild the keys.
\<close>

section \<open>What the iterator yields\<close>

datatype 'd it_value =
    ItString string
  | ItList "string list"
  | ItSet "string list"
  | ItZSet "('d \<times> string) list"
  | ItHash "(string \<times> string) list"
  | ItOther

record 'd it_entry =
  it_db :: DBID
  it_key :: string
  it_ttl :: nat
  it_value :: "'d it_value"

section \<open>Writing\<close>

definition key_type :: "'d it_value \<Rightarrow> nat option" where
  "key_type v = (case v of ItString _ \<Rightarrow> Some 0 | ItList _ \<Rightarrow> Some 1 | ItSet _ \<Rightarrow> Some 2 | ItZSet _ \<Rightarrow> Some 3
     | ItHash _ \<Rightarrow> Some 4 | ItOther \<Rightarrow> None)"

definition RedisWriteKeyType :: "snap_io \<Rightarrow> 'd it_value \<Rightarrow> snap \<Rightarrow> int \<times> snap" where
  "RedisWriteKeyType E v s = (case key_type v of Some t \<Rightarrow> RedisWriteType E t s | None \<Rightarrow> (- 1, s))"

text \<open>
  \<open>DUMP_CHECK_WRITE\<close> stores the result in \<open>err\<close> and breaks out of the innermost loop or switch if it
  is negative: a sequence of writes goes on while the results are not negative, and the value is the
  last result.
\<close>

definition and_then :: "(int \<times> snap) option \<Rightarrow> (snap \<Rightarrow> (int \<times> snap) option) \<Rightarrow> (int \<times> snap) option" where
  "and_then r f = do { (err, s) \<leftarrow> r; if err < 0 then Some (err, s) else f s }"

text \<open>The \<open>for\<close> loop over the elements; \<open>err\<close> is the value before it.\<close>

primrec write_elems ::
    "('e \<Rightarrow> snap \<Rightarrow> (int \<times> snap) option) \<Rightarrow> 'e list \<Rightarrow> int \<Rightarrow> snap \<Rightarrow> (int \<times> snap) option" where
  "write_elems w [] err s = Some (err, s)"
| "write_elems w (e # es) err s = do {
     (err, s) \<leftarrow> w e s;
     if err < 0 then Some (err, s) else write_elems w es err s }"

definition write_aggregate ::
    "snap_io \<Rightarrow> ('e \<Rightarrow> snap \<Rightarrow> (int \<times> snap) option) \<Rightarrow> 'e list \<Rightarrow> snap \<Rightarrow> (int \<times> snap) option" where
  "write_aggregate E w es s = do {
     (err, s) \<leftarrow> Some (RedisWriteLen E (length es) s);
     if err < 0 then Some (err, s) else write_elems w es err s }"

definition write_scored :: "'d dbl \<Rightarrow> snap_io \<Rightarrow> 'd \<times> string \<Rightarrow> snap \<Rightarrow> (int \<times> snap) option" where
  "write_scored D E e s =
     and_then (RedisWriteStringObject E (snd e) s) (\<lambda>s. Some (RedisWriteDouble D E (fst e) s))"

definition write_field :: "snap_io \<Rightarrow> string \<times> string \<Rightarrow> snap \<Rightarrow> (int \<times> snap) option" where
  "write_field E e s =
     and_then (RedisWriteStringObject E (fst e) s) (\<lambda>s. RedisWriteStringObject E (snd e) s)"

text \<open>The \<open>switch\<close> over the type of the value.\<close>

definition write_value :: "'d dbl \<Rightarrow> snap_io \<Rightarrow> 'd it_value \<Rightarrow> int \<Rightarrow> snap \<Rightarrow> (int \<times> snap) option" where
  "write_value D E v err s =
     (case v of
        ItString t \<Rightarrow> RedisWriteStringObject E t s
      | ItList ts \<Rightarrow> write_aggregate E (RedisWriteStringObject E) ts s
      | ItSet ts \<Rightarrow> write_aggregate E (RedisWriteStringObject E) ts s
      | ItZSet es \<Rightarrow> write_aggregate E (write_scored D E) es s
      | ItHash es \<Rightarrow> write_aggregate E (write_field E) es s
      | ItOther \<Rightarrow> Some (err, s))"

text \<open>
  One round of the \<open>while\<close> loop, up to the point where the key has been written. The database is
  selected for the first key and when it changes: \<open>cur\<close> is \<open>None\<close> before the first key.
\<close>

definition write_key :: "snap_io \<Rightarrow> DBID option \<Rightarrow> 'd it_entry \<Rightarrow> snap \<Rightarrow> (int \<times> snap) option" where
  "write_key E cur e s =
     and_then
       (if cur \<noteq> Some (it_db e)
        then and_then (Some (RedisWriteType E 254 s)) (\<lambda>s. Some (RedisWriteLen E (it_db e) s))
        else Some (0, s)) (\<lambda>s.
     and_then
       (if it_ttl e > 0
        then and_then (Some (RedisWriteType E 252 s)) (\<lambda>s. Some (RedisWriteMillisecondTime E (it_ttl e) s))
        else Some (0, s)) (\<lambda>s.
     and_then (Some (RedisWriteKeyType E (it_value e) s)) (\<lambda>s.
     RedisWriteRawString E (it_key e) s)))"

text \<open>
  A negative result before the value ends the loop; one of the value does not, and the next key
  overwrites it.
\<close>

fun write_entries ::
    "'d dbl \<Rightarrow> snap_io \<Rightarrow> DBID option \<Rightarrow> 'd it_entry list \<Rightarrow> int \<Rightarrow> snap \<Rightarrow> (int \<times> snap) option" where
  "write_entries D E cur [] err s = Some (err, s)"
| "write_entries D E cur (e # es) err s = do {
     (err, s) \<leftarrow> write_key E cur e s;
     if err < 0 then Some (err, s)
     else do {
       (err, s) \<leftarrow> write_value D E (it_value e) err s;
       write_entries D E (Some (it_db e)) es err s } }"

text \<open>The results of the header, of the end mark and of the checksum are not looked at.\<close>

definition RedisSave :: "'d dbl \<Rightarrow> snap_io \<Rightarrow> 'd it_entry list \<Rightarrow> snap \<Rightarrow> (int \<times> snap) option" where
  "RedisSave D E es s = do {
     let (_, s) = RedisWriteMagicHeader E s;
     (err, s) \<leftarrow> write_entries D E None es 0 s;
     if err < 0 then Some (- 1, snap_close s)
     else
       let (_, s) = RedisWriteType E 255 s;
           (_, s) = Write E (le_bytes 8 (unat (sn_cksm s))) s
       in Some (0, snap_close s) }"

section \<open>The bytes of a snapshot\<close>

definition rdb_value :: "'d dbl \<Rightarrow> (nat \<Rightarrow> int) \<Rightarrow> 'd it_value \<Rightarrow> bytes" where
  "rdb_value D h v =
     (case v of
        ItString t \<Rightarrow> rdb_string h t
      | ItList ts \<Rightarrow> rdb_len (length ts) @ concat (map (rdb_string h) ts)
      | ItSet ts \<Rightarrow> rdb_len (length ts) @ concat (map (rdb_string h) ts)
      | ItZSet es \<Rightarrow> rdb_len (length es) @ concat (map (\<lambda>(d, t). rdb_string h t @ rdb_double D d) es)
      | ItHash es \<Rightarrow> rdb_len (length es) @ concat (map (\<lambda>(f, v). rdb_string h f @ rdb_string h v) es)
      | ItOther \<Rightarrow> [])"

definition rdb_select :: "DBID option \<Rightarrow> DBID \<Rightarrow> bytes" where
  "rdb_select cur db = (if cur \<noteq> Some db then char_of (254 :: nat) # rdb_len db else [])"

definition rdb_object :: "'d dbl \<Rightarrow> (nat \<Rightarrow> int) \<Rightarrow> 'd it_entry \<Rightarrow> bytes" where
  "rdb_object D h e =
     (if it_ttl e > 0 then char_of (252 :: nat) # le_bytes 8 (it_ttl e) else [])
     @ char_of (the (key_type (it_value e))) # rdb_string h (it_key e) @ rdb_value D h (it_value e)"

fun rdb_entries :: "'d dbl \<Rightarrow> (nat \<Rightarrow> int) \<Rightarrow> DBID option \<Rightarrow> 'd it_entry list \<Rightarrow> bytes" where
  "rdb_entries D h cur [] = []"
| "rdb_entries D h cur (e # es) =
     rdb_select cur (it_db e) @ rdb_object D h e @ rdb_entries D h (Some (it_db e)) es"

definition rdb_body :: "'d dbl \<Rightarrow> (nat \<Rightarrow> int) \<Rightarrow> 'd it_entry list \<Rightarrow> bytes" where
  "rdb_body D h es = ''REDIS0006'' @ rdb_entries D h None es @ [char_of (255 :: nat)]"

definition rdb_file :: "'d dbl \<Rightarrow> (nat \<Rightarrow> int) \<Rightarrow> 'd it_entry list \<Rightarrow> bytes" where
  "rdb_file D h es = rdb_body D h es @ le_bytes 8 (unat (crc64 0 (rdb_body D h es)))"

text \<open>The calls that rebuild the keys.\<close>

definition value_calls :: "DBID \<Rightarrow> string \<Rightarrow> 'd it_value \<Rightarrow> 'd kv_call list" where
  "value_calls db key v =
     (case v of
        ItString t \<Rightarrow> [KvSet db key t]
      | ItList ts \<Rightarrow> map (KvRPush db key) ts
      | ItSet ts \<Rightarrow> map (KvSAdd db key) ts
      | ItZSet es \<Rightarrow> map (\<lambda>(d, t). KvZAdd db key d t) es
      | ItHash es \<Rightarrow> map (\<lambda>(f, v). KvHSet db key f v) es
      | ItOther \<Rightarrow> [])"

definition entry_calls :: "'d it_entry \<Rightarrow> 'd kv_call list" where
  "entry_calls e = KvDel (it_db e) (it_key e) # value_calls (it_db e) (it_key e) (it_value e)
     @ (if it_ttl e > 0 then [KvPExpire (it_db e) (it_key e) (int (it_ttl e))] else [])"

text \<open>What the format can hold: lengths and databases of less than 32 bits, times of 63 bits.\<close>

definition fits :: "string \<Rightarrow> bool" where "fits t \<longleftrightarrow> length t < 2 ^ 32 - 1"

definition value_ok :: "'d dbl \<Rightarrow> 'd it_value \<Rightarrow> bool" where
  "value_ok D v =
     (case v of
        ItString t \<Rightarrow> fits t
      | ItList ts \<Rightarrow> length ts < 2 ^ 32 - 1 \<and> list_all fits ts
      | ItSet ts \<Rightarrow> length ts < 2 ^ 32 - 1 \<and> list_all fits ts
      | ItZSet es \<Rightarrow> length es < 2 ^ 32 - 1 \<and> list_all (\<lambda>(d, t). fits t \<and> dbl_reads_back D d) es
      | ItHash es \<Rightarrow> length es < 2 ^ 32 - 1 \<and> list_all (\<lambda>(f, v). fits f \<and> fits v) es
      | ItOther \<Rightarrow> False)"

definition entry_ok :: "'d dbl \<Rightarrow> 'd it_entry \<Rightarrow> bool" where
  "entry_ok D e \<longleftrightarrow> it_db e < 2 ^ 32 - 1 \<and> fits (it_key e) \<and> it_ttl e < 2 ^ 63 \<and> value_ok D (it_value e)"


section \<open>Saving\<close>

text \<open>A step that ends well and appends the bytes.\<close>

definition emits :: "(snap \<Rightarrow> (int \<times> snap) option) \<Rightarrow> bytes \<Rightarrow> bool" where
  "emits w bs \<longleftrightarrow> (\<forall>s. sn_fp s \<longrightarrow> (\<exists>r s'. w s = Some (r, s') \<and> 0 \<le> r \<and> wrote bs s s'))"

lemma emits_and_then:
  assumes "emits w1 a" "emits w2 b"
  shows "emits (\<lambda>s. and_then (w1 s) w2) (a @ b)"
  unfolding emits_def
proof (intro allI impI)
  fix s :: snap assume "sn_fp s"
  then obtain r1 s1 where s1: "w1 s = Some (r1, s1)" "0 \<le> r1" "wrote a s s1" using assms(1) by (auto simp: emits_def)
  then obtain r2 s2 where "w2 s1 = Some (r2, s2)" "0 \<le> r2" "wrote b s1 s2"
    using assms(2) \<open>sn_fp s\<close> wrote_fp [OF s1(3)] by (auto simp: emits_def)
  then show "\<exists>r s'. and_then (w1 s) w2 = Some (r, s') \<and> 0 \<le> r \<and> wrote (a @ b) s s'"
    using s1 wrote_trans [OF s1(3)] by (auto simp: and_then_def)
qed

lemma emits_write: "calm E \<Longrightarrow> emits (\<lambda>s. Some (Write E bs s)) bs"
  using Write_calm [of E] by (fastforce simp: emits_def)

lemma emits_len: "calm E \<Longrightarrow> n < 2 ^ 32 \<Longrightarrow> emits (\<lambda>s. Some (RedisWriteLen E n s)) (rdb_len n)"
  using RedisWriteLen_calm [of E _ n] by (fastforce simp: emits_def)

lemma emits_string: "calm E \<Longrightarrow> fits t \<Longrightarrow> emits (RedisWriteRawString E t) (rdb_string (io_htab E) t)"
  using RedisWriteRawString_calm [of E _ t] by (fastforce simp: emits_def fits_def)

lemma emits_nothing: "emits (\<lambda>s. Some (0, s)) []"
  by (simp add: emits_def wrote_def crc64.simps)

lemma emits_double: "calm E \<Longrightarrow> emits (\<lambda>s. Some (RedisWriteDouble D E v s)) (rdb_double D v)"
  using RedisWriteDouble_calm [of E _ D v] by (fastforce simp: emits_def)

lemma emits_elems:
  "0 \<le> err \<Longrightarrow> \<forall>e \<in> set es. emits (w e) (img e) \<Longrightarrow> emits (write_elems w es err) (concat (map img es))"
proof (induction es arbitrary: err)
  case Nil
  then show ?case by (simp add: emits_def wrote_def crc64.simps)
next
  case (Cons e es)
  show ?case unfolding emits_def
  proof (intro allI impI)
    fix s :: snap assume s: "sn_fp s"
    then obtain r1 s1 where s1: "w e s = Some (r1, s1)" "0 \<le> r1" "wrote (img e) s s1"
      using Cons.prems(2) by (auto simp: emits_def)
    then obtain r2 s2 where "write_elems w es r1 s1 = Some (r2, s2)" "0 \<le> r2" "wrote (concat (map img es)) s1 s2"
      using Cons.IH [OF s1(2)] Cons.prems(2) s wrote_fp [OF s1(3)] by (auto simp: emits_def)
    then show "\<exists>r s'. write_elems w (e # es) err s = Some (r, s') \<and> 0 \<le> r \<and> wrote (concat (map img (e # es))) s s'"
      using s1 wrote_trans [OF s1(3)] by auto
  qed
qed

lemma emits_aggregate:
  assumes "calm E" "length es < 2 ^ 32" "\<forall>e \<in> set es. emits (w e) (img e)"
  shows "emits (write_aggregate E w es) (rdb_len (length es) @ concat (map img es))"
  unfolding emits_def
proof (intro allI impI)
  fix s :: snap assume s: "sn_fp s"
  then obtain r1 s1 where s1: "RedisWriteLen E (length es) s = (r1, s1)" "0 < r1" "wrote (rdb_len (length es)) s s1"
    using RedisWriteLen_calm [OF assms(1) _ assms(2)] by blast
  moreover have "0 \<le> r1" using s1(2) by simp
  ultimately obtain r2 s2 where "write_elems w es r1 s1 = Some (r2, s2)" "0 \<le> r2" "wrote (concat (map img es)) s1 s2"
    using emits_elems [OF _ assms(3), of r1] s wrote_fp [OF s1(3)] by (auto simp: emits_def)
  then show "\<exists>r s'. write_aggregate E w es s = Some (r, s') \<and> 0 \<le> r
      \<and> wrote (rdb_len (length es) @ concat (map img es)) s s'"
    using s1 wrote_trans [OF s1(3)] by (auto simp: write_aggregate_def)
qed

lemma emits_value:
  assumes "calm E" "value_ok D v"
  shows "emits (write_value D E v err) (rdb_value D (io_htab E) v)"
proof (cases v)
  case (ItString t)
  then show ?thesis
    using assms emits_string [of E t] by (simp add: write_value_def [abs_def] rdb_value_def value_ok_def RedisWriteStringObject_def [abs_def])
next
  case (ItList ts)
  then show ?thesis
    using assms emits_aggregate [of E ts "RedisWriteStringObject E" "rdb_string (io_htab E)"] emits_string [of E]
    by (simp add: write_value_def [abs_def] rdb_value_def value_ok_def RedisWriteStringObject_def [abs_def] list_all_iff)
next
  case (ItSet ts)
  then show ?thesis
    using assms emits_aggregate [of E ts "RedisWriteStringObject E" "rdb_string (io_htab E)"] emits_string [of E]
    by (simp add: write_value_def [abs_def] rdb_value_def value_ok_def RedisWriteStringObject_def [abs_def] list_all_iff)
next
  case (ItZSet es)
  have "\<forall>e \<in> set es. emits (write_scored D E e) ((\<lambda>(d, t). rdb_string (io_htab E) t @ rdb_double D d) e)"
    using assms ItZSet
    by (auto simp: write_scored_def [abs_def] RedisWriteStringObject_def value_ok_def list_all_iff
        intro!: emits_and_then emits_string emits_double)
  then show ?thesis
    using assms ItZSet emits_aggregate [of E es "write_scored D E"]
    by (simp add: write_value_def [abs_def] rdb_value_def value_ok_def)
next
  case (ItHash es)
  have "\<forall>e \<in> set es. emits (write_field E e) ((\<lambda>(f, v). rdb_string (io_htab E) f @ rdb_string (io_htab E) v) e)"
    using assms ItHash
    by (auto simp: write_field_def [abs_def] RedisWriteStringObject_def [abs_def] value_ok_def list_all_iff
        intro!: emits_and_then emits_string)
  then show ?thesis
    using assms ItHash emits_aggregate [of E es "write_field E"]
    by (simp add: write_value_def [abs_def] rdb_value_def value_ok_def)
qed (use assms in \<open>simp add: value_ok_def\<close>)


lemma emits_select:
  assumes "calm E" "db < 2 ^ 32"
  shows "emits (\<lambda>s. if cur \<noteq> Some db
      then and_then (Some (RedisWriteType E 254 s)) (\<lambda>s. Some (RedisWriteLen E db s))
      else Some (0, s)) (rdb_select cur db)"
  using emits_and_then [OF emits_write [OF assms(1)] emits_len [OF assms], of "[char_of (254 :: nat)]"]
  by (cases "cur = Some db") (simp_all add: rdb_select_def emits_nothing RedisWriteType_def)

lemma emits_ttl:
  assumes "calm E"
  shows "emits (\<lambda>s. if ttl > 0
      then and_then (Some (RedisWriteType E 252 s)) (\<lambda>s. Some (RedisWriteMillisecondTime E ttl s))
      else Some (0, s)) (if ttl > 0 then char_of (252 :: nat) # le_bytes 8 ttl else [])"
  using emits_and_then [OF emits_write [OF assms] emits_write [OF assms], of "[char_of (252 :: nat)]" "le_bytes 8 ttl"]
  by (cases "ttl > 0") (simp_all add: emits_nothing RedisWriteType_def RedisWriteMillisecondTime_def del: le_bytes.simps)

lemma emits_key_type:
  assumes "calm E" "key_type v = Some t"
  shows "emits (\<lambda>s. Some (RedisWriteKeyType E v s)) [char_of t]"
  using emits_write [OF assms(1)] assms(2) by (simp add: RedisWriteKeyType_def RedisWriteType_def)

lemma value_ok_type: "value_ok D v \<Longrightarrow> \<exists>t \<le> 4. key_type v = Some t"
  by (cases v) (simp_all add: value_ok_def key_type_def)

lemma emits_entries:
  assumes "calm E"
  shows "list_all (entry_ok D) es \<Longrightarrow> 0 \<le> err \<Longrightarrow> emits (write_entries D E cur es err) (rdb_entries D (io_htab E) cur es)"
proof (induction es arbitrary: cur err)
  case Nil
  then show ?case by (simp add: emits_def wrote_def crc64.simps)
next
  case (Cons e es)
  have ok: "it_db e < 2 ^ 32" "fits (it_key e)" "value_ok D (it_value e)" using Cons.prems(1) by (simp_all add: entry_ok_def)
  obtain t where t: "key_type (it_value e) = Some t" using value_ok_type [OF ok(3)] by blast
  define kb where "kb = rdb_select cur (it_db e)
     @ (if it_ttl e > 0 then char_of (252 :: nat) # le_bytes 8 (it_ttl e) else [])
     @ [char_of t] @ rdb_string (io_htab E) (it_key e)"
  have key: "emits (write_key E cur e) kb"
    unfolding write_key_def [abs_def] kb_def
    by (intro emits_and_then emits_select emits_ttl emits_key_type emits_string assms ok t)
  have img: "rdb_entries D (io_htab E) cur (e # es)
      = (kb @ rdb_value D (io_htab E) (it_value e)) @ rdb_entries D (io_htab E) (Some (it_db e)) es"
    by (simp add: rdb_object_def t kb_def)
  show ?case unfolding emits_def img
  proof (intro allI impI)
    fix s :: snap assume s: "sn_fp s"
    then obtain r1 s1 where s1: "write_key E cur e s = Some (r1, s1)" "0 \<le> r1" "wrote kb s s1"
      using key by (auto simp: emits_def)
    then obtain r2 s2 where s2: "write_value D E (it_value e) r1 s1 = Some (r2, s2)" "0 \<le> r2"
        "wrote (rdb_value D (io_htab E) (it_value e)) s1 s2"
      using emits_value [OF assms ok(3), of r1] s wrote_fp [OF s1(3)] by (auto simp: emits_def)
    note w = wrote_trans [OF s1(3) s2(3)]
    obtain r3 s3 where "write_entries D E (Some (it_db e)) es r2 s2 = Some (r3, s3)" "0 \<le> r3"
        "wrote (rdb_entries D (io_htab E) (Some (it_db e)) es) s2 s3"
      using Cons.IH [of r2 "Some (it_db e)"] Cons.prems(1) s2(2) s wrote_fp [OF w] by (auto simp: emits_def)
    then show "\<exists>r s'. write_entries D E cur (e # es) err s = Some (r, s') \<and> 0 \<le> r
        \<and> wrote ((kb @ rdb_value D (io_htab E) (it_value e)) @ rdb_entries D (io_htab E) (Some (it_db e)) es) s s'"
      using s1 s2 wrote_trans [OF w] by auto
  qed
qed

lemma RedisSave_file:
  assumes "calm E" "list_all (entry_ok D) es" "sn_fp s" "sn_out s = []" "sn_cksm s = 0"
  shows "\<exists>s'. RedisSave D E es s = Some (0, s') \<and> sn_out s' = rdb_file D (io_htab E) es \<and> \<not> sn_fp s'
    \<and> file_path s' = file_path s"
proof -
  obtain s1 where s1: "RedisWriteMagicHeader E s = (0, s1)" "wrote ''REDIS0006'' s s1"
    using Write_calm [OF assms(1,3)] by (auto simp: RedisWriteMagicHeader_def)
  obtain r2 s2 where s2: "write_entries D E None es 0 s1 = Some (r2, s2)" "0 \<le> r2"
      "wrote (rdb_entries D (io_htab E) None es) s1 s2"
    using emits_entries [OF assms(1,2), of 0 None] assms(3) wrote_fp [OF s1(2)] by (auto simp: emits_def)
  obtain s3 where s3: "RedisWriteType E 255 s2 = (0, s3)" "wrote [char_of (255 :: nat)] s2 s3"
    using Write_calm [OF assms(1), of s2] assms(3) wrote_fp [OF s1(2)] wrote_fp [OF s2(3)]
    by (auto simp: RedisWriteType_def)
  have w: "wrote (rdb_body D (io_htab E) es) s s3"
    using wrote_trans [OF s1(2) wrote_trans [OF s2(3) s3(2)]] by (simp add: rdb_body_def)
  then obtain s4 where s4: "Write E (le_bytes 8 (unat (sn_cksm s3))) s3 = (0, s4)"
      "wrote (le_bytes 8 (unat (sn_cksm s3))) s3 s4"
    using Write_calm [OF assms(1), of s3] assms(3) by (auto simp: wrote_def)
  have "sn_cksm s3 = crc64 0 (rdb_body D (io_htab E) es)" using w assms(5) by (simp add: wrote_def)
  moreover have "RedisSave D E es s = Some (0, snap_close s4)"
    using s1(1) s2(1,2) s3(1) s4(1) by (simp add: RedisSave_def)
  ultimately show ?thesis
    using w s4(2) assms(4) by (auto simp: wrote_def rdb_file_def snap_close_def)
qed

section \<open>Loading\<close>

text \<open>A step that takes the bytes and ends with the result, leaving the database as it is.\<close>

definition takes :: "(snap \<Rightarrow> ('a \<times> snap) option) \<Rightarrow> bytes \<Rightarrow> 'a \<Rightarrow> bool" where
  "takes f bs r \<longleftrightarrow> (\<forall>s q. \<not> routine_cb s \<and> sn_rest s = bs @ q \<longrightarrow> (\<exists>s'. f s = Some (r, s') \<and> took bs s s'))"

lemma takesD:
  assumes "takes f bs r" "\<not> routine_cb s" "sn_rest s = bs @ q"
  obtains s' where "f s = Some (r, s')" "took bs s s'" "\<not> routine_cb s'" "sn_rest s' = q"
proof -
  obtain s' where "f s = Some (r, s')" "took bs s s'" using assms unfolding takes_def by blast
  then show thesis using that took_rest(1) [of bs s s' q] took_rest(2) [of bs s s'] assms(2,3) by blast
qed

lemma takes_string: "fits t \<Longrightarrow> takes (RedisReadString E) (rdb_string h t) (Some t)"
  using RedisReadString_rdb [of _ h t _ E] by (fastforce simp: takes_def fits_def)

lemma takes_double: "dbl_reads_back D v \<Longrightarrow> takes (RedisReadDoubleValue D E) (rdb_double D v) (Some v)"
  using RedisReadDouble_rdb [of _ D v _ E] by (fastforce simp: takes_def)

lemma takes_member:
  assumes "fits t"
  shows "takes (read_member E mk) (rdb_string h t) (Some (mk t))"
  unfolding takes_def
proof (intro allI impI, elim conjE)
  fix s :: snap and q assume "\<not> routine_cb s" "sn_rest s = rdb_string h t @ q"
  then obtain s1 where "RedisReadString E s = Some (Some t, s1)" "took (rdb_string h t) s s1"
    using takesD [OF takes_string [OF assms]] by blast
  then show "\<exists>s'. read_member E mk s = Some (Some (mk t), s') \<and> took (rdb_string h t) s s'"
    by (simp add: read_member_def)
qed

lemma takes_scored:
  assumes "fits t" "dbl_reads_back D d"
  shows "takes (read_scored D E db key) (rdb_string h t @ rdb_double D d) (Some (KvZAdd db key d t))"
  unfolding takes_def
proof (intro allI impI, elim conjE)
  fix s :: snap and q assume s: "\<not> routine_cb s" "sn_rest s = (rdb_string h t @ rdb_double D d) @ q"
  then obtain s1 where s1: "RedisReadString E s = Some (Some t, s1)" "took (rdb_string h t) s s1"
      "\<not> routine_cb s1" "sn_rest s1 = rdb_double D d @ q"
    using takesD [OF takes_string [OF assms(1)], of s h _ E] by auto
  then obtain s2 where "RedisReadDoubleValue D E s1 = Some (Some d, s2)" "took (rdb_double D d) s1 s2"
    using takesD [OF takes_double [OF assms(2)], of s1 q E] by auto
  then show "\<exists>s'. read_scored D E db key s = Some (Some (KvZAdd db key d t), s')
      \<and> took (rdb_string h t @ rdb_double D d) s s'"
    using s1 took_trans [OF s1(2)] by (auto simp: read_scored_def)
qed

lemma takes_field:
  assumes "fits f" "fits v"
  shows "takes (read_field E db key) (rdb_string h f @ rdb_string h v) (Some (KvHSet db key f v))"
  unfolding takes_def
proof (intro allI impI, elim conjE)
  fix s :: snap and q assume s: "\<not> routine_cb s" "sn_rest s = (rdb_string h f @ rdb_string h v) @ q"
  then obtain s1 where s1: "RedisReadString E s = Some (Some f, s1)" "took (rdb_string h f) s s1"
      "\<not> routine_cb s1" "sn_rest s1 = rdb_string h v @ q"
    using takesD [OF takes_string [OF assms(1)], of s h _ E] by auto
  then obtain s2 where "RedisReadString E s1 = Some (Some v, s2)" "took (rdb_string h v) s1 s2"
    using takesD [OF takes_string [OF assms(2)], of s1 h q E] by auto
  then show "\<exists>s'. read_field E db key s = Some (Some (KvHSet db key f v), s')
      \<and> took (rdb_string h f @ rdb_string h v) s s'"
    using s1 took_trans [OF s1(2)] by (auto simp: read_field_def)
qed


lemma takes_elems:
  "\<forall>e \<in> set es. takes elem (img e) (Some (mk e))
    \<Longrightarrow> \<not> routine_cb s \<Longrightarrow> sn_rest s = concat (map img es) @ q
    \<Longrightarrow> \<exists>s'. load_elems elem (length es) s = Some (True, map mk es, s') \<and> took (concat (map img es)) s s'"
proof (induction es arbitrary: s)
  case Nil
  then show ?case by (simp add: took_def crc64.simps)
next
  case (Cons e es)
  obtain s1 where s1: "elem s = Some (Some (mk e), s1)" "took (img e) s s1"
      "\<not> routine_cb s1" "sn_rest s1 = concat (map img es) @ q"
    using takesD [of elem "img e" "Some (mk e)" s "concat (map img es) @ q"] Cons.prems by auto
  then obtain s2 where "load_elems elem (length es) s1 = Some (True, map mk es, s2)" "took (concat (map img es)) s1 s2"
    using Cons.IH [of s1] Cons.prems(1) by auto
  then show ?case using s1 took_trans [OF s1(2)] by auto
qed

lemma load_aggregate_elems:
  assumes "\<forall>e \<in> set es. takes elem (img e) (Some (mk e))" "length es < 2 ^ 32 - 1"
    "\<not> routine_cb s" "sn_rest s = (rdb_len (length es) @ concat (map img es)) @ q"
  shows "\<exists>s'. load_aggregate E elem s = Some (True, map mk es, s')
    \<and> took (rdb_len (length es) @ concat (map img es)) s s'"
proof -
  obtain s1 where s1: "RedisReadLen E s = ((False, length es), s1)" "took (rdb_len (length es)) s s1"
    using RedisReadLen_len [of s "length es" "concat (map img es) @ q" E] assms(2-4) by auto
  have "\<not> routine_cb s1" "sn_rest s1 = concat (map img es) @ q" using took_rest [OF s1(2)] assms(3,4) by auto
  then obtain s2 where "load_elems elem (length es) s1 = Some (True, map mk es, s2)" "took (concat (map img es)) s1 s2"
    using takes_elems [OF assms(1)] by blast
  then show ?thesis
    using s1 took_trans [OF s1(2)] assms(2) by (auto simp: load_aggregate_def RDB_LENERR_def)
qed

lemma RedisLoadObject_value:
  assumes "value_ok D v" "key_type v = Some t" "\<not> routine_cb s" "sn_rest s = rdb_value D h v @ q"
  shows "\<exists>s'. RedisLoadObject D E (int t) key s = Some (True, value_calls (current_db s) key v, s')
    \<and> took (rdb_value D h v) s s'"
proof (cases v)
  case (ItString u)
  then obtain s1 where "RedisReadString E s = Some (Some u, s1)" "took (rdb_string h u) s s1"
    using takesD [OF takes_string, of u s h q E] assms by (auto simp: rdb_value_def value_ok_def)
  then show ?thesis
    using ItString assms(2) by (simp add: RedisLoadObject_def key_type_def value_calls_def rdb_value_def)
next
  case (ItList ts)
  have "\<forall>u \<in> set ts. takes (read_member E (KvRPush (current_db s) key)) (rdb_string h u) (Some (KvRPush (current_db s) key u))"
    using assms(1) ItList by (auto simp: value_ok_def list_all_iff intro: takes_member)
  from load_aggregate_elems [OF this, of s q E] show ?thesis
    using ItList assms by (simp add: RedisLoadObject_def key_type_def value_calls_def rdb_value_def value_ok_def)
next
  case (ItSet ts)
  have "\<forall>u \<in> set ts. takes (read_member E (KvSAdd (current_db s) key)) (rdb_string h u) (Some (KvSAdd (current_db s) key u))"
    using assms(1) ItSet by (auto simp: value_ok_def list_all_iff intro: takes_member)
  from load_aggregate_elems [OF this, of s q E] show ?thesis
    using ItSet assms by (simp add: RedisLoadObject_def key_type_def value_calls_def rdb_value_def value_ok_def)
next
  case (ItZSet es)
  have "\<forall>e \<in> set es. takes (read_scored D E (current_db s) key) ((\<lambda>(d, t). rdb_string h t @ rdb_double D d) e)
      (Some ((\<lambda>(d, t). KvZAdd (current_db s) key d t) e))"
    using assms(1) ItZSet by (auto simp: value_ok_def list_all_iff intro!: takes_scored)
  from load_aggregate_elems [OF this, of s q E] show ?thesis
    using ItZSet assms by (simp add: RedisLoadObject_def key_type_def value_calls_def rdb_value_def value_ok_def)
next
  case (ItHash es)
  have "\<forall>e \<in> set es. takes (read_field E (current_db s) key) ((\<lambda>(f, v). rdb_string h f @ rdb_string h v) e)
      (Some ((\<lambda>(f, v). KvHSet (current_db s) key f v) e))"
    using assms(1) ItHash by (auto simp: value_ok_def list_all_iff intro!: takes_field)
  from load_aggregate_elems [OF this, of s q E] show ?thesis
    using ItHash assms by (simp add: RedisLoadObject_def key_type_def value_calls_def rdb_value_def value_ok_def)
qed (use assms in \<open>simp add: value_ok_def\<close>)

lemma RedisReadType_byte:
  assumes "\<not> routine_cb s" "sn_rest s = char_of t # q" "t < 256"
  shows "\<exists>s'. RedisReadType E s = (int t, s') \<and> took [char_of t] s s'"
  using Read_take [of s "[char_of t]" q 1 E] assms by (auto simp: RedisReadType_def)

abbreviation ttl_bytes :: "nat \<Rightarrow> bytes" where
  "ttl_bytes n \<equiv> (if n > 0 then char_of (252 :: nat) # le_bytes 8 n else [])"

lemma read_expire_ttl:
  assumes "\<not> routine_cb s" "sn_rest s = ttl_bytes ttl @ char_of t # q" "ttl < 2 ^ 63" "t < 252 \<or> 253 < t" "t < 256"
  shows "\<exists>s'. read_expire E s = (Some (if ttl > 0 then int ttl else - 1, int t), s')
    \<and> took (ttl_bytes ttl @ [char_of t]) s s'"
proof (cases "ttl > 0")
  case False
  then show ?thesis
    using RedisReadType_byte [of s t q E] assms by (auto simp: read_expire_def)
next
  case True
  obtain s1 where s1: "RedisReadType E s = (252, s1)" "took [char_of (252 :: nat)] s s1"
    using RedisReadType_byte [of s 252 "le_bytes 8 ttl @ char_of t # q" E] assms(1,2) True by (auto simp del: le_bytes.simps)
  have r1: "\<not> routine_cb s1" "sn_rest s1 = le_bytes 8 ttl @ char_of t # q"
    using took_rest [OF s1(2)] assms(1,2) True by (auto simp del: le_bytes.simps)
  then obtain s2 where s2: "Read E 8 s1 = (Some (le_bytes 8 ttl), s2)" "took (le_bytes 8 ttl) s1 s2"
    using Read_take [of s1 "le_bytes 8 ttl" _ 8 E] by (auto simp del: le_bytes.simps)
  have v: "signed_of 8 (le_val (le_bytes 8 ttl)) = int ttl"
    using assms(3) le_val_le_bytes_id [of ttl 8] by (simp add: signed_of_def del: le_bytes.simps le_val_le_bytes_id)
  have r2: "\<not> routine_cb s2" "sn_rest s2 = char_of t # q" using took_rest [OF s2(2)] r1 by auto
  obtain s3 where s3: "RedisReadType E s2 = (int t, s3)" "took [char_of t] s2 s3"
    using RedisReadType_byte [OF r2 assms(5)] by blast
  have "took (ttl_bytes ttl @ [char_of t]) s s3"
    using took_trans [OF s1(2) took_trans [OF s2(2) s3(2)]] True by simp
  then show ?thesis
    using s1(1) s2(1) s3(1) v True by (auto simp: read_expire_def RedisReadMillisecondTime_def)
qed

text \<open>What the loop has taken leaves the status as it was, but for the database.\<close>

definition took_db :: "DBID \<Rightarrow> bytes \<Rightarrow> snap \<Rightarrow> snap \<Rightarrow> bool" where
  "took_db db bs s s' \<longleftrightarrow> took bs (s\<lparr>current_db := db\<rparr>) s'"

lemma took_dbD:
  "took_db db bs s s' \<Longrightarrow> current_db s' = db"
  "took_db db bs s s' \<Longrightarrow> \<not> routine_cb s \<Longrightarrow> \<not> routine_cb s'"
  "took_db db bs s s' \<Longrightarrow> sn_rest s = bs @ q \<Longrightarrow> sn_rest s' = q"
  by (simp_all add: took_db_def took_def)

lemma took_db_trans: "took_db a bs s s1 \<Longrightarrow> took_db b cs s1 s2 \<Longrightarrow> took_db b (bs @ cs) s s2"
  by (simp add: took_db_def took_def crc64_append)

lemma load_round_select:
  assumes "\<not> routine_cb s" "sn_rest s = (char_of (254 :: nat) # rdb_len db) @ q" "db < 2 ^ 32 - 1"
  shows "\<exists>s'. load_round D E s = Some (Again [] s') \<and> took_db db (char_of (254 :: nat) # rdb_len db) s s'"
proof -
  obtain s1 where s1: "read_expire E s = (Some (- 1, 254), s1)" "took [char_of (254 :: nat)] s s1"
    using read_expire_ttl [of s 0 254 "rdb_len db @ q" E] assms by auto
  have "\<not> routine_cb s1" "sn_rest s1 = rdb_len db @ q" using took_rest [OF s1(2)] assms(1,2) by auto
  then obtain s2 where s2: "RedisReadLen E s1 = ((False, db), s2)" "took (rdb_len db) s1 s2"
    using RedisReadLen_len [of s1 db q E] assms(3) by auto
  have "took_db db (char_of (254 :: nat) # rdb_len db) s (s2\<lparr>current_db := db\<rparr>)"
    using took_trans [OF s1(2) s2(2)] by (simp add: took_db_def took_def)
  then show ?thesis using s1(1) s2(1) assms(3) by (auto simp: load_round_def RDB_LENERR_def)
qed

lemma load_round_object:
  assumes "\<not> routine_cb s" "sn_rest s = rdb_object D h e @ q" "entry_ok D e" "current_db s = it_db e"
  shows "\<exists>s'. load_round D E s = Some (Again (entry_calls e) s') \<and> took_db (it_db e) (rdb_object D h e) s s'"
proof -
  have ok: "fits (it_key e)" "it_ttl e < 2 ^ 63" "value_ok D (it_value e)" using assms(3) by (simp_all add: entry_ok_def)
  obtain t where t: "key_type (it_value e) = Some t" "t \<le> 4" using value_ok_type [OF ok(3)] by blast
  obtain s1 where s1: "read_expire E s = (Some (if it_ttl e > 0 then int (it_ttl e) else - 1, int t), s1)"
      "took (ttl_bytes (it_ttl e) @ [char_of t]) s s1"
    using read_expire_ttl [of s "it_ttl e" t "rdb_string h (it_key e) @ rdb_value D h (it_value e) @ q" E]
      assms(1,2) t ok(2) by (auto simp: rdb_object_def simp del: le_bytes.simps)
  have r1: "\<not> routine_cb s1" "sn_rest s1 = rdb_string h (it_key e) @ rdb_value D h (it_value e) @ q"
    using took_rest [OF s1(2)] assms(1,2) t(1) by (auto simp: rdb_object_def simp del: le_bytes.simps)
  obtain s2 where s2: "RedisReadString E s1 = Some (Some (it_key e), s2)" "took (rdb_string h (it_key e)) s1 s2"
      "\<not> routine_cb s2" "sn_rest s2 = rdb_value D h (it_value e) @ q"
    using takesD [OF takes_string [OF ok(1)] r1] by blast
  obtain s3 where s3: "RedisLoadObject D E (int t) (it_key e) s2
        = Some (True, value_calls (current_db s2) (it_key e) (it_value e), s3)"
      "took (rdb_value D h (it_value e)) s2 s3"
    using RedisLoadObject_value [OF ok(3) t(1) s2(3,4)] by blast
  have w: "took (rdb_object D h e) s s3"
    using took_trans [OF s1(2) took_trans [OF s2(2) s3(2)]] t(1) by (simp add: rdb_object_def)
  have db: "current_db s2 = it_db e" "current_db s3 = it_db e"
    using s1(2) s2(2) s3(2) assms(4) by (simp_all add: took_def)
  have "load_round D E s = Some (Again (entry_calls e) s3)"
    using s1(1) s2(1) s3(1) db t(2) by (simp add: load_round_def entry_calls_def)
  moreover have "took_db (it_db e) (rdb_object D h e) s s3"
    using w assms(4) by (simp add: took_db_def took_def)
  ultimately show ?thesis by blast
qed

lemma load_rounds_entries:
  "list_all (entry_ok D) es \<Longrightarrow> \<not> routine_cb s
    \<Longrightarrow> sn_rest s = rdb_entries D h cur es @ char_of (255 :: nat) # q
    \<Longrightarrow> (\<And>db. cur = Some db \<Longrightarrow> current_db s = db)
    \<Longrightarrow> \<exists>s' db. load_rounds D E acc s = Some (True, acc @ concat (map entry_calls es), s')
        \<and> took_db db (rdb_entries D h cur es @ [char_of (255 :: nat)]) s s'"
proof (induction es arbitrary: s cur acc)
  case Nil
  then obtain s1 where s1: "read_expire E s = (Some (- 1, 255), s1)" "took [char_of (255 :: nat)] s s1"
    using read_expire_ttl [of s 0 255 q E] by auto
  then have "load_rounds D E acc s = Some (True, acc, s1)"
    by (simp add: load_rounds.simps [of D E acc s] load_round_def)
  moreover have "took_db (current_db s) [char_of (255 :: nat)] s s1" using s1(2) by (simp add: took_db_def took_def)
  ultimately show ?case by auto
next
  case (Cons e es)
  let ?o = "rdb_object D h e" and ?r = "rdb_entries D h (Some (it_db e)) es @ [char_of (255 :: nat)]"
  have eo: "entry_ok D e" "it_db e < 2 ^ 32 - 1" using Cons.prems(1) by (simp_all add: entry_ok_def)
  obtain s1 where s1: "load_rounds D E acc s = load_rounds D E acc s1"
      "took_db (it_db e) (rdb_select cur (it_db e)) s s1"
  proof (cases "cur = Some (it_db e)")
    case True
    then have "took_db (it_db e) [] s s" using Cons.prems(4) by (simp add: took_db_def took_def crc64.simps)
    then show ?thesis using that [of s] True by (simp add: rdb_select_def)
  next
    case False
    then obtain s1 where "load_round D E s = Some (Again [] s1)"
        "took_db (it_db e) (char_of (254 :: nat) # rdb_len (it_db e)) s s1"
      using load_round_select [of s "it_db e" "?o @ ?r @ q" D E] Cons.prems(2,3) eo(2) by (auto simp: rdb_select_def)
    then show ?thesis using that [of s1] False by (simp add: rdb_select_def load_rounds.simps [of D E acc s])
  qed
  have r1: "\<not> routine_cb s1" "sn_rest s1 = ?o @ ?r @ q" "current_db s1 = it_db e"
    using took_dbD [OF s1(2)] Cons.prems(2,3) by auto
  obtain s2 where s2: "load_round D E s1 = Some (Again (entry_calls e) s2)" "took_db (it_db e) ?o s1 s2"
    using load_round_object [OF r1(1,2) eo(1) r1(3)] by blast
  have r2: "\<not> routine_cb s2" "sn_rest s2 = rdb_entries D h (Some (it_db e)) es @ char_of (255 :: nat) # q"
      "current_db s2 = it_db e"
    using took_dbD [OF s2(2)] r1 by auto
  obtain s3 db where s3: "load_rounds D E (acc @ entry_calls e) s2
        = Some (True, (acc @ entry_calls e) @ concat (map entry_calls es), s3)" "took_db db ?r s2 s3"
    using Cons.IH [OF _ r2(1,2), of "acc @ entry_calls e"] Cons.prems(1) r2(3) by auto
  have "load_rounds D E acc s1 = load_rounds D E (acc @ entry_calls e) s2"
    using s2(1) by (simp add: load_rounds.simps [of D E acc s1])
  then show ?case
    using s1(1) s3(1) took_db_trans [OF s1(2) took_db_trans [OF s2(2) s3(2)]] by auto
qed

lemma version_text: "c_int (fst (strtoll (c_str ''0006''))) = 6"
  by code_simp

lemma RedisLoad_file:
  assumes "list_all (entry_ok D) es" "\<not> routine_cb s" "sn_rest s = rdb_file D h es" "sn_cksm s = 0"
  shows "\<exists>s'. RedisLoad D E s = Some (0, concat (map entry_calls es), s') \<and> \<not> sn_fp s' \<and> sn_rest s' = []"
proof -
  let ?s = "s\<lparr>current_db := 0\<rparr>" and ?c = "le_bytes 8 (unat (crc64 0 (rdb_body D h es)))"
  have r: "\<not> routine_cb ?s" "sn_rest ?s = ''REDIS0006'' @ rdb_entries D h None es @ char_of (255 :: nat) # ?c"
    using assms(2,3) by (simp_all add: rdb_file_def rdb_body_def del: le_bytes.simps)
  obtain s1 where s1: "Read E 9 ?s = (Some ''REDIS0006'', s1)" "took ''REDIS0006'' ?s s1"
    using Read_take [OF r, of 9 E] by auto
  have r1: "\<not> routine_cb s1" "sn_rest s1 = rdb_entries D h None es @ char_of (255 :: nat) # ?c"
    using took_rest [OF s1(2)] r by auto
  obtain s2 db where s2: "load_rounds D E [] s1 = Some (True, concat (map entry_calls es), s2)"
      "took_db db (rdb_entries D h None es @ [char_of (255 :: nat)]) s1 s2"
    using load_rounds_entries [OF assms(1) r1, of E "[]"] by auto
  have ck: "sn_cksm s2 = crc64 0 (rdb_body D h es)"
  proof -
    have "crc64 0 (rdb_body D h es)
        = crc64 (crc64 (crc64 0 ''REDIS0006'') (rdb_entries D h None es)) [char_of (255 :: nat)]"
      unfolding rdb_body_def by (simp only: crc64_append)
    then show ?thesis using s1(2) s2(2) assms(4) by (simp add: took_db_def took_def crc64_append)
  qed
  have r2: "\<not> routine_cb s2" "sn_rest s2 = ?c @ []" using took_dbD [OF s2(2)] r1 by auto
  obtain s3 where s3: "Read E 8 s2 = (Some ?c, s3)" "took ?c s2 s3" using Read_take [OF r2, of 8 E] by auto
  have "sn_rest s3 = []" using took_rest [OF s3(2)] r2 by auto
  moreover have "le_val ?c = unat (crc64 0 (rdb_body D h es))"
    using unsigned_less [of "crc64 0 (rdb_body D h es)"] by (intro le_val_le_bytes_id) simp
  moreover have "take 5 ''REDIS0006'' = ''REDIS''" "drop 5 ''REDIS0006'' = ''0006''" by simp_all
  ultimately show ?thesis
    using s1(1) s2(1) s3(1) ck version_text
    by (simp add: RedisLoad_def snap_close_def del: le_bytes.simps)
qed

end
