(* ===== verification/Snapshot.thy ===== *)
theory Snapshot
  imports Snapshot_Save Repl_Master
begin

text \<open>
  The snapshots of the server (\<open>Snapshot\<close> of \<open>replication/snapshot.cpp\<close>): opening, renaming and removing
  files, \<open>Save\<close> and \<open>Load\<close>. A snapshot that was saved is under its default path and loads back from
  there.
\<close>

section \<open>State\<close>

datatype SnapshotType = REDIS_SNAPSHOT | MMKV_SNAPSHOT

definition type_nr :: "SnapshotType \<Rightarrow> int" where
  "type_nr t = (case t of REDIS_SNAPSHOT \<Rightarrow> 0 | MMKV_SNAPSHOT \<Rightarrow> 1)"

text \<open>The file system and \<open>g_snapshot_state\<close>.\<close>

record snap_store =
  files :: "string \<Rightarrow> bytes option"
  snapshot_saving :: "SnapshotType \<Rightarrow> bool"
  snapshot_offset :: "SnapshotType \<Rightarrow> nat"
  snapshot_cksm :: "SnapshotType \<Rightarrow> 64 word"
  last_save_mills :: nat

text \<open>
  What \<open>Save\<close> and \<open>Load\<close> see of the rest: the configuration, the process id and the times, the log, the
  paths that cannot be opened for writing, and \<open>Backup\<close> and \<open>Restore\<close> of the storage engine. The last
  two run in a thread while the caller polls: \<open>polls\<close> is how often it does.
\<close>

record 'd snap_world =
  repl_data_dir :: string
  snapshot_filename :: string
  repl_wal_size :: nat
  getpid :: nat
  now_secs :: nat
  now_millis :: nat
  wal_end :: nat
  wal_cksm :: "64 word"
  wal_valid :: "nat \<Rightarrow> 64 word \<Rightarrow> bool"
  no_write :: "string \<Rightarrow> bool"
  kv_entries :: "'d it_entry list"
  Backup :: "string \<Rightarrow> int \<times> bytes"
  Restore :: "string \<Rightarrow> int"
  polls :: nat

definition snap_clear :: "snap \<Rightarrow> snap" where
  "snap_clear s = s\<lparr>sn_fp := False, file_path := [], open_readonly := False, current_db := 0,
     processed_bytes := 0, routine_mills := 0, sn_cksm := 0, routine_cb := False\<rparr>"

definition snap_new :: snap where
  "snap_new = \<lparr>sn_fp = False, file_path = [], open_readonly = False, current_db = 0, processed_bytes = 0,
     routine_mills = 0, sn_cksm = 0, routine_cb = False, sn_rest = [], sn_out = [], sn_calls = 0, sn_writes = 0\<rparr>"

text \<open>Opening clears the status, the callback included; opening to write empties the file.\<close>

definition Open :: "'d snap_world \<Rightarrow> string \<Rightarrow> bool \<Rightarrow> snap_store \<Rightarrow> snap \<Rightarrow> int \<times> snap_store \<times> snap" where
  "Open W file read_only w s =
     (let s = (snap_clear s)\<lparr>file_path := file\<rparr>
      in if read_only
         then case files w file of
                None \<Rightarrow> (- 1, w, s)
              | Some d \<Rightarrow> (0, w, s\<lparr>sn_fp := True, open_readonly := True, sn_rest := d, sn_out := []\<rparr>)
         else if no_write W file then (- 1, w, s)
         else (0, w\<lparr>files := (files w)(file \<mapsto> [])\<rparr>,
               s\<lparr>sn_fp := True, open_readonly := False, sn_rest := [], sn_out := []\<rparr>))"

definition path_in :: "'d snap_world \<Rightarrow> string \<Rightarrow> string" where
  "path_in W name = repl_data_dir W @ ''/'' @ name"

definition default_name :: "'d snap_world \<Rightarrow> SnapshotType \<Rightarrow> string" where
  "default_name W t = snapshot_filename W @ ''_'' @ stringfromll (type_nr t)"

definition DefaultPath :: "'d snap_world \<Rightarrow> SnapshotType \<Rightarrow> string" where
  "DefaultPath W t = path_in W (default_name W t)"

definition Rename :: "'d snap_world \<Rightarrow> string \<Rightarrow> snap_store \<Rightarrow> snap \<Rightarrow> int \<times> snap_store \<times> snap" where
  "Rename W name w s =
     (let file = path_in W name
      in if file = file_path s then (0, w, s)
         else
           let s = snap_close s
           in case files w (file_path s) of
                None \<Rightarrow> (- 1, w, s)
              | Some d \<Rightarrow> (0, w\<lparr>files := (files w)(file \<mapsto> d, file_path s := None)\<rparr>, s\<lparr>file_path := file\<rparr>))"

definition Remove :: "snap_store \<Rightarrow> snap \<Rightarrow> snap_store \<times> snap" where
  "Remove w s = (w\<lparr>files := (files w)(file_path s := None)\<rparr>, snap_close s)"

text \<open>Minus one: no such file, or one of less than ten bytes; one for a redis snapshot.\<close>

definition IsRedisSnapshot :: "snap_store \<Rightarrow> string \<Rightarrow> int" where
  "IsRedisSnapshot w file =
     (case files w file of
        None \<Rightarrow> - 1
      | Some d \<Rightarrow> if length d < 10 then - 1 else if take 5 d = ''REDIS'' then 1 else 0)"

definition RenameDefault :: "'d snap_world \<Rightarrow> snap_store \<Rightarrow> snap \<Rightarrow> int \<times> snap_store \<times> snap" where
  "RenameDefault W w s =
     (let s = snap_close s;
          t = (if IsRedisSnapshot w (file_path s) \<noteq> 0 then REDIS_SNAPSHOT else MMKV_SNAPSHOT)
      in Rename W (default_name W t) w s)"

section \<open>Saving\<close>

text \<open>The polls of \<open>MMKVSave\<close> and \<open>MMKVLoad\<close>: the first callback that fails ends them.\<close>

primrec poll :: "snap_io \<Rightarrow> nat \<Rightarrow> snap \<Rightarrow> int \<times> snap" where
  "poll E 0 s = (0, s)"
| "poll E (Suc n) s =
     (let c = sn_calls s; s = s\<lparr>sn_calls := c + 1\<rparr>
      in if routine_cb s
         then if io_cb E c \<noteq> 0 then (io_cb E c, s) else poll E n (s\<lparr>routine_mills := io_after E c\<rparr>)
         else poll E n s)"

definition MMKVSave :: "'d snap_world \<Rightarrow> snap_io \<Rightarrow> string \<Rightarrow> snap_store \<Rightarrow> snap \<Rightarrow> int \<times> snap_store \<times> snap" where
  "MMKVSave W E file w s =
     (let (err, d) = Backup W file; w = w\<lparr>files := (files w)(file \<mapsto> d)\<rparr>; (r, s) = poll E (polls W) s
      in (if r \<noteq> 0 then r else err, w, s))"

definition tmp_name :: "'d snap_world \<Rightarrow> SnapshotType \<Rightarrow> string" where
  "tmp_name W t = repl_data_dir W @ ''/comms-'' @ dec_str (getpid W) @ ''-'' @ dec_str (now_secs W)
     @ ''-'' @ stringfromll (type_nr t) @ ''.snapshot''"

text \<open>Whether the last snapshot is used instead of a new one.\<close>

definition reuse_last :: "'d snap_world \<Rightarrow> SnapshotType \<Rightarrow> snap_store \<Rightarrow> bool" where
  "reuse_last W t w \<longleftrightarrow>
     wal_valid W (snapshot_offset w t) 0
     \<and> sub_size (wal_end W) (snapshot_offset w t) \<le> repl_wal_size W div 2
     \<and> wal_valid W (snapshot_offset w t) (snapshot_cksm w t)
     \<and> files w (path_in W (snapshot_filename W)) \<noteq> None"

text \<open>
  The result, whether the waiting slaves are sent the snapshot, and the new state. \<open>None\<close> also stands
  for a path that does not fit the buffer of 1024 bytes it is printed into.
\<close>

definition Save ::
    "'d dbl \<Rightarrow> 'd snap_world \<Rightarrow> snap_io \<Rightarrow> bool \<Rightarrow> SnapshotType \<Rightarrow> bool \<Rightarrow> snap_store \<Rightarrow> snap
     \<Rightarrow> (int \<times> bool \<times> snap_store \<times> snap) option" where
  "Save D W E force t cb w s =
     (if snapshot_saving w t then Some (ERR_SNAPSHOT_SAVING, False, w, s)
      else if \<not> force \<and> reuse_last W t w then Some (0, False, w, s)
      else if length (tmp_name W t) \<ge> 1024 then None
      else
        let (r, w, s) = Open W (tmp_name W t) False w s
        in if r \<noteq> 0 then Some (r, False, w, s)
           else do {
             let s = s\<lparr>routine_cb := cb\<rparr>;
             (ret, w, s) \<leftarrow>
               (if t = REDIS_SNAPSHOT
                then do {
                  (ret, s) \<leftarrow> RedisSave D E (kv_entries W) s;
                  Some (ret, w\<lparr>files := (files w)(file_path s \<mapsto> sn_out s)\<rparr>, s) }
                else Some (MMKVSave W E (tmp_name W t) w s));
             let w = w\<lparr>snapshot_offset := (snapshot_offset w)(t := wal_end W),
                       snapshot_cksm := (snapshot_cksm w)(t := wal_cksm W),
                       snapshot_saving := (snapshot_saving w)(t := False),
                       last_save_mills := now_millis W\<rparr>;
             if ret = 0
             then let (_, w, s) = Rename W (default_name W t) w s in Some (0, True, w, s)
             else Some (ret, False, w, snap_close s) })"

definition BGSave ::
    "'d dbl \<Rightarrow> 'd snap_world \<Rightarrow> snap_io \<Rightarrow> SnapshotType \<Rightarrow> snap_store \<Rightarrow> (int \<times> snap_store) option" where
  "BGSave D W E t w =
     (if snapshot_saving w t then Some (- 1, w)
      else map_option (\<lambda>(_, _, w, _). (0, w)) (Save D W E True t False w snap_new))"

definition LastSave :: "snap_store \<Rightarrow> nat" where "LastSave w = last_save_mills w div 1000 mod 2 ^ 32"

definition UpdateSnapshotOffsetCksm :: "SnapshotType \<Rightarrow> nat \<Rightarrow> 64 word \<Rightarrow> snap_store \<Rightarrow> snap_store" where
  "UpdateSnapshotOffsetCksm t off ck w =
     w\<lparr>snapshot_cksm := (snapshot_cksm w)(t := ck), snapshot_offset := (snapshot_offset w)(t := off)\<rparr>"

section \<open>Loading\<close>

definition MMKVLoad :: "'d snap_world \<Rightarrow> snap_io \<Rightarrow> string \<Rightarrow> snap \<Rightarrow> int \<times> snap" where
  "MMKVLoad W E file s = (let (r, s) = poll E (polls W) s in (if r \<noteq> 0 then r else Restore W file, s))"

text \<open>A missing file counts as a redis snapshot, since minus one is true.\<close>

definition Load ::
    "'d dbl \<Rightarrow> 'd snap_world \<Rightarrow> snap_io \<Rightarrow> string \<Rightarrow> bool \<Rightarrow> snap_store \<Rightarrow> snap
     \<Rightarrow> (int \<times> 'd kv_call list \<times> snap) option" where
  "Load D W E file cb w s =
     (let s = s\<lparr>routine_cb := cb\<rparr>
      in if IsRedisSnapshot w file \<noteq> 0
         then let (ret, _, s) = Open W file True w s
              in if ret \<noteq> 0 then Some (ret, [], s) else RedisLoad D E s
         else let (ret, s) = MMKVLoad W E file s in Some (ret, [], s))"

definition LoadDefault ::
    "'d dbl \<Rightarrow> 'd snap_world \<Rightarrow> snap_io \<Rightarrow> SnapshotType \<Rightarrow> bool \<Rightarrow> snap_store \<Rightarrow> snap
     \<Rightarrow> (int \<times> 'd kv_call list \<times> snap) option" where
  "LoadDefault D W E t cb w s = Load D W E (DefaultPath W t) cb w s"

section \<open>Properties\<close>

lemma rdb_file_magic: "take 5 (rdb_file D h es) = ''REDIS''" "10 \<le> length (rdb_file D h es)"
  by (simp_all add: rdb_file_def rdb_body_def)

lemma Load_rdb_file:
  assumes "files w file = Some (rdb_file D h es)" "list_all (entry_ok D) es"
  shows "\<exists>s'. Load D W E file cb w s = Some (0, concat (map entry_calls es), s') \<and> \<not> sn_fp s'"
proof -
  let ?s = "(snap_clear (s\<lparr>routine_cb := cb\<rparr>))\<lparr>file_path := file, sn_fp := True, open_readonly := True,
      sn_rest := rdb_file D h es, sn_out := []\<rparr>"
  have "IsRedisSnapshot w file = 1" using assms(1) rdb_file_magic [of D h es] by (simp add: IsRedisSnapshot_def)
  moreover have "Open W file True w (s\<lparr>routine_cb := cb\<rparr>) = (0, w, ?s)"
    using assms(1) by (simp add: Open_def Let_def snap_clear_def)
  moreover have "\<exists>s'. RedisLoad D E ?s = Some (0, concat (map entry_calls es), s') \<and> \<not> sn_fp s'"
    using RedisLoad_file [OF assms(2), of ?s h E] by (auto simp: snap_clear_def)
  ultimately show ?thesis by (simp add: Load_def)
qed

text \<open>
  C8: A snapshot loads back: when no write and no callback fails, a forced save returns zero, records the
  offset and the checksum of the log, and the file under the default path, loaded with any callback,
  makes exactly the calls of the storage engine that rebuild the keys the iterator yielded, in their
  order, with all strings, scores, databases and expire times.
\<close>

theorem saved_snapshot_loads_back:
  assumes "calm E" "list_all (entry_ok D) (kv_entries W)" "\<not> snapshot_saving w REDIS_SNAPSHOT"
    "\<not> no_write W (tmp_name W REDIS_SNAPSHOT)" "length (tmp_name W REDIS_SNAPSHOT) < 1024"
  shows "\<exists>w' s'. Save D W E True REDIS_SNAPSHOT cb w s = Some (0, True, w', s')
    \<and> snapshot_offset w' REDIS_SNAPSHOT = wal_end W \<and> snapshot_cksm w' REDIS_SNAPSHOT = wal_cksm W
    \<and> (\<forall>E' cb' s1. \<exists>s2. LoadDefault D W E' REDIS_SNAPSHOT cb' w' s1
          = Some (0, concat (map entry_calls (kv_entries W)), s2))"
proof -
  let ?t = "REDIS_SNAPSHOT" and ?p = "tmp_name W REDIS_SNAPSHOT" and ?d = "DefaultPath W REDIS_SNAPSHOT"
  let ?f = "rdb_file D (io_htab E) (kv_entries W)"
  define s1 where "s1 = (snap_clear s)\<lparr>file_path := ?p, sn_fp := True, open_readonly := False,
      sn_rest := [], sn_out := [], routine_cb := cb\<rparr>"
  obtain s2 where s2: "RedisSave D E (kv_entries W) s1 = Some (0, s2)" "sn_out s2 = ?f" "file_path s2 = ?p"
    using RedisSave_file [OF assms(1,2), of s1] by (auto simp: s1_def snap_clear_def)
  define w2 where "w2 = w\<lparr>files := (files w)(?p \<mapsto> ?f), snapshot_offset := (snapshot_offset w)(?t := wal_end W),
      snapshot_cksm := (snapshot_cksm w)(?t := wal_cksm W), snapshot_saving := (snapshot_saving w)(?t := False),
      last_save_mills := now_millis W\<rparr>"
  obtain r w3 s3 where w3: "Rename W (default_name W ?t) w2 s2 = (r, w3, s3)" by (metis prod_cases3)
  have f3: "files w3 ?d = Some ?f" "snapshot_offset w3 = snapshot_offset w2" "snapshot_cksm w3 = snapshot_cksm w2"
    using w3 s2(3) by (auto simp: Rename_def w2_def DefaultPath_def Let_def snap_close_def split: if_splits)
  have "Save D W E True ?t cb w s = Some (0, True, w3, s3)"
    using assms(3-5) s2 w3 by (simp add: Save_def Open_def s1_def [symmetric] w2_def Let_def)
  moreover have "\<exists>s2. LoadDefault D W E' ?t cb' w3 s1 = Some (0, concat (map entry_calls (kv_entries W)), s2)"
    for E' cb' s1
    using Load_rdb_file [OF f3(1) assms(2)] unfolding LoadDefault_def by blast
  ultimately show ?thesis using f3(2,3) by (auto simp: w2_def)
qed

text \<open>
  An unforced save never uses the last snapshot again: it looks for a file without the suffix of the
  type, which saving never creates, so without such a file it always saves like a forced one.
\<close>

theorem unforced_save_never_reuses:
  assumes "files w (path_in W (snapshot_filename W)) = None"
  shows "Save D W E False t cb w s = Save D W E True t cb w s"
  using assms by (simp add: Save_def reuse_last_def)


section \<open>Concrete runs\<close>

definition demo_dbl :: "int dbl" where
  "demo_dbl = \<lparr>is_nan = (\<lambda>_. False), is_finite = (\<lambda>_. True), is_negative = (\<lambda>d. d < 0), as_llong = Some,
     print_17g = stringfromll, scan_lg = string2ll, c_strtod = (\<lambda>_. 0), of_llong = id, neg_inf = 0, pos_inf = 0,
     not_a_number = 0, unset = 0\<rparr>"

definition demo_io :: "(nat \<Rightarrow> nat option) \<Rightarrow> snap_io" where
  "demo_io f = \<lparr>io_now = id, io_after = id, io_cb = (\<lambda>_. 0), io_fwrite = f, io_junk = (\<lambda>_ n. replicate n NUL),
     io_htab = (\<lambda>_. 0)\<rparr>"

definition demo_entries :: "int it_entry list" where
  "demo_entries =
     [\<lparr>it_db = 0, it_key = ''s'', it_ttl = 1000, it_value = ItString ''v''\<rparr>,
      \<lparr>it_db = 2, it_key = ''z'', it_ttl = 0, it_value = ItZSet [(3, ''m'')]\<rparr>]"

definition demo_world :: "int it_entry list \<Rightarrow> int snap_world" where
  "demo_world es = \<lparr>repl_data_dir = ''d'', snapshot_filename = ''snap'', repl_wal_size = 100, getpid = 1,
     now_secs = 2, now_millis = 2000, wal_end = 7, wal_cksm = 5, wal_valid = (\<lambda>_ _. True), no_write = (\<lambda>_. False),
     kv_entries = es, Backup = (\<lambda>_. (0, [])), Restore = (\<lambda>_. 0), polls = 0\<rparr>"

definition demo_store :: snap_store where
  "demo_store = \<lparr>files = (\<lambda>_. None), snapshot_saving = (\<lambda>_. False), snapshot_offset = (\<lambda>_. 0),
     snapshot_cksm = (\<lambda>_. 0), last_save_mills = 0\<rparr>"

lemma demo_reads_back: "dbl_reads_back demo_dbl 3"
  by (simp add: dbl_reads_back_def demo_dbl_def double_text_def) code_simp

theorem saved_snapshot_loads_back_witness:
  "\<exists>w' s' s2. Save demo_dbl (demo_world demo_entries) (demo_io (\<lambda>_. None)) True REDIS_SNAPSHOT True demo_store snap_new
      = Some (0, True, w', s')
    \<and> LoadDefault demo_dbl (demo_world demo_entries) (demo_io (\<lambda>_. None)) REDIS_SNAPSHOT True w' snap_new
      = Some (0, [KvDel 0 ''s'', KvSet 0 ''s'' ''v'', KvPExpire 0 ''s'' 1000, KvDel 2 ''z'', KvZAdd 2 ''z'' 3 ''m''], s2)"
proof -
  have ok: "list_all (entry_ok demo_dbl) demo_entries"
    using demo_reads_back by (simp add: demo_entries_def entry_ok_def value_ok_def fits_def)
  have c: "concat (map entry_calls demo_entries)
      = [KvDel 0 ''s'', KvSet 0 ''s'' ''v'', KvPExpire 0 ''s'' 1000, KvDel 2 ''z'', KvZAdd 2 ''z'' 3 ''m'']"
    by (simp add: demo_entries_def entry_calls_def value_calls_def)
  have l: "length (tmp_name (demo_world demo_entries) REDIS_SNAPSHOT) < 1024"
    by (simp add: tmp_name_def demo_world_def type_nr_def) code_simp
  show ?thesis
    using saved_snapshot_loads_back [of "demo_io (\<lambda>_. None)" demo_dbl "demo_world demo_entries" demo_store True snap_new]
      ok l unfolding c [symmetric]
    by (simp add: demo_world_def demo_store_def demo_io_def calm_def) metis
qed

text \<open>
  Only the write of the length of the first value fails.
\<close>

definition two_strings :: "int it_entry list" where
  "two_strings = [\<lparr>it_db = 0, it_key = ''k'', it_ttl = 0, it_value = ItString ''v''\<rparr>,
      \<lparr>it_db = 0, it_key = ''l'', it_ttl = 0, it_value = ItString ''w''\<rparr>]"

definition one_failure :: snap_io where
  "one_failure = demo_io (\<lambda>n. if n = 6 then Some 0 else None)"

definition bad_file :: bytes where
  "bad_file = ''REDIS0006'' @ [char_of (254 :: nat), NUL, NUL, char_of (1 :: nat), CHR ''k'', NUL, char_of (1 :: nat),
     CHR ''l'', char_of (1 :: nat), CHR ''w'']"

lemma not_integers: "TryIntegerEncoding ''k'' = []" "TryIntegerEncoding ''l'' = []" "TryIntegerEncoding ''v'' = []"
  "TryIntegerEncoding ''w'' = []"
  by code_simp+

lemma char_of_nul: "(char_of (0 :: nat) :: char) = NUL"
  by (simp add: char_of_def bit_0)

lemma le_bytes_ne: "le_bytes 8 n \<noteq> []"
  using length_le_bytes [of 8 n] by force

lemma swallowed_save:
  "\<exists>s' r. RedisSave demo_dbl one_failure two_strings (snap_new\<lparr>sn_fp := True\<rparr>) = Some (0, s')
     \<and> sn_out s' = bad_file @ r \<and> length r = 9"
  by (simp add: RedisSave_def two_strings_def one_failure_def demo_io_def bad_file_def snap_new_def Write_def
      write_loop.simps CHUNK_def RedisWriteMagicHeader_def write_key_def and_then_def RedisWriteType_def
      RedisWriteLen_def RedisWriteKeyType_def key_type_def RedisWriteRawString_def RedisWriteStringObject_def
      write_value_def write_verbatim_def not_integers Let_def snap_close_def char_of_nul le_bytes_ne del: crc64.simps)

lemma version_number: "c_int (fst (strtoll ''0006'')) = 6"
  by code_simp

lemma bad_file_load:
  assumes "length r = 9"
  shows "\<exists>s2. RedisLoad demo_dbl E (snap_new\<lparr>sn_fp := True, sn_rest := bad_file @ r\<rparr>)
    = Some (- 1, [KvDel 0 ''k'', KvSet 0 ''k'' []], s2)"
  using assms
  by (simp add: RedisLoad_def bad_file_def snap_new_def Read_def read_loop.simps CHUNK_def version_number
      load_rounds.simps load_round_def read_expire_def RedisReadType_def RedisReadLen_def RedisReadString_def
      RedisLoadObject_def load_aggregate_def RDB_LENERR_def Let_def snap_close_def del: crc64.simps)


lemma unforced_save_never_reuses_witness:
  "Save demo_dbl (demo_world []) (demo_io (\<lambda>_. None)) False REDIS_SNAPSHOT False demo_store snap_new
     = Save demo_dbl (demo_world []) (demo_io (\<lambda>_. None)) True REDIS_SNAPSHOT False demo_store snap_new"
  by (rule unforced_save_never_reuses) (simp add: demo_store_def)

end
