(* ===== verification/Snapshot_Packed.thy ===== *)
theory Snapshot_Packed
  imports Snapshot_Load
begin

text \<open>
  What the loader makes of packed objects: lists and hashes built by appending to a packed list come
  back element by element, and so do string maps, while the members of a packed set of integers are
  all lost.
\<close>

section \<open>Packed lists\<close>

lemma load_ziplist_image:
  "prev < 2 ^ 32 \<Longrightarrow> \<forall>t \<in> set (s # ss). length t < 2 ^ 31
    \<Longrightarrow> load_ziplist (zl_image prev (s # ss) @ zl_end # q) acc = Some (acc @ s # ss)"
proof (induction ss arbitrary: prev s acc)
  case Nil
  then show ?case
    using image_next [of prev s "[]" q] by (subst load_ziplist.simps) simp
next
  case (Cons t ss)
  have "length (zl_entry prev s) < 2 ^ 32" using zl_entry_length [of prev s] Cons.prems(2) by auto
  then show ?case
    using image_next [OF Cons.prems, of q] Cons.IH [of "length (zl_entry prev s)" t "acc @ [s]"] Cons.prems(2)
    by (subst load_ziplist.simps) simp
qed

lemma built_start:
  assumes "zl_built ss zl" "zl_room ss < 2 ^ 32" "\<forall>t \<in> set ss. length t < 2 ^ 31"
  shows "ziplistIndex0 (zl @ q) = Some (if ss = [] then None else Some (zl_image 0 ss @ zl_end # q))"
proof -
  obtain h where z: "zl = h @ zl_image 0 ss @ [zl_end]" "length h = 10"
    using assms(1) unfolding zl_built_def by (metis append.assoc length_append length_le_bytes numeral_Bit0 add_numeral_left numeral_plus_numeral semiring_norm(2,6,3,4))
  have "adv 10 (zl @ q) = Some (zl_image 0 ss @ zl_end # q)" by (simp add: z adv_def)
  then show ?thesis
    using image_first [of ss 0 "zl_end # q"] assms(3) by (auto simp: ziplistIndex0_def at_end_def)
qed

definition push_all :: "string list \<Rightarrow> bytes option" where
  "push_all ss = foldl (\<lambda>z s. Option.bind z (\<lambda>zl. ziplistPushTail zl s)) (Some ziplistNew) ss"

lemma push_all_built:
  assumes "zl_room ss < 2 ^ 32" "\<forall>t \<in> set ss. length t < 2 ^ 31"
  obtains zl where "push_all ss = Some zl" "zl_built ss zl"
  using ziplist_pushes [OF assms] by (auto simp: push_all_def)

text \<open>
  C10: A packed list loads back: appending any strings to an empty packed list, integers among them, gives a
  block from which the loader pushes exactly these strings, in order.
\<close>

theorem packed_list_loads:
  assumes "zl_room ss < 2 ^ 32" "\<forall>t \<in> set ss. length t < 2 ^ 31"
  shows "\<exists>zl. push_all ss = Some zl \<and> RedisLoadListZipList db key (zl @ [NUL]) = Some (map (KvRPush db key) ss)"
proof -
  obtain zl where zl: "push_all ss = Some zl" "zl_built ss zl" using push_all_built [OF assms] .
  show ?thesis
  proof (cases ss)
    case Nil
    then show ?thesis using zl built_start [OF zl(2) assms, of "[NUL]"] by (simp add: RedisLoadListZipList_def)
  next
    case (Cons s us)
    have "load_ziplist (zl_image 0 ss @ zl_end # [NUL]) [] = Some ss"
      using load_ziplist_image [of 0 s us "[NUL]" "[]"] assms(2) Cons by simp
    then show ?thesis
      using zl built_start [OF zl(2) assms, of "[NUL]"] Cons by (simp add: RedisLoadListZipList_def)
  qed
qed

theorem packed_list_loads_witness:
  "\<exists>zl. push_all [''a'', ''-7'', ''100000''] = Some zl
     \<and> RedisLoadListZipList 0 ''k'' (zl @ [NUL]) = Some [KvRPush 0 ''k'' ''a'', KvRPush 0 ''k'' ''-7'', KvRPush 0 ''k'' ''100000'']"
  using packed_list_loads [of "[''a'', ''-7'', ''100000'']" 0 "''k''"] by (simp add: zl_room_def)

definition flat_pairs :: "(string \<times> string) list \<Rightarrow> string list" where
  "flat_pairs ps = concat (map (\<lambda>(f, v). [f, v]) ps)"

lemma load_hash_image:
  "prev < 2 ^ 32 \<Longrightarrow> \<forall>t \<in> set (flat_pairs ((f, v) # ps)). length t < 2 ^ 31
    \<Longrightarrow> load_hash_ziplist (zl_image prev (flat_pairs ((f, v) # ps)) @ zl_end # q) acc = Some (acc @ (f, v) # ps)"
proof (induction ps arbitrary: prev f v acc)
  case Nil
  have "length (zl_entry prev f) < 2 ^ 32" using zl_entry_length [of prev f] Nil.prems(2) by (auto simp: flat_pairs_def)
  then show ?case
    using image_next [of prev f "[v]" q] image_next [of "length (zl_entry prev f)" v "[]" q] Nil.prems
    by (subst load_hash_ziplist.simps) (simp add: flat_pairs_def)
next
  case (Cons p ps)
  obtain g w where p: "p = (g, w)" by (cases p)
  let ?l = "length (zl_entry prev f)"
  have l: "?l < 2 ^ 32" "length (zl_entry ?l v) < 2 ^ 32"
    using zl_entry_length [of prev f] zl_entry_length [of ?l v] Cons.prems(2) by (auto simp: flat_pairs_def)
  show ?case
    using image_next [of prev f "v # flat_pairs (p # ps)" q] image_next [of ?l v "flat_pairs (p # ps)" q]
      Cons.IH [of "length (zl_entry ?l v)" g w "acc @ [(f, v)]"] Cons.prems l
    by (subst load_hash_ziplist.simps) (simp add: flat_pairs_def p)
qed

theorem packed_hash_loads:
  assumes "zl_room (flat_pairs ps) < 2 ^ 32" "\<forall>(f, v) \<in> set ps. length f < 2 ^ 31 \<and> length v < 2 ^ 31"
  shows "\<exists>zl. push_all (flat_pairs ps) = Some zl
    \<and> RedisLoadHashZipList db key (zl @ [NUL]) = Some (map (\<lambda>(f, v). KvHSet db key f v) ps)"
proof -
  have s: "\<forall>t \<in> set (flat_pairs ps). length t < 2 ^ 31" using assms(2) by (auto simp: flat_pairs_def)
  obtain zl where zl: "push_all (flat_pairs ps) = Some zl" "zl_built (flat_pairs ps) zl"
    using push_all_built [OF assms(1) s] .
  note b = built_start [OF zl(2) assms(1) s, of "[NUL]"]
  show ?thesis
  proof (cases ps)
    case Nil
    then show ?thesis using zl b by (simp add: RedisLoadHashZipList_def flat_pairs_def)
  next
    case (Cons p us)
    obtain f v where p: "p = (f, v)" by (cases p)
    have "load_hash_ziplist (zl_image 0 (flat_pairs ps) @ zl_end # [NUL]) [] = Some ps"
      using load_hash_image [of 0 f v us "[NUL]" "[]"] s Cons p by simp
    moreover have "flat_pairs ps \<noteq> []" using Cons p by (simp add: flat_pairs_def)
    ultimately show ?thesis using zl b by (simp add: RedisLoadHashZipList_def)
  qed
qed

lemma packed_hash_loads_witness:
  "\<exists>zl. push_all (flat_pairs [(''f'', ''12'')]) = Some zl
     \<and> RedisLoadHashZipList 1 ''h'' (zl @ [NUL]) = Some [KvHSet 1 ''h'' ''f'' ''12'']"
  using packed_hash_loads [of "[(''f'', ''12'')]" 1 "''h''"] by (simp add: zl_room_def flat_pairs_def)

section \<open>String maps\<close>

lemma load_zipmap_image:
  "\<forall>(f, v, free) \<in> set es. length f < 2 ^ 31 \<and> length v < 2 ^ 31 \<and> length free < 256
    \<Longrightarrow> load_zipmap (concat (map (\<lambda>(f, v, free). zm_entry f v free) es) @ zl_end # q) acc
      = Some (acc @ map (\<lambda>(f, v, _). (f, v)) es)"
proof (induction es arbitrary: acc)
  case Nil
  have "zipmapNext (zl_end # q) = Some None" by (simp add: zipmapNext_def)
  then show ?case by (simp add: load_zipmap.simps [of "zl_end # q"])
next
  case (Cons e es)
  obtain f v free where e: "e = (f, v, free)" by (cases e)
  show ?case
    using zipmapNext_entry [of f v free] Cons by (subst load_zipmap.simps) (simp add: e)
qed

theorem packed_map_loads:
  assumes "\<forall>(f, v, free) \<in> set es. length f < 2 ^ 31 \<and> length v < 2 ^ 31 \<and> length free < 256"
  shows "RedisLoadHashZipMap db key (n # concat (map (\<lambda>(f, v, free). zm_entry f v free) es) @ [zl_end, NUL])
    = Some (map (\<lambda>(f, v, _). KvHSet db key f v) es)"
  using load_zipmap_image [OF assms, of "[NUL]" "[]"]
  by (simp add: RedisLoadHashZipMap_def zipmapRewind_def adv_def split_beta comp_def)

section \<open>Sets of integers\<close>

lemma load_intset_some:
  assumes "load_intset data ii acc = Some y"
  shows "\<exists>i. intsetGet data i \<noteq> Some None"
proof (rule load_intset.raw_induct [OF _ assms])
  fix f :: "bytes \<Rightarrow> nat \<Rightarrow> int list \<Rightarrow> int list option" and data ii acc y
  assume "\<And>data ii acc y. f data ii acc = Some y \<Longrightarrow> \<exists>i. intsetGet data i \<noteq> Some None"
    and "do { r \<leftarrow> intsetGet data (ii mod 2 ^ 32); case r of Some _ \<Rightarrow> Some acc | None \<Rightarrow> f data (ii + 1) (acc @ [0]) } = Some y"
  then show "\<exists>i. intsetGet data i \<noteq> Some None"
    by (cases "intsetGet data (ii mod 2 ^ 32) = Some None") auto
qed

lemma load_intset_endless:
  assumes "\<And>i. intsetGet data i = Some None"
  shows "load_intset data ii acc = None"
  using load_intset_some [of data ii acc] assms by (cases "load_intset data ii acc") auto

text \<open>
  C38: Packed sets of integers are lost: the loop over the members ends at the first one it finds, so a set
  with members loads as no member at all, and the loader never returns from an empty one.
\<close>

theorem intset_members_lost:
  assumes "k \<in> {2, 4, 8}" "length vs < 2 ^ 32" "\<forall>v \<in> set vs. - (256 ^ k) \<le> 2 * v \<and> 2 * v < 256 ^ k"
  shows "RedisLoadSetIntSet db key (intset_image k vs @ [NUL]) = (if vs = [] then None else Some [])"
proof -
  have g: "intsetGet (intset_image k vs @ [NUL]) i = Some (if i < length vs then Some (vs ! i) else None)" for i
    using intsetGet_image [OF assms] .
  show ?thesis
  proof (cases "vs = []")
    case True
    then show ?thesis using load_intset_endless [of "intset_image k vs @ [NUL]"] g by (simp add: RedisLoadSetIntSet_def)
  next
    case False
    then have "load_intset (intset_image k vs @ [NUL]) 0 [] = Some []"
      using g [of 0] by (subst load_intset.simps) simp
    then show ?thesis using False by (simp add: RedisLoadSetIntSet_def)
  qed
qed

theorem intset_members_lost_witness:
  "RedisLoadSetIntSet 0 ''s'' (intset_image 2 [1, 2, 3] @ [NUL]) = Some []"
  using intset_members_lost [of 2 "[1, 2, 3]" 0 "''s''"] by simp

end
