(* ===== verification/Timer.thy ===== *)
theory Timer
  imports Comms_Prelude "HOL-Library.Monad_Syntax"
begin

text \<open>
  The timer of the event loop: the queue of \<open>common/channel/timer/timer_task_queue.cpp\<close>, a binary heap
  in an array that starts at index one, with the index of each task stored in the task, and the timer of
  \<open>common/channel/timer/timer.cpp\<close>. The queue always holds the earliest task first, refines a set of
  tasks, and running the timer executes what is due in the order of time.
\<close>

section \<open>Tasks\<close>

datatype TimeUnit = NANOS | MICROS | MILLIS | SECONDS | MINUTES | HOURS | DAYS

definition millistime :: "nat \<Rightarrow> TimeUnit \<Rightarrow> nat" where
  "millistime time u =
     (case u of
        NANOS \<Rightarrow> time div 1000000 + (if time mod 1000000 \<ge> 500000 then 1 else 0)
      | MICROS \<Rightarrow> time div 1000 + (if time mod 1000 \<ge> 500 then 1 else 0)
      | MILLIS \<Rightarrow> time
      | SECONDS \<Rightarrow> c_size (int time * 1000)
      | MINUTES \<Rightarrow> c_size (int time * 1000 * 60)
      | HOURS \<Rightarrow> c_size (int time * 1000 * 60 * 60)
      | DAYS \<Rightarrow> c_size (int time * 1000 * 60 * 60 * 24))"

datatype TimerTaskState = VIRGIN | SCHEDULED | EXECUTED | CANCELLED

record timer_task =
  tk_state :: TimerTaskState
  tk_delay :: int
  tk_period :: int
  tk_unit :: TimeUnit
  tk_next :: nat
  tk_runner :: nat
  tk_index :: nat

text \<open>
  A task is allocated when it is scheduled and deleted when it is taken out of the table, so the table
  \<open>m_tasks\<close> is also the memory of the tasks and the identifier of a task stands for its address; zero is
  the null pointer. \<open>clock\<close> and \<open>ticks\<close> give the time, \<open>ran\<close> records the runners that were executed.
\<close>

record timer =
  m_queue :: "nat \<Rightarrow> nat"
  m_queue_capacity :: nat
  m_size :: nat
  m_tasks :: "nat \<Rightarrow> timer_task option"
  base_id :: nat
  clock :: "nat \<Rightarrow> nat"
  ticks :: nat
  ran :: "nat list"

definition task :: "nat \<Rightarrow> timer \<Rightarrow> timer_task" where
  "task p t = the (m_tasks t p)"

definition next_time :: "timer \<Rightarrow> nat \<Rightarrow> nat" where
  "next_time t k = tk_next (task (m_queue t k) t)"

definition upd_task :: "nat \<Rightarrow> (timer_task \<Rightarrow> timer_task) \<Rightarrow> timer \<Rightarrow> timer" where
  "upd_task p f t = t\<lparr>m_tasks := (m_tasks t)(p := map_option f (m_tasks t p))\<rparr>"

section \<open>The queue\<close>

definition set_slot :: "nat \<Rightarrow> nat \<Rightarrow> timer \<Rightarrow> timer" where
  "set_slot k p t = upd_task p (\<lambda>x. x\<lparr>tk_index := k\<rparr>) (t\<lparr>m_queue := (m_queue t)(k := p)\<rparr>)"

definition swap_slots :: "nat \<Rightarrow> nat \<Rightarrow> timer \<Rightarrow> timer" where
  "swap_slots j k t = (let pj = m_queue t j; pk = m_queue t k in set_slot k pj (set_slot j pk t))"

fun FixUp :: "nat \<Rightarrow> timer \<Rightarrow> timer" where
  "FixUp k t =
     (if k > 1
      then let j = k div 2
           in if next_time t j \<le> next_time t k then t else FixUp j (swap_slots j k t)
      else t)"

definition smaller_child :: "nat \<Rightarrow> timer \<Rightarrow> nat" where
  "smaller_child j t = (if j < m_size t \<and> next_time t j > next_time t (j + 1) then j + 1 else j)"

lemma m_size_swap [simp]: "m_size (swap_slots j k t) = m_size t"
  by (simp add: swap_slots_def set_slot_def upd_task_def Let_def)

function FixDown :: "nat \<Rightarrow> timer \<Rightarrow> timer" where
  "FixDown k t =
     (if 2 * k \<le> m_size t \<and> 2 * k > 0
      then let j = smaller_child (2 * k) t
           in if next_time t k \<le> next_time t j then t else FixDown j (swap_slots j k t)
      else t)"
  by pat_completeness auto
termination
  by (relation "measure (\<lambda>(k, t). Suc (m_size t) - k)") (auto simp: smaller_child_def)

declare FixUp.simps [simp del] FixDown.simps [simp del]

definition queue_new :: "(nat \<Rightarrow> nat) \<Rightarrow> timer" where
  "queue_new clk = \<lparr>m_queue = (\<lambda>_. 0), m_queue_capacity = 128, m_size = 0, m_tasks = (\<lambda>_. None), base_id = 1,
     clock = clk, ticks = 0, ran = []\<rparr>"

definition queue_add :: "nat \<Rightarrow> timer \<Rightarrow> timer" where
  "queue_add p t =
     (let t = (if m_size t + 1 = m_queue_capacity t then t\<lparr>m_queue_capacity := 2 * m_queue_capacity t\<rparr> else t);
          index = m_size t + 1
      in FixUp index (set_slot index p (t\<lparr>m_size := index\<rparr>)))"

definition queue_clear :: "timer \<Rightarrow> timer" where
  "queue_clear t = t\<lparr>m_queue := (\<lambda>k. if 1 \<le> k \<and> k \<le> m_size t then 0 else m_queue t k), m_size := 0\<rparr>"

definition RescheduleMin :: "nat \<Rightarrow> timer \<Rightarrow> timer" where
  "RescheduleMin newTime t = FixDown 1 (upd_task (m_queue t 1) (\<lambda>x. x\<lparr>tk_next := newTime\<rparr>) t)"

definition FindTaskIndex :: "nat \<Rightarrow> timer \<Rightarrow> int" where
  "FindTaskIndex p t =
     (if m_size t = 0 then - 1
      else if p \<noteq> 0 \<and> tk_index (task p t) > 0 \<and> m_queue t (tk_index (task p t)) = p
      then int (tk_index (task p t))
      else - 1)"

definition RescheduleTask :: "nat \<Rightarrow> nat \<Rightarrow> timer \<Rightarrow> bool \<times> timer" where
  "RescheduleTask p newTime t =
     (let index = FindTaskIndex p t
      in if index > 0
         then let greater = newTime > tk_next (task p t);
                  t = upd_task p (\<lambda>x. x\<lparr>tk_next := newTime\<rparr>) t
              in (True, if greater then FixDown (nat index) t else FixUp (nat index) t)
         else (False, t))"

definition queue_shrink :: "timer \<Rightarrow> timer" where
  "queue_shrink t = t\<lparr>m_queue := (m_queue t)(m_size t := 0), m_size := m_size t - 1\<rparr>"

definition RemoveMin :: "timer \<Rightarrow> timer" where
  "RemoveMin t = (if m_size t = 0 then t else FixDown 1 (queue_shrink (set_slot 1 (m_queue t (m_size t)) t)))"

definition QuickRemove :: "nat \<Rightarrow> timer \<Rightarrow> timer" where
  "QuickRemove i t = queue_shrink (set_slot i (m_queue t (m_size t)) t)"

definition GetMin :: "timer \<Rightarrow> nat" where "GetMin t = m_queue t 1"

fun heapify_from :: "nat \<Rightarrow> timer \<Rightarrow> timer" where
  "heapify_from 0 t = t"
| "heapify_from (Suc i) t = heapify_from i (FixDown (Suc i) t)"

definition Heapify :: "timer \<Rightarrow> timer" where "Heapify t = heapify_from (m_size t div 2) t"

section \<open>The timer\<close>

definition time_now :: "timer \<Rightarrow> nat \<times> timer" where
  "time_now t = (clock t (ticks t), t\<lparr>ticks := ticks t + 1\<rparr>)"

definition GenerateTimerTaskID :: "timer \<Rightarrow> nat \<times> timer" where
  "GenerateTimerTaskID t =
     (let b = (if base_id t \<ge> 0x7FFFFFFF then 1 else base_id t) in (b, t\<lparr>base_id := b + 1\<rparr>))"

definition GetNearestTaskTriggerTime :: "timer \<Rightarrow> int" where
  "GetNearestTaskTriggerTime t = (if GetMin t = 0 then - 1 else c_int64 (int (tk_next (task (GetMin t) t))))"

definition DoSchedule :: "nat \<Rightarrow> int \<Rightarrow> int \<Rightarrow> TimeUnit \<Rightarrow> timer \<Rightarrow> int \<times> timer" where
  "DoSchedule runner delay period u t =
     (let (tid, t) = GenerateTimerTaskID t
      in if m_tasks t tid \<noteq> None then (- 1, t)
         else
           let (now, t) = time_now t;
               x = \<lparr>tk_state = SCHEDULED, tk_delay = delay, tk_period = period, tk_unit = u,
                    tk_next = c_size (int now + int (millistime (c_size delay) u)), tk_runner = runner, tk_index = 0\<rparr>
           in (int tid, queue_add tid (t\<lparr>m_tasks := (m_tasks t)(tid \<mapsto> x)\<rparr>)))"

definition Cancel :: "nat \<Rightarrow> timer \<Rightarrow> bool \<times> timer" where
  "Cancel tid t = (m_tasks t tid \<noteq> None, upd_task tid (\<lambda>x. x\<lparr>tk_state := CANCELLED\<rparr>) t)"

definition GetAlivedTaskNumber :: "timer \<Rightarrow> nat" where "GetAlivedTaskNumber t = m_size t"

definition GetNextTriggerMillsTime :: "nat \<Rightarrow> timer \<Rightarrow> int" where
  "GetNextTriggerMillsTime tid t = (case m_tasks t tid of None \<Rightarrow> - 1 | Some x \<Rightarrow> c_int64 (int (tk_next x)))"

text \<open>\<open>None\<close> is a failed assertion: the task is in the table but not in the queue.\<close>

definition AdjustNextTriggerTime :: "nat \<Rightarrow> int \<Rightarrow> TimeUnit \<Rightarrow> timer \<Rightarrow> (bool \<times> timer) option" where
  "AdjustNextTriggerTime tid value u t =
     (case m_tasks t tid of
        None \<Rightarrow> Some (False, t)
      | Some x \<Rightarrow>
          let a = int (millistime (nat \<bar>value\<bar>) u);
              newTime = c_size (if value > 0 then int (tk_next x) + a else int (tk_next x) - a);
              (ret, t) = RescheduleTask tid newTime t
          in if ret then Some (True, t) else None)"

definition DoTerminated :: "nat \<Rightarrow> timer \<Rightarrow> timer" where
  "DoTerminated tid t = t\<lparr>m_tasks := (m_tasks t)(tid := None)\<rparr>"

text \<open>What a runner does to the timer is a list of calls, given by the runner and what ran before it.\<close>

datatype timer_call = CSchedule nat int int TimeUnit | CCancel nat | CAdjust nat int TimeUnit

definition timer_call :: "timer_call \<Rightarrow> timer \<Rightarrow> timer option" where
  "timer_call c t =
     (case c of
        CSchedule r d p u \<Rightarrow> Some (snd (DoSchedule r d p u t))
      | CCancel tid \<Rightarrow> Some (snd (Cancel tid t))
      | CAdjust tid v u \<Rightarrow> map_option snd (AdjustNextTriggerTime tid v u t))"

fun timer_calls :: "timer_call list \<Rightarrow> timer \<Rightarrow> timer option" where
  "timer_calls [] t = Some t"
| "timer_calls (c # cs) t = Option.bind (timer_call c t) (timer_calls cs)"

definition run_task :: "(nat \<Rightarrow> nat list \<Rightarrow> timer_call list) \<Rightarrow> nat \<Rightarrow> timer \<Rightarrow> timer option" where
  "run_task R r t = timer_calls (R r (ran t)) (t\<lparr>ran := ran t @ [r]\<rparr>)"

text \<open>
  One round of \<open>Routine\<close>: the result, or the timer for the next round. A periodic task is rescheduled
  before it runs, any other is taken out of the queue and deleted after it ran. Runner zero is the null
  pointer.
\<close>

definition timer_round :: "(nat \<Rightarrow> nat list \<Rightarrow> timer_call list) \<Rightarrow> timer \<Rightarrow> ((int \<times> timer) + timer) option" where
  "timer_round R t =
     (if m_size t = 0 then Some (Inl (- 1, t))
      else
        let tid = GetMin t; x = task tid t; (now, t) = time_now t
        in if tk_next x > now then Some (Inl (c_int64 (int (tk_next x) - int now), t))
           else if tk_runner x = 0 then Some (Inr (RemoveMin t))
           else if tk_state x = SCHEDULED
           then if tk_period x > 0
                then let (now, t) = time_now t;
                         t = RescheduleMin (c_size (int now + int (millistime (c_size (tk_period x)) (tk_unit x)))) t
                     in map_option Inr (run_task R (tk_runner x) t)
                else let t = upd_task tid (\<lambda>x. x\<lparr>tk_state := EXECUTED\<rparr>) (RemoveMin t)
                     in map_option (\<lambda>t. Inr (DoTerminated tid t)) (run_task R (tk_runner x) t)
           else Some (Inr (DoTerminated tid (RemoveMin t))))"

partial_function (option) Routine ::
    "(nat \<Rightarrow> nat list \<Rightarrow> timer_call list) \<Rightarrow> timer \<Rightarrow> (int \<times> timer) option" where
  "Routine R t = do { r \<leftarrow> timer_round R t; case r of Inl res \<Rightarrow> Some res | Inr t \<Rightarrow> Routine R t }"


section \<open>The heap\<close>

text \<open>
  \<open>up_ok\<close> and \<open>down_ok\<close>: the heap is in order but for the entry at \<open>k\<close>, which may be too early, or too
  late, and what is below it is in order with what is above it.
\<close>

definition heap_order :: "(nat \<Rightarrow> nat) \<Rightarrow> nat \<Rightarrow> bool" where
  "heap_order f n \<longleftrightarrow> (\<forall>i. 2 \<le> i \<and> i \<le> n \<longrightarrow> f (i div 2) \<le> f i)"

definition up_ok :: "nat \<Rightarrow> (nat \<Rightarrow> nat) \<Rightarrow> nat \<Rightarrow> bool" where
  "up_ok k f n \<longleftrightarrow> (\<forall>i. 2 \<le> i \<and> i \<le> n \<and> i \<noteq> k \<longrightarrow> f (i div 2) \<le> f i)
     \<and> (\<forall>i. 2 \<le> k \<and> i \<le> n \<and> i div 2 = k \<longrightarrow> f (k div 2) \<le> f i)"

definition down_ok :: "nat \<Rightarrow> (nat \<Rightarrow> nat) \<Rightarrow> nat \<Rightarrow> bool" where
  "down_ok k f n \<longleftrightarrow> (\<forall>i. 2 \<le> i \<and> i \<le> n \<and> i div 2 \<noteq> k \<longrightarrow> f (i div 2) \<le> f i)
     \<and> (\<forall>i. 2 \<le> k \<and> i \<le> n \<and> i div 2 = k \<longrightarrow> f (k div 2) \<le> f i)"

definition swapped :: "nat \<Rightarrow> nat \<Rightarrow> (nat \<Rightarrow> nat) \<Rightarrow> nat \<Rightarrow> nat" where
  "swapped j k f = f(j := f k, k := f j)"

lemma next_time_swap [simp]: "j \<noteq> k \<Longrightarrow> next_time (swap_slots j k t) = swapped j k (next_time t)"
  by (rule ext)
    (simp add: next_time_def swap_slots_def set_slot_def upd_task_def task_def swapped_def Let_def map_option_case split: option.split)

lemma heap_min: "heap_order f n \<Longrightarrow> 1 \<le> i \<Longrightarrow> i \<le> n \<Longrightarrow> f 1 \<le> f i"
proof (induction i rule: less_induct)
  case (less i)
  show ?case
  proof (cases "i = 1")
    case False
    then have "f 1 \<le> f (i div 2)" "f (i div 2) \<le> f i" using less by (auto simp: heap_order_def)
    then show ?thesis by simp
  qed simp
qed

lemma up_ok_heap: "up_ok k f n \<Longrightarrow> k \<le> 1 \<or> f (k div 2) \<le> f k \<Longrightarrow> heap_order f n"
  unfolding up_ok_def heap_order_def by (metis One_nat_def Suc_1 not_less_eq_eq order_trans)

lemma up_ok_swap:
  assumes "up_ok k f n" "2 \<le> k" "f k < f (k div 2)"
  shows "up_ok (k div 2) (swapped (k div 2) k f) n"
proof -
  let ?j = "k div 2" and ?g = "swapped (k div 2) k f"
  have j: "?j < k" "?j \<noteq> k" using assms(2) by auto
  have ord: "f (i div 2) \<le> f i" if "2 \<le> i" "i \<le> n" "i \<noteq> k" for i using assms(1) that by (simp add: up_ok_def)
  have low: "f ?j \<le> f i" if "i \<le> n" "i div 2 = k" for i using assms(1,2) that by (simp add: up_ok_def)
  have "?g (i div 2) \<le> ?g i" if i: "2 \<le> i" "i \<le> n" "i \<noteq> ?j" for i
  proof -
    have ii: "i div 2 < i" using i by simp
    consider "i = k" | "i \<noteq> k" "i div 2 = k" | "i \<noteq> k" "i div 2 = ?j" | "i \<noteq> k" "i div 2 \<noteq> k" "i div 2 \<noteq> ?j" by blast
    then show ?thesis
    proof cases
      case 1 then show ?thesis using assms(3) j by (simp add: swapped_def)
    next
      case 2 then show ?thesis using low i j by (simp add: swapped_def)
    next
      case 3 then show ?thesis using ord [of i] i j assms(3) by (simp add: swapped_def)
    next
      case 4 then show ?thesis using ord [of i] i j by (simp add: swapped_def)
    qed
  qed
  moreover have "?g (?j div 2) \<le> ?g i" if i: "2 \<le> ?j" "i \<le> n" "i div 2 = ?j" for i
  proof -
    have u: "?j div 2 < ?j" "?j < i" "i \<noteq> ?j" "2 \<le> i" "?j \<le> n" using i by auto
    have "f (?j div 2) \<le> f ?j" using ord [of ?j] i(1) u j by simp
    moreover have "i \<noteq> k \<Longrightarrow> f ?j \<le> f i" using ord [of i] i u by simp
    ultimately show ?thesis using u j by (cases "i = k") (auto simp: swapped_def)
  qed
  ultimately show ?thesis by (simp add: up_ok_def)
qed

lemma smaller_child_cases:
  fixes t :: timer
  assumes "2 * k \<le> m_size t"
  defines "c \<equiv> smaller_child (2 * k) t"
  shows "c div 2 = k" "c \<le> m_size t" "2 * k \<le> c"
    "\<And>i. i \<le> m_size t \<Longrightarrow> i div 2 = k \<Longrightarrow> next_time t c \<le> next_time t i"
proof -
  show "c div 2 = k" "c \<le> m_size t" "2 * k \<le> c" using assms by (auto simp: smaller_child_def)
  fix i assume i: "i \<le> m_size t" "i div 2 = k"
  then have "i = 2 * k \<or> i = 2 * k + 1" by presburger
  then show "next_time t c \<le> next_time t i" using i assms by (auto simp: smaller_child_def)
qed

lemma down_ok_heap:
  "down_ok k f n \<Longrightarrow> (\<And>i. 2 \<le> i \<Longrightarrow> i \<le> n \<Longrightarrow> i div 2 = k \<Longrightarrow> f k \<le> f i) \<Longrightarrow> heap_order f n"
  unfolding down_ok_def heap_order_def by blast

lemma down_ok_swap:
  assumes "down_ok k f n" "1 \<le> k" "c div 2 = k" "c \<le> n" "f c < f k"
    "\<And>i. i \<le> n \<Longrightarrow> i div 2 = k \<Longrightarrow> f c \<le> f i"
  shows "down_ok c (swapped c k f) n"
proof -
  let ?g = "swapped c k f"
  have c: "k < c" "2 \<le> c" "c \<noteq> k" using assms(2,3) by auto
  have ord: "f (i div 2) \<le> f i" if "2 \<le> i" "i \<le> n" "i div 2 \<noteq> k" for i using assms(1) that by (simp add: down_ok_def)
  have low: "f (k div 2) \<le> f i" if "2 \<le> k" "i \<le> n" "i div 2 = k" for i using assms(1) that by (simp add: down_ok_def)
  have "?g (i div 2) \<le> ?g i" if i: "2 \<le> i" "i \<le> n" "i div 2 \<noteq> c" for i
  proof -
    consider "i = c" | "i \<noteq> c" "i div 2 = k" | "i = k" | "i \<noteq> c" "i \<noteq> k" "i div 2 \<noteq> k" by blast
    then show ?thesis
    proof cases
      case 1 then show ?thesis using assms(3,5) c by (simp add: swapped_def)
    next
      case 2
      then have "i \<noteq> k" using i(1) assms(2) by auto
      then show ?thesis using 2 assms(6) i c by (simp add: swapped_def)
    next
      case 3
      then have "i div 2 \<noteq> k" "i div 2 \<noteq> c" using i c by auto
      then show ?thesis using 3 low [of c] i assms(3,4) c by (simp add: swapped_def)
    next
      case 4
      then show ?thesis using ord i by (simp add: swapped_def)
    qed
  qed
  moreover have "?g (c div 2) \<le> ?g i" if i: "i \<le> n" "i div 2 = c" for i
  proof -
    have "i \<noteq> c" "i \<noteq> k" "i div 2 \<noteq> k" "2 \<le> i" using i c by auto
    then show ?thesis using ord [of i] i assms(3) c by (simp add: swapped_def)
  qed
  ultimately show ?thesis by (simp add: down_ok_def)
qed

lemma FixUp_heap: "up_ok k (next_time t) (m_size t) \<Longrightarrow> heap_order (next_time (FixUp k t)) (m_size (FixUp k t))"
proof (induction k t rule: FixUp.induct)
  case (1 k t)
  show ?case
  proof (cases "k > 1 \<and> \<not> next_time t (k div 2) \<le> next_time t k")
    case True
    then have "k div 2 \<noteq> k" by auto
    with True have "up_ok (k div 2) (next_time (swap_slots (k div 2) k t)) (m_size (swap_slots (k div 2) k t))"
      using up_ok_swap [OF "1.prems"] by simp
    then show ?thesis using "1.IH" True by (simp add: FixUp.simps [of k t] Let_def)
  next
    case False
    then show ?thesis using up_ok_heap [OF "1.prems"] by (auto simp: FixUp.simps [of k t] Let_def)
  qed
qed

lemma FixDown_heap:
  "down_ok k (next_time t) (m_size t) \<Longrightarrow> 1 \<le> k \<Longrightarrow> heap_order (next_time (FixDown k t)) (m_size (FixDown k t))"
proof (induction k t rule: FixDown.induct)
  case (1 k t)
  show ?case
  proof (cases "2 * k \<le> m_size t \<and> 2 * k > 0")
    case inside: True
    let ?c = "smaller_child (2 * k) t"
    note c = smaller_child_cases [OF conjunct1 [OF inside]]
    show ?thesis
    proof (cases "next_time t k \<le> next_time t ?c")
      case True
      have "heap_order (next_time t) (m_size t)"
        using down_ok_heap [OF "1.prems"(1)] c(4) True order_trans by blast
      then show ?thesis using inside True by (simp add: FixDown.simps [of k t] Let_def)
    next
      case False
      have "?c \<noteq> k" "1 \<le> ?c" using c(3) "1.prems"(2) by auto
      then have "down_ok ?c (next_time (swap_slots ?c k t)) (m_size (swap_slots ?c k t))"
        using down_ok_swap [OF "1.prems" c(1,2) _ c(4)] False by (simp only: next_time_swap m_size_swap not_le not_False_eq_True)
      then have "heap_order (next_time (FixDown ?c (swap_slots ?c k t))) (m_size (FixDown ?c (swap_slots ?c k t)))"
        by (rule "1.IH" [OF inside refl False _ \<open>1 \<le> ?c\<close>])
      moreover have "FixDown k t = FixDown ?c (swap_slots ?c k t)"
        using inside False by (subst FixDown.simps) (simp only: Let_def if_True if_False simp_thms)
      ultimately show ?thesis by simp
    qed
  next
    case False
    have "\<not> (i \<le> m_size t \<and> i div 2 = k)" for i using False "1.prems"(2) by auto
    then have "heap_order (next_time t) (m_size t)" using down_ok_heap [OF "1.prems"(1)] by blast
    then show ?thesis using False by (subst (1 2) FixDown.simps) (simp only: if_False)
  qed
qed


section \<open>The queue as a set of tasks\<close>

text \<open>
  \<open>slots_ok\<close>: every slot in use holds a task of the memory that knows its slot, the others are null, and
  one entry of the array is free. \<open>enqueued\<close> and \<open>memory\<close> are what a client can see: which tasks are in the
  queue, and the tasks without their slots.
\<close>

definition slot_ok :: "nat \<Rightarrow> timer \<Rightarrow> bool" where
  "slot_ok k t \<longleftrightarrow> m_queue t k \<noteq> 0 \<and> (case m_tasks t (m_queue t k) of None \<Rightarrow> False | Some x \<Rightarrow> tk_index x = k)"

definition slots_ok :: "timer \<Rightarrow> bool" where
  "slots_ok t \<longleftrightarrow> m_size t < m_queue_capacity t \<and> (\<forall>k\<in>{1..m_size t}. slot_ok k t) \<and> (\<forall>k>m_size t. m_queue t k = 0)"

definition enqueued :: "timer \<Rightarrow> nat set" where
  "enqueued t = m_queue t ` {1..m_size t}"

definition memory :: "timer \<Rightarrow> nat \<Rightarrow> timer_task option" where
  "memory t p = map_option (\<lambda>x. x\<lparr>tk_index := 0\<rparr>) (m_tasks t p)"

definition queue_ok :: "timer \<Rightarrow> bool" where
  "queue_ok t \<longleftrightarrow> slots_ok t \<and> heap_order (next_time t) (m_size t)"

text \<open>\<open>t'\<close> is \<open>t\<close> with its slots in another order.\<close>

definition reordered :: "timer \<Rightarrow> timer \<Rightarrow> bool" where
  "reordered t t' \<longleftrightarrow> slots_ok t' \<and> enqueued t' = enqueued t \<and> memory t' = memory t \<and> m_size t' = m_size t
     \<and> t\<lparr>m_queue := m_queue t', m_tasks := m_tasks t'\<rparr> = t'"

lemma slot_inj: "slot_ok j t \<Longrightarrow> slot_ok k t \<Longrightarrow> m_queue t j = m_queue t k \<Longrightarrow> j = k"
  by (auto simp: slot_ok_def split: option.splits)

lemma m_queue_swap: "j \<noteq> k \<Longrightarrow> m_queue (swap_slots j k t) = (m_queue t)(j := m_queue t k, k := m_queue t j)"
  by (simp add: swap_slots_def set_slot_def upd_task_def Let_def)

lemma m_tasks_swap:
  "m_tasks (swap_slots j k t) =
     (let m = (m_tasks t)(m_queue t k := map_option (\<lambda>x. x\<lparr>tk_index := j\<rparr>) (m_tasks t (m_queue t k)))
      in m(m_queue t j := map_option (\<lambda>x. x\<lparr>tk_index := k\<rparr>) (m (m_queue t j))))"
  by (simp add: swap_slots_def set_slot_def upd_task_def Let_def)

lemma memory_set_slot [simp]: "memory (set_slot k p t) = memory t"
  by (rule ext) (simp add: memory_def set_slot_def upd_task_def option.map_comp comp_def)

lemma memory_swap [simp]: "memory (swap_slots j k t) = memory t"
  by (simp add: swap_slots_def Let_def)

lemma slot_ok_swap:
  assumes "slot_ok j t" "slot_ok k t" "slot_ok i t" "j \<noteq> k"
  shows "slot_ok i (swap_slots j k t)"
proof -
  have d: "m_queue t j \<noteq> m_queue t k" using assms slot_inj by blast
  have e: "i \<noteq> j \<Longrightarrow> m_queue t i \<noteq> m_queue t j" "i \<noteq> k \<Longrightarrow> m_queue t i \<noteq> m_queue t k"
    using assms slot_inj by blast+
  show ?thesis
    using assms d e
    by (cases "i = j"; cases "i = k") (auto simp: slot_ok_def m_queue_swap m_tasks_swap Let_def split: option.splits)
qed

lemma image_swap: "j \<in> A \<Longrightarrow> k \<in> A \<Longrightarrow> j \<noteq> k \<Longrightarrow> (f(j := f k, k := f j)) ` A = f ` A"
proof (rule set_eqI)
  fix x assume a: "j \<in> A" "k \<in> A" "j \<noteq> k"
  show "x \<in> (f(j := f k, k := f j)) ` A \<longleftrightarrow> x \<in> f ` A"
  proof
    assume "x \<in> f ` A"
    then obtain i where i: "i \<in> A" "x = f i" by blast
    let ?i = "if i = j then k else if i = k then j else i"
    have "?i \<in> A" "x = (f(j := f k, k := f j)) ?i" using a i by auto
    then show "x \<in> (f(j := f k, k := f j)) ` A" by (rule rev_image_eqI)
  qed (use a in \<open>auto split: if_splits\<close>)
qed

lemma swap_reordered:
  assumes "slots_ok t" "j \<in> {1..m_size t}" "k \<in> {1..m_size t}" "j \<noteq> k"
  shows "reordered t (swap_slots j k t)"
proof -
  have "slot_ok i (swap_slots j k t)" if "i \<in> {1..m_size t}" for i
    using slot_ok_swap assms that unfolding slots_ok_def by blast
  moreover have "m_queue_capacity (swap_slots j k t) = m_queue_capacity t"
    by (simp add: swap_slots_def set_slot_def upd_task_def Let_def)
  ultimately have "slots_ok (swap_slots j k t)"
    using assms by (auto simp: slots_ok_def m_queue_swap)
  moreover have "enqueued (swap_slots j k t) = enqueued t"
    using image_swap [OF assms(2-4)] assms(4) by (simp add: enqueued_def m_queue_swap)
  ultimately show ?thesis
    by (simp add: reordered_def) (simp add: swap_slots_def set_slot_def upd_task_def Let_def)
qed

lemma reordered_refl: "slots_ok t \<Longrightarrow> reordered t t" by (simp add: reordered_def)

lemma reordered_trans: "reordered t u \<Longrightarrow> reordered u v \<Longrightarrow> reordered t v"
  unfolding reordered_def by (metis timer.surjective timer.update_convs(1,4))

lemma reordered_slots_ok: "reordered t t' \<Longrightarrow> slots_ok t'" "reordered t t' \<Longrightarrow> m_size t' = m_size t"
  by (simp_all add: reordered_def)

lemma reordered_rest: "reordered t t' \<Longrightarrow> base_id t' = base_id t"
  unfolding reordered_def by (metis timer.select_convs timer.update_convs(1,4) timer.surjective)

lemma FixUp_reordered: "slots_ok t \<Longrightarrow> k \<le> m_size t \<Longrightarrow> reordered t (FixUp k t)"
proof (induction k t rule: FixUp.induct)
  case (1 k t)
  show ?case
  proof (cases "k > 1 \<and> \<not> next_time t (k div 2) \<le> next_time t k")
    case True
    then have "k div 2 \<in> {1..m_size t}" "k \<in> {1..m_size t}" "k div 2 \<noteq> k" using "1.prems"(2) by auto
    note r = swap_reordered [OF "1.prems"(1) this]
    have "reordered (swap_slots (k div 2) k t) (FixUp (k div 2) (swap_slots (k div 2) k t))"
      using "1.IH" reordered_slots_ok [OF r] True "1.prems"(2) by simp
    then show ?thesis using reordered_trans [OF r] True by (simp add: FixUp.simps [of k t] Let_def)
  next
    case False
    then show ?thesis using reordered_refl [OF "1.prems"(1)] by (auto simp: FixUp.simps [of k t] Let_def)
  qed
qed

lemma FixDown_reordered: "slots_ok t \<Longrightarrow> 1 \<le> k \<Longrightarrow> reordered t (FixDown k t)"
proof (induction k t rule: FixDown.induct)
  case (1 k t)
  show ?case
  proof (cases "2 * k \<le> m_size t \<and> 2 * k > 0")
    case inside: True
    let ?c = "smaller_child (2 * k) t"
    note c = smaller_child_cases [OF conjunct1 [OF inside]]
    show ?thesis
    proof (cases "next_time t k \<le> next_time t ?c")
      case True
      then show ?thesis using inside reordered_refl [OF "1.prems"(1)] by (simp add: FixDown.simps [of k t] Let_def)
    next
      case False
      have "?c \<in> {1..m_size t}" "k \<in> {1..m_size t}" "?c \<noteq> k" "1 \<le> ?c" using c "1.prems"(2) inside by auto
      note r = swap_reordered [OF "1.prems"(1) this(1-3)]
      have "reordered (swap_slots ?c k t) (FixDown ?c (swap_slots ?c k t))"
        by (rule "1.IH" [OF inside refl False reordered_slots_ok(1) [OF r] \<open>1 \<le> ?c\<close>])
      moreover have "FixDown k t = FixDown ?c (swap_slots ?c k t)"
        using inside False by (subst FixDown.simps) (simp only: Let_def if_True if_False simp_thms)
      ultimately show ?thesis using reordered_trans [OF r] by simp
    qed
  next
    case False
    then show ?thesis using reordered_refl [OF "1.prems"(1)] by (subst FixDown.simps) (simp only: if_False)
  qed
qed

text \<open>The abstract view of the queue: the time of every task in it.\<close>

definition pending :: "timer \<Rightarrow> nat \<Rightarrow> nat option" where
  "pending t p = (if p \<in> enqueued t then map_option tk_next (m_tasks t p) else None)"

lemma pending_memory: "pending t p = (if p \<in> enqueued t then map_option tk_next (memory t p) else None)"
  by (simp add: pending_def memory_def option.map_comp comp_def)

lemma reordered_pending: "reordered t t' \<Longrightarrow> pending t' = pending t"
  by (rule ext) (simp add: pending_memory reordered_def)

lemma FixUp_ok:
  "slots_ok t \<Longrightarrow> k \<le> m_size t \<Longrightarrow> up_ok k (next_time t) (m_size t) \<Longrightarrow> queue_ok (FixUp k t)"
  using FixUp_heap reordered_slots_ok(1) [OF FixUp_reordered] by (simp add: queue_ok_def)

lemma FixDown_ok:
  "slots_ok t \<Longrightarrow> 1 \<le> k \<Longrightarrow> down_ok k (next_time t) (m_size t) \<Longrightarrow> queue_ok (FixDown k t)"
  using FixDown_heap reordered_slots_ok(1) [OF FixDown_reordered] by (simp add: queue_ok_def)

text \<open>Changing the time of the task at one slot breaks the order there only.\<close>

lemma slot_task: "slots_ok t \<Longrightarrow> k \<in> {1..m_size t} \<Longrightarrow> m_tasks t (m_queue t k) = Some (task (m_queue t k) t)"
  by (fastforce simp: slots_ok_def slot_ok_def task_def split: option.splits)

lemma slots_inj: "slots_ok t \<Longrightarrow> inj_on (m_queue t) {1..m_size t}"
  by (rule inj_onI) (meson slots_ok_def slot_inj)

definition set_time :: "nat \<Rightarrow> nat \<Rightarrow> timer \<Rightarrow> timer" where
  "set_time p v = upd_task p (\<lambda>x. x\<lparr>tk_next := v\<rparr>)"

lemma set_time_slots: "slots_ok t \<Longrightarrow> slots_ok (set_time p v t)"
  by (auto simp: slots_ok_def slot_ok_def set_time_def upd_task_def split: option.splits)

lemma set_time_fields [simp]:
  "m_size (set_time p v t) = m_size t" "m_queue (set_time p v t) = m_queue t" "enqueued (set_time p v t) = enqueued t"
  by (simp_all add: set_time_def upd_task_def enqueued_def)

lemma set_time_next:
  assumes "slots_ok t" "k \<in> {1..m_size t}" "i \<in> {1..m_size t}"
  shows "next_time (set_time (m_queue t k) v t) i = (if i = k then v else next_time t i)"
proof (cases "i = k")
  case True
  obtain x where "m_tasks t (m_queue t k) = Some x" using slot_task [OF assms(1,2)] by blast
  then show ?thesis using True by (simp add: next_time_def task_def set_time_def upd_task_def)
next
  case False
  then have "m_queue t i \<noteq> m_queue t k" using inj_onD [OF slots_inj [OF assms(1)] _ assms(3,2)] by blast
  then show ?thesis using False by (simp add: next_time_def task_def set_time_def upd_task_def)
qed

lemma set_time_pending:
  "slots_ok t \<Longrightarrow> p \<in> enqueued t \<Longrightarrow> pending (set_time p v t) = (pending t)(p \<mapsto> v)"
  using slot_task by (auto simp: fun_eq_iff pending_def) (auto simp: set_time_def upd_task_def enqueued_def)

lemma heap_later:
  assumes "heap_order f n" "f k \<le> v" "\<And>i. i \<in> {1..n} \<Longrightarrow> g i = (if i = k then v else f i)"
  shows "down_ok k g n"
proof -
  have o: "f (i div 2) \<le> f i" if "2 \<le> i" "i \<le> n" for i using assms(1) that by (simp add: heap_order_def)
  have "g (i div 2) \<le> g i" if "2 \<le> i" "i \<le> n" "i div 2 \<noteq> k" for i
  proof -
    have "i div 2 \<le> n" "1 \<le> i div 2" using that by simp_all
    then have "g (i div 2) = f (i div 2)" "f i \<le> g i" using assms(2) assms(3) [of "i div 2"] assms(3) [of i] that by auto
    then show ?thesis using o [of i] that by simp
  qed
  moreover have "g (k div 2) \<le> g i" if "2 \<le> k" "i \<le> n" "i div 2 = k" for i
  proof -
    have "k div 2 \<in> {1..n}" "i \<in> {1..n}" "k div 2 \<noteq> k" "i \<noteq> k" and h: "k \<le> n" "2 \<le> i" using that by auto
    then have "g (k div 2) = f (k div 2)" "g i = f i" using assms(3) by (simp_all del: atLeastAtMost_iff)
    then show ?thesis using o [of k] o [of i] that h by simp
  qed
  ultimately show ?thesis by (simp add: down_ok_def)
qed

lemma heap_earlier:
  assumes "heap_order f n" "v \<le> f k" "\<And>i. i \<in> {1..n} \<Longrightarrow> g i = (if i = k then v else f i)"
  shows "up_ok k g n"
proof -
  have o: "f (i div 2) \<le> f i" if "2 \<le> i" "i \<le> n" for i using assms(1) that by (simp add: heap_order_def)
  have "g (i div 2) \<le> g i" if "2 \<le> i" "i \<le> n" "i \<noteq> k" for i
  proof -
    have "i div 2 \<le> n" "1 \<le> i div 2" using that by simp_all
    then have "g (i div 2) \<le> f (i div 2)" "f i = g i" using assms(2) assms(3) [of "i div 2"] assms(3) [of i] that by auto
    then show ?thesis using o [of i] that by simp
  qed
  moreover have "g (k div 2) \<le> g i" if "2 \<le> k" "i \<le> n" "i div 2 = k" for i
  proof -
    have "k div 2 \<in> {1..n}" "i \<in> {1..n}" "k div 2 \<noteq> k" "i \<noteq> k" and h: "k \<le> n" "2 \<le> i" using that by auto
    then have "g (k div 2) = f (k div 2)" "g i = f i" using assms(3) by (simp_all del: atLeastAtMost_iff)
    then show ?thesis using o [of k] o [of i] that h by simp
  qed
  ultimately show ?thesis by (simp add: up_ok_def)
qed

text \<open>The operations of the queue on the abstract view.\<close>

lemma enqueued_pending: "slots_ok t \<Longrightarrow> p \<in> enqueued t \<longleftrightarrow> pending t p \<noteq> None"
  by (auto simp: pending_def enqueued_def dest: slot_task)

lemma reschedule_slot_ok:
  assumes "queue_ok t" "k \<in> {1..m_size t}"
  shows "next_time t k \<le> v \<Longrightarrow> queue_ok (FixDown k (set_time (m_queue t k) v t))"
    and "v \<le> next_time t k \<Longrightarrow> queue_ok (FixUp k (set_time (m_queue t k) v t))"
    and "pending (FixDown k (set_time (m_queue t k) v t)) = (pending t)(m_queue t k \<mapsto> v)"
    and "pending (FixUp k (set_time (m_queue t k) v t)) = (pending t)(m_queue t k \<mapsto> v)"
proof -
  let ?u = "set_time (m_queue t k) v t"
  have o: "slots_ok t" "heap_order (next_time t) (m_size t)" using assms(1) by (simp_all add: queue_ok_def)
  have u: "slots_ok ?u" using set_time_slots [OF o(1)] .
  have p: "pending ?u = (pending t)(m_queue t k \<mapsto> v)"
    using set_time_pending [OF o(1)] assms(2) by (simp add: enqueued_def)
  show "next_time t k \<le> v \<Longrightarrow> queue_ok (FixDown k ?u)"
    using FixDown_ok [OF u] heap_later [OF o(2) _ set_time_next [OF o(1) assms(2)]] assms(2) by simp
  show "v \<le> next_time t k \<Longrightarrow> queue_ok (FixUp k ?u)"
    using FixUp_ok [OF u] heap_earlier [OF o(2) _ set_time_next [OF o(1) assms(2)]] assms(2) by simp
  show "pending (FixDown k ?u) = (pending t)(m_queue t k \<mapsto> v)"
    using reordered_pending [OF FixDown_reordered [OF u]] p assms(2) by simp
  show "pending (FixUp k ?u) = (pending t)(m_queue t k \<mapsto> v)"
    using reordered_pending [OF FixUp_reordered [OF u]] p assms(2) by simp
qed

lemma FindTaskIndex_enqueued:
  assumes "slots_ok t"
  shows "k \<in> {1..m_size t} \<Longrightarrow> FindTaskIndex (m_queue t k) t = int k"
    and "p \<notin> enqueued t \<Longrightarrow> FindTaskIndex p t = - 1"
proof -
  assume k: "k \<in> {1..m_size t}"
  then have "m_queue t k \<noteq> 0" "tk_index (task (m_queue t k) t) = k"
    using assms by (auto simp: slots_ok_def slot_ok_def task_def split: option.splits)
  then show "FindTaskIndex (m_queue t k) t = int k" using k by (auto simp: FindTaskIndex_def)
next
  assume p: "p \<notin> enqueued t"
  have "m_queue t i \<noteq> p" if "p \<noteq> 0" "i > 0" for i
    using p assms that by (cases "i \<le> m_size t") (auto simp: enqueued_def slots_ok_def)
  then show "FindTaskIndex p t = - 1" by (auto simp: FindTaskIndex_def)
qed

lemma RescheduleTask_ok:
  assumes "queue_ok t"
  shows "pending t p \<noteq> None \<Longrightarrow>
       fst (RescheduleTask p v t) \<and> queue_ok (snd (RescheduleTask p v t))
       \<and> pending (snd (RescheduleTask p v t)) = (pending t)(p \<mapsto> v)"
    and "pending t p = None \<Longrightarrow> RescheduleTask p v t = (False, t)"
proof -
  have o: "slots_ok t" using assms by (simp add: queue_ok_def)
  show "pending t p = None \<Longrightarrow> RescheduleTask p v t = (False, t)"
    using FindTaskIndex_enqueued(2) [OF o] enqueued_pending [OF o, of p] by (simp add: RescheduleTask_def)
  assume "pending t p \<noteq> None"
  then obtain k where k: "k \<in> {1..m_size t}" "p = m_queue t k"
    using enqueued_pending [OF o, of p] by (auto simp: enqueued_def)
  have "RescheduleTask p v t =
      (True, if v > next_time t k then FixDown k (set_time (m_queue t k) v t) else FixUp k (set_time (m_queue t k) v t))"
    using FindTaskIndex_enqueued(1) [OF o k(1)] k by (auto simp: RescheduleTask_def next_time_def set_time_def Let_def)
  then show "fst (RescheduleTask p v t) \<and> queue_ok (snd (RescheduleTask p v t))
       \<and> pending (snd (RescheduleTask p v t)) = (pending t)(p \<mapsto> v)"
    using reschedule_slot_ok [OF assms k(1), of v] k(2) by simp
qed

text \<open>At the root any time will do, a time that is earlier than the old one too.\<close>

lemma RescheduleMin_ok:
  assumes "queue_ok t" "m_size t \<noteq> 0"
  shows "queue_ok (RescheduleMin v t)" "pending (RescheduleMin v t) = (pending t)(GetMin t \<mapsto> v)"
proof -
  let ?u = "set_time (m_queue t 1) v t"
  have o: "slots_ok t" "heap_order (next_time t) (m_size t)" using assms(1) by (simp_all add: queue_ok_def)
  have e: "RescheduleMin v t = FixDown 1 ?u" by (simp add: RescheduleMin_def set_time_def)
  have one: "1 \<in> {1..m_size t}" using assms(2) by simp
  have "next_time ?u (i div 2) \<le> next_time ?u i" if "2 \<le> i" "i \<le> m_size t" "i div 2 \<noteq> 1" for i
  proof -
    have "i div 2 \<in> {1..m_size t}" "i \<in> {1..m_size t}" "i \<noteq> 1" using that by auto
    then show ?thesis using set_time_next [OF o(1) one] o(2) that by (simp add: heap_order_def del: atLeastAtMost_iff)
  qed
  then have "down_ok 1 (next_time ?u) (m_size ?u)" by (simp add: down_ok_def)
  then show "queue_ok (RescheduleMin v t)" using FixDown_ok [OF set_time_slots [OF o(1)]] e by simp
  show "pending (RescheduleMin v t) = (pending t)(GetMin t \<mapsto> v)"
    using reschedule_slot_ok(3) [OF assms(1) one] e by (simp add: GetMin_def)
qed

lemma queue_add_ok:
  assumes "queue_ok t" "p \<notin> enqueued t" "p \<noteq> 0" "m_tasks t p = Some x"
  shows "queue_ok (queue_add p t)" "pending (queue_add p t) = (pending t)(p \<mapsto> tk_next x)"
    "memory (queue_add p t) = memory t" "enqueued (queue_add p t) = insert p (enqueued t)" "base_id (queue_add p t) = base_id t"
proof -
  have o: "slots_ok t" "heap_order (next_time t) (m_size t)" using assms(1) by (simp_all add: queue_ok_def)
  let ?n = "m_size t + 1"
  let ?c = "if ?n = m_queue_capacity t then 2 * m_queue_capacity t else m_queue_capacity t"
  define u where "u = set_slot ?n p (t\<lparr>m_queue_capacity := ?c, m_size := ?n\<rparr>)"
  have a: "queue_add p t = FixUp ?n u" by (simp add: queue_add_def u_def Let_def)
  have f: "m_size u = ?n" "m_queue_capacity u = ?c" "m_queue u = (m_queue t)(?n := p)"
    "m_tasks u = (m_tasks t)(p \<mapsto> x\<lparr>tk_index := ?n\<rparr>)"
    using assms(4) by (simp_all add: u_def set_slot_def upd_task_def)
  have np: "m_queue t k \<noteq> p" if "k \<in> {1..m_size t}" for k using assms(2) that by (auto simp: enqueued_def)
  have "slot_ok k u" if "k \<in> {1..?n}" for k
  proof (cases "k = ?n")
    case True
    then show ?thesis using f assms(3) by (simp add: slot_ok_def)
  next
    case False
    then have "k \<in> {1..m_size t}" using that by auto
    then show ?thesis using o(1) np [of k] False f by (simp add: slots_ok_def slot_ok_def)
  qed
  then have s: "slots_ok u" using o(1) f by (auto simp: slots_ok_def)
  have nt: "next_time u i = next_time t i" if "i \<in> {1..m_size t}" for i
    using np [OF that] that f by (simp add: next_time_def task_def)
  have "up_ok ?n (next_time u) ?n"
  proof -
    have "next_time u (i div 2) \<le> next_time u i" if "2 \<le> i" "i \<le> ?n" "i \<noteq> ?n" for i
    proof -
      have "i \<in> {1..m_size t}" "i div 2 \<in> {1..m_size t}" using that by auto
      then show ?thesis using nt o(2) that by (simp add: heap_order_def del: atLeastAtMost_iff)
    qed
    then show ?thesis by (auto simp: up_ok_def)
  qed
  then show "queue_ok (queue_add p t)" using FixUp_ok [OF s] f(1) a by simp
  note r = FixUp_reordered [OF s, of ?n]
  have m: "memory u = memory t" using memory_set_slot by (simp add: u_def) (simp add: memory_def fun_eq_iff)
  then show "memory (queue_add p t) = memory t" using r f(1) a by (simp add: reordered_def)
  show "base_id (queue_add p t) = base_id t"
    using reordered_rest [OF r] f(1) a by (simp add: u_def set_slot_def upd_task_def)
  have q: "enqueued u = insert p (enqueued t)"
    using f by (auto simp: enqueued_def image_def le_Suc_eq Bex_def)
  then show "enqueued (queue_add p t) = insert p (enqueued t)" using r f(1) a by (simp add: reordered_def)
  from q have "pending u = (pending t)(p \<mapsto> tk_next x)"
    using m assms(4) by (auto simp: fun_eq_iff pending_memory memory_def)
  then show "pending (queue_add p t) = (pending t)(p \<mapsto> tk_next x)"
    using reordered_pending [OF r] f(1) a by simp
qed

lemma RemoveMin_reordered:
  assumes "queue_ok t" "m_size t \<noteq> 0"
  defines "u \<equiv> queue_shrink (set_slot 1 (m_queue t (m_size t)) t)"
  shows "slots_ok u" "down_ok 1 (next_time u) (m_size u)" "enqueued u = enqueued t - {GetMin t}" "memory u = memory t"
proof -
  let ?n = "m_size t" and ?q = "m_queue t (m_size t)"
  have o: "slots_ok t" "heap_order (next_time t) ?n" using assms(1) by (simp_all add: queue_ok_def)
  obtain x where x: "m_tasks t ?q = Some x" using slot_task [OF o(1), of ?n] assms(2) by auto
  have f: "m_size u = ?n - 1" "m_queue_capacity u = m_queue_capacity t" "m_queue u = (m_queue t)(1 := ?q, ?n := 0)"
    "m_tasks u = (m_tasks t)(?q \<mapsto> x\<lparr>tk_index := 1\<rparr>)"
    using x by (simp_all add: u_def set_slot_def upd_task_def queue_shrink_def)
  have ne: "m_queue t k \<noteq> ?q" if "k \<in> {1..?n - 1}" for k
  proof -
    have "k \<in> {1..?n}" "?n \<in> {1..?n}" "k \<noteq> ?n" using that assms(2) by auto
    then show ?thesis using inj_onD [OF slots_inj [OF o(1)]] by blast
  qed
  have sl: "slot_ok k t" if "k \<in> {1..?n}" for k using o(1) that unfolding slots_ok_def by blast
  have "slot_ok k u" if k: "k \<in> {1..?n - 1}" for k
  proof (cases "k = 1")
    case True
    then show ?thesis using f k sl [of ?n] assms(2) by (auto simp: slot_ok_def)
  next
    case False
    then show ?thesis using f k sl [of k] ne [OF k] by (auto simp: slot_ok_def)
  qed
  then show "slots_ok u" using o(1) f assms(2) by (auto simp: slots_ok_def)
  have nt: "next_time u i = next_time t i" if "i \<in> {2..?n - 1}" for i
    using ne [of i] that f by (auto simp: next_time_def task_def)
  have "next_time u (i div 2) \<le> next_time u i" if "2 \<le> i" "i \<le> ?n - 1" "i div 2 \<noteq> 1" for i
  proof -
    have "i div 2 \<in> {2..?n - 1}" "i \<in> {2..?n - 1}" using that by auto
    then show ?thesis using nt o(2) that by (simp add: heap_order_def del: atLeastAtMost_iff)
  qed
  then show "down_ok 1 (next_time u) (m_size u)" using f(1) by (simp add: down_ok_def)
  have "m_queue u ` {1..?n - 1} = m_queue t ` {1..?n} - {m_queue t 1}"
  proof -
    have i: "inj_on (m_queue t) {1..?n}" using slots_inj [OF o(1)] .
    have "{1..?n} - {1} = {2..?n}" by auto
    then have t: "m_queue t ` {1..?n} - {m_queue t 1} = m_queue t ` {2..?n}"
      using inj_on_image_set_diff [OF i, of "{1..?n}" "{1}"] assms(2) by simp
    show ?thesis
    proof (cases "?n = 1")
      case True
      then show ?thesis unfolding t by simp
    next
      case False
      then have "{1..?n - 1} = insert 1 {2..?n - 1}" "{2..?n} = insert ?n {2..?n - 1}" using assms(2) by auto
      moreover have "m_queue u ` {2..?n - 1} = m_queue t ` {2..?n - 1}" using f(3) by (intro image_cong) auto
      moreover have "m_queue u 1 = ?q" using f(3) False assms(2) by simp
      ultimately show ?thesis unfolding t by simp
    qed
  qed
  then show "enqueued u = enqueued t - {GetMin t}" using f(1) by (simp add: enqueued_def GetMin_def)
  show "memory u = memory t" using x f(4) by (simp add: memory_def fun_eq_iff)
qed

lemma RemoveMin_ok:
  assumes "queue_ok t" "m_size t \<noteq> 0"
  shows "queue_ok (RemoveMin t)" "pending (RemoveMin t) = (pending t)(GetMin t := None)"
    "memory (RemoveMin t) = memory t" "enqueued (RemoveMin t) = enqueued t - {GetMin t}"
    "m_size (RemoveMin t) = m_size t - 1" "clock (RemoveMin t) = clock t" "ran (RemoveMin t) = ran t"
    "base_id (RemoveMin t) = base_id t"
proof -
  let ?u = "queue_shrink (set_slot 1 (m_queue t (m_size t)) t)"
  note r = RemoveMin_reordered [OF assms]
  have e: "RemoveMin t = FixDown 1 ?u" using assms(2) by (simp add: RemoveMin_def)
  have d: "reordered ?u (RemoveMin t)" unfolding e using FixDown_reordered [OF r(1)] by simp
  show "queue_ok (RemoveMin t)" unfolding e using FixDown_ok [OF r(1) _ r(2)] by simp
  show m: "memory (RemoveMin t) = memory t" "enqueued (RemoveMin t) = enqueued t - {GetMin t}"
    using d r(3,4) by (simp_all add: reordered_def)
  then show "pending (RemoveMin t) = (pending t)(GetMin t := None)"
    by (auto simp: fun_eq_iff pending_memory)
  show "m_size (RemoveMin t) = m_size t - 1"
    using d by (simp add: reordered_def queue_shrink_def set_slot_def upd_task_def)
  show "base_id (RemoveMin t) = base_id t"
    using reordered_rest [OF d] by (simp add: queue_shrink_def set_slot_def upd_task_def)
  have "clock (RemoveMin t) = clock ?u" "ran (RemoveMin t) = ran ?u"
    using d unfolding reordered_def by (metis timer.select_convs timer.update_convs(1,4) timer.surjective)+
  then show "clock (RemoveMin t) = clock t" "ran (RemoveMin t) = ran t"
    by (simp_all add: queue_shrink_def set_slot_def upd_task_def)
qed

lemma GetMin_least:
  assumes "queue_ok t" "pending t p = Some v"
  shows "m_size t \<noteq> 0" "GetMin t \<in> enqueued t" "pending t (GetMin t) = Some (next_time t 1)" "next_time t 1 \<le> v"
proof -
  have o: "slots_ok t" "heap_order (next_time t) (m_size t)" using assms(1) by (simp_all add: queue_ok_def)
  obtain k where k: "k \<in> {1..m_size t}" "p = m_queue t k" "v = next_time t k"
    using assms(2) by (auto simp: pending_def enqueued_def next_time_def task_def split: if_splits)
  then show n: "m_size t \<noteq> 0" by auto
  then show "GetMin t \<in> enqueued t" by (auto simp: enqueued_def GetMin_def)
  then show "pending t (GetMin t) = Some (next_time t 1)"
    using slot_task [OF o(1), of 1] n by (auto simp: pending_def next_time_def GetMin_def)
  show "next_time t 1 \<le> v" using heap_min [OF o(2)] k by simp
qed

lemma queue_empty: "slots_ok t \<Longrightarrow> m_size t = 0 \<longleftrightarrow> pending t = Map.empty"
  using enqueued_pending [of t] by (force simp: fun_eq_iff enqueued_def)

lemma queue_view_cong:
  assumes "m_queue t' = m_queue t" "m_size t' = m_size t" "m_queue_capacity t' = m_queue_capacity t"
    "\<And>p. p \<in> enqueued t \<Longrightarrow> m_tasks t' p = m_tasks t p"
  shows "queue_ok t' = queue_ok t" "pending t' = pending t"
proof -
  have q: "enqueued t' = enqueued t" using assms(1,2) by (simp add: enqueued_def)
  then show "pending t' = pending t" using assms(4) by (auto simp: fun_eq_iff pending_def)
  have m: "m_tasks t' (m_queue t k) = m_tasks t (m_queue t k)" if "k \<in> {1..m_size t}" for k
    using assms(4) that by (simp add: enqueued_def)
  have n: "next_time t' k = next_time t k" if "k \<in> {1..m_size t}" for k
    using m [OF that] assms(1) by (simp add: next_time_def task_def)
  have "slots_ok t' = slots_ok t" using m assms(1-3) unfolding slots_ok_def slot_ok_def by (auto split: option.splits)
  moreover have "heap_order (next_time t') (m_size t) = heap_order (next_time t) (m_size t)"
  proof -
    have "next_time t' (i div 2) = next_time t (i div 2) \<and> next_time t' i = next_time t i" if "2 \<le> i \<and> i \<le> m_size t" for i
    proof -
      have "i div 2 \<in> {1..m_size t}" "i \<in> {1..m_size t}" using that by auto
      then show ?thesis using n by blast
    qed
    then show ?thesis unfolding heap_order_def by auto
  qed
  ultimately show "queue_ok t' = queue_ok t" using assms(2) by (simp add: queue_ok_def)
qed

section \<open>Running the timer\<close>

text \<open>\<open>runs\<close> are the runners of those tasks of a list that are executed when their time has come.\<close>

definition runnable :: "timer_task \<Rightarrow> bool" where
  "runnable x \<longleftrightarrow> tk_runner x \<noteq> 0 \<and> tk_state x = SCHEDULED"

definition runs :: "(nat \<Rightarrow> timer_task option) \<Rightarrow> nat list \<Rightarrow> nat list" where
  "runs m ps = map (\<lambda>p. tk_runner (the (m p))) (filter (\<lambda>p. runnable (the (m p))) ps)"

definition one_shot :: "timer \<Rightarrow> bool" where
  "one_shot t \<longleftrightarrow> (\<forall>p x. pending t p \<noteq> None \<and> memory t p = Some x \<and> runnable x \<longrightarrow> tk_period x \<le> 0)"

lemma DoTerminated_ok:
  assumes "queue_ok t" "p \<notin> enqueued t"
  shows "queue_ok (DoTerminated p t)" "pending (DoTerminated p t) = pending t"
    "q \<noteq> p \<Longrightarrow> memory (DoTerminated p t) q = memory t q"
proof -
  have m: "q \<in> enqueued t \<Longrightarrow> m_tasks (DoTerminated p t) q = m_tasks t q" for q
    using assms(2) by (auto simp: DoTerminated_def)
  show "queue_ok (DoTerminated p t)" using queue_view_cong(1) [OF _ _ _ m] assms(1) by (simp add: DoTerminated_def)
  show "pending (DoTerminated p t) = pending t" using queue_view_cong(2) [OF _ _ _ m] by (simp add: DoTerminated_def)
  show "q \<noteq> p \<Longrightarrow> memory (DoTerminated p t) q = memory t q" by (simp add: DoTerminated_def memory_def)
qed

lemma clock_step_ok:
  "queue_ok (t\<lparr>ticks := n\<rparr>) = queue_ok t" "pending (t\<lparr>ticks := n\<rparr>) = pending t" "memory (t\<lparr>ticks := n\<rparr>) = memory t"
  "GetMin (t\<lparr>ticks := n\<rparr>) = GetMin t"
  using queue_view_cong [of "t\<lparr>ticks := n\<rparr>" t] by (simp_all add: memory_def fun_eq_iff GetMin_def)

lemma ran_step_ok:
  "queue_ok (t\<lparr>ran := r\<rparr>) = queue_ok t" "pending (t\<lparr>ran := r\<rparr>) = pending t" "memory (t\<lparr>ran := r\<rparr>) = memory t"
  using queue_view_cong [of "t\<lparr>ran := r\<rparr>" t] by (simp_all add: memory_def fun_eq_iff)

text \<open>A task that is due is taken out of the queue, and it is executed if it is \<open>runnable\<close>.\<close>

lemma timer_round_due:
  assumes ok: "queue_ok t" and now: "clock t = (\<lambda>_. now)" and p: "pending t p = Some v" and due: "next_time t 1 \<le> now"
    and one: "one_shot t"
  obtains t1 where "timer_round (\<lambda>_ _. []) t = Some (Inr t1)" "queue_ok t1" "clock t1 = (\<lambda>_. now)"
    "pending t1 = (pending t)(GetMin t := None)" "\<And>q. q \<noteq> GetMin t \<Longrightarrow> memory t1 q = memory t q"
    "ran t1 = ran t @ runs (memory t) [GetMin t]" "m_size t1 = m_size t - 1"
proof -
  let ?p = "GetMin t" and ?t = "t\<lparr>ticks := ticks t + 1\<rparr>"
  note g = GetMin_least [OF ok p]
  have m: "m_size t \<noteq> 0" by (rule g(1))
  have okt: "queue_ok ?t" "m_size ?t \<noteq> 0" using ok m by (simp_all add: clock_step_ok)
  note r = RemoveMin_ok [OF okt]
  define x where "x = task ?p t"
  have x: "m_tasks t ?p = Some x" using g(3) by (auto simp: pending_def x_def task_def split: if_splits)
  have nq: "?p \<notin> enqueued (RemoveMin ?t)" using r(4) by (simp add: clock_step_ok)
  have nx: "tk_next x \<le> now" using due by (simp add: next_time_def x_def GetMin_def)
  have rx: "runs (memory t) [?p] = (if runnable x then [tk_runner x] else [])"
    using x by (simp add: runs_def memory_def runnable_def)
  have round: "timer_round (\<lambda>_ _. []) t =
     (if tk_runner x = 0 then Some (Inr (RemoveMin ?t))
      else if tk_state x = SCHEDULED
      then if tk_period x > 0 then timer_round (\<lambda>_ _. []) t
           else Some (Inr (DoTerminated ?p ((upd_task ?p (\<lambda>x. x\<lparr>tk_state := EXECUTED\<rparr>) (RemoveMin ?t))
             \<lparr>ran := ran t @ [tk_runner x]\<rparr>)))
      else Some (Inr (DoTerminated ?p (RemoveMin ?t))))"
    using m nx r(7) now
    by (simp add: timer_round_def time_now_def run_task_def x_def [symmetric] Let_def upd_task_def)
  have ps: "tk_period x \<le> 0" if "runnable x"
  proof -
    have "memory t ?p = Some (x\<lparr>tk_index := 0\<rparr>)" "runnable (x\<lparr>tk_index := 0\<rparr>)"
      using x that by (simp_all add: memory_def runnable_def)
    then have "tk_period (x\<lparr>tk_index := 0\<rparr>) \<le> 0" using one g(3) unfolding one_shot_def by blast
    then show ?thesis by simp
  qed
  consider (null) "tk_runner x = 0" | (run) "runnable x" | (cancelled) "tk_runner x \<noteq> 0" "\<not> runnable x" by (auto simp: runnable_def)
  then show thesis
  proof cases
    case null
    show ?thesis
      by (rule that [of "RemoveMin ?t"]) (use round null r rx now in \<open>simp_all add: clock_step_ok runnable_def\<close>)
  next
    case run
    let ?u = "(upd_task ?p (\<lambda>x. x\<lparr>tk_state := EXECUTED\<rparr>) (RemoveMin ?t))\<lparr>ran := ran t @ [tk_runner x]\<rparr>"
    have d: "DoTerminated ?p ?u = (DoTerminated ?p (RemoveMin ?t))\<lparr>ran := ran t @ [tk_runner x]\<rparr>"
      by (simp add: DoTerminated_def upd_task_def)
    note e = DoTerminated_ok [OF r(1) nq]
    show ?thesis
    proof (rule that [of "DoTerminated ?p ?u"])
      show "timer_round (\<lambda>_ _. []) t = Some (Inr (DoTerminated ?p ?u))"
        using round run ps by (simp add: runnable_def)
      show "queue_ok (DoTerminated ?p ?u)" "pending (DoTerminated ?p ?u) = (pending t)(?p := None)"
        using e(1,2) r(2) by (simp_all only: d ran_step_ok clock_step_ok)
      show "memory (DoTerminated ?p ?u) q = memory t q" if "q \<noteq> ?p" for q
        using e(3) [OF that] r(3) by (simp only: d ran_step_ok clock_step_ok)
    qed (use rx run now r(5,6) in \<open>simp_all add: upd_task_def DoTerminated_def\<close>)
  next
    case cancelled
    note e = DoTerminated_ok [OF r(1) nq]
    show ?thesis
    proof (rule that [of "DoTerminated ?p (RemoveMin ?t)"])
      show "timer_round (\<lambda>_ _. []) t = Some (Inr (DoTerminated ?p (RemoveMin ?t)))"
        using round cancelled by (simp add: runnable_def)
      show "queue_ok (DoTerminated ?p (RemoveMin ?t))" "pending (DoTerminated ?p (RemoveMin ?t)) = (pending t)(?p := None)"
        using e(1,2) r(2) by (simp_all add: clock_step_ok)
      show "memory (DoTerminated ?p (RemoveMin ?t)) q = memory t q" if "q \<noteq> ?p" for q
        using e(3) [OF that] r(3) by (simp add: clock_step_ok)
    qed (use rx cancelled now r(5-7) in \<open>simp_all add: DoTerminated_def\<close>)
  qed
qed

text \<open>The whole run at one time: what is due is executed in the order of time, and the rest stays.\<close>

definition time_of :: "timer \<Rightarrow> nat \<Rightarrow> nat" where
  "time_of t p = the (pending t p)"

text \<open>The result of a run that ends at \<open>now\<close>: how long it is to the next task, or minus one.\<close>

definition until_next :: "nat \<Rightarrow> timer \<Rightarrow> int" where
  "until_next now t = (if pending t = Map.empty then - 1 else c_int64 (int (time_of t (GetMin t)) - int now))"

lemma runs_Cons: "runs m (p # ps) = runs m [p] @ runs m ps" by (simp add: runs_def)

lemma runs_cong: "(\<And>p. p \<in> set ps \<Longrightarrow> m p = m' p) \<Longrightarrow> runs m ps = runs m' ps"
  unfolding runs_def by (induction ps) auto

lemma Routine_due:
  "queue_ok t \<Longrightarrow> clock t = (\<lambda>_. now) \<Longrightarrow> one_shot t \<Longrightarrow>
   \<exists>t' ps. Routine (\<lambda>_ _. []) t = Some (until_next now t', t') \<and> queue_ok t' \<and> distinct ps
     \<and> set ps = {p. \<exists>v\<le>now. pending t p = Some v} \<and> sorted (map (time_of t) ps)
     \<and> ran t' = ran t @ runs (memory t) ps \<and> pending t' = pending t |` (- set ps)"
proof (induction "m_size t" arbitrary: t rule: less_induct)
  case less
  show ?case
  proof (cases "\<exists>p v. pending t p = Some v \<and> v \<le> now")
    case False
    have n: "{p. \<exists>v\<le>now. pending t p = Some v} = {}" using False by auto
    have o: "slots_ok t" using less.prems(1) by (simp add: queue_ok_def)
    show ?thesis
    proof (cases "m_size t = 0")
      case True
      then have "Routine (\<lambda>_ _. []) t = Some (until_next now t, t)"
        using queue_empty [OF o] by (subst Routine.simps) (simp add: timer_round_def until_next_def)
      then show ?thesis using less.prems(1) n by (intro exI [of _ t] exI [of _ "[]"]) (simp add: runs_def restrict_map_def)
    next
      case nonempty: False
      then obtain p v where p: "pending t p = Some v" using queue_empty [OF o] by (auto simp: fun_eq_iff)
      note g = GetMin_least [OF less.prems(1) p]
      let ?t = "t\<lparr>ticks := ticks t + 1\<rparr>"
      have late: "now < next_time t 1" using False g(3) by (meson not_le)
      have nt: "tk_next (task (GetMin t) t) = next_time t 1" by (simp add: next_time_def GetMin_def)
      have u: "until_next now ?t = c_int64 (int (next_time t 1) - int now)"
        using p g(3) by (auto simp: until_next_def clock_step_ok time_of_def)
      have "timer_round (\<lambda>_ _. []) t = Some (Inl (until_next now ?t, ?t))"
        using nonempty late nt less.prems(2) u by (simp add: timer_round_def time_now_def Let_def)
      then have "Routine (\<lambda>_ _. []) t = Some (until_next now ?t, ?t)"
        by (subst Routine.simps) simp
      then show ?thesis
        using less.prems(1) n by (intro exI [of _ ?t] exI [of _ "[]"]) (simp add: clock_step_ok runs_def restrict_map_def)
    qed
  next
    case True
    then obtain p v where p: "pending t p = Some v" "v \<le> now" by blast
    note g = GetMin_least [OF less.prems(1) p(1)]
    let ?p = "GetMin t"
    have due: "next_time t 1 \<le> now" using g(4) p(2) by simp
    obtain t1 where t1: "timer_round (\<lambda>_ _. []) t = Some (Inr t1)" "queue_ok t1" "clock t1 = (\<lambda>_. now)"
      "pending t1 = (pending t)(?p := None)" "\<And>q. q \<noteq> ?p \<Longrightarrow> memory t1 q = memory t q"
      "ran t1 = ran t @ runs (memory t) [?p]" "m_size t1 = m_size t - 1"
      using timer_round_due [OF less.prems(1,2) p(1) due less.prems(3)] by metis
    have "one_shot t1" using less.prems(3) t1(4,5) unfolding one_shot_def by (metis fun_upd_apply)
    then obtain t' ps where h: "Routine (\<lambda>_ _. []) t1 = Some (until_next now t', t')" "queue_ok t'" "distinct ps"
      "set ps = {p. \<exists>v\<le>now. pending t1 p = Some v}" "sorted (map (time_of t1) ps)"
      "ran t' = ran t1 @ runs (memory t1) ps" "pending t' = pending t1 |` (- set ps)"
      using less.hyps [OF _ t1(2,3)] t1(7) g(1) by auto
    have np: "q \<noteq> ?p \<and> pending t1 q = pending t q" if "q \<in> set ps" for q
      using that h(4) t1(4) by (auto split: if_splits)
    have so: "sorted (map (time_of t) ps)"
    proof -
      have "map (time_of t) ps = map (time_of t1) ps" using np by (intro map_cong) (auto simp: time_of_def)
      then show ?thesis using h(5) by (simp only:)
    qed
    have first: "time_of t ?p \<le> time_of t q" if q: "q \<in> set ps" for q
    proof -
      obtain w where "pending t q = Some w" using q np [OF q] h(4) by auto
      then show ?thesis using GetMin_least [OF less.prems(1)] by (simp add: time_of_def)
    qed
    have "Routine (\<lambda>_ _. []) t = Some (until_next now t', t')" using h(1) t1(1) by (subst Routine.simps) simp
    moreover have "ran t' = ran t @ runs (memory t) (?p # ps)"
      using h(6) t1(6) runs_cong [of ps "memory t1" "memory t"] t1(5) np by (simp add: runs_Cons [of _ ?p ps])
    moreover have "set (?p # ps) = {p. \<exists>v\<le>now. pending t p = Some v}"
      using h(4) t1(4) g(3) due by auto
    moreover have "pending t' = pending t |` (- set (?p # ps))"
      using h(7) t1(4) by (auto simp: fun_eq_iff restrict_map_def)
    ultimately show ?thesis
      using h(2,3) np so first by (intro exI [of _ t'] exI [of _ "?p # ps"]) auto
  qed
qed

section \<open>The invariant of the timer\<close>

text \<open>\<open>timer_ok\<close>: the queue is in order and identifiers are never zero.\<close>

definition timer_ok :: "timer \<Rightarrow> bool" where
  "timer_ok t \<longleftrightarrow> queue_ok t \<and> 1 \<le> base_id t"

lemma heap_empty: "heap_order f 0" by (simp add: heap_order_def)

lemma timer_ok_new: "timer_ok (queue_new clk)"
  by (simp add: timer_ok_def queue_ok_def slots_ok_def queue_new_def heap_empty)

lemma enqueued_tasks: "slots_ok t \<Longrightarrow> p \<in> enqueued t \<Longrightarrow> m_tasks t p \<noteq> None"
  using slot_task by (auto simp: enqueued_def)

text \<open>The operations of the queue leave the rest of the timer alone, and forget no task.\<close>

lemma reordered_dom: "reordered t t' \<Longrightarrow> m_tasks t' p = None \<longleftrightarrow> m_tasks t p = None"
  unfolding reordered_def memory_def fun_eq_iff by (metis option.map_disc_iff)

lemma set_time_rest [simp]: "base_id (set_time p v t) = base_id t" "m_tasks (set_time p v t) q = None \<longleftrightarrow> m_tasks t q = None"
  by (simp_all add: set_time_def upd_task_def)

lemma RescheduleTask_rest:
  assumes "queue_ok t"
  shows "base_id (snd (RescheduleTask p v t)) = base_id t"
    "m_tasks (snd (RescheduleTask p v t)) q = None \<longleftrightarrow> m_tasks t q = None"
proof -
  have o: "slots_ok t" using assms by (simp add: queue_ok_def)
  note s = set_time_slots [OF o, of p v]
  have i: "FindTaskIndex p t > 0 \<Longrightarrow> 1 \<le> nat (FindTaskIndex p t) \<and> nat (FindTaskIndex p t) \<le> m_size (set_time p v t)"
  proof -
    assume "FindTaskIndex p t > 0"
    then have "p \<in> enqueued t" using FindTaskIndex_enqueued(2) [OF o, of p] by fastforce
    then obtain k where "k \<in> {1..m_size t}" "p = m_queue t k" by (auto simp: enqueued_def)
    then show ?thesis using FindTaskIndex_enqueued(1) [OF o] by simp
  qed
  show "base_id (snd (RescheduleTask p v t)) = base_id t"
    "m_tasks (snd (RescheduleTask p v t)) q = None \<longleftrightarrow> m_tasks t q = None"
    using i reordered_rest [OF FixUp_reordered [OF s]] reordered_rest [OF FixDown_reordered [OF s]]
      reordered_dom [OF FixUp_reordered [OF s]] reordered_dom [OF FixDown_reordered [OF s]]
    by (auto simp: RescheduleTask_def Let_def set_time_def [symmetric])
qed

text \<open>
  \<open>advances\<close>: the invariant is kept, and a task that was taken out of the queue stays in the table and
  out of the queue (its identifier is not used again before it is deleted).
\<close>

definition advances :: "timer \<Rightarrow> timer \<Rightarrow> bool" where
  "advances t t' \<longleftrightarrow> (timer_ok t \<longrightarrow> timer_ok t')
     \<and> (\<forall>p. timer_ok t \<and> m_tasks t p \<noteq> None \<and> p \<notin> enqueued t \<longrightarrow> m_tasks t' p \<noteq> None \<and> p \<notin> enqueued t')"

lemma advances_refl: "advances t t" by (simp add: advances_def)

lemma advances_trans: "advances t u \<Longrightarrow> advances u v \<Longrightarrow> advances t v" by (simp add: advances_def)

lemma memory_dom: "memory t' = memory t \<Longrightarrow> m_tasks t' p = None \<longleftrightarrow> m_tasks t p = None"
  unfolding memory_def fun_eq_iff by (metis option.map_disc_iff)

lemma timer_view_cong:
  assumes "m_queue t' = m_queue t" "m_size t' = m_size t" "m_queue_capacity t' = m_queue_capacity t"
    "\<And>p. p \<in> enqueued t \<Longrightarrow> m_tasks t' p = m_tasks t p" "\<And>p. m_tasks t p \<noteq> None \<Longrightarrow> m_tasks t' p \<noteq> None"
    "base_id t \<ge> 1 \<Longrightarrow> base_id t' \<ge> 1"
  shows "advances t t'"
  using queue_view_cong(1) [OF assms(1-4)] assms by (simp add: advances_def timer_ok_def enqueued_def)

lemma DoSchedule_advances: "advances t (snd (DoSchedule r d p u t))"
proof (cases "timer_ok t")
  case ok: True
  let ?id = "if base_id t \<ge> 0x7FFFFFFF then 1 else base_id t"
  let ?t = "t\<lparr>base_id := ?id + 1\<rparr>"
  show ?thesis
  proof (cases "m_tasks t ?id")
    case None
    define x where "x = \<lparr>tk_state = SCHEDULED, tk_delay = d, tk_period = p, tk_unit = u,
      tk_next = c_size (int (clock t (ticks t)) + int (millistime (c_size d) u)), tk_runner = r, tk_index = 0\<rparr>"
    let ?u = "t\<lparr>base_id := ?id + 1, ticks := ticks t + 1, m_tasks := (m_tasks t)(?id \<mapsto> x)\<rparr>"
    have e: "snd (DoSchedule r d p u t) = queue_add ?id ?u"
      using None by (simp add: DoSchedule_def GenerateTimerTaskID_def time_now_def x_def Let_def)
    have q: "enqueued ?u = enqueued t" by (simp add: enqueued_def)
    have n: "?id \<notin> enqueued t" "?id \<noteq> 0"
      using None enqueued_tasks [of t ?id] ok by (auto simp: timer_ok_def queue_ok_def)
    have a: "advances t ?u" by (rule timer_view_cong) (use n(1) in auto)
    then have oku: "queue_ok ?u" using ok by (simp add: advances_def timer_ok_def)
    have "m_tasks ?u ?id = Some x" by simp
    note ad = queue_add_ok [OF oku _ n(2) this]
    have "m_tasks (queue_add ?id ?u) q = None \<longleftrightarrow> m_tasks ?u q = None" for q
      using memory_dom [OF ad(3)] n(1) q by blast
    then show ?thesis
      using a ad(1,4,5) n(1) q None ok unfolding e advances_def timer_ok_def by auto
  next
    case (Some y)
    then have "snd (DoSchedule r d p u t) = ?t" by (simp add: DoSchedule_def GenerateTimerTaskID_def Let_def)
    moreover have "advances t ?t" by (rule timer_view_cong) auto
    ultimately show ?thesis by simp
  qed
qed (simp add: advances_def)

lemma Cancel_view:
  assumes "timer_ok t"
  shows "advances t (snd (Cancel p t))" "pending (snd (Cancel p t)) = pending t"
proof -
  let ?t = "snd (Cancel p t)"
  have o: "queue_ok t" using assms by (simp add: timer_ok_def)
  have f: "m_queue ?t = m_queue t" "m_size ?t = m_size t" "m_queue_capacity ?t = m_queue_capacity t"
    "base_id ?t = base_id t" "enqueued ?t = enqueued t"
    "m_tasks ?t = (m_tasks t)(p := map_option (\<lambda>x. x\<lparr>tk_state := CANCELLED\<rparr>) (m_tasks t p))"
    by (simp_all add: Cancel_def upd_task_def enqueued_def)
  show "pending ?t = pending t"
    using f(5,6) by (auto simp: fun_eq_iff pending_def option.map_comp comp_def)
  have "slot_ok k ?t = slot_ok k t" for k using f(1,6) by (auto simp: slot_ok_def split: option.splits)
  moreover have "next_time ?t = next_time t"
    by (auto simp: fun_eq_iff next_time_def task_def f(1,6) map_option_case split: option.split)
  ultimately have "queue_ok ?t" using o f by (simp add: queue_ok_def slots_ok_def)
  then show "advances t ?t" using assms f by (simp add: advances_def timer_ok_def)
qed

lemma AdjustNextTriggerTime_advances:
  assumes "timer_ok t" "AdjustNextTriggerTime p v u t = Some (b, t')"
  shows "advances t t'"
proof (cases "m_tasks t p")
  case None
  then show ?thesis using assms(2) advances_refl by (simp add: AdjustNextTriggerTime_def)
next
  case (Some x)
  have ok: "queue_ok t" using assms(1) by (simp add: timer_ok_def)
  let ?a = "int (millistime (nat \<bar>v\<bar>) u)"
  let ?n = "c_size (if v > 0 then int (tk_next x) + ?a else int (tk_next x) - ?a)"
  have e: "fst (RescheduleTask p ?n t)" "t' = snd (RescheduleTask p ?n t)"
    using assms(2) Some by (auto simp: AdjustNextTriggerTime_def Let_def split: prod.splits if_splits)
  have p: "pending t p \<noteq> None"
  proof
    assume "pending t p = None"
    then have "RescheduleTask p n t = (False, t)" for n using RescheduleTask_ok(2) [OF ok] by blast
    then show False using e(1) by simp
  qed
  note r = RescheduleTask_ok(1) [OF ok p, of ?n] and s = RescheduleTask_rest [OF ok, of p ?n]
  have "enqueued t' = enqueued t"
    using r ok p e(2) enqueued_pending by (auto simp: queue_ok_def set_eq_iff)
  then show ?thesis using r s e(2) assms(1) by (simp add: advances_def timer_ok_def)
qed

lemma timer_call_advances: "timer_ok t \<Longrightarrow> timer_call c t = Some t' \<Longrightarrow> advances t t'"
  using DoSchedule_advances Cancel_view(1) AdjustNextTriggerTime_advances
  by (auto simp: timer_call_def split: timer_call.splits)

lemma timer_calls_advances: "timer_ok t \<Longrightarrow> timer_calls cs t = Some t' \<Longrightarrow> advances t t'"
proof (induction cs arbitrary: t)
  case (Cons c cs)
  then obtain u where u: "timer_call c t = Some u" "timer_calls cs u = Some t'" by (auto simp: Option.bind_eq_Some_conv)
  have a: "advances t u" using timer_call_advances Cons.prems(1) u(1) .
  then have "timer_ok u" using Cons.prems(1) by (simp add: advances_def)
  then show ?case using advances_trans [OF a] Cons.IH u(2) by blast
qed (simp add: advances_refl)

lemma timer_ok_same_queue: "timer_ok (t\<lparr>ran := r\<rparr>) = timer_ok t" "timer_ok (t\<lparr>ticks := n\<rparr>) = timer_ok t"
  by (simp_all add: timer_ok_def ran_step_ok clock_step_ok)

lemma RemoveMin_advances:
  assumes "timer_ok t" "m_size t \<noteq> 0"
  shows "timer_ok (RemoveMin t)" "GetMin t \<notin> enqueued (RemoveMin t)" "m_tasks (RemoveMin t) (GetMin t) \<noteq> None"
proof -
  have o: "queue_ok t" using assms(1) by (simp add: timer_ok_def)
  note r = RemoveMin_ok [OF o assms(2)]
  show "timer_ok (RemoveMin t)" using r(1,8) assms(1) by (simp add: timer_ok_def)
  show "GetMin t \<notin> enqueued (RemoveMin t)" using r(4) by simp
  have "GetMin t \<in> enqueued t" using assms(2) by (auto simp: enqueued_def GetMin_def)
  then show "m_tasks (RemoveMin t) (GetMin t) \<noteq> None"
    using enqueued_tasks o memory_dom [OF r(3)] by (simp add: queue_ok_def)
qed

lemma run_task_advances: "timer_ok t \<Longrightarrow> run_task R r t = Some t' \<Longrightarrow> timer_ok t' \<and>
    (m_tasks t p \<noteq> None \<and> p \<notin> enqueued t \<longrightarrow> p \<notin> enqueued t')"
  using timer_calls_advances [of "t\<lparr>ran := ran t @ [r]\<rparr>" "R r (ran t)" t']
  by (simp add: run_task_def timer_ok_same_queue advances_def) (simp add: enqueued_def)

lemma DoTerminated_timer_ok: "timer_ok t \<Longrightarrow> p \<notin> enqueued t \<Longrightarrow> timer_ok (DoTerminated p t)"
  using DoTerminated_ok(1) by (simp add: timer_ok_def) (simp add: DoTerminated_def)

lemma set_state_timer_ok:
  "timer_ok t \<Longrightarrow> p \<notin> enqueued t \<Longrightarrow> timer_ok (upd_task p f t) \<and> enqueued (upd_task p f t) = enqueued t
     \<and> (m_tasks (upd_task p f t) p = None \<longleftrightarrow> m_tasks t p = None)"
proof -
  assume a: "timer_ok t" "p \<notin> enqueued t"
  have "queue_ok (upd_task p f t) = queue_ok t"
    by (rule queue_view_cong(1)) (use a(2) in \<open>auto simp: upd_task_def\<close>)
  then show ?thesis using a(1) by (simp add: timer_ok_def) (simp add: upd_task_def enqueued_def)
qed

lemma timer_round_ok:
  assumes ok: "timer_ok t" and r: "timer_round R t = Some res"
  shows "case res of Inl (_, t') \<Rightarrow> timer_ok t' | Inr t' \<Rightarrow> timer_ok t'"
proof (cases "m_size t = 0")
  case True
  then show ?thesis using assms by (auto simp: timer_round_def)
next
  case ne: False
  let ?p = "GetMin t" and ?x = "task (GetMin t) t" and ?t = "t\<lparr>ticks := ticks t + 1\<rparr>"
  have okt: "timer_ok ?t" "m_size ?t \<noteq> 0" using ok ne by (simp_all add: timer_ok_same_queue)
  note rm = RemoveMin_advances [OF okt, unfolded clock_step_ok]
  let ?u = "upd_task ?p (\<lambda>x. x\<lparr>tk_state := EXECUTED\<rparr>) (RemoveMin ?t)"
  note su = set_state_timer_ok [OF rm(1,2), of "\<lambda>x. x\<lparr>tk_state := EXECUTED\<rparr>"]
  let ?v = "RescheduleMin (c_size (int (clock t (ticks t + 1)) + int (millistime (c_size (tk_period ?x)) (tk_unit ?x))))
    (t\<lparr>ticks := ticks t + 2\<rparr>)"
  have okv: "timer_ok ?v"
  proof -
    let ?w = "t\<lparr>ticks := ticks t + 2\<rparr>"
    have w: "timer_ok ?w" "m_size ?w \<noteq> 0" using ok ne by (simp_all add: timer_ok_same_queue)
    have "base_id ?v = base_id t"
    proof -
      have "slots_ok (set_time (m_queue ?w 1) n ?w)" for n
        using w(1) by (intro set_time_slots) (simp add: timer_ok_def queue_ok_def)
      then show ?thesis
        using reordered_rest [OF FixDown_reordered, of "set_time (m_queue ?w 1) n ?w" 1 for n]
        by (simp add: RescheduleMin_def set_time_def upd_task_def)
    qed
    then show ?thesis using RescheduleMin_ok(1) w ok by (simp add: timer_ok_def)
  qed
  consider (late) "tk_next ?x > clock t (ticks t)"
    | (null) "tk_next ?x \<le> clock t (ticks t)" "tk_runner ?x = 0"
    | (period) "tk_next ?x \<le> clock t (ticks t)" "tk_runner ?x \<noteq> 0" "tk_state ?x = SCHEDULED" "tk_period ?x > 0"
    | (once) "tk_next ?x \<le> clock t (ticks t)" "tk_runner ?x \<noteq> 0" "tk_state ?x = SCHEDULED" "tk_period ?x \<le> 0"
    | (other) "tk_next ?x \<le> clock t (ticks t)" "tk_runner ?x \<noteq> 0" "tk_state ?x \<noteq> SCHEDULED"
    by fastforce
  then show ?thesis
  proof cases
    case late
    then show ?thesis using r ne okt(1) by (auto simp: timer_round_def time_now_def Let_def)
  next
    case null
    then show ?thesis using r ne rm(1) by (auto simp: timer_round_def time_now_def Let_def)
  next
    case period
    then have "map_option Inr (run_task R (tk_runner ?x) ?v) = Some res"
      using r ne by (simp add: timer_round_def time_now_def Let_def)
    then show ?thesis using run_task_advances [OF okv] by (auto split: sum.split)
  next
    case once
    then have "map_option (\<lambda>t. Inr (DoTerminated ?p t)) (run_task R (tk_runner ?x) ?u) = Some res"
      using r ne by (simp add: timer_round_def time_now_def Let_def)
    then obtain w where w: "run_task R (tk_runner ?x) ?u = Some w" "res = Inr (DoTerminated ?p w)" by blast
    have "timer_ok w" "?p \<notin> enqueued w"
      using run_task_advances [OF conjunct1 [OF su] w(1), of ?p] su rm(2,3) by auto
    then show ?thesis using DoTerminated_timer_ok w(2) by simp
  next
    case other
    then show ?thesis
      using r ne DoTerminated_timer_ok [OF rm(1,2)] by (auto simp: timer_round_def time_now_def Let_def)
  qed
qed

lemma Routine_ok:
  assumes "Routine R t = Some y"
  shows "timer_ok t \<longrightarrow> timer_ok (snd y)"
proof (rule Routine.raw_induct [OF _ assms])
  fix f :: "(nat \<Rightarrow> nat list \<Rightarrow> timer_call list) \<Rightarrow> timer \<Rightarrow> (int \<times> timer) option" and R t y
  assume h: "\<And>R t y. f R t = Some y \<Longrightarrow> timer_ok t \<longrightarrow> timer_ok (snd y)"
    and y: "do { r \<leftarrow> timer_round R t; case r of Inl res \<Rightarrow> Some res | Inr t \<Rightarrow> f R t } = Some y"
  obtain res where res: "timer_round R t = Some res" and
    rest: "(case res of Inl x \<Rightarrow> Some x | Inr u \<Rightarrow> f R u) = Some y"
    using y by (auto simp: Option.bind_eq_Some_conv)
  show "timer_ok t \<longrightarrow> timer_ok (snd y)"
    using timer_round_ok [OF _ res] rest h by (cases res) auto
qed

text \<open>
  A periodic task whose period is less than half a millisecond is due again at once: the run at a fixed
  time never ends.
\<close>

definition busy :: "nat \<Rightarrow> timer \<Rightarrow> bool" where
  "busy now t \<longleftrightarrow> timer_ok t \<and> clock t = (\<lambda>_. now) \<and> m_size t = 1 \<and>
     (case m_tasks t (GetMin t) of None \<Rightarrow> False | Some x \<Rightarrow> runnable x \<and> tk_next x \<le> now \<and> tk_period x > 0
        \<and> millistime (c_size (tk_period x)) (tk_unit x) = 0)"

lemma FixDown_one: "m_size t = 1 \<Longrightarrow> FixDown (Suc 0) t = t"
  by (subst FixDown.simps) simp

lemma busy_round:
  assumes "busy now t" "now < 2 ^ 64"
  shows "\<exists>t1. timer_round (\<lambda>_ _. []) t = Some (Inr t1) \<and> busy now t1"
proof -
  obtain x where x: "m_tasks t (GetMin t) = Some x" "runnable x" "tk_next x \<le> now" "tk_period x > 0"
      "millistime (c_size (tk_period x)) (tk_unit x) = 0"
    and t: "timer_ok t" "clock t = (\<lambda>_. now)" "m_size t = 1"
    using assms(1) by (auto simp: busy_def split: option.splits)
  have c: "c_size (int now) = now" using assms(2) by (simp add: c_size_def)
  let ?t1 = "(upd_task (GetMin t) (\<lambda>x. x\<lparr>tk_next := now\<rparr>) (t\<lparr>ticks := ticks t + 2\<rparr>))\<lparr>ran := ran t @ [tk_runner x]\<rparr>"
  have r: "timer_round (\<lambda>_ _. []) t = Some (Inr ?t1)"
    using x t c
    by (simp add: timer_round_def time_now_def task_def runnable_def RescheduleMin_def GetMin_def Let_def FixDown_one
        upd_task_def run_task_def)
  moreover have "timer_ok ?t1" using timer_round_ok [OF t(1) r] by simp
  ultimately show ?thesis using x t by (auto simp: busy_def upd_task_def GetMin_def runnable_def)
qed

lemma Routine_busy:
  assumes "Routine R t = Some y"
  shows "R = (\<lambda>_ _. []) \<longrightarrow> (\<forall>now < 2 ^ 64. \<not> busy now t)"
proof (rule Routine.raw_induct [OF _ assms])
  fix f :: "(nat \<Rightarrow> nat list \<Rightarrow> timer_call list) \<Rightarrow> timer \<Rightarrow> (int \<times> timer) option" and R t y
  assume "\<And>R t y. f R t = Some y \<Longrightarrow> R = (\<lambda>_ _. []) \<longrightarrow> (\<forall>now < 2 ^ 64. \<not> busy now t)"
    and "do { r \<leftarrow> timer_round R t; case r of Inl res \<Rightarrow> Some res | Inr t \<Rightarrow> f R t } = Some y"
  then show "R = (\<lambda>_ _. []) \<longrightarrow> (\<forall>now < 2 ^ 64. \<not> busy now t)"
    using busy_round by fastforce
qed

lemma Routine_never_ends: "busy now t \<Longrightarrow> now < 2 ^ 64 \<Longrightarrow> Routine (\<lambda>_ _. []) t = None"
  using Routine_busy [of "\<lambda>_ _. []" t] by (cases "Routine (\<lambda>_ _. []) t") auto

section \<open>Properties\<close>

definition two_tasks :: timer where
  "two_tasks = snd (DoSchedule 8 0 0 MILLIS (snd (DoSchedule 7 5 0 MILLIS (queue_new (\<lambda>_. 100)))))"

lemma two_tasks_ok: "timer_ok two_tasks"
  using DoSchedule_advances timer_ok_new unfolding two_tasks_def advances_def by blast

lemma two_tasks_queue:
  "m_queue two_tasks = (\<lambda>_. 0)(1 := 2, 2 := 1)" "m_size two_tasks = 2"
  "m_tasks two_tasks = [1 \<mapsto> \<lparr>tk_state = SCHEDULED, tk_delay = 5, tk_period = 0, tk_unit = MILLIS, tk_next = 105,
      tk_runner = 7, tk_index = 2\<rparr>,
    2 \<mapsto> \<lparr>tk_state = SCHEDULED, tk_delay = 0, tk_period = 0, tk_unit = MILLIS, tk_next = 100,
      tk_runner = 8, tk_index = 1\<rparr>]"
  "clock two_tasks = (\<lambda>_. 100)" "timer.ran two_tasks = []"
  by (simp_all add: two_tasks_def DoSchedule_def GenerateTimerTaskID_def time_now_def queue_new_def queue_add_def
      FixUp.simps [of "Suc 0"] FixUp.simps [of "Suc (Suc 0)"] FixUp.simps [of 2] set_slot_def upd_task_def next_time_def task_def swap_slots_def
      millistime_def fun_eq_iff Let_def)

lemma two_tasks_enqueued: "enqueued two_tasks = {1, 2}"
proof -
  have "{1..2} = {1, 2 :: nat}" by auto
  then show ?thesis by (simp add: enqueued_def two_tasks_queue insert_commute)
qed

lemma two_tasks_pending: "pending two_tasks = [1 \<mapsto> 105, 2 \<mapsto> 100]"
  by (simp add: fun_eq_iff pending_def two_tasks_enqueued) (simp add: two_tasks_queue)

lemma two_tasks_one_shot: "one_shot two_tasks"
  by (auto simp: one_shot_def two_tasks_pending memory_def two_tasks_queue split: if_splits)

text \<open>C36: the array queue refines a map from the enqueued tasks to their times: adding a task inserts it, taking
  the minimum out deletes it, rescheduling updates one time and fails exactly for a task that is not enqueued, the heap
  order and the slot numbers of the tasks are kept, and the first task is one with the least time.\<close>

theorem timer_queue_refines:
  assumes "queue_ok t"
  shows "(\<forall>p x. p \<notin> enqueued t \<and> p \<noteq> 0 \<and> m_tasks t p = Some x \<longrightarrow>
        queue_ok (queue_add p t) \<and> pending (queue_add p t) = (pending t)(p \<mapsto> tk_next x))
    \<and> (m_size t \<noteq> 0 \<longrightarrow> queue_ok (RemoveMin t) \<and> pending (RemoveMin t) = (pending t)(GetMin t := None))
    \<and> (m_size t \<noteq> 0 \<longrightarrow> queue_ok (RescheduleMin v t) \<and> pending (RescheduleMin v t) = (pending t)(GetMin t \<mapsto> v))
    \<and> (pending t p \<noteq> None \<longrightarrow> (\<exists>t'. RescheduleTask p v t = (True, t') \<and> queue_ok t' \<and> pending t' = (pending t)(p \<mapsto> v)))
    \<and> (pending t p = None \<longrightarrow> RescheduleTask p v t = (False, t))
    \<and> (\<forall>p v. pending t p = Some v \<longrightarrow> (\<exists>w\<le>v. pending t (GetMin t) = Some w))"
proof (intro conjI)
  show "\<forall>p x. p \<notin> enqueued t \<and> p \<noteq> 0 \<and> m_tasks t p = Some x \<longrightarrow>
      queue_ok (queue_add p t) \<and> pending (queue_add p t) = (pending t)(p \<mapsto> tk_next x)"
    using queue_add_ok(1,2) [OF assms] by blast
  show "pending t p \<noteq> None \<longrightarrow> (\<exists>t'. RescheduleTask p v t = (True, t') \<and> queue_ok t' \<and> pending t' = (pending t)(p \<mapsto> v))"
    using RescheduleTask_ok(1) [OF assms, of p v] by (cases "RescheduleTask p v t") auto
  show "\<forall>p v. pending t p = Some v \<longrightarrow> (\<exists>w\<le>v. pending t (GetMin t) = Some w)"
    using GetMin_least(3,4) [OF assms] by blast
qed (use RemoveMin_ok(1,2) [OF assms] RescheduleMin_ok [OF assms] RescheduleTask_ok(2) [OF assms] in \<open>simp_all\<close>)

lemma timer_queue_refines_witness:
  "queue_ok two_tasks \<and> pending (RemoveMin two_tasks) = [1 \<mapsto> 105] \<and> RescheduleTask 9 3 two_tasks = (False, two_tasks)"
proof -
  have q: "queue_ok two_tasks" using two_tasks_ok by (simp add: timer_ok_def)
  have e: "[1 \<mapsto> 105, 2 \<mapsto> 100](2 := None) = [(1 :: nat) \<mapsto> (105 :: nat)]" by (simp add: fun_eq_iff)
  show ?thesis
    using timer_queue_refines [OF q, where p = 9 and v = 3] q e by (simp add: two_tasks_pending two_tasks_queue GetMin_def)
qed

text \<open>whatever the runners do, scheduling, cancelling, adjusting and running tasks keeps the queue of the timer
  in order, starting from the empty timer.\<close>

theorem timer_invariant:
  "timer_ok (queue_new clk) \<and> (timer_ok t \<longrightarrow> timer_call c t = Some t' \<longrightarrow> timer_ok t')
     \<and> (timer_ok t \<longrightarrow> Routine R t = Some (r, t'') \<longrightarrow> timer_ok t'')"
  using timer_ok_new timer_call_advances [of t c t'] Routine_ok [of R t "(r, t'')"] by (auto simp: advances_def)

text \<open>C29: a run of the timer at one time, over tasks that are not periodic and do not call back, ends; it
  executes exactly the tasks that are due and were not cancelled, each once, in the order of their times; the other
  tasks stay with their times, and the result is the time to the first of them.\<close>

theorem timer_runs_what_is_due:
  assumes "queue_ok t" "clock t = (\<lambda>_. now)" "one_shot t"
  shows "\<exists>t' ps. Routine (\<lambda>_ _. []) t = Some (until_next now t', t') \<and> queue_ok t' \<and> distinct ps
    \<and> set ps = {p. \<exists>v\<le>now. pending t p = Some v} \<and> sorted (map (time_of t) ps)
    \<and> ran t' = ran t @ runs (memory t) ps \<and> pending t' = pending t |` (- set ps)"
  by (rule Routine_due [OF assms])

lemma timer_runs_what_is_due_witness:
  "\<exists>t'. Routine (\<lambda>_ _. []) two_tasks = Some (until_next 100 t', t') \<and> timer.ran t' = [8] \<and> pending t' = [1 \<mapsto> 105]"
proof -
  have q: "queue_ok two_tasks" using two_tasks_ok by (simp add: timer_ok_def)
  obtain t' ps where h: "Routine (\<lambda>_ _. []) two_tasks = Some (until_next 100 t', t')" "distinct ps"
    "set ps = {p. \<exists>v\<le>100. pending two_tasks p = Some v}"
    "timer.ran t' = timer.ran two_tasks @ runs (memory two_tasks) ps" "pending t' = pending two_tasks |` (- set ps)"
    using timer_runs_what_is_due [OF q two_tasks_queue(4) two_tasks_one_shot] by (elim exE conjE) (rule that)
  have "(\<exists>v\<le>100. pending two_tasks p = Some v) \<longleftrightarrow> p = 2" for p
    unfolding two_tasks_pending by (cases "p = 2"; cases "p = 1") simp_all
  then have s: "set ps = {2}" unfolding h(3) by simp
  then have l: "length ps = 1" using distinct_card [OF h(2)] by simp
  then obtain q where "ps = [q]" by (cases ps) auto
  then have ps: "ps = [2]" using s by simp
  have "timer.ran t' = [8]" using h(4) ps by (simp add: runs_def memory_def runnable_def two_tasks_queue)
  moreover have "pending t' = [1 \<mapsto> 105]" using h(5) s by (simp add: two_tasks_pending restrict_map_def fun_eq_iff)
  ultimately show ?thesis using h(1) by blast
qed

end
