(* ===== verification/Cron.thy ===== *)
theory Cron
  imports Slowlog_Stats
begin

text \<open>
  The periodic tasks of the server (\<open>cron.cpp\<close>): removing expired keys, closing connections that are
  idle for too long and sampling the operations per second. The scan of the storage engine for expired
  keys is a parameter that is given the callback of the server. Closing idle connections works while
  the first pass over the connections lasts, and forgets all but the newest connection after it.
\<close>

section \<open>The tasks\<close>

record cron =
  expire_check_start_time :: nat
  expire_check_period_delete_keynum :: nat
  last_check_id :: nat

definition cron_new :: cron where
  "cron_new = \<lparr>expire_check_start_time = 0, expire_check_period_delete_keynum = 0, last_check_id = 0\<rparr>"

definition expire_check_max_mills :: nat where "expire_check_max_mills = 10"

text \<open>The callback: the deletion goes to the log, and minus one tells the engine to stop for now.\<close>

definition MMKVExpireCallback :: "DBID \<Rightarrow> string \<Rightarrow> cron \<times> 's server \<Rightarrow> int \<times> cron \<times> 's server" where
  "MMKVExpireCallback db key cs =
     (let (c, s) = cs;
          s = WriteWAL db (AddArg (RedisCommandFrame_new ''del'') key) s;
          c = c\<lparr>expire_check_period_delete_keynum := c_size (int (expire_check_period_delete_keynum c) + 1)\<rparr>;
          s = s\<lparr>stat_expiredkeys := c_size (int (stat_expiredkeys s) + 1)\<rparr>;
          (now, s) = read_millis s
      in (if c_size (int now - int (expire_check_start_time c)) \<ge> expire_check_max_mills then - 1 else 0, c, s))"

text \<open>\<open>RemoveExpiredKeys\<close> of the engine: it runs the callback on the expired keys it finds.\<close>

type_synonym 's expire_scan =
  "(DBID \<Rightarrow> string \<Rightarrow> cron \<times> 's server \<Rightarrow> int \<times> cron \<times> 's server) \<Rightarrow> cron \<times> 's server \<Rightarrow> int \<times> cron \<times> 's server"

partial_function (option) expire_rounds :: "'s expire_scan \<Rightarrow> cron \<times> 's server \<Rightarrow> (cron \<times> 's server) option" where
  "expire_rounds RemoveExpiredKeys cs =
     (let (now, s) = read_millis (snd cs);
          (r, cs) = RemoveExpiredKeys MMKVExpireCallback ((fst cs)\<lparr>expire_check_start_time := now\<rparr>, s)
      in if r < 0 then expire_rounds RemoveExpiredKeys cs else Some cs)"

definition ExpireCheck_Run :: "'s expire_scan \<Rightarrow> cron \<times> 's server \<Rightarrow> (cron \<times> 's server) option" where
  "ExpireCheck_Run RemoveExpiredKeys cs =
     (if master_host (m_cfg (snd cs)) \<noteq> [] then Some cs
      else expire_rounds RemoveExpiredKeys ((fst cs)\<lparr>expire_check_period_delete_keynum := 0\<rparr>, snd cs))"

text \<open>
  \<open>ConnectionTimeout\<close>: at most one hundred connections are looked at, from the one where the last run
  stopped. A context without a client is a null dereference. The closing is posted to the thread of the
  connection. \<open>timeout\<close> is the configured number of seconds.
\<close>

definition max_check :: nat where "max_check = 100"

definition idle_too_long :: "int \<Rightarrow> ctxid \<Rightarrow> 's server \<Rightarrow> bool \<times> 's server" where
  "idle_too_long timeout c s =
     (if processing (ctx s c) then (False, s)
      else let (now, s) = read_clock s
           in (c_size (int now - int (last_interaction_ustime (ctx s c))) > c_size (timeout * 1000000), s))"

definition post_close :: "nat \<Rightarrow> ctxid \<Rightarrow> 's server \<Rightarrow> 's server" where
  "post_close i c s =
     (case client (ctx s c) of None \<Rightarrow> s\<lparr>fault := True\<rparr> | Some _ \<Rightarrow> s\<lparr>close_queue := close_queue s @ [i]\<rparr>)"

fun timeout_loop ::
    "int \<Rightarrow> nat \<Rightarrow> (nat \<times> ctxid) list \<Rightarrow> nat \<Rightarrow> 's server \<Rightarrow> nat \<times> 's server" where
  "timeout_loop timeout cursor [] k s = (k, s)"
| "timeout_loop timeout cursor ((i, c) # rest) k s =
     (let (idle, s) = idle_too_long timeout c s;
          s = (if idle then post_close i c s else s)
      in if cursor + 1 \<ge> max_check then (i, s) else timeout_loop timeout (cursor + 1) rest i s)"

text \<open>Iterating over a sorted map from \<open>lower_bound\<close> meets the entries whose key is at least the given one.\<close>

definition lower_bound :: "nat \<Rightarrow> (nat, 'v) tree_map \<Rightarrow> (nat, 'v) tree_map" where
  "lower_bound k m = filter (\<lambda>p. k \<le> fst p) m"

definition ConnectionTimeout_Run :: "int \<Rightarrow> cron \<times> 's server \<Rightarrow> cron \<times> 's server" where
  "ConnectionTimeout_Run timeout cs =
     (if timeout = 0 then cs
      else let (c, s) = cs;
               (k, s) = timeout_loop timeout 0 (lower_bound (last_check_id c) (m_clients s)) (last_check_id c) s
           in (c\<lparr>last_check_id := k\<rparr>, s))"

definition TrackOpsTask_Run :: "'s server \<Rightarrow> 's server" where
  "TrackOpsTask_Run s = TrackOperationsPerSecond s"

text \<open>The tasks that \<open>CronManager::Start\<close> schedules, with their periods in milliseconds.\<close>

datatype cron_task = ExpireCheck | ConnectionTimeout | TrackOps

definition cron_tasks :: "(cron_task \<times> nat) list" where
  "cron_tasks = [(ExpireCheck, 100), (ConnectionTimeout, 100), (TrackOps, 1000)]"

section \<open>Idle connections\<close>

text \<open>What a run may change: the reading of the clock, the fault flag and the posted closings.\<close>

definition posts :: "nat list \<Rightarrow> 's server \<Rightarrow> 's server \<Rightarrow> bool" where
  "posts ids s s' \<longleftrightarrow> (\<exists>n b. s' = s\<lparr>clock_reads := n, close_queue := close_queue s @ ids, fault := b\<rparr>)"

lemma posts_Nil: "posts [] s s" unfolding posts_def by (intro exI [of _ "clock_reads s"] exI [of _ "fault s"]) simp

lemma posts_trans: "posts is s t \<Longrightarrow> posts js t u \<Longrightarrow> posts (is @ js) s u"
  unfolding posts_def by (elim exE) (intro exI, simp)

lemma idle_posts: "snd (idle_too_long timeout c s) = t \<Longrightarrow> posts [] s t"
  by (auto simp: idle_too_long_def read_clock_def posts_def Let_def intro!: exI [of _ "clock_reads t"] exI [of _ "fault s"])

lemma post_close_posts: "\<exists>ids. set ids \<subseteq> {i} \<and> posts ids s (post_close i c s)"
proof (cases "client (ctx s c)")
  case None
  then show ?thesis by (intro exI [of _ "[]"]) (auto simp: post_close_def posts_def intro!: exI [of _ "clock_reads s"])
next
  case (Some ch)
  then show ?thesis
    by (intro exI [of _ "[i]"]) (auto simp: post_close_def posts_def intro!: exI [of _ "clock_reads s"] exI [of _ "fault s"])
qed

lemma timeout_loop_posts:
  assumes "timeout_loop timeout cursor m k s = (k', s')" "sorted (k # map fst m)"
  shows "\<exists>ids. posts ids s s' \<and> set ids \<subseteq> fst ` set m \<and> k \<le> k'"
  using assms
proof (induction timeout cursor m k s rule: timeout_loop.induct)
  case (1 timeout cursor k s)
  then show ?case using posts_Nil by fastforce
next
  case (2 timeout cursor i c rest k s)
  obtain idle s1 where i: "idle_too_long timeout c s = (idle, s1)" by fastforce
  let ?s2 = "if idle then post_close i c s1 else s1"
  have p1: "posts [] s s1" using idle_posts i by (metis snd_conv)
  obtain a where a: "set a \<subseteq> {i}" "posts a s ?s2"
    using posts_trans [OF p1 posts_Nil] posts_trans [OF p1] post_close_posts [of i s1 c]
    by (cases idle) (auto, force)
  show ?case
  proof (cases "cursor + 1 \<ge> max_check")
    case True
    then have "k' = i" "s' = ?s2" using "2.prems"(1) i by (auto simp: Let_def split: if_splits)
    then show ?thesis using a "2.prems"(2) by auto
  next
    case False
    then have "timeout_loop timeout (cursor + 1) rest i ?s2 = (k', s')"
      using "2.prems"(1) i by (simp add: Let_def split: if_splits)
    then obtain b where b: "posts b ?s2 s'" "set b \<subseteq> fst ` set rest" "i \<le> k'"
      using "2.IH" [OF i [symmetric] refl refl False] "2.prems"(2) by auto
    show ?thesis
      using posts_trans [OF a(2) b(1)] a(1) b(2,3) "2.prems"(2) by (intro exI [of _ "a @ b"]) auto
  qed
qed

lemma sorted_lower_bound: "map_ok m \<Longrightarrow> sorted (k # map fst (lower_bound k m))"
proof -
  assume "map_ok m"
  then have "sorted_wrt (\<lambda>x y. fst x < fst y) (lower_bound k m)"
    unfolding map_ok_def lower_bound_def by (simp add: sorted_wrt_map sorted_wrt_filter)
  then have "sorted_wrt (\<lambda>x y. fst x \<le> fst y) (lower_bound k m)" by (rule sorted_wrt_mono_rel [rotated]) simp
  then show ?thesis by (auto simp: sorted_map lower_bound_def)
qed

lemma ConnectionTimeout_posts:
  assumes "map_ok (m_clients s)" "ConnectionTimeout_Run timeout (c, s) = (c', s')"
  shows "\<exists>ids. posts ids s s' \<and> (\<forall>i \<in> set ids. last_check_id c \<le> i) \<and> last_check_id c \<le> last_check_id c'"
proof (cases "timeout = 0")
  case True
  then have "c' = c" "s' = s" using assms(2) by (simp_all add: ConnectionTimeout_Run_def)
  then show ?thesis using posts_Nil by (intro exI [of _ "[]"]) simp
next
  case False
  obtain k t where k: "timeout_loop timeout 0 (lower_bound (last_check_id c) (m_clients s)) (last_check_id c) s = (k, t)"
    by fastforce
  have "fst ` set (lower_bound (last_check_id c) (m_clients s)) \<subseteq> {i. last_check_id c \<le> i}"
    by (auto simp: lower_bound_def)
  moreover obtain ids where "posts ids s t" "set ids \<subseteq> fst ` set (lower_bound (last_check_id c) (m_clients s))"
    "last_check_id c \<le> k"
    using timeout_loop_posts [OF k sorted_lower_bound [OF assms(1)]] by blast
  ultimately have "\<forall>i \<in> set ids. last_check_id c \<le> i" by blast
  with \<open>posts ids s t\<close> \<open>last_check_id c \<le> k\<close> show ?thesis
    using False k assms(2) by (intro exI [of _ ids]) (auto simp: ConnectionTimeout_Run_def)
qed

text \<open>The run looks at every connection from its start when there are at most one hundred of them.\<close>

lemma timeout_loop_last:
  "length m + cursor \<le> max_check \<Longrightarrow> fst (timeout_loop timeout cursor m k s) = (if m = [] then k else fst (last m))"
proof (induction timeout cursor m k s rule: timeout_loop.induct)
  case (2 timeout cursor i c rest k s)
  obtain idle s1 where i: "idle_too_long timeout c s = (idle, s1)" by fastforce
  show ?case
  proof (cases "cursor + 1 \<ge> max_check")
    case True
    then have "rest = []" using "2.prems" by (cases rest) simp_all
    then show ?thesis using True i by (simp add: Let_def)
  next
    case False
    then show ?thesis using "2.IH" [OF i [symmetric] refl refl False] "2.prems" i by (simp add: Let_def)
  qed
qed simp

text \<open>With a clock that stands still, the connections that are closed are those idle for longer than allowed.\<close>

definition idle_at :: "nat \<Rightarrow> int \<Rightarrow> 's server \<Rightarrow> nat \<times> ctxid \<Rightarrow> bool" where
  "idle_at now timeout s p \<longleftrightarrow> \<not> processing (ctx s (snd p))
     \<and> c_size (int now - int (last_interaction_ustime (ctx s (snd p)))) > c_size (timeout * 1000000)"

lemma timeout_loop_idle:
  "length m + cursor \<le> max_check \<Longrightarrow> clock s = (\<lambda>_. now) \<Longrightarrow> (\<forall>p \<in> set m. client (ctx s (snd p)) \<noteq> None) \<Longrightarrow>
   close_queue (snd (timeout_loop timeout cursor m k s)) = close_queue s @ map fst (filter (idle_at now timeout s) m)"
proof (induction timeout cursor m k s rule: timeout_loop.induct)
  case (2 timeout cursor i c rest k s)
  obtain idle s1 where i: "idle_too_long timeout c s = (idle, s1)" by fastforce
  let ?s2 = "if idle then post_close i c s1 else s1"
  have id: "idle = idle_at now timeout s (i, c)"
    using i "2.prems"(2) by (auto simp: idle_too_long_def idle_at_def read_clock_def Let_def split: if_splits)
  obtain n where n: "s1 = s\<lparr>clock_reads := n\<rparr>"
    using i by (auto simp: idle_too_long_def read_clock_def Let_def split: if_splits intro: that [of "clock_reads s"])
  have c2: "close_queue ?s2 = close_queue s @ (if idle then [i] else [])" "clock ?s2 = clock s" "contexts ?s2 = contexts s"
    using n "2.prems"(3) by (auto simp: post_close_def ctx_def)
  show ?case
  proof (cases "cursor + 1 \<ge> max_check")
    case True
    then have "rest = []" using "2.prems" by (cases rest) simp_all
    then show ?thesis using True i c2 id by (simp add: Let_def)
  next
    case False
    have e: "idle_at now timeout ?s2 = idle_at now timeout s" using c2(3) by (simp add: fun_eq_iff idle_at_def ctx_def)
    have "close_queue (snd (timeout_loop timeout (cursor + 1) rest i ?s2))
        = close_queue ?s2 @ map fst (filter (idle_at now timeout ?s2) rest)"
      using "2.IH" [OF i [symmetric] refl refl False] "2.prems" c2 by (simp add: ctx_def)
    then show ?thesis using False i c2(1) e id by (simp add: Let_def)
  qed
qed simp

text \<open>Runs of the task, between which the server does anything it likes.\<close>

fun timeout_runs :: "int \<Rightarrow> ('s server \<Rightarrow> 's server) list \<Rightarrow> cron \<times> 's server \<Rightarrow> nat list" where
  "timeout_runs timeout [] cs = []"
| "timeout_runs timeout (env # envs) (c, s) =
     (let s = env s; (c', s') = ConnectionTimeout_Run timeout (c, s)
      in drop (length (close_queue s)) (close_queue s') @ timeout_runs timeout envs (c', s'))"

lemma timeout_runs_only_newer:
  "(\<forall>env \<in> set envs. \<forall>s. map_ok (m_clients (env s))) \<Longrightarrow> i \<in> set (timeout_runs timeout envs (c, s)) \<Longrightarrow> last_check_id c \<le> i"
proof (induction timeout envs "(c, s)" arbitrary: c s rule: timeout_runs.induct)
  case (2 timeout env envs c s)
  obtain c' s' where r: "ConnectionTimeout_Run timeout (c, env s) = (c', s')" by fastforce
  obtain ids where ids: "posts ids (env s) s'" "\<forall>i \<in> set ids. last_check_id c \<le> i" "last_check_id c \<le> last_check_id c'"
    using ConnectionTimeout_posts [OF _ r] "2.prems"(1) by auto
  have "close_queue s' = close_queue (env s) @ ids" using ids(1) by (auto simp: posts_def)
  then have "i \<in> set ids \<or> i \<in> set (timeout_runs timeout envs (c', s'))" using "2.prems"(2) r by auto
  then show ?case using "2.hyps" [OF refl r [symmetric] refl] "2.prems"(1) ids(2,3) by (meson le_trans list.set_intros(2))
qed simp

text \<open>C35: the first pass over the connections closes exactly those that are idle for too long, but it remembers
  the newest connection, and no later run ever looks at an older one again.\<close>

theorem idle_connections_forgotten:
  assumes "map_ok (m_clients s)" "m_clients s \<noteq> []" "length (m_clients s) \<le> max_check" "timeout \<noteq> 0"
    "clock s = (\<lambda>_. now)" "\<forall>p \<in> set (m_clients s). client (ctx s (snd p)) \<noteq> None"
    "\<forall>env \<in> set envs. \<forall>s. map_ok (m_clients (env s))"
  shows "case ConnectionTimeout_Run timeout (cron_new, s) of (c', s') \<Rightarrow>
    close_queue s' = close_queue s @ map fst (filter (idle_at now timeout s) (m_clients s))
    \<and> last_check_id c' = fst (last (m_clients s))
    \<and> (\<forall>i \<in> set (timeout_runs timeout envs (c', s')). fst (last (m_clients s)) \<le> i)"
proof -
  have l: "lower_bound 0 (m_clients s) = m_clients s" by (simp add: lower_bound_def)
  obtain k t where k: "timeout_loop timeout 0 (m_clients s) 0 s = (k, t)" by fastforce
  have "ConnectionTimeout_Run timeout (cron_new, s) = (cron_new\<lparr>last_check_id := k\<rparr>, t)"
    using assms(4) k l by (simp add: ConnectionTimeout_Run_def cron_new_def)
  moreover have "k = fst (last (m_clients s))"
    using timeout_loop_last [of "m_clients s" 0 timeout 0 s] assms(2,3) k by simp
  moreover have "close_queue t = close_queue s @ map fst (filter (idle_at now timeout s) (m_clients s))"
    using timeout_loop_idle [of "m_clients s" 0 s now timeout 0] assms(3,5,6) k by simp
  ultimately show ?thesis
    using timeout_runs_only_newer [OF assms(7), of _ timeout "cron_new\<lparr>last_check_id := k\<rparr>" t] by auto
qed

definition cron_demo :: "unit server" where
  "cron_demo = demo_server\<lparr>m_clients := [(1, 1), (2, 2)], contexts := (\<lambda>c. Context_new\<lparr>client := Some c\<rparr>),
     clock := (\<lambda>_. 5000000)\<rparr>"

lemma idle_connections_forgotten_witness:
  "case ConnectionTimeout_Run 3 (cron_new, cron_demo) of (c', s') \<Rightarrow>
     close_queue s' = close_queue cron_demo @ [1, 2] \<and> last_check_id c' = 2
     \<and> 1 \<notin> set (timeout_runs 3 [\<lambda>s. s\<lparr>m_clients := [(1, 1), (2, 2)]\<rparr>] (c', s'))"
proof -
  let ?env = "(\<lambda>s. s\<lparr>m_clients := [(1, 1), (2, 2)]\<rparr>) :: unit server \<Rightarrow> unit server"
  have f: "map fst (filter (idle_at 5000000 3 cron_demo) (m_clients cron_demo)) = [1, 2]"
    by (simp add: cron_demo_def idle_at_def ctx_def Context_new_def c_size_def)
  have h: "map_ok (m_clients cron_demo)" "m_clients cron_demo \<noteq> []" "length (m_clients cron_demo) \<le> max_check"
    "(3 :: int) \<noteq> 0" "clock cron_demo = (\<lambda>_. 5000000)"
    "\<forall>p \<in> set (m_clients cron_demo). client (ctx cron_demo (snd p)) \<noteq> None"
    "\<forall>env \<in> set [?env]. \<forall>s. map_ok (m_clients (env s))"
    by (simp_all add: cron_demo_def max_check_def ctx_def)
  have l: "fst (last (m_clients cron_demo)) = 2" by (simp add: cron_demo_def)
  obtain c' s' where r: "ConnectionTimeout_Run 3 (cron_new, cron_demo) = (c', s')" by fastforce
  show ?thesis
    using idle_connections_forgotten [OF h] unfolding r f l prod.case
    by (metis one_le_numeral le_antisym numeral_eq_one_iff semiring_norm(85))
qed

end
