(* ===== verification/Config_File.thy ===== *)
theory Config_File
  imports String_Helper Server_State
begin

text \<open>
  Configuration files (\<open>common/util/config_helper.cpp\<close>): reading a file into properties, the access to
  integers, strings and flags, changing entries, and the replacement of environment variables. A printed
  file is read back; sizes with a unit are scaled.
\<close>

section \<open>Properties\<close>

type_synonym ConfItems = "string list"
type_synonym ConfItemsArray = "string list list"
type_synonym Properties = "(string, string list list) tree_map"

text \<open>\<open>operator[]\<close> of a map: a missing entry is created empty.\<close>

definition conf_entry :: "string \<Rightarrow> Properties \<Rightarrow> ConfItemsArray" where
  "conf_entry name conf = (case map_find name conf of None \<Rightarrow> [] | Some a \<Rightarrow> a)"

fun erase_first :: "string \<Rightarrow> ConfItemsArray \<Rightarrow> ConfItemsArray" where
  "erase_first value [] = []"
| "erase_first value (it # its) = (if hd it = value then its else it # erase_first value its)"

definition conf_del :: "string \<Rightarrow> string \<Rightarrow> Properties \<Rightarrow> Properties" where
  "conf_del name value conf =
     (let arrays = conf_entry name conf
      in if arrays = [] then map_put name [] conf
         else let arrays = erase_first value arrays
              in if arrays = [] then map_erase name conf else map_put name arrays conf)"

definition conf_set :: "string \<Rightarrow> string \<Rightarrow> bool \<Rightarrow> Properties \<Rightarrow> Properties" where
  "conf_set name value replace conf =
     map_put name ((if replace then [] else conf_entry name conf) @ [[value]]) conf"

section \<open>Files\<close>

definition kConfigLineMax :: nat where "kConfigLineMax = 1024"

definition blanks :: string where "blanks = [CHR 0x0D, CHR 0x0A, CHR 0x09, CHR 0x20]"

definition trim_str :: "string \<Rightarrow> string \<Rightarrow> string" where
  "trim_str s cset =
     (let inside = (\<lambda>c. c \<in> set cset); s = dropWhile inside s in rev (dropWhile inside (rev s)))"

function split_str :: "string \<Rightarrow> string \<Rightarrow> string list" where
  "split_str s sep =
     (if s = [] then []
      else case search sep s of
             None \<Rightarrow> [s]
           | Some i \<Rightarrow> (if i = 0 then [] else [take i s]) @ (if sep = [] then [] else split_str (drop (i + length sep) s) sep))"
  by pat_completeness auto
termination
  by (relation "measure (\<lambda>(s, sep). length s)") auto

declare split_str.simps [simp del]

text \<open>\<open>fgets\<close>: a line with its newline, but no more bytes than the buffer takes; the rest of a longer line comes next.\<close>

fun fgets :: "nat \<Rightarrow> string \<Rightarrow> string \<times> string" where
  "fgets 0 s = ([], s)"
| "fgets (Suc n) [] = ([], [])"
| "fgets (Suc n) (c # s) = (if c = CHR 0x0A then ([c], s) else let (l, r) = fgets n s in (c # l, r))"

lemma fgets_append: "fst (fgets n s) @ snd (fgets n s) = s"
  by (induction n s rule: fgets.induct) (auto split: prod.splits)

lemma fgets_progress: "0 < n \<Longrightarrow> s \<noteq> [] \<Longrightarrow> fst (fgets n s) \<noteq> []"
  by (cases n; cases s) (auto split: prod.splits)

lemma fgets_rest:
  assumes "0 < n" "s \<noteq> []"
  shows "length (snd (fgets n s)) < length s"
proof -
  have "length s = length (fst (fgets n s)) + length (snd (fgets n s))"
    using fgets_append [of n s] by (metis length_append)
  then show ?thesis using fgets_progress [OF assms] by simp
qed

text \<open>One line: \<open>None\<close> is an invalid line.\<close>

definition conf_line :: "string \<Rightarrow> string \<Rightarrow> Properties \<Rightarrow> Properties option" where
  "conf_line sep buf result =
     (let line = trim_str (c_str buf) blanks
      in if line = [] \<or> hd line = CHR ''#'' then Some result
         else let sp_ret = split_str line sep
              in if length sp_ret < 2 then None
                 else let key = trim_str (sp_ret ! 0) blanks; vals = map (\<lambda>v. trim_str v blanks) (tl sp_ret)
                      in Some (map_put key (conf_entry key result @ [vals]) result))"

function conf_lines :: "string \<Rightarrow> string \<Rightarrow> Properties \<Rightarrow> bool \<times> Properties" where
  "conf_lines sep file result =
     (if file = [] then (True, result)
      else let (buf, rest) = fgets (kConfigLineMax - 1) file
           in case conf_line sep buf result of None \<Rightarrow> (False, result) | Some result \<Rightarrow> conf_lines sep rest result)"
  by pat_completeness auto
termination
  by (relation "measure (\<lambda>(sep, file, result). length file)")
    (auto simp: kConfigLineMax_def, metis fgets_rest snd_conv zero_less_numeral)

declare conf_lines.simps [simp del]

text \<open>The file is \<open>None\<close> when it cannot be opened. Entries read before an invalid line stay.\<close>

definition parse_conf_file :: "string option \<Rightarrow> string \<Rightarrow> Properties \<Rightarrow> bool \<times> Properties" where
  "parse_conf_file file sep result = (case file of None \<Rightarrow> (False, result) | Some s \<Rightarrow> conf_lines sep s result)"

section \<open>Values\<close>

definition string_toupper :: "string \<Rightarrow> string" where "string_toupper = map c_toupper"

definition atoll :: "string \<Rightarrow> int" where "atoll s = fst (strtoll (c_str s))"

text \<open>
  The comparison of the position of a unit with the size minus its length: both are unsigned, so a unit
  that is not found equals a size that is too small.
\<close>

definition ends_at :: "string \<Rightarrow> string \<Rightarrow> bool" where
  "ends_at s u =
     (let pos = (case str_find s u 0 of None \<Rightarrow> 2 ^ 64 - 1 | Some i \<Rightarrow> i)
      in pos = c_size (int (length s) - int (length u)))"

definition conf_get_int64 :: "Properties \<Rightarrow> string \<Rightarrow> int \<Rightarrow> bool \<Rightarrow> bool \<times> int" where
  "conf_get_int64 conf name value ignore_nonexist =
     (case map_find name conf of
        None \<Rightarrow> (ignore_nonexist, value)
      | Some [] \<Rightarrow> (ignore_nonexist, value)
      | Some (items # _) \<Rightarrow>
          (case string_toint64 (hd items) of
             Some v \<Rightarrow> (True, v)
           | None \<Rightarrow>
               let size_str = string_toupper (hd items); value = atoll size_str
               in if ends_at size_str ''M'' \<or> ends_at size_str ''MB'' then (True, c_int64 (value * (1024 * 1024)))
                  else if ends_at size_str ''G'' \<or> ends_at size_str ''GB'' then (True, c_int64 (value * (1024 * 1024 * 1024)))
                  else if ends_at size_str ''K'' \<or> ends_at size_str ''KB'' then (True, c_int64 (value * 1024))
                  else (False, value)))"

definition conf_get_string :: "Properties \<Rightarrow> string \<Rightarrow> string \<Rightarrow> bool \<Rightarrow> bool \<times> string" where
  "conf_get_string conf name value ignore_nonexist =
     (case map_find name conf of
        None \<Rightarrow> (ignore_nonexist, value)
      | Some [] \<Rightarrow> (ignore_nonexist, value)
      | Some (items # _) \<Rightarrow> (True, hd items))"

definition conf_get_bool :: "Properties \<Rightarrow> string \<Rightarrow> bool \<Rightarrow> bool \<Rightarrow> bool \<times> bool" where
  "conf_get_bool conf name value ignore_nonexist =
     (case map_find name conf of
        None \<Rightarrow> (ignore_nonexist, value)
      | Some [] \<Rightarrow> (ignore_nonexist, value)
      | Some (items # _) \<Rightarrow>
          (True, strcaseeq (hd items) ''true'' \<or> strcaseeq (hd items) ''1'' \<or> strcaseeq (hd items) ''yes''))"

section \<open>Environment variables\<close>

text \<open>One value: the first variable is replaced as long as it is known. The loop may not end.\<close>

partial_function (option) expand_env :: "(string \<Rightarrow> string option) \<Rightarrow> string \<Rightarrow> string option" where
  "expand_env getenv v =
     (case str_find v ''${'' 0 of
        None \<Rightarrow> Some v
      | Some pos \<Rightarrow>
          (case str_find v ''}'' (pos + 1) of
             None \<Rightarrow> Some v
           | Some next_pos \<Rightarrow>
               (case getenv (take (next_pos - pos - 2) (drop (pos + 2) v)) of
                  None \<Rightarrow> Some v
                | Some e \<Rightarrow> expand_env getenv (take pos v @ e @ drop (next_pos + 1) v))))"

fun expand_list :: "('a \<Rightarrow> 'a option) \<Rightarrow> 'a list \<Rightarrow> 'a list option" where
  "expand_list f [] = Some []"
| "expand_list f (x # xs) = (case f x of None \<Rightarrow> None | Some y \<Rightarrow> map_option ((#) y) (expand_list f xs))"

definition replace_env_var :: "(string \<Rightarrow> string option) \<Rightarrow> Properties \<Rightarrow> Properties option" where
  "replace_env_var getenv props =
     expand_list (\<lambda>(name, a). map_option (Pair name) (expand_list (expand_list (expand_env getenv)) a)) props"

section \<open>Printed files\<close>

text \<open>A file as it is written by hand: one entry per line, the key and its values separated by blanks.\<close>

definition conf_word :: "string \<Rightarrow> bool" where
  "conf_word w \<longleftrightarrow> w \<noteq> [] \<and> NUL \<notin> set w \<and> (\<forall>c \<in> set w. c \<notin> set blanks)"

definition print_values :: "string list \<Rightarrow> string" where
  "print_values vs = concat (map (\<lambda>v. CHR 0x20 # v) vs)"

definition print_entry :: "string \<times> string list \<Rightarrow> string" where
  "print_entry e = fst e @ print_values (snd e)"

definition print_conf :: "(string \<times> string list) list \<Rightarrow> string" where
  "print_conf es = concat (map (\<lambda>e. print_entry e @ [CHR 0x0A]) es)"

definition entry_ok :: "string \<times> string list \<Rightarrow> bool" where
  "entry_ok e \<longleftrightarrow> conf_word (fst e) \<and> hd (fst e) \<noteq> CHR ''#'' \<and> snd e \<noteq> [] \<and> (\<forall>v \<in> set (snd e). conf_word v)
     \<and> length (print_entry e) < kConfigLineMax - 1"

definition add_entry :: "string \<times> string list \<Rightarrow> Properties \<Rightarrow> Properties" where
  "add_entry e m = map_put (fst e) (conf_entry (fst e) m @ [snd e]) m"

lemma dropWhile_none: "(\<forall>c \<in> set s. c \<notin> A) \<Longrightarrow> dropWhile (\<lambda>c. c \<in> A) s = s"
  by (cases s) auto

lemma trim_word: "conf_word w \<Longrightarrow> trim_str w blanks = w"
  by (simp add: trim_str_def conf_word_def dropWhile_none Let_def)

lemma trim_line:
  assumes "conf_word k" "conf_word l"
  shows "trim_str (k @ m @ l @ [CHR 0x0A]) blanks = k @ m @ l"
proof -
  obtain a k' where k: "k = a # k'" "a \<notin> set blanks" using assms(1) by (cases k) (auto simp: conf_word_def)
  obtain l' z where l: "l = l' @ [z]" "z \<notin> set blanks" using assms(2) by (cases l rule: rev_cases) (auto simp: conf_word_def)
  have "CHR 0x0A \<in> set blanks" by (simp add: blanks_def)
  then show ?thesis using k l by (simp add: trim_str_def Let_def)
qed

lemma search_blank: "CHR 0x20 \<notin> set w \<Longrightarrow> search [CHR 0x20] (w @ CHR 0x20 # r) = Some (length w)"
  by (induction w) auto

lemma search_no_blank: "CHR 0x20 \<notin> set w \<Longrightarrow> search [CHR 0x20] w = None"
  by (induction w) (auto simp: prefix_def)

lemma word_no_blank: "conf_word w \<Longrightarrow> CHR 0x20 \<notin> set w"
  by (auto simp: conf_word_def blanks_def)

lemma split_words: "conf_word w \<Longrightarrow> (\<forall>v \<in> set vs. conf_word v) \<Longrightarrow> split_str (w @ print_values vs) [CHR 0x20] = w # vs"
proof (induction vs arbitrary: w)
  case Nil
  then show ?case
    by (subst split_str.simps) (auto simp: print_values_def search_no_blank word_no_blank conf_word_def)
next
  case (Cons v vs)
  have e: "w @ print_values (v # vs) = w @ CHR 0x20 # (v @ print_values vs)" by (simp add: print_values_def)
  have w: "w \<noteq> []" "length w \<noteq> 0" using Cons.prems(1) by (simp_all add: conf_word_def)
  have "split_str (v @ print_values vs) [CHR 0x20] = v # vs" using Cons.IH [of v] Cons.prems(2) by simp
  then show ?case
    unfolding e using w by (subst split_str.simps) (simp add: search_blank [OF word_no_blank [OF Cons.prems(1)]])
qed

lemma conf_line_entry:
  assumes "entry_ok e"
  shows "conf_line [CHR 0x20] (print_entry e @ [CHR 0x0A]) result = Some (add_entry e result)"
proof -
  obtain k vs where e: "e = (k, vs)" by fastforce
  have w: "conf_word k" "hd k \<noteq> CHR ''#''" "vs \<noteq> []" "\<forall>v \<in> set vs. conf_word v"
    using assms by (simp_all add: entry_ok_def e)
  obtain us u where vs: "vs = us @ [u]" using w(3) by (cases vs rule: rev_cases) auto
  have l: "print_entry e = k @ (print_values us @ [CHR 0x20]) @ u" by (simp add: e print_entry_def print_values_def vs)
  have n: "NUL \<notin> set (print_entry e @ [CHR 0x0A])"
    using w(1,4) by (auto simp: e print_entry_def print_values_def conf_word_def)
  have t: "trim_str (c_str (print_entry e @ [CHR 0x0A])) blanks = print_entry e"
    using trim_line [OF w(1), of u "print_values us @ [CHR 0x20]"] w(4) vs n l by simp
  have s: "split_str (print_entry e) [CHR 0x20] = k # vs" using split_words [OF w(1,4)] by (simp add: e print_entry_def)
  have h: "print_entry e \<noteq> []" "hd (print_entry e) \<noteq> CHR ''#''"
    using w(1,2) by (simp_all add: e print_entry_def conf_word_def)
  have v: "map (\<lambda>v. trim_str v blanks) vs = vs" using w(4) trim_word by (simp add: map_idI)
  show ?thesis
    using w(3) trim_word [OF w(1)] v h s t by (cases vs) (simp_all add: conf_line_def add_entry_def e Let_def)
qed

lemma fgets_line: "CHR 0x0A \<notin> set l \<Longrightarrow> length l < n \<Longrightarrow> fgets n (l @ CHR 0x0A # r) = (l @ [CHR 0x0A], r)"
proof (induction l arbitrary: n)
  case Nil
  then show ?case by (cases n) auto
next
  case (Cons c l)
  then show ?case by (cases n) auto
qed

lemma entry_no_newline: "entry_ok e \<Longrightarrow> CHR 0x0A \<notin> set (print_entry e)"
  by (auto simp: entry_ok_def print_entry_def print_values_def conf_word_def blanks_def)

lemma conf_lines_print:
  "(\<forall>e \<in> set es. entry_ok e) \<Longrightarrow> conf_lines [CHR 0x20] (print_conf es) m = (True, fold add_entry es m)"
proof (induction es arbitrary: m)
  case Nil
  then show ?case by (simp add: print_conf_def conf_lines.simps)
next
  case (Cons e es)
  have p: "print_conf (e # es) = print_entry e @ CHR 0x0A # print_conf es" by (simp add: print_conf_def)
  have "fgets (kConfigLineMax - 1) (print_conf (e # es)) = (print_entry e @ [CHR 0x0A], print_conf es)"
    unfolding p using fgets_line [OF entry_no_newline] Cons.prems by (simp add: entry_ok_def)
  moreover have "print_conf (e # es) \<noteq> []" by (simp add: p)
  ultimately show ?case
    using Cons.IH Cons.prems conf_line_entry [of e m] by (subst conf_lines.simps) simp
qed

lemma add_entry_map_ok: "map_ok m \<Longrightarrow> map_ok (add_entry e m)"
  by (simp add: add_entry_def)

lemma add_entry_entry: "map_ok m \<Longrightarrow> conf_entry k (add_entry e m) = (if fst e = k then conf_entry k m @ [snd e] else conf_entry k m)"
  by (auto simp: add_entry_def conf_entry_def)

lemma fold_add_entry:
  "map_ok m \<Longrightarrow> conf_entry k (fold add_entry es m) = conf_entry k m @ map snd (filter (\<lambda>e. fst e = k) es)"
  by (induction es arbitrary: m) (auto simp: add_entry_entry add_entry_map_ok)

text \<open>C26: reading a printed configuration succeeds and gives every key the values of its lines, in order.\<close>

theorem conf_file_roundtrip:
  assumes "\<forall>e \<in> set es. entry_ok e"
  shows "\<exists>conf. parse_conf_file (Some (print_conf es)) [CHR 0x20] [] = (True, conf)
    \<and> (\<forall>k. conf_entry k conf = map snd (filter (\<lambda>e. fst e = k) es))"
  using conf_lines_print [OF assms] fold_add_entry [of "[]" _ es] by (simp add: parse_conf_file_def conf_entry_def)

lemma conf_file_roundtrip_witness:
  "\<exists>conf. parse_conf_file (Some (''listen 0.0.0.0:1'' @ [CHR 0x0A] @ ''rename-command a b'' @ [CHR 0x0A])) [CHR 0x20] [] = (True, conf)
    \<and> conf_entry ''rename-command'' conf = [[''a'', ''b'']]"
proof -
  let ?es = "[(''listen'', [''0.0.0.0:1'']), (''rename-command'', [''a'', ''b''])]"
  have ok: "\<forall>e \<in> set ?es. entry_ok e"
    by (simp add: entry_ok_def conf_word_def blanks_def print_entry_def print_values_def kConfigLineMax_def)
  have e: "print_conf ?es = ''listen 0.0.0.0:1'' @ [CHR 0x0A] @ ''rename-command a b'' @ [CHR 0x0A]"
    by (simp add: print_conf_def print_entry_def print_values_def)
  show ?thesis using conf_file_roundtrip [OF ok] unfolding e by auto
qed

section \<open>Sizes\<close>

lemma dec_str_length: "n < 10 ^ Suc k \<Longrightarrow> length (dec_str n) \<le> Suc k"
proof (induction k arbitrary: n)
  case 0
  then show ?case by (simp add: dec_str.simps [of n])
next
  case (Suc k)
  then have "n div 10 < 10 ^ Suc k" by (simp add: div_less_iff_less_mult)
  then show ?case using Suc.IH [of "n div 10"] by (simp add: dec_str.simps [of n])
qed

lemma search_skip: "p \<noteq> [] \<Longrightarrow> hd p \<notin> set ds \<Longrightarrow> search p (ds @ u) = map_option ((+) (length ds)) (search p u)"
proof (induction ds)
  case Nil
  then show ?case by (cases "search p u") simp_all
next
  case (Cons d ds)
  then have "\<not> prefix p (d # ds @ u)" by (cases p) (auto simp: prefix_def)
  then show ?case using Cons by (simp add: option.map_comp comp_def)
qed

lemma upper_digits: "\<forall>c \<in> set ds. is_digit c \<Longrightarrow> string_toupper ds = ds"
  unfolding string_toupper_def by (rule map_idI) (auto simp: c_toupper_def is_digit_def)

lemma digits_no_unit: "c \<in> set (dec_str n) \<Longrightarrow> c \<noteq> CHR ''K'' \<and> c \<noteq> CHR ''M'' \<and> c \<noteq> CHR ''G''"
  using dec_str_digits [of n] by (auto simp: is_digit_def)

definition unit_scale :: "string \<Rightarrow> int option" where
  "unit_scale u =
     (if u = ''K'' \<or> u = ''KB'' then Some 1024 else if u = ''M'' \<or> u = ''MB'' then Some (1024 * 1024)
      else if u = ''G'' \<or> u = ''GB'' then Some (1024 * 1024 * 1024) else None)"

lemma ends_at_unit:
  assumes "n < 10 ^ 18" "p \<noteq> []" "hd p \<in> {CHR ''K'', CHR ''M'', CHR ''G''}" "length p \<le> 2" "u \<noteq> []" "length u \<le> 2"
  shows "ends_at (dec_str n @ u) p \<longleftrightarrow> (\<exists>i. search p u = Some i \<and> i + length p = length u)"
proof -
  let ?s = "dec_str n @ u"
  have l: "length (dec_str n) \<le> 18" using dec_str_length [of n 17] assms(1) by simp
  have l0: "1 \<le> length (dec_str n)" "1 \<le> length u" using assms(5) by (simp_all add: Suc_le_eq)
  have g: "length p \<le> length ?s" "length ?s \<le> 20" using l l0 assms(4,6) unfolding length_append by linarith+
  have h: "hd p \<notin> set (dec_str n)" using assms(3) digits_no_unit by auto
  have "int (length ?s) - int (length p) = int (length ?s - length p)" using g(1) by (simp only: of_nat_diff)
  moreover have "c_size (int m) = m" if "m \<le> 20" for m using that by (simp add: c_size_def)
  moreover have "length ?s - length p \<le> 20" using g(2) by linarith
  ultimately have z: "c_size (int (length ?s) - int (length p)) = length ?s - length p" by (simp only:)
  have f: "str_find ?s p 0 = map_option ((+) (length (dec_str n))) (search p u)"
    using search_skip [OF assms(2) h] by (simp add: str_find_def option.map_comp comp_def)
  show ?thesis
  proof (cases "search p u")
    case None
    have "length ?s - length p \<noteq> 2 ^ 64 - 1" using g(2) by simp
    then show ?thesis using z f None by (simp only: ends_at_def) simp
  next
    case (Some i)
    have "ends_at ?s p \<longleftrightarrow> length (dec_str n) + i = length ?s - length p"
      by (simp only: ends_at_def z f Some Let_def option.map option.case)
    then show ?thesis using g(1) Some by auto
  qed
qed

lemma unit_not_digit: "unit_scale (string_toupper u) = Some k \<Longrightarrow> u \<noteq> [] \<and> length u \<le> 2 \<and> \<not> is_digit (hd u) \<and> NUL \<notin> set u"
proof -
  assume a: "unit_scale (string_toupper u) = Some k"
  then have l: "length u \<in> {1, 2}" and h: "c_toupper (hd u) \<in> {CHR ''K'', CHR ''M'', CHR ''G''}"
    by (cases u; auto simp: unit_scale_def string_toupper_def split: if_splits)+
  have "NUL \<notin> set u"
  proof
    assume "NUL \<in> set u"
    then have "NUL \<in> set (string_toupper u)" by (force simp: string_toupper_def c_toupper_def)
    then show False using a by (auto simp: unit_scale_def split: if_splits)
  qed
  moreover have "\<not> is_digit (hd u)" using h by (auto simp: c_toupper_def is_digit_def split: if_splits)
  ultimately show ?thesis using l by auto
qed

text \<open>a size with a unit, in upper or lower case, is the number times the unit, wrapped to 64 bits; without a
  unit it is the number.\<close>

theorem conf_size_scaled:
  assumes "map_find name conf = Some (((dec_str n @ u) # items) # others)" "n < 10 ^ 18"
    "u = [] \<and> k = 1 \<or> unit_scale (string_toupper u) = Some k"
  shows "conf_get_int64 conf name v b = (True, c_int64 (int n * k))"
proof -
  have nul: "NUL \<notin> set u" and nd: "u \<noteq> [] \<Longrightarrow> \<not> is_digit (hd u)" using assms(3) unit_not_digit by auto
  have c: "c_str (dec_str n @ u) = dec_str n @ u" using nul dec_str_no_nul by simp
  have sc: "strto_scan (dec_str n @ w) = (False, n, length (dec_str n))" if "w \<noteq> [] \<Longrightarrow> \<not> is_digit (hd w)" for w
    using that by (intro strto_scan_nat) auto
  have cl: "c_int64 (int n) = int n" using assms(2) by (simp add: c_int64_def)
  show ?thesis
  proof (cases "u = []")
    case True
    have "string_toint64 (dec_str n @ u) = Some (int n)"
      using sc [of "[]"] c assms(2) True by (simp add: string_toint64_def str_toint64_def strtoll_def Let_def)
    then show ?thesis using assms(1,3) True cl by (auto simp: conf_get_int64_def unit_scale_def string_toupper_def)
  next
    case False
    let ?U = "string_toupper u"
    note un = unit_not_digit [of u k] and k = assms(3)
    have "string_toint64 (dec_str n @ u) = None"
      using sc [OF nd] c False by (cases u) (simp_all add: string_toint64_def str_toint64_def strtoll_def Let_def)
    moreover have up: "string_toupper (dec_str n @ u) = dec_str n @ ?U"
      using upper_digits [OF dec_str_digits] by (simp add: string_toupper_def)
    moreover have "atoll (dec_str n @ ?U) = int n"
    proof -
      have "?U \<noteq> []" "hd ?U \<in> {CHR ''K'', CHR ''M'', CHR ''G''}" "NUL \<notin> set ?U"
        using assms(3) False by (auto simp: unit_scale_def split: if_splits)
      then have "strto_scan (c_str (dec_str n @ ?U)) = (False, n, length (dec_str n))"
        using sc [of ?U] dec_str_no_nul by (auto simp: is_digit_def)
      then show ?thesis using assms(2) by (simp add: atoll_def strtoll_def)
    qed
    moreover have ends: "ends_at (dec_str n @ ?U) p \<longleftrightarrow> (\<exists>i. search p ?U = Some i \<and> i + length p = length ?U)"
      if "p \<in> {''M'', ''MB'', ''G'', ''GB'', ''K'', ''KB''}" for p
      using that assms(3) False by (intro ends_at_unit [OF assms(2)]) (auto simp: unit_scale_def split: if_splits)
    ultimately have v: "conf_get_int64 conf name v b =
        (if ends_at (dec_str n @ ?U) ''M'' \<or> ends_at (dec_str n @ ?U) ''MB'' then (True, c_int64 (int n * (1024 * 1024)))
         else if ends_at (dec_str n @ ?U) ''G'' \<or> ends_at (dec_str n @ ?U) ''GB'' then (True, c_int64 (int n * (1024 * 1024 * 1024)))
         else if ends_at (dec_str n @ ?U) ''K'' \<or> ends_at (dec_str n @ ?U) ''KB'' then (True, c_int64 (int n * 1024))
         else (False, int n))"
      using assms(1) by (simp only: conf_get_int64_def option.case list.case list.sel Let_def)
    note e = ends [of "''M''"] ends [of "''MB''"] ends [of "''G''"] ends [of "''GB''"] ends [of "''K''"] ends [of "''KB''"]
    consider "?U = ''M''" "k = 1024 * 1024" | "?U = ''MB''" "k = 1024 * 1024" | "?U = ''G''" "k = 1024 * 1024 * 1024"
      | "?U = ''GB''" "k = 1024 * 1024 * 1024" | "?U = ''K''" "k = 1024" | "?U = ''KB''" "k = 1024"
      using assms(3) False by (auto simp: unit_scale_def split: if_splits)
    then show ?thesis unfolding v using e by cases (simp_all add: prefix_def)
  qed
qed

lemma conf_size_scaled_witness:
  "conf_get_int64 [(''repl-backlog-size'', [[''64mb'']])] ''repl-backlog-size'' 0 False = (True, 67108864)"
proof -
  have d: "dec_str 64 = ''64''" by code_simp
  have "unit_scale (string_toupper ''mb'') = Some (1024 * 1024)" by code_simp
  then show ?thesis
    using conf_size_scaled [of "''repl-backlog-size''" "[(''repl-backlog-size'', [[''64mb'']])]" 64 "''mb''" "[]" "[]" "1024 * 1024" 0 False]
    unfolding d by (simp add: c_int64_def)
qed

text \<open>A single character that is not a number is accepted as zero: its size less two is no position either.\<close>

lemma junk_is_zero:
  assumes "map_find name conf = Some (([c] # items) # others)" "\<not> is_digit c" "\<not> is_space c" "c \<noteq> NUL"
  shows "conf_get_int64 conf name v b = (True, 0)"
proof -
  have sc: "strto_scan [d] = (False, 0, 0)" if "\<not> is_digit d" for d
    using that by (simp add: strto_scan_def is_digit_def is_space_def)
  have "\<not> is_digit (c_toupper c)" using assms(2) by (auto simp: is_digit_def c_toupper_def)
  moreover have "c_str [d] = (if d = NUL then [] else [d])" for d by (simp add: c_str_def)
  moreover have "strto_scan [] = (False, 0, 0)" by (simp add: strto_scan_def)
  ultimately have a: "string_toint64 [c] = None" "atoll (string_toupper [c]) = 0"
    using sc assms(2,4) by (simp_all add: string_toint64_def str_toint64_def strtoll_def atoll_def string_toupper_def)
  have "str_find (string_toupper [c]) ''MB'' 0 = None" by (simp add: string_toupper_def str_find_def)
  then have "ends_at (string_toupper [c]) ''MB''" by (simp add: ends_at_def string_toupper_def c_size_def)
  then show ?thesis using assms(1) a by (simp add: conf_get_int64_def c_int64_def)
qed

section \<open>Replacing variables\<close>

definition dollars :: "string \<Rightarrow> nat" where "dollars s = length (filter (\<lambda>c. c = CHR ''$'') s)"

lemma search_some: "search p s = Some i \<Longrightarrow> p \<noteq> [] \<Longrightarrow> i < length s \<and> s ! i = hd p"
  by (induction p s arbitrary: i rule: search.induct) (auto split: if_splits simp: prefix_def nth_append hd_conv_nth)

lemma str_find_some:
  assumes "str_find s p a = Some i" "p \<noteq> []"
  shows "a \<le> i" "i < length s" "s ! i = hd p"
proof -
  obtain j where j: "search p (drop a s) = Some j" "i = a + j" "a \<le> length s"
    using assms(1) by (auto simp: str_find_def split: if_splits)
  show "a \<le> i" "i < length s" "s ! i = hd p" using search_some [OF j(1) assms(2)] j(2,3) by auto
qed

lemma dollars_cut:
  assumes "i < length s" "s ! i = CHR ''$''" "i < j" "dollars e = 0"
  shows "dollars (take i s @ e @ drop j s) < dollars s"
proof -
  have s: "s = take i s @ CHR ''$'' # drop (Suc i) s" using id_take_nth_drop [OF assms(1)] assms(2) by simp
  have "dollars (drop (Suc i) s) = dollars (take (j - Suc i) (drop (Suc i) s)) + dollars (drop j s)"
    using append_take_drop_id [of "j - Suc i" "drop (Suc i) s"] assms(3)
    by (metis drop_drop dollars_def filter_append length_append le_add_diff_inverse2 Suc_leI)
  moreover have "dollars s = dollars (take i s) + 1 + dollars (drop (Suc i) s)"
    by (subst s) (simp add: dollars_def)
  ultimately show ?thesis using assms(4) by (simp add: dollars_def)
qed

lemma expand_env_ends:
  assumes "\<And>k e. getenv k = Some e \<Longrightarrow> CHR ''$'' \<notin> set e"
  shows "\<exists>w. expand_env getenv v = Some w"
proof (induction "dollars v" arbitrary: v rule: less_induct)
  case less
  show ?case
  proof (cases "str_find v ''${'' 0")
    case None
    then show ?thesis by (subst expand_env.simps) simp
  next
    case (Some pos)
    show ?thesis
    proof (cases "str_find v ''}'' (pos + 1)")
      case None
      then show ?thesis using Some by (subst expand_env.simps) simp
    next
      case brace: (Some np)
      show ?thesis
      proof (cases "getenv (take (np - pos - 2) (drop (pos + 2) v))")
        case None
        then show ?thesis using Some brace by (subst expand_env.simps) simp
      next
        case e: (Some e)
        have "dollars e = 0" using assms [OF e] by (auto simp: dollars_def filter_empty_conv)
        then have "dollars (take pos v @ e @ drop (np + 1) v) < dollars v"
          using str_find_some [OF Some] str_find_some(1) [OF brace] by (intro dollars_cut) auto
        then show ?thesis using less Some brace e by (subst expand_env.simps) simp
      qed
    qed
  qed
qed

lemma expand_env_self:
  assumes "expand_env getenv v = Some y"
  shows "getenv ''A'' = Some ''${A}'' \<longrightarrow> v \<noteq> ''${A}''"
proof (rule expand_env.raw_induct [OF _ assms])
  fix f :: "(string \<Rightarrow> string option) \<Rightarrow> string \<Rightarrow> string option" and getenv v y
  assume h: "\<And>getenv v y. f getenv v = Some y \<Longrightarrow> getenv ''A'' = Some ''${A}'' \<longrightarrow> v \<noteq> ''${A}''"
    and y: "(case str_find v ''${'' 0 of None \<Rightarrow> Some v
      | Some pos \<Rightarrow> (case str_find v ''}'' (pos + 1) of None \<Rightarrow> Some v
        | Some np \<Rightarrow> (case getenv (take (np - pos - 2) (drop (pos + 2) v)) of None \<Rightarrow> Some v
          | Some e \<Rightarrow> f getenv (take pos v @ e @ drop (np + 1) v)))) = Some y"
  show "getenv ''A'' = Some ''${A}'' \<longrightarrow> v \<noteq> ''${A}''"
  proof (rule impI, rule notI)
    assume a: "getenv ''A'' = Some ''${A}''" and v: "v = ''${A}''"
    have "f getenv ''${A}'' = Some y" using y unfolding v by (simp add: str_find_def prefix_def a)
    then show False using h a by blast
  qed
qed

text \<open>A variable that contains itself is replaced for ever.\<close>

lemma expand_env_never_ends: "getenv ''A'' = Some ''${A}'' \<Longrightarrow> expand_env getenv ''${A}'' = None"
  using expand_env_self by (cases "expand_env getenv ''${A}''") auto

text \<open>Behind an unknown variable a known one is not replaced.\<close>

lemma expand_env_stops: "getenv ''A'' = None \<Longrightarrow> expand_env getenv ''${A}${B}'' = Some ''${A}${B}''"
  by (subst expand_env.simps) (simp add: str_find_def prefix_def)

end
