(* ===== verification/Config_Parse.thy ===== *)
theory Config_Parse
  imports Config_File Slowlog_Stats
begin

text \<open>
  The configuration of the server (\<open>config.cpp\<close>, \<open>config.hpp\<close>) and the directories it creates
  (\<open>make_dir\<close> of \<open>common/util/file_helper.cpp\<close>). The file system is a parameter, and the log level has no
  effect on the model. Parsing an unusual configuration twice is not the same as parsing it once: the
  addresses are appended.
\<close>

section \<open>The file system\<close>

text \<open>
  \<open>fs_isdir\<close> and \<open>fs_isfile\<close> are the results of \<open>stat\<close>, \<open>fs_mkdir\<close> tells whether the call returned
  zero, \<open>fs_realpath\<close> gives \<open>errno\<close> or the path, \<open>fs_access\<close> gives zero or \<open>errno\<close>.
\<close>

record 'f os =
  fs_isdir :: "string \<Rightarrow> 'f \<Rightarrow> bool"
  fs_isfile :: "string \<Rightarrow> 'f \<Rightarrow> bool"
  fs_mkdir :: "string \<Rightarrow> 'f \<Rightarrow> bool \<times> 'f"
  fs_realpath :: "string \<Rightarrow> 'f \<Rightarrow> int + string"
  fs_access :: "string \<Rightarrow> 'f \<Rightarrow> int"

definition rfind_slash :: "string \<Rightarrow> nat option" where
  "rfind_slash s =
     (if CHR ''/'' \<in> set s then Some (length s - 1 - length (takeWhile (\<lambda>c. c \<noteq> CHR ''/'') (rev s))) else None)"

lemma rfind_slash_less: "rfind_slash s = Some i \<Longrightarrow> i < length s"
  by (cases s) (auto simp: rfind_slash_def split: if_splits)

text \<open>The comparison of the position with the size minus one holds for the empty path too.\<close>

function make_dir :: "'f os \<Rightarrow> string \<Rightarrow> 'f \<Rightarrow> bool \<times> 'f" where
  "make_dir os para_path f =
     (if fs_isdir os (c_str para_path) f then (True, f)
      else if fs_isfile os (c_str para_path) f then (False, f)
      else let path = (if para_path = [] \<or> last para_path = CHR ''/'' then butlast para_path else para_path)
           in case rfind_slash path of
                Some found \<Rightarrow>
                  let (ok, f) = make_dir os (take found path) f
                  in if ok then fs_mkdir os (c_str path) f else (False, f)
              | None \<Rightarrow> fs_mkdir os (c_str path) f)"
  by pat_completeness auto
termination
  by (relation "measure (\<lambda>(os, p, f). length p)") (auto dest!: rfind_slash_less split: if_splits)

declare make_dir.simps [simp del]

definition real_path :: "'f os \<Rightarrow> string \<Rightarrow> 'f \<Rightarrow> string \<Rightarrow> int \<times> string" where
  "real_path os path f old = (case fs_realpath os (c_str path) f of Inl e \<Rightarrow> (e, old) | Inr p \<Rightarrow> (0, p))"

section \<open>The configuration\<close>

text \<open>The part of the options of the storage engine that the configuration sets.\<close>

record mmkv_options =
  mm_readonly :: bool
  mm_dir :: string
  mm_create_if_notexist :: bool
  mm_keyspace_factor :: int
  mm_size :: int
  mm_autoexpand :: bool
  mm_use_lock :: bool
  mm_verify :: bool

text \<open>The fields that the commands read are those of \<open>CommsConfig\<close> of \<open>Server_State\<close>; these are the others.\<close>

record config = CommsConfig +
  daemonize :: bool
  listen_addresses :: "string list"
  thread_pool_sizes :: "int list"
  qps_limits :: "int list"
  unixsocketperm :: int
  max_clients :: int
  tcp_keepalive :: int
  cfg_timeout :: int
  home :: string
  data_base_path :: string
  repl_data_dir :: string
  backup_dir :: string
  snapshot_filename :: string
  backup_redis_format :: bool
  repl_ping_slave_period :: int
  repl_timeout :: int
  repl_wal_cache_size :: int
  repl_wal_size :: int
  repl_state_persist_period :: int
  repl_backlog_time_limit :: int
  slave_cleardb_before_fullresync :: bool
  slave_readonly :: bool
  slave_serve_stale_data :: bool
  slave_priority :: int
  lua_time_limit :: int
  repl_includes :: "nat list"
  repl_excludes :: "nat list"
  loglevel :: string
  logfile :: string
  pidfile :: string
  zookeeper_servers :: string
  additional_misc_info :: string
  hll_sparse_max_bytes :: int
  reply_pool_size :: int
  primary_port :: nat
  slave_client_output_buffer_limit :: int
  pubsub_client_output_buffer_limit :: int
  slave_ignore_expire :: bool
  slave_ignore_del :: bool
  repl_disable_tcp_nodelay :: bool
  masterauth :: string
  conf_path :: string
  conf_props :: Properties
  mmkv_opts :: mmkv_options

definition config_new :: "mmkv_options \<Rightarrow> config" where
  "config_new mo = CommsConfig.extend
     \<lparr>maxdb = 16, requirepass = [], slowlog_log_slower_than = 10000, slowlog_max_len = 128, master_host = [],
       master_port = 0, trusted_ip = [], rename_commands = []\<rparr>
     (config.fields False [] [] [] 755 10000 0 0 [] [] ''./repl'' ''./backup'' ''dump.rdb'' False 10 60
       (100 * 1024 * 1024) (1 * 1024 * 1024 * 1024) 1 3600 True True True 100 0 [] [] ''INFO'' [] [] [] [] 3000 5000 0
       (256 * 1024 * 1024) (32 * 1024 * 1024) False False False [] [] [] mo)"

definition COMMS_AUTHPASS_MAX_LEN :: nat where "COMMS_AUTHPASS_MAX_LEN = 512"

definition verify_config :: "config \<Rightarrow> bool" where
  "verify_config cfg \<longleftrightarrow> \<not> (master_host cfg \<noteq> [] \<and> repl_wal_size cfg \<le> 0)
     \<and> length (requirepass cfg) \<le> COMMS_AUTHPASS_MAX_LEN \<and> maxdb cfg \<le> 0xFFFFFF"

section \<open>Parsing\<close>

definition get_int :: "Properties \<Rightarrow> string \<Rightarrow> int \<Rightarrow> int" where
  "get_int props name v = snd (conf_get_int64 props name v False)"

definition get_str :: "Properties \<Rightarrow> string \<Rightarrow> string \<Rightarrow> string" where
  "get_str props name v = snd (conf_get_string props name v False)"

definition get_bool :: "Properties \<Rightarrow> string \<Rightarrow> bool \<Rightarrow> bool" where
  "get_bool props name v = snd (conf_get_bool props name v False)"

definition resize :: "nat \<Rightarrow> int list \<Rightarrow> int list" where
  "resize n xs = take n xs @ replicate (n - length xs) 0"

text \<open>An entry with another number of values than one, or that is no number, is skipped with a warning.\<close>

definition single_values :: "ConfItemsArray \<Rightarrow> string list" where
  "single_values a = map hd (filter (\<lambda>it. length it = 1) a)"

definition single_numbers :: "ConfItemsArray \<Rightarrow> int list" where
  "single_numbers a = map int (List.map_filter string_touint32 (single_values a))"

text \<open>The entries of \<open>props.find\<close>; iterating over a missing entry does nothing.\<close>

definition found :: "string \<Rightarrow> Properties \<Rightarrow> ConfItemsArray" where
  "found name props = (case map_find name props of None \<Rightarrow> [] | Some a \<Rightarrow> a)"

fun uint32_array :: "string list \<Rightarrow> nat list \<Rightarrow> int \<times> nat list" where
  "uint32_array [] acc = (0, acc)"
| "uint32_array (s # ss) acc = (case string_touint32 s of None \<Rightarrow> (- 1, acc) | Some n \<Rightarrow> uint32_array ss (acc @ [n]))"

definition split_uint32_array :: "string \<Rightarrow> string \<Rightarrow> nat list \<Rightarrow> (int \<times> nat list) option" where
  "split_uint32_array str sep acc =
     (if str = [] then Some (0, acc) else map_option (\<lambda>ss. uint32_array ss acc) (split_string str sep))"

definition db_list :: "Properties \<Rightarrow> string \<Rightarrow> nat list" where
  "db_list props name =
     (case split_uint32_array (get_str props name []) ''|'' [] of Some (err, dbs) \<Rightarrow> (if err = 0 then dbs else []) | None \<Rightarrow> [])"

definition parse_slaveof :: "Properties \<Rightarrow> config \<Rightarrow> config" where
  "parse_slaveof props cfg =
     (let (ok, slaveof) = conf_get_string props ''slaveof'' [] False
      in if \<not> ok then cfg
         else case split_string slaveof '':'' of
                Some [h, p] \<Rightarrow>
                  (case string_touint32 p of
                     Some port \<Rightarrow> cfg\<lparr>master_host := h, master_port := port\<rparr>
                   | None \<Rightarrow> cfg\<lparr>master_host := []\<rparr>)
              | _ \<Rightarrow> cfg)"

text \<open>A command is not renamed to a name that was given before.\<close>

fun rename_loop ::
    "ConfItemsArray \<Rightarrow> string list \<Rightarrow> (string, string) tree_map \<Rightarrow> (string, string) tree_map" where
  "rename_loop [] newcmdset m = m"
| "rename_loop (it # its) newcmdset m =
     (if length it \<noteq> 2 \<or> it ! 1 \<in> set newcmdset then rename_loop its newcmdset m
      else rename_loop its (it ! 1 # newcmdset) (map_put (it ! 0) (it ! 1) m))"

text \<open>The stages of \<open>Parse\<close>, in the order of the code; a stage may fail and leaves what was set before.\<close>

definition parse_listen :: "Properties \<Rightarrow> config \<Rightarrow> config" where
  "parse_listen props cfg =
     (let la = listen_addresses cfg @ single_values (found ''listen'' props);
          la = (if la = [] then [''0.0.0.0:16379''] else la);
          n = length la
      in cfg\<lparr>listen_addresses := la,
             thread_pool_sizes := resize n (thread_pool_sizes cfg @ single_numbers (found ''thread-pool-size'' props)),
             qps_limits := resize n (qps_limits cfg @ single_numbers (found ''qps-limit'' props))\<rparr>)"

definition parse_first :: "Properties \<Rightarrow> config \<Rightarrow> config" where
  "parse_first props cfg =
     (let cfg = cfg\<lparr>pidfile := get_str props ''pidfile'' (pidfile cfg),
            tcp_keepalive := get_int props ''tcp-keepalive'' (tcp_keepalive cfg),
            cfg_timeout := get_int props ''timeout'' (cfg_timeout cfg),
            unixsocketperm := get_int props ''unixsocketperm'' (unixsocketperm cfg),
            slowlog_log_slower_than := get_int props ''slowlog-log-slower-than'' (slowlog_log_slower_than cfg),
            slowlog_max_len := get_int props ''slowlog-max-len'' (slowlog_max_len cfg),
            max_clients := get_int props ''maxclients'' (max_clients cfg)\<rparr>;
          cfg = parse_listen props cfg
      in cfg\<lparr>data_base_path := get_str props ''data-dir'' (data_base_path cfg),
            backup_dir := get_str props ''backup-dir'' (backup_dir cfg),
            repl_data_dir := get_str props ''repl-dir'' (repl_data_dir cfg)\<rparr>)"

definition parse_middle :: "Properties \<Rightarrow> config \<Rightarrow> config" where
  "parse_middle props cfg =
     (let cfg = (if strcaseeq (get_str props ''backup-file-format'' []) ''redis'' then cfg\<lparr>backup_redis_format := True\<rparr> else cfg);
          cfg = cfg\<lparr>zookeeper_servers := get_str props ''zookeeper-servers'' (zookeeper_servers cfg),
            loglevel := get_str props ''loglevel'' (loglevel cfg),
            logfile := get_str props ''logfile'' (logfile cfg),
            daemonize := get_bool props ''daemonize'' (daemonize cfg),
            repl_wal_size := get_int props ''repl-backlog-size'' (repl_wal_size cfg),
            repl_wal_cache_size := get_int props ''repl-backlog-cache-size'' (repl_wal_cache_size cfg),
            repl_ping_slave_period := get_int props ''repl-ping-slave-period'' (repl_ping_slave_period cfg),
            repl_timeout := get_int props ''repl-timeout'' (repl_timeout cfg),
            repl_state_persist_period := get_int props ''repl-state-persist-period'' (repl_state_persist_period cfg),
            repl_backlog_time_limit := get_int props ''repl-backlog-ttl'' (repl_backlog_time_limit cfg),
            repl_disable_tcp_nodelay := get_bool props ''repl-disable-tcp-nodelay'' (repl_disable_tcp_nodelay cfg),
            lua_time_limit := get_int props ''lua-time-limit'' (lua_time_limit cfg),
            hll_sparse_max_bytes := get_int props ''hll-sparse-max-bytes'' (hll_sparse_max_bytes cfg),
            slave_readonly := get_bool props ''slave-read-only'' (slave_readonly cfg),
            slave_serve_stale_data := get_bool props ''slave-serve-stale-data'' (slave_serve_stale_data cfg),
            slave_priority := get_int props ''slave-priority'' (slave_priority cfg),
            slave_ignore_expire := get_bool props ''slave-ignore-expire'' (slave_ignore_expire cfg),
            slave_ignore_del := get_bool props ''slave-ignore-del'' (slave_ignore_del cfg),
            slave_cleardb_before_fullresync :=
              get_bool props ''slave-clecomms-before-fullresync'' (slave_cleardb_before_fullresync cfg)\<rparr>;
          cfg = parse_slaveof props cfg
      in cfg\<lparr>repl_includes := db_list props ''replicate-include-db'',
             repl_excludes := db_list props ''replicate-exclude-db'',
             data_base_path := (if data_base_path cfg = [] then ''.'' else data_base_path cfg)\<rparr>)"

definition parse_mmkv :: "Properties \<Rightarrow> config \<Rightarrow> mmkv_options" where
  "parse_mmkv props cfg =
     (let mo = (mmkv_opts cfg)\<lparr>mm_readonly := get_bool props ''mmkv.readonly'' (mm_readonly (mmkv_opts cfg)),
                  mm_dir := data_base_path cfg\<rparr>;
          mo = (if mm_readonly mo then mo
                else mo\<lparr>mm_create_if_notexist := True, mm_keyspace_factor := 1,
                        mm_size := get_int props ''mmkv.init_data_size'' (mm_size mo), mm_autoexpand := True\<rparr>)
      in mo\<lparr>mm_use_lock := True, mm_verify := True\<rparr>)"

definition parse_last :: "Properties \<Rightarrow> config \<Rightarrow> config" where
  "parse_last props cfg =
     (let cfg = cfg\<lparr>additional_misc_info := get_str props ''additional-misc-info'' (additional_misc_info cfg),
            requirepass := get_str props ''requirepass'' (requirepass cfg),
            rename_commands := (case map_find ''rename-command'' props of
                None \<Rightarrow> rename_commands cfg | Some a \<Rightarrow> rename_loop a [] []),
            reply_pool_size := get_int props ''reply-pool-size'' (reply_pool_size cfg),
            slave_client_output_buffer_limit :=
              get_int props ''slave-client-output-buffer-limit'' (slave_client_output_buffer_limit cfg),
            pubsub_client_output_buffer_limit :=
              get_int props ''pubsub-client-output-buffer-limit'' (pubsub_client_output_buffer_limit cfg),
            maxdb := get_int props ''databases'' (maxdb cfg),
            trusted_ip := fold (\<lambda>it. set_insert (hd it)) (found ''trusted-ip'' props) []\<rparr>
      in cfg\<lparr>mmkv_opts := parse_mmkv props cfg\<rparr>)"

definition test_entries :: "Properties \<Rightarrow> Properties" where
  "test_entries m =
     (let m = (if map_find ''maxmemory'' m = None then conf_set ''maxmemory'' ''100000'' True m else m)
      in if map_find ''dbfilename'' m = None then conf_set ''dbfilename'' ''testfile'' True m else m)"

text \<open>The first part, the directory of the server, and the part after the variables are replaced.\<close>

definition parse_home :: "'f os \<Rightarrow> Properties \<Rightarrow> config \<times> 'f \<Rightarrow> bool \<times> config \<times> 'f" where
  "parse_home os props st =
     (let (cfg, f) = st;
          h = get_str props ''home'' (home cfg); h = (if h = [] then ''../comms'' else h);
          (_, f) = make_dir os h f;
          (err, h) = real_path os h f h
      in (err = 0 \<and> fs_access os (c_str h) f = 0, cfg\<lparr>home := h\<rparr>, f))"

definition parse_config :: "'f os \<Rightarrow> Properties \<Rightarrow> config \<times> 'f \<Rightarrow> bool \<times> config \<times> 'f" where
  "parse_config os props st =
     (let (cfg, f) = st;
          cfg = parse_first props cfg;
          (_, f) = make_dir os (repl_data_dir cfg) f;
          (_, f) = make_dir os (backup_dir cfg) f;
          (err, r) = real_path os (repl_data_dir cfg) f (repl_data_dir cfg);
          cfg = cfg\<lparr>repl_data_dir := r\<rparr>
      in if err \<noteq> 0 then (False, cfg, f)
         else
           let cfg = parse_middle props cfg;
               (_, f) = make_dir os (data_base_path cfg) f;
               (err, d) = real_path os (data_base_path cfg) f (data_base_path cfg);
               cfg = cfg\<lparr>data_base_path := d\<rparr>
           in if err \<noteq> 0 then (False, cfg, f)
              else let cfg = parse_last props cfg in (verify_config cfg, cfg, f))"

text \<open>
  \<open>aliased\<close>: the properties are those of the configuration itself, so the replacement of the variables
  changes \<open>conf_props\<close> too. The result is the return value, the given properties after the replacement,
  the configuration, the file system and the environment; \<open>None\<close> if a replacement does not end.
\<close>

type_synonym env = "string \<Rightarrow> string option"

definition Parse ::
    "'f os \<Rightarrow> bool \<Rightarrow> Properties \<Rightarrow> config \<times> 'f \<times> env \<Rightarrow> (bool \<times> Properties \<times> config \<times> 'f \<times> env) option" where
  "Parse os aliased props st =
     (let (cfg, f, env) = st;
          (ok, cfg, f) = parse_home os props (cfg\<lparr>conf_props := props\<rparr>, f)
      in if \<not> ok then Some (False, props, cfg, f, env)
         else
           let env = env(''COMMS_HOME'' \<mapsto> c_str (home cfg))
           in case replace_env_var env props of
                None \<Rightarrow> None
              | Some props \<Rightarrow>
                  let cfg = (if aliased then cfg\<lparr>conf_props := props\<rparr> else cfg);
                      (ok, cfg, f) = parse_config os props (cfg, f);
                      cfg = (if ok then cfg\<lparr>conf_props := test_entries (conf_props cfg)\<rparr> else cfg)
                  in Some (ok, if aliased then conf_props cfg else props, cfg, f, env))"

end
