(* ===== verification/Cmd_Admin.thy ===== *)
theory Cmd_Admin
  imports Config_Parse Snapshot
begin

text \<open>
  The administrative commands (\<open>command/server.cpp\<close>): CONFIG, INFO, SAVE, BGSAVE, LASTSAVE, IMPORT,
  REPLCONF, SYNC and PSYNC. What CONFIG does to the configuration is the code of \<open>Config_Parse\<close>; the
  snapshot commands use the model of \<open>Snapshot\<close>, the replication commands act on a node of
  \<open>Repl_Master\<close>. What INFO asks the operating system is a parameter.
\<close>

section \<open>CONFIG\<close>

text \<open>
  The state beside the server. The fields of the configuration that the commands read are in
  \<open>m_cfg\<close> of the server, so they are copied from there and back.
\<close>

record 'f admin =
  adm_cfg :: config
  adm_fs :: 'f
  adm_env :: env

definition full_cfg :: "'s server \<Rightarrow> 'f admin \<Rightarrow> config" where
  "full_cfg s a = CommsConfig.extend (m_cfg s) (CommsConfig.more (adm_cfg a))"

definition put_cfg :: "config \<Rightarrow> 's server \<Rightarrow> 's server" where
  "put_cfg cfg s = s\<lparr>m_cfg := CommsConfig.truncate cfg\<rparr>"

definition Statistics_Init :: "config \<Rightarrow> 's server \<Rightarrow> 's server" where
  "Statistics_Init cfg s =
     (let s = fold (\<lambda>(a, q). on_stat a (\<lambda>st. st\<lparr>ops_limit := q\<rparr>)) (zip (listen_addresses cfg) (qps_limits cfg)) s
      in on_stat ''master'' (\<lambda>st. st\<lparr>ops_limit := 0\<rparr>) s)"

definition reset_calls :: "RedisCommandHandlerSetting \<Rightarrow> RedisCommandHandlerSetting" where
  "reset_calls st = st\<lparr>microseconds := 0, max_latency := 0, calls := 0\<rparr>"

definition config_text :: "ConfItemsArray \<Rightarrow> string" where
  "config_text a = trim_string (concat (map (\<lambda>it. concat (map (\<lambda>v. v @ '' '') it)) a)) '' ''"

fun config_get :: "string \<Rightarrow> ctxid \<Rightarrow> Properties \<Rightarrow> 's server \<Rightarrow> 's server" where
  "config_get pattern c [] s = s"
| "config_get pattern c ((name, a) # props) s =
     config_get pattern c props
       (case stringmatchlen pattern name False of
          None \<Rightarrow> s\<lparr>fault := True\<rparr>
        | Some False \<Rightarrow> s
        | Some True \<Rightarrow>
            on_reply c (\<lambda>r. AddMember True (fill_str_reply (config_text a) reply_new)
              (AddMember True (fill_str_reply name reply_new) r)) s)"

text \<open>The change of an entry, after which everything is parsed again; the result is not looked at.\<close>

definition change_conf ::
    "'f os \<Rightarrow> (Properties \<Rightarrow> Properties) \<Rightarrow> ctxid \<Rightarrow> 's server \<times> 'f admin \<Rightarrow> ('s server \<times> 'f admin) option" where
  "change_conf os upd c st =
     (let (s, a) = st; cfg = full_cfg s a; cfg = cfg\<lparr>conf_props := upd (conf_props cfg)\<rparr>
      in case Parse os True (conf_props cfg) (cfg, adm_fs a, adm_env a) of
           None \<Rightarrow> None
         | Some (_, _, cfg, f, env) \<Rightarrow>
             Some (on_reply c (fill_status_reply ''OK'') (put_cfg cfg s), \<lparr>adm_cfg = cfg, adm_fs = f, adm_env = env\<rparr>))"

definition config_reload ::
    "'f os \<Rightarrow> (string \<Rightarrow> 'f \<Rightarrow> string option) \<Rightarrow> ctxid \<Rightarrow> 's server \<times> 'f admin \<Rightarrow> ('s server \<times> 'f admin) option" where
  "config_reload os read_file c st =
     (let (s, a) = st; cfg = full_cfg s a;
          failed = (\<lambda>(s, a). Some (on_reply c (fill_error_reply ''Failed to reload config'') s, a))
      in if conf_path cfg = [] then failed st
         else
           let (ok, props) = parse_conf_file (read_file (c_str (conf_path cfg)) (adm_fs a)) '' '' []
           in if \<not> ok then failed st
              else case Parse os False props (cfg, adm_fs a, adm_env a) of
                     None \<Rightarrow> None
                   | Some (ok, props, cfg, f, env) \<Rightarrow>
                       if \<not> ok then failed (put_cfg cfg s, \<lparr>adm_cfg = cfg, adm_fs = f, adm_env = env\<rparr>)
                       else let cfg = cfg\<lparr>conf_props := props\<rparr>
                            in Some (on_reply c (fill_status_reply ''OK'') (Statistics_Init cfg (put_cfg cfg s)),
                                     \<lparr>adm_cfg = cfg, adm_fs = f, adm_env = env\<rparr>))"

definition Config ::
    "'f os \<Rightarrow> (string \<Rightarrow> 'f \<Rightarrow> string option) \<Rightarrow> ctxid \<Rightarrow> RedisCommandFrame \<Rightarrow> 's server \<times> 'f admin
     \<Rightarrow> ('s server \<times> 'f admin) option" where
  "Config os read_file c cmd st =
     (let (s, a) = st; arg0 = string_tolower (arg cmd 0); n = length (m_args cmd);
          err = (\<lambda>msg. Some (on_reply c (fill_error_reply msg) s, a))
      in if arg0 \<notin> {''get'', ''set'', ''resetstat'', ''add'', ''del'', ''reload''}
         then err ''CONFIG subcommand must be one of GET, SET, RESETSTAT, ADD, DEL''
         else if arg0 = ''resetstat''
         then if n \<noteq> 1 then err ''Wrong number of arguments for CONFIG RESETSTAT''
              else Some (on_reply c fill_ok_reply
                     (Statistics_Clear (s\<lparr>m_settings := map (\<lambda>(k, x). (k, reset_calls x)) (m_settings s)\<rparr>)), a)
         else if arg0 = ''get''
         then if n \<noteq> 2 then err ''Wrong number of arguments for CONFIG GET''
              else Some (config_get (arg cmd 1) c (conf_props (full_cfg s a)) (on_reply c (set_type REDIS_REPLY_ARRAY) s), a)
         else if arg0 = ''set''
         then if n \<noteq> 3 then err ''Wrong number of arguments for CONFIG SET''
              else change_conf os (conf_set (arg cmd 1) (arg cmd 2) True) c st
         else if arg0 = ''add''
         then if n \<noteq> 3 then err ''Wrong number of arguments for CONFIG ADD''
              else change_conf os (conf_set (arg cmd 1) (arg cmd 2) False) c st
         else if arg0 = ''del''
         then if n \<noteq> 3 then err ''Wrong number of arguments for CONFIG DEL''
              else change_conf os (conf_del (arg cmd 1) (arg cmd 2)) c st
         else config_reload os read_file c st)"

section \<open>Snapshots\<close>

text \<open>\<open>None\<close> for another format than the two.\<close>

definition snapshot_format :: "RedisCommandFrame \<Rightarrow> SnapshotType option" where
  "snapshot_format cmd =
     (if length (m_args cmd) \<noteq> 1 then Some REDIS_SNAPSHOT
      else if strcaseeq (arg cmd 0) ''redis'' then Some REDIS_SNAPSHOT
      else if strcaseeq (arg cmd 0) ''mmkv'' then Some MMKV_SNAPSHOT
      else None)"

definition SaveCmd ::
    "'d dbl \<Rightarrow> 'd snap_world \<Rightarrow> snap_io \<Rightarrow> ctxid \<Rightarrow> RedisCommandFrame \<Rightarrow> 's server \<times> snap_store
     \<Rightarrow> ('s server \<times> snap_store) option" where
  "SaveCmd D W E c cmd st =
     (let (s, w) = st
      in case snapshot_format cmd of
           None \<Rightarrow> Some (on_reply c (fill_error_reply ''invalid save format'') s, w)
         | Some t \<Rightarrow>
             map_option (\<lambda>(err, _, w, _).
                 (on_reply c (if err = 0 then fill_ok_reply else fill_error_reply ''failed to save snapshot.'') s, w))
               (Save D W E True t True w snap_new))"

definition LastSaveCmd :: "ctxid \<Rightarrow> 's server \<times> snap_store \<Rightarrow> 's server \<times> snap_store" where
  "LastSaveCmd c st = (on_reply c (fill_int_reply (int (LastSave (snd st)))) (fst st), snd st)"

definition BGSaveCmd ::
    "'d dbl \<Rightarrow> 'd snap_world \<Rightarrow> snap_io \<Rightarrow> ctxid \<Rightarrow> RedisCommandFrame \<Rightarrow> 's server \<times> snap_store
     \<Rightarrow> ('s server \<times> snap_store) option" where
  "BGSaveCmd D W E c cmd st =
     (let (s, w) = st
      in case snapshot_format cmd of
           None \<Rightarrow> Some (on_reply c (fill_error_reply ''invalid save format'') s, w)
         | Some t \<Rightarrow> map_option (\<lambda>(_, w). (on_reply c fill_ok_reply s, w)) (BGSave D W E t w))"

text \<open>The calls that loading makes to the storage engine are part of the result.\<close>

definition Import ::
    "'d dbl \<Rightarrow> 'd snap_world \<Rightarrow> snap_io \<Rightarrow> string \<Rightarrow> ctxid \<Rightarrow> RedisCommandFrame \<Rightarrow> 's server \<times> snap_store
     \<Rightarrow> ('s server \<times> 'd kv_call list) option" where
  "Import D W E backup c cmd st =
     (let (s, w) = st;
          file = (if length (m_args cmd) = 1 then arg cmd 0 else backup @ ''/'' @ snap_world.snapshot_filename W)
      in map_option (\<lambda>(err, calls, _).
             (on_reply c (if err = 0 then fill_ok_reply else fill_error_reply ''failed to load snapshot.'') s, calls))
           (Load D W E file True w snap_new))"

section \<open>Replication\<close>

text \<open>\<open>remote\<close> gives host and port of a channel, if its address has them.\<close>

fun replconf_options ::
    "(nat \<Rightarrow> (string \<times> nat) option) \<Rightarrow> ctxid \<Rightarrow> string list \<Rightarrow> 's node \<Rightarrow> int \<times> 's node" where
  "replconf_options remote c (o' # v # rest) n =
     (if strcaseeq o' ''listening-port''
      then
        let port = (case string_touint32 v of None \<Rightarrow> 0 | Some p \<Rightarrow> p); cfg = m_cfg (node_db n)
        in case client (ctx (node_db n) c) of
             None \<Rightarrow> (0, n\<lparr>stuck := True\<rparr>)
           | Some ch \<Rightarrow>
               if (case remote ch of Some (h, _) \<Rightarrow> master_host cfg = h \<and> master_port cfg = port | None \<Rightarrow> False)
               then (- 1, on_db (on_reply c (fill_error_reply ''Reject connection as slave from master instance.'')) n)
               else replconf_options remote c rest (SetSlavePort ch port n)
      else replconf_options remote c rest n)"
| "replconf_options remote c _ n = (0, on_db (on_reply c (fill_status_reply ''OK'')) n)"

definition ReplConf ::
    "(nat \<Rightarrow> (string \<times> nat) option) \<Rightarrow> ctxid \<Rightarrow> RedisCommandFrame \<Rightarrow> 's node \<Rightarrow> int \<times> 's node" where
  "ReplConf remote c cmd n =
     (if length (m_args cmd) mod 2 \<noteq> 0
      then (0, on_db (on_reply c (fill_error_reply ''ERR wrong number of arguments for ReplConf'')) n)
      else replconf_options remote c (m_args cmd) n)"

text \<open>SYNC and PSYNC: the channel becomes a slave and is no longer a client.\<close>

definition PSync :: "snapshot_env \<Rightarrow> ctxid \<Rightarrow> RedisCommandFrame \<Rightarrow> 's node \<Rightarrow> int \<times> 's node" where
  "PSync V c cmd n =
     (case client (ctx (node_db n) c) of
        None \<Rightarrow> (0, n\<lparr>stuck := True\<rparr>)
      | Some ch \<Rightarrow> (0, on_db (FreeClientContext c) (AddSlave V ch cmd n)))"

section \<open>INFO\<close>

text \<open>
  What the operating system and the storage engine tell: the parts of \<open>uname\<close>, the version of the
  compiler, the process id, the seconds since the start, the size of the data file, the used space, the
  two times with two decimals, the memory sizes and the sizes of the databases.
\<close>

record info_env =
  uname_text :: string
  gcc_text :: string
  own_pid :: int
  uptime :: int
  data_size :: int
  space_used :: int
  cpu_sys :: string
  cpu_user :: string
  mem_rss :: int
  mem_shr :: int
  db_sizes :: "(DBID \<times> int) list"

text \<open>The separator is left out after every element that equals the last one.\<close>

definition string_join_container :: "string list \<Rightarrow> string \<Rightarrow> string" where
  "string_join_container xs sep = concat (map (\<lambda>x. if x = last xs then x else x @ sep) xs)"

function string_replace :: "string \<Rightarrow> string \<Rightarrow> string \<Rightarrow> string" where
  "string_replace s pat new =
     (case search pat s of
        None \<Rightarrow> s
      | Some i \<Rightarrow> if pat = [] then s else take i s @ new @ string_replace (drop (i + length pat) s) pat new)"
  by pat_completeness auto
termination
proof (relation "measure (\<lambda>(s, pat, new). length s)", goal_cases)
  case (2 s pat new i)
  then have "i < length s" using search_some by blast
  moreover have "length pat \<noteq> 0" using 2 by simp
  ultimately have "length s - (i + length pat) < length s" by linarith
  then show ?case by simp
qed simp

declare string_replace.simps [simp del]

definition line :: "string \<Rightarrow> string \<Rightarrow> string" where "line name v = name @ v @ CRLF"

definition info_server :: "info_env \<Rightarrow> string \<Rightarrow> config \<Rightarrow> string" where
  "info_server I run_id cfg =
     line ''# Server'' [] @ line ''comms_version:'' ''0.7.2'' @ line ''comms_home:'' (home cfg)
     @ line ''os:'' (uname_text I) @ line ''gcc_version:'' (gcc_text I) @ line ''process_id:'' (stringfromll (own_pid I))
     @ line ''run_id:'' run_id @ line ''tcp_port:'' (stringfromll (int (config.primary_port cfg)))
     @ line ''listen:'' (string_join_container (listen_addresses cfg) '','')
     @ line ''uptime_in_seconds:'' (stringfromll (uptime I))
     @ line ''uptime_in_days:'' (stringfromll (uptime I div (3600 * 24))) @ CRLF"

definition info_clients :: "'s server \<Rightarrow> string" where
  "info_clients s =
     line ''# Clients'' [] @ line ''connected_clients:'' (stringfromll (int (length (m_clients s))))
     @ line ''blocked_clients:'' (stringfromll (int (length (m_block_context_table s)))) @ CRLF"

definition info_databases :: "info_env \<Rightarrow> config \<Rightarrow> string" where
  "info_databases I cfg =
     line ''# Databases'' [] @ line ''data_dir:'' (data_base_path cfg)
     @ line ''mmap_capacity:'' (stringfromll (data_size I)) @ line ''mmap_used_space:'' (stringfromll (space_used I)) @ CRLF"

definition info_cpu :: "info_env \<Rightarrow> string" where
  "info_cpu I = line ''# CPU'' [] @ line ''used_cpu_sys:'' (cpu_sys I) @ line ''used_cpu_user:'' (cpu_user I) @ CRLF"

definition info_replication :: "config \<Rightarrow> string" where
  "info_replication cfg =
     line ''# Replication'' [] @ line ''repl_dir: '' (config.repl_data_dir cfg)
     @ line ''repl_wal_size: '' (stringfromll (config.repl_wal_size cfg))
     @ line ''repl_wal_cache_size: '' (stringfromll (repl_wal_cache_size cfg)) @ CRLF"

definition info_memory :: "info_env \<Rightarrow> string" where
  "info_memory I =
     line ''# Memory'' [] @ line ''used_memory_rss:'' (stringfromll (mem_rss I))
     @ line ''used_memory_shr:'' (stringfromll (mem_shr I)) @ CRLF"

definition info_stats :: "'s server \<Rightarrow> string" where
  "info_stats s =
     line ''# Stats'' [] @ PrintStat s @ line ''pubsub_channels:'' (stringfromll (int (length (m_pubsub_channels s))))
     @ line ''pubsub_patterns:'' (stringfromll (int (length (m_pubsub_patterns s)))) @ CRLF"

definition info_keyspace :: "info_env \<Rightarrow> string" where
  "info_keyspace I =
     line ''# Keyspace'' []
     @ concat (map (\<lambda>(db, n). if n > 0 then line (''db'' @ stringfromll (int db) @ '':keys='')
                      (stringfromll n @ '',expires=0,avg_ttl=0'') else []) (db_sizes I)) @ CRLF"

definition info_call :: "RedisCommandHandlerSetting \<Rightarrow> string" where
  "info_call st =
     (if calls st > 0
      then line (''cmdstat_'' @ setting_name st @ '':'' @ ''calls='' @ stringfromll (c_int64 (int (calls st))) @ '',usec='')
             (stringfromll (c_int64 (int (microseconds st))) @ '',usecpercall=''
              @ stringfromll (c_int64 (int (microseconds st div calls st)))
              @ '',maxlatency='' @ stringfromll (c_int64 (int (max_latency st))))
      else [])"

definition info_commandstats :: "'s server \<Rightarrow> string" where
  "info_commandstats s = line ''# Commandstats'' [] @ concat (map (info_call \<circ> snd) (m_settings s)) @ CRLF"

text \<open>The extra text of the configuration has its escaped newlines replaced, in the configuration itself.\<close>

definition info_misc :: "config \<Rightarrow> string \<times> config" where
  "info_misc cfg =
     (if additional_misc_info cfg = [] then (line ''# Misc'' [] @ CRLF, cfg)
      else let t = string_replace (additional_misc_info cfg) [CHR 0x5C, CHR ''n''] CRLF
           in (line ''# Misc'' [] @ line t [] @ CRLF, cfg\<lparr>additional_misc_info := t\<rparr>))"

definition FillInfoResponse :: "info_env \<Rightarrow> string \<Rightarrow> string \<Rightarrow> 's server \<times> 'f admin \<Rightarrow> string \<times> 'f admin" where
  "FillInfoResponse I run_id sec st =
     (let (s, a) = st; cfg = full_cfg s a;
          on = (\<lambda>name t. if strcaseeq sec ''all'' \<or> strcaseeq sec name then t else []);
          info = on ''server'' (info_server I run_id cfg) @ on ''clients'' (info_clients s)
            @ on ''databases'' (info_databases I cfg) @ on ''cpu'' (info_cpu I) @ on ''replication'' (info_replication cfg)
            @ on ''memory'' (info_memory I) @ on ''stats'' (info_stats s) @ on ''keyspace'' (info_keyspace I)
            @ on ''commandstats'' (info_commandstats s)
      in if strcaseeq sec ''all'' \<or> strcaseeq sec ''misc''
         then let (t, cfg) = info_misc cfg in (info @ t, a\<lparr>adm_cfg := cfg\<rparr>)
         else (info, a))"

definition Info ::
    "info_env \<Rightarrow> string \<Rightarrow> ctxid \<Rightarrow> RedisCommandFrame \<Rightarrow> 's server \<times> 'f admin \<Rightarrow> 's server \<times> 'f admin" where
  "Info I run_id c cmd st =
     (let sec = (if length (m_args cmd) = 1 then arg cmd 0 else ''all'');
          (info, a) = FillInfoResponse I run_id sec st
      in (on_reply c (fill_str_reply info) (fst st), a))"

section \<open>Settings are not checked\<close>

text \<open>A file system where every path is a directory one may use, and properties without variables.\<close>

definition os_ok :: "'f os \<Rightarrow> bool" where
  "os_ok os \<longleftrightarrow> (\<forall>p f. fs_isdir os p f \<and> fs_realpath os p f = Inr p \<and> fs_access os p f = 0)"

definition no_vars :: "Properties \<Rightarrow> bool" where
  "no_vars props \<longleftrightarrow> (\<forall>(k, a) \<in> set props. \<forall>it \<in> set a. \<forall>v \<in> set it. CHR ''$'' \<notin> set v)"

lemma search_absent: "p \<noteq> [] \<Longrightarrow> hd p \<notin> set s \<Longrightarrow> search p s = None"
  by (induction s; cases p) (auto simp: prefix_def)

lemma expand_env_no_var: "CHR ''$'' \<notin> set v \<Longrightarrow> expand_env env v = Some v"
  using search_absent [of "''${''" v] by (subst expand_env.simps) (simp add: str_find_def)

lemma expand_list_id: "(\<forall>x \<in> set xs. f x = Some x) \<Longrightarrow> expand_list f xs = Some xs"
  by (induction xs) auto

lemma replace_no_vars:
  assumes "no_vars props"
  shows "replace_env_var env props = Some props"
  unfolding replace_env_var_def
proof (rule expand_list_id, rule ballI)
  fix x assume x: "x \<in> set props"
  have "expand_list (expand_env env) it = Some it" if "it \<in> set (snd x)" for it
    using assms x that by (intro expand_list_id) (auto simp: no_vars_def intro!: expand_env_no_var)
  then have "expand_list (expand_list (expand_env env)) (snd x) = Some (snd x)" by (intro expand_list_id) blast
  then show "(\<lambda>(name, a). map_option (Pair name) (expand_list (expand_list (expand_env env)) a)) x = Some x"
    by (cases x) simp
qed

lemma make_dir_ok: "os_ok os \<Longrightarrow> make_dir os p f = (True, f)"
  by (subst make_dir.simps) (simp add: os_ok_def)

lemma real_path_ok: "os_ok os \<Longrightarrow> real_path os p f old = (0, c_str p)"
  by (simp add: real_path_def os_ok_def)

lemma no_vars_set: "no_vars props \<Longrightarrow> CHR ''$'' \<notin> set v \<Longrightarrow> no_vars (conf_set name v r props)"
proof -
  have sub: "set (map_put k a m) \<subseteq> insert (k, a) (set m)" for k and a :: ConfItemsArray and m
    by (induction k a m rule: map_put.induct) auto
  have mf: "map_find k m = Some a \<Longrightarrow> (k, a) \<in> set m" for k and a :: ConfItemsArray and m
    by (induction k m rule: map_find.induct) (auto split: if_splits)
  assume a: "no_vars props" "CHR ''$'' \<notin> set v"
  have e: "\<forall>it \<in> set (conf_entry name props). \<forall>w \<in> set it. CHR ''$'' \<notin> set w"
  proof (cases "map_find name props")
    case None
    then show ?thesis by (simp add: conf_entry_def)
  next
    case (Some b)
    then show ?thesis using a(1) mf [OF Some] unfolding no_vars_def by (auto simp: conf_entry_def)
  qed
  show ?thesis
    unfolding no_vars_def
  proof (rule ballI)
    fix x assume "x \<in> set (conf_set name v r props)"
    then have "x = (name, (if r then [] else conf_entry name props) @ [[v]]) \<or> x \<in> set props"
      using sub unfolding conf_set_def by blast
    then show "case x of (k, a) \<Rightarrow> \<forall>it \<in> set a. \<forall>v \<in> set it. CHR ''$'' \<notin> set v"
      using a e unfolding no_vars_def by (elim disjE) (auto split: if_splits)
  qed
qed

lemma parse_slaveof_fields [simp]:
  "requirepass (parse_slaveof props cfg) = requirepass cfg"
  "listen_addresses (parse_slaveof props cfg) = listen_addresses cfg"
  "conf_props (parse_slaveof props cfg) = conf_props cfg"
  by (auto simp: parse_slaveof_def split: prod.splits option.splits list.splits)

lemma parse_stage_fields [simp]:
  "requirepass (parse_first props cfg) = requirepass cfg"
  "requirepass (parse_middle props cfg) = requirepass cfg"
  "requirepass (parse_last props cfg) = get_str props ''requirepass'' (requirepass cfg)"
  "listen_addresses (parse_middle props cfg) = listen_addresses cfg"
  "listen_addresses (parse_last props cfg) = listen_addresses cfg"
  "conf_props (parse_first props cfg) = conf_props cfg"
  "conf_props (parse_middle props cfg) = conf_props cfg"
  "conf_props (parse_last props cfg) = conf_props cfg"
  "listen_addresses (parse_first props cfg) = (let la = listen_addresses cfg @ single_values (found ''listen'' props)
       in if la = [] then [''0.0.0.0:16379''] else la)"
  by (simp_all add: parse_first_def parse_listen_def parse_middle_def parse_last_def Let_def)

text \<open>What \<open>Parse\<close> leaves in the configuration when only the final check may fail.\<close>

lemma parse_config_quiet:
  assumes "os_ok os"
  obtains cfg' where "parse_config os props (cfg, f) = (verify_config cfg', cfg', f)"
    "requirepass cfg' = get_str props ''requirepass'' (requirepass cfg)"
    "listen_addresses cfg' = (let la = listen_addresses cfg @ single_values (found ''listen'' props)
       in if la = [] then [''0.0.0.0:16379''] else la)"
    "conf_props cfg' = conf_props cfg"
proof -
  let ?c1 = "parse_first props cfg"
  let ?c2 = "parse_middle props (?c1\<lparr>config.repl_data_dir := c_str (config.repl_data_dir ?c1)\<rparr>)"
  let ?c3 = "parse_last props (?c2\<lparr>data_base_path := c_str (data_base_path ?c2)\<rparr>)"
  have "parse_config os props (cfg, f) = (verify_config ?c3, ?c3, f)"
    unfolding parse_config_def by (simp add: make_dir_ok [OF assms] real_path_ok [OF assms] Let_def)
  then show ?thesis by (rule that) simp_all
qed

lemma full_cfg_fields [simp]:
  "listen_addresses (full_cfg s a) = listen_addresses (adm_cfg a)" "conf_props (full_cfg s a) = conf_props (adm_cfg a)"
  "requirepass (full_cfg s a) = requirepass (m_cfg s)"
  by (cases "adm_cfg a"; simp add: full_cfg_def CommsConfig.defs)+

lemma put_cfg_fields [simp]:
  "requirepass (m_cfg (put_cfg cfg s)) = requirepass cfg" "ctx (put_cfg cfg s) = ctx s"
  by (simp_all add: put_cfg_def CommsConfig.defs ctx_def fun_eq_iff)

lemma parse_home_quiet:
  assumes "os_ok os"
  obtains c0 where "parse_home os props (cfg, f) = (True, c0, f)" "requirepass c0 = requirepass cfg"
    "listen_addresses c0 = listen_addresses cfg"
proof -
  let ?h = "get_str props ''home'' (home cfg)"
  let ?c = "cfg\<lparr>home := c_str (if ?h = [] then ''../comms'' else ?h)\<rparr>"
  have acc: "fs_access os p f = 0" for p f using assms by (simp add: os_ok_def)
  have "parse_home os props (cfg, f) = (True, ?c, f)"
    unfolding parse_home_def by (simp only: make_dir_ok [OF assms] real_path_ok [OF assms] acc Let_def prod.case simp_thms)
  then show ?thesis by (rule that) simp_all
qed

lemma Parse_quiet:
  assumes "os_ok os" "no_vars props"
  obtains cfg' env' where "Parse os True props (cfg, f, env) = Some (verify_config cfg', conf_props cfg', cfg', f, env')"
    "requirepass cfg' = get_str props ''requirepass'' (requirepass cfg)"
    "listen_addresses cfg' = (let la = listen_addresses cfg @ single_values (found ''listen'' props)
       in if la = [] then [''0.0.0.0:16379''] else la)"
proof -
  obtain c0 where h: "parse_home os props (cfg\<lparr>conf_props := props\<rparr>, f) = (True, c0, f)"
    "requirepass c0 = requirepass cfg" "listen_addresses c0 = listen_addresses cfg"
    using parse_home_quiet [OF assms(1), of props "cfg\<lparr>conf_props := props\<rparr>" f] by auto
  obtain c1 where c1: "parse_config os props (c0\<lparr>conf_props := props\<rparr>, f) = (verify_config c1, c1, f)"
    "requirepass c1 = get_str props ''requirepass'' (requirepass c0)"
    "listen_addresses c1 = (let la = listen_addresses c0 @ single_values (found ''listen'' props)
       in if la = [] then [''0.0.0.0:16379''] else la)"
    using parse_config_quiet [OF assms(1), of props "c0\<lparr>conf_props := props\<rparr>" f] by auto
  let ?c2 = "if verify_config c1 then c1\<lparr>conf_props := test_entries (conf_props c1)\<rparr> else c1"
  have v: "verify_config ?c2 = verify_config c1" by (simp add: verify_config_def)
  have "Parse os True props (cfg, f, env)
      = Some (verify_config c1, conf_props ?c2, ?c2, f, env(''COMMS_HOME'' \<mapsto> c_str (home c0)))"
    unfolding Parse_def
    by (simp only: prod.case Let_def h(1) c1(1) replace_no_vars [OF assms(2)] if_True if_False option.case simp_thms)
  then have "Parse os True props (cfg, f, env)
      = Some (verify_config ?c2, conf_props ?c2, ?c2, f, env(''COMMS_HOME'' \<mapsto> c_str (home c0)))"
    by (simp only: v)
  then show ?thesis by (rule that) (use c1 h in simp_all)
qed

text \<open>C40: CONFIG SET does not look at the result of parsing: a password that the check refuses as too long is
  answered OK and in force, and every such command lists the configured addresses once more.\<close>

theorem config_set_unchecked:
  assumes "os_ok os" "no_vars (conf_props (adm_cfg a))" "map_ok (conf_props (adm_cfg a))"
    "m_args cmd = [sub, ''requirepass'', v]" "string_tolower sub = ''set''" "CHR ''$'' \<notin> set v"
    "listen_addresses (adm_cfg a) \<noteq> []"
  shows "\<exists>s' a'. Config os read_file c cmd (s, a) = Some (s', a')
    \<and> reply (ctx s' c) = fill_status_reply ''OK'' (reply (ctx s c)) \<and> requirepass (m_cfg s') = v
    \<and> listen_addresses (adm_cfg a') = listen_addresses (adm_cfg a) @ single_values (found ''listen'' (conf_props (adm_cfg a)))"
proof -
  let ?p = "conf_set ''requirepass'' v True (conf_props (adm_cfg a))"
  have nv: "no_vars ?p" using no_vars_set assms(2,6) .
  have f: "map_find ''requirepass'' ?p = Some [[v]]" "found ''listen'' ?p = found ''listen'' (conf_props (adm_cfg a))"
    using assms(3) by (simp_all add: conf_set_def found_def)
  obtain cfg' env' where r:
      "Parse os True ?p ((full_cfg s a)\<lparr>conf_props := ?p\<rparr>, adm_fs a, adm_env a)
        = Some (verify_config cfg', conf_props cfg', cfg', adm_fs a, env')"
    "requirepass cfg' = get_str ?p ''requirepass'' (requirepass (m_cfg s))"
    "listen_addresses cfg' = (let la = listen_addresses (adm_cfg a) @ single_values (found ''listen'' ?p)
       in if la = [] then [''0.0.0.0:16379''] else la)"
    using Parse_quiet [OF assms(1) nv, of "(full_cfg s a)\<lparr>conf_props := ?p\<rparr>" "adm_fs a" "adm_env a"] by auto
  have "requirepass cfg' = v" using r(2) f(1) by (simp add: get_str_def conf_get_string_def)
  moreover have "listen_addresses cfg' = listen_addresses (adm_cfg a) @ single_values (found ''listen'' (conf_props (adm_cfg a)))"
    using r(3) f(2) assms(7) by (simp add: Let_def)
  moreover have "Config os read_file c cmd (s, a) = change_conf os (conf_set ''requirepass'' v True) c (s, a)"
    using assms(4,5) by (simp add: Config_def arg_def Let_def)
  ultimately show ?thesis
    using r(1) by (simp add: change_conf_def Let_def on_reply_def)
qed

definition quiet_os :: "unit os" where
  "quiet_os = \<lparr>fs_isdir = (\<lambda>_ _. True), fs_isfile = (\<lambda>_ _. False), fs_mkdir = (\<lambda>_ f. (True, f)),
     fs_realpath = (\<lambda>p _. Inr p), fs_access = (\<lambda>_ _. 0)\<rparr>"

definition demo_admin :: "unit admin" where
  "demo_admin = \<lparr>adm_cfg = (config_new \<lparr>mm_readonly = False, mm_dir = [], mm_create_if_notexist = False,
        mm_keyspace_factor = 1, mm_size = 0, mm_autoexpand = False, mm_use_lock = False, mm_verify = False\<rparr>)
      \<lparr>listen_addresses := [''a:1''], conf_props := [(''listen'', [[''a:1'']])]\<rparr>,
     adm_fs = (), adm_env = (\<lambda>_. None)\<rparr>"

lemma config_set_unchecked_witness:
  "\<exists>s' a'. Config quiet_os (\<lambda>_ _. None) 1
      ((RedisCommandFrame_new ''config'')\<lparr>m_args := [''set'', ''requirepass'', replicate 600 (CHR ''x'')]\<rparr>)
      (demo_server, demo_admin) = Some (s', a')
    \<and> length (requirepass (m_cfg s')) = 600 \<and> listen_addresses (adm_cfg a') = [''a:1'', ''a:1'']"
proof -
  let ?v = "replicate 600 (CHR ''x'')"
  let ?cmd = "(RedisCommandFrame_new ''config'')\<lparr>m_args := [''set'', ''requirepass'', ?v]\<rparr>"
  have p: "conf_props (adm_cfg demo_admin) = [(''listen'', [[''a:1'']])]" "listen_addresses (adm_cfg demo_admin) = [''a:1'']"
    by (simp_all add: demo_admin_def)
  have h: "os_ok quiet_os" "no_vars (conf_props (adm_cfg demo_admin))" "map_ok (conf_props (adm_cfg demo_admin))"
    "m_args ?cmd = [''set'', ''requirepass'', ?v]" "string_tolower ''set'' = ''set''" "CHR ''$'' \<notin> set ?v"
    "listen_addresses (adm_cfg demo_admin) \<noteq> []"
    unfolding p by (simp_all add: os_ok_def quiet_os_def no_vars_def string_tolower_def c_tolower_def)
  have l: "length ?v = 600" by (rule length_replicate)
  have sv: "single_values (found ''listen'' [(''listen'', [[''a:1'']])]) = [''a:1'']" by (simp add: single_values_def found_def)
  show ?thesis
    using config_set_unchecked [OF h, of "\<lambda>_ _. None" 1 demo_server] l unfolding p sv by force
qed

end
