(* ===== verification/Pipeline.thy ===== *)
theory Pipeline
  imports Tree_Map "HOL-Library.Monad_Syntax"
begin

text \<open>
  The pipeline of a channel (\<open>common/channel/channel_pipeline.cpp\<close> and \<open>all_includes.hpp\<close>): a doubly linked
  list of named handlers with a table from names to list cells. The cells live in a store of addresses,
  as in the code, zero is the null pointer, and \<open>None\<close> is the use of a null or freed pointer. The
  operations refine those on a list of names and handlers and never use such a pointer, and an event
  reaches the first handler that takes it.
\<close>

section \<open>Cells\<close>

text \<open>\<open>can_up\<close> and \<open>can_down\<close> of a handler are copied into its context when that is made.\<close>

record channel_handler =
  hid :: nat
  can_up :: bool
  can_down :: bool

record handler_ctx =
  hc_prev :: nat
  hc_next :: nat
  hc_name :: string
  hc_handler :: channel_handler
  canHandleUpstream :: bool
  canHandleDownstream :: bool

record pipeline =
  cells :: "nat \<Rightarrow> handler_ctx option"
  fresh :: nat
  m_head :: nat
  m_tail :: nat
  m_name2ctx :: "(string, nat) tree_map"

definition pipeline_new :: pipeline where
  "pipeline_new = \<lparr>cells = (\<lambda>_. None), fresh = 1, m_head = 0, m_tail = 0, m_name2ctx = []\<rparr>"

definition new_cell :: "nat \<Rightarrow> nat \<Rightarrow> string \<Rightarrow> channel_handler \<Rightarrow> pipeline \<Rightarrow> nat \<times> pipeline" where
  "new_cell prev nxt name h p =
     (fresh p, p\<lparr>cells := (cells p)(fresh p \<mapsto> \<lparr>hc_prev = prev, hc_next = nxt, hc_name = name, hc_handler = h,
        canHandleUpstream = can_up h, canHandleDownstream = can_down h\<rparr>), fresh := fresh p + 1\<rparr>)"

definition on_cell :: "nat \<Rightarrow> (handler_ctx \<Rightarrow> handler_ctx) \<Rightarrow> pipeline \<Rightarrow> pipeline option" where
  "on_cell a f p = (case cells p a of None \<Rightarrow> None | Some c \<Rightarrow> Some (p\<lparr>cells := (cells p)(a \<mapsto> f c)\<rparr>))"

definition SetPrev :: "nat \<Rightarrow> nat \<Rightarrow> pipeline \<Rightarrow> pipeline option" where
  "SetPrev a v = on_cell a (\<lambda>c. c\<lparr>hc_prev := v\<rparr>)"

definition SetNext :: "nat \<Rightarrow> nat \<Rightarrow> pipeline \<Rightarrow> pipeline option" where
  "SetNext a v = on_cell a (\<lambda>c. c\<lparr>hc_next := v\<rparr>)"

text \<open>Deleting the null pointer does nothing; deleting a freed cell is an error.\<close>

definition free_cell :: "nat \<Rightarrow> pipeline \<Rightarrow> pipeline option" where
  "free_cell a p =
     (if a = 0 then Some p else if cells p a = None then None else Some (p\<lparr>cells := (cells p)(a := None)\<rparr>))"

section \<open>Operations\<close>

definition set_name :: "string \<Rightarrow> nat \<Rightarrow> pipeline \<Rightarrow> pipeline" where
  "set_name name a p = p\<lparr>m_name2ctx := map_put name a (m_name2ctx p)\<rparr>"

definition pipeline_init :: "string \<Rightarrow> channel_handler \<Rightarrow> pipeline \<Rightarrow> nat \<times> pipeline" where
  "pipeline_init name h p =
     (let (a, p) = new_cell 0 0 name h p in (a, set_name name a (p\<lparr>m_head := a, m_tail := a\<rparr>)))"

definition GetContext :: "string \<Rightarrow> pipeline \<Rightarrow> nat" where
  "GetContext name p = (case map_find name (m_name2ctx p) of None \<Rightarrow> 0 | Some a \<Rightarrow> a)"

definition duplicate :: "string \<Rightarrow> pipeline \<Rightarrow> bool" where
  "duplicate name p \<longleftrightarrow> map_find name (m_name2ctx p) \<noteq> None"

definition AddFirst :: "string \<Rightarrow> channel_handler \<Rightarrow> pipeline \<Rightarrow> (nat \<times> pipeline) option" where
  "AddFirst name h p =
     (if m_name2ctx p = [] then Some (pipeline_init name h p)
      else if duplicate name p then Some (0, p)
      else let oldHead = m_head p; (a, p) = new_cell 0 oldHead name h p
           in do { p \<leftarrow> SetPrev oldHead a p; Some (a, set_name name a (p\<lparr>m_head := a\<rparr>)) })"

definition AddLast :: "string \<Rightarrow> channel_handler \<Rightarrow> pipeline \<Rightarrow> (nat \<times> pipeline) option" where
  "AddLast name h p =
     (if m_name2ctx p = [] then Some (pipeline_init name h p)
      else if duplicate name p then Some (0, p)
      else let oldTail = m_tail p; (a, p) = new_cell oldTail 0 name h p
           in do { p \<leftarrow> SetNext oldTail a p; Some (a, set_name name a (p\<lparr>m_tail := a\<rparr>)) })"

definition AddBefore :: "string \<Rightarrow> string \<Rightarrow> channel_handler \<Rightarrow> pipeline \<Rightarrow> (nat \<times> pipeline) option" where
  "AddBefore base name h p =
     (let b = GetContext base p
      in if b = 0 then Some (0, p)
         else if b = m_head p then AddFirst name h p
         else if duplicate name p then Some (0, p)
         else do {
           c \<leftarrow> cells p b;
           let (a, p) = new_cell (hc_prev c) b name h p;
           p \<leftarrow> SetNext (hc_prev c) a p;
           p \<leftarrow> SetPrev b a p;
           Some (a, set_name name a p)
         })"

definition AddAfter :: "string \<Rightarrow> string \<Rightarrow> channel_handler \<Rightarrow> pipeline \<Rightarrow> (nat \<times> pipeline) option" where
  "AddAfter base name h p =
     (let b = GetContext base p
      in if b = 0 then Some (0, p)
         else if b = m_tail p then AddLast name h p
         else if duplicate name p then Some (0, p)
         else do {
           c \<leftarrow> cells p b;
           let (a, p) = new_cell b (hc_next c) name h p;
           p \<leftarrow> SetPrev (hc_next c) a p;
           p \<leftarrow> SetNext b a p;
           Some (a, set_name name a p)
         })"

definition drop_name :: "string \<Rightarrow> pipeline \<Rightarrow> pipeline" where
  "drop_name name p = p\<lparr>m_name2ctx := map_erase name (m_name2ctx p)\<rparr>"

definition empty_list :: "pipeline \<Rightarrow> pipeline" where
  "empty_list p = p\<lparr>m_head := 0, m_tail := 0, m_name2ctx := []\<rparr>"

definition RemoveFirst :: "pipeline \<Rightarrow> (channel_handler option \<times> pipeline) option" where
  "RemoveFirst p =
     (let a = m_head p
      in if a = 0 then Some (None, p)
         else do {
           c \<leftarrow> cells p a;
           p \<leftarrow> (if hc_next c = 0 then Some (empty_list p)
                else do { p \<leftarrow> SetPrev (hc_next c) 0 p; Some (drop_name (hc_name c) (p\<lparr>m_head := hc_next c\<rparr>)) });
           p \<leftarrow> free_cell a p;
           Some (Some (hc_handler c), p)
         })"

text \<open>The cell of a pipeline with one handler is deleted twice, but its pointer is null the second time.\<close>

definition RemoveLast :: "pipeline \<Rightarrow> (channel_handler option \<times> pipeline) option" where
  "RemoveLast p =
     (let a = m_tail p
      in if a = 0 then Some (None, p)
         else do {
           c \<leftarrow> cells p a;
           if hc_prev c = 0 then do {
             p \<leftarrow> free_cell a (empty_list p);
             p \<leftarrow> free_cell 0 p;
             Some (Some (hc_handler c), p)
           } else do {
             p \<leftarrow> SetNext (hc_prev c) 0 p;
             p \<leftarrow> free_cell a (drop_name (hc_name c) (p\<lparr>m_tail := hc_prev c\<rparr>));
             Some (Some (hc_handler c), p)
           }
         })"

definition remove_cell :: "nat \<Rightarrow> pipeline \<Rightarrow> (channel_handler option \<times> pipeline) option" where
  "remove_cell a p =
     (if a = 0 then Some (None, p)
      else do {
        c \<leftarrow> cells p a;
        if m_head p = m_tail p then do { p \<leftarrow> free_cell a (empty_list p); Some (Some (hc_handler c), p) }
        else if a = m_head p then RemoveFirst p
        else if a = m_tail p then RemoveLast p
        else do {
          p \<leftarrow> SetNext (hc_prev c) (hc_next c) p;
          p \<leftarrow> SetPrev (hc_next c) (hc_prev c) p;
          p \<leftarrow> free_cell a (drop_name (hc_name c) p);
          Some (Some (hc_handler c), p)
        }
      })"

definition RemoveName :: "string \<Rightarrow> pipeline \<Rightarrow> (channel_handler option \<times> pipeline) option" where
  "RemoveName name p = remove_cell (GetContext name p) p"

fun free_all :: "(string \<times> nat) list \<Rightarrow> pipeline \<Rightarrow> pipeline option" where
  "free_all [] p = Some p"
| "free_all ((name, a) # m) p = Option.bind (free_cell a p) (free_all m)"

definition pipeline_clear :: "pipeline \<Rightarrow> pipeline option" where
  "pipeline_clear p =
     do { p \<leftarrow> free_all (m_name2ctx p) (p\<lparr>m_head := 0, m_tail := 0\<rparr>); Some (p\<lparr>m_name2ctx := []\<rparr>) }"

definition pipeline_get :: "string \<Rightarrow> pipeline \<Rightarrow> channel_handler option option" where
  "pipeline_get name p =
     (let a = GetContext name p in if a = 0 then Some None else map_option (\<lambda>c. Some (hc_handler c)) (cells p a))"

section \<open>Events\<close>

text \<open>The outer \<open>None\<close> is a bad pointer or a loop that does not end, the result zero is the null pointer.\<close>

partial_function (option) GetActualUpstreamContext :: "nat \<Rightarrow> pipeline \<Rightarrow> nat option" where
  "GetActualUpstreamContext a p =
     (if a = 0 then Some 0
      else case cells p a of
             None \<Rightarrow> None
           | Some c \<Rightarrow> if canHandleUpstream c then Some a else GetActualUpstreamContext (hc_next c) p)"

partial_function (option) GetActualDownstreamContext :: "nat \<Rightarrow> pipeline \<Rightarrow> nat option" where
  "GetActualDownstreamContext a p =
     (if a = 0 then Some 0
      else case cells p a of
             None \<Rightarrow> None
           | Some c \<Rightarrow> if canHandleDownstream c then Some a else GetActualDownstreamContext (hc_prev c) p)"

text \<open>
  A message goes to the first handler whose type fits, \<open>fits\<close>, of those that handle its direction; the
  result is the context whose handler is called. Zero is that nobody takes it: upstream the event is
  dropped, downstream it goes to the service of the channel.
\<close>

partial_function (option) SendUpstream :: "(channel_handler \<Rightarrow> bool) \<Rightarrow> nat \<Rightarrow> pipeline \<Rightarrow> nat option" where
  "SendUpstream fits a p =
     do {
       r \<leftarrow> GetActualUpstreamContext a p;
       if r = 0 then Some 0
       else do { c \<leftarrow> cells p r; if fits (hc_handler c) then Some r else SendUpstream fits (hc_next c) p }
     }"

partial_function (option) SendDownstream :: "(channel_handler \<Rightarrow> bool) \<Rightarrow> nat \<Rightarrow> pipeline \<Rightarrow> nat option" where
  "SendDownstream fits a p =
     do {
       r \<leftarrow> GetActualDownstreamContext a p;
       if r = 0 then Some 0
       else do { c \<leftarrow> cells p r; if fits (hc_handler c) then Some r else SendDownstream fits (hc_prev c) p }
     }"

section \<open>The list of cells\<close>

definition first_of :: "nat list \<Rightarrow> nat \<Rightarrow> nat" where "first_of as nx = (case as of [] \<Rightarrow> nx | a # _ \<Rightarrow> a)"

definition last_of :: "nat \<Rightarrow> nat list \<Rightarrow> nat" where "last_of pr as = (if as = [] then pr else last as)"

definition linked :: "handler_ctx \<Rightarrow> nat \<Rightarrow> nat \<Rightarrow> bool" where
  "linked c pr nx \<longleftrightarrow> hc_prev c = pr \<and> hc_next c = nx
     \<and> canHandleUpstream c = can_up (hc_handler c) \<and> canHandleDownstream c = can_down (hc_handler c)"

text \<open>\<open>seg m pr as nx\<close>: the cells at \<open>as\<close> are linked to each other, to \<open>pr\<close> before and to \<open>nx\<close> behind them.\<close>

fun seg :: "(nat \<Rightarrow> handler_ctx option) \<Rightarrow> nat \<Rightarrow> nat list \<Rightarrow> nat \<Rightarrow> bool" where
  "seg m pr [] nx = True"
| "seg m pr (a # as) nx \<longleftrightarrow> m a \<noteq> None \<and> linked (the (m a)) pr (first_of as nx) \<and> seg m a as nx"

lemma first_of_simps [simp]: "first_of [] nx = nx" "first_of (a # as) nx = a" by (simp_all add: first_of_def)

lemma last_of_simps [simp]: "last_of pr [] = pr" "last_of pr (a # as) = last_of a as" "last_of pr (as @ [a]) = a"
  by (simp_all add: last_of_def)

lemma first_of_append [simp]: "first_of (xs @ ys) nx = first_of xs (first_of ys nx)"
  by (cases xs) simp_all

lemma seg_append [simp]: "seg m pr (xs @ ys) nx \<longleftrightarrow> seg m pr xs (first_of ys nx) \<and> seg m (last_of pr xs) ys nx"
  by (induction xs arbitrary: pr) auto

lemma seg_cong: "(\<And>a. a \<in> set xs \<Longrightarrow> m' a = m a) \<Longrightarrow> seg m' pr xs nx = seg m pr xs nx"
  by (induction xs arbitrary: pr) auto

lemma seg_cell: "seg m pr as nx \<Longrightarrow> a \<in> set as \<Longrightarrow> m a \<noteq> None"
  by (induction as arbitrary: pr) auto

lemma seg_snoc: "seg m pr (xs @ [z]) nx \<longleftrightarrow> seg m pr xs z \<and> m z \<noteq> None \<and> linked (the (m z)) (last_of pr xs) nx"
  by simp

text \<open>The links at the place between two parts of a list; a null neighbour is left alone.\<close>

definition set_next :: "nat \<Rightarrow> nat \<Rightarrow> (nat \<Rightarrow> handler_ctx option) \<Rightarrow> nat \<Rightarrow> handler_ctx option" where
  "set_next z v m = (if z = 0 then m else m(z := map_option (\<lambda>c. c\<lparr>hc_next := v\<rparr>) (m z)))"

definition set_prev :: "nat \<Rightarrow> nat \<Rightarrow> (nat \<Rightarrow> handler_ctx option) \<Rightarrow> nat \<Rightarrow> handler_ctx option" where
  "set_prev z v m = (if z = 0 then m else m(z := map_option (\<lambda>c. c\<lparr>hc_prev := v\<rparr>) (m z)))"

lemma seg_set_next:
  assumes "seg m pr xs nx" "distinct xs" "0 \<notin> set xs"
  shows "seg (set_next (last_of 0 xs) v m) pr xs v"
proof (cases xs rule: rev_cases)
  case (snoc ys z)
  then have z: "z \<noteq> 0" "z \<notin> set ys" "seg m pr ys z" "m z \<noteq> None" "linked (the (m z)) (last_of pr ys) nx"
    using assms by auto
  have "seg (set_next z v m) pr ys z = seg m pr ys z" using z(1,2) by (intro seg_cong) (auto simp: set_next_def)
  then show ?thesis using z snoc by (auto simp: set_next_def linked_def)
qed simp

lemma seg_set_prev:
  assumes "seg m pr xs nx" "distinct xs" "0 \<notin> set xs"
  shows "seg (set_prev (first_of xs 0) v m) v xs nx"
proof (cases xs)
  case (Cons z ys)
  then have z: "z \<noteq> 0" "z \<notin> set ys" "seg m z ys nx" "m z \<noteq> None" "linked (the (m z)) pr (first_of ys nx)"
    using assms by auto
  have "seg (set_prev z v m) z ys nx = seg m z ys nx" using z(1,2) by (intro seg_cong) (auto simp: set_prev_def)
  then show ?thesis using z Cons by (auto simp: set_prev_def linked_def)
qed simp

lemma set_link_other:
  "a \<noteq> z \<Longrightarrow> set_next z v m a = m a" "a \<noteq> z \<Longrightarrow> set_prev z v m a = m a"
  "map_option hc_name (set_next z v m a) = map_option hc_name (m a)"
  "map_option hc_name (set_prev z v m a) = map_option hc_name (m a)"
  "map_option hc_handler (set_next z v m a) = map_option hc_handler (m a)"
  "map_option hc_handler (set_prev z v m a) = map_option hc_handler (m a)"
  by (auto simp: set_next_def set_prev_def option.map_comp comp_def)

lemma last_of_in: "xs \<noteq> [] \<Longrightarrow> last_of pr xs \<in> set xs" by (simp add: last_of_def)

lemma first_of_in: "xs \<noteq> [] \<Longrightarrow> first_of xs nx \<in> set xs" by (cases xs) simp_all

text \<open>Making and breaking the two links at one place of a list.\<close>

lemma seg_relink:
  assumes "seg m 0 xs nx" "seg m pr ys 0" "distinct (xs @ ys)" "0 \<notin> set (xs @ ys)"
  shows "seg (set_next (last_of 0 xs) v (set_prev (first_of ys 0) u m)) 0 xs v"
    "seg (set_next (last_of 0 xs) v (set_prev (first_of ys 0) u m)) u ys 0"
proof -
  let ?m = "set_prev (first_of ys 0) u m"
  have "?m a = m a" if "a \<in> set xs" for a
  proof (cases "ys = []")
    case False
    then show ?thesis using first_of_in [OF False, of 0] assms(3) that by (intro set_link_other(2)) auto
  qed (simp add: set_prev_def)
  then have x: "seg ?m 0 xs nx" using seg_cong [of xs ?m m] assms(1) by simp
  show "seg (set_next (last_of 0 xs) v ?m) 0 xs v" by (rule seg_set_next [OF x]) (use assms in auto)
  have y: "seg ?m u ys 0" by (rule seg_set_prev [OF assms(2)]) (use assms in auto)
  have "set_next (last_of 0 xs) v ?m a = ?m a" if "a \<in> set ys" for a
  proof (cases "xs = []")
    case False
    then show ?thesis using last_of_in [OF False, of 0] assms(3) that by (intro set_link_other(1)) auto
  qed (simp add: set_next_def)
  then show "seg (set_next (last_of 0 xs) v ?m) u ys 0" using y seg_cong [of ys "set_next (last_of 0 xs) v ?m" ?m] by simp
qed

lemma SetPrev_eq: "z \<noteq> 0 \<Longrightarrow> cells p z \<noteq> None \<Longrightarrow> SetPrev z v p = Some (p\<lparr>cells := set_prev z v (cells p)\<rparr>)"
  by (auto simp: SetPrev_def on_cell_def set_prev_def)

lemma SetNext_eq: "z \<noteq> 0 \<Longrightarrow> cells p z \<noteq> None \<Longrightarrow> SetNext z v p = Some (p\<lparr>cells := set_next z v (cells p)\<rparr>)"
  by (auto simp: SetNext_def on_cell_def set_next_def)

lemma free_cell_eq: "a \<noteq> 0 \<Longrightarrow> cells p a \<noteq> None \<Longrightarrow> free_cell a p = Some (p\<lparr>cells := (cells p)(a := None)\<rparr>)"
  by (simp add: free_cell_def)

lemma set_links_None [simp]: "set_next z v m a = None \<longleftrightarrow> m a = None" "set_prev z v m a = None \<longleftrightarrow> m a = None"
  by (auto simp: set_next_def set_prev_def)

lemma set_links_null [simp]: "set_next 0 v m = m" "set_prev 0 v m = m"
  by (simp_all add: set_next_def set_prev_def)

section \<open>The abstraction\<close>

definition name_at :: "pipeline \<Rightarrow> nat \<Rightarrow> string" where "name_at p a = hc_name (the (cells p a))"

definition handler_at :: "pipeline \<Rightarrow> nat \<Rightarrow> channel_handler" where "handler_at p a = hc_handler (the (cells p a))"

text \<open>
  \<open>holds p as\<close>: the pipeline is the list of the cells \<open>as\<close>, all of them and no other cell is allocated;
  \<open>handlers_of\<close> is their names and handlers.
\<close>

definition handlers_of :: "pipeline \<Rightarrow> nat list \<Rightarrow> (string \<times> channel_handler) list" where
  "handlers_of p as = map (\<lambda>a. (name_at p a, handler_at p a)) as"

definition names_ok :: "pipeline \<Rightarrow> nat list \<Rightarrow> bool" where
  "names_ok p as \<longleftrightarrow> distinct (map (name_at p) as) \<and> map_ok (m_name2ctx p)
     \<and> (\<forall>n a. map_find n (m_name2ctx p) = Some a \<longleftrightarrow> a \<in> set as \<and> name_at p a = n)"

definition holds :: "pipeline \<Rightarrow> nat list \<Rightarrow> bool" where
  "holds p as \<longleftrightarrow> seg (cells p) 0 as 0 \<and> distinct as \<and> (\<forall>a \<in> set as. 0 < a \<and> a < fresh p) \<and> 0 < fresh p
     \<and> dom (cells p) = set as \<and> m_head p = first_of as 0 \<and> m_tail p = last_of 0 as \<and> names_ok p as"

lemma same_names:
  assumes "map_option hc_name x = map_option hc_name y" "map_option hc_handler x = map_option hc_handler y" "y \<noteq> None"
  shows "hc_name (the x) = hc_name (the y)" "hc_handler (the x) = hc_handler (the y)"
  using assms by (cases y; cases x; auto)+

text \<open>What an insertion and a removal do to the store.\<close>

definition insert_cell :: "nat list \<Rightarrow> string \<Rightarrow> channel_handler \<Rightarrow> nat list \<Rightarrow> pipeline \<Rightarrow> pipeline" where
  "insert_cell xs name h ys p =
     (let a = fresh p;
          c = \<lparr>hc_prev = last_of 0 xs, hc_next = first_of ys 0, hc_name = name, hc_handler = h,
               canHandleUpstream = can_up h, canHandleDownstream = can_down h\<rparr>
      in p\<lparr>cells := set_next (last_of 0 xs) a (set_prev (first_of ys 0) a ((cells p)(a \<mapsto> c))), fresh := a + 1,
           m_head := first_of (xs @ [a]) 0, m_tail := last_of a ys,
           m_name2ctx := map_put name a (m_name2ctx p)\<rparr>)"

definition cut_cell :: "nat list \<Rightarrow> nat \<Rightarrow> nat list \<Rightarrow> pipeline \<Rightarrow> pipeline" where
  "cut_cell xs a ys p =
     p\<lparr>cells := (set_next (last_of 0 xs) (first_of ys 0) (set_prev (first_of ys 0) (last_of 0 xs) (cells p)))(a := None),
       m_head := first_of (xs @ ys) 0, m_tail := last_of 0 (xs @ ys), m_name2ctx := map_erase (name_at p a) (m_name2ctx p)\<rparr>"

lemma holds_append:
  assumes "holds p (xs @ ys)"
  shows "seg (cells p) 0 xs (first_of ys 0)" "seg (cells p) (last_of 0 xs) ys 0" "distinct (xs @ ys)" "0 \<notin> set (xs @ ys)"
    "fresh p \<notin> set (xs @ ys)" "fresh p \<noteq> 0" "fresh p \<noteq> last_of 0 xs" "fresh p \<noteq> first_of ys 0"
proof -
  have lt: "\<forall>a \<in> set (xs @ ys). 0 < a \<and> a < fresh p" "0 < fresh p" using assms unfolding holds_def by blast+
  show "seg (cells p) 0 xs (first_of ys 0)" "seg (cells p) (last_of 0 xs) ys 0" "distinct (xs @ ys)"
    using assms by (simp_all add: holds_def)
  show "0 \<notin> set (xs @ ys)" "fresh p \<notin> set (xs @ ys)" "fresh p \<noteq> 0" using lt by blast+
  show "fresh p \<noteq> last_of 0 xs" using lt last_of_in [of xs 0] by (cases "xs = []") fastforce+
  show "fresh p \<noteq> first_of ys 0" using lt first_of_in [of ys 0] by (cases "ys = []") fastforce+
qed

lemma insert_cell_seg:
  assumes "holds p (xs @ ys)"
  shows "seg (cells (insert_cell xs name h ys p)) 0 (xs @ fresh p # ys) 0"
    "cells (insert_cell xs name h ys p) (fresh p) \<noteq> None"
    "name_at (insert_cell xs name h ys p) (fresh p) = name" "handler_at (insert_cell xs name h ys p) (fresh p) = h"
proof -
  define c where "c = \<lparr>hc_prev = last_of 0 xs, hc_next = first_of ys 0, hc_name = name, hc_handler = h,
    canHandleUpstream = can_up h, canHandleDownstream = can_down h\<rparr>"
  let ?a = "fresh p"
  let ?m = "(cells p)(?a \<mapsto> c)"
  let ?n = "set_next (last_of 0 xs) ?a (set_prev (first_of ys 0) ?a ?m)"
  note h = holds_append [OF assms]
  have "?m b = cells p b" if "b \<in> set (xs @ ys)" for b using that h(5) by auto
  then have x: "seg ?m 0 xs (first_of ys 0)" and y: "seg ?m (last_of 0 xs) ys 0"
    using h(1,2) seg_cong [of xs ?m "cells p"] seg_cong [of ys ?m "cells p"] by auto
  note r = seg_relink [OF x y h(3,4), where u = ?a and v = ?a]
  have a: "?n ?a = Some c" using h(7,8) by (simp add: set_link_other)
  have e: "cells (insert_cell xs name h ys p) = ?n" by (simp add: insert_cell_def c_def Let_def)
  show "seg (cells (insert_cell xs name h ys p)) 0 (xs @ fresh p # ys) 0"
    unfolding e seg_append first_of_simps using r a by (simp add: linked_def c_def)
  show "cells (insert_cell xs name h ys p) (fresh p) \<noteq> None" using a by (simp add: e)
  show "name_at (insert_cell xs name h ys p) (fresh p) = name" "handler_at (insert_cell xs name h ys p) (fresh p) = h"
    using a by (simp_all add: e name_at_def handler_at_def c_def)
qed

lemma insert_cell_others:
  assumes "cells p b \<noteq> None" "b \<noteq> fresh p"
  shows "name_at (insert_cell xs name h ys p) b = name_at p b" "handler_at (insert_cell xs name h ys p) b = handler_at p b"
  using same_names [of "cells (insert_cell xs name h ys p) b" "cells p b"] assms
  by (simp_all add: insert_cell_def Let_def set_link_other name_at_def handler_at_def)

lemma handlers_of_cong:
  "(\<And>a. a \<in> set as \<Longrightarrow> name_at q a = name_at p a \<and> handler_at q a = handler_at p a) \<Longrightarrow> handlers_of q as = handlers_of p as"
  by (simp add: handlers_of_def)

lemma handlers_of_simps [simp]:
  "handlers_of p [] = []" "handlers_of p (a # as) = (name_at p a, handler_at p a) # handlers_of p as"
  "handlers_of p (xs @ ys) = handlers_of p xs @ handlers_of p ys"
  by (simp_all add: handlers_of_def)

lemma names_of_handlers: "map fst (handlers_of p as) = map (name_at p) as"
  by (simp add: handlers_of_def comp_def)

lemma holds_cell: "holds p as \<Longrightarrow> a \<in> set as \<Longrightarrow> cells p a \<noteq> None \<and> a \<noteq> 0 \<and> a \<noteq> fresh p"
  by (auto simp: holds_def dom_def)

theorem insert_cell_holds:
  assumes H: "holds p (xs @ ys)" and new: "name \<notin> name_at p ` set (xs @ ys)"
  shows "holds (insert_cell xs name h ys p) (xs @ fresh p # ys)"
    "handlers_of (insert_cell xs name h ys p) (xs @ fresh p # ys) = handlers_of p xs @ (name, h) # handlers_of p ys"
proof -
  let ?q = "insert_cell xs name h ys p"
  note s = insert_cell_seg [OF H, of name h] and h = holds_append [OF H]
  have o: "name_at ?q b = name_at p b" "handler_at ?q b = handler_at p b" if "b \<in> set (xs @ ys)" for b
    using insert_cell_others [of p b] holds_cell [OF H that] by auto
  have m: "map (name_at ?q) xs = map (name_at p) xs" "map (name_at ?q) ys = map (name_at p) ys" using o by auto
  have N: "names_ok p (xs @ ys)" using H by (simp add: holds_def)
  have t: "m_name2ctx ?q = map_put name (fresh p) (m_name2ctx p)" by (simp add: insert_cell_def Let_def)
  have d: "distinct (map (name_at ?q) (xs @ fresh p # ys))"
    using N new unfolding names_ok_def map_append list.map m s(3) by auto
  have "map_find n (m_name2ctx ?q) = Some a \<longleftrightarrow> a \<in> set (xs @ fresh p # ys) \<and> name_at ?q a = n" for n a
  proof (cases "a = fresh p")
    case True
    then show ?thesis using N h(5) unfolding t names_ok_def by (auto simp: s(3))
  next
    case False
    then show ?thesis using N new o [of a] unfolding t names_ok_def by auto
  qed
  then have names: "names_ok ?q (xs @ fresh p # ys)" using d N by (simp add: names_ok_def t)
  have dom: "dom (cells ?q) = set (xs @ fresh p # ys)"
  proof -
    have "dom (cells ?q) = insert (fresh p) (dom (cells p))"
      by (auto simp: insert_cell_def Let_def dom_def simp del: not_None_eq)
    then show ?thesis using H by (auto simp: holds_def)
  qed
  have ends: "fresh ?q = fresh p + 1" "m_head ?q = first_of (xs @ [fresh p]) 0" "m_tail ?q = last_of (fresh p) ys"
    by (simp_all add: insert_cell_def Let_def)
  have "\<forall>a \<in> set (xs @ fresh p # ys). 0 < a \<and> a < fresh ?q" "0 < fresh ?q"
    using H unfolding holds_def ends by (auto simp: less_Suc_eq)
  moreover have "m_head ?q = first_of (xs @ fresh p # ys) 0" "m_tail ?q = last_of 0 (xs @ fresh p # ys)"
    unfolding ends by (cases xs; simp) (simp add: last_of_def)
  moreover have "distinct (xs @ fresh p # ys)" using h(3,5) by auto
  ultimately show "holds ?q (xs @ fresh p # ys)" unfolding holds_def using s(1) dom names by blast
  show "handlers_of ?q (xs @ fresh p # ys) = handlers_of p xs @ (name, h) # handlers_of p ys"
    using o handlers_of_cong [of xs ?q p] handlers_of_cong [of ys ?q p] s(3,4) by simp
qed

theorem cut_cell_holds:
  assumes H: "holds p (xs @ a # ys)"
  shows "holds (cut_cell xs a ys p) (xs @ ys)" "handlers_of (cut_cell xs a ys p) (xs @ ys) = handlers_of p xs @ handlers_of p ys"
proof -
  let ?q = "cut_cell xs a ys p"
  let ?n = "set_next (last_of 0 xs) (first_of ys 0) (set_prev (first_of ys 0) (last_of 0 xs) (cells p))"
  have s: "seg (cells p) 0 xs a" "seg (cells p) a ys 0" "distinct (xs @ a # ys)" "0 \<notin> set (xs @ a # ys)"
    using H by (auto simp: holds_def)
  have "distinct (xs @ ys)" "0 \<notin> set (xs @ ys)" using s(3,4) by auto
  note r = seg_relink [OF s(1,2) this, where u = "last_of 0 xs" and v = "first_of ys 0"]
  have e: "cells ?q = ?n(a := None)" by (simp add: cut_cell_def)
  have n: "cells ?q b = ?n b" if "b \<in> set (xs @ ys)" for b using that s(3) unfolding e by auto
  have q: "seg (cells ?q) 0 (xs @ ys) 0"
    using r seg_cong [of xs "cells ?q" ?n] seg_cong [of ys "cells ?q" ?n] n by auto
  have o: "name_at ?q b = name_at p b" "handler_at ?q b = handler_at p b" if "b \<in> set (xs @ ys)" for b
    using same_names [of "cells ?q b" "cells p b"] n [OF that] holds_cell [OF H, of b] that
    by (auto simp: set_link_other name_at_def handler_at_def)
  have m: "map (name_at ?q) xs = map (name_at p) xs" "map (name_at ?q) ys = map (name_at p) ys" using o by auto
  have N: "names_ok p (xs @ a # ys)" using H by (simp add: holds_def)
  have t: "m_name2ctx ?q = map_erase (name_at p a) (m_name2ctx p)" by (simp add: cut_cell_def)
  have d: "distinct (map (name_at ?q) (xs @ ys))" "name_at p a \<notin> name_at p ` set (xs @ ys)" "map_ok (m_name2ctx p)"
    using N unfolding names_ok_def map_append list.map m by auto
  have "map_find k (m_name2ctx ?q) = Some b \<longleftrightarrow> b \<in> set (xs @ ys) \<and> name_at ?q b = k" for k b
  proof (cases "b \<in> set (xs @ ys)")
    case True
    then have "name_at p b \<noteq> name_at p a" using d(2) by (metis image_eqI)
    then show ?thesis using True N d(3) o [OF True] unfolding t names_ok_def by auto
  next
    case False
    then show ?thesis using N d(2,3) unfolding t names_ok_def by auto
  qed
  then have names: "names_ok ?q (xs @ ys)" using d by (simp add: names_ok_def t)
  have "dom (cells ?q) = dom (cells p) - {a}" by (auto simp: cut_cell_def dom_def simp del: not_None_eq)
  then have dom: "dom (cells ?q) = set (xs @ ys)" using H s(3) by (auto simp: holds_def)
  have ends: "fresh ?q = fresh p" "m_head ?q = first_of (xs @ ys) 0" "m_tail ?q = last_of 0 (xs @ ys)"
    by (simp_all add: cut_cell_def)
  have "\<forall>a \<in> set (xs @ ys). 0 < a \<and> a < fresh ?q" "0 < fresh ?q" using H unfolding holds_def ends by auto
  moreover have "distinct (xs @ ys)" using s(3) by auto
  ultimately show "holds ?q (xs @ ys)" unfolding holds_def using q dom names ends by blast
  show "handlers_of ?q (xs @ ys) = handlers_of p xs @ handlers_of p ys"
    using o handlers_of_cong [of xs ?q p] handlers_of_cong [of ys ?q p] by simp
qed

section \<open>Each operation on the list\<close>

lemma holds_names:
  assumes "holds p as"
  shows "duplicate name p \<longleftrightarrow> name \<in> name_at p ` set as" "m_name2ctx p = [] \<longleftrightarrow> as = []"
    "name \<notin> name_at p ` set as \<Longrightarrow> GetContext name p = 0" "a \<in> set as \<Longrightarrow> GetContext (name_at p a) p = a"
proof -
  have f: "map_find n (m_name2ctx p) = Some a \<longleftrightarrow> a \<in> set as \<and> name_at p a = n" for n a
    using assms by (simp add: holds_def names_ok_def)
  show "duplicate name p \<longleftrightarrow> name \<in> name_at p ` set as" using f unfolding duplicate_def by auto
  show "name \<notin> name_at p ` set as \<Longrightarrow> GetContext name p = 0"
    using f unfolding GetContext_def by (auto split: option.splits)
  show "a \<in> set as \<Longrightarrow> GetContext (name_at p a) p = a"
    using f [of "name_at p a" a] unfolding GetContext_def by simp
  show "m_name2ctx p = [] \<longleftrightarrow> as = []"
  proof
    assume "as = []"
    then have "map_find n (m_name2ctx p) = None" for n using f [of n] by (cases "map_find n (m_name2ctx p)") auto
    then show "m_name2ctx p = []" by (metis list.exhaust map_find.simps(2) option.distinct(1) surj_pair)
  qed (use f in \<open>cases as; auto\<close>)
qed

lemma holds_split:
  assumes "holds p as" "GetContext name p \<noteq> 0"
  obtains xs a ys where "as = xs @ a # ys" "name_at p a = name" "GetContext name p = a"
proof -
  have "name \<in> name_at p ` set as" using assms(2) holds_names(3) [OF assms(1), of name] by argo
  then obtain a where a: "a \<in> set as" "name_at p a = name" by auto
  obtain xs ys where s: "as = xs @ a # ys" using split_list [OF a(1)] by auto
  show ?thesis by (rule that [OF s a(2)]) (use holds_names(4) [OF assms(1) a(1)] a(2) in simp)
qed

lemma holds_ends: "holds p as \<Longrightarrow> m_head p = first_of as 0 \<and> m_tail p = last_of 0 as"
  by (simp add: holds_def)

lemma last_of_Nil: "last_of pr (xs @ y # ys) = last_of y ys"
  by (simp add: last_of_def)

lemma new_cell_cells:
  "new_cell pr nx name h p = (fresh p, q) \<Longrightarrow> z \<noteq> fresh p \<Longrightarrow> cells q z = cells p z"
  by (auto simp: new_cell_def)

lemma init_is_insert: "holds p [] \<Longrightarrow> pipeline_init name h p = (fresh p, insert_cell [] name h [] p)"
  by (simp add: pipeline_init_def new_cell_def insert_cell_def set_name_def Let_def)

lemma AddFirst_is_insert:
  assumes "holds p as" "name \<notin> name_at p ` set as"
  shows "AddFirst name h p = Some (fresh p, insert_cell [] name h as p)"
proof (cases as)
  case Nil
  then show ?thesis using assms holds_names(2) init_is_insert by (simp add: AddFirst_def)
next
  case (Cons z ys)
  note c = holds_cell [OF assms(1), of z] and d = holds_names(1,2) [OF assms(1)] and e = holds_ends [OF assms(1)]
  show ?thesis using Cons c d e assms(2)
    by (auto simp: AddFirst_def new_cell_def SetPrev_eq insert_cell_def set_name_def Let_def)
qed

lemma AddLast_is_insert:
  assumes "holds p as" "name \<notin> name_at p ` set as"
  shows "AddLast name h p = Some (fresh p, insert_cell as name h [] p)"
proof (cases as rule: rev_cases)
  case Nil
  then show ?thesis using assms holds_names(2) init_is_insert by (simp add: AddLast_def)
next
  case (snoc ys z)
  note c = holds_cell [OF assms(1), of z] and d = holds_names(1,2) [OF assms(1)] and e = holds_ends [OF assms(1)]
  show ?thesis using snoc c d e assms(2)
    by (auto simp: AddLast_def new_cell_def SetNext_eq insert_cell_def set_name_def Let_def)
qed

lemma seg_cell_links:
  assumes "holds p (xs @ a # ys)"
  obtains c where "cells p a = Some c" "hc_prev c = last_of 0 xs" "hc_next c = first_of ys 0" "hc_name c = name_at p a"
    "hc_handler c = handler_at p a"
  using assms by (auto simp: holds_def linked_def name_at_def handler_at_def)

lemma set_links_commute: "a \<noteq> z \<Longrightarrow> set_prev a u (set_next z v m) = set_next z v (set_prev a u m)"
  by (auto simp: set_prev_def set_next_def)

text \<open>Linking a new cell in between two others, in either order.\<close>

lemma link_between:
  assumes "holds p (xs @ a # ys)" "xs \<noteq> []"
    and "new_cell (last_of 0 xs) a name h p = (b, q)"
  shows "do { q \<leftarrow> SetNext (last_of 0 xs) b q; q \<leftarrow> SetPrev a b q; Some (b, set_name name b q) }
      = Some (fresh p, insert_cell xs name h (a # ys) p)"
    "do { q \<leftarrow> SetPrev a b q; q \<leftarrow> SetNext (last_of 0 xs) b q; Some (b, set_name name b q) }
      = Some (fresh p, insert_cell xs name h (a # ys) p)"
proof -
  define z where "z = last_of 0 xs"
  have z: "z \<in> set xs" "z \<noteq> a" using last_of_in [OF assms(2), of 0] holds_append(3) [OF assms(1)] by (auto simp: z_def)
  note n = holds_cell [OF assms(1), of a] holds_cell [OF assms(1), of z]
  have b: "b = fresh p" using assms(3) by (simp add: new_cell_def)
  note c = new_cell_cells [OF assms(3) [unfolded b]]
  have q: "b = fresh p" "cells q a \<noteq> None" "cells q z \<noteq> None" "a \<noteq> 0" "z \<noteq> 0"
    using b c [of a] c [of z] n z(1) by simp_all
  have q': "q = p\<lparr>cells := (cells p)(b \<mapsto> \<lparr>hc_prev = z, hc_next = a, hc_name = name, hc_handler = h,
      canHandleUpstream = can_up h, canHandleDownstream = can_down h\<rparr>), fresh := b + 1\<rparr>"
    using assms(3) [unfolded b new_cell_def prod.inject] unfolding b z_def by (rule conjunct2 [THEN sym])
  have ends: "m_head p = first_of (xs @ [b]) 0" "m_tail p = last_of b (a # ys)"
    using holds_ends [OF assms(1)] assms(2) by (cases xs; simp add: last_of_Nil)+
  have e: "set_name name b (q\<lparr>cells := set_next z b (set_prev a b (cells q))\<rparr>) = insert_cell xs name h (a # ys) p"
    unfolding q' insert_cell_def set_name_def Let_def q(1) [symmetric] z_def [symmetric] first_of_simps
    by (rule pipeline.equality) (simp_all add: ends)
  have P: "SetPrev a b r = Some (r\<lparr>cells := set_prev a b (cells r)\<rparr>)" if "cells r a \<noteq> None" for r
    using that q(4) by (rule SetPrev_eq [rotated])
  have N: "SetNext z b r = Some (r\<lparr>cells := set_next z b (cells r)\<rparr>)" if "cells r z \<noteq> None" for r
    using that q(5) by (rule SetNext_eq [rotated])
  have P1: "SetPrev a b q = Some (q\<lparr>cells := set_prev a b (cells q)\<rparr>)"
    "SetNext z b (q\<lparr>cells := set_prev a b (cells q)\<rparr>) = Some (q\<lparr>cells := set_next z b (set_prev a b (cells q))\<rparr>)"
    using P [of q] N [of "q\<lparr>cells := set_prev a b (cells q)\<rparr>"] q(2,3) by simp_all
  have N1: "SetNext z b q = Some (q\<lparr>cells := set_next z b (cells q)\<rparr>)"
    "SetPrev a b (q\<lparr>cells := set_next z b (cells q)\<rparr>) = Some (q\<lparr>cells := set_next z b (set_prev a b (cells q))\<rparr>)"
    using N [of q] P [of "q\<lparr>cells := set_next z b (cells q)\<rparr>"] q(2,3) set_links_commute [of a z b b "cells q"] z(2)
    by simp_all
  show "do { q \<leftarrow> SetNext (last_of 0 xs) b q; q \<leftarrow> SetPrev a b q; Some (b, set_name name b q) }
      = Some (fresh p, insert_cell xs name h (a # ys) p)"
    unfolding z_def [symmetric] by (simp only: N1 bind.bind_lunit e q(1) [symmetric])
  show "do { q \<leftarrow> SetPrev a b q; q \<leftarrow> SetNext (last_of 0 xs) b q; Some (b, set_name name b q) }
      = Some (fresh p, insert_cell xs name h (a # ys) p)"
    unfolding z_def [symmetric] by (simp only: P1 bind.bind_lunit e q(1) [symmetric])
qed

lemma AddBefore_is_insert:
  assumes "holds p (xs @ a # ys)" "name \<notin> name_at p ` set (xs @ a # ys)"
  shows "AddBefore (name_at p a) name h p = Some (fresh p, insert_cell xs name h (a # ys) p)"
proof -
  have a: "a \<noteq> 0" "GetContext (name_at p a) p = a" "m_head p = first_of (xs @ [a]) 0" "\<not> duplicate name p"
    using holds_cell [OF assms(1), of a] holds_names(1,4) [OF assms(1)] holds_ends [OF assms(1)] assms(2) by simp_all
  show ?thesis
  proof (cases "xs = []")
    case True
    then show ?thesis using a AddFirst_is_insert [OF assms] by (simp add: AddBefore_def)
  next
    case False
    then have "m_head p \<in> set xs" using a(3) first_of_in [OF False, of a] by (cases xs) simp_all
    then have b: "a \<noteq> m_head p" using holds_append(3) [OF assms(1)] by auto
    obtain c where c: "cells p a = Some c" "hc_prev c = last_of 0 xs" by (rule seg_cell_links [OF assms(1)])
    obtain b' q where n: "new_cell (last_of 0 xs) a name h p = (b', q)" by (cases "new_cell (last_of 0 xs) a name h p")
    show ?thesis using link_between(1) [OF assms(1) False n] a(1,4) b by (simp add: AddBefore_def a(2) c n Let_def)
  qed
qed

lemma AddAfter_is_insert:
  assumes "holds p (xs @ a # ys)" "name \<notin> name_at p ` set (xs @ a # ys)"
  shows "AddAfter (name_at p a) name h p = Some (fresh p, insert_cell (xs @ [a]) name h ys p)"
proof -
  have a: "a \<noteq> 0" "GetContext (name_at p a) p = a" "m_tail p = last_of a ys" "\<not> duplicate name p"
    using holds_cell [OF assms(1), of a] holds_names(1,4) [OF assms(1)] holds_ends [OF assms(1)] assms(2)
    by (simp_all add: last_of_Nil)
  show ?thesis
  proof (cases ys)
    case Nil
    then show ?thesis using a AddLast_is_insert [OF assms] by (simp add: AddAfter_def)
  next
    case (Cons z zs)
    then have "m_tail p \<in> set ys" using a(3) last_of_in [of ys a] by simp
    then have b: "a \<noteq> m_tail p" using holds_append(3) [OF assms(1)] by auto
    have H: "holds p ((xs @ [a]) @ z # zs)" using assms(1) Cons by simp
    obtain c where c: "cells p a = Some c" "hc_next c = z" using seg_cell_links [OF assms(1)] Cons by (metis first_of_simps(2))
    obtain b' q where n: "new_cell (last_of 0 (xs @ [a])) z name h p = (b', q)"
      by (cases "new_cell (last_of 0 (xs @ [a])) z name h p")
    have k: "new_cell a z name h p = (b', q)" using n by simp
    show ?thesis using link_between(2) [OF H _ n] a(1,4) b Cons by (simp add: AddAfter_def a(2) c k Let_def)
  qed
qed

lemma free_null [simp]: "free_cell 0 p = Some p"
  by (simp add: free_cell_def)

lemma holds_single: "holds p [a] \<Longrightarrow> map_erase (name_at p a) (m_name2ctx p) = []"
  using holds_names(2) [OF cut_cell_holds(1) [of p "[]" a "[]"]] by (simp add: cut_cell_def)

lemma empty_is_cut:
  assumes "holds p [a]"
  shows "free_cell a (empty_list p) = Some (cut_cell [] a [] p)"
  using holds_cell [OF assms, of a] holds_single [OF assms] by (simp add: empty_list_def free_cell_eq cut_cell_def)

lemma RemoveFirst_is_cut:
  assumes "holds p (a # ys)"
  shows "RemoveFirst p = Some (Some (handler_at p a), cut_cell [] a ys p)"
proof -
  obtain c where c: "cells p a = Some c" "hc_next c = first_of ys 0" "hc_name c = name_at p a" "hc_handler c = handler_at p a"
    using seg_cell_links [of p "[]" a ys] assms by auto
  have a: "a \<noteq> 0" "m_head p = a" "cells p a \<noteq> None"
    using holds_cell [OF assms, of a] holds_ends [OF assms] by simp_all
  show ?thesis
  proof (cases ys)
    case Nil
    then show ?thesis using empty_is_cut [of p a] assms a c by (simp add: RemoveFirst_def)
  next
    case (Cons z zs)
    have z: "z \<noteq> 0" "cells p z \<noteq> None" "z \<noteq> a" "m_tail p = last_of z zs"
      using holds_cell [OF assms, of z] holds_ends [OF assms] assms Cons by (auto simp: holds_def)
    have "RemoveFirst p = map_option (\<lambda>q. (Some (hc_handler c), q))
      (free_cell a (drop_name (hc_name c) (p\<lparr>cells := set_prev z 0 (cells p), m_head := z\<rparr>)))"
      using a c z Cons by (simp add: RemoveFirst_def SetPrev_eq map_option_bind comp_def map_conv_bind_option)
    also have "free_cell a (drop_name (hc_name c) (p\<lparr>cells := set_prev z 0 (cells p), m_head := z\<rparr>)) = Some (cut_cell [] a ys p)"
      using a c z Cons by (simp add: drop_name_def free_cell_eq cut_cell_def)
    finally show ?thesis using c by simp
  qed
qed

lemma RemoveLast_is_cut:
  assumes "holds p (xs @ [a])"
  shows "RemoveLast p = Some (Some (handler_at p a), cut_cell xs a [] p)"
proof -
  obtain c where c: "cells p a = Some c" "hc_prev c = last_of 0 xs" "hc_name c = name_at p a" "hc_handler c = handler_at p a"
    by (rule seg_cell_links [OF assms])
  have a: "a \<noteq> 0" "m_tail p = a" "cells p a \<noteq> None"
    using holds_cell [OF assms, of a] holds_ends [OF assms] by simp_all
  show ?thesis
  proof (cases xs rule: rev_cases)
    case Nil
    then show ?thesis using empty_is_cut [of p a] assms a c by (simp add: RemoveLast_def)
  next
    case (snoc zs z)
    have z: "z \<noteq> 0" "cells p z \<noteq> None" "z \<noteq> a" "m_head p = first_of (zs @ [z]) 0"
      using holds_cell [OF assms, of z] holds_ends [OF assms] assms snoc by (auto simp: holds_def)
    have "free_cell a (drop_name (hc_name c) (p\<lparr>cells := set_next z 0 (cells p), m_tail := z\<rparr>)) = Some (cut_cell xs a [] p)"
      using a c z snoc by (simp add: drop_name_def free_cell_eq cut_cell_def)
    then show ?thesis using a c z snoc by (simp add: RemoveLast_def SetNext_eq)
  qed
qed

lemma remove_is_cut:
  assumes "holds p (xs @ a # ys)"
  shows "remove_cell a p = Some (Some (handler_at p a), cut_cell xs a ys p)"
proof -
  have e: "m_head p = first_of (xs @ [a]) 0" "m_tail p = last_of a ys" "distinct (xs @ a # ys)"
    using holds_ends [OF assms] holds_append(3) [OF assms] by (simp_all add: last_of_Nil)
  have a: "a \<noteq> 0" "cells p a \<noteq> None" using holds_cell [OF assms, of a] by simp_all
  obtain c where c: "cells p a = Some c" "hc_prev c = last_of 0 xs" "hc_next c = first_of ys 0" "hc_name c = name_at p a"
    "hc_handler c = handler_at p a" by (rule seg_cell_links [OF assms])
  have hd: "m_head p = a \<longleftrightarrow> xs = []" using e(1,3) by (cases xs) auto
  have tl: "m_tail p = a \<longleftrightarrow> ys = []" using e(2,3) last_of_in [of ys a] by (cases "ys = []") auto
  have ht: "m_head p = m_tail p \<longleftrightarrow> xs = [] \<and> ys = []"
  proof
    assume h: "m_head p = m_tail p"
    have "m_head p \<in> set (xs @ [a])" using e(1) by (cases xs) simp_all
    moreover have "m_tail p \<in> insert a (set ys)" using e(2) last_of_in [of ys a] by (cases "ys = []") auto
    ultimately have "m_head p = a" using h e(3) by auto
    then show "xs = [] \<and> ys = []" using h hd tl by simp
  qed (use e in simp)
  consider "xs = []" "ys = []" | z zs where "xs = []" "ys = z # zs" | z zs where "xs = z # zs" "ys = []"
    | "xs \<noteq> []" "ys \<noteq> []" by (cases xs; cases ys) auto
  then show ?thesis
  proof cases
    case 1
    then show ?thesis using a ht c empty_is_cut [of p a] assms by (simp add: remove_cell_def)
  next
    case (2 z zs)
    then show ?thesis using a ht hd c RemoveFirst_is_cut [of p a ys] assms by (simp add: remove_cell_def)
  next
    case (3 z zs)
    then show ?thesis using a ht hd tl c RemoveLast_is_cut [of p xs a] assms by (simp add: remove_cell_def)
  next
    case 4
    define u v where "u = last_of 0 xs" and "v = first_of ys 0"
    have "u \<in> set xs" "v \<in> set ys" using last_of_in [OF 4(1)] first_of_in [OF 4(2)] by (simp_all add: u_def v_def)
    then have n: "u \<noteq> 0" "v \<noteq> 0" "u \<noteq> a" "v \<noteq> a" "u \<noteq> v" "cells p u \<noteq> None" "cells p v \<noteq> None"
      using holds_cell [OF assms, of u] holds_cell [OF assms, of v] e(3) by auto
    let ?q = "p\<lparr>cells := set_prev v u (set_next u v (cells p))\<rparr>"
    have s: "SetNext u v p = Some (p\<lparr>cells := set_next u v (cells p)\<rparr>)"
      "SetPrev v u (p\<lparr>cells := set_next u v (cells p)\<rparr>) = Some ?q"
      using n by (simp_all add: SetNext_eq SetPrev_eq)
    have k: "cells (drop_name (hc_name c) ?q) a \<noteq> None" "a \<noteq> 0" using a by (simp_all add: drop_name_def)
    have ends: "m_head p = first_of xs v" "m_tail p = last_of u ys"
      using e(1) 4(1) by (cases xs; simp) (use e(2) 4(2) in \<open>simp add: last_of_def\<close>)
    have q: "(drop_name (hc_name c) ?q)\<lparr>cells := (cells (drop_name (hc_name c) ?q))(a := None)\<rparr> = cut_cell xs a ys p"
      unfolding drop_name_def cut_cell_def u_def [symmetric] v_def [symmetric] c
      by (rule pipeline.equality) (use ends 4 n set_links_commute [of v u] in \<open>simp_all add: v_def u_def last_of_def\<close>)
    have "free_cell a (drop_name (hc_name c) ?q) = Some (cut_cell xs a ys p)"
      unfolding free_cell_eq [OF k(2,1)] q by (rule refl)
    then show ?thesis using a(1) ht hd tl 4 c s unfolding u_def [symmetric] v_def [symmetric]
      by (simp add: remove_cell_def)
  qed
qed

lemma free_all_cells:
  "distinct (map snd m) \<Longrightarrow> (\<And>a. a \<in> snd ` set m \<Longrightarrow> a \<noteq> 0 \<and> cells p a \<noteq> None)
    \<Longrightarrow> free_all m p = Some (p\<lparr>cells := (\<lambda>a. if a \<in> snd ` set m then None else cells p a)\<rparr>)"
proof (induction m arbitrary: p)
  case (Cons e m)
  obtain n a where e: "e = (n, a)" by (cases e)
  let ?p = "p\<lparr>cells := (cells p)(a := None)\<rparr>"
  have f: "free_cell a p = Some ?p" using Cons.prems(2) [of a] e by (simp add: free_cell_eq)
  have "free_all m ?p = Some (?p\<lparr>cells := (\<lambda>b. if b \<in> snd ` set m then None else cells ?p b)\<rparr>)"
  proof (rule Cons.IH)
    show "distinct (map snd m)" using Cons.prems(1) by simp
    fix b assume b: "b \<in> snd ` set m"
    then have "b \<noteq> a" using Cons.prems(1) e by auto
    then show "b \<noteq> 0 \<and> cells ?p b \<noteq> None" using Cons.prems(2) [of b] b by simp
  qed
  moreover have "(\<lambda>b. if b \<in> snd ` set m then None else cells ?p b) = (\<lambda>b. if b \<in> snd ` set (e # m) then None else cells p b)"
    using e by auto
  ultimately show ?case using f e by simp
qed simp

lemma clear_empties:
  assumes "holds p as"
  shows "\<exists>q. pipeline_clear p = Some q \<and> holds q []"
proof -
  let ?t = "m_name2ctx p" and ?p = "p\<lparr>m_head := 0, m_tail := 0\<rparr>"
  have N: "map_ok ?t" "map_find n ?t = Some a \<longleftrightarrow> a \<in> set as \<and> name_at p a = n" for n a
    using assms unfolding holds_def names_ok_def by blast+
  have t: "(n, a) \<in> set ?t \<longleftrightarrow> a \<in> set as \<and> name_at p a = n" for n a
    using N(2) [of n a] map_find_Some [OF N(1), of n a] by simp
  have s: "snd ` set ?t = set as"
  proof (rule set_eqI)
    fix b
    have "b \<in> snd ` set ?t \<longleftrightarrow> (\<exists>n. (n, b) \<in> set ?t)" by force
    then show "b \<in> snd ` set ?t \<longleftrightarrow> b \<in> set as" by (simp add: t)
  qed
  have "inj_on snd (set ?t)"
  proof (rule inj_onI)
    fix x y assume h: "x \<in> set ?t" "y \<in> set ?t" "snd x = snd y"
    have "fst z = name_at p (snd z)" if "z \<in> set ?t" for z using t [of "fst z" "snd z"] that by simp
    then show "x = y" using h by (simp add: prod_eq_iff)
  qed
  moreover have "distinct ?t" using N(1) by (simp add: map_ok_def distinct_map strict_sorted_iff)
  ultimately have d: "distinct (map snd ?t)" by (simp add: distinct_map)
  have f: "free_all ?t ?p = Some (?p\<lparr>cells := (\<lambda>a. if a \<in> snd ` set ?t then None else cells ?p a)\<rparr>)"
    by (rule free_all_cells [OF d]) (use s holds_cell [OF assms] in auto)
  have "dom (\<lambda>a. if a \<in> snd ` set ?t then None else cells ?p a) = dom (cells p) - set as"
    unfolding s by (auto simp: dom_def simp del: not_None_eq)
  then have "dom (\<lambda>a. if a \<in> snd ` set ?t then None else cells ?p a) = {}" using assms by (simp add: holds_def)
  then show ?thesis using f assms by (auto simp: pipeline_clear_def holds_def names_ok_def)
qed

section \<open>The contract\<close>

text \<open>
  What a client sees: a list of names and handlers with no name twice. An addition fails, without an
  effect, for a name that is taken or a base that is missing; a removal returns the handler it removed.
\<close>

type_synonym chain = "(string \<times> channel_handler) list"

datatype pipe_op = Add_First string channel_handler | Add_Last string channel_handler | Add_Before string string channel_handler
  | Add_After string string channel_handler | Remove_First | Remove_Last | Remove_Named string | Clear_All

datatype pipe_result = Added bool | Removed "channel_handler option" | Cleared

definition added :: "nat \<times> pipeline \<Rightarrow> pipe_result \<times> pipeline" where
  "added r = (Added (fst r \<noteq> 0), snd r)"

fun pipe_step :: "pipe_op \<Rightarrow> pipeline \<Rightarrow> (pipe_result \<times> pipeline) option" where
  "pipe_step (Add_First name h) p = map_option added (AddFirst name h p)"
| "pipe_step (Add_Last name h) p = map_option added (AddLast name h p)"
| "pipe_step (Add_Before base name h) p = map_option added (AddBefore base name h p)"
| "pipe_step (Add_After base name h) p = map_option added (AddAfter base name h p)"
| "pipe_step Remove_First p = map_option (apfst Removed) (RemoveFirst p)"
| "pipe_step Remove_Last p = map_option (apfst Removed) (RemoveLast p)"
| "pipe_step (Remove_Named name) p = map_option (apfst Removed) (RemoveName name p)"
| "pipe_step Clear_All p = map_option (Pair Cleared) (pipeline_clear p)"

definition names :: "chain \<Rightarrow> string set" where "names l = fst ` set l"

fun put_at :: "string \<Rightarrow> (string \<times> channel_handler) list \<Rightarrow> chain \<Rightarrow> chain" where
  "put_at base es [] = []"
| "put_at base es (f # l) = (if fst f = base then es @ l else f # put_at base es l)"

definition try_add :: "string \<Rightarrow> chain \<Rightarrow> chain \<Rightarrow> pipe_result \<times> chain" where
  "try_add name l' l = (if name \<in> names l then (Added False, l) else (Added True, l'))"

fun chain_step :: "pipe_op \<Rightarrow> chain \<Rightarrow> pipe_result \<times> chain" where
  "chain_step (Add_First name h) l = try_add name ((name, h) # l) l"
| "chain_step (Add_Last name h) l = try_add name (l @ [(name, h)]) l"
| "chain_step (Add_Before base name h) l =
     (case map_of l base of None \<Rightarrow> (Added False, l) | Some g \<Rightarrow> try_add name (put_at base [(name, h), (base, g)] l) l)"
| "chain_step (Add_After base name h) l =
     (case map_of l base of None \<Rightarrow> (Added False, l) | Some g \<Rightarrow> try_add name (put_at base [(base, g), (name, h)] l) l)"
| "chain_step Remove_First l = (Removed (case l of [] \<Rightarrow> None | e # _ \<Rightarrow> Some (snd e)), tl l)"
| "chain_step Remove_Last l = (Removed (if l = [] then None else Some (snd (last l))), butlast l)"
| "chain_step (Remove_Named name) l = (Removed (map_of l name), put_at name [] l)"
| "chain_step Clear_All l = (Cleared, [])"

lemma put_at_here: "base \<notin> names xs \<Longrightarrow> put_at base es (xs @ (base, g) # ys) = xs @ es @ ys"
  by (induction xs) (auto simp: names_def)

lemma put_at_missing: "base \<notin> names xs \<Longrightarrow> put_at base es xs = xs"
  by (induction xs) (auto simp: names_def)

lemma map_of_here: "base \<notin> names xs \<Longrightarrow> map_of (xs @ (base, g) # ys) base = Some g"
  by (induction xs) (auto simp: names_def)

lemma map_of_missing: "base \<notin> names xs \<longleftrightarrow> map_of xs base = None"
  by (induction xs) (auto simp: names_def)

lemma names_handlers: "names (handlers_of p as) = name_at p ` set as"
  by (force simp: names_def handlers_of_def)

lemma holds_unique:
  assumes "holds p (xs @ a # ys)"
  shows "name_at p a \<notin> names (handlers_of p xs)"
  using assms unfolding names_handlers holds_def names_ok_def by auto

lemma taken_fails:
  assumes "holds p as" "name \<in> name_at p ` set as"
  shows "AddFirst name h p = Some (0, p)" "AddLast name h p = Some (0, p)"
    "as = xs @ a # ys \<Longrightarrow> AddBefore (name_at p a) name h p = Some (0, p)"
    "as = xs @ a # ys \<Longrightarrow> AddAfter (name_at p a) name h p = Some (0, p)"
proof -
  have d: "duplicate name p" "m_name2ctx p \<noteq> []" using assms holds_names(1,2) [OF assms(1)] by auto
  show f: "AddFirst name h p = Some (0, p)" "AddLast name h p = Some (0, p)"
    using d by (simp_all add: AddFirst_def AddLast_def)
  show "as = xs @ a # ys \<Longrightarrow> AddBefore (name_at p a) name h p = Some (0, p)"
    "as = xs @ a # ys \<Longrightarrow> AddAfter (name_at p a) name h p = Some (0, p)"
    using d f by (simp_all add: AddBefore_def AddAfter_def Let_def)
qed

definition simulates :: "(pipe_result \<times> pipeline) option \<Rightarrow> pipe_result \<times> chain \<Rightarrow> bool" where
  "simulates r s \<longleftrightarrow> (\<exists>q bs. r = Some (fst s, q) \<and> holds q bs \<and> handlers_of q bs = snd s)"

lemma simulates_insert:
  assumes "holds p (xs @ ys)" "name \<notin> name_at p ` set (xs @ ys)"
  shows "simulates (map_option added (Some (fresh p, insert_cell xs name h ys p)))
    (Added True, handlers_of p xs @ (name, h) # handlers_of p ys)"
  unfolding simulates_def added_def
  by (rule exI [of _ "insert_cell xs name h ys p"], rule exI [of _ "xs @ fresh p # ys"])
    (use insert_cell_holds [OF assms, of h] holds_append(6) [OF assms(1)] in simp)

lemma simulates_cut:
  assumes "holds p (xs @ a # ys)"
  shows "simulates (map_option (apfst Removed) (Some (Some (handler_at p a), cut_cell xs a ys p)))
    (Removed (Some (handler_at p a)), handlers_of p xs @ handlers_of p ys)"
  unfolding simulates_def
  by (rule exI [of _ "cut_cell xs a ys p"], rule exI [of _ "xs @ ys"]) (use cut_cell_holds [OF assms] in simp)

lemma simulates_stays: "holds p as \<Longrightarrow> simulates (Some (r, p)) (r, handlers_of p as)"
  unfolding simulates_def by auto

text \<open>The two ends, a named place and a name that is not there.\<close>

lemma steps_at_ends:
  assumes "holds p as"
  shows "simulates (pipe_step (Add_First name h) p) (chain_step (Add_First name h) (handlers_of p as))"
    "simulates (pipe_step (Add_Last name h) p) (chain_step (Add_Last name h) (handlers_of p as))"
    "simulates (pipe_step Remove_First p) (chain_step Remove_First (handlers_of p as))"
    "simulates (pipe_step Remove_Last p) (chain_step Remove_Last (handlers_of p as))"
proof -
  show "simulates (pipe_step (Add_First name h) p) (chain_step (Add_First name h) (handlers_of p as))"
  proof (cases "name \<in> name_at p ` set as")
    case True
    then show ?thesis using taken_fails(1) [OF assms True] simulates_stays [OF assms]
      by (simp add: try_add_def names_handlers added_def)
  next
    case False
    then show ?thesis using AddFirst_is_insert [OF assms False] simulates_insert [of p "[]" as name h] assms
      by (simp add: try_add_def names_handlers)
  qed
  show "simulates (pipe_step (Add_Last name h) p) (chain_step (Add_Last name h) (handlers_of p as))"
  proof (cases "name \<in> name_at p ` set as")
    case True
    then show ?thesis using taken_fails(2) [OF assms True] simulates_stays [OF assms]
      by (simp add: try_add_def names_handlers added_def)
  next
    case False
    then show ?thesis using AddLast_is_insert [OF assms False] simulates_insert [of p as "[]" name h] assms
      by (simp add: try_add_def names_handlers)
  qed
  show "simulates (pipe_step Remove_First p) (chain_step Remove_First (handlers_of p as))"
  proof (cases as)
    case Nil
    then show ?thesis using simulates_stays [OF assms] holds_ends [OF assms] by (simp add: RemoveFirst_def)
  next
    case (Cons a ys)
    then show ?thesis using RemoveFirst_is_cut [of p a ys] simulates_cut [of p "[]" a ys] assms by simp
  qed
  show "simulates (pipe_step Remove_Last p) (chain_step Remove_Last (handlers_of p as))"
  proof (cases as rule: rev_cases)
    case Nil
    then show ?thesis using simulates_stays [OF assms] holds_ends [OF assms] by (simp add: RemoveLast_def)
  next
    case (snoc xs a)
    then show ?thesis using RemoveLast_is_cut [of p xs a] simulates_cut [of p xs a "[]"] assms by (simp add: butlast_append)
  qed
qed

lemma steps_at_name:
  assumes "holds p as"
  shows "simulates (pipe_step (Add_Before base name h) p) (chain_step (Add_Before base name h) (handlers_of p as))"
      (is ?before)
    "simulates (pipe_step (Add_After base name h) p) (chain_step (Add_After base name h) (handlers_of p as))"
      (is ?after)
    "simulates (pipe_step (Remove_Named base) p) (chain_step (Remove_Named base) (handlers_of p as))"
      (is ?remove)
proof -
  have "?before \<and> ?after \<and> ?remove" if no: "GetContext base p = 0"
  proof -
    have "base \<notin> names (handlers_of p as)"
    proof
      assume "base \<in> names (handlers_of p as)"
      then obtain a where "a \<in> set as" "base = name_at p a" by (auto simp: names_handlers)
      then show False using no holds_names(4) [OF assms] holds_cell [OF assms] by auto
    qed
    then have m: "map_of (handlers_of p as) base = None" "put_at base [] (handlers_of p as) = handlers_of p as"
      using map_of_missing put_at_missing by blast+
    show ?thesis using simulates_stays [OF assms] no
      by (simp add: AddBefore_def AddAfter_def RemoveName_def remove_cell_def added_def m)
  qed
  moreover have "?before \<and> ?after \<and> ?remove" if there: "GetContext base p \<noteq> 0"
  proof -
    obtain xs a ys where a: "as = xs @ a # ys" "name_at p a = base" "GetContext base p = a"
      using holds_split [OF assms there] by metis
    let ?g = "handler_at p a"
    have H: "holds p (xs @ a # ys)" "holds p ((xs @ [a]) @ ys)" using assms a(1) by simp_all
    have u: "base \<notin> names (handlers_of p xs)" using holds_unique [OF H(1)] a(2) by simp
    have l: "handlers_of p as = handlers_of p xs @ (base, ?g) # handlers_of p ys" using a by simp
    have m: "map_of (handlers_of p as) base = Some ?g" unfolding l by (rule map_of_here [OF u])
    have put: "put_at base es (handlers_of p as) = handlers_of p xs @ es @ handlers_of p ys" for es
      unfolding l by (rule put_at_here [OF u])
    have "?remove" using remove_is_cut [OF H(1)] simulates_cut [OF H(1)] a(3) m put by (simp add: RemoveName_def)
    moreover have "?before \<and> ?after"
    proof (cases "name \<in> name_at p ` set as")
      case True
      then show ?thesis using taken_fails(3,4) [OF assms True a(1)] simulates_stays [OF assms] a(2) m
        by (simp add: try_add_def names_handlers added_def)
    next
      case False
      have n: "name \<notin> name_at p ` set (xs @ a # ys)" "name \<notin> name_at p ` set ((xs @ [a]) @ ys)" using False a(1) by auto
      show ?thesis using AddBefore_is_insert [OF H(1) n(1), of h] AddAfter_is_insert [OF H(1) n(1), of h]
          simulates_insert [OF H(1) n(1), of h] simulates_insert [OF H(2) n(2), of h] a(2) m put False
        by (simp add: try_add_def names_handlers)
    qed
    ultimately show ?thesis by blast
  qed
  ultimately show ?before ?after ?remove by blast+
qed

lemma steps_clear:
  assumes "holds p as"
  shows "simulates (pipe_step Clear_All p) (chain_step Clear_All (handlers_of p as))"
proof -
  obtain q where "pipeline_clear p = Some q" "holds q []" using clear_empties [OF assms] by blast
  then show ?thesis using simulates_stays [of q "[]" Cleared] by simp
qed

lemma pipe_step_refines: "holds p as \<Longrightarrow> simulates (pipe_step op p) (chain_step op (handlers_of p as))"
  by (cases op) (simp_all only: steps_at_ends steps_at_name steps_clear)

fun run_pipe :: "pipe_op list \<Rightarrow> pipeline \<Rightarrow> (pipe_result list \<times> pipeline) option" where
  "run_pipe [] p = Some ([], p)"
| "run_pipe (op # ops) p =
     do { (r, p) \<leftarrow> pipe_step op p; (rs, p) \<leftarrow> run_pipe ops p; Some (r # rs, p) }"

fun run_chain :: "pipe_op list \<Rightarrow> chain \<Rightarrow> pipe_result list \<times> chain" where
  "run_chain [] l = ([], l)"
| "run_chain (op # ops) l = (let (r, l) = chain_step op l; (rs, l) = run_chain ops l in (r # rs, l))"

lemma run_refines:
  "holds p as \<Longrightarrow> \<exists>q bs. run_pipe ops p = Some (fst (run_chain ops (handlers_of p as)), q)
    \<and> holds q bs \<and> handlers_of q bs = snd (run_chain ops (handlers_of p as))"
proof (induction ops arbitrary: p as)
  case (Cons op ops)
  obtain q bs where q: "pipe_step op p = Some (fst (chain_step op (handlers_of p as)), q)" "holds q bs"
    "handlers_of q bs = snd (chain_step op (handlers_of p as))"
    using pipe_step_refines [OF Cons.prems, of op] unfolding simulates_def by blast
  obtain q' cs where "run_pipe ops q = Some (fst (run_chain ops (handlers_of q bs)), q')" "holds q' cs"
    "handlers_of q' cs = snd (run_chain ops (handlers_of q bs))" using Cons.IH [OF q(2)] by blast
  then show ?case using q(1,3) by (intro exI [of _ q'] exI [of _ cs]) (simp add: case_prod_beta)
qed auto

lemma holds_new: "holds pipeline_new []"
  by (simp add: holds_def pipeline_new_def names_ok_def)

text \<open>
  C11: (\<open>common/channel/channel_pipeline.cpp\<close>) Every sequence of additions before, behind, in front and at the
  end, of removals and of clearings runs on the linked cells of a new pipeline without the use of a null or
  freed pointer, returns what the same sequence returns on a plain list of names and handlers, and ends in
  a well linked pipeline that holds that list, in which no cell is leaked and the table of names is exact.
\<close>

theorem pipeline_refines:
  "\<exists>q bs. run_pipe ops pipeline_new = Some (fst (run_chain ops []), q)
    \<and> holds q bs \<and> handlers_of q bs = snd (run_chain ops [])"
  using run_refines [OF holds_new, of ops] by simp

section \<open>The way of an event\<close>

definition taker :: "nat option \<Rightarrow> nat" where "taker r = (case r of None \<Rightarrow> 0 | Some a \<Rightarrow> a)"

lemma taker_simps [simp]: "taker None = 0" "taker (Some a) = a" by (simp_all add: taker_def)

definition takes_up :: "(channel_handler \<Rightarrow> bool) \<Rightarrow> pipeline \<Rightarrow> nat \<Rightarrow> bool" where
  "takes_up fits p a \<longleftrightarrow> can_up (handler_at p a) \<and> fits (handler_at p a)"

definition takes_down :: "(channel_handler \<Rightarrow> bool) \<Rightarrow> pipeline \<Rightarrow> nat \<Rightarrow> bool" where
  "takes_down fits p a \<longleftrightarrow> can_down (handler_at p a) \<and> fits (handler_at p a)"

lemma send_null [simp]: "SendUpstream fits 0 p = Some 0" "SendDownstream fits 0 p = Some 0"
  by (subst SendUpstream.simps, subst GetActualUpstreamContext.simps, simp)
    (subst SendDownstream.simps, subst GetActualDownstreamContext.simps, simp)

lemma send_skips:
  "a \<noteq> 0 \<Longrightarrow> cells p a = Some c \<Longrightarrow> \<not> canHandleUpstream c \<Longrightarrow> SendUpstream fits a p = SendUpstream fits (hc_next c) p"
  "a \<noteq> 0 \<Longrightarrow> cells p a = Some c \<Longrightarrow> \<not> canHandleDownstream c \<Longrightarrow> SendDownstream fits a p = SendDownstream fits (hc_prev c) p"
proof -
  show "SendUpstream fits a p = SendUpstream fits (hc_next c) p"
    if "a \<noteq> 0" "cells p a = Some c" "\<not> canHandleUpstream c"
    using that by (subst (1 2) SendUpstream.simps) (subst (1) GetActualUpstreamContext.simps, simp)
  show "SendDownstream fits a p = SendDownstream fits (hc_prev c) p"
    if "a \<noteq> 0" "cells p a = Some c" "\<not> canHandleDownstream c"
    using that by (subst (1 2) SendDownstream.simps) (subst (1) GetActualDownstreamContext.simps, simp)
qed

lemma send_stops:
  "a \<noteq> 0 \<Longrightarrow> cells p a = Some c \<Longrightarrow> canHandleUpstream c
    \<Longrightarrow> SendUpstream fits a p = (if fits (hc_handler c) then Some a else SendUpstream fits (hc_next c) p)"
  "a \<noteq> 0 \<Longrightarrow> cells p a = Some c \<Longrightarrow> canHandleDownstream c
    \<Longrightarrow> SendDownstream fits a p = (if fits (hc_handler c) then Some a else SendDownstream fits (hc_prev c) p)"
proof -
  show "SendUpstream fits a p = (if fits (hc_handler c) then Some a else SendUpstream fits (hc_next c) p)"
    if "a \<noteq> 0" "cells p a = Some c" "canHandleUpstream c"
    using that by (subst (1) SendUpstream.simps, subst (1) GetActualUpstreamContext.simps) simp
  show "SendDownstream fits a p = (if fits (hc_handler c) then Some a else SendDownstream fits (hc_prev c) p)"
    if "a \<noteq> 0" "cells p a = Some c" "canHandleDownstream c"
    using that by (subst (1) SendDownstream.simps, subst (1) GetActualDownstreamContext.simps) simp
qed

lemma up_reaches:
  "seg (cells p) pr as 0 \<Longrightarrow> 0 \<notin> set as \<Longrightarrow> SendUpstream fits (first_of as 0) p = Some (taker (find (takes_up fits p) as))"
proof (induction as arbitrary: pr)
  case (Cons a as)
  obtain c where c: "cells p a = Some c" "linked c pr (first_of as 0)" using Cons.prems by auto
  have h: "canHandleUpstream c = can_up (handler_at p a)" "hc_handler c = handler_at p a" "hc_next c = first_of as 0"
    using c by (simp_all add: linked_def handler_at_def)
  have rest: "SendUpstream fits (hc_next c) p = Some (taker (find (takes_up fits p) as))"
    using Cons.IH [of a] Cons.prems h(3) by simp
  have a: "a \<noteq> 0" using Cons.prems by auto
  show ?case
  proof (cases "canHandleUpstream c")
    case True
    then show ?thesis using send_stops(1) [OF a c(1) True] rest h takes_up_def [of fits p a] by simp
  next
    case False
    then show ?thesis using send_skips(1) [OF a c(1) False] rest h takes_up_def [of fits p a] by simp
  qed
qed simp

lemma down_reaches:
  "seg (cells p) 0 as nx \<Longrightarrow> 0 \<notin> set as \<Longrightarrow> SendDownstream fits (last_of 0 as) p = Some (taker (find (takes_down fits p) (rev as)))"
proof (induction as arbitrary: nx rule: rev_induct)
  case (snoc a as)
  obtain c where c: "cells p a = Some c" "linked c (last_of 0 as) nx" using snoc.prems by auto
  have h: "canHandleDownstream c = can_down (handler_at p a)" "hc_handler c = handler_at p a" "hc_prev c = last_of 0 as"
    using c by (simp_all add: linked_def handler_at_def)
  have rest: "SendDownstream fits (hc_prev c) p = Some (taker (find (takes_down fits p) (rev as)))"
    using snoc.IH [of a] snoc.prems h(3) by simp
  have a: "a \<noteq> 0" using snoc.prems by auto
  show ?case
  proof (cases "canHandleDownstream c")
    case True
    then show ?thesis using send_stops(2) [OF a c(1) True] rest h takes_down_def [of fits p a] by simp
  next
    case False
    then show ?thesis using send_skips(2) [OF a c(1) False] rest h takes_down_def [of fits p a] by simp
  qed
qed simp

text \<open>
  C32: (\<open>common/channel/all_includes.hpp\<close>) After any sequence of changes to a pipeline an event sent upstream is
  handled by the first handler from the head that takes upstream events of its type, one sent downstream by the
  first from the tail that takes downstream events of its type, or by nobody when there is none; the search ends.
\<close>

theorem events_reach_first:
  "\<exists>rs q as. run_pipe ops pipeline_new = Some (rs, q) \<and> holds q as
    \<and> SendUpstream fits (m_head q) q = Some (taker (find (takes_up fits q) as))
    \<and> SendDownstream fits (m_tail q) q = Some (taker (find (takes_down fits q) (rev as)))"
proof -
  obtain q as where q: "run_pipe ops pipeline_new = Some (fst (run_chain ops []), q)" "holds q as"
    using run_refines [OF holds_new, of ops] by auto
  have s: "seg (cells q) 0 as 0" "0 \<notin> set as" using q(2) by (auto simp: holds_def)
  show ?thesis using q up_reaches [OF s] down_reaches [OF s] holds_ends [OF q(2)] by auto
qed

end
