(* ===== verification/Spec2Isabelle.thy ===== *)
theory Spec2Isabelle
  imports Frame_Decoder Call_Properties Repl_Slave Snapshot Snapshot_Packed Timer Cron Cmd_Admin Pipeline
begin

text \<open>
  A verification library for comms, a server that speaks the Redis protocol over the mmkv storage
  engine. The sources are under \<open>src/\<close> of the repository; all paths below are relative to it. The
  language is C++ (with some C), so the integers of the model are either \<open>int\<close> and \<open>nat\<close> with the
  conversions of the C types written out (\<open>c_int\<close>, \<open>c_uint32\<close>, \<open>c_int64\<close>, \<open>c_size\<close> of \<open>Comms_Prelude\<close>)
  or words (the checksums), bytes are \<open>char\<close>, and a read outside a block, an exception nobody catches
  or the use of a null pointer is a value: \<open>None\<close>, \<open>Inl\<close> of a \<open>crash\<close>, or a flag of the state
  (\<open>fault\<close> of a server, \<open>stuck\<close> of a node).

  The parts of the program and the theories that model them.

  \<^item> Bytes and numbers. \<open>Byte_Buffer\<close>: \<open>common/buffer/buffer.hpp\<close> and \<open>.cpp\<close>, the record \<open>Buffer\<close> with its
    indices, growing, reading, writing, formatting and searching. \<open>Decimal\<close>: printing and parsing of
    integers (\<open>common/util/string_helper.cpp\<close>, \<open>helpers.hpp\<close>). \<open>String_Helper\<close>: splitting, trimming and
    versions. \<open>Glob_Match\<close>: \<open>stringmatchlen\<close> of \<open>common/util/redis_helper.cpp\<close>, with a reference
    matcher. \<open>Tree_Map\<close>: the ordered maps and sets of the state and tables from keys to contexts.
  \<^item> The wire. \<open>Redis_Reply\<close>: replies, their encoder and decoder. \<open>Command_Codec\<close>: requests, inline and
    multi-bulk, their encoder and decoder. \<open>Frame_Decoder\<close>: the accumulation of packets into messages,
    snapshot chunks, and the decoder that switches between the three kinds of message
    (\<open>common/channel/codec\<close>).
  \<^item> The server. \<open>Server_State\<close>: contexts, configuration, tables and queues (\<open>context.hpp\<close>, \<open>comms.hpp\<close>),
    error replies and changed keys. \<open>Cmd_Strings\<close>, \<open>Cmd_Keys\<close>, \<open>Cmd_Hashes\<close>, \<open>Cmd_Sets\<close>, \<open>Cmd_Zsets\<close>,
    \<open>Cmd_Lists\<close>, \<open>Cmd_Server\<close>, \<open>Transactions\<close>, \<open>Pubsub\<close>, \<open>Slowlog_Stats\<close>: one definition per handler of
    \<open>command/*.cpp\<close> and per operation of \<open>statistics.cpp\<close>. \<open>Dispatch\<close>: the command table, \<open>DoCall\<close>, \<open>Call\<close>
    and the events of a client connection (\<open>comms.cpp\<close>, \<open>network.cpp\<close>). \<open>Server_Invariant\<close>: the reachable
    states of a server and what every handler keeps. \<open>Call_Properties\<close>: what a call does.
  \<^item> Replication. \<open>Wal\<close>: the log with its ring cache and its checksum (\<open>replication/swal.c\<close>,
    \<open>common/redis/crc64.c\<close>). \<open>Repl_Service\<close>: a node, that is a server with its log, the slaves it feeds
    and the link to its master, and the operations on offsets and checksums (\<open>repl.cpp\<close>). \<open>Repl_Master\<close>
    (\<open>master.cpp\<close>) and \<open>Repl_Slave\<close> (\<open>slave.cpp\<close>): the two roles.
  \<^item> Snapshots (\<open>replication/snapshot.cpp\<close>). \<open>Byte_Codec\<close>: numbers as bytes and reading at a position.
    \<open>Lzf\<close>: the compressor and the decompressor (\<open>common/redis/lzf_c.c\<close>, \<open>lzf_d.c\<close>). \<open>Ziplist\<close> and
    \<open>Zipmap_Intset\<close>: the packed formats (\<open>ziplist.c\<close>, \<open>zipmap.c\<close>, \<open>intset.c\<close>). \<open>Rdb\<close>: lengths, strings and numbers
    of a redis file, with writes that may fail. \<open>Snapshot_Load\<close>: objects and whole files as the calls that
    rebuild the keys. \<open>Snapshot_Save\<close>: writing the entries of the engine. \<open>Snapshot\<close>: opening, renaming,
    saving, loading and the state of the last save. \<open>Snapshot_Packed\<close>: what loading a packed value gives.
  \<^item> Running the server. \<open>Pipeline\<close>: the linked handlers of a channel and the way of an event through them
    (\<open>common/channel/channel_pipeline.cpp\<close>). \<open>Timer\<close>: the heap of timer tasks and the timer (\<open>common/channel/timer\<close>). \<open>Cron\<close>: the
    periodic tasks (\<open>cron.cpp\<close>). \<open>Config_File\<close>: properties, their file and environment variables
    (\<open>common/util/config_helper.cpp\<close>). \<open>Config_Parse\<close>: the configuration as a record that extends the part
    the commands read (\<open>config.cpp\<close>). \<open>Cmd_Admin\<close>: \<open>CONFIG\<close>, \<open>INFO\<close>, the snapshot commands and the replication
    handshake (\<open>command/server.cpp\<close>).

  How the parts interact. A packet goes through a message decoder (\<open>Frame_Decoder\<close>) to \<open>RequestReceived\<close>
  (\<open>Dispatch\<close>), which runs \<open>Call\<close>; \<open>Call\<close> finds the handler, runs it through \<open>DoCall\<close> and posts the command
  to the queue \<open>wal_queue\<close> if it changed data. The replication thread takes it from there
  (\<open>WriteWALCallback\<close>), appends it to the log and feeds the slaves. A slave receives the same bytes
  through the same decoder, logs them and runs \<open>Call\<close> on them in turn. Blocked clients and posted
  messages wait in queues of the state as well (\<open>wake_queue\<close>, \<open>async_queue\<close>).

  Conventions. A handler is a function from a context, a frame and a state to a state, composed as the
  code composes it. The storage engine (a git submodule that is not in the repository) is the
  parameter \<open>mmkv\<close>: one function that answers a named operation and gives the next engine state. The
  conversion of floating point numbers, the handlers that are not modelled (\<open>other_handler\<close>), the clock
  and the contents of fresh memory are parameters too. \<open>s\<close>, \<open>n\<close>, \<open>w\<close> are states of a server, a node
  and a log, \<open>t\<close> of a timer. An open snapshot is a record with the rest of the file to read or the bytes
  written so far; the file system, the doubles of the C library, backup and restore of the engine and the
  clock around a callback are parameters. The interfaces between components are locales, each
  interpreted on the definitions of the code: \<open>frame_decoder\<close> (what the packet loop needs of a decoder), the registries of contexts by key
  (watched keys, channels, patterns and blocked lists), and \<open>log_store\<close> (what a reader of the log needs).

  What the lemmas show. Round trips of buffers, numbers, requests and replies, under every
  fragmentation of the stream; equality of the glob matcher with its reference; agreement of the four
  registries with the contexts in every reachable state; the effect of a call on data, log and other
  clients on every branch; the semantics of transactions, subscriptions and blocked clients; the log
  as a refinement of an append-only history, its replay and its reopening; the exactness of the test
  for a partial resynchronisation; the stream a slave receives, and that it catches up; and the slave,
  which executes the log in order, each command once. A saved snapshot loads back, compression is undone
  without leaving a buffer, packed lists and hashes load as they were built; the timer keeps its heap and
  runs what is due in the order of time; the linked cells of a pipeline refine a list; a configuration file is read as it was printed. The errors that
  modelling showed are theorems as well.

  Bounds and fuel. \<open>DoCall\<close> has a depth: \<open>EXEC\<close> is the only handler that calls it, \<open>EXEC\<close> is never
  queued, so depth 1 suffices and a deeper call would set \<open>fault\<close>. Loops that consume a buffer have as
  much fuel as readable bytes plus one, with lemmas that this is enough (\<open>command_loop_ends\<close>,
  \<open>inline_loop_total\<close>, \<open>decode_reply_returns\<close>). The loops of the log, of splitting a string and of
  replaying a piece are partial functions, since a log or cache of size zero and an empty separator make
  them run forever; \<open>append_extends_log\<close> and \<open>replay_executes_the_log\<close> show that they return. Loading a
  packed set of integers, running the timer, sending an event and replacing variables are partial functions too: \<open>None\<close>
  means that the code does not return (\<open>intset_members_lost\<close>, \<open>Routine_never_ends\<close>, \<open>expand_env_never_ends\<close>),
  and \<open>timer_runs_what_is_due\<close> and \<open>expand_env_ends\<close> show when it does. Offsets are assumed below \<open>2 ^ 63\<close> where the code mixes signed and unsigned ones.

  Simplifications. One task runs at a time: the threads of the server and of replication interleave at
  the granularity of events. A channel that is told to close is closed by a later event (for the link of a slave
  both ways are modelled, since closing at once clears a pointer). The yielding of the replication
  thread to its event loop is modelled while a snapshot is loaded, not between two replayed commands.

  Not modelled: sockets, the event loop, threads and locks (their effects are the events of the model);
  logging; scripting (calls into the Lua interpreter); \<open>SHUTDOWN\<close>, which stops the event loop, and
  \<open>GEOSEARCH\<close>, whose options the engine initialises; the updates of packed formats that the program never
  calls; ini files; the generated structure codecs. The master and the slave take saving and loading of a
  snapshot as parameters, and the dispatcher takes the handlers of \<open>Cmd_Admin\<close> as a parameter, since they act
  on more than the server.
\<close>

section \<open>The tables and the contexts agree\<close>

lemma initial_inv: "server_inv (initial_server st cfg settings clk hp)"
  by (simp add: inv_defs watch_reg.consistent_def chan_reg.consistent_def pat_reg.consistent_def
      block_reg.consistent_def table_ok_def table_lookup_def initial_server_def ctx_def watched_def
      channels_of_def patterns_of_def blocked_def queued_def getter_defs Context_new_def
      PubSubContext_new_def ListBlockContext_new_def TranscContext_new_def)


lemma demo_other_keeps: "other_keeps demo_libs"
  by (simp add: other_keeps_def demo_libs_def keeps_refl)

text \<open>A client connects, another one connects and the first one is closed.\<close>

definition demo_run :: "nat server" where
  "demo_run = DeleteHandler 5 (RequestChannelClosed 5 (RequestChannelConnected 6 2 ''addr'' None
     (RequestChannelConnected 5 1 ''addr'' None demo_state)))"

lemma ctx_connect_steps [simp]:
  "ctx (AddClientContext c s) = ctx s" "ctx (IncAcceptedClient addr v s) = ctx s"
  "ctx (Channel_Close ch s) = ctx s" "ctx (s\<lparr>fault := True\<rparr>) = ctx s"
  by (simp_all add: AddClientContext_def IncAcceptedClient_def on_stat_def Channel_Close_def ctx_def fun_eq_iff
      split: option.split)

lemma ctx_connect_other:
  "c' \<noteq> c \<Longrightarrow> ctx (RequestChannelConnected c ch addr remote s) c' = ctx s c'"
  unfolding RequestChannelConnected_def Let_def split_beta by (simp split: option.split bool.split)

lemma demo_run_reachable:
  "reachable demo_libs (initial_server 0 default_config demo_settings (\<lambda>n. n) (\<lambda>_. NUL)) demo_run"
proof -
  let ?s1 = "RequestChannelConnected 5 1 ''addr'' None demo_state"
  let ?s2 = "RequestChannelConnected 6 2 ''addr'' None ?s1"
  have n: "ctx demo_state c = Context_new" for c by (simp add: demo_state_def)
  have "event demo_libs demo_state ?s1" by (rule event.connect) (simp_all add: TRANSC_CTX_def n)
  moreover have "event demo_libs ?s1 ?s2"
    by (rule event.connect) (simp_all add: TRANSC_CTX_def n ctx_connect_other)
  moreover have "event demo_libs ?s2 demo_run"
    unfolding demo_run_def by (rule event.close) (simp add: TRANSC_CTX_def)
  ultimately show ?thesis unfolding demo_state_def by (blast intro: reachable.intros)
qed


lemma wake_queue_drop [simp]:
  "wake_queue (UnwatchKeys c s) = wake_queue s" "wake_queue (drop_channel c k s) = wake_queue s"
  "wake_queue (drop_pattern c p s) = wake_queue s" "wake_queue (ClearBlockKeys c s) = wake_queue s"
  by (simp_all add: UnwatchKeys_def drop_channel_def drop_pattern_def UnsubscribeChannel_def
      PUnsubscribeChannel_def on_pubsub_def ClearBlockKeys_def Let_def split: option.split)

lemma wake_queue_fold [simp]:
  "wake_queue (fold (drop_channel c) ks s) = wake_queue s" "wake_queue (fold (drop_pattern c) ks s) = wake_queue s"
  by (induction ks arbitrary: s) simp_all

lemma closed_wake_queue: "wake_queue (RequestChannelClosed c s) = wake_queue s"
  by (simp add: RequestChannelClosed_def FreeClientContext_def Let_def UnsubscribeAll_del chan_reg.del_all_def
      pat_reg.del_all_def IncAcceptedClient_def on_stat_def split: option.split)



end
